(* ===== verification/Prelude.thy ===== *)
theory Prelude
  imports Main "HOL-Library.Word" "HOL-Library.Multiset"
begin

text \<open>
  Shared vocabulary of the development: the failure type of the library's run-time
  assertions, the collections of rewrite rules and invariant rules that the component
  theories fill, and the facts on lists that the containers share.
\<close>

named_theorems wi_simps "functional descriptions of the library operations"
named_theorems wi_inv "every operation keeps the invariant of its component"

text \<open>
  \<open>WI_ASSERT\<close> (base/wi-assert.h) calls the assertion handler, whose default logs and
  aborts the process (base/wi-assert.c). An operation with an assertion returns \<open>Inl\<close> of
  the failed one, or \<open>Inr\<close> of its result.
\<close>

datatype wi_assertion =
    Not_Mutable
  | Null_Data
  | Index_Out_Of_Range nat nat \<comment> \<open>the index and the count it was checked against\<close>

type_synonym 'a wi_checked = "wi_assertion + 'a"

definition wi_checked_bind :: "'a wi_checked \<Rightarrow> ('a \<Rightarrow> 'b wi_checked) \<Rightarrow> 'b wi_checked" where
  "wi_checked_bind r f = (case r of Inl e \<Rightarrow> Inl e | Inr x \<Rightarrow> f x)"

lemma wi_checked_bind_simps [simp]:
  "wi_checked_bind (Inl e) f = Inl e"
  "wi_checked_bind (Inr x) f = f x"
  by (simp_all add: wi_checked_bind_def)

lemma wi_checked_bind_Inr:
  "wi_checked_bind r f = Inr y \<longleftrightarrow> (\<exists>x. r = Inr x \<and> f x = Inr y)"
  by (cases r) auto

subsection \<open>Facts on lists\<close>

lemma take_list_update_ge [simp]: "n \<le> i \<Longrightarrow> take n (xs[i := x]) = take n xs"
  by (simp add: list_eq_iff_nth_eq)

lemma take_Suc_update [simp]:
  "i < length xs \<Longrightarrow> take (Suc i) (xs[i := x]) = take i xs @ [x]"
  by (simp add: take_Suc_conv_app_nth)

lemma remove1_filter_distinct:
  "distinct xs \<Longrightarrow> remove1 x xs = filter (\<lambda>y. y \<noteq> x) xs"
  by (auto simp: distinct_remove1_removeAll removeAll_filter_not_eq intro: filter_cong)

lemma concat_update_split:
  assumes "i < length xss"
  shows "concat (xss[i := ys]) = concat (take i xss) @ ys @ concat (drop (Suc i) xss)"
  using assms by (simp add: upd_conv_take_nth_drop)

lemma concat_split_at:
  assumes "i < length xss"
  shows "concat xss = concat (take i xss) @ xss ! i @ concat (drop (Suc i) xss)"
  using assms by (metis concat_append concat.simps(2) id_take_nth_drop)

end
