(* ===== verification/Wi_String.thy ===== *)
theory Wi_String
  imports Prelude
begin

text \<open>
  The parts of data/wi-string.c that the server's decisions rest on: searching, splitting
  and joining, the conversion to a 32-bit number, and paths. A string is the list of its
  characters up to the terminating NUL, which is where every function below stops, too.
\<close>

subsection \<open>Searching (system/wi-compat.c, data/wi-string.c)\<close>

text \<open>
  \<open>wi_strnstr\<close> tries each position from the left. \<open>wi_string_index_of_string_in_range\<close>
  returns before it searches an empty range, so that an empty string contains nothing,
  not even the empty string.
\<close>

definition wi_string_has_prefix :: "string \<Rightarrow> string \<Rightarrow> bool" where
  "wi_string_has_prefix s p \<longleftrightarrow> take (length p) s = p"

definition wi_string_has_suffix :: "string \<Rightarrow> string \<Rightarrow> bool" where
  "wi_string_has_suffix s p \<longleftrightarrow> length p \<le> length s \<and> drop (length s - length p) s = p"

fun wi_strnstr :: "string \<Rightarrow> string \<Rightarrow> nat option" where
  "wi_strnstr [] pat = (if pat = [] then Some 0 else None)"
| "wi_strnstr (c # s) pat =
     (if wi_string_has_prefix (c # s) pat then Some 0 else map_option Suc (wi_strnstr s pat))"

definition wi_string_index_of_string :: "string \<Rightarrow> string \<Rightarrow> nat option" where
  "wi_string_index_of_string s pat = (if length s = 0 then None else wi_strnstr s pat)"

definition wi_string_contains_string :: "string \<Rightarrow> string \<Rightarrow> bool" where
  "wi_string_contains_string s pat \<longleftrightarrow> wi_string_index_of_string s pat \<noteq> None"

lemma wi_strnstr_iff: "wi_strnstr s pat \<noteq> None \<longleftrightarrow> (\<exists>a b. s = a @ pat @ b)"
proof (induction s)
  case (Cons c s)
  have p: "wi_string_has_prefix (c # s) pat \<longleftrightarrow> (\<exists>b. c # s = pat @ b)"
    unfolding wi_string_has_prefix_def by (metis append_eq_conv_conj append_take_drop_id)
  have "(\<exists>a b. c # s = a @ pat @ b) \<longleftrightarrow> (\<exists>b. c # s = pat @ b) \<or> (\<exists>a b. s = a @ pat @ b)"
    by (auto simp: Cons_eq_append_conv)
  then show ?case using Cons p by auto
qed simp

lemma wi_string_contains_iff:
  assumes "pat \<noteq> []"
  shows "wi_string_contains_string s pat \<longleftrightarrow> (\<exists>a b. s = a @ pat @ b)"
  using wi_strnstr_iff [of s pat] assms
  by (auto simp: wi_string_contains_string_def wi_string_index_of_string_def)

subsection \<open>Splitting and joining\<close>

text \<open>
  \<open>wi_strsep\<close> ends a component at any one of the characters of \<open>delim\<close>: the separator of
  \<open>wi_string_components_separated_by_string\<close> is a set of characters, not a string.
\<close>

fun wi_strsep :: "string \<Rightarrow> string \<Rightarrow> string \<times> string option" where
  "wi_strsep [] delim = ([], None)"
| "wi_strsep (c # s) delim =
     (if c \<in> set delim then ([], Some s)
      else let (tok, rest) = wi_strsep s delim in (c # tok, rest))"

lemma wi_strsep_shorter: "(tok, Some r) = wi_strsep s delim \<Longrightarrow> length r < length s"
  by (induction s delim arbitrary: tok rule: wi_strsep.induct) (auto split: if_splits prod.splits intro: less_SucI)

function wi_string_components_separated_by_string :: "string \<Rightarrow> string \<Rightarrow> string list" where
  "wi_string_components_separated_by_string s delim =
     (case wi_strsep s delim of
        (tok, None) \<Rightarrow> [tok]
      | (tok, Some rest) \<Rightarrow> tok # wi_string_components_separated_by_string rest delim)"
  by pat_completeness auto
termination
  by (relation "measure (length \<circ> fst)") (auto dest: wi_strsep_shorter)

declare wi_string_components_separated_by_string.simps [simp del]

text \<open>Joining writes the separator after every component but the last.\<close>

fun wi_components_joined_by_string :: "string list \<Rightarrow> string \<Rightarrow> string" where
  "wi_components_joined_by_string [] sep = []"
| "wi_components_joined_by_string [s] sep = s"
| "wi_components_joined_by_string (s # t # ss) sep = s @ sep @ wi_components_joined_by_string (t # ss) sep"

text \<open>The same split as a recursion on the characters.\<close>

lemma split_Nil [simp]: "wi_string_components_separated_by_string [] delim = [[]]"
  by (subst wi_string_components_separated_by_string.simps) simp

lemma split_Cons:
  "wi_string_components_separated_by_string (c # s) delim =
     (if c \<in> set delim then [] # wi_string_components_separated_by_string s delim
      else (c # hd (wi_string_components_separated_by_string s delim)) #
           tl (wi_string_components_separated_by_string s delim))"
proof (cases "c \<in> set delim")
  case True
  then show ?thesis by (subst wi_string_components_separated_by_string.simps) simp
next
  case False
  have "wi_string_components_separated_by_string (c # s) delim =
      (case wi_strsep s delim of
         (tok, None) \<Rightarrow> [c # tok]
       | (tok, Some rest) \<Rightarrow> (c # tok) # wi_string_components_separated_by_string rest delim)"
    using False by (subst wi_string_components_separated_by_string.simps) (simp split: prod.split option.split)
  also have "\<dots> = (c # hd (wi_string_components_separated_by_string s delim)) #
           tl (wi_string_components_separated_by_string s delim)"
    by (subst (2 3) wi_string_components_separated_by_string.simps) (simp split: prod.split option.split)
  finally show ?thesis using False by simp
qed

lemma split_not_Nil [simp]: "wi_string_components_separated_by_string s delim \<noteq> []"
  by (cases s) (simp_all add: split_Cons)

lemma split_append_sep:
  assumes "set t \<inter> set delim = {}" and "c \<in> set delim"
  shows "wi_string_components_separated_by_string (t @ c # s) delim =
    t # wi_string_components_separated_by_string s delim"
  using assms by (induction t) (auto simp: split_Cons)

lemma split_no_sep:
  "set t \<inter> set delim = {} \<Longrightarrow> wi_string_components_separated_by_string t delim = [t]"
  by (induction t) (auto simp: split_Cons)

lemma split_components_no_sep:
  "t \<in> set (wi_string_components_separated_by_string s delim) \<Longrightarrow> set t \<inter> set delim = {}"
proof (induction s arbitrary: t)
  case (Cons c s)
  obtain a list where s: "wi_string_components_separated_by_string s delim = a # list"
    by (cases "wi_string_components_separated_by_string s delim") simp_all
  then have "set a \<inter> set delim = {}" by (intro Cons.IH) simp
  with Cons s show ?case by (fastforce simp: split_Cons split: if_splits)
qed simp

lemma join_Cons:
  "ss \<noteq> [] \<Longrightarrow> wi_components_joined_by_string (s # ss) sep = s @ sep @ wi_components_joined_by_string ss sep"
  by (cases ss) simp_all

lemma split_append:
  "wi_string_components_separated_by_string (s @ c # t) [c] =
     wi_string_components_separated_by_string s [c] @ wi_string_components_separated_by_string t [c]"
proof (induction s)
  case (Cons d s)
  then show ?case
    by (cases "wi_string_components_separated_by_string s [c]") (auto simp: split_Cons)
qed (simp add: split_Cons)


lemma join_split:
  "wi_components_joined_by_string (wi_string_components_separated_by_string s [c]) [c] = s"
proof (induction s)
  case (Cons d s)
  obtain a list where s: "wi_string_components_separated_by_string s [c] = a # list"
    by (cases "wi_string_components_separated_by_string s [c]") simp_all
  with Cons show ?case by (cases list) (auto simp: split_Cons)
qed simp

lemma split_join:
  assumes "ss \<noteq> []" and "\<And>s. s \<in> set ss \<Longrightarrow> c \<notin> set s"
  shows "wi_string_components_separated_by_string (wi_components_joined_by_string ss [c]) [c] = ss"
  using assms
proof (induction ss)
  case (Cons s ss)
  then show ?case by (cases "ss = []") (simp_all add: split_no_sep join_Cons split_append_sep)
qed simp

subsection \<open>Numbers\<close>

text \<open>
  \<open>strtoul\<close> with base 0 (\<open>wi_string_uint32\<close>): white space, a sign, and decimal, octal
  (leading 0) or hexadecimal (leading 0x) digits; a value beyond 64 bits is an error, a
  minus sign negates modulo \<open>2 ^ 64\<close>. \<open>c_digits\<close> reads digits and returns what follows.
\<close>

definition c_digit :: "char \<Rightarrow> nat" where
  "c_digit c =
     (let n = of_char c
      in if 48 \<le> n \<and> n \<le> 57 then n - 48
         else if 97 \<le> n \<and> n \<le> 122 then n - 87
         else if 65 \<le> n \<and> n \<le> 90 then n - 55
         else 36)"

fun c_digits :: "nat \<Rightarrow> string \<Rightarrow> nat \<Rightarrow> nat \<times> string" where
  "c_digits base [] acc = (acc, [])"
| "c_digits base (c # s) acc =
     (if c_digit c < base then c_digits base s (acc * base + c_digit c) else (acc, c # s))"

definition c_isspace :: "char \<Rightarrow> bool" where
  "c_isspace c \<longleftrightarrow> (let n = of_char c :: nat in n = 32 \<or> 9 \<le> n \<and> n \<le> 13)"

definition c_sign :: "string \<Rightarrow> bool \<times> string" where
  "c_sign s = (case s of c # r \<Rightarrow> if c = CHR ''-'' then (True, r) else if c = CHR ''+'' then (False, r) else (False, s)
               | [] \<Rightarrow> (False, s))"

definition c_strtoul :: "string \<Rightarrow> (nat \<times> string) option" where
  "c_strtoul s =
     (let (neg, t) = c_sign (dropWhile c_isspace s);
          hex = (case t of z # x # d # _ \<Rightarrow> z = CHR ''0'' \<and> (x = CHR ''x'' \<or> x = CHR ''X'') \<and> c_digit d < 16 | _ \<Rightarrow> False);
          base = (if hex then 16 else if take 1 t = ''0'' then 8 else 10);
          u = (if hex then drop 2 t else t)
      in case u of
           [] \<Rightarrow> None
         | c # _ \<Rightarrow>
             if c_digit c < base then
               let (n, rest) = c_digits base u 0
               in if n < 2 ^ 64 then Some (if neg then (2 ^ 64 - n) mod 2 ^ 64 else n, rest) else None
             else None)"

definition wi_string_uint32 :: "string \<Rightarrow> 32 word" where
  "wi_string_uint32 s =
     (case c_strtoul s of
        Some (ul, []) \<Rightarrow> if ul > 2 ^ 32 - 1 then 0 else of_nat ul
      | _ \<Rightarrow> 0)"

subsection \<open>Paths\<close>

text \<open>
  The components of a path: the empty components are dropped, but for one at the start,
  which stands for the root.
\<close>

definition wi_string_path_components :: "string \<Rightarrow> string list" where
  "wi_string_path_components path =
     (let components = wi_string_components_separated_by_string path ''/''
      in (if length (hd components) > 0 then [hd components] else [''/'']) @
         filter (\<lambda>c. length c > 0) (tl components))"

text \<open>
  A string as an object: its text and whether it may be changed. A function that changes a
  string asserts that it may. \<open>wi_string_alloc\<close> makes strings that may not, which is what the
  components of a path are, and a path that is changed in place is a mutable copy.
\<close>

record wi_string_object =
  s_text :: string
  s_mutable :: bool

definition wi_mutable_string_delete_characters_in_range ::
  "wi_string_object \<Rightarrow> nat \<Rightarrow> nat \<Rightarrow> wi_string_object wi_checked" where
  "wi_mutable_string_delete_characters_in_range s loc len =
     (if \<not> s_mutable s then Inl Not_Mutable
      else if loc > length (s_text s) then Inl (Index_Out_Of_Range loc (length (s_text s)))
      else if loc + len > length (s_text s) then Inl (Index_Out_Of_Range (loc + len) (length (s_text s)))
      else Inr (s\<lparr>s_text := take loc (s_text s) @ drop (loc + len) (s_text s)\<rparr>))"

definition wi_mutable_string_delete_characters_to_index ::
  "wi_string_object \<Rightarrow> nat \<Rightarrow> wi_string_object wi_checked" where
  "wi_mutable_string_delete_characters_to_index s index =
     (if \<not> s_mutable s then Inl Not_Mutable
      else wi_mutable_string_delete_characters_in_range s 0 index)"

definition wi_string_path_component_objects :: "string \<Rightarrow> wi_string_object list" where
  "wi_string_path_component_objects path =
     map (\<lambda>c. \<lparr>s_text = c, s_mutable = False\<rparr>) (wi_string_path_components path)"

text \<open>The password database: the home directory of the server's own user, and of a user by name.\<close>

record wi_passwd =
  getpwuid_dir :: "string option"
  getpwnam_dir :: "string \<Rightarrow> string option"

definition no_passwd :: wi_passwd where
  "no_passwd = \<lparr>getpwuid_dir = None, getpwnam_dir = (\<lambda>_. None)\<rparr>"

definition wi_mutable_string_expand_tilde_in_path :: "wi_passwd \<Rightarrow> wi_string_object \<Rightarrow> wi_string_object wi_checked" where
  "wi_mutable_string_expand_tilde_in_path home path =
     (if \<not> s_mutable path then Inl Not_Mutable
      else if \<not> wi_string_has_prefix (s_text path) ''~'' then Inr path
      else
        let component = hd (wi_string_path_component_objects (s_text path));
            n = length (s_text component)
        in wi_checked_bind
             (if n = 1 then Inr (getpwuid_dir home)
              else wi_checked_bind (wi_mutable_string_delete_characters_to_index component 1)
                     (\<lambda>component. Inr (getpwnam_dir home (s_text component))))
             (\<lambda>user. case user of
                Some dir \<Rightarrow> wi_checked_bind (wi_mutable_string_delete_characters_to_index path n)
                  (\<lambda>path. Inr (path\<lparr>s_text := dir @ s_text path\<rparr>))
              | None \<Rightarrow> Inr path))"

text \<open>The call on the mutable copy of a path.\<close>

definition wi_expand_tilde :: "wi_passwd \<Rightarrow> string \<Rightarrow> string wi_checked" where
  "wi_expand_tilde home path =
     wi_checked_bind (wi_mutable_string_expand_tilde_in_path home \<lparr>s_text = path, s_mutable = True\<rparr>) (\<lambda>s. Inr (s_text s))"

text \<open>
  The loop of \<open>wi_mutable_string_normalize_path\<close>, at its test with index \<open>i\<close>; the index
  is decremented with the removals and incremented by the loop.
\<close>

function normalize_loop :: "bool \<Rightarrow> nat \<Rightarrow> string list \<Rightarrow> string list" where
  "normalize_loop absolute i components =
     (if i < length components then
        let component = components ! i
        in if length component = 0 \<or> component = ''/'' then
             normalize_loop absolute i (take i components @ drop (i + 1) components)
           else if component = ''.'' then
             normalize_loop absolute i (take i components @ drop (i + 1) components)
           else if absolute \<and> component = ''..'' \<and> i > 0 then
             normalize_loop absolute (i - 1) (take (i - 1) components @ drop (i + 1) components)
           else normalize_loop absolute (i + 1) components
      else components)"
  by pat_completeness auto
termination by (relation "measure (\<lambda>(a, i, cs). length cs - i)") auto

declare normalize_loop.simps [simp del]

definition wi_string_by_normalizing_path :: "wi_passwd \<Rightarrow> string \<Rightarrow> string wi_checked" where
  "wi_string_by_normalizing_path home path =
     (if length path = 0 \<or> path = ''/'' then Inr path
      else wi_checked_bind (wi_expand_tilde home path) (\<lambda>path.
             let absolute = wi_string_has_prefix path ''/'';
                 string = wi_components_joined_by_string
                   (normalize_loop absolute 0 (wi_string_path_components path)) ''/''
             in Inr (if wi_string_has_prefix path ''/'' then ''/'' @ string else string)))"

definition wi_string_by_appending_path_component :: "string \<Rightarrow> string \<Rightarrow> string" where
  "wi_string_by_appending_path_component path component =
     (if length path = 0 then path @ component
      else if wi_string_has_suffix path ''/'' then
        (if wi_string_has_prefix component ''/'' then butlast path else path) @ component
      else if component \<noteq> ''/'' then path @ ''/'' @ component
      else path)"

text \<open>
  \<open>wi_string_last_path_component\<close> searches backwards and compares each hit with the end
  of the whole path: it steps over one trailing slash only.
\<close>

definition last_slash :: "string \<Rightarrow> nat \<Rightarrow> nat option" where
  "last_slash path n =
     (case filter (\<lambda>i. path ! i = CHR ''/'') [0..<n] of [] \<Rightarrow> None | is \<Rightarrow> Some (last is))"

fun last_component_loop :: "string \<Rightarrow> nat \<Rightarrow> string" where
  "last_component_loop path n =
     (case last_slash path n of
        None \<Rightarrow> path
      | Some index \<Rightarrow>
          if index = length path - 1 then
            (case n of
               0 \<Rightarrow> ''/''
             | Suc m \<Rightarrow> if m = 0 then ''/'' else last_component_loop path m)
          else take (n - index - 1) (drop (index + 1) path))"

declare last_component_loop.simps [simp del]

definition wi_string_last_path_component :: "string \<Rightarrow> string" where
  "wi_string_last_path_component path =
     (if path = ''/'' then path else last_component_loop path (length path))"

definition wi_string_by_deleting_last_path_component :: "wi_passwd \<Rightarrow> string \<Rightarrow> string wi_checked" where
  "wi_string_by_deleting_last_path_component home path =
     (if path = ''/'' then Inr path
      else let array = wi_string_path_components path
           in if length array > 0
              then wi_string_by_normalizing_path home (wi_components_joined_by_string (butlast array) ''/'')
              else Inr path)"


subsection \<open>Facts on paths\<close>

text \<open>The components without the root, and what normalising makes of them, as a stack.\<close>

definition path_parts :: "string \<Rightarrow> string list" where
  "path_parts path = filter (\<lambda>c. c \<noteq> []) (wi_string_components_separated_by_string path ''/'')"

fun normalize_spec :: "bool \<Rightarrow> string list \<Rightarrow> string list \<Rightarrow> string list" where
  "normalize_spec absolute acc [] = rev acc"
| "normalize_spec absolute acc (c # cs) =
     (if c = [] \<or> c = ''/'' \<or> c = ''.'' then normalize_spec absolute acc cs
      else if absolute \<and> c = ''..'' \<and> acc \<noteq> [] then normalize_spec absolute (tl acc) cs
      else normalize_spec absolute (c # acc) cs)"

definition plain_parts :: "string list \<Rightarrow> bool" where
  "plain_parts cs \<longleftrightarrow> (\<forall>c \<in> set cs. c \<noteq> [] \<and> c \<noteq> ''.'' \<and> CHR ''/'' \<notin> set c)"

lemma path_parts_append: "path_parts (s @ CHR ''/'' # t) = path_parts s @ path_parts t"
  by (simp add: path_parts_def split_append)

lemma path_parts_slash [simp]: "path_parts (CHR ''/'' # t) = path_parts t" "path_parts [] = []"
  by (simp_all add: path_parts_def split_Cons)

lemma path_parts_no_slash: "c \<in> set (path_parts s) \<Longrightarrow> c \<noteq> [] \<and> CHR ''/'' \<notin> set c"
  using split_components_no_sep [of c s "''/''"] by (auto simp: path_parts_def)

lemma path_parts_join: "plain_parts cs \<Longrightarrow> path_parts (wi_components_joined_by_string cs ''/'') = cs"
  by (cases "cs = []") (simp_all add: path_parts_def split_join plain_parts_def)

lemma wi_string_path_components_parts:
  "wi_string_path_components path =
     (if path = [] \<or> wi_string_has_prefix path ''/'' then [''/''] else []) @ path_parts path"
proof (cases path)
  case (Cons c s)
  then show ?thesis
    by (cases "wi_string_components_separated_by_string s ''/''")
      (auto simp: wi_string_path_components_def path_parts_def Let_def split_Cons wi_string_has_prefix_def)
qed (simp add: wi_string_path_components_def path_parts_def Let_def)

lemma normalize_loop_spec:
  "i \<le> length cs \<Longrightarrow> normalize_loop absolute i cs = normalize_spec absolute (rev (take i cs)) (drop i cs)"
proof (induction absolute i cs rule: normalize_loop.induct)
  case (1 absolute i cs)
  show ?case
  proof (cases "i < length cs")
    case False
    with "1.prems" show ?thesis by (simp add: normalize_loop.simps)
  next
    case True
    then have d: "drop i cs = cs ! i # drop (Suc i) cs" and t: "take (Suc i) cs = take i cs @ [cs ! i]"
      by (simp_all add: Cons_nth_drop_Suc take_Suc_conv_app_nth)
    have l: "i \<le> length (take i cs @ drop (i + 1) cs)" and
      l2: "i - 1 \<le> length (take (i - 1) cs @ drop (i + 1) cs)" and l3: "i + 1 \<le> length cs"
      using True by simp_all
    have p: "tl (rev (take i cs)) = rev (take (i - 1) cs)" if "i > 0"
      using that True by (cases i) (simp_all add: take_Suc_conv_app_nth)
    show ?thesis
      using "1.IH"(1) [OF True refl _ l] "1.IH"(2) [OF True refl _ _ l] "1.IH"(3) [OF True refl _ _ _ l2]
        "1.IH"(4) [OF True refl _ _ _ l3] True
      by (subst normalize_loop.simps) (auto simp: d t p Let_def)
  qed
qed

lemma normalize_spec_subset:
  "set (normalize_spec absolute acc cs) \<subseteq> set acc \<union> (set cs - {[], ''/'', ''.''})"
proof (induction absolute acc cs rule: normalize_spec.induct)
  case (2 absolute acc c cs)
  then show ?case by (cases acc) auto
qed simp

lemma normalize_spec_no_dots:
  assumes "''..'' \<notin> set cs"
  shows "normalize_spec absolute acc cs = rev acc @ filter (\<lambda>c. c \<noteq> [] \<and> c \<noteq> ''/'' \<and> c \<noteq> ''.'') cs"
  using assms by (induction absolute acc cs rule: normalize_spec.induct) auto

text \<open>In an absolute path only the first component that is left can be two dots.\<close>

lemma normalize_spec_dots:
  assumes "''..'' \<notin> set (butlast acc)"
  shows "''..'' \<notin> set (tl (normalize_spec True acc cs))"
  using assms
proof (induction True acc cs rule: normalize_spec.induct)
  case (1 acc)
  then show ?case by (cases acc rule: rev_cases) auto
next
  case (2 acc c cs)
  then show ?case by (cases acc) (auto split: if_splits dest: in_set_butlastD)
qed

lemma plain_parts_junk: "plain_parts cs \<Longrightarrow> d \<in> set cs \<Longrightarrow> \<not> (d = [] \<or> d = ''/'' \<or> d = ''.'')"
  unfolding plain_parts_def by force

lemma normalize_spec_fixed:
  assumes "plain_parts cs" and "''..'' \<notin> set (tl cs)"
  shows "normalize_spec absolute [] cs = cs"
proof (cases cs)
  case (Cons c cs')
  have j: "\<not> (d = [] \<or> d = ''/'' \<or> d = ''.'')" if "d = c \<or> d \<in> set cs'" for d
    using plain_parts_junk [OF assms(1), of d] that Cons by (metis list.set_intros)
  have f: "filter (\<lambda>d. d \<noteq> [] \<and> d \<noteq> ''/'' \<and> d \<noteq> ''.'') cs' = cs'"
    using j by (intro filter_True) blast
  have "normalize_spec absolute [] cs = normalize_spec absolute [c] cs'"
    using j [of c] Cons by (simp only: normalize_spec.simps) simp
  also have "\<dots> = cs"
  proof -
    have "''..'' \<notin> set cs'" using assms(2) Cons by (simp only: list.sel) simp
    from normalize_spec_no_dots [OF this, of absolute "[c]"] Cons show ?thesis by (simp only: f rev.simps append.simps)
  qed
  finally show ?thesis .
qed simp

lemma wi_normalize_parts:
  "wi_string_by_normalizing_path home path =
     wi_checked_bind (wi_expand_tilde home path) (\<lambda>path.
       if path = [] then Inr []
       else let absolute = wi_string_has_prefix path ''/''
            in Inr ((if absolute then ''/'' else []) @
                 wi_components_joined_by_string (normalize_spec absolute [] (path_parts path)) ''/''))"
  (is "?l = wi_checked_bind ?e ?r")
proof (cases "path = [] \<or> path = ''/''")
  case True
  have "path_parts ''/'' = []" by simp
  then show ?thesis using True
    by (auto simp: wi_string_by_normalizing_path_def wi_expand_tilde_def wi_mutable_string_expand_tilde_in_path_def wi_string_has_prefix_def)
next
  case False
  have "wi_checked_bind ?e (\<lambda>path.
             let absolute = wi_string_has_prefix path ''/'';
                 string = wi_components_joined_by_string
                   (normalize_loop absolute 0 (wi_string_path_components path)) ''/''
             in Inr (if wi_string_has_prefix path ''/'' then ''/'' @ string else string)) = wi_checked_bind ?e ?r"
    by (rule arg_cong [of _ _ "wi_checked_bind ?e"], rule ext)
      (simp add: Let_def normalize_loop_spec wi_string_path_components_parts wi_string_has_prefix_def)
  with False show ?thesis by (simp add: wi_string_by_normalizing_path_def)
qed

text \<open>
  What the expansion comes to: a component longer than the tilde is cut in place, but it may
  not be changed, so the assertion fails before the name is looked up.
\<close>

lemma wi_expand_tilde:
  "wi_expand_tilde home path =
     (if \<not> wi_string_has_prefix path ''~'' then Inr path
      else if length (hd (wi_string_path_components path)) = 1
      then (case getpwuid_dir home of Some dir \<Rightarrow> Inr (dir @ drop 1 path) | None \<Rightarrow> Inr path)
      else Inl Not_Mutable)"
proof (cases "wi_string_has_prefix path ''~''")
  case True
  then have "path \<noteq> []" by (auto simp: wi_string_has_prefix_def)
  moreover have "wi_string_path_components path \<noteq> []" by (simp add: wi_string_path_components_def Let_def)
  then have "hd (wi_string_path_component_objects path) = \<lparr>s_text = hd (wi_string_path_components path), s_mutable = False\<rparr>"
    by (simp add: wi_string_path_component_objects_def list.map_sel)
  ultimately show ?thesis
    using True
    by (cases path) (auto simp: wi_expand_tilde_def wi_mutable_string_expand_tilde_in_path_def Let_def
        wi_mutable_string_delete_characters_to_index_def wi_mutable_string_delete_characters_in_range_def split: option.split)
qed (simp add: wi_expand_tilde_def wi_mutable_string_expand_tilde_in_path_def)

lemma wi_expand_tilde_other: "\<not> wi_string_has_prefix path ''~'' \<Longrightarrow> wi_expand_tilde home path = Inr path"
  by (simp add: wi_expand_tilde)

lemma normalized_plain: "plain_parts (normalize_spec absolute [] (path_parts path))"
  using normalize_spec_subset [of absolute "[]" "path_parts path"] path_parts_no_slash [of _ path]
  by (auto simp: plain_parts_def)


lemma last_slash_append:
  assumes "CHR ''/'' \<notin> set c"
  shows "last_slash (s @ CHR ''/'' # c) (length s + 1 + length c) = Some (length s)"
proof -
  have u: "[0..<length s + 1 + length c] = [0..<length s] @ length s # [Suc (length s)..<length s + 1 + length c]"
    using upt_add_eq_append [of 0 "length s" "1 + length c"] by (simp add: upt_conv_Cons del: upt_Suc)
  have "(s @ CHR ''/'' # c) ! i \<noteq> CHR ''/''" if "Suc (length s) \<le> i" "i < length s + 1 + length c" for i
  proof -
    have "i - Suc (length s) < length c" using that by linarith
    then have "c ! (i - Suc (length s)) \<in> set c" by (rule nth_mem)
    then show ?thesis using assms that(1) by (auto simp: nth_append nth_Cons')
  qed
  then have n: "filter (\<lambda>i. (s @ CHR ''/'' # c) ! i = CHR ''/'') [Suc (length s)..<length s + 1 + length c] = []"
    by (auto simp: filter_empty_conv simp del: upt_Suc)
  have "filter (\<lambda>i. (s @ CHR ''/'' # c) ! i = CHR ''/'') [0..<length s + 1 + length c] =
      filter (\<lambda>i. (s @ CHR ''/'' # c) ! i = CHR ''/'') [0..<length s] @ [length s]"
    by (simp only: u filter_append filter.simps n) simp
  then show ?thesis unfolding last_slash_def
    by (cases "filter (\<lambda>i. (s @ CHR ''/'' # c) ! i = CHR ''/'') [0..<length s]") (simp_all del: upt_Suc)
qed

lemma wi_string_last_path_component_append:
  assumes "c \<noteq> []" and "CHR ''/'' \<notin> set c"
  shows "wi_string_last_path_component (s @ CHR ''/'' # c) = c"
  using assms last_slash_append [OF assms(2), of s]
  by (subst wi_string_last_path_component_def, subst last_component_loop.simps)
    (auto simp: append_eq_Cons_conv)

lemma plain_parts_butlast: "plain_parts cs \<Longrightarrow> plain_parts (butlast cs)"
  by (auto simp: plain_parts_def dest: in_set_butlastD)

lemma join_snoc:
  "cs \<noteq> [] \<Longrightarrow> wi_components_joined_by_string (cs @ [c]) sep = wi_components_joined_by_string cs sep @ sep @ c"
  by (induction cs sep rule: wi_components_joined_by_string.induct) simp_all

lemma plain_join_last:
  assumes "plain_parts cs" and "cs \<noteq> []"
  shows "wi_components_joined_by_string cs ''/'' \<noteq> [] \<and> last (wi_components_joined_by_string cs ''/'') \<noteq> CHR ''/''"
  using assms
proof (induction cs rule: rev_induct)
  case (snoc c cs)
  then have "c \<noteq> []" "last c \<noteq> CHR ''/''" by (auto simp: plain_parts_def dest: last_in_set)
  then show ?case by (cases "cs = []") (simp_all add: join_snoc)
qed simp

text \<open>Appending a component to a normalised absolute path.\<close>

lemma append_component_join:
  assumes "plain_parts cs" and "c \<noteq> []" and "CHR ''/'' \<notin> set c"
  shows "wi_string_by_appending_path_component (''/'' @ wi_components_joined_by_string cs ''/'') c =
    ''/'' @ wi_components_joined_by_string (cs @ [c]) ''/''"
proof (cases "cs = []")
  case True
  with assms show ?thesis
    by (cases c) (auto simp: wi_string_by_appending_path_component_def wi_string_has_suffix_def wi_string_has_prefix_def)
next
  case False
  note l = plain_join_last [OF assms(1) False]
  then have "\<not> wi_string_has_suffix (CHR ''/'' # wi_components_joined_by_string cs ''/'') ''/''"
    by (cases "wi_components_joined_by_string cs ''/''" rule: rev_cases) (auto simp: wi_string_has_suffix_def)
  moreover have "c \<noteq> ''/''" using assms(3) by auto
  ultimately show ?thesis
    using False by (simp add: wi_string_by_appending_path_component_def join_snoc)
qed

lemma absolute_prefix [simp]:
  "\<not> wi_string_has_prefix (CHR ''/'' # s) ''~''" "wi_string_has_prefix (CHR ''/'' # s) ''/''"
  by (simp_all add: wi_string_has_prefix_def)

lemma wi_string_last_append_plain:
  assumes "plain_parts cs" and "c \<noteq> []" and "CHR ''/'' \<notin> set c"
  shows "wi_string_last_path_component
    (wi_string_by_appending_path_component (''/'' @ wi_components_joined_by_string cs ''/'') c) = c"
proof (cases "cs = []")
  case True
  then show ?thesis unfolding append_component_join [OF assms]
    using wi_string_last_path_component_append [OF assms(2,3), of "[]"] by simp
next
  case False
  then show ?thesis unfolding append_component_join [OF assms]
    using wi_string_last_path_component_append [OF assms(2,3), of "CHR ''/'' # wi_components_joined_by_string cs ''/''"]
    by (simp add: join_snoc)
qed

lemma wi_string_delete_absolute:
  assumes "wi_string_has_prefix path ''/''"
  shows "\<exists>q. wi_string_by_deleting_last_path_component home path = Inr q"
proof -
  have "\<not> wi_string_has_prefix (wi_components_joined_by_string (butlast (''/'' # path_parts path)) ''/'') ''~''"
    by (cases "path_parts path") (auto simp: join_Cons wi_string_has_prefix_def)
  with assms show ?thesis
    by (simp add: wi_string_by_deleting_last_path_component_def wi_string_path_components_parts wi_normalize_parts
        wi_expand_tilde_other Let_def)
qed

lemma wi_string_delete_append_plain:
  assumes "plain_parts cs" and "''..'' \<notin> set (tl cs)" and "c \<noteq> []" and "CHR ''/'' \<notin> set c"
  defines "path \<equiv> ''/'' @ wi_components_joined_by_string cs ''/''"
  shows "wi_string_by_deleting_last_path_component home (wi_string_by_appending_path_component path c) = Inr path"
proof -
  have a: "wi_string_by_appending_path_component path c = ''/'' @ wi_components_joined_by_string (cs @ [c]) ''/''"
    unfolding path_def by (rule append_component_join [OF assms(1,3,4)])
  have q: "path_parts (''/'' @ wi_components_joined_by_string (cs @ [c]) ''/'') = cs @ [c]"
  proof (cases "cs = []")
    case True
    then show ?thesis using assms(3,4) by (simp add: path_parts_def split_Cons split_no_sep)
  next
    case False
    have "path_parts (wi_components_joined_by_string cs ''/'' @ CHR ''/'' # c) = cs @ [c]"
      using assms(3,4) by (simp only: path_parts_append path_parts_join [OF assms(1)])
        (simp add: path_parts_def split_no_sep)
    with False show ?thesis by (simp add: join_snoc)
  qed
  have ne: "''/'' @ wi_components_joined_by_string (cs @ [c]) ''/'' \<noteq> ''/''"
    using q by (metis path_parts_slash append_is_Nil_conv not_Cons_self2)
  have j: "wi_components_joined_by_string (''/'' # cs) ''/'' = (if cs = [] then ''/'' else ''//'' @ wi_components_joined_by_string cs ''/'')"
    by (simp add: join_Cons)
  show "wi_string_by_deleting_last_path_component home (wi_string_by_appending_path_component path c) = Inr path"
    unfolding a wi_string_by_deleting_last_path_component_def wi_string_path_components_parts q
    using ne by (simp add: j path_def wi_normalize_parts wi_expand_tilde_other path_parts_join [OF assms(1)]
        normalize_spec_fixed [OF assms(1,2)] butlast_append)
qed

subsection \<open>Properties\<close>

text \<open>
  Splitting and joining at one character are inverse to each other: joining the
  components of a string gives the string, and splitting what was joined from components
  without the separator gives the components.
\<close>
theorem wi_string_split_join:
  "wi_components_joined_by_string (wi_string_components_separated_by_string s [c]) [c] = s \<and>
   (ss \<noteq> [] \<longrightarrow> (\<forall>t \<in> set ss. c \<notin> set t) \<longrightarrow>
      wi_string_components_separated_by_string (wi_components_joined_by_string ss [c]) [c] = ss)"
  by (simp add: join_split split_join)

theorem wi_string_split_join_example:
  "wi_string_components_separated_by_string (wi_components_joined_by_string [''a'', [], ''bc''] [CHR ''.'']) [CHR ''.'']
     = [''a'', [], ''bc'']"
  using wi_string_split_join [of "[]" "CHR ''.''" "[''a'', [], ''bc'']"] by simp

text \<open>
  C31: Normalising an absolute path gives a slash and plain components joined by single
  slashes: none is empty or one dot, and two dots can only be left in the first place.
  What has been normalised stays as it is, and a path without two dots keeps exactly its
  components other than single dots.
\<close>
theorem wi_string_normalize_canonical:
  assumes "wi_string_has_prefix path ''/''"
  shows "\<exists>cs. wi_string_by_normalizing_path home path = Inr (''/'' @ wi_components_joined_by_string cs ''/'') \<and>
    plain_parts cs \<and> ''..'' \<notin> set (tl cs) \<and>
    wi_string_by_normalizing_path home (''/'' @ wi_components_joined_by_string cs ''/'') =
      Inr (''/'' @ wi_components_joined_by_string cs ''/'') \<and>
    (''..'' \<notin> set (path_parts path) \<longrightarrow> cs = filter (\<lambda>c. c \<noteq> ''.'') (path_parts path))"
proof -
  let ?cs = "normalize_spec True [] (path_parts path)"
  have t: "\<not> wi_string_has_prefix (CHR ''/'' # s) ''~''" "wi_string_has_prefix (CHR ''/'' # s) ''/''" for s
    by (simp_all add: wi_string_has_prefix_def)
  obtain s where p: "path = CHR ''/'' # s"
    using assms by (cases path) (auto simp: wi_string_has_prefix_def)
  note n = normalized_plain [of True path]
  have d: "''..'' \<notin> set (tl ?cs)" by (rule normalize_spec_dots) simp
  have "wi_string_by_normalizing_path home path = Inr (''/'' @ wi_components_joined_by_string ?cs ''/'')"
    by (simp add: wi_normalize_parts p wi_expand_tilde_other t)
  moreover have "wi_string_by_normalizing_path home (''/'' @ wi_components_joined_by_string ?cs ''/'') =
      Inr (''/'' @ wi_components_joined_by_string ?cs ''/'')"
    by (simp add: wi_normalize_parts wi_expand_tilde_other t path_parts_join [OF n] normalize_spec_fixed [OF n d])
  moreover have "?cs = filter (\<lambda>c. c \<noteq> ''.'') (path_parts path)" if "''..'' \<notin> set (path_parts path)"
    using path_parts_no_slash [of _ path] path_parts_no_slash [of "''/''" path]
    by (auto simp: normalize_spec_no_dots [OF that] intro!: filter_cong)
  ultimately show ?thesis using n d by blast
qed

theorem wi_string_normalize_canonical_witness:
  "wi_string_by_normalizing_path no_passwd ''//a/./b/'' = Inr ''/a/b''"
proof -
  have p: "path_parts ''a/./b/'' = [''a'', ''.'', ''b'']" by (simp add: path_parts_def split_Cons)
  from wi_string_normalize_canonical [of "''//a/./b/''" no_passwd] show ?thesis
    by (auto simp: p wi_string_has_prefix_def)
qed

text \<open>
  Appending a component to a normalised absolute path and taking it off again are
  inverse to each other.
\<close>
theorem wi_string_append_last_path_component:
  assumes "plain_parts cs" and "''..'' \<notin> set (tl cs)" and "c \<noteq> []" and "CHR ''/'' \<notin> set c"
  defines "path \<equiv> ''/'' @ wi_components_joined_by_string cs ''/''"
  shows "wi_string_last_path_component (wi_string_by_appending_path_component path c) = c \<and>
    wi_string_by_deleting_last_path_component home (wi_string_by_appending_path_component path c) = Inr path"
  unfolding path_def using wi_string_last_append_plain [OF assms(1,3,4)] wi_string_delete_append_plain [OF assms(1-4)] by simp

theorem wi_string_append_last_path_component_example:
  "wi_string_by_deleting_last_path_component no_passwd (wi_string_by_appending_path_component ''/a/b'' ''.wired'') = Inr ''/a/b''"
  using wi_string_append_last_path_component [of "[''a'', ''b'']" "''.wired''" no_passwd] by (simp add: plain_parts_def)

lemma wi_deleting_last_no_tilde:
  assumes "\<not> wi_string_has_prefix path ''~''"
  shows "\<exists>q. wi_string_by_deleting_last_path_component home path = Inr q"
proof -
  have n: "\<exists>q. wi_string_by_normalizing_path home p = Inr q" if "take 1 p \<noteq> ''~''" for p
    using that by (auto simp: wi_normalize_parts wi_expand_tilde wi_string_has_prefix_def Let_def)
  have j: "take 1 (wi_components_joined_by_string (butlast (c # cs)) ''/'') \<in> {[], take 1 c}" if "c \<noteq> []" for c cs
    using that by (cases cs; cases "butlast cs"; cases c) (auto simp: join_Cons)
  have "hd (wi_string_path_components path) \<noteq> [] \<and> take 1 (hd (wi_string_path_components path)) \<noteq> ''~'' \<and>
      wi_string_path_components path \<noteq> []"
    using assms by (cases path) (auto simp: wi_string_path_components_def wi_string_has_prefix_def split_Cons Let_def)
  then obtain c cs where "wi_string_path_components path = c # cs" "c \<noteq> []" "take 1 c \<noteq> ''~''"
    by (cases "wi_string_path_components path") auto
  with n [of "wi_components_joined_by_string (butlast (c # cs)) ''/''"] j [of c cs] show ?thesis
    by (auto simp: wi_string_by_deleting_last_path_component_def)
qed

text \<open>A path that starts with a tilde and a name ends the process while it is normalised, and no other does.\<close>

lemma wi_string_normalize_crash:
  "wi_string_by_normalizing_path home path = Inl Not_Mutable \<longleftrightarrow>
     wi_string_has_prefix path ''~'' \<and> length (hd (wi_string_path_components path)) \<noteq> 1"
  by (auto simp: wi_normalize_parts wi_expand_tilde Let_def split: option.splits)

end
