(* ===== verification/Wi_Ip.thy ===== *)
theory Wi_Ip
  imports Wi_String
begin

unbundle bit_operations_syntax

text \<open>
  Internet addresses and the patterns of the ban list (net/wi-ip.c): the version of an
  address, and matching an address with a wildcard, a netmask, or literally.
\<close>

subsection \<open>The C library\<close>

text \<open>
  \<open>inet_pton\<close> accepts for AF_INET four decimal numbers up to 255 without leading zeros,
  separated by dots, and for AF_INET6 (here only asked about strings without a dot) groups
  of one to four hexadecimal digits, eight of them, or up to seven and one double colon.
\<close>

definition pton4_octet :: "string \<Rightarrow> bool" where
  "pton4_octet s \<longleftrightarrow> s \<noteq> [] \<and> length s \<le> 3 \<and> list_all (\<lambda>c. c_digit c < 10) s \<and>
     (length s > 1 \<longrightarrow> hd s \<noteq> CHR ''0'') \<and> fst (c_digits 10 s 0) \<le> 255"

definition inet_pton4 :: "string \<Rightarrow> bool" where
  "inet_pton4 s =
     (let octets = wi_string_components_separated_by_string s ''.''
      in length octets = 4 \<and> list_all pton4_octet octets)"

definition pton6_group :: "string \<Rightarrow> bool" where
  "pton6_group s \<longleftrightarrow> s \<noteq> [] \<and> length s \<le> 4 \<and> list_all (\<lambda>c. c_digit c < 16) s"

definition inet_pton6 :: "string \<Rightarrow> bool" where
  "inet_pton6 s =
     (let groups = wi_string_components_separated_by_string s '':'';
          front = takeWhile (\<lambda>g. g \<noteq> []) groups;
          back = rev (takeWhile (\<lambda>g. g \<noteq> []) (rev groups));
          n = length front + length back
      in (length front = length groups \<and> length groups = 8 \<or>
          length front < length groups \<and> n \<le> 7 \<and>
            length groups = n + (if front = [] \<and> back = [] then 3
                                 else if front = [] \<or> back = [] then 2 else 1)) \<and>
         list_all (\<lambda>g. g = [] \<or> pton6_group g) groups)"

text \<open>
  One \<open>%u\<close> of \<open>sscanf\<close>: white space, a sign, decimal digits. A number that does not fit
  is undefined in C; it is reduced here.
\<close>

definition scan_u :: "string \<Rightarrow> (32 word \<times> string) option" where
  "scan_u s =
     (let (neg, t) = c_sign (dropWhile c_isspace s)
      in case t of
           [] \<Rightarrow> None
         | c # _ \<Rightarrow>
             if c_digit c < 10 then
               let (n, rest) = c_digits 10 t 0 in Some (if neg then - of_nat n else of_nat n, rest)
             else None)"

definition scan_dot :: "string \<Rightarrow> string option" where
  "scan_dot s = (case s of c # r \<Rightarrow> if c = CHR ''.'' then Some r else None | [] \<Rightarrow> None)"

subsection \<open>Addresses\<close>

datatype wi_ip_version = WI_IP_NULL | WI_IP_IPV4 | WI_IP_IPV6

definition wi_ip_version :: "string \<Rightarrow> wi_ip_version" where
  "wi_ip_version ip =
     (if wi_string_contains_string ip ''.'' then (if inet_pton4 ip then WI_IP_IPV4 else WI_IP_NULL)
      else if wi_string_contains_string ip '':'' then (if inet_pton6 ip then WI_IP_IPV6 else WI_IP_NULL)
      else WI_IP_NULL)"

definition wi_ipv4_uint32 :: "string \<Rightarrow> 32 word" where
  "wi_ipv4_uint32 ip =
     (case Option.bind (scan_u ip) (\<lambda>(a, s).
           Option.bind (Option.bind (scan_dot s) scan_u) (\<lambda>(b, s).
           Option.bind (Option.bind (scan_dot s) scan_u) (\<lambda>(c, s).
           Option.bind (Option.bind (scan_dot s) scan_u) (\<lambda>(d, s).
             Some (push_bit 24 a + push_bit 16 b + push_bit 8 c + d))))) of
        Some n \<Rightarrow> n
      | None \<Rightarrow> 0)"

fun pad_octet :: "nat \<Rightarrow> string \<Rightarrow> string" where
  "pad_octet 0 s = s"
| "pad_octet (Suc n) s = pad_octet n (CHR ''0'' # s)"

definition wi_ipv6_expanded_value :: "string \<Rightarrow> string option" where
  "wi_ipv6_expanded_value ip =
     (let octets = wi_string_components_separated_by_string ip '':''
      in if length octets < 3 then None
         else let octets = dropWhile (\<lambda>g. length g = 0) octets;
                  octets = map (\<lambda>g. pad_octet (4 - length g) g) octets;
                  octets = replicate (8 - length octets) ''0000'' @ octets
              in Some (wi_components_joined_by_string octets '':''))"

subsection \<open>Matching\<close>

definition wi_ipv4_match_wildcard :: "string \<Rightarrow> string \<Rightarrow> bool" where
  "wi_ipv4_match_wildcard ip pattern =
     (let ip_octets = wi_string_components_separated_by_string ip ''.'';
          pattern_octets = wi_string_components_separated_by_string pattern ''.''
      in if length ip_octets \<noteq> 4 then False
         else if length ip_octets \<noteq> length pattern_octets then False
         else length (filter (\<lambda>i. ip_octets ! i = pattern_octets ! i \<or> pattern_octets ! i = ''*'') [0..<4]) = 4)"

text \<open>
  The mask \<open>pow(2.0, 32.0) - pow(2.0, 32.0 - cidr)\<close> is computed with doubles, exactly up
  to a prefix length of 53, and then truncated to 32 bits. A longer prefix is rounded up
  to \<open>2 ^ 32\<close>, whose conversion is undefined: \<open>undef\<close> stands for its outcome.
\<close>

definition netmask_of_cidr :: "32 word \<Rightarrow> 32 word \<Rightarrow> 32 word" where
  "netmask_of_cidr undef cidr =
     (if unat cidr \<le> 32 then of_nat (2 ^ 32 - 2 ^ (32 - unat cidr))
      else if unat cidr \<le> 53 then of_nat (2 ^ 32 - 1)
      else undef)"

definition wi_ipv4_match_netmask :: "32 word \<Rightarrow> string \<Rightarrow> string \<Rightarrow> bool" where
  "wi_ipv4_match_netmask undef ip pattern =
     (case wi_string_components_separated_by_string pattern ''/'' of
        [pattern_ip, pattern_netmask] \<Rightarrow>
          let netmask = (if wi_string_contains_string pattern_netmask ''.'' then wi_ipv4_uint32 pattern_netmask
                         else netmask_of_cidr undef (wi_string_uint32 pattern_netmask))
          in wi_ipv4_uint32 ip AND netmask = wi_ipv4_uint32 pattern_ip AND netmask
      | _ \<Rightarrow> False)"

definition wi_ipv6_match_literal :: "string \<Rightarrow> string \<Rightarrow> bool" where
  "wi_ipv6_match_literal ip pattern =
     (case (wi_ipv6_expanded_value ip, wi_ipv6_expanded_value pattern) of
        (Some a, Some b) \<Rightarrow> a = b
      | _ \<Rightarrow> False)"

definition wi_ip_matches_string :: "32 word \<Rightarrow> string \<Rightarrow> string \<Rightarrow> bool" where
  "wi_ip_matches_string undef ip pattern =
     (case wi_ip_version ip of
        WI_IP_IPV4 \<Rightarrow>
          if wi_string_contains_string pattern ''*'' then wi_ipv4_match_wildcard ip pattern
          else if wi_string_contains_string pattern ''/'' then wi_ipv4_match_netmask undef ip pattern
          else ip = pattern
      | WI_IP_IPV6 \<Rightarrow> wi_ipv6_match_literal ip pattern
      | WI_IP_NULL \<Rightarrow> False)"

subsection \<open>Facts\<close>

lemma c_digits_append:
  assumes "list_all (\<lambda>c. c_digit c < base) s" and "case t of [] \<Rightarrow> True | c # _ \<Rightarrow> \<not> c_digit c < base"
  shows "c_digits base (s @ t) acc = (fst (c_digits base s acc), t)"
  using assms by (induction base s acc rule: c_digits.induct) (auto split: list.splits)

lemma c_digit_dot [simp]: "c_digit CHR ''.'' = 36"
  by (simp add: c_digit_def)

lemma digit_not_space_sign:
  assumes "c_digit c < 10"
  shows "\<not> c_isspace c" "c \<noteq> CHR ''-''" "c \<noteq> CHR ''+''"
  using assms by (auto simp: c_digit_def c_isspace_def Let_def split: if_splits)

lemma scan_u_octet:
  assumes "s \<noteq> []" and "list_all (\<lambda>c. c_digit c < 10) s"
  shows "scan_u (s @ CHR ''.'' # t) = Some (of_nat (fst (c_digits 10 s 0)), CHR ''.'' # t)"
    and "scan_u s = Some (of_nat (fst (c_digits 10 s 0)), [])"
proof -
  obtain c r where s: "s = c # r" and d: "c_digit c < 10" using assms by (cases s) auto
  note n = digit_not_space_sign [OF d]
  show "scan_u (s @ CHR ''.'' # t) = Some (of_nat (fst (c_digits 10 s 0)), CHR ''.'' # t)"
    using c_digits_append [OF assms(2), of "CHR ''.'' # t" 0] d n by (simp add: scan_u_def s c_sign_def Let_def)
  show "scan_u s = Some (of_nat (fst (c_digits 10 s 0)), [])"
    using c_digits_append [OF assms(2), of "[]" 0] d n
    by (cases "c_digits 10 r (c_digit c)") (simp add: scan_u_def s c_sign_def Let_def)
qed

text \<open>The four numbers of an address, and the address as one number.\<close>

definition ipv4_octets :: "string \<Rightarrow> nat list" where
  "ipv4_octets ip = map (\<lambda>g. fst (c_digits 10 g 0)) (wi_string_components_separated_by_string ip ''.'')"


lemma four_indices: "length (filter P [0..<4]) = 4 \<longleftrightarrow> P 0 \<and> P 1 \<and> P 2 \<and> P 3"
proof -
  have "[0..<4] = [0::nat, 1, 2, 3]" by (simp add: upt_rec)
  then show ?thesis by simp
qed

lemma list_length_4: "length xs = 4 \<longleftrightarrow> (\<exists>a b c d. xs = [a, b, c, d])"
  by (auto simp: numeral_eq_Suc length_Suc_conv)

lemma inet_pton4_octets:
  assumes "inet_pton4 ip"
  obtains a b c d where "wi_string_components_separated_by_string ip ''.'' = [a, b, c, d]"
    and "ip = a @ CHR ''.'' # b @ CHR ''.'' # c @ CHR ''.'' # d"
    and "pton4_octet a" "pton4_octet b" "pton4_octet c" "pton4_octet d"
proof -
  from assms obtain a b c d where s: "wi_string_components_separated_by_string ip ''.'' = [a, b, c, d]"
    and o: "pton4_octet a" "pton4_octet b" "pton4_octet c" "pton4_octet d"
    by (auto simp: inet_pton4_def Let_def list_length_4)
  have "ip = a @ CHR ''.'' # b @ CHR ''.'' # c @ CHR ''.'' # d"
    using join_split [of ip "CHR ''.''"] by (simp add: s)
  with s show ?thesis using o by (intro that)
qed

lemma wi_ipv4_uint32_pton4:
  assumes "inet_pton4 ip"
  shows "\<exists>a b c d. ipv4_octets ip = [a, b, c, d] \<and> a \<le> 255 \<and> b \<le> 255 \<and> c \<le> 255 \<and> d \<le> 255 \<and>
    wi_ipv4_uint32 ip = of_nat (a * 2 ^ 24 + b * 2 ^ 16 + c * 2 ^ 8 + d)"
proof -
  from assms obtain a b c d where s: "wi_string_components_separated_by_string ip ''.'' = [a, b, c, d]"
    "ip = a @ CHR ''.'' # b @ CHR ''.'' # c @ CHR ''.'' # d"
    and o: "pton4_octet a" "pton4_octet b" "pton4_octet c" "pton4_octet d"
    by (rule inet_pton4_octets)
  let ?n = "\<lambda>g. fst (c_digits 10 g 0)"
  have d: "x \<noteq> [] \<and> list_all (\<lambda>c. c_digit c < 10) x \<and> ?n x \<le> 255" if "pton4_octet x" for x
    using that by (simp add: pton4_octet_def)
  note u = scan_u_octet [of a] scan_u_octet [of b] scan_u_octet [of c] scan_u_octet [of d]
  have "wi_ipv4_uint32 ip = push_bit 24 (of_nat (?n a)) + push_bit 16 (of_nat (?n b)) + push_bit 8 (of_nat (?n c)) + of_nat (?n d)"
    using o by (simp add: wi_ipv4_uint32_def s(2) u d scan_dot_def)
  also have "\<dots> = of_nat (?n a * 2 ^ 24 + ?n b * 2 ^ 16 + ?n c * 2 ^ 8 + ?n d)"
    by (simp add: push_bit_eq_mult)
  finally show ?thesis using d [OF o(1)] d [OF o(2)] d [OF o(3)] d [OF o(4)] by (simp add: ipv4_octets_def s(1))
qed

lemma and_not_mask_eq_iff:
  "(x :: 'a::len word) AND NOT (mask m) = y AND NOT (mask m) \<longleftrightarrow> drop_bit m x = drop_bit m y"
proof -
  have e: "z AND NOT (mask m) = push_bit m (drop_bit m z)" for z :: "'a word"
    by (rule bit_eqI) (auto simp: bit_simps)
  have "drop_bit m (push_bit m (drop_bit m z)) = drop_bit m z" for z :: "'a word"
    by (rule bit_eqI) (auto simp: bit_simps dest: bit_imp_le_length)
  then show ?thesis unfolding e by metis
qed

lemma netmask_is_not_mask:
  assumes "unat cidr \<le> 32"
  shows "netmask_of_cidr undef cidr = NOT (mask (32 - unat cidr))"
proof -
  have "(2::nat) ^ (32 - unat cidr) \<le> 2 ^ 32" by (rule power_increasing) simp_all
  then have "(of_nat (2 ^ 32 - 2 ^ (32 - unat cidr)) :: 32 word) = of_nat (2 ^ 32) - of_nat (2 ^ (32 - unat cidr))"
    by (rule of_nat_diff)
  also have "\<dots> = NOT (mask (32 - unat cidr))"
    by (simp add: mask_eq_exp_minus_1 not_eq_complement)
  finally show ?thesis using assms by (simp add: netmask_of_cidr_def)
qed

text \<open>A string has one component more than separators.\<close>

lemma length_split: "length (wi_string_components_separated_by_string s [c]) = Suc (count_list s c)"
  by (induction s) (simp_all add: split_Cons split: list.split)

subsection \<open>Properties\<close>

text \<open>
  C32: A netmask pattern \<open>a.b.c.d/n\<close> with a prefix of at most 32 bits matches exactly the
  addresses that agree with it in the first \<open>n\<close> bits, where an address counts as the
  number of its four octets; and no pattern without a slash or with several is a netmask that
  matches.
\<close>
theorem wi_ipv4_netmask_matches_prefix:
  assumes "inet_pton4 ip" and "inet_pton4 net" and "CHR ''/'' \<notin> set bits" and "CHR ''.'' \<notin> set bits"
    and "wi_string_uint32 bits = of_nat n" and "n \<le> 32"
  shows "\<exists>a b c d a' b' c' d'. ipv4_octets ip = [a, b, c, d] \<and> ipv4_octets net = [a', b', c', d'] \<and>
    (wi_ipv4_match_netmask undef ip (net @ ''/'' @ bits) \<longleftrightarrow>
       (a * 2 ^ 24 + b * 2 ^ 16 + c * 2 ^ 8 + d) div 2 ^ (32 - n) =
       (a' * 2 ^ 24 + b' * 2 ^ 16 + c' * 2 ^ 8 + d') div 2 ^ (32 - n)) \<and>
    (\<forall>pattern. count_list pattern (CHR ''/'') \<noteq> 1 \<longrightarrow> \<not> wi_ipv4_match_netmask undef ip pattern)"
proof -
  obtain a b c d where i: "ipv4_octets ip = [a, b, c, d]" "a \<le> 255" "b \<le> 255" "c \<le> 255" "d \<le> 255"
    "wi_ipv4_uint32 ip = of_nat (a * 2 ^ 24 + b * 2 ^ 16 + c * 2 ^ 8 + d)"
    using wi_ipv4_uint32_pton4 [OF assms(1)] by blast
  obtain a' b' c' d' where j: "ipv4_octets net = [a', b', c', d']" "a' \<le> 255" "b' \<le> 255" "c' \<le> 255" "d' \<le> 255"
    "wi_ipv4_uint32 net = of_nat (a' * 2 ^ 24 + b' * 2 ^ 16 + c' * 2 ^ 8 + d')"
    using wi_ipv4_uint32_pton4 [OF assms(2)] by blast
  have "CHR ''/'' \<notin> set net"
  proof -
    have "c_digit CHR ''/'' = 36" by (simp add: c_digit_def)
    then have "CHR ''/'' \<notin> set x" if "pton4_octet x" for x
      using that by (auto simp: pton4_octet_def list_all_iff)
    with assms(2) show ?thesis by (elim inet_pton4_octets) auto
  qed
  then have s: "wi_string_components_separated_by_string (net @ ''/'' @ bits) ''/'' = [net, bits]"
    using assms(3) by (simp add: split_append_sep split_no_sep)
  have "\<not> wi_string_contains_string bits ''.''" using assms(4) by (auto simp: wi_string_contains_iff)
  moreover have "unat (wi_string_uint32 bits) = n"
    using assms(5,6) by (simp add: unat_of_nat take_bit_eq_mod)
  ultimately have m: "wi_ipv4_match_netmask undef ip (net @ ''/'' @ bits) \<longleftrightarrow>
      drop_bit (32 - n) (wi_ipv4_uint32 ip) = drop_bit (32 - n) (wi_ipv4_uint32 net)"
    using assms(6) by (simp add: wi_ipv4_match_netmask_def s [simplified] netmask_is_not_mask and_not_mask_eq_iff)
  have u: "unat (of_nat (p * 2 ^ 24 + q * 2 ^ 16 + r * 2 ^ 8 + t) :: 32 word) = p * 2 ^ 24 + q * 2 ^ 16 + r * 2 ^ 8 + t"
    if "p \<le> 255" "q \<le> 255" "r \<le> 255" "t \<le> 255" for p q r t
    using that by (simp only: unat_of_nat take_bit_eq_mod) simp
  have e: "drop_bit k x = drop_bit k y \<longleftrightarrow> unat x div 2 ^ k = unat y div 2 ^ k" for k and x y :: "32 word"
    unfolding word_unat_eq_iff unat_drop_bit_eq by (simp only: drop_bit_eq_div)
  have o: "\<not> wi_ipv4_match_netmask undef ip pattern" if "count_list pattern (CHR ''/'') \<noteq> 1" for pattern
    using that length_split [of pattern "CHR ''/''"] by (auto simp: wi_ipv4_match_netmask_def split: list.split)
  show ?thesis using i(1) j(1) o unfolding m e i(6) j(6) u [OF i(2-5)] u [OF j(2-5)] by blast
qed

theorem wi_ipv4_netmask_matches_prefix_witness:
  "wi_ipv4_match_netmask 0 ''10.1.2.3'' ''10.1.9.9/16''"
proof -
  have "inet_pton4 ''10.1.2.3''" "inet_pton4 ''10.1.9.9''" "ipv4_octets ''10.1.2.3'' = [10, 1, 2, 3]"
    "ipv4_octets ''10.1.9.9'' = [10, 1, 9, 9]"
    by (simp_all add: inet_pton4_def pton4_octet_def ipv4_octets_def split_Cons c_digit_def Let_def)
  moreover have "wi_string_uint32 ''16'' = of_nat 16"
    by (simp add: wi_string_uint32_def c_strtoul_def c_sign_def c_isspace_def c_digit_def Let_def)
  ultimately show ?thesis using wi_ipv4_netmask_matches_prefix [of "''10.1.2.3''" "''10.1.9.9''" "''16''" 16 0]
    by simp
qed

text \<open>
  A wildcard pattern matches an address exactly if it has four components and each is
  a star or the octet in its place.
\<close>
theorem wi_ip_wildcard_matches:
  assumes "inet_pton4 ip" and "CHR ''*'' \<in> set pattern"
  shows "wi_ip_matches_string undef ip pattern \<longleftrightarrow>
    list_all2 (\<lambda>i p. p = i \<or> p = ''*'') (wi_string_components_separated_by_string ip ''.'')
      (wi_string_components_separated_by_string pattern ''.'')"
proof -
  obtain a b c d where s: "wi_string_components_separated_by_string ip ''.'' = [a, b, c, d]"
    and j: "ip = a @ CHR ''.'' # b @ CHR ''.'' # c @ CHR ''.'' # d"
    using assms(1) by (rule inet_pton4_octets)
  have "\<exists>x y. ip = x @ ''.'' @ y" unfolding j by (intro exI [of _ a] exI) simp
  then have "wi_string_contains_string ip ''.''" by (simp add: wi_string_contains_iff)
  then have v: "wi_ip_version ip = WI_IP_IPV4" using assms(1) by (simp add: wi_ip_version_def)
  have w: "wi_string_contains_string pattern ''*''"
    using assms(2) by (auto simp: wi_string_contains_iff in_set_conv_decomp)
  let ?P = "wi_string_components_separated_by_string pattern ''.''"
  have "wi_ipv4_match_wildcard ip pattern \<longleftrightarrow> list_all2 (\<lambda>i p. p = i \<or> p = ''*'') [a, b, c, d] ?P"
  proof (cases "length ?P = 4")
    case True
    then obtain p q r t where p: "?P = [p, q, r, t]" by (auto simp: list_length_4)
    have "wi_ipv4_match_wildcard ip pattern \<longleftrightarrow>
        (a = p \<or> p = ''*'') \<and> (b = q \<or> q = ''*'') \<and> (c = r \<or> r = ''*'') \<and> (d = t \<or> t = ''*'')"
      unfolding wi_ipv4_match_wildcard_def Let_def s p four_indices by simp
    also have "\<dots> \<longleftrightarrow> list_all2 (\<lambda>i p. p = i \<or> p = ''*'') [a, b, c, d] ?P"
      unfolding p list_all2_Cons list_all2_Nil by metis
    finally show ?thesis .
  next
    case False
    then show ?thesis by (auto simp: wi_ipv4_match_wildcard_def Let_def s dest: list_all2_lengthD)
  qed
  then show ?thesis by (simp add: wi_ip_matches_string_def v w s)
qed

theorem wi_ip_wildcard_matches_example:
  "wi_ip_matches_string 0 ''10.1.2.3'' ''10.*.2.*'' \<and> \<not> wi_ip_matches_string 0 ''10.1.2.3'' ''10.*.3.*''"
proof -
  have p: "inet_pton4 ''10.1.2.3''"
    by (simp add: inet_pton4_def pton4_octet_def split_Cons c_digit_def Let_def)
  from wi_ip_wildcard_matches [OF p, of "''10.*.2.*''" 0] wi_ip_wildcard_matches [OF p, of "''10.*.3.*''" 0]
  show ?thesis by (simp add: split_Cons)
qed


lemma pton6_group_no_colon: "pton6_group g \<Longrightarrow> g \<noteq> [] \<and> CHR '':'' \<notin> set g"
  by (auto simp: pton6_group_def list_all_iff c_digit_def)

lemma split_double_colon:
  assumes "front \<noteq> []" and "back \<noteq> []" and "list_all pton6_group (front @ back)"
  shows "wi_string_components_separated_by_string
     (wi_components_joined_by_string front '':'' @ ''::'' @ wi_components_joined_by_string back '':'') '':'' =
     front @ [[]] @ back"
proof -
  have "CHR '':'' \<notin> set g" if "g \<in> set (front @ back)" for g
    using pton6_group_no_colon that assms(3) by (auto simp: list_all_iff)
  then have "wi_string_components_separated_by_string (wi_components_joined_by_string front '':'') '':'' = front"
    "wi_string_components_separated_by_string (wi_components_joined_by_string back '':'') '':'' = back"
    using assms(1,2) by (auto intro!: split_join)
  then show ?thesis by (simp add: split_append split_Cons)
qed

lemma replicate_commutes: "replicate k z @ xs = xs @ replicate k z \<longleftrightarrow> k = 0 \<or> (\<forall>x \<in> set xs. x = z)"
proof (induction xs)
  case (Cons x xs)
  show ?case
  proof (cases k)
    case (Suc n)
    have "replicate k z @ x # xs = x # xs @ replicate k z \<longleftrightarrow> x = z \<and> replicate n z @ z # xs = xs @ replicate k z"
      by (auto simp: Suc)
    also have "replicate n z @ z # xs = replicate k z @ xs" by (simp add: Suc replicate_app_Cons_same)
    finally show ?thesis using Cons.IH by (auto simp: Suc)
  qed simp
qed simp

lemma set_pad_octet: "set (pad_octet n g) \<subseteq> insert (CHR ''0'') (set g)"
  by (induction n g rule: pad_octet.induct) auto

lemma pad_octet_nonempty: "g \<noteq> [] \<Longrightarrow> pad_octet n g \<noteq> []"
  by (induction n g rule: pad_octet.induct) auto

lemma split_padded:
  assumes "gs \<noteq> []" and "list_all pton6_group gs"
  shows "wi_string_components_separated_by_string
    (wi_components_joined_by_string (map (\<lambda>g. pad_octet (4 - length g) g) gs) '':'') '':'' = map (\<lambda>g. pad_octet (4 - length g) g) gs"
proof (rule split_join)
  fix s assume "s \<in> set (map (\<lambda>g. pad_octet (4 - length g) g) gs)"
  then obtain g where "g \<in> set gs" "s = pad_octet (4 - length g) g" by auto
  with assms(2) show "CHR '':'' \<notin> set s"
    using set_pad_octet [of "4 - length g" g] pton6_group_no_colon [of g] by (auto simp: list_all_iff)
qed (use assms(1) in simp)

lemma join_padded_inject:
  assumes "gs \<noteq> []" "list_all pton6_group gs" and "hs \<noteq> []" "list_all pton6_group hs"
  shows "wi_components_joined_by_string (map (\<lambda>g. pad_octet (4 - length g) g) gs) '':'' =
      wi_components_joined_by_string (map (\<lambda>g. pad_octet (4 - length g) g) hs) '':'' \<longleftrightarrow>
    map (\<lambda>g. pad_octet (4 - length g) g) gs = map (\<lambda>g. pad_octet (4 - length g) g) hs"
    (is "wi_components_joined_by_string ?a _ = wi_components_joined_by_string ?b _ \<longleftrightarrow> _")
proof
  let ?join = "\<lambda>gs. wi_components_joined_by_string gs '':''"
  let ?split = "\<lambda>s. wi_string_components_separated_by_string s '':''"
  assume e: "?join ?a = ?join ?b"
  have "?a = ?split (?join ?a)" by (rule split_padded [OF assms(1,2), symmetric])
  also have "\<dots> = ?split (?join ?b)" by (simp only: e)
  also have "\<dots> = ?b" by (rule split_padded [OF assms(3,4)])
  finally show "?a = ?b" .
qed (simp only:)

lemma wi_ipv6_match_expanded:
  "wi_ipv6_expanded_value ip = Some a \<Longrightarrow> wi_ipv6_expanded_value pattern = Some b \<Longrightarrow> wi_ipv6_match_literal ip pattern \<longleftrightarrow> a = b"
  by (simp add: wi_ipv6_match_literal_def)

text \<open>The expansion of an address written in full.\<close>

lemma wi_ipv6_expanded_full:
  assumes "length groups = 8" and "list_all pton6_group groups"
  shows "wi_ipv6_expanded_value (wi_components_joined_by_string groups '':'') =
    Some (wi_components_joined_by_string (map (\<lambda>g. pad_octet (4 - length g) g) groups) '':'')"
proof -
  have p: "g \<noteq> [] \<and> CHR '':'' \<notin> set g" if "g \<in> set groups" for g
    using pton6_group_no_colon that assms(2) by (auto simp: list_all_iff)
  have "groups \<noteq> []" using assms(1) by auto
  then have "wi_string_components_separated_by_string (wi_components_joined_by_string groups '':'') '':'' = groups"
    using p by (intro split_join) auto
  moreover have "dropWhile (\<lambda>g. length g = 0) groups = groups"
    using p [of "hd groups"] \<open>groups \<noteq> []\<close> by (simp add: dropWhile_eq_self_iff)
  ultimately show ?thesis using assms(1) by (simp add: wi_ipv6_expanded_value_def Let_def)
qed

text \<open>
  C33: The expansion of an IPv6 address puts the zeros of a double colon in the wrong place:
  between groups, the double colon becomes one zero group, and the other zero groups are put
  in front of the address. So an address with a double colon between groups is recognised as
  the same address written in full only if the double colon stands for a single group or all
  groups before it are zero; otherwise the two are taken for different addresses.
\<close>
theorem wi_ipv6_double_colon_misplaced:
  assumes "front \<noteq> []" and "back \<noteq> []" and "list_all pton6_group (front @ back)" and "length (front @ back) \<le> 7"
  shows "wi_ipv6_expanded_value (wi_components_joined_by_string front '':'' @ ''::'' @ wi_components_joined_by_string back '':'') =
    wi_ipv6_expanded_value (wi_components_joined_by_string
      (replicate (7 - length (front @ back)) ''0'' @ front @ [''0''] @ back) '':'') \<and>
    (wi_ipv6_match_literal (wi_components_joined_by_string front '':'' @ ''::'' @ wi_components_joined_by_string back '':'')
       (wi_components_joined_by_string (front @ replicate (8 - length (front @ back)) ''0'' @ back) '':'') \<longleftrightarrow>
     length (front @ back) = 7 \<or> (\<forall>g \<in> set front. pad_octet (4 - length g) g = ''0000''))"
proof -
  let ?k = "7 - length (front @ back)" and ?p = "\<lambda>g. pad_octet (4 - length g) g"
  let ?short = "wi_components_joined_by_string front '':'' @ ''::'' @ wi_components_joined_by_string back '':''"
  let ?wrong = "replicate ?k ''0'' @ front @ [''0''] @ back" and ?full = "front @ replicate (8 - length (front @ back)) ''0'' @ back"
  have z: "pton6_group ''0''" "pad_octet 3 ''0'' = ''0000''" "pad_octet 4 [] = ''0000''" by (simp_all add: pton6_group_def c_digit_def numeral_eq_Suc)
  have n: "length front + length back \<le> 7" using assms(4) by simp
  have g: "list_all pton6_group front" "list_all pton6_group back" using assms(3) by simp_all
  have wrong: "length ?wrong = 8" "list_all pton6_group ?wrong" and full: "length ?full = 8" "list_all pton6_group ?full"
    using n g z(1) by (simp_all add: list_all_iff ball_Un)
  have ne: "?wrong \<noteq> []" "?full \<noteq> []" using assms(1) by simp_all
  have "list_all pton6_group (front @ back)" by (rule assms(3))
  then have h: "hd (front @ [[]] @ back) \<noteq> []" using pton6_group_no_colon assms(1) by (cases front) auto
  then have w: "dropWhile (\<lambda>g. length g = 0) (front @ [[]] @ back) = front @ [[]] @ back"
    by (simp add: dropWhile_eq_self_iff)
  have "wi_ipv6_expanded_value ?short = Some (wi_components_joined_by_string
      (replicate ?k ''0000'' @ map ?p (front @ [[]] @ back)) '':'')"
    using assms(1,2,4) w unfolding wi_ipv6_expanded_value_def split_double_colon [OF assms(1-3)] Let_def
    by (cases front; cases "back") (simp_all add: z)
  also have "replicate ?k ''0000'' @ map ?p (front @ [[]] @ back) = map ?p ?wrong" by (simp add: z map_replicate_const)
  finally have e: "wi_ipv6_expanded_value ?short = Some (wi_components_joined_by_string (map ?p ?wrong) '':'')" .
  have "wi_ipv6_match_literal ?short (wi_components_joined_by_string ?full '':'') \<longleftrightarrow> map ?p ?wrong = map ?p ?full"
    unfolding wi_ipv6_match_expanded [OF e wi_ipv6_expanded_full [OF full]]
    by (rule join_padded_inject [OF ne(1) wrong(2) ne(2) full(2)])
  also have "\<dots> \<longleftrightarrow> replicate ?k ''0000'' @ map ?p front = map ?p front @ replicate ?k ''0000''"
  proof -
    have "8 - length (front @ back) = Suc ?k" using assms(4) by simp
    then have "map ?p ?full = (map ?p front @ replicate ?k ''0000'') @ ''0000'' # map ?p back"
      by (simp add: z map_replicate_const replicate_app_Cons_same)
    moreover have "map ?p ?wrong = (replicate ?k ''0000'' @ map ?p front) @ ''0000'' # map ?p back"
      by (simp add: z map_replicate_const)
    ultimately show ?thesis by (simp only: append_same_eq)
  qed
  also have "\<dots> \<longleftrightarrow> length (front @ back) = 7 \<or> (\<forall>g \<in> set front. ?p g = ''0000'')"
    unfolding replicate_commutes using assms(4) by auto
  finally show ?thesis
    unfolding e wi_ipv6_expanded_full [OF wrong] by blast
qed

theorem wi_ipv6_double_colon_misplaced_witness:
  "wi_ipv6_expanded_value ''fe80::1'' = wi_ipv6_expanded_value ''0:0:0:0:0:fe80:0:1'' \<and>
   \<not> wi_ipv6_match_literal ''fe80::1'' ''fe80:0:0:0:0:0:0:1''"
proof -
  have "list_all pton6_group ([''fe80''] @ [''1''])" by (simp add: pton6_group_def c_digit_def)
  from wi_ipv6_double_colon_misplaced [OF _ _ this] show ?thesis
    by (simp add: numeral_eq_Suc)
qed

end
