(* ===== verification/Wi_P7_Spec.thy ===== *)
theory Wi_P7_Spec
  imports Wi_String "HOL-Library.AList" "HOL-Library.Monad_Syntax"
begin

text \<open>
  The specification of a P7 protocol (p7/wi-p7-spec.c): types, fields, collections, messages,
  transactions and broadcasts, their loading from a parsed XML document, and the comparison
  of the specifications of two peers.

  The document comes parsed from libxml2: an element with its local name, its attributes and
  its children, or a node of another kind. A dictionary of libwired is an association list
  here, in the order of insertion, with the lookup and the setting of a key that Wi_Dictionary
  proves for the C tables. A NULL result is \<open>None\<close>; the texts of errors are left out. The
  objects are values: the functions below read them and never change one after it is loaded.
\<close>

subsection \<open>Documents and strings\<close>

datatype xml_node =
    XML_Element (xml_name: string) (xml_attributes: "(string \<times> string) list") (xml_children: "xml_node list")
  | XML_Other

definition wi_xml_node_attribute_with_name :: "xml_node \<Rightarrow> string \<Rightarrow> string option" where
  "wi_xml_node_attribute_with_name n a =
     (case n of XML_Element _ as _ \<Rightarrow> map_of as a | XML_Other \<Rightarrow> None)"

text \<open>\<open>strtoll\<close> with base 0; a value beyond 64 bits is an error.\<close>

definition c_strtoll :: "string \<Rightarrow> (int \<times> string) option" where
  "c_strtoll s =
     (let (neg, t) = c_sign (dropWhile c_isspace s);
          hex = (case t of z # x # d # _ \<Rightarrow> z = CHR ''0'' \<and> (x = CHR ''x'' \<or> x = CHR ''X'') \<and> c_digit d < 16 | _ \<Rightarrow> False);
          base = (if hex then 16 else if take 1 t = ''0'' then 8 else 10);
          u = (if hex then drop 2 t else t)
      in case u of
           [] \<Rightarrow> None
         | c # _ \<Rightarrow>
             if c_digit c < base then
               let (n, rest) = c_digits base u 0;
                   i = (if neg then - int n else int n)
               in if - (2 ^ 63) \<le> i \<and> i < 2 ^ 63 then Some (i, rest) else None
             else None)"

definition wi_string_int64 :: "string \<Rightarrow> int" where
  "wi_string_int64 s = (case c_strtoll s of Some (ll, []) \<Rightarrow> ll | _ \<Rightarrow> 0)"

definition wi_xml_node_integer_attribute_with_name :: "xml_node \<Rightarrow> string \<Rightarrow> int" where
  "wi_xml_node_integer_attribute_with_name n a =
     (case wi_xml_node_attribute_with_name n a of None \<Rightarrow> 0 | Some s \<Rightarrow> wi_string_int64 s)"

definition c_tolower :: "char \<Rightarrow> nat" where
  "c_tolower c = (let n = of_char c in if 65 \<le> n \<and> n \<le> 90 then n + 32 else n)"

text \<open>\<open>wi_string_case_insensitive_compare\<close> is only asked whether it is 0.\<close>

definition wi_string_case_insensitive_equal :: "string \<Rightarrow> string \<Rightarrow> bool" where
  "wi_string_case_insensitive_equal s t \<longleftrightarrow> map c_tolower s = map c_tolower t"

subsection \<open>The parts of a specification\<close>

text \<open>The values of the enumeration \<open>wi_p7_type\<close>.\<close>

definition WI_P7_BOOL :: "64 word" where "WI_P7_BOOL = 1"
definition WI_P7_ENUM :: "64 word" where "WI_P7_ENUM = 2"
definition WI_P7_INT32 :: "64 word" where "WI_P7_INT32 = 3"
definition WI_P7_UINT32 :: "64 word" where "WI_P7_UINT32 = 4"
definition WI_P7_INT64 :: "64 word" where "WI_P7_INT64 = 5"
definition WI_P7_UINT64 :: "64 word" where "WI_P7_UINT64 = 6"
definition WI_P7_DOUBLE :: "64 word" where "WI_P7_DOUBLE = 7"
definition WI_P7_STRING :: "64 word" where "WI_P7_STRING = 8"
definition WI_P7_UUID :: "64 word" where "WI_P7_UUID = 9"
definition WI_P7_DATE :: "64 word" where "WI_P7_DATE = 10"
definition WI_P7_DATA :: "64 word" where "WI_P7_DATA = 11"
definition WI_P7_OOBDATA :: "64 word" where "WI_P7_OOBDATA = 12"
definition WI_P7_LIST :: "64 word" where "WI_P7_LIST = 13"

record p7_spec_type =
  pt_name :: string
  pt_size :: "64 word"
  pt_id :: "64 word"

record p7_spec_field =
  pf_name :: string
  pf_id :: "64 word"
  pf_type :: p7_spec_type
  pf_listtype :: "p7_spec_type option"
  pf_enums_name :: "(string \<times> 64 word) list"
  pf_enums_value :: "(64 word \<times> string) list"

record p7_spec_collection =
  pc_name :: string
  pc_fields :: "p7_spec_field list"

record p7_spec_parameter =
  pp_field :: p7_spec_field
  pp_required :: bool

record p7_spec_message =
  sm_name :: string
  sm_id :: "64 word"
  sm_parameters_name :: "(string \<times> p7_spec_parameter) list"
  sm_parameters_id :: "(64 word \<times> p7_spec_parameter) list"
  sm_required_parameters :: nat

datatype p7_originator = WI_P7_BOTH | WI_P7_CLIENT | WI_P7_SERVER

record p7_spec_reply =
  sr_message :: p7_spec_message
  sr_count :: int
  sr_required :: bool

datatype p7_spec_andor_type = WI_P7_SPEC_AND | WI_P7_SPEC_OR

datatype p7_spec_andor =
  Andor (ao_type: p7_spec_andor_type) (ao_children: "p7_spec_andor list")
    (ao_replies_array: "p7_spec_reply list") (ao_replies_dictionary: "(string \<times> p7_spec_reply) list")

record p7_spec_transaction =
  st_message :: p7_spec_message
  st_originator :: p7_originator
  st_required :: bool
  st_andor :: p7_spec_andor

record p7_spec_broadcast =
  sb_message :: p7_spec_message
  sb_required :: bool

record p7_spec =
  sp_name :: "string option"
  sp_version :: "string option"
  sp_originator :: p7_originator
  sp_messages_name :: "(string \<times> p7_spec_message) list"
  sp_messages_id :: "(64 word \<times> p7_spec_message) list"
  sp_fields_name :: "(string \<times> p7_spec_field) list"
  sp_fields_id :: "(64 word \<times> p7_spec_field) list"
  sp_collections_name :: "(string \<times> p7_spec_collection) list"
  sp_types_name :: "(string \<times> p7_spec_type) list"
  sp_types_id :: "(64 word \<times> p7_spec_type) list"
  sp_transactions_name :: "(string \<times> p7_spec_transaction) list"
  sp_broadcasts_name :: "(string \<times> p7_spec_broadcast) list"

definition WI_P7_SPEC_REPLY_ONE_OR_ZERO :: int where "WI_P7_SPEC_REPLY_ONE_OR_ZERO = - 1"
definition WI_P7_SPEC_REPLY_ZERO_OR_MORE :: int where "WI_P7_SPEC_REPLY_ZERO_OR_MORE = - 2"
definition WI_P7_SPEC_REPLY_ONE_OR_MORE :: int where "WI_P7_SPEC_REPLY_ONE_OR_MORE = - 3"

definition wi_p7_spec_init :: "p7_originator \<Rightarrow> p7_spec" where
  "wi_p7_spec_init originator =
     \<lparr>sp_name = None, sp_version = None, sp_originator = originator,
      sp_messages_name = [], sp_messages_id = [], sp_fields_name = [], sp_fields_id = [],
      sp_collections_name = [], sp_types_name = [], sp_types_id = [],
      sp_transactions_name = [], sp_broadcasts_name = []\<rparr>"

definition wi_p7_spec_opposite_originator :: "p7_originator \<Rightarrow> p7_originator" where
  "wi_p7_spec_opposite_originator originator =
     (case originator of
        WI_P7_SERVER \<Rightarrow> WI_P7_BOTH
      | WI_P7_CLIENT \<Rightarrow> WI_P7_SERVER
      | WI_P7_BOTH \<Rightarrow> WI_P7_BOTH)"

subsection \<open>Lookups\<close>

text \<open>
  A lookup falls back on the built-in specification, the argument \<open>builtin\<close>: it is \<open>None\<close>
  only while the built-in specification itself is loaded.
\<close>

definition with_builtin :: "('s \<Rightarrow> ('k \<times> 'v) list) \<Rightarrow> 's option \<Rightarrow> 's \<Rightarrow> 'k \<Rightarrow> 'v option" where
  "with_builtin f builtin spec k =
     (case map_of (f spec) k of
        Some v \<Rightarrow> Some v
      | None \<Rightarrow> (case builtin of Some b \<Rightarrow> map_of (f b) k | None \<Rightarrow> None))"

definition wi_p7_spec_type_with_name :: "p7_spec option \<Rightarrow> p7_spec \<Rightarrow> string \<Rightarrow> p7_spec_type option" where
  "wi_p7_spec_type_with_name = with_builtin sp_types_name"

definition wi_p7_spec_type_with_id :: "p7_spec option \<Rightarrow> p7_spec \<Rightarrow> 64 word \<Rightarrow> p7_spec_type option" where
  "wi_p7_spec_type_with_id = with_builtin sp_types_id"

definition wi_p7_spec_field_with_name :: "p7_spec option \<Rightarrow> p7_spec \<Rightarrow> string \<Rightarrow> p7_spec_field option" where
  "wi_p7_spec_field_with_name = with_builtin sp_fields_name"

definition wi_p7_spec_field_with_id :: "p7_spec option \<Rightarrow> p7_spec \<Rightarrow> 64 word \<Rightarrow> p7_spec_field option" where
  "wi_p7_spec_field_with_id = with_builtin sp_fields_id"

definition wi_p7_spec_message_with_name :: "p7_spec option \<Rightarrow> p7_spec \<Rightarrow> string \<Rightarrow> p7_spec_message option" where
  "wi_p7_spec_message_with_name = with_builtin sp_messages_name"

definition wi_p7_spec_message_with_id :: "p7_spec option \<Rightarrow> p7_spec \<Rightarrow> 64 word \<Rightarrow> p7_spec_message option" where
  "wi_p7_spec_message_with_id = with_builtin sp_messages_id"

subsection \<open>Loading\<close>

text \<open>
  The attribute \<open>use\<close>: absent or optional, required, or else an error. A NULL-valued
  dictionary cannot tell a name with the value 0 from an absent one.
\<close>

definition p7_spec_use :: "xml_node \<Rightarrow> bool option" where
  "p7_spec_use node =
     (case wi_xml_node_attribute_with_name node ''use'' of
        None \<Rightarrow> Some False
      | Some use \<Rightarrow>
          if wi_string_case_insensitive_equal use ''required'' then Some True
          else if wi_string_case_insensitive_equal use ''optional'' then Some False
          else None)"

definition p7_enum_value :: "(string \<times> 64 word) list \<Rightarrow> string \<Rightarrow> 64 word" where
  "p7_enum_value enums name = (case map_of enums name of Some v \<Rightarrow> v | None \<Rightarrow> 0)"

definition wi_p7_spec_type_with_node :: "xml_node \<Rightarrow> p7_spec_type option" where
  "wi_p7_spec_type_with_node node = do {
     name \<leftarrow> wi_xml_node_attribute_with_name node ''name'';
     let id = word_of_int (wi_xml_node_integer_attribute_with_name node ''id'');
     if id = 0 then None
     else Some \<lparr>pt_name = name, pt_size = word_of_int (wi_xml_node_integer_attribute_with_name node ''size''),
                pt_id = id\<rparr>
   }"

fun wi_p7_spec_field_enums :: "p7_spec_field \<Rightarrow> xml_node list \<Rightarrow> p7_spec_field option" where
  "wi_p7_spec_field_enums field [] = Some field"
| "wi_p7_spec_field_enums field (XML_Other # ns) = wi_p7_spec_field_enums field ns"
| "wi_p7_spec_field_enums field (XML_Element tag as ch # ns) =
     (if tag = ''documentation'' then wi_p7_spec_field_enums field ns
      else if pt_id (pf_type field) \<noteq> WI_P7_ENUM then None
      else if tag \<noteq> ''enum'' then None
      else do {
        name \<leftarrow> wi_xml_node_attribute_with_name (XML_Element tag as ch) ''name'';
        let value = word_of_int (wi_xml_node_integer_attribute_with_name (XML_Element tag as ch) ''value'');
        if p7_enum_value (pf_enums_name field) name \<noteq> 0 then None
        else if map_of (pf_enums_value field) value \<noteq> None then None
        else wi_p7_spec_field_enums
               (field\<lparr>pf_enums_name := AList.update name value (pf_enums_name field),
                      pf_enums_value := AList.update value name (pf_enums_value field)\<rparr>) ns
      })"

definition wi_p7_spec_field_with_node :: "p7_spec option \<Rightarrow> p7_spec \<Rightarrow> xml_node \<Rightarrow> p7_spec_field option" where
  "wi_p7_spec_field_with_node builtin spec node = do {
     name \<leftarrow> wi_xml_node_attribute_with_name node ''name'';
     typename \<leftarrow> wi_xml_node_attribute_with_name node ''type'';
     type \<leftarrow> with_builtin sp_types_name builtin spec typename;
     listtype \<leftarrow> (case wi_xml_node_attribute_with_name node ''listtype'' of
                    None \<Rightarrow> Some None
                  | Some l \<Rightarrow> map_option Some (with_builtin sp_types_name builtin spec l));
     let id = word_of_int (wi_xml_node_integer_attribute_with_name node ''id'');
     if id = 0 then None
     else wi_p7_spec_field_enums
            \<lparr>pf_name = name, pf_id = id, pf_type = type, pf_listtype = listtype,
             pf_enums_name = [], pf_enums_value = []\<rparr> (xml_children node)
   }"

fun wi_p7_spec_collection_members ::
  "p7_spec option \<Rightarrow> p7_spec \<Rightarrow> p7_spec_field list \<Rightarrow> xml_node list \<Rightarrow> p7_spec_field list option" where
  "wi_p7_spec_collection_members builtin spec ms [] = Some ms"
| "wi_p7_spec_collection_members builtin spec ms (XML_Other # ns) =
     wi_p7_spec_collection_members builtin spec ms ns"
| "wi_p7_spec_collection_members builtin spec ms (XML_Element tag as ch # ns) =
     (if tag = ''documentation'' then wi_p7_spec_collection_members builtin spec ms ns
      else if tag \<noteq> ''member'' then None
      else do {
        name \<leftarrow> wi_xml_node_attribute_with_name (XML_Element tag as ch) ''field'';
        field \<leftarrow> with_builtin sp_fields_name builtin spec name;
        wi_p7_spec_collection_members builtin spec (ms @ [field]) ns
      })"

definition wi_p7_spec_collection_with_node ::
  "p7_spec option \<Rightarrow> p7_spec \<Rightarrow> xml_node \<Rightarrow> p7_spec_collection option" where
  "wi_p7_spec_collection_with_node builtin spec node = do {
     name \<leftarrow> wi_xml_node_attribute_with_name node ''name'';
     ms \<leftarrow> wi_p7_spec_collection_members builtin spec [] (xml_children node);
     Some \<lparr>pc_name = name, pc_fields = ms\<rparr>
   }"

definition wi_p7_spec_parameter_with_node ::
  "p7_spec option \<Rightarrow> p7_spec \<Rightarrow> xml_node \<Rightarrow> p7_spec_parameter option" where
  "wi_p7_spec_parameter_with_node builtin spec node = do {
     name \<leftarrow> wi_xml_node_attribute_with_name node ''field'';
     field \<leftarrow> with_builtin sp_fields_name builtin spec name;
     required \<leftarrow> p7_spec_use node;
     Some \<lparr>pp_field = field, pp_required = required\<rparr>
   }"

text \<open>Entering a parameter into a message, refused for a name the message has.\<close>

definition p7_spec_message_add_parameter ::
  "p7_spec_message \<Rightarrow> p7_spec_parameter \<Rightarrow> p7_spec_message option" where
  "p7_spec_message_add_parameter message parameter =
     (if map_of (sm_parameters_name message) (pf_name (pp_field parameter)) \<noteq> None then None
      else Some (message
        \<lparr>sm_parameters_name := AList.update (pf_name (pp_field parameter)) parameter (sm_parameters_name message),
         sm_parameters_id := AList.update (pf_id (pp_field parameter)) parameter (sm_parameters_id message),
         sm_required_parameters := sm_required_parameters message + (if pp_required parameter then 1 else 0)\<rparr>))"

fun p7_spec_message_add_fields ::
  "bool \<Rightarrow> p7_spec_message \<Rightarrow> p7_spec_field list \<Rightarrow> p7_spec_message option" where
  "p7_spec_message_add_fields required message [] = Some message"
| "p7_spec_message_add_fields required message (field # fs) = do {
     message \<leftarrow> p7_spec_message_add_parameter message \<lparr>pp_field = field, pp_required = required\<rparr>;
     p7_spec_message_add_fields required message fs
   }"

fun wi_p7_spec_message_parameters_with_nodes ::
  "p7_spec option \<Rightarrow> p7_spec \<Rightarrow> p7_spec_message \<Rightarrow> xml_node list \<Rightarrow> p7_spec_message option" where
  "wi_p7_spec_message_parameters_with_nodes builtin spec message [] = Some message"
| "wi_p7_spec_message_parameters_with_nodes builtin spec message (XML_Other # ns) =
     wi_p7_spec_message_parameters_with_nodes builtin spec message ns"
| "wi_p7_spec_message_parameters_with_nodes builtin spec message (XML_Element tag as ch # ns) =
     (if tag = ''documentation'' then wi_p7_spec_message_parameters_with_nodes builtin spec message ns
      else if tag \<noteq> ''parameter'' then None
      else do {
        let node = XML_Element tag as ch;
        message \<leftarrow>
          (if wi_xml_node_attribute_with_name node ''field'' \<noteq> None then do {
             parameter \<leftarrow> wi_p7_spec_parameter_with_node builtin spec node;
             p7_spec_message_add_parameter message parameter
           } else do {
             name \<leftarrow> wi_xml_node_attribute_with_name node ''collection'';
             collection \<leftarrow> map_of (sp_collections_name spec) name;
             required \<leftarrow> p7_spec_use node;
             p7_spec_message_add_fields required message (pc_fields collection)
           });
        wi_p7_spec_message_parameters_with_nodes builtin spec message ns
      })"

definition wi_p7_spec_message_with_node :: "p7_spec option \<Rightarrow> p7_spec \<Rightarrow> xml_node \<Rightarrow> p7_spec_message option" where
  "wi_p7_spec_message_with_node builtin spec node = do {
     name \<leftarrow> wi_xml_node_attribute_with_name node ''name'';
     let id = word_of_int (wi_xml_node_integer_attribute_with_name node ''id'');
     if id = 0 then None
     else wi_p7_spec_message_parameters_with_nodes builtin spec
            \<lparr>sm_name = name, sm_id = id, sm_parameters_name = [], sm_parameters_id = [],
             sm_required_parameters = 0\<rparr> (xml_children node)
   }"

definition wi_p7_spec_reply_with_node :: "p7_spec option \<Rightarrow> p7_spec \<Rightarrow> xml_node \<Rightarrow> p7_spec_reply option" where
  "wi_p7_spec_reply_with_node builtin spec node = do {
     name \<leftarrow> wi_xml_node_attribute_with_name node ''message'';
     message \<leftarrow> with_builtin sp_messages_name builtin spec name;
     required \<leftarrow> p7_spec_use node;
     count \<leftarrow> wi_xml_node_attribute_with_name node ''count'';
     let n = (if count = ''?'' then WI_P7_SPEC_REPLY_ONE_OR_ZERO
              else if count = ''*'' then WI_P7_SPEC_REPLY_ZERO_OR_MORE
              else if count = ''+'' then WI_P7_SPEC_REPLY_ONE_OR_MORE
              else wi_string_int64 count);
     if n = 0 then None else Some \<lparr>sr_message = message, sr_count = n, sr_required = required\<rparr>
   }"

fun wi_p7_spec_andor ::
  "p7_spec option \<Rightarrow> p7_spec \<Rightarrow> p7_spec_andor_type \<Rightarrow> p7_spec_andor list \<Rightarrow> p7_spec_reply list \<Rightarrow>
   (string \<times> p7_spec_reply) list \<Rightarrow> xml_node list \<Rightarrow> p7_spec_andor option" where
  "wi_p7_spec_andor builtin spec type children replies dict [] = Some (Andor type children replies dict)"
| "wi_p7_spec_andor builtin spec type children replies dict (XML_Other # ns) =
     wi_p7_spec_andor builtin spec type children replies dict ns"
| "wi_p7_spec_andor builtin spec type children replies dict (XML_Element tag as ch # ns) =
     (if tag = ''documentation'' then wi_p7_spec_andor builtin spec type children replies dict ns
      else if tag = ''reply'' then do {
        reply \<leftarrow> wi_p7_spec_reply_with_node builtin spec (XML_Element tag as ch);
        if map_of dict (sm_name (sr_message reply)) \<noteq> None then None
        else wi_p7_spec_andor builtin spec type children (replies @ [reply])
               (AList.update (sm_name (sr_message reply)) reply dict) ns
      }
      else do {
        child \<leftarrow> (if tag = ''and'' then wi_p7_spec_andor builtin spec WI_P7_SPEC_AND [] [] [] ch
                  else if tag = ''or'' then wi_p7_spec_andor builtin spec WI_P7_SPEC_OR [] [] [] ch
                  else None);
        wi_p7_spec_andor builtin spec type (children @ [child]) replies dict ns
      })"

definition wi_p7_spec_transaction_with_node ::
  "p7_spec option \<Rightarrow> p7_spec \<Rightarrow> xml_node \<Rightarrow> p7_spec_transaction option" where
  "wi_p7_spec_transaction_with_node builtin spec node = do {
     name \<leftarrow> wi_xml_node_attribute_with_name node ''message'';
     message \<leftarrow> with_builtin sp_messages_name builtin spec name;
     who \<leftarrow> wi_xml_node_attribute_with_name node ''originator'';
     originator \<leftarrow>
       (if wi_string_case_insensitive_equal who ''client'' then Some WI_P7_CLIENT
        else if wi_string_case_insensitive_equal who ''server'' then Some WI_P7_SERVER
        else if wi_string_case_insensitive_equal who ''both'' then Some WI_P7_BOTH
        else None);
     required \<leftarrow> p7_spec_use node;
     andor \<leftarrow> wi_p7_spec_andor builtin spec WI_P7_SPEC_AND [] [] [] (xml_children node);
     Some \<lparr>st_message = message, st_originator = originator, st_required = required, st_andor = andor\<rparr>
   }"

text \<open>The attribute \<open>use\<close> of a broadcast is not read: no broadcast is required.\<close>

definition wi_p7_spec_broadcast_with_node ::
  "p7_spec option \<Rightarrow> p7_spec \<Rightarrow> xml_node \<Rightarrow> p7_spec_broadcast option" where
  "wi_p7_spec_broadcast_with_node builtin spec node = do {
     name \<leftarrow> wi_xml_node_attribute_with_name node ''message'';
     message \<leftarrow> with_builtin sp_messages_name builtin spec name;
     Some \<lparr>sb_message = message, sb_required = False\<rparr>
   }"

text \<open>
  The loaders of the sections go over the element nodes of a section and stop at the first
  error. A name or an id that the specification or the built-in one has is refused.
\<close>

fun load_children :: "(p7_spec \<Rightarrow> xml_node \<Rightarrow> p7_spec option) \<Rightarrow> p7_spec \<Rightarrow> xml_node list \<Rightarrow> p7_spec option" where
  "load_children f spec [] = Some spec"
| "load_children f spec (XML_Other # ns) = load_children f spec ns"
| "load_children f spec (XML_Element tag as ch # ns) = do {
     spec \<leftarrow> f spec (XML_Element tag as ch);
     load_children f spec ns
   }"

definition wi_p7_spec_load_types :: "p7_spec \<Rightarrow> xml_node \<Rightarrow> p7_spec option" where
  "wi_p7_spec_load_types spec node =
     load_children (\<lambda>spec n.
       if xml_name n \<noteq> ''type'' then None
       else do {
         type \<leftarrow> wi_p7_spec_type_with_node n;
         if map_of (sp_types_name spec) (pt_name type) \<noteq> None \<or> map_of (sp_types_id spec) (pt_id type) \<noteq> None then None
         else Some (spec\<lparr>sp_types_name := AList.update (pt_name type) type (sp_types_name spec),
                         sp_types_id := AList.update (pt_id type) type (sp_types_id spec)\<rparr>)
       }) spec (xml_children node)"

definition wi_p7_spec_load_fields :: "p7_spec option \<Rightarrow> p7_spec \<Rightarrow> xml_node \<Rightarrow> p7_spec option" where
  "wi_p7_spec_load_fields builtin spec node =
     load_children (\<lambda>spec n.
       if xml_name n \<noteq> ''field'' then None
       else do {
         field \<leftarrow> wi_p7_spec_field_with_node builtin spec n;
         if with_builtin sp_fields_name builtin spec (pf_name field) \<noteq> None \<or>
            with_builtin sp_fields_id builtin spec (pf_id field) \<noteq> None then None
         else Some (spec\<lparr>sp_fields_name := AList.update (pf_name field) field (sp_fields_name spec),
                         sp_fields_id := AList.update (pf_id field) field (sp_fields_id spec)\<rparr>)
       }) spec (xml_children node)"

definition wi_p7_spec_load_collections :: "p7_spec option \<Rightarrow> p7_spec \<Rightarrow> xml_node \<Rightarrow> p7_spec option" where
  "wi_p7_spec_load_collections builtin spec node =
     load_children (\<lambda>spec n.
       if xml_name n \<noteq> ''collection'' then None
       else do {
         collection \<leftarrow> wi_p7_spec_collection_with_node builtin spec n;
         if map_of (sp_collections_name spec) (pc_name collection) \<noteq> None then None
         else Some (spec\<lparr>sp_collections_name :=
                           AList.update (pc_name collection) collection (sp_collections_name spec)\<rparr>)
       }) spec (xml_children node)"

definition wi_p7_spec_load_messages :: "p7_spec option \<Rightarrow> p7_spec \<Rightarrow> xml_node \<Rightarrow> p7_spec option" where
  "wi_p7_spec_load_messages builtin spec node =
     load_children (\<lambda>spec n.
       if xml_name n \<noteq> ''message'' then None
       else do {
         message \<leftarrow> wi_p7_spec_message_with_node builtin spec n;
         if with_builtin sp_messages_name builtin spec (sm_name message) \<noteq> None \<or>
            with_builtin sp_messages_id builtin spec (sm_id message) \<noteq> None then None
         else Some (spec\<lparr>sp_messages_name := AList.update (sm_name message) message (sp_messages_name spec),
                         sp_messages_id := AList.update (sm_id message) message (sp_messages_id spec)\<rparr>)
       }) spec (xml_children node)"

definition wi_p7_spec_load_transactions :: "p7_spec option \<Rightarrow> p7_spec \<Rightarrow> xml_node \<Rightarrow> p7_spec option" where
  "wi_p7_spec_load_transactions builtin spec node =
     load_children (\<lambda>spec n.
       if xml_name n \<noteq> ''transaction'' then None
       else do {
         transaction \<leftarrow> wi_p7_spec_transaction_with_node builtin spec n;
         if map_of (sp_transactions_name spec) (sm_name (st_message transaction)) \<noteq> None then None
         else Some (spec\<lparr>sp_transactions_name :=
                           AList.update (sm_name (st_message transaction)) transaction (sp_transactions_name spec)\<rparr>)
       }) spec (xml_children node)"

definition wi_p7_spec_load_broadcasts :: "p7_spec option \<Rightarrow> p7_spec \<Rightarrow> xml_node \<Rightarrow> p7_spec option" where
  "wi_p7_spec_load_broadcasts builtin spec node =
     load_children (\<lambda>spec n.
       if xml_name n \<noteq> ''broadcast'' then None
       else do {
         broadcast \<leftarrow> wi_p7_spec_broadcast_with_node builtin spec n;
         if map_of (sp_broadcasts_name spec) (sm_name (sb_message broadcast)) \<noteq> None then None
         else Some (spec\<lparr>sp_broadcasts_name :=
                           AList.update (sm_name (sb_message broadcast)) broadcast (sp_broadcasts_name spec)\<rparr>)
       }) spec (xml_children node)"

definition wi_p7_spec_load_spec :: "p7_spec option \<Rightarrow> p7_spec \<Rightarrow> xml_node \<Rightarrow> p7_spec option" where
  "wi_p7_spec_load_spec builtin spec root =
     (if xml_name root \<noteq> ''protocol'' then None
      else do {
        name \<leftarrow> wi_xml_node_attribute_with_name root ''name'';
        version \<leftarrow> wi_xml_node_attribute_with_name root ''version'';
        load_children (\<lambda>spec n.
          if xml_name n = ''documentation'' then Some spec
          else if xml_name n = ''types'' then wi_p7_spec_load_types spec n
          else if xml_name n = ''fields'' then wi_p7_spec_load_fields builtin spec n
          else if xml_name n = ''collections'' then wi_p7_spec_load_collections builtin spec n
          else if xml_name n = ''messages'' then wi_p7_spec_load_messages builtin spec n
          else if xml_name n = ''transactions'' then wi_p7_spec_load_transactions builtin spec n
          else if xml_name n = ''broadcasts'' then wi_p7_spec_load_broadcasts builtin spec n
          else None)
          (spec\<lparr>sp_name := Some name, sp_version := Some version\<rparr>) (xml_children root)
      })"

subsection \<open>The built-in specification\<close>

text \<open>The document \<open>_wi_p7_spec_builtin\<close>, parsed.\<close>

definition wi_p7_spec_builtin_types :: xml_node where
  "wi_p7_spec_builtin_types =
     XML_Element ''types'' [] [
       XML_Element ''type'' [(''name'', ''bool''), (''id'', ''1''), (''size'', ''1'')] [],
       XML_Element ''type'' [(''name'', ''enum''), (''id'', ''2''), (''size'', ''4'')] [],
       XML_Element ''type'' [(''name'', ''int32''), (''id'', ''3''), (''size'', ''4'')] [],
       XML_Element ''type'' [(''name'', ''uint32''), (''id'', ''4''), (''size'', ''4'')] [],
       XML_Element ''type'' [(''name'', ''int64''), (''id'', ''5''), (''size'', ''8'')] [],
       XML_Element ''type'' [(''name'', ''uint64''), (''id'', ''6''), (''size'', ''8'')] [],
       XML_Element ''type'' [(''name'', ''double''), (''id'', ''7''), (''size'', ''8'')] [],
       XML_Element ''type'' [(''name'', ''string''), (''id'', ''8'')] [],
       XML_Element ''type'' [(''name'', ''uuid''), (''id'', ''9''), (''size'', ''16'')] [],
       XML_Element ''type'' [(''name'', ''date''), (''id'', ''10''), (''size'', ''8'')] [],
       XML_Element ''type'' [(''name'', ''data''), (''id'', ''11'')] [],
       XML_Element ''type'' [(''name'', ''oobdata''), (''id'', ''12''), (''size'', ''8'')] [],
       XML_Element ''type'' [(''name'', ''list''), (''id'', ''13'')] []]"

definition wi_p7_spec_builtin_fields :: xml_node where
  "wi_p7_spec_builtin_fields =
     XML_Element ''fields'' [] [
       XML_Element ''field'' [(''name'', ''p7.handshake.version''), (''type'', ''string''), (''id'', ''1'')] [],
       XML_Element ''field'' [(''name'', ''p7.handshake.protocol.name''), (''type'', ''string''), (''id'', ''2'')] [],
       XML_Element ''field'' [(''name'', ''p7.handshake.protocol.version''), (''type'', ''string''), (''id'', ''3'')] [],
       XML_Element ''field'' [(''name'', ''p7.handshake.compression''), (''type'', ''enum''), (''id'', ''4'')] [
         XML_Element ''enum'' [(''name'', ''p7.handshake.compression.deflate''), (''value'', ''0'')] []],
       XML_Element ''field'' [(''name'', ''p7.handshake.encryption''), (''type'', ''enum''), (''id'', ''5'')] [
         XML_Element ''enum'' [(''name'', ''p7.handshake.encryption.rsa_aes128_sha1''), (''value'', ''0'')] [],
         XML_Element ''enum'' [(''name'', ''p7.handshake.encryption.rsa_aes192_sha1''), (''value'', ''1'')] [],
         XML_Element ''enum'' [(''name'', ''p7.handshake.encryption.rsa_aes256_sha1''), (''value'', ''2'')] [],
         XML_Element ''enum'' [(''name'', ''p7.handshake.encryption.rsa_bf128_sha1''), (''value'', ''3'')] [],
         XML_Element ''enum'' [(''name'', ''p7.handshake.encryption.rsa_3des192_sha1''), (''value'', ''4'')] [],
         XML_Element ''enum'' [(''name'', ''p7.handshake.encryption.rsa_aes128_sha256''), (''value'', ''5'')] [],
         XML_Element ''enum'' [(''name'', ''p7.handshake.encryption.rsa_aes192_sha256''), (''value'', ''6'')] [],
         XML_Element ''enum'' [(''name'', ''p7.handshake.encryption.rsa_aes256_sha256''), (''value'', ''7'')] [],
         XML_Element ''enum'' [(''name'', ''p7.handshake.encryption.rsa_bf128_sha256''), (''value'', ''8'')] [],
         XML_Element ''enum'' [(''name'', ''p7.handshake.encryption.rsa_3des192_sha256''), (''value'', ''9'')] [],
         XML_Element ''enum'' [(''name'', ''p7.handshake.encryption.rsa_aes128_sha512''), (''value'', ''10'')] [],
         XML_Element ''enum'' [(''name'', ''p7.handshake.encryption.rsa_aes192_sha512''), (''value'', ''11'')] [],
         XML_Element ''enum'' [(''name'', ''p7.handshake.encryption.rsa_aes256_sha512''), (''value'', ''12'')] [],
         XML_Element ''enum'' [(''name'', ''p7.handshake.encryption.rsa_bf128_sha512''), (''value'', ''13'')] [],
         XML_Element ''enum'' [(''name'', ''p7.handshake.encryption.rsa_3des192_sha512''), (''value'', ''14'')] []],
       XML_Element ''field'' [(''name'', ''p7.handshake.checksum''), (''type'', ''enum''), (''id'', ''6'')] [
         XML_Element ''enum'' [(''name'', ''p7.handshake.checksum.sha1''), (''value'', ''0'')] [],
         XML_Element ''enum'' [(''name'', ''p7.handshake.checksum.sha256''), (''value'', ''1'')] [],
         XML_Element ''enum'' [(''name'', ''p7.handshake.checksum.sha512''), (''value'', ''2'')] []],
       XML_Element ''field'' [(''name'', ''p7.handshake.compatibility_check''), (''type'', ''bool''), (''id'', ''7'')] [],
       XML_Element ''field'' [(''name'', ''p7.encryption.public_key''), (''id'', ''9''), (''type'', ''data'')] [],
       XML_Element ''field'' [(''name'', ''p7.encryption.cipher.key''), (''id'', ''10''), (''type'', ''data'')] [],
       XML_Element ''field'' [(''name'', ''p7.encryption.cipher.iv''), (''id'', ''11''), (''type'', ''data'')] [],
       XML_Element ''field'' [(''name'', ''p7.encryption.username''), (''id'', ''12''), (''type'', ''data'')] [],
       XML_Element ''field'' [(''name'', ''p7.encryption.client_password''), (''id'', ''13''), (''type'', ''data'')] [],
       XML_Element ''field'' [(''name'', ''p7.encryption.server_password''), (''id'', ''14''), (''type'', ''data'')] [],
       XML_Element ''field'' [(''name'', ''p7.compatibility_check.specification''), (''id'', ''15''), (''type'', ''string'')] [],
       XML_Element ''field'' [(''name'', ''p7.compatibility_check.status''), (''id'', ''16''), (''type'', ''bool'')] []]"

definition wi_p7_spec_builtin_messages :: xml_node where
  "wi_p7_spec_builtin_messages =
     XML_Element ''messages'' [] [
       XML_Element ''message'' [(''name'', ''p7.handshake.client_handshake''), (''id'', ''1'')] [
         XML_Element ''parameter'' [(''field'', ''p7.handshake.version''), (''use'', ''required'')] [],
         XML_Element ''parameter'' [(''field'', ''p7.handshake.protocol.name''), (''use'', ''required'')] [],
         XML_Element ''parameter'' [(''field'', ''p7.handshake.protocol.version''), (''use'', ''required'')] [],
         XML_Element ''parameter'' [(''field'', ''p7.handshake.encryption'')] [],
         XML_Element ''parameter'' [(''field'', ''p7.handshake.compression'')] [],
         XML_Element ''parameter'' [(''field'', ''p7.handshake.checksum'')] []],
       XML_Element ''message'' [(''name'', ''p7.handshake.server_handshake''), (''id'', ''2'')] [
         XML_Element ''parameter'' [(''field'', ''p7.handshake.version''), (''use'', ''required'')] [],
         XML_Element ''parameter'' [(''field'', ''p7.handshake.protocol.name''), (''use'', ''required'')] [],
         XML_Element ''parameter'' [(''field'', ''p7.handshake.protocol.version''), (''use'', ''required'')] [],
         XML_Element ''parameter'' [(''field'', ''p7.handshake.encryption'')] [],
         XML_Element ''parameter'' [(''field'', ''p7.handshake.compression'')] [],
         XML_Element ''parameter'' [(''field'', ''p7.handshake.checksum'')] [],
         XML_Element ''parameter'' [(''field'', ''p7.handshake.compatibility_check'')] []],
       XML_Element ''message'' [(''name'', ''p7.handshake.acknowledge''), (''id'', ''3'')] [
         XML_Element ''parameter'' [(''field'', ''p7.handshake.compatibility_check'')] []],
       XML_Element ''message'' [(''name'', ''p7.encryption.server_key''), (''id'', ''4'')] [
         XML_Element ''parameter'' [(''field'', ''p7.encryption.public_key''), (''use'', ''required'')] []],
       XML_Element ''message'' [(''name'', ''p7.encryption.client_key''), (''id'', ''5'')] [
         XML_Element ''parameter'' [(''field'', ''p7.encryption.cipher.key''), (''use'', ''required'')] [],
         XML_Element ''parameter'' [(''field'', ''p7.encryption.cipher.iv'')] [],
         XML_Element ''parameter'' [(''field'', ''p7.encryption.username''), (''use'', ''required'')] [],
         XML_Element ''parameter'' [(''field'', ''p7.encryption.client_password''), (''use'', ''required'')] []],
       XML_Element ''message'' [(''name'', ''p7.encryption.acknowledge''), (''id'', ''6'')] [
         XML_Element ''parameter'' [(''field'', ''p7.encryption.server_password''), (''use'', ''required'')] []],
       XML_Element ''message'' [(''name'', ''p7.encryption.authentication_error''), (''id'', ''7'')] [],
       XML_Element ''message'' [(''name'', ''p7.compatibility_check.specification''), (''id'', ''8'')] [
         XML_Element ''parameter'' [(''field'', ''p7.compatibility_check.specification''), (''use'', ''required'')] []],
       XML_Element ''message'' [(''name'', ''p7.compatibility_check.status''), (''id'', ''9'')] [
         XML_Element ''parameter'' [(''field'', ''p7.compatibility_check.status''), (''use'', ''required'')] []]]"

definition wi_p7_spec_builtin_transactions :: xml_node where
  "wi_p7_spec_builtin_transactions =
     XML_Element ''transactions'' [] [
       XML_Element ''transaction'' [(''message'', ''p7.handshake.client_handshake''), (''originator'', ''client''), (''use'', ''required'')] [
         XML_Element ''reply'' [(''message'', ''p7.handshake.server_handshake''), (''count'', ''1''), (''use'', ''required'')] []],
       XML_Element ''transaction'' [(''message'', ''p7.handshake.server_handshake''), (''originator'', ''server''), (''use'', ''required'')] [
         XML_Element ''reply'' [(''message'', ''p7.handshake.acknowledge''), (''count'', ''1''), (''use'', ''required'')] []],
       XML_Element ''transaction'' [(''message'', ''p7.encryption.server_key''), (''originator'', ''server''), (''use'', ''required'')] [
         XML_Element ''reply'' [(''message'', ''p7.encryption.client_key''), (''count'', ''1''), (''use'', ''required'')] []],
       XML_Element ''transaction'' [(''message'', ''p7.encryption.client_key''), (''originator'', ''client''), (''use'', ''required'')] [
         XML_Element ''or'' [] [
           XML_Element ''reply'' [(''message'', ''p7.encryption.acknowledge''), (''count'', ''1''), (''use'', ''required'')] [],
           XML_Element ''reply'' [(''message'', ''p7.encryption.authentication_error''), (''count'', ''1''), (''use'', ''required'')] []]],
       XML_Element ''transaction'' [(''message'', ''p7.compatibility_check.specification''), (''originator'', ''both''), (''use'', ''required'')] [
         XML_Element ''reply'' [(''message'', ''p7.compatibility_check.status''), (''count'', ''1''), (''use'', ''required'')] []]]"

definition wi_p7_spec_builtin :: xml_node where
  "wi_p7_spec_builtin =
     XML_Element ''protocol'' [(''name'', ''P7''), (''version'', ''1.0'')]
       [wi_p7_spec_builtin_types, wi_p7_spec_builtin_fields, wi_p7_spec_builtin_messages,
        wi_p7_spec_builtin_transactions]"

definition wi_p7_spec_init_builtin_spec :: "p7_spec option" where
  "wi_p7_spec_init_builtin_spec = wi_p7_spec_load_spec None (wi_p7_spec_init WI_P7_BOTH) wi_p7_spec_builtin"

text \<open>
  A specification from a document; the built-in one is loaded first, and its failure ends the
  process.
\<close>

definition wi_p7_spec_init_with_string :: "xml_node \<Rightarrow> p7_originator \<Rightarrow> p7_spec option" where
  "wi_p7_spec_init_with_string root originator = do {
     builtin \<leftarrow> wi_p7_spec_init_builtin_spec;
     wi_p7_spec_load_spec (Some builtin) (wi_p7_spec_init originator) root
   }"

subsection \<open>Compatibility\<close>

definition wi_p7_spec_is_compatible_with_protocol :: "p7_spec \<Rightarrow> string \<Rightarrow> string \<Rightarrow> bool" where
  "wi_p7_spec_is_compatible_with_protocol spec name version \<longleftrightarrow>
     sp_name spec = Some name \<and> sp_version spec = Some version"

definition p7_field_is_compatible :: "p7_spec_field \<Rightarrow> p7_spec_field \<Rightarrow> bool" where
  "p7_field_is_compatible field other \<longleftrightarrow>
     pf_id field = pf_id other \<and> pt_id (pf_type field) = pt_id (pf_type other) \<and>
     (pt_id (pf_type field) = WI_P7_ENUM \<longrightarrow>
        list_all (\<lambda>name. p7_enum_value (pf_enums_name field) name = p7_enum_value (pf_enums_name other) name)
          (map fst (pf_enums_name field)))"

definition wi_p7_spec_message_is_compatible :: "p7_spec_message \<Rightarrow> p7_spec_message \<Rightarrow> bool" where
  "wi_p7_spec_message_is_compatible message other \<longleftrightarrow>
     sm_name message = sm_name other \<and> sm_id message = sm_id other \<and>
     list_all (\<lambda>(key, parameter).
       case map_of (sm_parameters_name other) key of
         None \<Rightarrow> \<not> pp_required parameter
       | Some p \<Rightarrow> (pp_required parameter \<longrightarrow> pp_required p) \<and>
           p7_field_is_compatible (pp_field parameter) (pp_field p)) (sm_parameters_name message)"

definition p7_reply_count_is_compatible :: "int \<Rightarrow> int \<Rightarrow> bool" where
  "p7_reply_count_is_compatible n other =
     (if n = WI_P7_SPEC_REPLY_ONE_OR_ZERO then other = WI_P7_SPEC_REPLY_ONE_OR_ZERO
      else if n = WI_P7_SPEC_REPLY_ZERO_OR_MORE then
        other = WI_P7_SPEC_REPLY_ONE_OR_ZERO \<or> other = WI_P7_SPEC_REPLY_ZERO_OR_MORE
      else if n = WI_P7_SPEC_REPLY_ONE_OR_MORE then
        other = WI_P7_SPEC_REPLY_ONE_OR_MORE \<or> other > 0
      else n = other)"

definition wi_p7_spec_reply_is_compatible :: "p7_spec_reply \<Rightarrow> p7_spec_reply option \<Rightarrow> bool \<Rightarrow> bool" where
  "wi_p7_spec_reply_is_compatible reply other commutativity \<longleftrightarrow>
     (sr_required reply \<longrightarrow> (case other of None \<Rightarrow> False | Some r \<Rightarrow> sr_required r)) \<and>
     (\<not> commutativity \<longrightarrow>
        (case other of
           None \<Rightarrow> True
         | Some r \<Rightarrow> p7_reply_count_is_compatible (sr_count reply) (sr_count r) \<and>
             wi_p7_spec_message_is_compatible (sr_message reply) (sr_message r)))"

text \<open>
  The required replies of both sides are paired in their order: the scan for the next required
  reply of the peer starts after the last one found, or past the end when there was none.
\<close>

fun p7_replies_scan :: "p7_spec_andor \<Rightarrow> bool \<Rightarrow> nat \<Rightarrow> p7_spec_reply list \<Rightarrow> bool" where
  "p7_replies_scan other commutativity index [] = True"
| "p7_replies_scan other commutativity index (reply # rs) =
     (if sr_required reply then
        let i = index + length (takeWhile (\<lambda>r. \<not> sr_required r) (drop index (ao_replies_array other)));
            each = (if i < length (ao_replies_array other) then Some (ao_replies_array other ! i) else None)
        in wi_p7_spec_reply_is_compatible reply each commutativity \<and>
           p7_replies_scan other commutativity (i + 1) rs
      else
        wi_p7_spec_reply_is_compatible reply (map_of (ao_replies_dictionary other) (sm_name (sr_message reply)))
          commutativity \<and>
        p7_replies_scan other commutativity index rs)"

definition wi_p7_spec_replies_are_compatible :: "p7_spec_andor \<Rightarrow> p7_spec_andor \<Rightarrow> bool \<Rightarrow> bool" where
  "wi_p7_spec_replies_are_compatible andor other commutativity \<longleftrightarrow>
     ao_type andor = ao_type other \<and> p7_replies_scan other commutativity 0 (ao_replies_array andor)"

fun wi_p7_spec_andor_is_compatible :: "p7_spec_andor \<Rightarrow> p7_spec_andor \<Rightarrow> bool"
  and p7_children_are_compatible :: "p7_spec_andor list \<Rightarrow> p7_spec_andor list \<Rightarrow> bool"
where
  "wi_p7_spec_andor_is_compatible (Andor type children replies dict) other \<longleftrightarrow>
     type = ao_type other \<and>
     wi_p7_spec_replies_are_compatible (Andor type children replies dict) other False \<and>
     wi_p7_spec_replies_are_compatible other (Andor type children replies dict) True \<and>
     length children = length (ao_children other) \<and>
     p7_children_are_compatible children (ao_children other)"
| "p7_children_are_compatible [] others \<longleftrightarrow> True"
| "p7_children_are_compatible (child # children) [] \<longleftrightarrow> True"
| "p7_children_are_compatible (child # children) (other # others) \<longleftrightarrow>
     wi_p7_spec_andor_is_compatible child other \<and> p7_children_are_compatible children others"

definition wi_p7_spec_transaction_is_compatible ::
  "p7_spec_transaction \<Rightarrow> p7_spec_transaction option \<Rightarrow> bool" where
  "wi_p7_spec_transaction_is_compatible transaction other =
     (case other of
        None \<Rightarrow> \<not> st_required transaction
      | Some t \<Rightarrow>
          (st_required transaction \<longrightarrow> st_required t) \<and>
          st_originator transaction = st_originator t \<and>
          wi_p7_spec_message_is_compatible (st_message transaction) (st_message t) \<and>
          wi_p7_spec_andor_is_compatible (st_andor transaction) (st_andor t))"

definition wi_p7_spec_broadcast_is_compatible ::
  "p7_spec_broadcast \<Rightarrow> p7_spec_broadcast option \<Rightarrow> bool" where
  "wi_p7_spec_broadcast_is_compatible broadcast other =
     (case other of
        None \<Rightarrow> \<not> sb_required broadcast
      | Some b \<Rightarrow>
          (sb_required broadcast \<longrightarrow> sb_required b) \<and>
          wi_p7_spec_message_is_compatible (sb_message broadcast) (sb_message b))"

definition wi_p7_spec_is_compatible_with_spec :: "p7_spec \<Rightarrow> p7_spec \<Rightarrow> bool" where
  "wi_p7_spec_is_compatible_with_spec spec other \<longleftrightarrow>
     list_all (\<lambda>(key, t). wi_p7_spec_transaction_is_compatible t (map_of (sp_transactions_name other) key))
       (sp_transactions_name spec) \<and>
     list_all (\<lambda>(key, b). wi_p7_spec_broadcast_is_compatible b (map_of (sp_broadcasts_name other) key))
       (sp_broadcasts_name spec)"

subsection \<open>What a loaded specification satisfies\<close>

text \<open>
  \<open>indexed\<close>: a dictionary holds each object once, under its own key. \<open>spec_ok\<close>: the two
  dictionaries of the fields hold the same fields, and so those of the messages and types; the
  built-in specification has none of their names and ids; the parameters of a message are known
  fields, under both their keys, and \<open>required_parameters\<close> counts the required ones; the replies
  of a transaction are known messages, each under its name.
\<close>

definition indexed :: "('a \<Rightarrow> 'k) \<Rightarrow> ('k \<times> 'a) list \<Rightarrow> bool" where
  "indexed key d \<longleftrightarrow> distinct (map fst d) \<and> (\<forall>(k, x) \<in> set d. k = key x)"

definition indexed2 :: "('a \<Rightarrow> 'k) \<Rightarrow> ('k \<times> 'a) list \<Rightarrow> ('a \<Rightarrow> 'l) \<Rightarrow> ('l \<times> 'a) list \<Rightarrow> bool" where
  "indexed2 k d l e \<longleftrightarrow> indexed k d \<and> indexed l e \<and> map snd d = map snd e"

definition known_field :: "p7_spec option \<Rightarrow> p7_spec \<Rightarrow> p7_spec_field \<Rightarrow> bool" where
  "known_field builtin spec f \<longleftrightarrow>
     with_builtin sp_fields_name builtin spec (pf_name f) = Some f \<and>
     with_builtin sp_fields_id builtin spec (pf_id f) = Some f"

definition message_ok :: "p7_spec option \<Rightarrow> p7_spec \<Rightarrow> p7_spec_message \<Rightarrow> bool" where
  "message_ok builtin spec m \<longleftrightarrow>
     indexed2 (\<lambda>p. pf_name (pp_field p)) (sm_parameters_name m) (\<lambda>p. pf_id (pp_field p)) (sm_parameters_id m) \<and>
     sm_required_parameters m = length (filter pp_required (map snd (sm_parameters_name m))) \<and>
     (\<forall>p \<in> set (map snd (sm_parameters_name m)). known_field builtin spec (pp_field p))"

definition known_message :: "p7_spec option \<Rightarrow> p7_spec \<Rightarrow> p7_spec_message \<Rightarrow> bool" where
  "known_message builtin spec m \<longleftrightarrow> with_builtin sp_messages_name builtin spec (sm_name m) = Some m"

fun andor_ok :: "p7_spec option \<Rightarrow> p7_spec \<Rightarrow> p7_spec_andor \<Rightarrow> bool" where
  "andor_ok builtin spec (Andor type children replies dict) \<longleftrightarrow>
     indexed (\<lambda>r. sm_name (sr_message r)) dict \<and> map snd dict = replies \<and>
     (\<forall>r \<in> set replies. known_message builtin spec (sr_message r)) \<and>
     (\<forall>c \<in> set children. andor_ok builtin spec c)"

definition new_keys :: "p7_spec option \<Rightarrow> (p7_spec \<Rightarrow> ('k \<times> 'v) list) \<Rightarrow> p7_spec \<Rightarrow> bool" where
  "new_keys builtin f spec \<longleftrightarrow>
     (\<forall>b. builtin = Some b \<longrightarrow> set (map fst (f spec)) \<inter> set (map fst (f b)) = {})"

definition spec_ok :: "p7_spec option \<Rightarrow> p7_spec \<Rightarrow> bool" where
  "spec_ok builtin spec \<longleftrightarrow>
     indexed2 pt_name (sp_types_name spec) pt_id (sp_types_id spec) \<and>
     indexed2 pf_name (sp_fields_name spec) pf_id (sp_fields_id spec) \<and>
     indexed2 sm_name (sp_messages_name spec) sm_id (sp_messages_id spec) \<and>
     new_keys builtin sp_fields_name spec \<and> new_keys builtin sp_fields_id spec \<and>
     new_keys builtin sp_messages_name spec \<and> new_keys builtin sp_messages_id spec \<and>
     (\<forall>f \<in> set (map snd (sp_fields_name spec)). pf_id f \<noteq> 0) \<and>
     (\<forall>m \<in> set (map snd (sp_messages_name spec)). sm_id m \<noteq> 0 \<and> message_ok builtin spec m) \<and>
     (\<forall>c \<in> set (map snd (sp_collections_name spec)). \<forall>f \<in> set (pc_fields c). known_field builtin spec f) \<and>
     indexed (\<lambda>t. sm_name (st_message t)) (sp_transactions_name spec) \<and>
     (\<forall>t \<in> set (map snd (sp_transactions_name spec)).
        known_message builtin spec (st_message t) \<and> andor_ok builtin spec (st_andor t)) \<and>
     indexed (\<lambda>b. sm_name (sb_message b)) (sp_broadcasts_name spec) \<and>
     (\<forall>b \<in> set (map snd (sp_broadcasts_name spec)).
        known_message builtin spec (sb_message b) \<and> \<not> sb_required b)"

lemma indexed_Nil [simp]: "indexed key []"
  by (simp add: indexed_def)

lemma indexed2_Nil [simp]: "indexed2 k [] l []"
  by (simp add: indexed2_def)

lemma update_new: "map_of d k = None \<Longrightarrow> AList.update k v d = d @ [(k, v)]"
  by (induction d) (auto split: if_splits)

lemma indexed_update:
  assumes "indexed key d" "map_of d (key x) = None"
  shows "indexed key (AList.update (key x) x d)"
  using assms by (auto simp: indexed_def update_new map_of_eq_None_iff)

lemma indexed2_update:
  assumes "indexed2 k d l e" "map_of d (k x) = None" "map_of e (l x) = None"
  shows "indexed2 k (AList.update (k x) x d) l (AList.update (l x) x e)"
  using assms indexed_update [of k d x] indexed_update [of l e x] by (simp add: indexed2_def update_new)

lemma indexed_lookup:
  assumes "indexed key d"
  shows "map_of d k = Some x \<longleftrightarrow> x \<in> set (map snd d) \<and> key x = k"
  using assms by (force simp: indexed_def map_of_eq_Some_iff)

lemma with_builtin_None:
  "with_builtin f builtin spec k = None \<longleftrightarrow>
     map_of (f spec) k = None \<and> (case builtin of None \<Rightarrow> True | Some b \<Rightarrow> map_of (f b) k = None)"
  by (auto simp: with_builtin_def split: option.splits)

end
