(* ===== verification/Wi_P7_Spec_Inv.thy ===== *)
theory Wi_P7_Spec_Inv
  imports Wi_P7_Spec
begin

text \<open>
  Every specification that loads is consistent (\<open>spec_ok\<close>), and a loaded specification is
  compatible with itself.
\<close>

named_theorems spec_mono "facts that survive the loading of further parts"

definition spec_extends :: "p7_spec option \<Rightarrow> p7_spec \<Rightarrow> p7_spec \<Rightarrow> bool" where
  "spec_extends builtin s s' \<longleftrightarrow>
     (\<forall>k v. with_builtin sp_fields_name builtin s k = Some v \<longrightarrow> with_builtin sp_fields_name builtin s' k = Some v) \<and>
     (\<forall>k v. with_builtin sp_fields_id builtin s k = Some v \<longrightarrow> with_builtin sp_fields_id builtin s' k = Some v) \<and>
     (\<forall>k v. with_builtin sp_messages_name builtin s k = Some v \<longrightarrow>
        with_builtin sp_messages_name builtin s' k = Some v)"

lemma known_field_mono [spec_mono]: "spec_extends b s s' \<Longrightarrow> known_field b s f \<Longrightarrow> known_field b s' f"
  by (simp add: spec_extends_def known_field_def)

lemma known_message_mono [spec_mono]: "spec_extends b s s' \<Longrightarrow> known_message b s m \<Longrightarrow> known_message b s' m"
  by (simp add: spec_extends_def known_message_def)

lemma message_ok_mono [spec_mono]: "spec_extends b s s' \<Longrightarrow> message_ok b s m \<Longrightarrow> message_ok b s' m"
  by (auto simp: message_ok_def intro: known_field_mono)

lemma andor_ok_mono [spec_mono]: "spec_extends b s s' \<Longrightarrow> andor_ok b s a \<Longrightarrow> andor_ok b s' a"
  by (induction b s a rule: andor_ok.induct) (auto intro: known_message_mono)

lemma with_builtin_cong:
  "f s' = f s \<Longrightarrow> with_builtin f b s' k = with_builtin f b s k"
  by (simp add: with_builtin_def)

lemma with_builtin_update:
  assumes "f s' = AList.update k x (f s)" "with_builtin f b s k = None" "with_builtin f b s j = Some v"
  shows "with_builtin f b s' j = Some v"
  using assms by (auto simp: with_builtin_def update_conv' split: option.splits)

lemma spec_extends_fields:
  assumes "sp_fields_name s' = AList.update k x (sp_fields_name s)" "with_builtin sp_fields_name b s k = None"
    and "sp_fields_id s' = AList.update i y (sp_fields_id s)" "with_builtin sp_fields_id b s i = None"
    and "sp_messages_name s' = sp_messages_name s"
  shows "spec_extends b s s'"
  unfolding spec_extends_def
  using with_builtin_update [OF assms(1,2)] with_builtin_update [OF assms(3,4)]
    with_builtin_cong [where f = sp_messages_name, OF assms(5)]
  by simp

lemma spec_extends_messages:
  assumes "sp_messages_name s' = AList.update k x (sp_messages_name s)" "with_builtin sp_messages_name b s k = None"
    and "sp_fields_name s' = sp_fields_name s" "sp_fields_id s' = sp_fields_id s"
  shows "spec_extends b s s'"
  unfolding spec_extends_def
  using with_builtin_update [OF assms(1,2)] with_builtin_cong [where f = sp_fields_name, OF assms(3)]
    with_builtin_cong [where f = sp_fields_id, OF assms(4)]
  by simp

lemma spec_extends_same:
  assumes "sp_messages_name s' = sp_messages_name s" "sp_fields_name s' = sp_fields_name s"
    and "sp_fields_id s' = sp_fields_id s"
  shows "spec_extends b s s'"
  using assms by (simp add: spec_extends_def with_builtin_def)

lemma new_keys_update:
  assumes "new_keys b f s" "with_builtin f b s k = None" "f s' = AList.update k x (f s)"
  shows "new_keys b f s'"
  using assms by (fastforce simp: new_keys_def with_builtin_None dom_update map_of_eq_None_iff image_iff)

subsection \<open>The parts\<close>

lemma field_enums_frame:
  "wi_p7_spec_field_enums f ns = Some g \<Longrightarrow> pf_name g = pf_name f \<and> pf_id g = pf_id f \<and> pf_type g = pf_type f"
proof (induction f ns rule: wi_p7_spec_field_enums.induct)
  case (3 f tag as ch ns)
  then show ?case
    by (cases "tag = ''documentation''") (auto simp: Let_def bind_eq_Some_conv split: if_splits)
qed simp_all

lemma field_with_node_id: "wi_p7_spec_field_with_node b s n = Some f \<Longrightarrow> pf_id f \<noteq> 0"
  by (auto simp: wi_p7_spec_field_with_node_def Let_def bind_eq_Some_conv split: if_splits dest!: field_enums_frame)

text \<open>A field found by its name, here or in the built-in specification, is known by both keys.\<close>

definition builtin_ok :: "p7_spec option \<Rightarrow> bool" where
  "builtin_ok builtin \<longleftrightarrow> (\<forall>c. builtin = Some c \<longrightarrow> spec_ok None c)"

lemma indexed2_lookup:
  assumes "indexed2 k d l e"
  shows "map_of d (k x) = Some x \<longleftrightarrow> map_of e (l x) = Some x"
  using assms indexed_lookup [of k d] indexed_lookup [of l e] by (simp add: indexed2_def)

lemma with_builtin_key:
  assumes "spec_ok b s" "builtin_ok b"
  shows "with_builtin sp_fields_name b s k = Some f \<Longrightarrow> pf_name f = k"
    and "with_builtin sp_messages_name b s k = Some m \<Longrightarrow> sm_name m = k"
  using assms
  by (auto simp: with_builtin_def spec_ok_def builtin_ok_def indexed2_def indexed_lookup split: option.splits)

lemma found_field_known:
  assumes ok: "spec_ok b s" "builtin_ok b" and f: "with_builtin sp_fields_name b s k = Some f"
  shows "known_field b s f"
proof -
  have k: "pf_name f = k" using with_builtin_key(1) [OF ok f] .
  have s: "indexed2 pf_name (sp_fields_name s) pf_id (sp_fields_id s)" using ok by (simp add: spec_ok_def)
  show ?thesis
  proof (cases "map_of (sp_fields_name s) k")
    case (Some g)
    with f have g: "map_of (sp_fields_name s) (pf_name f) = Some f" by (simp add: with_builtin_def k)
    with indexed2_lookup [OF s, of f] show ?thesis by (simp add: known_field_def with_builtin_def)
  next
    case None
    with f obtain c where c: "b = Some c" "map_of (sp_fields_name c) (pf_name f) = Some f"
      by (auto simp: with_builtin_def k split: option.splits)
    with ok have "indexed2 pf_name (sp_fields_name c) pf_id (sp_fields_id c)" by (simp add: builtin_ok_def spec_ok_def)
    from indexed2_lookup [OF this, of f] c have id: "map_of (sp_fields_id c) (pf_id f) = Some f" by simp
    then have "pf_id f \<in> fst ` set (sp_fields_id c)" by (metis domI dom_map_of_conv_image_fst)
    with ok(1) c(1) have "pf_id f \<notin> fst ` set (sp_fields_id s)" by (auto simp: spec_ok_def new_keys_def)
    then have "map_of (sp_fields_id s) (pf_id f) = None" by (simp add: map_of_eq_None_iff)
    with id None c show ?thesis by (simp add: known_field_def with_builtin_def k)
  qed
qed

lemma found_message_known:
  assumes "spec_ok b s" "builtin_ok b" "with_builtin sp_messages_name b s k = Some m"
  shows "known_message b s m"
  using with_builtin_key(2) [OF assms] assms(3) by (simp add: known_message_def)

lemma known_field_id_inj:
  "known_field b s f \<Longrightarrow> known_field b s g \<Longrightarrow> pf_id f = pf_id g \<Longrightarrow> f = g"
  by (simp add: known_field_def)

lemma collection_members_known:
  "wi_p7_spec_collection_members b s ms ns = Some ms' \<Longrightarrow> spec_ok b s \<Longrightarrow> builtin_ok b \<Longrightarrow>
   \<forall>f \<in> set ms. known_field b s f \<Longrightarrow> \<forall>f \<in> set ms'. known_field b s f"
proof (induction b s ms ns rule: wi_p7_spec_collection_members.induct)
  case (3 b s ms tag as ch ns)
  show ?case
  proof (cases "tag = ''documentation''")
    case True
    with 3 show ?thesis by simp
  next
    case False
    with "3.prems"(1) obtain name f where tag: "tag = ''member''"
      and n: "wi_xml_node_attribute_with_name (XML_Element tag as ch) ''field'' = Some name"
      and f: "with_builtin sp_fields_name b s name = Some f"
      and rest: "wi_p7_spec_collection_members b s (ms @ [f]) ns = Some ms'"
      by (auto simp: bind_eq_Some_conv split: if_splits)
    have "known_field b s f" using found_field_known [OF "3.prems"(2,3) f] .
    with "3.prems"(4) have "\<forall>g \<in> set (ms @ [f]). known_field b s g" by simp
    from "3.IH"(2) [OF False _ n f rest "3.prems"(2,3) this] tag show ?thesis by simp
  qed
qed simp_all

lemma add_parameter_ok:
  assumes "p7_spec_message_add_parameter m p = Some m'" "message_ok b s m" "known_field b s (pp_field p)"
  shows "message_ok b s m' \<and> sm_id m' = sm_id m \<and> sm_name m' = sm_name m"
proof -
  from assms(1) have new: "map_of (sm_parameters_name m) (pf_name (pp_field p)) = None"
    and m': "m' = m
        \<lparr>sm_parameters_name := AList.update (pf_name (pp_field p)) p (sm_parameters_name m),
         sm_parameters_id := AList.update (pf_id (pp_field p)) p (sm_parameters_id m),
         sm_required_parameters := sm_required_parameters m + (if pp_required p then 1 else 0)\<rparr>"
    by (auto simp: p7_spec_message_add_parameter_def split: if_splits)
  have i: "indexed2 (\<lambda>p. pf_name (pp_field p)) (sm_parameters_name m) (\<lambda>p. pf_id (pp_field p)) (sm_parameters_id m)"
    and k: "\<And>q. q \<in> set (map snd (sm_parameters_name m)) \<Longrightarrow> known_field b s (pp_field q)"
    using assms(2) by (auto simp: message_ok_def)
  have "map_of (sm_parameters_id m) (pf_id (pp_field p)) = None"
  proof (rule ccontr)
    assume "\<not> ?thesis"
    then obtain q where "map_of (sm_parameters_id m) (pf_id (pp_field p)) = Some q" by auto
    with i have q: "q \<in> set (map snd (sm_parameters_id m))" "pf_id (pp_field q) = pf_id (pp_field p)"
      by (auto simp: indexed2_def indexed_lookup)
    with i have "q \<in> set (map snd (sm_parameters_name m))" by (simp add: indexed2_def)
    with k q assms(3) have "pp_field q = pp_field p" using known_field_id_inj by blast
    moreover have "indexed (\<lambda>p. pf_name (pp_field p)) (sm_parameters_name m)" using i by (simp add: indexed2_def)
    ultimately have "map_of (sm_parameters_name m) (pf_name (pp_field p)) = Some q"
      using indexed_lookup [of _ "sm_parameters_name m"] \<open>q \<in> set (map snd (sm_parameters_name m))\<close> by fastforce
    with new show False by simp
  qed
  with assms(2,3) new i indexed2_update [OF i, of p]
  show ?thesis unfolding m' by (auto simp: message_ok_def update_new)
qed

lemma add_fields_ok:
  "p7_spec_message_add_fields r m fs = Some m' \<Longrightarrow> message_ok b s m \<Longrightarrow> \<forall>f \<in> set fs. known_field b s f \<Longrightarrow>
   message_ok b s m' \<and> sm_id m' = sm_id m \<and> sm_name m' = sm_name m"
proof (induction r m fs rule: p7_spec_message_add_fields.induct)
  case (2 r m f fs)
  then obtain m1 where m1: "p7_spec_message_add_parameter m \<lparr>pp_field = f, pp_required = r\<rparr> = Some m1"
    and rest: "p7_spec_message_add_fields r m1 fs = Some m'"
    by (auto simp: bind_eq_Some_conv)
  from add_parameter_ok [OF m1 "2.prems"(2)] "2.prems"(3)
  have "message_ok b s m1" "sm_id m1 = sm_id m" "sm_name m1 = sm_name m" by auto
  with "2.IH" [OF m1 rest] "2.prems"(3) show ?case by simp
qed simp

lemma parameter_with_node_known:
  "wi_p7_spec_parameter_with_node b s n = Some p \<Longrightarrow> spec_ok b s \<Longrightarrow> builtin_ok b \<Longrightarrow> known_field b s (pp_field p)"
  by (auto simp: wi_p7_spec_parameter_with_node_def bind_eq_Some_conv intro: found_field_known)

lemma parameters_with_nodes_ok:
  "wi_p7_spec_message_parameters_with_nodes b s m ns = Some m' \<Longrightarrow> spec_ok b s \<Longrightarrow> builtin_ok b \<Longrightarrow>
   message_ok b s m \<Longrightarrow> message_ok b s m' \<and> sm_id m' = sm_id m \<and> sm_name m' = sm_name m"
proof (induction b s m ns rule: wi_p7_spec_message_parameters_with_nodes.induct)
  case (3 b s m tag as ch ns)
  show ?case
  proof (cases "tag = ''documentation''")
    case True
    with 3 show ?thesis by simp
  next
    case False
    define node where "node = XML_Element tag as ch"
    define step where "step = (if wi_xml_node_attribute_with_name node ''field'' \<noteq> None then do {
             parameter \<leftarrow> wi_p7_spec_parameter_with_node b s node;
             p7_spec_message_add_parameter m parameter
           } else do {
             name \<leftarrow> wi_xml_node_attribute_with_name node ''collection'';
             collection \<leftarrow> map_of (sp_collections_name s) name;
             required \<leftarrow> p7_spec_use node;
             p7_spec_message_add_fields required m (pc_fields collection)
           })"
    from "3.prems"(1) False obtain m1 where tag: "\<not> tag \<noteq> ''parameter''" and m1: "step = Some m1"
      and rest: "wi_p7_spec_message_parameters_with_nodes b s m1 ns = Some m'"
      unfolding step_def node_def by (auto simp: bind_eq_Some_conv Let_def split: if_splits)
    have "message_ok b s m1 \<and> sm_id m1 = sm_id m \<and> sm_name m1 = sm_name m"
    proof (cases "wi_xml_node_attribute_with_name node ''field'' = None")
      case True
      with m1 obtain c r where c: "c \<in> set (map snd (sp_collections_name s))"
        and a: "p7_spec_message_add_fields r m (pc_fields c) = Some m1"
        by (force simp: step_def bind_eq_Some_conv dest: map_of_SomeD)
      from c "3.prems"(2) have "\<forall>f \<in> set (pc_fields c). known_field b s f" by (auto simp: spec_ok_def)
      from add_fields_ok [OF a "3.prems"(4) this] show ?thesis .
    next
      case False
      with m1 obtain p where p: "wi_p7_spec_parameter_with_node b s node = Some p"
        and a: "p7_spec_message_add_parameter m p = Some m1"
        by (auto simp: step_def bind_eq_Some_conv)
      from add_parameter_ok [OF a "3.prems"(4) parameter_with_node_known [OF p "3.prems"(2,3)]] show ?thesis .
    qed
    with "3.IH"(2) [OF False tag refl m1 [unfolded step_def node_def] rest "3.prems"(2,3)] show ?thesis by simp
  qed
qed simp_all

lemma message_with_node_ok:
  assumes "wi_p7_spec_message_with_node b s n = Some m" "spec_ok b s" "builtin_ok b"
  shows "message_ok b s m \<and> sm_id m \<noteq> 0"
proof -
  from assms(1) obtain name id where id: "id \<noteq> 0"
    and m: "wi_p7_spec_message_parameters_with_nodes b s
            \<lparr>sm_name = name, sm_id = id, sm_parameters_name = [], sm_parameters_id = [],
             sm_required_parameters = 0\<rparr> (xml_children n) = Some m"
    by (auto simp: wi_p7_spec_message_with_node_def Let_def bind_eq_Some_conv split: if_splits)
  from parameters_with_nodes_ok [OF m assms(2,3)] id show ?thesis by (simp add: message_ok_def)
qed

lemma reply_with_node_known:
  "wi_p7_spec_reply_with_node b s n = Some r \<Longrightarrow> spec_ok b s \<Longrightarrow> builtin_ok b \<Longrightarrow> known_message b s (sr_message r)"
  by (auto simp: wi_p7_spec_reply_with_node_def Let_def bind_eq_Some_conv split: if_splits intro: found_message_known)

lemma andor_with_nodes_ok:
  "wi_p7_spec_andor b s type cs rs d ns = Some a \<Longrightarrow> spec_ok b s \<Longrightarrow> builtin_ok b \<Longrightarrow>
   andor_ok b s (Andor type cs rs d) \<Longrightarrow> andor_ok b s a"
proof (induction b s type cs rs d ns arbitrary: a rule: wi_p7_spec_andor.induct)
  case (3 b s type cs rs d tag as ch ns)
  note ok = "3.prems"(2,3)
  consider (doc) "tag = ''documentation''" | (reply) "tag = ''reply''" | (child) "tag \<noteq> ''documentation''" "tag \<noteq> ''reply''"
    by blast
  then show ?case
  proof cases
    case doc
    with 3 show ?thesis by simp
  next
    case reply
    then have nd: "tag \<noteq> ''documentation''" by simp
    from reply "3.prems"(1) obtain r where r: "wi_p7_spec_reply_with_node b s (XML_Element tag as ch) = Some r"
      and new: "map_of d (sm_name (sr_message r)) = None"
      and rest: "wi_p7_spec_andor b s type cs (rs @ [r]) (AList.update (sm_name (sr_message r)) r d) ns = Some a"
      by (auto simp: bind_eq_Some_conv split: if_splits)
    have "andor_ok b s (Andor type cs (rs @ [r]) (AList.update (sm_name (sr_message r)) r d))"
      using "3.prems"(4) reply_with_node_known [OF r ok] new
        indexed_update [of "\<lambda>r. sm_name (sr_message r)" d r] by (auto simp: update_new)
    with "3.IH"(2) [OF nd reply r _ rest ok] new show ?thesis by simp
  next
    case child
    let ?c = "if tag = ''and'' then wi_p7_spec_andor b s WI_P7_SPEC_AND [] [] [] ch
                  else if tag = ''or'' then wi_p7_spec_andor b s WI_P7_SPEC_OR [] [] [] ch
                  else None"
    from child "3.prems"(1) obtain c where c: "?c = Some c"
      and rest: "wi_p7_spec_andor b s type (cs @ [c]) rs d ns = Some a"
      by (auto simp: bind_eq_Some_conv)
    have "andor_ok b s c"
      using c "3.IH"(3) [OF child _ _ ok] "3.IH"(4) [OF child _ _ _ ok]
      by (auto split: if_splits)
    with "3.prems"(4) have "andor_ok b s (Andor type (cs @ [c]) rs d)" by auto
    from "3.IH"(5) [OF child c rest ok this] show ?thesis .
  qed
qed simp_all

lemma transaction_with_node_ok:
  assumes "wi_p7_spec_transaction_with_node b s n = Some t" "spec_ok b s" "builtin_ok b"
  shows "known_message b s (st_message t) \<and> andor_ok b s (st_andor t)"
  using assms andor_with_nodes_ok [OF _ assms(2,3), of WI_P7_SPEC_AND "[]" "[]" "[]"]
  by (auto simp: wi_p7_spec_transaction_with_node_def bind_eq_Some_conv intro: found_message_known)

lemma broadcast_with_node_ok:
  assumes "wi_p7_spec_broadcast_with_node b s n = Some br" "spec_ok b s" "builtin_ok b"
  shows "known_message b s (sb_message br) \<and> \<not> sb_required br"
  using assms
  by (auto simp: wi_p7_spec_broadcast_with_node_def bind_eq_Some_conv intro: found_message_known)

subsection \<open>The sections\<close>

lemma load_children_inv:
  assumes "load_children f s ns = Some s'" "P s"
    and "\<And>n s s'. n \<in> set ns \<Longrightarrow> f s n = Some s' \<Longrightarrow> P s \<Longrightarrow> P s'"
  shows "P s'"
  using assms
proof (induction f s ns rule: load_children.induct)
  case (3 f s tag as ch ns)
  from "3.prems"(1) obtain s1 where s1: "f s (XML_Element tag as ch) = Some s1" "load_children f s1 ns = Some s'"
    by (auto simp: bind_eq_Some_conv)
  have "P s1" by (rule "3.prems"(3) [OF _ s1(1) "3.prems"(2)]) simp
  from "3.IH" [OF s1 this] "3.prems"(3) show ?case by (meson list.set_intros(2))
qed auto

lemma spec_ok_extend:
  assumes "spec_ok b s" "spec_extends b s s'"
  shows "(\<forall>m \<in> set (map snd (sp_messages_name s)). sm_id m \<noteq> 0 \<and> message_ok b s' m) \<and>
     (\<forall>c \<in> set (map snd (sp_collections_name s)). \<forall>f \<in> set (pc_fields c). known_field b s' f) \<and>
     (\<forall>t \<in> set (map snd (sp_transactions_name s)). known_message b s' (st_message t) \<and> andor_ok b s' (st_andor t)) \<and>
     (\<forall>br \<in> set (map snd (sp_broadcasts_name s)). known_message b s' (sb_message br) \<and> \<not> sb_required br)"
  using assms spec_mono [OF assms(2)] unfolding spec_ok_def by blast

lemma load_types_ok:
  assumes "wi_p7_spec_load_types s n = Some s'" "spec_ok b s"
  shows "spec_ok b s'"
proof (rule load_children_inv [OF assms(1) [unfolded wi_p7_spec_load_types_def], of "spec_ok b", OF assms(2)])
  fix c s s'
  assume step: "(if xml_name c \<noteq> ''type'' then None
       else do {
         type \<leftarrow> wi_p7_spec_type_with_node c;
         if map_of (sp_types_name s) (pt_name type) \<noteq> None \<or> map_of (sp_types_id s) (pt_id type) \<noteq> None then None
         else Some (s\<lparr>sp_types_name := AList.update (pt_name type) type (sp_types_name s),
                      sp_types_id := AList.update (pt_id type) type (sp_types_id s)\<rparr>)
       }) = Some s'" and ok: "spec_ok b s"
  then obtain t where new: "map_of (sp_types_name s) (pt_name t) = None" "map_of (sp_types_id s) (pt_id t) = None"
    and s': "s' = s\<lparr>sp_types_name := AList.update (pt_name t) t (sp_types_name s),
                    sp_types_id := AList.update (pt_id t) t (sp_types_id s)\<rparr>"
    by (auto simp: bind_eq_Some_conv split: if_splits)
  have e: "spec_extends b s s'" unfolding s' by (rule spec_extends_same) simp_all
  from ok indexed2_update [of pt_name "sp_types_name s" pt_id "sp_types_id s" t] new spec_ok_extend [OF ok e]
  show "spec_ok b s'" unfolding spec_ok_def s' by (simp add: new_keys_def)
qed

lemma load_fields_ok:
  assumes "wi_p7_spec_load_fields b s n = Some s'" "spec_ok b s"
  shows "spec_ok b s'"
proof (rule load_children_inv [OF assms(1) [unfolded wi_p7_spec_load_fields_def], of "spec_ok b", OF assms(2)])
  fix c s s'
  assume step: "(if xml_name c \<noteq> ''field'' then None
       else do {
         field \<leftarrow> wi_p7_spec_field_with_node b s c;
         if with_builtin sp_fields_name b s (pf_name field) \<noteq> None \<or>
            with_builtin sp_fields_id b s (pf_id field) \<noteq> None then None
         else Some (s\<lparr>sp_fields_name := AList.update (pf_name field) field (sp_fields_name s),
                      sp_fields_id := AList.update (pf_id field) field (sp_fields_id s)\<rparr>)
       }) = Some s'" and ok: "spec_ok b s"
  then obtain f where f: "wi_p7_spec_field_with_node b s c = Some f"
    and new: "with_builtin sp_fields_name b s (pf_name f) = None" "with_builtin sp_fields_id b s (pf_id f) = None"
    and s': "s' = s\<lparr>sp_fields_name := AList.update (pf_name f) f (sp_fields_name s),
                    sp_fields_id := AList.update (pf_id f) f (sp_fields_id s)\<rparr>"
    by (auto simp: bind_eq_Some_conv split: if_splits)
  have e: "spec_extends b s s'" unfolding s' by (rule spec_extends_fields [OF _ new(1) _ new(2)]) simp_all
  have k: "new_keys b sp_fields_name s'" "new_keys b sp_fields_id s'"
    using ok new_keys_update [OF _ new(1), of s' f] new_keys_update [OF _ new(2), of s' f]
    unfolding spec_ok_def s' by simp_all
  have i: "indexed2 pf_name (sp_fields_name s') pf_id (sp_fields_id s')"
    using ok indexed2_update [of pf_name "sp_fields_name s" pf_id "sp_fields_id s" f] new
    unfolding spec_ok_def s' by (simp add: with_builtin_None)
  have z: "\<forall>g \<in> set (map snd (sp_fields_name s')). pf_id g \<noteq> 0"
    using ok field_with_node_id [OF f] new(1) unfolding spec_ok_def s' by (simp add: with_builtin_None update_new)
  from ok i z k spec_ok_extend [OF ok e]
  show "spec_ok b s'" unfolding spec_ok_def s' by (simp add: new_keys_def)
qed

lemma load_collections_ok:
  assumes "wi_p7_spec_load_collections b s n = Some s'" "spec_ok b s" "builtin_ok b"
  shows "spec_ok b s'"
proof (rule load_children_inv [OF assms(1) [unfolded wi_p7_spec_load_collections_def], of "spec_ok b", OF assms(2)])
  fix c s s'
  assume step: "(if xml_name c \<noteq> ''collection'' then None
       else do {
         collection \<leftarrow> wi_p7_spec_collection_with_node b s c;
         if map_of (sp_collections_name s) (pc_name collection) \<noteq> None then None
         else Some (s\<lparr>sp_collections_name :=
                           AList.update (pc_name collection) collection (sp_collections_name s)\<rparr>)
       }) = Some s'" and ok: "spec_ok b s"
  then obtain co where co: "wi_p7_spec_collection_with_node b s c = Some co"
    and new: "map_of (sp_collections_name s) (pc_name co) = None"
    and s': "s' = s\<lparr>sp_collections_name := AList.update (pc_name co) co (sp_collections_name s)\<rparr>"
    by (auto simp: bind_eq_Some_conv split: if_splits)
  have e: "spec_extends b s s'" unfolding s' by (rule spec_extends_same) simp_all
  have "\<forall>f \<in> set (pc_fields co). known_field b s f"
    using co collection_members_known [OF _ ok assms(3), of "[]"]
    by (auto simp: wi_p7_spec_collection_with_node_def bind_eq_Some_conv)
  then have "\<forall>f \<in> set (pc_fields co). known_field b s' f" using known_field_mono [OF e] by simp
  with ok new spec_ok_extend [OF ok e]
  show "spec_ok b s'" unfolding spec_ok_def s' by (simp add: new_keys_def update_new)
qed

lemma load_messages_ok:
  assumes "wi_p7_spec_load_messages b s n = Some s'" "spec_ok b s" "builtin_ok b"
  shows "spec_ok b s'"
proof (rule load_children_inv [OF assms(1) [unfolded wi_p7_spec_load_messages_def], of "spec_ok b", OF assms(2)])
  fix c s s'
  assume step: "(if xml_name c \<noteq> ''message'' then None
       else do {
         message \<leftarrow> wi_p7_spec_message_with_node b s c;
         if with_builtin sp_messages_name b s (sm_name message) \<noteq> None \<or>
            with_builtin sp_messages_id b s (sm_id message) \<noteq> None then None
         else Some (s\<lparr>sp_messages_name := AList.update (sm_name message) message (sp_messages_name s),
                      sp_messages_id := AList.update (sm_id message) message (sp_messages_id s)\<rparr>)
       }) = Some s'" and ok: "spec_ok b s"
  then obtain m where m: "wi_p7_spec_message_with_node b s c = Some m"
    and new: "with_builtin sp_messages_name b s (sm_name m) = None" "with_builtin sp_messages_id b s (sm_id m) = None"
    and s': "s' = s\<lparr>sp_messages_name := AList.update (sm_name m) m (sp_messages_name s),
                    sp_messages_id := AList.update (sm_id m) m (sp_messages_id s)\<rparr>"
    by (auto simp: bind_eq_Some_conv split: if_splits)
  have e: "spec_extends b s s'" unfolding s' by (rule spec_extends_messages [OF _ new(1)]) simp_all
  have k: "new_keys b sp_messages_name s'" "new_keys b sp_messages_id s'"
    using ok new_keys_update [OF _ new(1), of s' m] new_keys_update [OF _ new(2), of s' m]
    unfolding spec_ok_def s' by simp_all
  have i: "indexed2 sm_name (sp_messages_name s') sm_id (sp_messages_id s')"
    using ok indexed2_update [of sm_name "sp_messages_name s" sm_id "sp_messages_id s" m] new
    unfolding spec_ok_def s' by (simp add: with_builtin_None)
  have z: "\<forall>g \<in> set (map snd (sp_messages_name s')). sm_id g \<noteq> 0 \<and> message_ok b s' g"
    using spec_ok_extend [OF ok e] message_with_node_ok [OF m ok assms(3)] message_ok_mono [OF e] new(1)
    unfolding s' by (simp add: with_builtin_None update_new)
  from ok i z k spec_ok_extend [OF ok e]
  show "spec_ok b s'" unfolding spec_ok_def s' by (simp add: new_keys_def)
qed

lemma load_transactions_ok:
  assumes "wi_p7_spec_load_transactions b s n = Some s'" "spec_ok b s" "builtin_ok b"
  shows "spec_ok b s'"
proof (rule load_children_inv [OF assms(1) [unfolded wi_p7_spec_load_transactions_def], of "spec_ok b", OF assms(2)])
  fix c s s'
  assume step: "(if xml_name c \<noteq> ''transaction'' then None
       else do {
         transaction \<leftarrow> wi_p7_spec_transaction_with_node b s c;
         if map_of (sp_transactions_name s) (sm_name (st_message transaction)) \<noteq> None then None
         else Some (s\<lparr>sp_transactions_name :=
                           AList.update (sm_name (st_message transaction)) transaction (sp_transactions_name s)\<rparr>)
       }) = Some s'" and ok: "spec_ok b s"
  then obtain t where t: "wi_p7_spec_transaction_with_node b s c = Some t"
    and new: "map_of (sp_transactions_name s) (sm_name (st_message t)) = None"
    and s': "s' = s\<lparr>sp_transactions_name := AList.update (sm_name (st_message t)) t (sp_transactions_name s)\<rparr>"
    by (auto simp: bind_eq_Some_conv split: if_splits)
  have e: "spec_extends b s s'" unfolding s' by (rule spec_extends_same) simp_all
  have "known_message b s' (st_message t) \<and> andor_ok b s' (st_andor t)"
    using transaction_with_node_ok [OF t ok assms(3)] spec_mono [OF e] by blast
  moreover have "indexed (\<lambda>t. sm_name (st_message t)) (sp_transactions_name s')"
    using ok indexed_update [of "\<lambda>t. sm_name (st_message t)" "sp_transactions_name s" t] new
    unfolding spec_ok_def s' by simp
  ultimately show "spec_ok b s'"
    using ok new spec_ok_extend [OF ok e] unfolding spec_ok_def s' by (simp add: new_keys_def update_new)
qed

lemma load_broadcasts_ok:
  assumes "wi_p7_spec_load_broadcasts b s n = Some s'" "spec_ok b s" "builtin_ok b"
  shows "spec_ok b s'"
proof (rule load_children_inv [OF assms(1) [unfolded wi_p7_spec_load_broadcasts_def], of "spec_ok b", OF assms(2)])
  fix c s s'
  assume step: "(if xml_name c \<noteq> ''broadcast'' then None
       else do {
         broadcast \<leftarrow> wi_p7_spec_broadcast_with_node b s c;
         if map_of (sp_broadcasts_name s) (sm_name (sb_message broadcast)) \<noteq> None then None
         else Some (s\<lparr>sp_broadcasts_name :=
                           AList.update (sm_name (sb_message broadcast)) broadcast (sp_broadcasts_name s)\<rparr>)
       }) = Some s'" and ok: "spec_ok b s"
  then obtain t where t: "wi_p7_spec_broadcast_with_node b s c = Some t"
    and new: "map_of (sp_broadcasts_name s) (sm_name (sb_message t)) = None"
    and s': "s' = s\<lparr>sp_broadcasts_name := AList.update (sm_name (sb_message t)) t (sp_broadcasts_name s)\<rparr>"
    by (auto simp: bind_eq_Some_conv split: if_splits)
  have e: "spec_extends b s s'" unfolding s' by (rule spec_extends_same) simp_all
  have "known_message b s' (sb_message t) \<and> \<not> sb_required t"
    using broadcast_with_node_ok [OF t ok assms(3)] spec_mono [OF e] by blast
  moreover have "indexed (\<lambda>t. sm_name (sb_message t)) (sp_broadcasts_name s')"
    using ok indexed_update [of "\<lambda>t. sm_name (sb_message t)" "sp_broadcasts_name s" t] new
    unfolding spec_ok_def s' by simp
  ultimately show "spec_ok b s'"
    using ok new spec_ok_extend [OF ok e] unfolding spec_ok_def s' by (simp add: new_keys_def update_new)
qed

lemmas load_ok = load_types_ok load_fields_ok load_collections_ok load_messages_ok load_transactions_ok
  load_broadcasts_ok

lemma load_spec_ok:
  assumes "wi_p7_spec_load_spec b (wi_p7_spec_init orig) root = Some s" "builtin_ok b"
  shows "spec_ok b s"
proof -
  from assms(1) obtain name version where load: "load_children (\<lambda>spec n.
          if xml_name n = ''documentation'' then Some spec
          else if xml_name n = ''types'' then wi_p7_spec_load_types spec n
          else if xml_name n = ''fields'' then wi_p7_spec_load_fields b spec n
          else if xml_name n = ''collections'' then wi_p7_spec_load_collections b spec n
          else if xml_name n = ''messages'' then wi_p7_spec_load_messages b spec n
          else if xml_name n = ''transactions'' then wi_p7_spec_load_transactions b spec n
          else if xml_name n = ''broadcasts'' then wi_p7_spec_load_broadcasts b spec n
          else None)
          ((wi_p7_spec_init orig)\<lparr>sp_name := Some name, sp_version := Some version\<rparr>) (xml_children root) = Some s"
    by (auto simp: wi_p7_spec_load_spec_def bind_eq_Some_conv split: if_splits)
  show ?thesis
  proof (rule load_children_inv [OF load, of "spec_ok b"])
    show "spec_ok b ((wi_p7_spec_init orig)\<lparr>sp_name := Some name, sp_version := Some version\<rparr>)"
      by (simp add: wi_p7_spec_init_def spec_ok_def new_keys_def)
  qed (auto split: if_splits intro: load_ok assms(2))
qed

lemma builtin_spec_ok: "builtin_ok wi_p7_spec_init_builtin_spec"
  unfolding builtin_ok_def wi_p7_spec_init_builtin_spec_def by (auto intro: load_spec_ok simp: builtin_ok_def)

subsection \<open>A specification is compatible with itself\<close>

lemma list_all_self:
  assumes "distinct (map fst d)"
  shows "list_all (\<lambda>(k, x). P x (map_of d k)) d \<longleftrightarrow> list_all (\<lambda>(k, x). P x (Some x)) d"
  using assms by (auto simp: list_all_iff)

lemma message_compatible_refl:
  assumes "message_ok b s m"
  shows "wi_p7_spec_message_is_compatible m m"
proof -
  have "distinct (map fst (sm_parameters_name m))" using assms by (simp add: message_ok_def indexed2_def indexed_def)
  then show ?thesis
    by (auto simp: wi_p7_spec_message_is_compatible_def p7_field_is_compatible_def list_all_iff)
qed

definition replies_messages_ok :: "p7_spec_reply list \<Rightarrow> bool" where
  "replies_messages_ok rs \<longleftrightarrow> (\<forall>r \<in> set rs. wi_p7_spec_message_is_compatible (sr_message r) (sr_message r))"

lemma reply_compatible_refl:
  "replies_messages_ok rs \<Longrightarrow> r \<in> set rs \<Longrightarrow> wi_p7_spec_reply_is_compatible r (Some r) c"
  by (simp add: wi_p7_spec_reply_is_compatible_def replies_messages_ok_def p7_reply_count_is_compatible_def)

text \<open>The scan of the replies against themselves meets each required reply at its own index.\<close>

lemma replies_scan_refl:
  assumes ok: "indexed (\<lambda>r. sm_name (sr_message r)) (ao_replies_dictionary a)"
    and same: "map snd (ao_replies_dictionary a) = ao_replies_array a"
    and msgs: "replies_messages_ok (ao_replies_array a)"
  shows "i \<le> k \<Longrightarrow> k \<le> length (ao_replies_array a) \<Longrightarrow>
     \<forall>j. i \<le> j \<and> j < k \<longrightarrow> \<not> sr_required (ao_replies_array a ! j) \<Longrightarrow>
     p7_replies_scan a c i (drop k (ao_replies_array a))"
proof (induction "length (ao_replies_array a) - k" arbitrary: i k)
  case (Suc n)
  let ?rs = "ao_replies_array a"
  have k: "k < length ?rs" using Suc.hyps(2) by simp
  then have d: "drop k ?rs = ?rs ! k # drop (Suc k) ?rs" by (rule Cons_nth_drop_Suc [symmetric])
  have refl: "wi_p7_spec_reply_is_compatible (?rs ! k) (Some (?rs ! k)) c"
    by (rule reply_compatible_refl [OF msgs]) (simp add: k)
  have n: "n = length ?rs - Suc k" using Suc.hyps(2) by simp
  show ?case
  proof (cases "sr_required (?rs ! k)")
    case True
    have "takeWhile (\<lambda>r. \<not> sr_required r) (drop i ?rs) = take (k - i) (drop i ?rs)"
      by (rule takeWhile_eq_take_P_nth) (use Suc.prems k True in \<open>auto simp: nth_append\<close>)
    then have idx: "i + length (takeWhile (\<lambda>r. \<not> sr_required r) (drop i ?rs)) = k"
      using Suc.prems k by simp
    have "p7_replies_scan a c (k + 1) (drop (Suc k) ?rs)"
      by (rule Suc.hyps(1) [OF n]) (use k in auto)
    with True idx k refl show ?thesis unfolding d by (simp add: Let_def)
  next
    case False
    have "?rs ! k \<in> set (map snd (ao_replies_dictionary a))" using k same by simp
    with ok have "map_of (ao_replies_dictionary a) (sm_name (sr_message (?rs ! k))) = Some (?rs ! k)"
      by (simp add: indexed_lookup del: set_map)
    moreover have "p7_replies_scan a c i (drop (Suc k) ?rs)"
      by (rule Suc.hyps(1) [OF n]) (use k False Suc.prems in \<open>auto simp: less_Suc_eq\<close>)
    ultimately show ?thesis using False refl unfolding d by simp
  qed
qed simp

lemma known_message_ok:
  assumes "known_message b s m" "spec_ok b s" "builtin_ok b"
  shows "wi_p7_spec_message_is_compatible m m"
proof (cases "map_of (sp_messages_name s) (sm_name m)")
  case (Some m')
  with assms(1) have "m \<in> set (map snd (sp_messages_name s))"
    by (force simp: known_message_def with_builtin_def dest: map_of_SomeD)
  with assms(2) have "message_ok b s m" by (simp add: spec_ok_def del: set_map)
  then show ?thesis by (rule message_compatible_refl)
next
  case None
  with assms(1) obtain c where c: "b = Some c" "m \<in> set (map snd (sp_messages_name c))"
    by (force simp: known_message_def with_builtin_def split: option.splits dest: map_of_SomeD)
  with assms(3) have "message_ok None c m" by (simp add: spec_ok_def builtin_ok_def del: set_map)
  then show ?thesis by (rule message_compatible_refl)
qed

lemma children_compatible_refl:
  "(\<And>c. c \<in> set cs \<Longrightarrow> wi_p7_spec_andor_is_compatible c c) \<Longrightarrow> p7_children_are_compatible cs cs"
  by (induction cs) auto

lemma andor_compatible_refl:
  "andor_ok b s a \<Longrightarrow> spec_ok b s \<Longrightarrow> builtin_ok b \<Longrightarrow> wi_p7_spec_andor_is_compatible a a"
proof (induction b s a rule: andor_ok.induct)
  case (1 b s type cs rs d)
  let ?a = "Andor type cs rs d"
  have "replies_messages_ok rs"
    using 1(2,3,4) known_message_ok by (auto simp: replies_messages_ok_def)
  then have "p7_replies_scan ?a c 0 (drop 0 (ao_replies_array ?a))" for c
    using 1(2) by (intro replies_scan_refl) auto
  moreover have "p7_children_are_compatible cs cs" using 1 by (intro children_compatible_refl) auto
  ultimately show ?case by (simp add: wi_p7_spec_replies_are_compatible_def)
qed

lemma spec_compatible_refl:
  assumes ok: "spec_ok b s" "builtin_ok b"
  shows "wi_p7_spec_is_compatible_with_spec s s"
proof -
  have "distinct (map fst (sp_transactions_name s))" "distinct (map fst (sp_broadcasts_name s))"
    using ok(1) by (simp_all add: spec_ok_def indexed_def)
  moreover have "wi_p7_spec_transaction_is_compatible t (Some t)" if "t \<in> set (map snd (sp_transactions_name s))" for t
    using that ok known_message_ok [OF _ ok] andor_compatible_refl [OF _ ok]
    by (simp add: wi_p7_spec_transaction_is_compatible_def spec_ok_def del: set_map)
  moreover have "wi_p7_spec_broadcast_is_compatible t (Some t)" if "t \<in> set (map snd (sp_broadcasts_name s))" for t
    using that ok known_message_ok [OF _ ok]
    by (simp add: wi_p7_spec_broadcast_is_compatible_def spec_ok_def del: set_map)
  ultimately show ?thesis
    unfolding wi_p7_spec_is_compatible_with_spec_def by (force simp: list_all_iff)
qed

end
