(* ===== verification/Wi_P7_Message.thy ===== *)
theory Wi_P7_Message
  imports Wi_P7_Spec_Inv
begin

unbundle bit_operations_syntax

text \<open>
  P7 messages in their binary form (p7/wi-p7-message.c): the id of the message, then its
  fields, each the id of the field, the size of its value where the type has no fixed one, and
  the value. All numbers are big-endian.

  The buffer is the list of the allocated bytes. A read or write outside it is undefined in C
  and the value \<open>Inl Outside_Buffer\<close> here. What \<open>malloc\<close> leaves in fresh bytes is the
  argument \<open>junk\<close>. A double is the 64-bit pattern that base/wi-byteorder.c makes of it, a UUID
  its 16 bytes. The arguments \<open>builtin\<close> and \<open>spec\<close> are the specifications of Wi_P7_Spec.
\<close>

subsection \<open>Bytes and words\<close>

definition w32_bytes :: "32 word \<Rightarrow> 8 word list" where
  "w32_bytes w = [ucast (drop_bit 24 w), ucast (drop_bit 16 w), ucast (drop_bit 8 w), ucast w]"

definition w64_bytes :: "64 word \<Rightarrow> 8 word list" where
  "w64_bytes w = w32_bytes (ucast (drop_bit 32 w)) @ w32_bytes (ucast w)"

definition bytes_w32 :: "8 word list \<Rightarrow> 32 word" where
  "bytes_w32 bs =
     push_bit 24 (ucast (bs ! 0)) OR push_bit 16 (ucast (bs ! 1)) OR push_bit 8 (ucast (bs ! 2)) OR ucast (bs ! 3)"

definition bytes_w64 :: "8 word list \<Rightarrow> 64 word" where
  "bytes_w64 bs = push_bit 32 (ucast (bytes_w32 (take 4 bs))) OR ucast (bytes_w32 (drop 4 bs))"

lemma lenw32_bytes [simp]: "length (w32_bytes w) = 4"
  by (simp add: w32_bytes_def)

lemma lenw64_bytes [simp]: "length (w64_bytes w) = 8"
  by (simp add: w64_bytes_def)

lemma bytes_w32_bytes [simp]: "bytes_w32 (w32_bytes w) = w"
proof (rule bit_word_eqI)
  fix n :: nat
  assume "n < LENGTH(32)"
  then consider "n < 8" | "8 \<le> n" "n < 16" | "16 \<le> n" "n < 24" | "24 \<le> n" "n < 32" by fastforce
  then show "bit (bytes_w32 (w32_bytes w)) n = bit w n"
    by cases (simp_all add: bytes_w32_def w32_bytes_def bit_or_iff bit_push_bit_iff bit_ucast_iff bit_drop_bit_eq less_diff_conv2)
qed

lemma bytes_w64_bytes [simp]: "bytes_w64 (w64_bytes w) = w"
proof (rule bit_word_eqI)
  fix n :: nat
  assume "n < LENGTH(64)"
  then show "bit (bytes_w64 (w64_bytes w)) n = bit w n"
    by (auto simp: bytes_w64_def w64_bytes_def bit_or_iff bit_push_bit_iff bit_ucast_iff bit_drop_bit_eq)
qed

definition byte_char :: "8 word \<Rightarrow> char" where
  "byte_char b = char_of (unat b)"

definition char_byte :: "char \<Rightarrow> 8 word" where
  "char_byte c = of_nat (of_char c)"

lemma byte_char_byte [simp]: "byte_char (char_byte c) = c"
proof -
  have "(of_char c :: nat) < 256" by simp
  then show ?thesis by (simp add: byte_char_def char_byte_def unat_of_nat take_bit_nat_eq_self)
qed

datatype p7_fault = Outside_Buffer | Null_Field

type_synonym 'a p7_access = "p7_fault + 'a"

definition p7_bind :: "'a p7_access \<Rightarrow> ('a \<Rightarrow> 'b p7_access) \<Rightarrow> 'b p7_access" where
  "p7_bind r f = (case r of Inl e \<Rightarrow> Inl e | Inr x \<Rightarrow> f x)"

lemma p7_bind_simps [simp]:
  "p7_bind (Inl e) f = Inl e"
  "p7_bind (Inr x) f = f x"
  by (simp_all add: p7_bind_def)

lemma p7_bind_cong [fundef_cong]:
  "r = r' \<Longrightarrow> (\<And>x. r' = Inr x \<Longrightarrow> f x = f' x) \<Longrightarrow> p7_bind r f = p7_bind r' f'"
  by (cases r') auto

definition p7_load :: "8 word list \<Rightarrow> nat \<Rightarrow> nat \<Rightarrow> 8 word list p7_access" where
  "p7_load buf off n = (if off + n \<le> length buf then Inr (take n (drop off buf)) else Inl Outside_Buffer)"

definition p7_store :: "8 word list \<Rightarrow> nat \<Rightarrow> 8 word list \<Rightarrow> 8 word list p7_access" where
  "p7_store buf off bs =
     (if off + length bs \<le> length buf then Inr (take off buf @ bs @ drop (off + length bs) buf)
      else Inl Outside_Buffer)"

definition wi_read_swap_big_to_host_int32 :: "8 word list \<Rightarrow> nat \<Rightarrow> 32 word p7_access" where
  "wi_read_swap_big_to_host_int32 buf off = p7_bind (p7_load buf off 4) (\<lambda>bs. Inr (bytes_w32 bs))"

definition wi_read_swap_big_to_host_int64 :: "8 word list \<Rightarrow> nat \<Rightarrow> 64 word p7_access" where
  "wi_read_swap_big_to_host_int64 buf off = p7_bind (p7_load buf off 8) (\<lambda>bs. Inr (bytes_w64 bs))"

definition wi_write_swap_host_to_big_int32 :: "8 word list \<Rightarrow> nat \<Rightarrow> 32 word \<Rightarrow> 8 word list p7_access" where
  "wi_write_swap_host_to_big_int32 buf off n = p7_store buf off (w32_bytes n)"

definition wi_write_swap_host_to_big_int64 :: "8 word list \<Rightarrow> nat \<Rightarrow> 64 word \<Rightarrow> 8 word list p7_access" where
  "wi_write_swap_host_to_big_int64 buf off n = p7_store buf off (w64_bytes n)"

lemma read32_off: "wi_read_swap_big_to_host_int32 buf off = Inr w \<Longrightarrow> off + 4 \<le> length buf"
  by (auto simp: wi_read_swap_big_to_host_int32_def p7_load_def split: if_splits)

subsection \<open>The message\<close>

text \<open>
  \<open>binary_capacity\<close> is the length of the buffer, a number of 32 bits in C: buffers are shorter
  than \<open>2 ^ 32\<close> bytes.
\<close>

record p7_binary =
  pb_name :: "string option"
  pb_buffer :: "8 word list"
  pb_size :: "32 word"
  pb_id :: "32 word"

definition WI_P7_MESSAGE_BINARY_HEADER_SIZE :: nat where "WI_P7_MESSAGE_BINARY_HEADER_SIZE = 4"

definition WI_P7_MESSAGE_BINARY_BUFFER_INITIAL_SIZE :: nat where "WI_P7_MESSAGE_BINARY_BUFFER_INITIAL_SIZE = 8192"

definition wi_p7_spec_field_size :: "p7_spec_field \<Rightarrow> 64 word" where
  "wi_p7_spec_field_size f = pt_size (pf_type f)"

text \<open>
  One round of the loop over the fields up to the value of the field at \<open>off\<close>, an offset from
  the end of the header: the id, where the value starts, and its size. \<open>None\<close> is a \<open>break\<close>. The offset
  of the pointer is compared after a cast to 32 bits; the sums with \<open>sizeof\<close> have 64 bits.
\<close>

definition p7_message_size :: "p7_binary \<Rightarrow> 32 word" where
  "p7_message_size m = pb_size m - of_nat WI_P7_MESSAGE_BINARY_HEADER_SIZE"

definition p7_read_head ::
  "p7_spec option \<Rightarrow> p7_spec \<Rightarrow> p7_binary \<Rightarrow> nat \<Rightarrow> (32 word \<times> nat \<times> 32 word) option p7_access" where
  "p7_read_head builtin spec m off =
     p7_bind (wi_read_swap_big_to_host_int32 (pb_buffer m) (WI_P7_MESSAGE_BINARY_HEADER_SIZE + off)) (\<lambda>fid.
       case wi_p7_spec_field_with_id builtin spec (ucast fid) of
         None \<Rightarrow> Inr None
       | Some field \<Rightarrow>
           if unat (of_nat off :: 32 word) + 4 > unat (p7_message_size m) then Inr None
           else if (ucast (wi_p7_spec_field_size field) :: 32 word) = 0 then
             p7_bind (wi_read_swap_big_to_host_int32 (pb_buffer m) (WI_P7_MESSAGE_BINARY_HEADER_SIZE + (off + 4))) (\<lambda>n.
               if unat (of_nat (off + 4) :: 32 word) + 4 > unat (p7_message_size m) then Inr None
               else Inr (Some (fid, off + 8, n)))
           else Inr (Some (fid, off + 4, ucast (wi_p7_spec_field_size field))))"

lemma p7_read_head_bounds:
  "p7_read_head builtin spec m off = Inr (Some (i, off', n)) \<Longrightarrow>
     off + 4 \<le> off' \<and> off + 8 \<le> length (pb_buffer m)"
  by (auto simp: p7_read_head_def p7_bind_def WI_P7_MESSAGE_BINARY_HEADER_SIZE_def
      split: sum.splits option.splits if_splits dest!: read32_off)

text \<open>The loop for the field \<open>in_id\<close>. The sum with the size of the value has 32 bits.\<close>

function wi_p7_message_get_binary_buffer_for_reading_from ::
  "p7_spec option \<Rightarrow> p7_spec \<Rightarrow> p7_binary \<Rightarrow> 32 word \<Rightarrow> nat \<Rightarrow> (nat \<times> 32 word) option p7_access" where
  "wi_p7_message_get_binary_buffer_for_reading_from builtin spec m in_id off =
     (if (of_nat off :: 32 word) < p7_message_size m then
        p7_bind (p7_read_head builtin spec m off) (\<lambda>r.
          case r of
            None \<Rightarrow> Inr None
          | Some (fid, off', n) \<Rightarrow>
              if fid = in_id then Inr (Some (WI_P7_MESSAGE_BINARY_HEADER_SIZE + off', n))
              else if of_nat off' + n > p7_message_size m then Inr None
              else wi_p7_message_get_binary_buffer_for_reading_from builtin spec m in_id (off' + unat n))
      else Inr None)"
  by pat_completeness auto
termination
  by (relation "measure (\<lambda>(b, s, m, i, off). length (pb_buffer m) - off)")
    (auto dest!: p7_read_head_bounds)

declare wi_p7_message_get_binary_buffer_for_reading_from.simps [simp del]

definition wi_p7_message_get_binary_buffer_for_reading_for_id ::
  "p7_spec option \<Rightarrow> p7_spec \<Rightarrow> p7_binary \<Rightarrow> 32 word \<Rightarrow> (nat \<times> 32 word) option p7_access" where
  "wi_p7_message_get_binary_buffer_for_reading_for_id builtin spec m in_id =
     wi_p7_message_get_binary_buffer_for_reading_from builtin spec m in_id 0"

definition wi_p7_message_get_binary_buffer_for_reading_for_name ::
  "p7_spec option \<Rightarrow> p7_spec \<Rightarrow> p7_binary \<Rightarrow> string \<Rightarrow> (nat \<times> 32 word) option p7_access" where
  "wi_p7_message_get_binary_buffer_for_reading_for_name builtin spec m name =
     (case wi_p7_spec_field_with_name builtin spec name of
        None \<Rightarrow> Inr None
      | Some field \<Rightarrow> wi_p7_message_get_binary_buffer_for_reading_for_id builtin spec m (ucast (pf_id field)))"

definition p7_realloc :: "(nat \<Rightarrow> 8 word) \<Rightarrow> 8 word list \<Rightarrow> nat \<Rightarrow> 8 word list" where
  "p7_realloc junk buf n = take n buf @ map junk [length buf..<n]"

text \<open>Room for a field at the end: where it starts, and the message with its new size.\<close>

definition wi_p7_message_get_binary_buffer_for_writing_for_id ::
  "(nat \<Rightarrow> 8 word) \<Rightarrow> p7_spec option \<Rightarrow> p7_spec \<Rightarrow> p7_binary \<Rightarrow> 32 word \<Rightarrow> 32 word \<Rightarrow>
   (nat \<times> p7_binary) option p7_access" where
  "wi_p7_message_get_binary_buffer_for_writing_for_id junk builtin spec m fid len =
     (case wi_p7_spec_field_with_id builtin spec (ucast fid) of
        None \<Rightarrow> Inl Null_Field
      | Some field \<Rightarrow>
          let size = ucast (wi_p7_spec_field_size field) :: 32 word;
              new_size = (if size = 0 then 4 + 4 + len else 4 + size)
          in p7_bind (wi_p7_message_get_binary_buffer_for_reading_for_id builtin spec m fid) (\<lambda>r.
               if r \<noteq> None then Inr None
               else
                 let buf = (if pb_size m + new_size > of_nat (length (pb_buffer m))
                            then p7_realloc junk (pb_buffer m) (unat (pb_size m + new_size)) else pb_buffer m)
                 in Inr (Some (unat (pb_size m), m\<lparr>pb_buffer := buf, pb_size := pb_size m + new_size\<rparr>))))"

definition wi_p7_message_get_binary_buffer_for_writing_for_name ::
  "(nat \<Rightarrow> 8 word) \<Rightarrow> p7_spec option \<Rightarrow> p7_spec \<Rightarrow> p7_binary \<Rightarrow> string \<Rightarrow> 32 word \<Rightarrow>
   (nat \<times> 32 word \<times> p7_binary) option p7_access" where
  "wi_p7_message_get_binary_buffer_for_writing_for_name junk builtin spec m name len =
     (case wi_p7_spec_field_with_name builtin spec name of
        None \<Rightarrow> Inr None
      | Some field \<Rightarrow>
          p7_bind (wi_p7_message_get_binary_buffer_for_writing_for_id junk builtin spec m (ucast (pf_id field)) len)
            (\<lambda>r. Inr (map_option (\<lambda>(off, m). (off, ucast (pf_id field), m)) r)))"

text \<open>A message of a given name, and a message that was received.\<close>

definition wi_p7_message_set_name ::
  "p7_spec option \<Rightarrow> p7_spec \<Rightarrow> p7_binary \<Rightarrow> string \<Rightarrow> p7_binary option p7_access" where
  "wi_p7_message_set_name builtin spec m name =
     (case wi_p7_spec_message_with_name builtin spec name of
        None \<Rightarrow> Inr None
      | Some message \<Rightarrow>
          p7_bind (wi_write_swap_host_to_big_int32 (pb_buffer m) 0 (ucast (sm_id message))) (\<lambda>buf.
            Inr (Some (m\<lparr>pb_name := Some name, pb_buffer := buf, pb_id := ucast (sm_id message)\<rparr>))))"

definition wi_p7_message_init_with_name ::
  "(nat \<Rightarrow> 8 word) \<Rightarrow> p7_spec option \<Rightarrow> p7_spec \<Rightarrow> string \<Rightarrow> p7_binary option p7_access" where
  "wi_p7_message_init_with_name junk builtin spec name =
     wi_p7_message_set_name builtin spec
       \<lparr>pb_name = None, pb_buffer = map junk [0..<WI_P7_MESSAGE_BINARY_BUFFER_INITIAL_SIZE],
        pb_size = of_nat WI_P7_MESSAGE_BINARY_HEADER_SIZE, pb_id = 0\<rparr> name"

definition wi_p7_message_deserialize ::
  "p7_spec option \<Rightarrow> p7_spec \<Rightarrow> p7_binary \<Rightarrow> p7_binary p7_access" where
  "wi_p7_message_deserialize builtin spec m =
     p7_bind (wi_read_swap_big_to_host_int32 (pb_buffer m) 0) (\<lambda>fid.
       Inr (m\<lparr>pb_id := fid,
              pb_name := (case wi_p7_spec_message_with_id builtin spec (ucast fid) of
                            None \<Rightarrow> pb_name m
                          | Some message \<Rightarrow> Some (sm_name message))\<rparr>))"

definition wi_p7_message_init_with_bytes ::
  "p7_spec option \<Rightarrow> p7_spec \<Rightarrow> 8 word list \<Rightarrow> p7_binary option p7_access" where
  "wi_p7_message_init_with_bytes builtin spec bytes =
     p7_bind (wi_p7_message_deserialize builtin spec
         \<lparr>pb_name = None, pb_buffer = bytes, pb_size = of_nat (length bytes), pb_id = 0\<rparr>) (\<lambda>m.
       Inr (if pb_name m = None then None else Some m))"

subsection \<open>Setting fields\<close>

text \<open>
  The setters reserve room for the field, write its id, the size where the type has none, and the
  value; the result is \<open>None\<close> where the C function returns false.
\<close>

definition p7_write_field ::
  "(nat \<Rightarrow> 8 word) \<Rightarrow> p7_spec option \<Rightarrow> p7_spec \<Rightarrow> p7_binary \<Rightarrow> string \<Rightarrow> 32 word \<Rightarrow>
   8 word list \<Rightarrow> p7_binary option p7_access" where
  "p7_write_field junk builtin spec m name len bytes =
     p7_bind (wi_p7_message_get_binary_buffer_for_writing_for_name junk builtin spec m name len) (\<lambda>r.
       case r of
         None \<Rightarrow> Inr None
       | Some (off, fid, m) \<Rightarrow>
           p7_bind (p7_store (pb_buffer m) off (w32_bytes fid @ bytes)) (\<lambda>buf.
             Inr (Some (m\<lparr>pb_buffer := buf\<rparr>))))"

definition wi_p7_message_set_bool_for_name ::
  "(nat \<Rightarrow> 8 word) \<Rightarrow> p7_spec option \<Rightarrow> p7_spec \<Rightarrow> p7_binary \<Rightarrow> bool \<Rightarrow> string \<Rightarrow> p7_binary option p7_access" where
  "wi_p7_message_set_bool_for_name junk builtin spec m v name =
     p7_write_field junk builtin spec m name 0 [if v then 1 else 0]"

definition wi_p7_message_set_int32_for_name ::
  "(nat \<Rightarrow> 8 word) \<Rightarrow> p7_spec option \<Rightarrow> p7_spec \<Rightarrow> p7_binary \<Rightarrow> 32 word \<Rightarrow> string \<Rightarrow> p7_binary option p7_access" where
  "wi_p7_message_set_int32_for_name junk builtin spec m v name =
     p7_write_field junk builtin spec m name 0 (w32_bytes v)"

definition wi_p7_message_set_uint32_for_name ::
  "(nat \<Rightarrow> 8 word) \<Rightarrow> p7_spec option \<Rightarrow> p7_spec \<Rightarrow> p7_binary \<Rightarrow> 32 word \<Rightarrow> string \<Rightarrow> p7_binary option p7_access" where
  "wi_p7_message_set_uint32_for_name = wi_p7_message_set_int32_for_name"

definition wi_p7_message_set_enum_for_name ::
  "(nat \<Rightarrow> 8 word) \<Rightarrow> p7_spec option \<Rightarrow> p7_spec \<Rightarrow> p7_binary \<Rightarrow> 32 word \<Rightarrow> string \<Rightarrow> p7_binary option p7_access" where
  "wi_p7_message_set_enum_for_name = wi_p7_message_set_uint32_for_name"

definition wi_p7_message_set_int64_for_name ::
  "(nat \<Rightarrow> 8 word) \<Rightarrow> p7_spec option \<Rightarrow> p7_spec \<Rightarrow> p7_binary \<Rightarrow> 64 word \<Rightarrow> string \<Rightarrow> p7_binary option p7_access" where
  "wi_p7_message_set_int64_for_name junk builtin spec m v name =
     p7_write_field junk builtin spec m name 0 (w64_bytes v)"

definition wi_p7_message_set_uint64_for_name ::
  "(nat \<Rightarrow> 8 word) \<Rightarrow> p7_spec option \<Rightarrow> p7_spec \<Rightarrow> p7_binary \<Rightarrow> 64 word \<Rightarrow> string \<Rightarrow> p7_binary option p7_access" where
  "wi_p7_message_set_uint64_for_name = wi_p7_message_set_int64_for_name"

definition wi_p7_message_set_oobdata_for_name ::
  "(nat \<Rightarrow> 8 word) \<Rightarrow> p7_spec option \<Rightarrow> p7_spec \<Rightarrow> p7_binary \<Rightarrow> 64 word \<Rightarrow> string \<Rightarrow> p7_binary option p7_access" where
  "wi_p7_message_set_oobdata_for_name junk builtin spec m v name =
     p7_write_field junk builtin spec m name 0 (w64_bytes v)"

definition wi_p7_message_set_double_for_name ::
  "(nat \<Rightarrow> 8 word) \<Rightarrow> p7_spec option \<Rightarrow> p7_spec \<Rightarrow> p7_binary \<Rightarrow> 64 word \<Rightarrow> string \<Rightarrow> p7_binary option p7_access" where
  "wi_p7_message_set_double_for_name junk builtin spec m v name =
     p7_write_field junk builtin spec m name 0 (w64_bytes v)"

text \<open>A date is sent as its time interval; no date stands for the present one, \<open>now\<close>.\<close>

definition wi_p7_message_set_date_for_name ::
  "(nat \<Rightarrow> 8 word) \<Rightarrow> p7_spec option \<Rightarrow> p7_spec \<Rightarrow> 64 word \<Rightarrow> p7_binary \<Rightarrow> 64 word option \<Rightarrow> string \<Rightarrow>
   p7_binary option p7_access" where
  "wi_p7_message_set_date_for_name junk builtin spec now m date name =
     wi_p7_message_set_double_for_name junk builtin spec m (case date of Some d \<Rightarrow> d | None \<Rightarrow> now) name"

text \<open>A NULL string is the empty one, NULL data are no bytes.\<close>

definition cstring_bytes :: "string \<Rightarrow> 8 word list" where
  "cstring_bytes s = map char_byte s @ [0]"

definition wi_p7_message_set_string_for_name ::
  "(nat \<Rightarrow> 8 word) \<Rightarrow> p7_spec option \<Rightarrow> p7_spec \<Rightarrow> p7_binary \<Rightarrow> string option \<Rightarrow> string \<Rightarrow> p7_binary option p7_access" where
  "wi_p7_message_set_string_for_name junk builtin spec m v name =
     (let s = (case v of Some s \<Rightarrow> s | None \<Rightarrow> []);
          size = of_nat (length s + 1) :: 32 word
      in p7_write_field junk builtin spec m name size
           (w32_bytes size @ take (unat size) (cstring_bytes s)))"

definition wi_p7_message_set_data_for_name ::
  "(nat \<Rightarrow> 8 word) \<Rightarrow> p7_spec option \<Rightarrow> p7_spec \<Rightarrow> p7_binary \<Rightarrow> 8 word list option \<Rightarrow> string \<Rightarrow>
   p7_binary option p7_access" where
  "wi_p7_message_set_data_for_name junk builtin spec m v name =
     (let d = (case v of Some d \<Rightarrow> d | None \<Rightarrow> []);
          size = of_nat (length d) :: 32 word
      in p7_write_field junk builtin spec m name size (w32_bytes size @ take (unat size) d))"

definition wi_p7_message_set_uuid_for_name ::
  "(nat \<Rightarrow> 8 word) \<Rightarrow> p7_spec option \<Rightarrow> p7_spec \<Rightarrow> p7_binary \<Rightarrow> 8 word list option \<Rightarrow> string \<Rightarrow>
   p7_binary option p7_access" where
  "wi_p7_message_set_uuid_for_name junk builtin spec m v name =
     (case v of None \<Rightarrow> Inr None
      | Some uuid \<Rightarrow> p7_write_field junk builtin spec m name 0 uuid)"

definition list_item_bytes :: "string \<Rightarrow> 8 word list" where
  "list_item_bytes s = w32_bytes (of_nat (length s + 1)) @ cstring_bytes s"

definition wi_p7_message_set_list_for_name ::
  "(nat \<Rightarrow> 8 word) \<Rightarrow> p7_spec option \<Rightarrow> p7_spec \<Rightarrow> p7_binary \<Rightarrow> string list \<Rightarrow> string \<Rightarrow> p7_binary option p7_access" where
  "wi_p7_message_set_list_for_name junk builtin spec m l name =
     (let size = of_nat (sum_list (map (\<lambda>s. 4 + length s + 1) l)) :: 32 word
      in p7_write_field junk builtin spec m name size (w32_bytes size @ concat (map list_item_bytes l)))"

subsection \<open>Reading fields\<close>

definition p7_read_field ::
  "p7_spec option \<Rightarrow> p7_spec \<Rightarrow> p7_binary \<Rightarrow> string \<Rightarrow> (nat \<Rightarrow> 32 word \<Rightarrow> 'a p7_access) \<Rightarrow> 'a option p7_access" where
  "p7_read_field builtin spec m name f =
     p7_bind (wi_p7_message_get_binary_buffer_for_reading_for_name builtin spec m name) (\<lambda>r.
       case r of
         None \<Rightarrow> Inr None
       | Some (off, n) \<Rightarrow> p7_bind (f off n) (\<lambda>v. Inr (Some v)))"

definition wi_p7_message_get_bool_for_name ::
  "p7_spec option \<Rightarrow> p7_spec \<Rightarrow> p7_binary \<Rightarrow> string \<Rightarrow> bool option p7_access" where
  "wi_p7_message_get_bool_for_name builtin spec m name =
     p7_read_field builtin spec m name (\<lambda>off size. p7_bind (p7_load (pb_buffer m) off 1) (\<lambda>bs. Inr (hd bs = 1)))"

definition wi_p7_message_get_int32_for_name ::
  "p7_spec option \<Rightarrow> p7_spec \<Rightarrow> p7_binary \<Rightarrow> string \<Rightarrow> 32 word option p7_access" where
  "wi_p7_message_get_int32_for_name builtin spec m name =
     p7_read_field builtin spec m name (\<lambda>off size. wi_read_swap_big_to_host_int32 (pb_buffer m) off)"

definition wi_p7_message_get_uint32_for_name ::
  "p7_spec option \<Rightarrow> p7_spec \<Rightarrow> p7_binary \<Rightarrow> string \<Rightarrow> 32 word option p7_access" where
  "wi_p7_message_get_uint32_for_name = wi_p7_message_get_int32_for_name"

definition wi_p7_message_get_enum_for_name ::
  "p7_spec option \<Rightarrow> p7_spec \<Rightarrow> p7_binary \<Rightarrow> string \<Rightarrow> 32 word option p7_access" where
  "wi_p7_message_get_enum_for_name = wi_p7_message_get_uint32_for_name"

definition wi_p7_message_get_int64_for_name ::
  "p7_spec option \<Rightarrow> p7_spec \<Rightarrow> p7_binary \<Rightarrow> string \<Rightarrow> 64 word option p7_access" where
  "wi_p7_message_get_int64_for_name builtin spec m name =
     p7_read_field builtin spec m name (\<lambda>off size. wi_read_swap_big_to_host_int64 (pb_buffer m) off)"

definition wi_p7_message_get_uint64_for_name ::
  "p7_spec option \<Rightarrow> p7_spec \<Rightarrow> p7_binary \<Rightarrow> string \<Rightarrow> 64 word option p7_access" where
  "wi_p7_message_get_uint64_for_name = wi_p7_message_get_int64_for_name"

definition wi_p7_message_get_oobdata_for_name ::
  "p7_spec option \<Rightarrow> p7_spec \<Rightarrow> p7_binary \<Rightarrow> string \<Rightarrow> 64 word option p7_access" where
  "wi_p7_message_get_oobdata_for_name builtin spec m name =
     p7_read_field builtin spec m name (\<lambda>off size. wi_read_swap_big_to_host_int64 (pb_buffer m) off)"

definition wi_p7_message_get_double_for_name ::
  "p7_spec option \<Rightarrow> p7_spec \<Rightarrow> p7_binary \<Rightarrow> string \<Rightarrow> 64 word option p7_access" where
  "wi_p7_message_get_double_for_name builtin spec m name =
     p7_read_field builtin spec m name (\<lambda>off size. wi_read_swap_big_to_host_int64 (pb_buffer m) off)"

definition wi_p7_message_date_for_name ::
  "p7_spec option \<Rightarrow> p7_spec \<Rightarrow> p7_binary \<Rightarrow> string \<Rightarrow> 64 word option p7_access" where
  "wi_p7_message_date_for_name = wi_p7_message_get_double_for_name"

text \<open>The size of a string counts its terminator; a size of 0 wraps around.\<close>

definition wi_p7_message_string_for_name ::
  "p7_spec option \<Rightarrow> p7_spec \<Rightarrow> p7_binary \<Rightarrow> string \<Rightarrow> string option p7_access" where
  "wi_p7_message_string_for_name builtin spec m name =
     p7_read_field builtin spec m name (\<lambda>off size.
       p7_bind (p7_load (pb_buffer m) off (unat (size - 1))) (\<lambda>bs. Inr (map byte_char bs)))"

definition wi_p7_message_data_for_name ::
  "p7_spec option \<Rightarrow> p7_spec \<Rightarrow> p7_binary \<Rightarrow> string \<Rightarrow> 8 word list option p7_access" where
  "wi_p7_message_data_for_name builtin spec m name =
     p7_read_field builtin spec m name (\<lambda>off size. p7_load (pb_buffer m) off (unat size))"

definition wi_p7_message_uuid_for_name ::
  "p7_spec option \<Rightarrow> p7_spec \<Rightarrow> p7_binary \<Rightarrow> string \<Rightarrow> 8 word list option p7_access" where
  "wi_p7_message_uuid_for_name builtin spec m name =
     p7_read_field builtin spec m name (\<lambda>off size. p7_load (pb_buffer m) off 16)"

text \<open>
  The strings of a list. An item that could be read ends within the buffer, so the offset, a number
  of 32 bits, has not wrapped around.
\<close>

function p7_read_list :: "8 word list \<Rightarrow> nat \<Rightarrow> nat \<Rightarrow> nat \<Rightarrow> string list p7_access" where
  "p7_read_list buf off field_size list_size =
     (if list_size < field_size then
        p7_bind (wi_read_swap_big_to_host_int32 buf (off + list_size)) (\<lambda>string_size.
          p7_bind (p7_load buf (off + (list_size + 4)) (unat (string_size - 1))) (\<lambda>bs.
            p7_bind (p7_read_list buf off field_size (list_size + 4 + unat string_size)) (\<lambda>l.
              Inr (map byte_char bs # l))))
      else Inr [])"
  by pat_completeness auto
termination
  by (relation "measure (\<lambda>(buf, off, field_size, list_size). field_size - list_size)") auto

declare p7_read_list.simps [simp del]

definition wi_p7_message_list_for_name ::
  "p7_spec option \<Rightarrow> p7_spec \<Rightarrow> p7_binary \<Rightarrow> string \<Rightarrow> string list option p7_access" where
  "wi_p7_message_list_for_name builtin spec m name =
     (case wi_p7_spec_field_with_name builtin spec name of
        None \<Rightarrow> Inr None
      | Some field \<Rightarrow>
          case pf_listtype field of
            None \<Rightarrow> Inl Null_Field
          | Some listtype \<Rightarrow>
              if pt_id listtype \<noteq> WI_P7_STRING then Inr None
              else p7_read_field builtin spec m name (\<lambda>off size. p7_read_list (pb_buffer m) off (unat size) 0))"

text \<open>The names of enumeration values.\<close>

definition wi_p7_message_set_enum_name_for_name ::
  "(nat \<Rightarrow> 8 word) \<Rightarrow> p7_spec option \<Rightarrow> p7_spec \<Rightarrow> p7_binary \<Rightarrow> string \<Rightarrow> string \<Rightarrow> p7_binary option p7_access" where
  "wi_p7_message_set_enum_name_for_name junk builtin spec m enum_name name =
     (case wi_p7_spec_field_with_name builtin spec name of
        None \<Rightarrow> Inr None
      | Some field \<Rightarrow>
          case map_of (pf_enums_name field) enum_name of
            None \<Rightarrow> Inr None
          | Some v \<Rightarrow> wi_p7_message_set_enum_for_name junk builtin spec m (ucast v) name)"

definition wi_p7_message_enum_name_for_name ::
  "p7_spec option \<Rightarrow> p7_spec \<Rightarrow> p7_binary \<Rightarrow> string \<Rightarrow> string option p7_access" where
  "wi_p7_message_enum_name_for_name builtin spec m name =
     p7_bind (wi_p7_message_get_enum_for_name builtin spec m name) (\<lambda>r.
       case r of
         None \<Rightarrow> Inr None
       | Some v \<Rightarrow>
           case wi_p7_spec_field_with_name builtin spec name of
             None \<Rightarrow> Inl Null_Field
           | Some field \<Rightarrow> Inr (map_of (pf_enums_value field) (ucast v)))"

subsection \<open>Verification (p7/wi-p7-spec.c)\<close>

text \<open>
  The loop counts the fields that are required parameters. It compares no size with the size of
  the message, and a field it does not know it takes for its four bytes of id.
\<close>

function p7_verify_count ::
  "p7_spec option \<Rightarrow> p7_spec \<Rightarrow> p7_spec_message \<Rightarrow> p7_binary \<Rightarrow> nat \<Rightarrow> nat \<Rightarrow> nat p7_access" where
  "p7_verify_count builtin spec message m off n =
     (if (of_nat off :: 32 word) < p7_message_size m then
        p7_bind (wi_read_swap_big_to_host_int32 (pb_buffer m) (WI_P7_MESSAGE_BINARY_HEADER_SIZE + off)) (\<lambda>fid.
          case wi_p7_spec_field_with_id builtin spec (ucast fid) of
            None \<Rightarrow> p7_verify_count builtin spec message m (off + 4) n
          | Some field \<Rightarrow>
              let n = (case map_of (sm_parameters_id message) (ucast fid) of
                         Some p \<Rightarrow> if pp_required p then n + 1 else n
                       | None \<Rightarrow> n)
              in if (ucast (wi_p7_spec_field_size field) :: 32 word) = 0 then
                   p7_bind (wi_read_swap_big_to_host_int32 (pb_buffer m)
                       (WI_P7_MESSAGE_BINARY_HEADER_SIZE + (off + 4))) (\<lambda>k.
                     p7_verify_count builtin spec message m (off + 8 + unat k) n)
                 else p7_verify_count builtin spec message m
                        (off + 4 + unat (ucast (wi_p7_spec_field_size field) :: 32 word)) n)
      else Inr n)"
  by pat_completeness auto
termination
  by (relation "measure (\<lambda>(b, s, message, m, off, n). length (pb_buffer m) - off)")
    (auto dest!: read32_off simp: WI_P7_MESSAGE_BINARY_HEADER_SIZE_def)

declare p7_verify_count.simps [simp del]

definition wi_p7_spec_verify_message :: "p7_spec option \<Rightarrow> p7_spec \<Rightarrow> p7_binary \<Rightarrow> bool p7_access" where
  "wi_p7_spec_verify_message builtin spec m =
     (case map_of (sp_messages_id spec) (ucast (pb_id m)) of
        None \<Rightarrow> Inr False
      | Some message \<Rightarrow>
          p7_bind (p7_verify_count builtin spec message m 0 0) (\<lambda>n. Inr (n = sm_required_parameters message)))"

end
