(* ===== verification/Wi_P7_Wire.thy ===== *)
theory Wi_P7_Wire
  imports Wi_P7_Message
begin

text \<open>
  What the bytes of a message mean: \<open>holds\<close> relates a message to the list of its fields and their
  values. Setting a field appends to that list unless the field is there, reading a field looks it
  up, and verification counts. The theorems at the end are about the messages a server builds, and
  about those a peer may send it.
\<close>

subsection \<open>The fields of a message\<close>

definition field_size32 :: "p7_spec_field \<Rightarrow> 32 word" where
  "field_size32 f = ucast (wi_p7_spec_field_size f)"

definition field_id32 :: "p7_spec_field \<Rightarrow> 32 word" where
  "field_id32 f = ucast (pf_id f)"

definition field_head :: "p7_spec_field \<Rightarrow> nat \<Rightarrow> 8 word list" where
  "field_head f n = w32_bytes (field_id32 f) @ (if field_size32 f = 0 then w32_bytes (of_nat n) else [])"

definition field_bytes :: "p7_spec_field \<times> 8 word list \<Rightarrow> 8 word list" where
  "field_bytes = (\<lambda>(f, v). field_head f (length v) @ v)"

definition wire :: "(p7_spec_field \<times> 8 word list) list \<Rightarrow> 8 word list" where
  "wire fs = concat (map field_bytes fs)"

definition field_wf :: "p7_spec option \<Rightarrow> p7_spec \<Rightarrow> p7_spec_field \<times> 8 word list \<Rightarrow> bool" where
  "field_wf builtin spec = (\<lambda>(f, v).
     wi_p7_spec_field_with_id builtin spec (ucast (field_id32 f)) = Some f \<and>
     length v < 2 ^ 32 \<and> (field_size32 f \<noteq> 0 \<longrightarrow> length v = unat (field_size32 f)))"

definition holds :: "p7_spec option \<Rightarrow> p7_spec \<Rightarrow> p7_binary \<Rightarrow> (p7_spec_field \<times> 8 word list) list \<Rightarrow> bool" where
  "holds builtin spec m fs \<longleftrightarrow>
     length (pb_buffer m) < 2 ^ 32 \<and> 4 + length (wire fs) \<le> length (pb_buffer m) \<and>
     pb_size m = of_nat (4 + length (wire fs)) \<and>
     take (4 + length (wire fs)) (pb_buffer m) = w32_bytes (pb_id m) @ wire fs \<and>
     (\<forall>x \<in> set fs. field_wf builtin spec x)"

text \<open>Where the first field with an id has its value, and the value.\<close>

fun wire_pos :: "32 word \<Rightarrow> nat \<Rightarrow> (p7_spec_field \<times> 8 word list) list \<Rightarrow> (nat \<times> 8 word list) option" where
  "wire_pos fid off [] = None"
| "wire_pos fid off ((f, v) # fs) =
     (if field_id32 f = fid then Some (off + length (field_head f (length v)), v)
      else wire_pos fid (off + length (field_bytes (f, v))) fs)"

definition wire_value :: "(p7_spec_field \<times> 8 word list) list \<Rightarrow> 32 word \<Rightarrow> 8 word list option" where
  "wire_value fs fid = map_of (map (\<lambda>(f, v). (field_id32 f, v)) fs) fid"

lemma wire_simps [simp]:
  "wire [] = []"
  "wire (x # fs) = field_bytes x @ wire fs"
  "wire (fs @ gs) = wire fs @ wire gs"
  by (simp_all add: wire_def)

lemma wire_pos_value: "map_option snd (wire_pos fid off fs) = wire_value fs fid"
  by (induction fid off fs rule: wire_pos.induct) (auto simp: wire_value_def)

lemma wire_pos_bytes:
  "wire_pos fid (length p) fs = Some (o', v) \<Longrightarrow>
     o' + length v \<le> length (p @ wire fs) \<and> take (length v) (drop o' (p @ wire fs)) = v"
proof (induction fs arbitrary: p)
  case (Cons x fs)
  obtain f u where x: "x = (f, u)" by (cases x)
  show ?case
  proof (cases "field_id32 f = fid")
    case True
    with Cons.prems x show ?thesis by (auto simp: field_bytes_def)
  next
    case False
    with Cons.prems x have "wire_pos fid (length (p @ field_bytes (f, u))) fs = Some (o', v)" by simp
    from Cons.IH [OF this] show ?thesis by (simp add: x)
  qed
qed simp

subsection \<open>Reading\<close>

lemma holds_load:
  assumes "holds b s m fs" "i + n \<le> length (wire fs)"
  shows "p7_load (pb_buffer m) (4 + i) n = Inr (take n (drop i (wire fs)))"
proof -
  have "take n (drop (4 + i) (pb_buffer m)) = take n (drop (4 + i) (take (4 + length (wire fs)) (pb_buffer m)))"
    using assms(2) by (simp add: drop_take min_def)
  also have "\<dots> = take n (drop i (wire fs))" using assms(1) by (simp add: holds_def)
  finally show ?thesis using assms by (simp add: p7_load_def holds_def)
qed

lemma holds_message_size:
  assumes "holds b s m fs"
  shows "p7_message_size m = of_nat (length (wire fs))" "length (wire fs) < 2 ^ 32"
  using assms by (auto simp: holds_def p7_message_size_def WI_P7_MESSAGE_BINARY_HEADER_SIZE_def)

lemma read_head_at:
  assumes h: "holds b s m (pre @ (f, v) # post)"
  shows "p7_read_head b s m (length (wire pre)) =
     Inr (Some (field_id32 f, length (wire pre) + length (field_head f (length v)), of_nat (length v)))"
proof -
  let ?w = "wire (pre @ (f, v) # post)" and ?off = "length (wire pre)"
  note sz = holds_message_size [OF h]
  have len: "?off + length (field_bytes (f, v)) \<le> length ?w" by simp
  have wf: "field_wf b s (f, v)" using h by (simp add: holds_def)
  have un: "unat (of_nat k :: 32 word) = k" if "k \<le> length ?w" for k
    using that sz(2) by (simp add: unat_of_nat take_bit_nat_eq_self)
  have fid: "wi_read_swap_big_to_host_int32 (pb_buffer m) (4 + ?off) = Inr (field_id32 f)"
    using holds_load [OF h, of ?off 4] len
    by (simp add: wi_read_swap_big_to_host_int32_def field_bytes_def field_head_def)
  show ?thesis
  proof (cases "field_size32 f = 0")
    case True
    then have l8: "?off + 8 \<le> length ?w" using len by (simp add: field_bytes_def field_head_def)
    have "wi_read_swap_big_to_host_int32 (pb_buffer m) (4 + (?off + 4)) = Inr (of_nat (length v))"
      using holds_load [OF h, of "?off + 4" 4] l8 True
      by (simp add: wi_read_swap_big_to_host_int32_def field_bytes_def field_head_def)
    with True fid wf l8 un [of ?off] un [of "?off + 4"] un [of "length ?w"] show ?thesis
      by (simp add: p7_read_head_def WI_P7_MESSAGE_BINARY_HEADER_SIZE_def sz field_wf_def field_size32_def
          field_head_def)
  next
    case False
    have l4: "?off + 4 \<le> length ?w" using len by (simp add: field_bytes_def field_head_def)
    with False fid wf un [of ?off] un [of "length ?w"] show ?thesis
      by (simp add: p7_read_head_def WI_P7_MESSAGE_BINARY_HEADER_SIZE_def sz field_wf_def field_size32_def
          field_head_def)
  qed
qed

lemma unat_of_nat32: "k < 2 ^ 32 \<Longrightarrow> unat (of_nat k :: 32 word) = k"
  by (simp add: unat_of_nat take_bit_nat_eq_self)

lemma wire_field_length: "0 < length (field_bytes x)"
  by (cases x) (simp add: field_bytes_def field_head_def)

lemma reading_from:
  assumes "holds b s m (pre @ fs)"
  shows "wi_p7_message_get_binary_buffer_for_reading_from b s m fid (length (wire pre)) =
     Inr (map_option (\<lambda>(o', v). (4 + o', of_nat (length v))) (wire_pos fid (length (wire pre)) fs))"
  using assms
proof (induction fs arbitrary: pre)
  case Nil
  with holds_message_size [OF Nil] show ?case
    by (subst wi_p7_message_get_binary_buffer_for_reading_from.simps) simp
next
  case (Cons x fs)
  obtain f v where x: "x = (f, v)" by (cases x)
  let ?off = "length (wire pre)" and ?w = "wire (pre @ x # fs)"
  note sz = holds_message_size [OF Cons.prems]
  have un: "unat (of_nat k :: 32 word) = k" if "k \<le> length ?w" for k
    using that sz(2) by (simp add: unat_of_nat take_bit_nat_eq_self)
  have less: "(of_nat ?off :: 32 word) < p7_message_size m"
    unfolding sz(1) word_less_nat_alt using un [of ?off] un [of "length ?w"] wire_field_length [of x] by simp
  note head = read_head_at [OF Cons.prems [unfolded x]]
  have ends: "\<not> of_nat (?off + length (field_head f (length v))) + of_nat (length v) > p7_message_size m"
  proof -
    have "of_nat (?off + length (field_head f (length v))) + (of_nat (length v) :: 32 word) =
        of_nat (?off + length (field_bytes (f, v)))"
      by (simp add: field_bytes_def)
    moreover have "?off + length (field_bytes (f, v)) \<le> length ?w" by (simp add: x)
    ultimately show ?thesis
      by (simp only: sz(1) not_less word_le_nat_alt un order.refl)
  qed
  have v: "unat (of_nat (length v) :: 32 word) = length v"
    using Cons.prems by (intro unat_of_nat32) (simp add: holds_def field_wf_def x)
  have next_off: "?off + length (field_head f (length v)) + length v = length (wire (pre @ [x]))"
    by (simp add: x field_bytes_def)
  have "holds b s m ((pre @ [x]) @ fs)" using Cons.prems by simp
  note IH = Cons.IH [OF this]
  show ?case
    by (subst wi_p7_message_get_binary_buffer_for_reading_from.simps)
      (simp only: less if_True head p7_bind_simps option.case prod.case WI_P7_MESSAGE_BINARY_HEADER_SIZE_def
        ends if_False v next_off [unfolded x] IH [unfolded x] x wire_pos.simps,
       simp add: field_bytes_def x)
qed

lemma reading_for_id:
  assumes "holds b s m fs"
  shows "wi_p7_message_get_binary_buffer_for_reading_for_id b s m fid =
     Inr (map_option (\<lambda>(o', v). (4 + o', of_nat (length v))) (wire_pos fid 0 fs))"
  using reading_from [of b s m "[]" fs fid] assms
  by (simp add: wi_p7_message_get_binary_buffer_for_reading_for_id_def)

text \<open>Reading a field by its name: the value is passed on at its place in the buffer.\<close>

lemma read_field:
  assumes h: "holds b s m fs" and f: "wi_p7_spec_field_with_name b s name = Some f"
    and step: "\<And>o' v. wire_value fs (field_id32 f) = Some v \<Longrightarrow> length v < 2 ^ 32 \<Longrightarrow>
      (\<And>i n. i + n \<le> length v \<Longrightarrow> p7_load (pb_buffer m) (o' + i) n = Inr (take n (drop i v))) \<Longrightarrow>
      g o' (of_nat (length v)) = Inr (h' v)"
  shows "p7_read_field b s m name g = Inr (map_option h' (wire_value fs (field_id32 f)))"
proof (cases "wire_pos (field_id32 f) 0 fs")
  case None
  with f reading_for_id [OF h] wire_pos_value [of "field_id32 f" 0 fs, symmetric] show ?thesis
    by (simp add: p7_read_field_def wi_p7_message_get_binary_buffer_for_reading_for_name_def field_id32_def)
next
  case (Some r)
  then obtain o' v where r: "wire_pos (field_id32 f) 0 fs = Some (o', v)" by (cases r) auto
  with wire_pos_value [of "field_id32 f" 0 fs] have v: "wire_value fs (field_id32 f) = Some v" by simp
  note at = wire_pos_bytes [of "field_id32 f" "[]" fs, simplified, OF r]
  have "length v < 2 ^ 32" using at holds_message_size(2) [OF h] by linarith
  moreover have "p7_load (pb_buffer m) (4 + o' + i) n = Inr (take n (drop i v))" if "i + n \<le> length v" for i n
  proof -
    have "take n (drop (o' + i) (wire fs)) = take n (drop i (take (length v) (drop o' (wire fs))))"
      using that by (simp add: drop_take add.commute)
    with holds_load [OF h, of "o' + i" n] at that show ?thesis by (simp add: add.assoc)
  qed
  ultimately have "g (4 + o') (of_nat (length v)) = Inr (h' v)" using step v by blast
  with f reading_for_id [OF h] r v show ?thesis
    by (simp add: p7_read_field_def wi_p7_message_get_binary_buffer_for_reading_for_name_def field_id32_def)
qed

subsection \<open>Writing\<close>

lemma wire_pos_None: "wire_pos fid off fs = None \<longleftrightarrow> wire_value fs fid = None"
  using wire_pos_value [of fid off fs] by (metis option.map_disc_iff)

definition grow :: "(nat \<Rightarrow> 8 word) \<Rightarrow> 8 word list \<Rightarrow> nat \<Rightarrow> 8 word list" where
  "grow junk buf n = (if length buf < n then p7_realloc junk buf n else buf)"

lemma grow [simp]:
  "length (grow junk buf n) = max (length buf) n"
  "k \<le> length buf \<Longrightarrow> take k (grow junk buf n) = take k buf"
  by (auto simp: grow_def p7_realloc_def)

lemma writing_for_name:
  assumes h: "holds b s m fs" and f: "wi_p7_spec_field_with_name b s name = Some f"
    and wf: "field_wf b s (f, v)" and room: "4 + length (wire (fs @ [(f, v)])) < 2 ^ 32"
    and len: "field_size32 f = 0 \<longrightarrow> len = of_nat (length v)"
  shows "wi_p7_message_get_binary_buffer_for_writing_for_name junk b s m name len =
     Inr (if wire_value fs (field_id32 f) = None
          then Some (4 + length (wire fs), field_id32 f,
                 m\<lparr>pb_buffer := grow junk (pb_buffer m) (4 + length (wire (fs @ [(f, v)]))),
                   pb_size := of_nat (4 + length (wire (fs @ [(f, v)])))\<rparr>)
          else None)"
proof -
  let ?n = "4 + length (wire fs)" and ?n' = "4 + length (wire (fs @ [(f, v)]))"
  let ?new = "if field_size32 f = 0 then 4 + 4 + len else 4 + field_size32 f"
  have lens: "length (pb_buffer m) < 2 ^ 32" "?n \<le> length (pb_buffer m)" "pb_size m = of_nat ?n"
    using h by (simp_all add: holds_def)
  have "?new = of_nat (length (field_bytes (f, v)))"
  proof (cases "field_size32 f = 0")
    case True
    with len show ?thesis by (simp add: field_bytes_def field_head_def)
  next
    case False
    with wf have "(of_nat (length v) :: 32 word) = field_size32 f" by (simp add: field_wf_def)
    with False show ?thesis by (simp add: field_bytes_def field_head_def)
  qed
  then have new: "pb_size m + ?new = of_nat ?n'" by (simp add: lens(3))
  have un: "unat (of_nat ?n' :: 32 word) = ?n'" "unat (of_nat ?n :: 32 word) = ?n"
    "unat (of_nat (length (pb_buffer m)) :: 32 word) = length (pb_buffer m)"
    by (rule unat_of_nat32; use room lens in linarith)+
  have grown: "(if pb_size m + ?new > of_nat (length (pb_buffer m))
        then p7_realloc junk (pb_buffer m) (unat (pb_size m + ?new)) else pb_buffer m) =
      grow junk (pb_buffer m) ?n'"
    unfolding new grow_def word_less_nat_alt un ..
  have known: "wi_p7_spec_field_with_id b s (ucast (field_id32 f)) = Some f" using wf by (simp add: field_wf_def)
  have "wi_p7_message_get_binary_buffer_for_writing_for_id junk b s m (field_id32 f) len =
     Inr (if wire_value fs (field_id32 f) = None
          then Some (?n, m\<lparr>pb_buffer := grow junk (pb_buffer m) ?n', pb_size := of_nat ?n'\<rparr>) else None)"
    unfolding wi_p7_message_get_binary_buffer_for_writing_for_id_def known option.case Let_def
      reading_for_id [OF h] p7_bind_simps field_size32_def [symmetric] grown
    unfolding new unfolding lens(3) un
    using wire_pos_None [of "field_id32 f" 0 fs] by simp
  with f show ?thesis
    by (simp add: wi_p7_message_get_binary_buffer_for_writing_for_name_def field_id32_def [symmetric])
qed

lemma write_field:
  assumes h: "holds b s m fs" and f: "wi_p7_spec_field_with_name b s name = Some f"
    and wf: "field_wf b s (f, v)" and room: "4 + length (wire (fs @ [(f, v)])) < 2 ^ 32"
    and len: "field_size32 f = 0 \<longrightarrow> len = of_nat (length v)"
    and bytes: "w32_bytes (field_id32 f) @ bytes = field_bytes (f, v)"
  shows "wire_value fs (field_id32 f) = None \<Longrightarrow>
      \<exists>m'. p7_write_field junk b s m name len bytes = Inr (Some m') \<and> holds b s m' (fs @ [(f, v)]) \<and>
        pb_id m' = pb_id m \<and> pb_name m' = pb_name m"
    and "wire_value fs (field_id32 f) \<noteq> None \<Longrightarrow> p7_write_field junk b s m name len bytes = Inr None"
proof -
  note w = writing_for_name [OF h f wf room len, of junk]
  show "p7_write_field junk b s m name len bytes = Inr None" if "wire_value fs (field_id32 f) \<noteq> None"
    unfolding p7_write_field_def w using that by (simp only: if_False p7_bind_simps option.case)
  assume new: "wire_value fs (field_id32 f) = None"
  let ?n = "4 + length (wire fs)" and ?n' = "4 + length (wire (fs @ [(f, v)]))"
  let ?buf = "grow junk (pb_buffer m) ?n'"
  let ?new = "take ?n ?buf @ field_bytes (f, v) @ drop (?n + length (field_bytes (f, v))) ?buf"
  have "p7_store ?buf ?n (w32_bytes (field_id32 f) @ bytes) = Inr ?new"
    unfolding bytes by (simp add: p7_store_def)
  with w new have res: "p7_write_field junk b s m name len bytes =
      Inr (Some (m\<lparr>pb_buffer := ?new, pb_size := of_nat ?n'\<rparr>))"
    by (simp add: p7_write_field_def)
  have lens: "length (pb_buffer m) < 2 ^ 32" "?n \<le> length (pb_buffer m)"
    and start: "take ?n (pb_buffer m) = w32_bytes (pb_id m) @ wire fs"
    and ok: "\<forall>x \<in> set fs. field_wf b s x"
    using h by (simp_all add: holds_def)
  have l: "length ?new = max (length (pb_buffer m)) ?n'" using lens by simp
  moreover have "take ?n' ?new = w32_bytes (pb_id m) @ wire (fs @ [(f, v)])" using lens start by simp
  ultimately have "holds b s (m\<lparr>pb_buffer := ?new, pb_size := of_nat ?n'\<rparr>) (fs @ [(f, v)])"
    using lens(1) room ok wf unfolding holds_def by (simp del: wire_simps)
  with res show "\<exists>m'. p7_write_field junk b s m name len bytes = Inr (Some m') \<and>
      holds b s m' (fs @ [(f, v)]) \<and> pb_id m' = pb_id m \<and> pb_name m' = pb_name m"
    by auto
qed

text \<open>A fresh message holds no fields.\<close>

lemma init_with_name_holds:
  assumes "wi_p7_spec_message_with_name b s name = Some sm"
  shows "\<exists>m. wi_p7_message_init_with_name junk b s name = Inr (Some m) \<and> holds b s m [] \<and>
     pb_id m = ucast (sm_id sm) \<and> pb_name m = Some name"
  using assms
  by (simp add: wi_p7_message_init_with_name_def wi_p7_message_set_name_def holds_def p7_store_def
      wi_write_swap_host_to_big_int32_def WI_P7_MESSAGE_BINARY_BUFFER_INITIAL_SIZE_def
      WI_P7_MESSAGE_BINARY_HEADER_SIZE_def)

subsection \<open>Typed values\<close>

text \<open>
  A value with the type of its field. A field with one of the standard types has the size that the
  built-in specification gives the type.
\<close>

datatype p7_typed =
    PV_Bool bool
  | PV_Int32 "32 word"
  | PV_Int64 "64 word"
  | PV_String string
  | PV_UUID "8 word list"
  | PV_Data "8 word list"
  | PV_List "string list"

fun typed_bytes :: "p7_typed \<Rightarrow> 8 word list" where
  "typed_bytes (PV_Bool v) = [if v then 1 else 0]"
| "typed_bytes (PV_Int32 v) = w32_bytes v"
| "typed_bytes (PV_Int64 v) = w64_bytes v"
| "typed_bytes (PV_String s) = cstring_bytes s"
| "typed_bytes (PV_UUID u) = u"
| "typed_bytes (PV_Data d) = d"
| "typed_bytes (PV_List l) = concat (map list_item_bytes l)"

definition field_type :: "p7_spec_field \<Rightarrow> 64 word" where
  "field_type f = pt_id (pf_type f)"

definition list_of_strings :: "p7_spec_field \<Rightarrow> bool" where
  "list_of_strings f \<longleftrightarrow> (case pf_listtype f of Some t \<Rightarrow> pt_id t = WI_P7_STRING | None \<Rightarrow> False)"

fun typed_ok :: "p7_spec_field \<Rightarrow> p7_typed \<Rightarrow> bool" where
  "typed_ok f (PV_Bool v) \<longleftrightarrow> field_type f = WI_P7_BOOL \<and> field_size32 f = 1"
| "typed_ok f (PV_Int32 v) \<longleftrightarrow> field_type f \<in> {WI_P7_ENUM, WI_P7_INT32, WI_P7_UINT32} \<and> field_size32 f = 4"
| "typed_ok f (PV_Int64 v) \<longleftrightarrow>
     field_type f \<in> {WI_P7_INT64, WI_P7_UINT64, WI_P7_DOUBLE, WI_P7_DATE, WI_P7_OOBDATA} \<and> field_size32 f = 8"
| "typed_ok f (PV_String s) \<longleftrightarrow> field_type f = WI_P7_STRING \<and> field_size32 f = 0"
| "typed_ok f (PV_UUID u) \<longleftrightarrow> field_type f = WI_P7_UUID \<and> field_size32 f = 16 \<and> length u = 16"
| "typed_ok f (PV_Data d) \<longleftrightarrow> field_type f = WI_P7_DATA \<and> field_size32 f = 0"
| "typed_ok f (PV_List l) \<longleftrightarrow> field_type f = WI_P7_LIST \<and> field_size32 f = 0 \<and> list_of_strings f"

text \<open>The setter and the getter for a value of each type, as the callers choose them.\<close>

fun p7_put ::
  "(nat \<Rightarrow> 8 word) \<Rightarrow> p7_spec option \<Rightarrow> p7_spec \<Rightarrow> p7_binary \<Rightarrow> p7_typed \<Rightarrow> string \<Rightarrow> p7_binary option p7_access" where
  "p7_put junk b s m (PV_Bool v) name = wi_p7_message_set_bool_for_name junk b s m v name"
| "p7_put junk b s m (PV_Int32 v) name = wi_p7_message_set_int32_for_name junk b s m v name"
| "p7_put junk b s m (PV_Int64 v) name = wi_p7_message_set_int64_for_name junk b s m v name"
| "p7_put junk b s m (PV_String v) name = wi_p7_message_set_string_for_name junk b s m (Some v) name"
| "p7_put junk b s m (PV_UUID v) name = wi_p7_message_set_uuid_for_name junk b s m (Some v) name"
| "p7_put junk b s m (PV_Data v) name = wi_p7_message_set_data_for_name junk b s m (Some v) name"
| "p7_put junk b s m (PV_List v) name = wi_p7_message_set_list_for_name junk b s m v name"

definition p7_lift :: "('a \<Rightarrow> p7_typed) \<Rightarrow> 'a option p7_access \<Rightarrow> p7_typed option p7_access" where
  "p7_lift c r = p7_bind r (\<lambda>v. Inr (map_option c v))"

definition p7_get :: "p7_spec option \<Rightarrow> p7_spec \<Rightarrow> p7_binary \<Rightarrow> p7_spec_field \<Rightarrow> string \<Rightarrow> p7_typed option p7_access" where
  "p7_get b s m f name =
     (if field_type f = WI_P7_BOOL then p7_lift PV_Bool (wi_p7_message_get_bool_for_name b s m name)
      else if field_type f \<in> {WI_P7_ENUM, WI_P7_INT32, WI_P7_UINT32} then
        p7_lift PV_Int32 (wi_p7_message_get_int32_for_name b s m name)
      else if field_type f \<in> {WI_P7_INT64, WI_P7_UINT64, WI_P7_DOUBLE, WI_P7_DATE, WI_P7_OOBDATA} then
        p7_lift PV_Int64 (wi_p7_message_get_int64_for_name b s m name)
      else if field_type f = WI_P7_STRING then p7_lift PV_String (wi_p7_message_string_for_name b s m name)
      else if field_type f = WI_P7_UUID then p7_lift PV_UUID (wi_p7_message_uuid_for_name b s m name)
      else if field_type f = WI_P7_DATA then p7_lift PV_Data (wi_p7_message_data_for_name b s m name)
      else p7_lift PV_List (wi_p7_message_list_for_name b s m name))"

lemmas p7_type_ids = WI_P7_BOOL_def WI_P7_ENUM_def WI_P7_INT32_def WI_P7_UINT32_def WI_P7_INT64_def
  WI_P7_UINT64_def WI_P7_DOUBLE_def WI_P7_STRING_def WI_P7_UUID_def WI_P7_DATE_def WI_P7_DATA_def
  WI_P7_OOBDATA_def WI_P7_LIST_def

lemma length_cstring_bytes [simp]: "length (cstring_bytes s) = length s + 1"
  by (simp add: cstring_bytes_def)

lemma length_list_item_bytes: "length (list_item_bytes s) = 4 + length s + 1"
  by (simp add: list_item_bytes_def)

lemma length_list_bytes: "length (concat (map list_item_bytes l)) = sum_list (map (\<lambda>s. 4 + length s + 1) l)"
  by (simp add: length_concat comp_def length_list_item_bytes)

lemma typed_wf:
  assumes "wi_p7_spec_field_with_id b s (ucast (field_id32 f)) = Some f" "typed_ok f v"
    and "length (typed_bytes v) < 2 ^ 32"
  shows "field_wf b s (f, typed_bytes v)"
  using assms by (cases v) (auto simp: field_wf_def)

lemma put_field:
  assumes h: "holds b s m fs" and f: "wi_p7_spec_field_with_name b s name = Some f"
    and id: "wi_p7_spec_field_with_id b s (ucast (field_id32 f)) = Some f" and ok: "typed_ok f v"
    and room: "4 + length (wire (fs @ [(f, typed_bytes v)])) < 2 ^ 32"
  shows "wire_value fs (field_id32 f) = None \<Longrightarrow>
      \<exists>m'. p7_put junk b s m v name = Inr (Some m') \<and> holds b s m' (fs @ [(f, typed_bytes v)]) \<and>
        pb_id m' = pb_id m \<and> pb_name m' = pb_name m"
    and "wire_value fs (field_id32 f) \<noteq> None \<Longrightarrow> p7_put junk b s m v name = Inr None"
proof -
  have lv: "length (typed_bytes v) < 2 ^ 32" using room by (simp add: field_bytes_def)
  note wf = typed_wf [OF id ok lv]
  obtain len bytes where p: "p7_put junk b s m v name = p7_write_field junk b s m name len bytes"
    and len: "field_size32 f = 0 \<longrightarrow> len = of_nat (length (typed_bytes v))"
    and bytes: "w32_bytes (field_id32 f) @ bytes = field_bytes (f, typed_bytes v)"
  proof (cases v)
    case (PV_String st)
    have "unat (of_nat (length st + 1) :: 32 word) = length st + 1"
      using lv PV_String by (intro unat_of_nat32) simp
    with PV_String ok show ?thesis
      by (intro that [of "of_nat (length st + 1)" "w32_bytes (of_nat (length st + 1)) @ cstring_bytes st"])
        (simp_all add: wi_p7_message_set_string_for_name_def Let_def field_bytes_def field_head_def)
  next
    case (PV_Data d)
    have "unat (of_nat (length d) :: 32 word) = length d" using lv PV_Data by (intro unat_of_nat32) simp
    with PV_Data ok show ?thesis
      by (intro that [of "of_nat (length d)" "w32_bytes (of_nat (length d)) @ d"])
        (simp_all add: wi_p7_message_set_data_for_name_def Let_def field_bytes_def field_head_def)
  next
    case (PV_List l)
    with ok show ?thesis
      by (intro that [of "of_nat (length (typed_bytes v))" "w32_bytes (of_nat (length (typed_bytes v))) @ typed_bytes v"])
        (simp_all add: wi_p7_message_set_list_for_name_def Let_def field_bytes_def field_head_def length_list_bytes)
  qed (use ok in \<open>auto simp: field_bytes_def field_head_def wi_p7_message_set_bool_for_name_def
        wi_p7_message_set_int32_for_name_def wi_p7_message_set_int64_for_name_def
        wi_p7_message_set_uuid_for_name_def intro!: that\<close>)
  show "wire_value fs (field_id32 f) = None \<Longrightarrow>
      \<exists>m'. p7_put junk b s m v name = Inr (Some m') \<and> holds b s m' (fs @ [(f, typed_bytes v)]) \<and>
        pb_id m' = pb_id m \<and> pb_name m' = pb_name m"
    and "wire_value fs (field_id32 f) \<noteq> None \<Longrightarrow> p7_put junk b s m v name = Inr None"
    unfolding p using write_field [OF h f wf room len bytes] by blast+
qed

lemma chars_cstring: "map byte_char (take (length s) (cstring_bytes s @ r)) = s"
  by (simp add: cstring_bytes_def comp_def)

lemma read_list:
  assumes "\<And>i n. i + n \<le> length V \<Longrightarrow> p7_load buf (off + i) n = Inr (take n (drop i V))"
    and "V = pre @ concat (map list_item_bytes l)" "length V < 2 ^ 32"
  shows "p7_read_list buf off (length V) (length pre) = Inr l"
  using assms(2)
proof (induction l arbitrary: pre)
  case Nil
  then show ?case by (subst p7_read_list.simps) simp
next
  case (Cons st l)
  let ?rest = "concat (map list_item_bytes l)"
  have V: "V = pre @ w32_bytes (of_nat (length st + 1)) @ cstring_bytes st @ ?rest"
    using Cons.prems unfolding list_item_bytes_def [of st] list.map concat.simps by simp
  have un: "unat (of_nat (length st + 1) :: 32 word) = length st + 1"
    using assms(3) V by (intro unat_of_nat32) simp
  then have un1: "unat (of_nat (length st + 1) - 1 :: 32 word) = length st"
    using assms(3) V by (simp add: unat_of_nat32)
  have "length pre < length V" using V by simp
  moreover have "wi_read_swap_big_to_host_int32 buf (off + length pre) = Inr (of_nat (length st + 1))"
    using assms(1) [of "length pre" 4] V by (simp add: wi_read_swap_big_to_host_int32_def)
  moreover have "p7_load buf (off + (length pre + 4)) (length st) = Inr (take (length st) (cstring_bytes st @ ?rest))"
    using assms(1) [of "length pre + 4" "length st"] V by simp
  moreover have "p7_read_list buf off (length V) (length pre + 4 + (length st + 1)) = Inr l"
  proof -
    have "length (pre @ list_item_bytes st) = length pre + 4 + (length st + 1)"
      by (simp add: length_list_item_bytes)
    with Cons.IH [of "pre @ list_item_bytes st"] Cons.prems show ?thesis by (simp del: length_append)
  qed
  ultimately show ?case
    by (subst p7_read_list.simps) (simp only: if_True p7_bind_simps un un1 chars_cstring)
qed

text \<open>The value that the bytes of a field stand for.\<close>

definition typed_value :: "p7_spec_field \<Rightarrow> 8 word list \<Rightarrow> p7_typed" where
  "typed_value f u =
     (if field_type f = WI_P7_BOOL then PV_Bool (hd u = 1)
      else if field_type f \<in> {WI_P7_ENUM, WI_P7_INT32, WI_P7_UINT32} then PV_Int32 (bytes_w32 u)
      else if field_type f \<in> {WI_P7_INT64, WI_P7_UINT64, WI_P7_DOUBLE, WI_P7_DATE, WI_P7_OOBDATA} then
        PV_Int64 (bytes_w64 u)
      else if field_type f = WI_P7_STRING then PV_String (map byte_char (take (length u - 1) u))
      else if field_type f = WI_P7_UUID then PV_UUID u
      else if field_type f = WI_P7_DATA then PV_Data u
      else PV_List (case p7_read_list u 0 (length u) 0 of Inr l \<Rightarrow> l | Inl _ \<Rightarrow> []))"

lemma read_list_value:
  assumes "length (concat (map list_item_bytes l)) < 2 ^ 32"
  shows "p7_read_list (concat (map list_item_bytes l)) 0 (length (concat (map list_item_bytes l))) 0 = Inr l"
  using read_list [of "concat (map list_item_bytes l)" "concat (map list_item_bytes l)" 0 "[]" l] assms
  by (simp add: p7_load_def)

lemma typed_value_bytes:
  assumes "typed_ok f v" "length (typed_bytes v) < 2 ^ 32"
  shows "typed_value f (typed_bytes v) = v"
proof (cases v)
  case (PV_String s)
  with assms chars_cstring [of s "[]"] show ?thesis by (auto simp: typed_value_def p7_type_ids)
next
  case (PV_List l)
  with assms read_list_value [of l] show ?thesis by (auto simp: typed_value_def p7_type_ids)
qed (use assms in \<open>auto simp: typed_value_def p7_type_ids\<close>)

lemma get_value:
  assumes h: "holds b s m fs" and f: "wi_p7_spec_field_with_name b s name = Some f"
    and std: "typed_ok f v0"
    and vals: "\<And>u. wire_value fs (field_id32 f) = Some u \<Longrightarrow> \<exists>v. typed_ok f v \<and> u = typed_bytes v"
  shows "p7_get b s m f name = Inr (map_option (typed_value f) (wire_value fs (field_id32 f)))"
proof -
  note unfold = p7_get_def p7_lift_def typed_value_def [abs_def] option.map_comp comp_def p7_type_ids
  have read: "p7_read_field b s m name g = Inr (map_option h' (wire_value fs (field_id32 f)))"
    if "\<And>o' v. typed_ok f v \<Longrightarrow> length (typed_bytes v) < 2 ^ 32 \<Longrightarrow>
      (\<And>i n. i + n \<le> length (typed_bytes v) \<Longrightarrow>
         p7_load (pb_buffer m) (o' + i) n = Inr (take n (drop i (typed_bytes v)))) \<Longrightarrow>
      g o' (of_nat (length (typed_bytes v))) = Inr (h' (typed_bytes v))"
    for g :: "nat \<Rightarrow> 32 word \<Rightarrow> 'a p7_access" and h'
    by (rule read_field [OF h f]) (use that vals in blast)
  show ?thesis
  proof (cases v0)
    case (PV_Bool x)
    with std have t: "field_type f = 1" by (simp add: p7_type_ids)
    have "wi_p7_message_get_bool_for_name b s m name = Inr (map_option (\<lambda>u. hd u = 1) (wire_value fs (field_id32 f)))"
      unfolding wi_p7_message_get_bool_for_name_def
    proof (rule read)
      fix o' v
      assume "typed_ok f v" and l: "\<And>i n. i + n \<le> length (typed_bytes v) \<Longrightarrow>
         p7_load (pb_buffer m) (o' + i) n = Inr (take n (drop i (typed_bytes v)))"
      then have "length (typed_bytes v) = 1" using t by (cases v) (auto simp: p7_type_ids)
      with l [of 0 1] show "p7_bind (p7_load (pb_buffer m) o' 1) (\<lambda>bs. Inr (hd bs = 1)) = Inr (hd (typed_bytes v) = 1)"
        by simp
    qed
    with t show ?thesis by (simp add: unfold)
  next
    case (PV_Int32 x)
    with std have t: "field_type f \<in> {2, 3, 4}" by (simp add: p7_type_ids)
    have "wi_p7_message_get_int32_for_name b s m name = Inr (map_option bytes_w32 (wire_value fs (field_id32 f)))"
      unfolding wi_p7_message_get_int32_for_name_def
    proof (rule read)
      fix o' v
      assume "typed_ok f v" and l: "\<And>i n. i + n \<le> length (typed_bytes v) \<Longrightarrow>
         p7_load (pb_buffer m) (o' + i) n = Inr (take n (drop i (typed_bytes v)))"
      then have "length (typed_bytes v) = 4" using t by (cases v) (auto simp: p7_type_ids)
      with l [of 0 4] show "wi_read_swap_big_to_host_int32 (pb_buffer m) o' = Inr (bytes_w32 (typed_bytes v))"
        by (simp add: wi_read_swap_big_to_host_int32_def)
    qed
    with t show ?thesis by (auto simp: unfold)
  next
    case (PV_Int64 x)
    with std have t: "field_type f \<in> {5, 6, 7, 10, 12}" by (simp add: p7_type_ids)
    have "wi_p7_message_get_int64_for_name b s m name = Inr (map_option bytes_w64 (wire_value fs (field_id32 f)))"
      unfolding wi_p7_message_get_int64_for_name_def
    proof (rule read)
      fix o' v
      assume "typed_ok f v" and l: "\<And>i n. i + n \<le> length (typed_bytes v) \<Longrightarrow>
         p7_load (pb_buffer m) (o' + i) n = Inr (take n (drop i (typed_bytes v)))"
      then have "length (typed_bytes v) = 8" using t by (cases v) (auto simp: p7_type_ids)
      with l [of 0 8] show "wi_read_swap_big_to_host_int64 (pb_buffer m) o' = Inr (bytes_w64 (typed_bytes v))"
        by (simp add: wi_read_swap_big_to_host_int64_def)
    qed
    with t show ?thesis by (auto simp: unfold)
  next
    case (PV_String x)
    with std have t: "field_type f = 8" by (simp add: p7_type_ids)
    have "wi_p7_message_string_for_name b s m name =
        Inr (map_option (\<lambda>u. map byte_char (take (length u - 1) u)) (wire_value fs (field_id32 f)))"
      unfolding wi_p7_message_string_for_name_def
    proof (rule read)
      fix o' v
      assume ok: "typed_ok f v" and lv: "length (typed_bytes v) < 2 ^ 32"
        and l: "\<And>i n. i + n \<le> length (typed_bytes v) \<Longrightarrow>
         p7_load (pb_buffer m) (o' + i) n = Inr (take n (drop i (typed_bytes v)))"
      obtain st where v: "v = PV_String st" using ok t by (cases v) (auto simp: p7_type_ids)
      have "unat (of_nat (length (typed_bytes v)) - 1 :: 32 word) = length (typed_bytes v) - 1"
        using lv unfolding v by (simp add: unat_of_nat32)
      with l [of 0 "length (typed_bytes v) - 1"]
      show "p7_bind (p7_load (pb_buffer m) o' (unat (of_nat (length (typed_bytes v)) - 1 :: 32 word)))
          (\<lambda>bs. Inr (map byte_char bs)) = Inr (map byte_char (take (length (typed_bytes v) - 1) (typed_bytes v)))"
        by simp
    qed
    with t show ?thesis by (simp add: unfold)
  next
    case (PV_UUID x)
    with std have t: "field_type f = 9" by (simp add: p7_type_ids)
    have "wi_p7_message_uuid_for_name b s m name = Inr (map_option (\<lambda>u. u) (wire_value fs (field_id32 f)))"
      unfolding wi_p7_message_uuid_for_name_def
    proof (rule read)
      fix o' v
      assume "typed_ok f v" and l: "\<And>i n. i + n \<le> length (typed_bytes v) \<Longrightarrow>
         p7_load (pb_buffer m) (o' + i) n = Inr (take n (drop i (typed_bytes v)))"
      then have "length (typed_bytes v) = 16" using t by (cases v) (auto simp: p7_type_ids)
      with l [of 0 16] show "p7_load (pb_buffer m) o' 16 = Inr (typed_bytes v)" by simp
    qed
    with t show ?thesis by (simp add: unfold)
  next
    case (PV_Data x)
    with std have t: "field_type f = 11" by (simp add: p7_type_ids)
    have "wi_p7_message_data_for_name b s m name = Inr (map_option (\<lambda>u. u) (wire_value fs (field_id32 f)))"
      unfolding wi_p7_message_data_for_name_def
    proof (rule read)
      fix o' v
      assume lv: "length (typed_bytes v) < 2 ^ 32" and l: "\<And>i n. i + n \<le> length (typed_bytes v) \<Longrightarrow>
         p7_load (pb_buffer m) (o' + i) n = Inr (take n (drop i (typed_bytes v)))"
      from l [of 0 "length (typed_bytes v)"] unat_of_nat32 [OF lv]
      show "p7_load (pb_buffer m) o' (unat (of_nat (length (typed_bytes v)) :: 32 word)) = Inr (typed_bytes v)" by simp
    qed
    with t show ?thesis by (simp add: unfold)
  next
    case (PV_List x)
    with std have t: "field_type f = 13" "list_of_strings f" by (simp_all add: p7_type_ids)
    have "p7_read_field b s m name (\<lambda>off size. p7_read_list (pb_buffer m) off (unat size) 0) =
        Inr (map_option (\<lambda>u. case p7_read_list u 0 (length u) 0 of Inr l \<Rightarrow> l | Inl _ \<Rightarrow> [])
          (wire_value fs (field_id32 f)))"
    proof (rule read)
      fix o' v
      assume ok: "typed_ok f v" and lv: "length (typed_bytes v) < 2 ^ 32"
        and l: "\<And>i n. i + n \<le> length (typed_bytes v) \<Longrightarrow>
         p7_load (pb_buffer m) (o' + i) n = Inr (take n (drop i (typed_bytes v)))"
      obtain ls where v: "v = PV_List ls" using ok t by (cases v) (auto simp: p7_type_ids)
      have "p7_read_list (pb_buffer m) o' (length (typed_bytes v)) (length ([] :: 8 word list)) = Inr ls"
        by (rule read_list) (use l v lv in auto)
      with read_list_value [of ls] lv v unat_of_nat32 [OF lv]
      show "p7_read_list (pb_buffer m) o' (unat (of_nat (length (typed_bytes v)) :: 32 word)) 0 =
          Inr (case p7_read_list (typed_bytes v) 0 (length (typed_bytes v)) 0 of Inr l \<Rightarrow> l | Inl _ \<Rightarrow> [])"
        by simp
    qed
    with t f show ?thesis
      by (simp add: unfold wi_p7_message_list_for_name_def list_of_strings_def split: option.splits)
  qed
qed

subsection \<open>Building, sending and reading\<close>

text \<open>Setting fields one after the other; a refused setting changes nothing.\<close>

fun p7_build ::
  "(nat \<Rightarrow> 8 word) \<Rightarrow> p7_spec option \<Rightarrow> p7_spec \<Rightarrow> p7_binary \<Rightarrow> (string \<times> p7_typed) list \<Rightarrow> p7_binary p7_access" where
  "p7_build junk b s m [] = Inr m"
| "p7_build junk b s m ((name, v) # vs) =
     p7_bind (p7_put junk b s m v name) (\<lambda>r. p7_build junk b s (case r of Some m' \<Rightarrow> m' | None \<Rightarrow> m) vs)"

text \<open>The settings that name a field twice are dropped, in the abstract.\<close>

fun first_settings :: "(string \<times> 'v) list \<Rightarrow> (string \<times> 'v) list \<Rightarrow> (string \<times> 'v) list" where
  "first_settings done [] = done"
| "first_settings done ((name, v) # vs) =
     first_settings (if map_of done name = None then done @ [(name, v)] else done) vs"

lemma map_of_first_settings: "map_of (first_settings d vs) name = (case map_of d name of Some v \<Rightarrow> Some v | None \<Rightarrow> map_of vs name)"
  by (induction d vs rule: first_settings.induct) (auto simp: map_of_append map_add_def split: option.splits)

definition setting_ok :: "p7_spec option \<Rightarrow> p7_spec \<Rightarrow> string \<times> p7_typed \<Rightarrow> bool" where
  "setting_ok b s = (\<lambda>(name, v). \<exists>f. wi_p7_spec_field_with_name b s name = Some f \<and> pf_name f = name \<and>
     wi_p7_spec_field_with_id b s (ucast (field_id32 f)) = Some f \<and> typed_ok f v)"

definition named_field :: "p7_spec option \<Rightarrow> p7_spec \<Rightarrow> string \<times> p7_typed \<Rightarrow> p7_spec_field \<times> 8 word list" where
  "named_field b s = (\<lambda>(name, v). (the (wi_p7_spec_field_with_name b s name), typed_bytes v))"

definition settings_size :: "(string \<times> p7_typed) list \<Rightarrow> nat" where
  "settings_size vs = sum_list (map (\<lambda>(name, v). 8 + length (typed_bytes v)) vs)"

lemma wire_length_settings: "length (wire (map (named_field b s) vs)) \<le> settings_size vs"
  by (induction vs) (auto simp: settings_size_def named_field_def field_bytes_def field_head_def)

lemma named_value:
  assumes "\<forall>x \<in> set vs. setting_ok b s x" "setting_ok b s (name, v0)"
    and "wi_p7_spec_field_with_name b s name = Some f"
  shows "wire_value (map (named_field b s) vs) (field_id32 f) = map_option typed_bytes (map_of vs name)"
  using assms(1)
proof (induction vs)
  case (Cons x vs)
  obtain n v where x: "x = (n, v)" by (cases x)
  with Cons.prems obtain g where g: "wi_p7_spec_field_with_name b s n = Some g" "pf_name g = n"
    "wi_p7_spec_field_with_id b s (ucast (field_id32 g)) = Some g" by (auto simp: setting_ok_def)
  from assms(2,3) have f: "pf_name f = name" "wi_p7_spec_field_with_id b s (ucast (field_id32 f)) = Some f"
    by (auto simp: setting_ok_def)
  have eq: "field_id32 g = field_id32 f \<longleftrightarrow> n = name"
  proof
    assume "field_id32 g = field_id32 f"
    then have "g = f" using f(2) g(3) by simp
    then show "n = name" using f(1) g(2) by simp
  next
    assume "n = name"
    then have "g = f" using g(1) assms(3) by simp
    then show "field_id32 g = field_id32 f" by simp
  qed
  have IH: "wire_value (map (named_field b s) vs) (field_id32 f) = map_option typed_bytes (map_of vs name)"
    using Cons by simp
  have nf: "named_field b s x = (g, typed_bytes v)" by (simp add: x named_field_def g(1))
  show ?case using IH eq unfolding wire_value_def list.map nf by (auto simp: x)
qed (simp add: wire_value_def)

lemma build:
  "holds b s m (map (named_field b s) d) \<Longrightarrow> \<forall>x \<in> set d. setting_ok b s x \<Longrightarrow> \<forall>x \<in> set vs. setting_ok b s x \<Longrightarrow>
   4 + settings_size (d @ vs) < 2 ^ 32 \<Longrightarrow>
   \<exists>m'. p7_build junk b s m vs = Inr m' \<and> holds b s m' (map (named_field b s) (first_settings d vs)) \<and>
     pb_id m' = pb_id m \<and> pb_name m' = pb_name m"
proof (induction vs arbitrary: m d)
  case (Cons x vs)
  obtain name v where x: "x = (name, v)" by (cases x)
  with Cons.prems(3) obtain f where f: "wi_p7_spec_field_with_name b s name = Some f"
    and id: "wi_p7_spec_field_with_id b s (ucast (field_id32 f)) = Some f" and ok: "typed_ok f v"
    and sok: "setting_ok b s (name, v)"
    by (auto simp: setting_ok_def)
  have nf: "named_field b s (name, v) = (f, typed_bytes v)" by (simp add: named_field_def f)
  have room: "4 + length (wire (map (named_field b s) d @ [(f, typed_bytes v)])) < 2 ^ 32"
    using wire_length_settings [of b s "d @ [(name, v)]"] Cons.prems(4) by (simp add: nf x settings_size_def)
  note put = put_field [OF Cons.prems(1) f id ok room, of junk]
  note val = named_value [OF Cons.prems(2) sok f]
  show ?case
  proof (cases "map_of d name")
    case None
    with put(1) val obtain m1 where m1: "p7_put junk b s m v name = Inr (Some m1)"
      and h1: "holds b s m1 (map (named_field b s) (d @ [(name, v)]))"
      and same: "pb_id m1 = pb_id m" "pb_name m1 = pb_name m" by (auto simp: nf)
    have "\<exists>m'. p7_build junk b s m1 vs = Inr m' \<and>
        holds b s m' (map (named_field b s) (first_settings (d @ [(name, v)]) vs)) \<and>
        pb_id m' = pb_id m1 \<and> pb_name m' = pb_name m1"
      by (rule Cons.IH [OF h1]) (use Cons.prems sok x in auto)
    with m1 same None show ?thesis by (simp add: x)
  next
    case (Some u)
    with put(2) val have r: "p7_put junk b s m v name = Inr None" by simp
    have "\<exists>m'. p7_build junk b s m vs = Inr m' \<and>
        holds b s m' (map (named_field b s) (first_settings d vs)) \<and> pb_id m' = pb_id m \<and> pb_name m' = pb_name m"
      by (rule Cons.IH [OF Cons.prems(1,2)]) (use Cons.prems in \<open>auto simp: settings_size_def\<close>)
    with r Some show ?thesis by (simp add: x)
  qed
qed auto

text \<open>What the peer receives: the first \<open>binary_size\<close> bytes.\<close>

definition wi_p7_message_data_with_serialization :: "p7_binary \<Rightarrow> 8 word list" where
  "wi_p7_message_data_with_serialization m = take (unat (pb_size m)) (pb_buffer m)"

lemma received_holds:
  assumes h: "holds b s m fs" and sm: "wi_p7_spec_message_with_id b s (ucast (pb_id m)) = Some sm"
  shows "\<exists>m'. wi_p7_message_init_with_bytes b s (wi_p7_message_data_with_serialization m) = Inr (Some m') \<and>
     holds b s m' fs \<and> pb_id m' = pb_id m \<and> pb_name m' = Some (sm_name sm)"
proof -
  let ?n = "4 + length (wire fs)"
  have len: "length (pb_buffer m) < 2 ^ 32" "?n \<le> length (pb_buffer m)" "pb_size m = of_nat ?n"
    and start: "take ?n (pb_buffer m) = w32_bytes (pb_id m) @ wire fs"
    using h by (simp_all add: holds_def)
  then have "unat (pb_size m) = ?n" using unat_of_nat32 [of ?n] by simp
  with start have bytes: "wi_p7_message_data_with_serialization m = w32_bytes (pb_id m) @ wire fs"
    by (simp add: wi_p7_message_data_with_serialization_def)
  show ?thesis
    unfolding bytes using sm h len
    by (simp add: wi_p7_message_init_with_bytes_def wi_p7_message_deserialize_def
        wi_read_swap_big_to_host_int32_def p7_load_def holds_def)
qed

end
