(* ===== verification/Wi_P7_Verify.thy ===== *)
theory Wi_P7_Verify
  imports Wi_P7_Wire
begin

text \<open>
  The verification of received messages (wi_p7_spec_verify_message): what it accepts of the messages
  a peer builds with the setters, and what it lets through of those a peer may make up.
\<close>

subsection \<open>Counting\<close>

definition required_field :: "p7_spec_message \<Rightarrow> p7_spec_field \<Rightarrow> bool" where
  "required_field sm f \<longleftrightarrow>
     (case map_of (sm_parameters_id sm) (ucast (field_id32 f)) of Some p \<Rightarrow> pp_required p | None \<Rightarrow> False)"

lemma verify_count_holds:
  assumes "holds b s m (pre @ fs)"
  shows "p7_verify_count b s sm m (length (wire pre)) n =
     Inr (n + length (filter (\<lambda>(f, v). required_field sm f) fs))"
  using assms
proof (induction fs arbitrary: pre n)
  case Nil
  with holds_message_size [OF Nil] show ?case by (subst p7_verify_count.simps) simp
next
  case (Cons x fs)
  obtain f v where x: "x = (f, v)" by (cases x)
  let ?off = "length (wire pre)" and ?w = "wire (pre @ x # fs)"
  let ?n = "case map_of (sm_parameters_id sm) (ucast (field_id32 f)) of
      Some p \<Rightarrow> if pp_required p then n + 1 else n | None \<Rightarrow> n"
  note sz = holds_message_size [OF Cons.prems]
  have un: "unat (of_nat k :: 32 word) = k" if "k \<le> length ?w" for k
    using that sz(2) by (intro unat_of_nat32) simp
  have len: "?off + length (field_bytes (f, v)) \<le> length ?w" by (simp add: x)
  have less: "(of_nat ?off :: 32 word) < p7_message_size m"
    unfolding sz(1) word_less_nat_alt using un [of ?off] un [of "length ?w"] wire_field_length [of x] by simp
  have wf: "field_wf b s (f, v)" using Cons.prems by (simp add: holds_def x)
  then have known: "wi_p7_spec_field_with_id b s (ucast (field_id32 f)) = Some f" by (simp add: field_wf_def)
  have fid: "wi_read_swap_big_to_host_int32 (pb_buffer m) (4 + ?off) = Inr (field_id32 f)"
    using holds_load [OF Cons.prems, of ?off 4] len
    by (simp add: wi_read_swap_big_to_host_int32_def field_bytes_def field_head_def x)
  have v: "unat (of_nat (length v) :: 32 word) = length v" using wf by (intro unat_of_nat32) (simp add: field_wf_def)
  have "holds b s m ((pre @ [x]) @ fs)" using Cons.prems by simp
  note IH = Cons.IH [OF this, of ?n]
  have count: "?n + length (filter (\<lambda>(f, v). required_field sm f) fs) =
      n + length (filter (\<lambda>(f, v). required_field sm f) (x # fs))"
    by (simp add: x required_field_def split: option.split)
  show ?case
  proof (cases "field_size32 f = 0")
    case True
    then have l8: "?off + 8 \<le> length ?w" using len by (simp add: field_bytes_def field_head_def)
    have size: "wi_read_swap_big_to_host_int32 (pb_buffer m) (4 + (?off + 4)) = Inr (of_nat (length v))"
      using holds_load [OF Cons.prems, of "?off + 4" 4] l8 True
      by (simp add: wi_read_swap_big_to_host_int32_def field_bytes_def field_head_def x)
    have "?off + 8 + length v = length (wire (pre @ [x]))" using True by (simp add: x field_bytes_def field_head_def)
    with IH count have "p7_verify_count b s sm m (?off + 8 + length v) ?n =
        Inr (n + length (filter (\<lambda>(f, v). required_field sm f) (x # fs)))" by (simp only:)
    then show ?thesis
      by (subst p7_verify_count.simps)
        (simp only: less if_True WI_P7_MESSAGE_BINARY_HEADER_SIZE_def fid p7_bind_simps known option.case Let_def
          field_size32_def [symmetric] True size v simp_thms if_True)
  next
    case False
    with wf have sz32: "unat (field_size32 f) = length v" by (simp add: field_wf_def)
    have "?off + 4 + length v = length (wire (pre @ [x]))" using False by (simp add: x field_bytes_def field_head_def)
    with IH count have "p7_verify_count b s sm m (?off + 4 + length v) ?n =
        Inr (n + length (filter (\<lambda>(f, v). required_field sm f) (x # fs)))" by (simp only:)
    then show ?thesis
      by (subst p7_verify_count.simps)
        (simp only: less if_True WI_P7_MESSAGE_BINARY_HEADER_SIZE_def fid p7_bind_simps known option.case Let_def
          field_size32_def [symmetric] False if_False sz32)
  qed
qed

lemma verify_holds:
  assumes "holds b s m fs" "map_of (sp_messages_id s) (ucast (pb_id m)) = Some sm"
  shows "wi_p7_spec_verify_message b s m =
     Inr (length (filter (\<lambda>(f, v). required_field sm f) fs) = sm_required_parameters sm)"
  using verify_count_holds [of b s m "[]" fs sm 0] assms by (simp add: wi_p7_spec_verify_message_def)

text \<open>
  Without a field that occurs twice, the count is right exactly if every required parameter occurs.
\<close>

definition required_names :: "p7_spec_message \<Rightarrow> string list" where
  "required_names sm = map (\<lambda>p. pf_name (pp_field p)) (filter pp_required (map snd (sm_parameters_name sm)))"

lemma required_names:
  assumes "message_ok b s sm"
  shows "distinct (required_names sm)" and "length (required_names sm) = sm_required_parameters sm"
proof -
  have i: "indexed (\<lambda>p. pf_name (pp_field p)) (sm_parameters_name sm)"
    and n: "sm_required_parameters sm = length (filter pp_required (map snd (sm_parameters_name sm)))"
    using assms by (simp_all only: message_ok_def indexed2_def)
  show "length (required_names sm) = sm_required_parameters sm"
    by (simp only: required_names_def n length_map)
  have "map (\<lambda>p. pf_name (pp_field p)) (map snd (sm_parameters_name sm)) = map fst (sm_parameters_name sm)"
    using i by (auto simp: indexed_def)
  with i have "distinct (map (\<lambda>p. pf_name (pp_field p)) (map snd (sm_parameters_name sm)))"
    by (simp only: indexed_def)
  then show "distinct (required_names sm)" unfolding required_names_def by (rule distinct_map_filter)
qed

lemma field_with_id_key:
  assumes "spec_ok b s" "builtin_ok b" "with_builtin sp_fields_id b s k = Some f"
  shows "pf_id f = k"
  using assms
  by (auto simp: with_builtin_def spec_ok_def builtin_ok_def indexed2_def indexed_lookup split: option.splits)

text \<open>An id of a field that the binary form can carry has at most 32 bits.\<close>

definition wire_field :: "p7_spec option \<Rightarrow> p7_spec \<Rightarrow> p7_spec_field \<Rightarrow> bool" where
  "wire_field b s f \<longleftrightarrow> known_field b s f \<and> pf_id f = ucast (field_id32 f)"

lemma parameter_lookup:
  assumes "message_ok b s sm" "wire_field b s f"
  shows "map_of (sm_parameters_id sm) (ucast (field_id32 f)) = Some p \<longleftrightarrow>
      p \<in> set (map snd (sm_parameters_name sm)) \<and> pf_name (pp_field p) = pf_name f"
proof -
  have i: "indexed (\<lambda>p. pf_id (pp_field p)) (sm_parameters_id sm)"
    and sn: "map snd (sm_parameters_name sm) = map snd (sm_parameters_id sm)"
    and k: "\<And>p. p \<in> set (map snd (sm_parameters_name sm)) \<Longrightarrow> known_field b s (pp_field p)"
    using assms(1) by (simp_all only: message_ok_def indexed2_def)
  have f: "known_field b s f" "ucast (field_id32 f) = pf_id f" using assms(2) by (simp_all add: wire_field_def)
  have same: "pf_id (pp_field p) = pf_id f \<longleftrightarrow> pf_name (pp_field p) = pf_name f"
    if "p \<in> set (map snd (sm_parameters_name sm))"
    using k [OF that] f(1) unfolding known_field_def by (metis option.inject)
  have "map_of (sm_parameters_id sm) (pf_id f) = Some p \<longleftrightarrow>
      p \<in> set (map snd (sm_parameters_name sm)) \<and> pf_id (pp_field p) = pf_id f"
    unfolding sn using indexed_lookup [OF i, of "pf_id f" p] by (simp only:)
  with same show ?thesis unfolding f(2) by (simp only: cong: conj_cong)
qed

lemma required_field_iff:
  assumes "message_ok b s sm" "wire_field b s f"
  shows "required_field sm f \<longleftrightarrow> pf_name f \<in> set (required_names sm)"
proof -
  note at = parameter_lookup [OF assms]
  have "required_field sm f \<longleftrightarrow>
      (\<exists>p. map_of (sm_parameters_id sm) (ucast (field_id32 f)) = Some p \<and> pp_required p)"
    by (simp add: required_field_def split: option.split)
  also have "\<dots> \<longleftrightarrow> pf_name f \<in> set (required_names sm)"
  proof -
    have "(\<exists>p. (p \<in> S \<and> pf_name (pp_field p) = x) \<and> pp_required p) \<longleftrightarrow>
        x \<in> (\<lambda>p. pf_name (pp_field p)) ` {p \<in> S. pp_required p}" for S and x :: string by auto
    then show ?thesis unfolding at required_names_def set_map set_filter .
  qed
  finally show ?thesis .
qed

subsection \<open>What the setters build\<close>

text \<open>
  A setting the specification provides for: the field is known, its id has 32 bits, and the value has
  its type.
\<close>

definition p7_setting_ok :: "p7_spec option \<Rightarrow> p7_spec \<Rightarrow> string \<times> p7_typed \<Rightarrow> bool" where
  "p7_setting_ok b s = (\<lambda>(name, v).
     case wi_p7_spec_field_with_name b s name of
       None \<Rightarrow> False
     | Some f \<Rightarrow> pf_id f < 2 ^ 32 \<and> typed_ok f v)"

lemma ucast_id: "i < 2 ^ 32 \<Longrightarrow> ucast (ucast i :: 32 word) = (i :: 64 word)"
proof -
  assume "i < 2 ^ 32"
  then have "unat i < 2 ^ 32" by (simp add: word_less_nat_alt)
  then show ?thesis by (intro unsigned_word_eqI [where ?'a = nat] ) (simp add: unsigned_ucast_eq unsigned_take_bit_eq take_bit_nat_eq_self)
qed

lemma p7_setting_ok:
  assumes "spec_ok b s" "builtin_ok b" "p7_setting_ok b s (name, v)"
  obtains f where "wi_p7_spec_field_with_name b s name = Some f" "pf_name f = name" "typed_ok f v" "wire_field b s f"
proof -
  from assms(3) obtain f where f: "with_builtin sp_fields_name b s name = Some f" "pf_id f < 2 ^ 32" "typed_ok f v"
    by (auto simp: p7_setting_ok_def wi_p7_spec_field_with_name_def split: option.splits)
  show ?thesis
  proof (rule that)
    show "wi_p7_spec_field_with_name b s name = Some f" by (simp add: f wi_p7_spec_field_with_name_def)
    show "pf_name f = name" using with_builtin_key(1) [OF assms(1,2) f(1)] .
    show "wire_field b s f" using found_field_known [OF assms(1,2) f(1)] f(2)
      by (simp add: wire_field_def field_id32_def ucast_id)
  qed (rule f)
qed

lemma p7_setting_ok_setting:
  assumes "spec_ok b s" "builtin_ok b" "p7_setting_ok b s x"
  shows "setting_ok b s x"
proof -
  obtain name v where x: "x = (name, v)" by (cases x)
  obtain f where "wi_p7_spec_field_with_name b s name = Some f" "pf_name f = name" "typed_ok f v" "wire_field b s f"
    using p7_setting_ok [OF assms(1,2) assms(3) [unfolded x]] .
  then show ?thesis
    by (auto simp: x setting_ok_def wire_field_def known_field_def wi_p7_spec_field_with_id_def)
qed

text \<open>A message made and filled by its sender, as the bytes that are sent.\<close>

definition p7_sent ::
  "(nat \<Rightarrow> 8 word) \<Rightarrow> p7_spec option \<Rightarrow> p7_spec \<Rightarrow> string \<Rightarrow> (string \<times> p7_typed) list \<Rightarrow>
   8 word list option p7_access" where
  "p7_sent junk b s name vs =
     p7_bind (wi_p7_message_init_with_name junk b s name) (\<lambda>r.
       case r of
         None \<Rightarrow> Inr None
       | Some m \<Rightarrow> p7_bind (p7_build junk b s m vs) (\<lambda>m. Inr (Some (wi_p7_message_data_with_serialization m))))"

lemma settings_first: "set (first_settings d vs) \<subseteq> set d \<union> set vs"
  by (induction d vs rule: first_settings.induct) auto

lemma distinct_first_settings:
  "distinct (map fst d) \<Longrightarrow> distinct (map fst (first_settings d vs))"
  by (induction d vs rule: first_settings.induct) (auto simp: map_of_eq_None_iff)

lemma sent_holds:
  assumes ok: "spec_ok b s" "builtin_ok b"
    and sm: "wi_p7_spec_message_with_name b s name = Some sm"
      "wi_p7_spec_message_with_id b s (ucast (ucast (sm_id sm) :: 32 word)) = Some sm"
    and vs: "\<forall>x \<in> set vs. p7_setting_ok b s x" "4 + settings_size vs < 2 ^ 32"
  shows "\<exists>bytes m. p7_sent junk b s name vs = Inr (Some bytes) \<and>
     wi_p7_message_init_with_bytes b s bytes = Inr (Some m) \<and>
     holds b s m (map (named_field b s) (first_settings [] vs)) \<and>
     pb_id m = ucast (sm_id sm) \<and> pb_name m = Some name"
proof -
  obtain m0 where m0: "wi_p7_message_init_with_name junk b s name = Inr (Some m0)" "holds b s m0 []"
    "pb_id m0 = ucast (sm_id sm)" using init_with_name_holds [OF sm(1)] by blast
  have "\<forall>x \<in> set vs. setting_ok b s x" using vs(1) p7_setting_ok_setting [OF ok] by blast
  with build [of b s m0 "[]" vs junk] m0(2) vs(2) obtain m1 where
    m1: "p7_build junk b s m0 vs = Inr m1" "holds b s m1 (map (named_field b s) (first_settings [] vs))"
      "pb_id m1 = pb_id m0" by auto
  have "sm_name sm = name" using with_builtin_key(2) [OF ok] sm(1) by (simp add: wi_p7_spec_message_with_name_def)
  with received_holds [OF m1(2), of sm] sm(2) m0(3) m1 obtain m where
    "wi_p7_message_init_with_bytes b s (wi_p7_message_data_with_serialization m1) = Inr (Some m)"
    "holds b s m (map (named_field b s) (first_settings [] vs))" "pb_id m = ucast (sm_id sm)" "pb_name m = Some name"
    by auto
  with m0(1) m1(1) show ?thesis by (simp add: p7_sent_def)
qed

text \<open>The fields of a received message, read back with their types.\<close>

lemma wire_value_in: "wire_value fs i = Some v \<Longrightarrow> \<exists>g. (g, v) \<in> set fs"
  by (auto simp: wire_value_def dest!: map_of_SomeD)

lemma holds_get:
  assumes ok: "spec_ok b s" "builtin_ok b" and vs: "\<forall>x \<in> set vs. p7_setting_ok b s x"
    and h: "holds b s m (map (named_field b s) (first_settings [] vs))"
    and x: "p7_setting_ok b s (name, v)" and f: "wi_p7_spec_field_with_name b s name = Some f"
  shows "p7_get b s m f name = Inr (map_of vs name)"
proof -
  let ?fs = "map (named_field b s) (first_settings [] vs)"
  have sok: "\<forall>x \<in> set (first_settings [] vs). setting_ok b s x"
    using settings_first [of "[]" vs] vs p7_setting_ok_setting [OF ok] by auto
  have val: "wire_value ?fs (field_id32 f) = map_option typed_bytes (map_of vs name)"
    using named_value [OF sok p7_setting_ok_setting [OF ok x] f] by (simp add: map_of_first_settings)
  have v: "typed_ok f v" using p7_setting_ok [OF ok x] f by (metis option.inject)
  have typed: "typed_ok f w" if "map_of vs name = Some w" for w
  proof -
    have "p7_setting_ok b s (name, w)" using map_of_SomeD [OF that] vs by blast
    with p7_setting_ok [OF ok this] f show ?thesis by (metis option.inject)
  qed
  have "p7_get b s m f name = Inr (map_option (typed_value f) (wire_value ?fs (field_id32 f)))"
    by (rule get_value [OF h f v]) (use val typed in auto)
  moreover have "typed_value f (typed_bytes w) = w" if w: "map_of vs name = Some w" for w
  proof (rule typed_value_bytes [OF typed [OF w]])
    have "wire_value ?fs (field_id32 f) = Some (typed_bytes w)" using val w by simp
    then obtain g where g: "(g, typed_bytes w) \<in> set ?fs" using wire_value_in by blast
    have "\<forall>x \<in> set ?fs. field_wf b s x" using h unfolding holds_def by (elim conjE)
    with g show "length (typed_bytes w) < 2 ^ 32" by (auto simp only: field_wf_def prod.case)
  qed
  ultimately show ?thesis using val by (cases "map_of vs name") simp_all
qed

subsection \<open>What is accepted\<close>

lemma count_distinct:
  assumes "distinct xs" "distinct ys"
  shows "length (filter (\<lambda>x. x \<in> set ys) xs) = length ys \<longleftrightarrow> set ys \<subseteq> set xs"
proof -
  have "length (filter (\<lambda>x. x \<in> set ys) xs) = card (set xs \<inter> set ys)"
    using distinct_card [of "filter (\<lambda>x. x \<in> set ys) xs"] assms(1) by (simp add: Int_def)
  moreover have "length ys = card (set ys)" using assms(2) by (simp add: distinct_card)
  ultimately show ?thesis by (metis Int_lower2 List.finite_set card_subset_eq inf.absorb_iff2)
qed

lemma required_settings:
  assumes ok: "spec_ok b s" "builtin_ok b" and sm: "message_ok b s sm" and d: "\<forall>x \<in> set d. p7_setting_ok b s x"
  shows "length (filter (\<lambda>(f, v). required_field sm f) (map (named_field b s) d)) =
     length (filter (\<lambda>n. n \<in> set (required_names sm)) (map fst d))"
  using d
proof (induction d)
  case (Cons x d)
  obtain name v where x: "x = (name, v)" by (cases x)
  with Cons.prems have "p7_setting_ok b s (name, v)" by simp
  from p7_setting_ok [OF ok this] obtain f where f: "wi_p7_spec_field_with_name b s name = Some f"
    "pf_name f = name" "wire_field b s f" .
  with required_field_iff [OF sm f(3)] Cons show ?case by (simp add: x named_field_def)
qed simp

lemma keys_first_settings: "fst ` set (first_settings d vs) = fst ` set d \<union> fst ` set vs"
proof -
  have "dom (map_of (first_settings d vs)) = dom (map_of d) \<union> dom (map_of vs)"
    by (auto simp: map_of_first_settings dom_def split: option.splits)
  then show ?thesis by (simp add: dom_map_of_conv_image_fst)
qed

lemma verify_settings:
  assumes ok: "spec_ok b s" "builtin_ok b" and vs: "\<forall>x \<in> set vs. p7_setting_ok b s x"
    and h: "holds b s m (map (named_field b s) (first_settings [] vs))"
    and sm: "map_of (sp_messages_id s) (ucast (pb_id m)) = Some sm"
  shows "wi_p7_spec_verify_message b s m = Inr (set (required_names sm) \<subseteq> fst ` set vs)"
proof -
  have "sm \<in> set (map snd (sp_messages_id s))" using map_of_SomeD [OF sm] by force
  moreover have "map snd (sp_messages_name s) = map snd (sp_messages_id s)" using ok(1)
    by (simp only: spec_ok_def indexed2_def)
  ultimately have mok: "message_ok b s sm" using ok(1) unfolding spec_ok_def by metis
  let ?d = "first_settings [] vs"
  have d: "\<forall>x \<in> set ?d. p7_setting_ok b s x" using settings_first [of "[]" vs] vs by auto
  have "length (filter (\<lambda>n. n \<in> set (required_names sm)) (map fst ?d)) = sm_required_parameters sm \<longleftrightarrow>
      set (required_names sm) \<subseteq> set (map fst ?d)"
    using count_distinct [OF distinct_first_settings [of "[]" vs] required_names(1) [OF mok]] required_names(2) [OF mok]
    by simp
  moreover have "set (map fst ?d) = fst ` set vs" using keys_first_settings [of "[]" vs] by simp
  ultimately show ?thesis using verify_holds [OF h sm] required_settings [OF ok mok d] by (simp only:)
qed

subsection \<open>What a peer can make up\<close>

text \<open>The bytes of a message are its id and what follows.\<close>

lemma init_with_bytes:
  assumes "wi_p7_spec_message_with_id b s (ucast mid) = Some sm"
  shows "wi_p7_message_init_with_bytes b s (w32_bytes mid @ rest) =
     Inr (Some \<lparr>pb_name = Some (sm_name sm), pb_buffer = w32_bytes mid @ rest,
                pb_size = of_nat (4 + length rest), pb_id = mid\<rparr>)"
  using assms
  by (simp add: wi_p7_message_init_with_bytes_def wi_p7_message_deserialize_def wi_read_swap_big_to_host_int32_def
      p7_load_def)

lemma holds_bytes:
  assumes "\<forall>x \<in> set fs. field_wf b s x" "4 + length (wire fs) < 2 ^ 32"
  shows "holds b s \<lparr>pb_name = n, pb_buffer = w32_bytes mid @ wire fs,
    pb_size = of_nat (4 + length (wire fs)), pb_id = mid\<rparr> fs"
  using assms by (simp add: holds_def)

lemma own_message:
  assumes "spec_ok b s" "map_of (sp_messages_id s) k = Some sm"
  shows "message_ok b s sm" "wi_p7_spec_message_with_id b s k = Some sm"
proof -
  have "sm \<in> set (map snd (sp_messages_id s))" using map_of_SomeD [OF assms(2)] by force
  moreover have "map snd (sp_messages_name s) = map snd (sp_messages_id s)" using assms(1)
    by (simp only: spec_ok_def indexed2_def)
  ultimately show "message_ok b s sm" using assms(1) unfolding spec_ok_def by metis
qed (simp add: wi_p7_spec_message_with_id_def with_builtin_def assms)

lemma setting_field_wf:
  assumes "spec_ok b s" "builtin_ok b" "p7_setting_ok b s (name, v)" "length (typed_bytes v) < 2 ^ 32"
    and "wi_p7_spec_field_with_name b s name = Some f"
  shows "field_wf b s (f, typed_bytes v)" "typed_ok f v" "wire_field b s f" "pf_name f = name"
proof -
  obtain g where g: "wi_p7_spec_field_with_name b s name = Some g" "pf_name g = name" "typed_ok g v" "wire_field b s g"
    using p7_setting_ok [OF assms(1-3)] .
  with assms(5) show "typed_ok f v" "wire_field b s f" "pf_name f = name" by simp_all
  then show "field_wf b s (f, typed_bytes v)" using assms(4)
    by (intro typed_wf) (auto simp: wire_field_def known_field_def wi_p7_spec_field_with_id_def)
qed

lemma repeated_holds:
  fixes k :: nat and f :: p7_spec_field and v :: p7_typed
  defines "fs \<equiv> replicate k (f, typed_bytes v)"
  assumes ok: "spec_ok b s" "builtin_ok b" and sm: "map_of (sp_messages_id s) (ucast mid) = Some sm"
    and v: "p7_setting_ok b s (name, v)" "wi_p7_spec_field_with_name b s name = Some f"
    and k: "0 < k" "4 + k * (8 + length (typed_bytes v)) < 2 ^ 32"
  shows "\<exists>m. wi_p7_message_init_with_bytes b s (w32_bytes mid @ wire fs) = Inr (Some m) \<and>
    holds b s m fs \<and> pb_id m = mid \<and> typed_ok f v \<and> wire_field b s f \<and> pf_name f = name"
proof -
  have len: "length (wire fs) \<le> k * (8 + length (typed_bytes v))"
    unfolding fs_def by (induction k) (auto simp: field_bytes_def field_head_def)
  have "8 + length (typed_bytes v) \<le> k * (8 + length (typed_bytes v))" using k(1) by (cases k) auto
  then have lv: "length (typed_bytes v) < 2 ^ 32" using k(2) by linarith
  note wf = setting_field_wf [OF ok v(1) lv v(2)]
  have "\<forall>x \<in> set fs. field_wf b s x" using wf(1) by (auto simp: fs_def)
  moreover have "4 + length (wire fs) < 2 ^ 32" using len k(2) by linarith
  ultimately show ?thesis
    using init_with_bytes [OF own_message(2) [OF ok(1) sm], of "wire fs"] holds_bytes [of fs b s _ mid] wf by auto
qed

lemma repeated_verified:
  assumes ok: "spec_ok b s" "builtin_ok b" and sm: "map_of (sp_messages_id s) (ucast (pb_id m)) = Some sm"
    and h: "holds b s m (replicate (sm_required_parameters sm) (f, u))"
    and f: "wire_field b s f" "pf_name f \<in> set (required_names sm)"
  shows "wi_p7_spec_verify_message b s m = Inr True"
proof -
  have "required_field sm f" using required_field_iff [OF own_message(1) [OF ok(1) sm] f(1)] f(2) by simp
  then show ?thesis using verify_holds [OF h sm] by (simp add: filter_replicate)
qed

lemma absent_field:
  assumes ok: "spec_ok b s" "builtin_ok b" and h: "holds b s m (replicate k (f, u))" and f: "wire_field b s f"
    and g: "p7_setting_ok b s (other, w)" "wi_p7_spec_field_with_name b s other = Some g" "other \<noteq> pf_name f"
  shows "p7_get b s m g other = Inr None"
proof -
  obtain g' where g': "wi_p7_spec_field_with_name b s other = Some g'" "pf_name g' = other" "typed_ok g' w" "wire_field b s g'"
    using p7_setting_ok [OF ok g(1)] .
  have "field_id32 f \<noteq> field_id32 g"
  proof
    assume "field_id32 f = field_id32 g"
    then have "f = g" using f g'(1,4) g(2) by (auto simp: wire_field_def intro: known_field_id_inj)
    then show False using g g' by simp
  qed
  then have none: "wire_value (replicate k (f, u)) (field_id32 g) = None"
    unfolding wire_value_def by (induction k) auto
  have "p7_get b s m g other = Inr (map_option (typed_value g) (wire_value (replicate k (f, u)) (field_id32 g)))"
    by (rule get_value [OF h g(2), of w]) (use none g g' in auto)
  with none show ?thesis by simp
qed

text \<open>A string field that is last in the message and claims more bytes than there are.\<close>

lemma overlong_string:
  assumes ok: "spec_ok b s" "builtin_ok b" and sm: "map_of (sp_messages_id s) (ucast mid) = Some sm"
    and f: "p7_setting_ok b s (name, PV_String t)" "wi_p7_spec_field_with_name b s name = Some f"
  shows "\<exists>m. wi_p7_message_init_with_bytes b s (w32_bytes mid @ w32_bytes (field_id32 f) @ w32_bytes claimed @ payload) = Inr (Some m) \<and>
    pb_id m = mid \<and> pb_buffer m = w32_bytes mid @ w32_bytes (field_id32 f) @ w32_bytes claimed @ payload \<and>
    p7_message_size m = of_nat (8 + length payload) \<and>
    wi_read_swap_big_to_host_int32 (pb_buffer m) 4 = Inr (field_id32 f) \<and>
    wi_read_swap_big_to_host_int32 (pb_buffer m) 8 = Inr claimed \<and>
    wi_p7_spec_field_with_id b s (ucast (field_id32 f)) = Some f \<and> field_size32 f = 0 \<and>
    field_id32 f = ucast (pf_id f) \<and> pf_name f = name \<and> wire_field b s f"
proof -
  obtain g where "wi_p7_spec_field_with_name b s name = Some g" "pf_name g = name"
    "typed_ok g (PV_String t)" "wire_field b s g" using p7_setting_ok [OF ok f(1)] .
  with f(2) have "pf_name f = name" "typed_ok f (PV_String t)" and w: "wire_field b s f" by simp_all
  moreover have "wi_p7_spec_field_with_id b s (ucast (field_id32 f)) = Some f"
    using w by (auto simp: wire_field_def known_field_def wi_p7_spec_field_with_id_def)
  ultimately show ?thesis
    using init_with_bytes [OF own_message(2) [OF ok(1) sm], of "w32_bytes (field_id32 f) @ w32_bytes claimed @ payload"]
    by (simp add: wi_read_swap_big_to_host_int32_def p7_load_def p7_message_size_def WI_P7_MESSAGE_BINARY_HEADER_SIZE_def
        field_id32_def)
qed

lemma overlong_verified:
  assumes ok: "spec_ok b s" and sm: "map_of (sp_messages_id s) (ucast (pb_id m)) = Some sm"
    and size: "p7_message_size m = of_nat (8 + length payload)"
    and id: "wi_read_swap_big_to_host_int32 (pb_buffer m) 4 = Inr (field_id32 f)"
    and len: "wi_read_swap_big_to_host_int32 (pb_buffer m) 8 = Inr claimed"
    and f: "wi_p7_spec_field_with_id b s (ucast (field_id32 f)) = Some f" "field_size32 f = 0" "wire_field b s f"
    and bounds: "length payload \<le> unat claimed" "8 + unat claimed < 2 ^ 32"
    and req: "required_names sm = [pf_name f]"
  shows "wi_p7_spec_verify_message b s m = Inr True"
proof -
  note mok = own_message(1) [OF ok sm]
  have one: "sm_required_parameters sm = 1" using required_names(2) [OF mok] req by simp
  have "required_field sm f" using required_field_iff [OF mok f(3)] req by simp
  then obtain p where p: "map_of (sm_parameters_id sm) (ucast (field_id32 f)) = Some p" "pp_required p"
    by (auto simp: required_field_def split: option.splits)
  have un: "unat (of_nat (8 + k) :: 32 word) = 8 + k" if "k \<le> unat claimed" for k
    using that bounds(2) by (intro unat_of_nat32) simp
  have start: "(of_nat 0 :: 32 word) < p7_message_size m"
    unfolding size word_less_nat_alt using un [OF bounds(1)] by simp
  have stop: "\<not> (of_nat (8 + unat claimed) :: 32 word) < p7_message_size m"
    unfolding size word_less_nat_alt using un [OF bounds(1)] un [of "unat claimed"] bounds(1) by simp
  have "p7_verify_count b s sm m (8 + unat claimed) 1 = Inr 1"
    by (subst p7_verify_count.simps) (simp only: stop if_False)
  then have "p7_verify_count b s sm m 0 0 = Inr 1"
    using f(2) by (subst p7_verify_count.simps)
      (simp add: start [simplified] id len f(1) p WI_P7_MESSAGE_BINARY_HEADER_SIZE_def field_size32_def)
  then show ?thesis by (simp add: wi_p7_spec_verify_message_def sm one)
qed

lemma overlong_read:
  assumes size: "p7_message_size m = of_nat (8 + length payload)" and len_m: "length (pb_buffer m) = 12 + length payload"
    and id: "wi_read_swap_big_to_host_int32 (pb_buffer m) 4 = Inr (field_id32 f)"
    and len: "wi_read_swap_big_to_host_int32 (pb_buffer m) 8 = Inr claimed"
    and f: "wi_p7_spec_field_with_id b s (ucast (field_id32 f)) = Some f" "field_size32 f = 0"
      "wi_p7_spec_field_with_name b s name = Some f"
    and bounds: "length payload + 1 < unat claimed" "8 + unat claimed < 2 ^ 32"
  shows "wi_p7_message_string_for_name b s m name = Inl Outside_Buffer"
proof -
  have un: "unat (of_nat (8 + length payload) :: 32 word) = 8 + length payload"
    using bounds by (intro unat_of_nat32) simp
  have start: "(of_nat 0 :: 32 word) < p7_message_size m" unfolding size word_less_nat_alt using un by simp
  have head: "p7_read_head b s m 0 = Inr (Some (field_id32 f, 8, claimed))"
    unfolding p7_read_head_def size un
    by (simp add: id len f(1) f(2) [unfolded field_size32_def] WI_P7_MESSAGE_BINARY_HEADER_SIZE_def)
  have "wi_p7_message_get_binary_buffer_for_reading_from b s m (field_id32 f) 0 = Inr (Some (12, claimed))"
    by (subst wi_p7_message_get_binary_buffer_for_reading_from.simps)
      (simp add: start [simplified] head WI_P7_MESSAGE_BINARY_HEADER_SIZE_def)
  then have at: "wi_p7_message_get_binary_buffer_for_reading_for_name b s m name = Inr (Some (12, claimed))"
    by (simp add: wi_p7_message_get_binary_buffer_for_reading_for_name_def f(3)
        wi_p7_message_get_binary_buffer_for_reading_for_id_def field_id32_def [symmetric])
  have "unat (claimed - 1) = unat claimed - 1" using bounds(1) by (intro unat_minus_one) auto
  then show ?thesis using bounds(1)
    by (simp add: wi_p7_message_string_for_name_def p7_read_field_def at p7_load_def len_m)
qed

subsection \<open>Properties\<close>

text \<open>A specification with one message, for the examples.\<close>

definition wired_example_root :: xml_node where
  "wired_example_root =
     XML_Element ''protocol'' [(''name'', ''Wired''), (''version'', ''2.0b55'')] [
       XML_Element ''types'' [] [
         XML_Element ''type'' [(''name'', ''uint32''), (''id'', ''4''), (''size'', ''4'')] [],
         XML_Element ''type'' [(''name'', ''string''), (''id'', ''8'')] []],
       XML_Element ''fields'' [] [
         XML_Element ''field'' [(''name'', ''wired.user.nick''), (''type'', ''string''), (''id'', ''3000'')] [],
         XML_Element ''field'' [(''name'', ''wired.chat.id''), (''type'', ''uint32''), (''id'', ''4000'')] [],
         XML_Element ''field'' [(''name'', ''wired.chat.say''), (''type'', ''string''), (''id'', ''4001'')] []],
       XML_Element ''messages'' [] [
         XML_Element ''message'' [(''name'', ''wired.user.set_nick''), (''id'', ''3000'')] [
           XML_Element ''parameter'' [(''field'', ''wired.user.nick''), (''use'', ''required'')] []],
         XML_Element ''message'' [(''name'', ''wired.chat.send_say''), (''id'', ''4000'')] [
           XML_Element ''parameter'' [(''field'', ''wired.chat.id''), (''use'', ''required'')] [],
           XML_Element ''parameter'' [(''field'', ''wired.chat.say''), (''use'', ''required'')] []]]]"

definition example_uint32 :: p7_spec_type where
  "example_uint32 = \<lparr>pt_name = ''uint32'', pt_size = 4, pt_id = 4\<rparr>"

definition example_string :: p7_spec_type where
  "example_string = \<lparr>pt_name = ''string'', pt_size = 0, pt_id = 8\<rparr>"

definition example_nick :: p7_spec_field where
  "example_nick = \<lparr>pf_name = ''wired.user.nick'', pf_id = 3000, pf_type = example_string, pf_listtype = None,
     pf_enums_name = [], pf_enums_value = []\<rparr>"

definition example_chat_id :: p7_spec_field where
  "example_chat_id = \<lparr>pf_name = ''wired.chat.id'', pf_id = 4000, pf_type = example_uint32, pf_listtype = None,
     pf_enums_name = [], pf_enums_value = []\<rparr>"

definition example_say :: p7_spec_field where
  "example_say = \<lparr>pf_name = ''wired.chat.say'', pf_id = 4001, pf_type = example_string, pf_listtype = None,
     pf_enums_name = [], pf_enums_value = []\<rparr>"

definition example_set_nick :: p7_spec_message where
  "example_set_nick = \<lparr>sm_name = ''wired.user.set_nick'', sm_id = 3000,
     sm_parameters_name = [(''wired.user.nick'', \<lparr>pp_field = example_nick, pp_required = True\<rparr>)],
     sm_parameters_id = [(3000, \<lparr>pp_field = example_nick, pp_required = True\<rparr>)], sm_required_parameters = 1\<rparr>"

definition example_send_say :: p7_spec_message where
  "example_send_say = \<lparr>sm_name = ''wired.chat.send_say'', sm_id = 4000,
     sm_parameters_name = [(''wired.chat.id'', \<lparr>pp_field = example_chat_id, pp_required = True\<rparr>),
       (''wired.chat.say'', \<lparr>pp_field = example_say, pp_required = True\<rparr>)],
     sm_parameters_id = [(4000, \<lparr>pp_field = example_chat_id, pp_required = True\<rparr>),
       (4001, \<lparr>pp_field = example_say, pp_required = True\<rparr>)], sm_required_parameters = 2\<rparr>"

definition wired_example_spec :: p7_spec where
  "wired_example_spec = (wi_p7_spec_init WI_P7_SERVER)
     \<lparr>sp_name := Some ''Wired'', sp_version := Some ''2.0b55'',
      sp_types_name := [(''uint32'', example_uint32), (''string'', example_string)],
      sp_types_id := [(4, example_uint32), (8, example_string)],
      sp_fields_name := [(''wired.user.nick'', example_nick), (''wired.chat.id'', example_chat_id),
        (''wired.chat.say'', example_say)],
      sp_fields_id := [(3000, example_nick), (4000, example_chat_id), (4001, example_say)],
      sp_messages_name := [(''wired.user.set_nick'', example_set_nick), (''wired.chat.send_say'', example_send_say)],
      sp_messages_id := [(3000, example_set_nick), (4000, example_send_say)]\<rparr>"

lemma example_loaded:
  "wi_p7_spec_load_spec None (wi_p7_spec_init WI_P7_SERVER) wired_example_root = Some wired_example_spec"
  by code_simp


lemma builtin_none: "builtin_ok None"
  by (simp add: builtin_ok_def)


lemmas example_ok = load_spec_ok [OF example_loaded builtin_none]

lemmas example_defs = wired_example_spec_def wi_p7_spec_init_def example_set_nick_def example_send_say_def
  example_nick_def example_chat_id_def example_say_def example_uint32_def example_string_def

lemma example_messages:
  "map_of (sp_messages_id wired_example_spec) 3000 = Some example_set_nick"
  "map_of (sp_messages_id wired_example_spec) 4000 = Some example_send_say"
  "wi_p7_spec_message_with_name None wired_example_spec ''wired.chat.send_say'' = Some example_send_say"
  "wi_p7_spec_message_with_id None wired_example_spec (ucast (ucast (sm_id example_send_say) :: 32 word)) = Some example_send_say"
  by (simp_all add: example_defs wi_p7_spec_message_with_name_def wi_p7_spec_message_with_id_def with_builtin_def)

lemma example_settings:
  "p7_setting_ok None wired_example_spec (''wired.user.nick'', PV_String t)"
  "p7_setting_ok None wired_example_spec (''wired.chat.id'', PV_Int32 w)"
  "p7_setting_ok None wired_example_spec (''wired.chat.say'', PV_String t)"
  by (simp_all add: example_defs p7_setting_ok_def wi_p7_spec_field_with_name_def with_builtin_def p7_type_ids
      field_type_def field_size32_def wi_p7_spec_field_size_def)

lemma example_fields:
  "wi_p7_spec_field_with_name None wired_example_spec ''wired.user.nick'' = Some example_nick"
  "wi_p7_spec_field_with_name None wired_example_spec ''wired.chat.id'' = Some example_chat_id"
  "wi_p7_spec_field_with_name None wired_example_spec ''wired.chat.say'' = Some example_say"
  by (simp_all add: example_defs wi_p7_spec_field_with_name_def with_builtin_def)

lemma example_required:
  "required_names example_set_nick = [pf_name example_nick]"
  "required_names example_send_say = [''wired.chat.id'', ''wired.chat.say'']"
  by (simp_all add: required_names_def example_defs)

text \<open>
  C12: What a sender puts into a message is what the receiver reads. A message of a known name, with
  any sequence of settings that the specification provides for and that fit into 32 bits, is built
  without an access outside its buffer; the bytes sent are a message for the receiver, with its name,
  and every field reads as the value that was set for it first, or as absent.
\<close>

theorem p7_message_roundtrip:
  assumes "spec_ok b s" "builtin_ok b"
    and "wi_p7_spec_message_with_name b s name = Some sm"
    and "wi_p7_spec_message_with_id b s (ucast (ucast (sm_id sm) :: 32 word)) = Some sm"
    and "\<forall>x \<in> set vs. p7_setting_ok b s x" "4 + settings_size vs < 2 ^ 32"
  shows "\<exists>bytes m. p7_sent junk b s name vs = Inr (Some bytes) \<and>
     wi_p7_message_init_with_bytes b s bytes = Inr (Some m) \<and> pb_name m = Some name \<and>
     (\<forall>name v f. p7_setting_ok b s (name, v) \<longrightarrow> wi_p7_spec_field_with_name b s name = Some f \<longrightarrow>
        p7_get b s m f name = Inr (map_of vs name))"
  using sent_holds [OF assms, of junk] holds_get [OF assms(1,2,5)] by blast

theorem p7_message_roundtrip_witness:
  "\<exists>bytes m. p7_sent (\<lambda>i. 7) None wired_example_spec ''wired.chat.send_say''
        [(''wired.chat.id'', PV_Int32 1), (''wired.chat.say'', PV_String ''hi''), (''wired.chat.id'', PV_Int32 2)] = Inr (Some bytes) \<and>
     wi_p7_message_init_with_bytes None wired_example_spec bytes = Inr (Some m) \<and>
     p7_get None wired_example_spec m example_chat_id ''wired.chat.id'' = Inr (Some (PV_Int32 1)) \<and>
     p7_get None wired_example_spec m example_say ''wired.chat.say'' = Inr (Some (PV_String ''hi'')) \<and>
     p7_get None wired_example_spec m example_nick ''wired.user.nick'' = Inr None"
proof -
  let ?vs = "[(''wired.chat.id'', PV_Int32 1), (''wired.chat.say'', PV_String ''hi''), (''wired.chat.id'', PV_Int32 2)]"
  have "\<forall>x \<in> set ?vs. p7_setting_ok None wired_example_spec x" "4 + settings_size ?vs < 2 ^ 32"
    by (simp_all add: example_settings settings_size_def)
  from p7_message_roundtrip [OF example_ok builtin_none example_messages(3,4) this, of "\<lambda>i. 7"]
  obtain bytes m where bm: "p7_sent (\<lambda>i. 7) None wired_example_spec ''wired.chat.send_say'' ?vs = Inr (Some bytes)"
    "wi_p7_message_init_with_bytes None wired_example_spec bytes = Inr (Some m)"
    and get: "\<And>name v f. p7_setting_ok None wired_example_spec (name, v) \<Longrightarrow>
      wi_p7_spec_field_with_name None wired_example_spec name = Some f \<Longrightarrow>
      p7_get None wired_example_spec m f name = Inr (map_of ?vs name)" by blast
  show ?thesis
    using bm get [OF example_settings(1) example_fields(1)] get [OF example_settings(2) example_fields(2)]
      get [OF example_settings(3) example_fields(3)] by simp
qed

text \<open>
  C14: The receiver verifies a message that a sender built with the setters exactly if every required
  parameter of the message was set, in whatever order and however often.
\<close>

theorem p7_verify_built_message:
  assumes "spec_ok b s" "builtin_ok b"
    and "wi_p7_spec_message_with_name b s name = Some sm"
    and "map_of (sp_messages_id s) (ucast (ucast (sm_id sm) :: 32 word)) = Some sm"
    and "\<forall>x \<in> set vs. p7_setting_ok b s x" "4 + settings_size vs < 2 ^ 32"
  shows "\<exists>bytes m. p7_sent junk b s name vs = Inr (Some bytes) \<and>
     wi_p7_message_init_with_bytes b s bytes = Inr (Some m) \<and>
     wi_p7_spec_verify_message b s m = Inr (set (required_names sm) \<subseteq> fst ` set vs)"
proof -
  from sent_holds [OF assms(1-3) own_message(2) [OF assms(1,4)] assms(5,6)] obtain bytes m where
    m: "p7_sent junk b s name vs = Inr (Some bytes)" "wi_p7_message_init_with_bytes b s bytes = Inr (Some m)"
      "holds b s m (map (named_field b s) (first_settings [] vs))" "pb_id m = ucast (sm_id sm)" by blast
  from verify_settings [OF assms(1,2,5) m(3)] m(4) assms(4)
  have "wi_p7_spec_verify_message b s m = Inr (set (required_names sm) \<subseteq> fst ` set vs)" by simp
  with m(1,2) show ?thesis by blast
qed

lemma example_own: "map_of (sp_messages_id wired_example_spec) (ucast (ucast (sm_id example_send_say) :: 32 word)) = Some example_send_say"
  by (simp add: example_defs)

theorem p7_verify_built_message_witness:
  "(\<exists>bytes m. p7_sent (\<lambda>i. 7) None wired_example_spec ''wired.chat.send_say''
        [(''wired.chat.id'', PV_Int32 1), (''wired.chat.say'', PV_String ''hi'')] = Inr (Some bytes) \<and>
     wi_p7_message_init_with_bytes None wired_example_spec bytes = Inr (Some m) \<and>
     wi_p7_spec_verify_message None wired_example_spec m = Inr True) \<and>
   (\<exists>bytes m. p7_sent (\<lambda>i. 7) None wired_example_spec ''wired.chat.send_say''
        [(''wired.chat.say'', PV_String ''hi''), (''wired.chat.say'', PV_String ''ho'')] = Inr (Some bytes) \<and>
     wi_p7_message_init_with_bytes None wired_example_spec bytes = Inr (Some m) \<and>
     wi_p7_spec_verify_message None wired_example_spec m = Inr False)"
  using p7_verify_built_message [OF example_ok builtin_none example_messages(3) example_own,
      of "[(''wired.chat.id'', PV_Int32 1), (''wired.chat.say'', PV_String ''hi'')]" "\<lambda>i. 7"]
    p7_verify_built_message [OF example_ok builtin_none example_messages(3) example_own,
      of "[(''wired.chat.say'', PV_String ''hi''), (''wired.chat.say'', PV_String ''ho'')]" "\<lambda>i. 7"]
  by (simp add: example_settings example_required settings_size_def)

text \<open>
  C15: Verification counts fields, not parameters: a message that repeats one of its required
  parameters as often as it has required parameters is accepted, and every other field of it reads
  as absent. So no handler can rely on a required field.
\<close>

theorem p7_verify_counts_repetitions:
  assumes "spec_ok b s" "builtin_ok b" "map_of (sp_messages_id s) (ucast mid) = Some sm"
    and "p7_setting_ok b s (name, v)" "wi_p7_spec_field_with_name b s name = Some f" "name \<in> set (required_names sm)"
    and "4 + sm_required_parameters sm * (8 + length (typed_bytes v)) < 2 ^ 32"
  shows "\<exists>m. wi_p7_message_init_with_bytes b s
        (w32_bytes mid @ wire (replicate (sm_required_parameters sm) (f, typed_bytes v))) = Inr (Some m) \<and>
     wi_p7_spec_verify_message b s m = Inr True \<and>
     (\<forall>other w g. other \<noteq> name \<longrightarrow> p7_setting_ok b s (other, w) \<longrightarrow>
        wi_p7_spec_field_with_name b s other = Some g \<longrightarrow> p7_get b s m g other = Inr None)"
proof -
  have "0 < sm_required_parameters sm"
    using required_names(2) [OF own_message(1) [OF assms(1,3)]] assms(6) by (cases "required_names sm") auto
  from repeated_holds [OF assms(1-5) this assms(7)] obtain m where
    m: "wi_p7_message_init_with_bytes b s
        (w32_bytes mid @ wire (replicate (sm_required_parameters sm) (f, typed_bytes v))) = Inr (Some m)"
      "holds b s m (replicate (sm_required_parameters sm) (f, typed_bytes v))" "pb_id m = mid" "wire_field b s f" "pf_name f = name"
    by blast
  have "wi_p7_spec_verify_message b s m = Inr True"
    using repeated_verified [OF assms(1,2) _ m(2,4)] m(3,5) assms(3,6) by simp
  with m(1) absent_field [OF assms(1,2) m(2,4)] m(5) show ?thesis by blast
qed

theorem p7_verify_counts_repetitions_witness:
  "\<exists>m. wi_p7_message_init_with_bytes None wired_example_spec
        (w32_bytes 4000 @ wire (replicate 2 (example_chat_id, w32_bytes 1))) = Inr (Some m) \<and>
     wi_p7_spec_verify_message None wired_example_spec m = Inr True \<and>
     p7_get None wired_example_spec m example_say ''wired.chat.say'' = Inr None"
proof -
  have own: "map_of (sp_messages_id wired_example_spec) (ucast (4000 :: 32 word)) = Some example_send_say"
    using example_messages(2) by simp
  have two: "sm_required_parameters example_send_say = 2" by (simp add: example_send_say_def)
  have req: "''wired.chat.id'' \<in> set (required_names example_send_say)" by (simp add: example_required)
  have small: "4 + sm_required_parameters example_send_say * (8 + length (typed_bytes (PV_Int32 1))) < 2 ^ 32"
    by (simp add: two)
  from p7_verify_counts_repetitions [OF example_ok builtin_none own example_settings(2) [of 1] example_fields(2) req small]
  obtain m where "wi_p7_message_init_with_bytes None wired_example_spec
        (w32_bytes 4000 @ wire (replicate 2 (example_chat_id, w32_bytes 1))) = Inr (Some m)"
    "wi_p7_spec_verify_message None wired_example_spec m = Inr True"
    and others: "\<And>other w g. other \<noteq> ''wired.chat.id'' \<Longrightarrow> p7_setting_ok None wired_example_spec (other, w) \<Longrightarrow>
        wi_p7_spec_field_with_name None wired_example_spec other = Some g \<Longrightarrow>
        p7_get None wired_example_spec m g other = Inr None"
    unfolding two typed_bytes.simps by blast
  then show ?thesis using others [OF _ example_settings(3) example_fields(3)] by auto
qed

text \<open>
  C13: The size that a peer claims for a string is compared with nothing. A message with one
  required parameter, a string that claims more bytes than the message has, is accepted, and
  reading the string reads outside the buffer.
\<close>

theorem p7_string_reads_outside:
  assumes "spec_ok b s" "builtin_ok b" "map_of (sp_messages_id s) (ucast mid) = Some sm"
    and "p7_setting_ok b s (name, PV_String t)" "wi_p7_spec_field_with_name b s name = Some f"
    and "required_names sm = [name]"
    and "length payload + 1 < unat claimed" "8 + unat claimed < 2 ^ 32"
  shows "\<exists>m. wi_p7_message_init_with_bytes b s
        (w32_bytes mid @ w32_bytes (ucast (pf_id f)) @ w32_bytes claimed @ payload) = Inr (Some m) \<and>
     wi_p7_spec_verify_message b s m = Inr True \<and>
     wi_p7_message_string_for_name b s m name = Inl Outside_Buffer"
proof -
  from overlong_string [OF assms(1-5), of claimed payload] obtain m where
    m: "wi_p7_message_init_with_bytes b s (w32_bytes mid @ w32_bytes (field_id32 f) @ w32_bytes claimed @ payload) = Inr (Some m)"
    and id: "pb_id m = mid" and buf: "pb_buffer m = w32_bytes mid @ w32_bytes (field_id32 f) @ w32_bytes claimed @ payload"
    and size: "p7_message_size m = of_nat (8 + length payload)"
    and fid: "wi_read_swap_big_to_host_int32 (pb_buffer m) 4 = Inr (field_id32 f)"
    and len: "wi_read_swap_big_to_host_int32 (pb_buffer m) 8 = Inr claimed"
    and f: "wi_p7_spec_field_with_id b s (ucast (field_id32 f)) = Some f" "field_size32 f = 0"
    and eq: "field_id32 f = ucast (pf_id f)" "pf_name f = name" and w: "wire_field b s f" by blast
  have sm: "map_of (sp_messages_id s) (ucast (pb_id m)) = Some sm" using assms(3) id by simp
  have "wi_p7_spec_verify_message b s m = Inr True"
    by (rule overlong_verified [OF assms(1) sm size fid len f w _ assms(8)]) (use assms(6,7) eq(2) in simp_all)
  moreover have "length (pb_buffer m) = 12 + length payload" by (simp add: buf)
  note overlong_read [OF size this fid len f assms(5,7,8)]
  ultimately show ?thesis using m unfolding eq(1) by blast
qed

theorem p7_string_reads_outside_witness:
  "\<exists>m. wi_p7_message_init_with_bytes None wired_example_spec
        (w32_bytes 3000 @ w32_bytes (ucast (pf_id example_nick)) @ w32_bytes 65536 @ [0]) = Inr (Some m) \<and>
     wi_p7_spec_verify_message None wired_example_spec m = Inr True \<and>
     wi_p7_message_string_for_name None wired_example_spec m ''wired.user.nick'' = Inl Outside_Buffer"
proof -
  have own: "map_of (sp_messages_id wired_example_spec) (ucast (3000 :: 32 word)) = Some example_set_nick"
    using example_messages(1) by simp
  have req: "required_names example_set_nick = [''wired.user.nick'']"
    by (simp add: example_required(1)) (simp add: example_nick_def)
  show ?thesis
    by (rule p7_string_reads_outside [OF example_ok builtin_none own example_settings(1) example_fields(1) req]) simp_all
qed

text \<open>
  C16: A string that claims eight bytes less than 2 to the 32 makes the verification itself read
  outside the buffer: the offset, compared as a number of 32 bits, is 0 again, and the loop goes on
  4 GB behind the message.
\<close>

theorem p7_verify_reads_outside:
  assumes "spec_ok b s" "builtin_ok b" "map_of (sp_messages_id s) (ucast mid) = Some sm"
    and "p7_setting_ok b s (name, PV_String t)" "wi_p7_spec_field_with_name b s name = Some f"
    and "length payload + 16 < 2 ^ 32"
  shows "\<exists>m. wi_p7_message_init_with_bytes b s
        (w32_bytes mid @ w32_bytes (ucast (pf_id f)) @ w32_bytes (- 8) @ payload) = Inr (Some m) \<and>
     wi_p7_spec_verify_message b s m = Inl Outside_Buffer"
proof -
  from overlong_string [OF assms(1-5), of "- 8" payload] obtain m where
    m: "wi_p7_message_init_with_bytes b s (w32_bytes mid @ w32_bytes (field_id32 f) @ w32_bytes (- 8) @ payload) = Inr (Some m)"
    and id: "pb_id m = mid" and buf: "pb_buffer m = w32_bytes mid @ w32_bytes (field_id32 f) @ w32_bytes (- 8) @ payload"
    and size: "p7_message_size m = of_nat (8 + length payload)"
    and fid: "wi_read_swap_big_to_host_int32 (pb_buffer m) 4 = Inr (field_id32 f)"
    and len: "wi_read_swap_big_to_host_int32 (pb_buffer m) 8 = Inr (- 8)"
    and f: "wi_p7_spec_field_with_id b s (ucast (field_id32 f)) = Some f" "field_size32 f = 0"
    and eq: "field_id32 f = ucast (pf_id f)" by blast
  have un: "unat (of_nat (8 + length payload) :: 32 word) = 8 + length payload"
    using assms(6) by (intro unat_of_nat32) simp
  have start: "(of_nat 0 :: 32 word) < p7_message_size m" unfolding size word_less_nat_alt using un by simp
  have wrap: "8 + unat (- 8 :: 32 word) = 2 ^ 32" by simp
  moreover have "(of_nat (2 ^ 32) :: 32 word) = of_nat 0" unfolding word_of_nat_eq_iff by simp
  ultimately have again: "(of_nat (8 + unat (- 8 :: 32 word)) :: 32 word) < p7_message_size m"
    using start by (simp only:)
  have "wi_read_swap_big_to_host_int32 (pb_buffer m) (4 + (8 + unat (- 8 :: 32 word))) = Inl Outside_Buffer"
    using assms(6) unfolding wrap by (simp add: wi_read_swap_big_to_host_int32_def p7_load_def buf)
  then have out: "p7_verify_count b s sm m (8 + unat (- 8 :: 32 word)) n = Inl Outside_Buffer" for n
    by (subst p7_verify_count.simps) (simp only: again if_True WI_P7_MESSAGE_BINARY_HEADER_SIZE_def p7_bind_simps)
  have "wi_read_swap_big_to_host_int32 (pb_buffer m) (4 + 4) = Inr (- 8)" using len by simp
  then have "p7_verify_count b s sm m 0 0 = Inl Outside_Buffer"
    by (subst p7_verify_count.simps)
      (simp only: start if_True WI_P7_MESSAGE_BINARY_HEADER_SIZE_def add_0_right add_0 fid p7_bind_simps f(1)
        option.case Let_def field_size32_def [symmetric] f(2) simp_thms out)
  then have "wi_p7_spec_verify_message b s m = Inl Outside_Buffer"
    by (simp add: wi_p7_spec_verify_message_def id assms(3))
  with m show ?thesis unfolding eq by blast
qed

theorem p7_verify_reads_outside_witness:
  "\<exists>m. wi_p7_message_init_with_bytes None wired_example_spec
        (w32_bytes 3000 @ w32_bytes (ucast (pf_id example_nick)) @ w32_bytes (- 8) @ []) = Inr (Some m) \<and>
     wi_p7_spec_verify_message None wired_example_spec m = Inl Outside_Buffer"
proof -
  have own: "map_of (sp_messages_id wired_example_spec) (ucast (3000 :: 32 word)) = Some example_set_nick"
    using example_messages(1) by simp
  show ?thesis
    by (rule p7_verify_reads_outside [OF example_ok builtin_none own example_settings(1) example_fields(1)]) simp
qed

end
