(* ===== verification/Wi_Base.thy ===== *)
theory Wi_Base
  imports Prelude
begin

text \<open>
  The arithmetic helpers of base/wi-base.h and base/wi-macros.h that size the containers.
  \<open>wi_uinteger_t\<close> is a 64-bit count of objects in memory and is modelled as \<open>nat\<close>.
  \<open>wi_exp2m1\<close> shifts the \<open>int\<close> 1, so its C value is defined for exponents below 31 only;
  \<open>wi_capacity_shift_defined\<close> shows that every call the containers make stays below it.
\<close>

fun wi_log2 :: "nat \<Rightarrow> nat" where
  "wi_log2 n = (if n < 2 then 0 else wi_log2 (n div 2) + 1)"

declare wi_log2.simps [simp del]

definition wi_exp2m1 :: "nat \<Rightarrow> nat" where
  "wi_exp2m1 n = 2 ^ n - 1"

definition wi_clamp :: "nat \<Rightarrow> nat \<Rightarrow> nat \<Rightarrow> nat" where
  "wi_clamp x lo hi = (if x > hi then hi else if x < lo then lo else x)"

lemma wi_log2_bounds:
  "0 < n \<Longrightarrow> 2 ^ wi_log2 n \<le> n \<and> n < 2 ^ (wi_log2 n + 1)"
proof (induction n rule: wi_log2.induct)
  case (1 n)
  show ?case
  proof (cases "n < 2")
    case True
    with "1.prems" show ?thesis by (simp add: wi_log2.simps)
  next
    case False
    then have "0 < n div 2" by simp
    with False "1.IH" have "2 ^ wi_log2 (n div 2) \<le> n div 2 \<and> n div 2 < 2 ^ (wi_log2 (n div 2) + 1)"
      by simp
    with False show ?thesis by (auto simp: wi_log2.simps [of n])
  qed
qed

lemma wi_capacity_ge: "n \<le> wi_exp2m1 (wi_log2 n + 1)"
proof (cases "n = 0")
  case False
  then have "n < 2 ^ (wi_log2 n + 1)" using wi_log2_bounds [of n] by simp
  then show ?thesis by (simp add: wi_exp2m1_def)
qed simp

lemma wi_capacity_less: "0 < n \<Longrightarrow> wi_exp2m1 (wi_log2 n + 1) < 2 * n"
  using wi_log2_bounds [of n] by (simp add: wi_exp2m1_def) linarith

lemma wi_capacity_shift_defined:
  assumes "n < 2 ^ 30"
  shows "wi_log2 n + 1 < 31"
proof (cases "n = 0")
  case True
  then show ?thesis by (simp add: wi_log2.simps)
next
  case False
  then have "2 ^ wi_log2 n \<le> n" using wi_log2_bounds [of n] by simp
  also note assms
  finally have "(2::nat) ^ wi_log2 n < 2 ^ 30" .
  then have "wi_log2 n < 30" by (rule power_less_imp_less_exp [rotated]) simp
  then show ?thesis by simp
qed

lemma wi_clamp_bounds: "lo \<le> hi \<Longrightarrow> lo \<le> wi_clamp x lo hi \<and> wi_clamp x lo hi \<le> hi"
  by (simp add: wi_clamp_def)

lemma wi_clamp_ge: "x \<le> hi \<Longrightarrow> x \<le> wi_clamp x lo hi"
  by (simp add: wi_clamp_def)

lemma wi_clamp_pos: "0 < lo \<Longrightarrow> 0 < hi \<Longrightarrow> 0 < wi_clamp x lo hi"
  by (simp add: wi_clamp_def)

subsection \<open>Hash codes\<close>

text \<open>
  The hash functions of base/wi-base.c. A \<open>char\<close> is a signed byte that C promotes to a
  32-bit \<open>int\<close> before it multiplies; the product is then sign-extended to the 64 bits of
  \<open>wi_hash_code_t\<close>. The products of the bytes \<open>0x7f\<close>, \<open>0x80\<close> and \<open>0x81\<close> leave the range of
  \<open>int\<close>, which C leaves undefined; the model wraps them, as the compiled code does.
\<close>

definition hash_byte :: "int \<Rightarrow> 8 word \<Rightarrow> 64 word" where
  "hash_byte factor c = word_of_int (sint (word_of_int (sint c * factor) :: 32 word))"

definition hash_four :: "64 word \<Rightarrow> 8 word \<Rightarrow> 8 word \<Rightarrow> 8 word \<Rightarrow> 8 word \<Rightarrow> 64 word" where
  "hash_four hash a b c d =
     hash * 67503105 + hash_byte 16974593 a + hash_byte 66049 b + hash_byte 257 c + hash_byte 1 d"

fun hash_short :: "8 word list \<Rightarrow> 64 word \<Rightarrow> 64 word" where
  "hash_short (a # b # c # d # s) hash = hash_short s (hash_four hash a b c d)"
| "hash_short (a # s) hash = hash_short s (hash * 257 + hash_byte 1 a)"
| "hash_short [] hash = hash"

definition wi_hash_cstring :: "8 word list \<Rightarrow> 64 word" where
  "wi_hash_cstring s =
     (let len = length s;
          hash = (if len < 16 then hash_short s (of_nat len)
                  else let e = drop (len - 8) s;
                           h1 = hash_four (of_nat len) (s ! 0) (s ! 1) (s ! 2) (s ! 3);
                           h2 = hash_four h1 (s ! 4) (s ! 5) (s ! 6) (s ! 7);
                           h3 = hash_four h2 (e ! 0) (e ! 1) (e ! 2) (e ! 3)
                       in hash_four h3 (e ! 4) (e ! 5) (e ! 6) (e ! 7))
      in hash + push_bit (len mod 32) hash)"

definition wi_hash_pointer :: "64 word \<Rightarrow> 64 word" where
  "wi_hash_pointer p = xor (drop_bit 32 p) p"

definition wi_hash_int :: "32 word \<Rightarrow> 64 word" where
  "wi_hash_int i = word_of_int (sint (if sint i < 0 then - i else i))"

end
