(* ===== verification/Wi_Array.thy ===== *)
theory Wi_Array
  imports Wi_Base
begin

text \<open>
  The growable array of collections/wi-array.c. \<open>items\<close> is the block of item pointers
  of \<open>items_count\<close> slots; a slot holds \<open>Some\<close> of the item's datum or \<open>None\<close> for a
  pointer that is NULL or was never written. Items are carved from chunks of
  \<open>items_per_page\<close> structures and recycled through a free list; the model keeps the
  number of chunks, the offset into the last one and the length of the free list, which
  is all the code reads of them. An item belongs to one slot of one array, so its datum
  is stored in the slot.

  The abstraction \<open>wi_array_list\<close> reads the first \<open>data_count\<close> slots; the lemmas say
  what each operation does to that list, that no slot or chunk is lost, and which calls
  stop in an assertion. The retain and release callbacks only count references and have
  no counterpart; \<open>is_equal\<close> is the argument \<open>eq\<close>, the comparison that the callbacks
  of the array make. \<open>array_null\<close> is the datum that is NULL, where the data are pointers or
  numbers in the place of pointers.
\<close>

datatype array_callbacks = Default_Array_Callbacks | Null_Array_Callbacks

record 'a wi_array =
  array_callbacks :: array_callbacks
  array_null :: "'a option"
  items :: "'a option list"
  items_count :: nat
  min_count :: nat
  data_count :: nat
  item_chunks_count :: nat
  item_chunks_offset :: nat
  item_free_count :: nat
  items_per_page :: nat
  is_mutable :: bool

definition WI_ARRAY_MIN_COUNT :: nat where "WI_ARRAY_MIN_COUNT = 10"
definition WI_ARRAY_MAX_COUNT :: nat where "WI_ARRAY_MAX_COUNT = 16777213"

definition wi_array_init_with_capacity_and_callbacks ::
  "nat \<Rightarrow> bool \<Rightarrow> nat \<Rightarrow> array_callbacks \<Rightarrow> 'a option \<Rightarrow> 'a wi_array" where
  "wi_array_init_with_capacity_and_callbacks page mut capacity callbacks null =
     (let n = max (wi_exp2m1 (wi_log2 capacity + 1)) WI_ARRAY_MIN_COUNT
      in \<lparr>array_callbacks = callbacks, array_null = null, items = replicate n None, items_count = n, min_count = n, data_count = 0,
          item_chunks_count = 0, item_chunks_offset = page, item_free_count = 0,
          items_per_page = page, is_mutable = mut\<rparr>)"

definition wi_array_init_with_capacity :: "nat \<Rightarrow> bool \<Rightarrow> nat \<Rightarrow> 'a wi_array" where
  "wi_array_init_with_capacity page mut capacity =
     wi_array_init_with_capacity_and_callbacks page mut capacity Default_Array_Callbacks None"

definition wi_array_list :: "'a wi_array \<Rightarrow> 'a list" where
  "wi_array_list a = map the (take (data_count a) (items a))"

definition wi_array_slots_ok :: "'a wi_array \<Rightarrow> bool" where
  "wi_array_slots_ok a \<longleftrightarrow>
     length (items a) = items_count a \<and> data_count a \<le> items_count a \<and> 0 < min_count a \<and>
     (\<forall>i < data_count a. items a ! i \<noteq> None)"

text \<open>
  Every structure of every chunk is in use, on the free list or past the offset of the
  last chunk: none is lost and none is counted twice.
\<close>

definition wi_array_chunks_ok :: "nat \<Rightarrow> 'a wi_array \<Rightarrow> bool" where
  "wi_array_chunks_ok used a \<longleftrightarrow>
     0 < items_per_page a \<and> item_chunks_offset a \<le> items_per_page a \<and>
     item_chunks_count a * items_per_page a =
       used + item_free_count a + (items_per_page a - item_chunks_offset a)"

definition wi_array_ok :: "'a wi_array \<Rightarrow> bool" where
  "wi_array_ok a \<longleftrightarrow> wi_array_slots_ok a \<and> wi_array_chunks_ok (data_count a) a"

subsection \<open>Sizing\<close>

definition wi_realloc_items :: "nat \<Rightarrow> 'a option list \<Rightarrow> 'a option list" where
  "wi_realloc_items n xs = take n xs @ replicate (n - length xs) None"

definition wi_array_grow :: "'a wi_array \<Rightarrow> nat \<Rightarrow> 'a wi_array" where
  "wi_array_grow a index =
     (let n = (index + 1) * 3 div 2
      in a\<lparr>items := wi_realloc_items n (items a), items_count := n\<rparr>)"

definition wi_array_optimize :: "'a wi_array \<Rightarrow> 'a wi_array" where
  "wi_array_optimize a =
     (let n = wi_clamp (data_count a) (min_count a) WI_ARRAY_MAX_COUNT
      in a\<lparr>items := wi_realloc_items n (items a), items_count := n\<rparr>)"

definition wi_array_check_optimize :: "'a wi_array \<Rightarrow> 'a wi_array" where
  "wi_array_check_optimize a =
     (if (items_count a \<ge> 3 * data_count a \<and> items_count a > min_count a) \<or>
         (data_count a \<ge> 3 * items_count a \<and> items_count a < WI_ARRAY_MAX_COUNT)
      then wi_array_optimize a else a)"

subsection \<open>Items\<close>

text \<open>
  \<open>create_item\<close>: with an empty free list, a new chunk is allocated when the last one
  is used up; one structure of the last chunk goes through the free list to the caller.
\<close>

definition wi_array_create_item :: "'a wi_array \<Rightarrow> 'a wi_array" where
  "wi_array_create_item a =
     (let a1 =
        (if item_free_count a = 0 then
           (let a0 = (if item_chunks_offset a = items_per_page a
                      then a\<lparr>item_chunks_count := item_chunks_count a + 1,
                              item_chunks_offset := 0\<rparr>
                      else a)
            in a0\<lparr>item_free_count := 1, item_chunks_offset := item_chunks_offset a0 + 1\<rparr>)
         else a)
      in a1\<lparr>item_free_count := item_free_count a1 - 1\<rparr>)"

definition wi_array_remove_item :: "'a wi_array \<Rightarrow> 'a wi_array" where
  "wi_array_remove_item a = a\<lparr>item_free_count := item_free_count a + 1\<rparr>"

definition wi_array_add_item :: "'a wi_array \<Rightarrow> 'a \<Rightarrow> 'a wi_array" where
  "wi_array_add_item a x =
     (let a1 = (if data_count a \<ge> items_count a then wi_array_grow a (data_count a) else a)
      in a1\<lparr>items := (items a1)[data_count a1 := Some x], data_count := data_count a1 + 1\<rparr>)"

text \<open>\<open>memmove (p + dst, p + src, n)\<close> within one block, for ranges inside the block.\<close>

definition memmove :: "nat \<Rightarrow> nat \<Rightarrow> nat \<Rightarrow> 'b list \<Rightarrow> 'b list" where
  "memmove dst src n xs = take dst xs @ take n (drop src xs) @ drop (dst + n) xs"

definition wi_array_insert_item_at_index :: "'a wi_array \<Rightarrow> 'a \<Rightarrow> nat \<Rightarrow> 'a wi_array" where
  "wi_array_insert_item_at_index a x index =
     (let a1 = (if data_count a \<ge> items_count a then wi_array_grow a (data_count a + 1) else a);
          xs = memmove (index + 1) index (data_count a1 - index) (items a1)
      in a1\<lparr>items := xs[index := Some x], data_count := data_count a1 + 1\<rparr>)"

text \<open>The loop of \<open>_wi_array_add_item_sorted\<close>: the first index whose datum is greater.\<close>

fun wi_array_sorted_index :: "('a \<Rightarrow> 'a \<Rightarrow> int) \<Rightarrow> 'a \<Rightarrow> 'a list \<Rightarrow> nat \<Rightarrow> nat option" where
  "wi_array_sorted_index cmp x [] i = None"
| "wi_array_sorted_index cmp x (y # ys) i =
     (if cmp x y < 0 then Some i else wi_array_sorted_index cmp x ys (Suc i))"

definition wi_array_add_item_sorted :: "'a wi_array \<Rightarrow> 'a \<Rightarrow> ('a \<Rightarrow> 'a \<Rightarrow> int) \<Rightarrow> 'a wi_array" where
  "wi_array_add_item_sorted a x cmp =
     (if data_count a = 0 then wi_array_add_item a x
      else case wi_array_sorted_index cmp x (wi_array_list a) 0 of
             Some i \<Rightarrow> wi_array_insert_item_at_index a x i
           | None \<Rightarrow> wi_array_add_item a x)"

definition wi_array_add_data_internal :: "'a wi_array \<Rightarrow> 'a \<Rightarrow> 'a wi_array" where
  "wi_array_add_data_internal a x = wi_array_add_item (wi_array_create_item a) x"

fun wi_array_remove_items :: "nat \<Rightarrow> 'a wi_array \<Rightarrow> 'a wi_array" where
  "wi_array_remove_items 0 a = a"
| "wi_array_remove_items (Suc n) a = wi_array_remove_items n (wi_array_remove_item a)"

definition wi_array_remove_all_data_internal :: "'a wi_array \<Rightarrow> 'a wi_array" where
  "wi_array_remove_all_data_internal a =
     (let a1 = (if data_count a > 0
                then (wi_array_remove_items (data_count a) a)\<lparr>data_count := 0\<rparr> else a)
      in wi_array_check_optimize a1)"

subsection \<open>Reading\<close>

definition wi_array_data_at_index :: "'a wi_array \<Rightarrow> nat \<Rightarrow> 'a wi_checked" where
  "wi_array_data_at_index a index =
     (if index < data_count a then Inr (the (items a ! index))
      else Inl (Index_Out_Of_Range index (data_count a)))"

definition wi_array_first_data :: "'a wi_array \<Rightarrow> 'a option" where
  "wi_array_first_data a = (if data_count a > 0 then items a ! 0 else None)"

definition wi_array_last_data :: "'a wi_array \<Rightarrow> 'a option" where
  "wi_array_last_data a = (if data_count a > 0 then items a ! (data_count a - 1) else None)"

fun wi_array_index_from :: "('a \<Rightarrow> 'a \<Rightarrow> bool) \<Rightarrow> 'a \<Rightarrow> 'a list \<Rightarrow> nat \<Rightarrow> nat option" where
  "wi_array_index_from eq x [] i = None"
| "wi_array_index_from eq x (y # ys) i =
     (if eq y x then Some i else wi_array_index_from eq x ys (Suc i))"

text \<open>\<open>None\<close> stands for \<open>WI_NOT_FOUND\<close>.\<close>

definition wi_array_index_of_data :: "('a \<Rightarrow> 'a \<Rightarrow> bool) \<Rightarrow> 'a wi_array \<Rightarrow> 'a \<Rightarrow> nat option" where
  "wi_array_index_of_data eq a x = wi_array_index_from eq x (wi_array_list a) 0"

definition wi_array_contains_data :: "('a \<Rightarrow> 'a \<Rightarrow> bool) \<Rightarrow> 'a wi_array \<Rightarrow> 'a \<Rightarrow> bool" where
  "wi_array_contains_data eq a x = (wi_array_index_of_data eq a x \<noteq> None)"

definition wi_array_is_equal :: "('a \<Rightarrow> 'a \<Rightarrow> bool) \<Rightarrow> 'a wi_array \<Rightarrow> 'a wi_array \<Rightarrow> bool" where
  "wi_array_is_equal eq a b =
     (data_count a = data_count b \<and> array_callbacks a = array_callbacks b \<and>
      list_all (\<lambda>i. eq (wi_array_list a ! i) (wi_array_list b ! i)) [0..<data_count a])"

subsection \<open>The public mutators\<close>

text \<open>
  Adding refuses NULL in any case, the other calls only where the callbacks are those that
  retain and release the data.
\<close>

definition wi_array_is_null :: "'a wi_array \<Rightarrow> 'a \<Rightarrow> bool" where
  "wi_array_is_null a x \<longleftrightarrow> array_null a = Some x"

definition wi_array_refuses_null :: "'a wi_array \<Rightarrow> 'a \<Rightarrow> bool" where
  "wi_array_refuses_null a x \<longleftrightarrow> array_callbacks a = Default_Array_Callbacks \<and> wi_array_is_null a x"

definition wi_mutable_array_add_data :: "'a wi_array \<Rightarrow> 'a \<Rightarrow> 'a wi_array wi_checked" where
  "wi_mutable_array_add_data a x =
     (if \<not> is_mutable a then Inl Not_Mutable
      else if wi_array_is_null a x then Inl Null_Data
      else Inr (wi_array_add_data_internal a x))"

definition wi_mutable_array_add_data_sorted ::
  "'a wi_array \<Rightarrow> 'a \<Rightarrow> ('a \<Rightarrow> 'a \<Rightarrow> int) \<Rightarrow> 'a wi_array wi_checked" where
  "wi_mutable_array_add_data_sorted a x cmp =
     (if \<not> is_mutable a then Inl Not_Mutable
      else if wi_array_refuses_null a x then Inl Null_Data
      else Inr (wi_array_add_item_sorted (wi_array_create_item a) x cmp))"

definition wi_mutable_array_add_data_from_array ::
  "'a wi_array \<Rightarrow> 'a wi_array \<Rightarrow> 'a wi_array wi_checked" where
  "wi_mutable_array_add_data_from_array a b =
     (if is_mutable a then Inr (fold (\<lambda>x a. wi_array_add_data_internal a x) (wi_array_list b) a)
      else Inl Not_Mutable)"

definition wi_mutable_array_insert_data_at_index ::
  "'a wi_array \<Rightarrow> 'a \<Rightarrow> nat \<Rightarrow> 'a wi_array wi_checked" where
  "wi_mutable_array_insert_data_at_index a x index =
     (if \<not> is_mutable a then Inl Not_Mutable
      else if \<not> index < data_count a then Inl (Index_Out_Of_Range index (data_count a))
      else if wi_array_refuses_null a x then Inl Null_Data
      else Inr (wi_array_insert_item_at_index (wi_array_create_item a) x index))"

definition wi_mutable_array_replace_data_at_index ::
  "'a wi_array \<Rightarrow> 'a \<Rightarrow> nat \<Rightarrow> 'a wi_array wi_checked" where
  "wi_mutable_array_replace_data_at_index a x index =
     (if \<not> is_mutable a then Inl Not_Mutable
      else if \<not> index < data_count a then Inl (Index_Out_Of_Range index (data_count a))
      else if wi_array_refuses_null a x then Inl Null_Data
      else (let a1 = wi_array_remove_item (wi_array_create_item a)
            in Inr (a1\<lparr>items := (items a1)[index := Some x]\<rparr>)))"

definition wi_mutable_array_set_array :: "'a wi_array \<Rightarrow> 'a wi_array \<Rightarrow> 'a wi_array wi_checked" where
  "wi_mutable_array_set_array a b =
     (if is_mutable a
      then wi_mutable_array_add_data_from_array (wi_array_remove_all_data_internal a) b
      else Inl Not_Mutable)"

definition wi_mutable_array_remove_data_at_index :: "'a wi_array \<Rightarrow> nat \<Rightarrow> 'a wi_array wi_checked" where
  "wi_mutable_array_remove_data_at_index a index =
     (if \<not> is_mutable a then Inl Not_Mutable
      else if \<not> index < data_count a then Inl (Index_Out_Of_Range index (data_count a))
      else
        (let a1 = wi_array_remove_item a;
             xs = (items a1)[index := None];
             ys = (if index \<noteq> data_count a1 - 1
                   then (memmove index (index + 1) (data_count a1 - index - 1) xs)
                          [data_count a1 - 1 := None]
                   else xs)
         in Inr (wi_array_check_optimize (a1\<lparr>items := ys, data_count := data_count a1 - 1\<rparr>))))"

definition wi_mutable_array_remove_data ::
  "('a \<Rightarrow> 'a \<Rightarrow> bool) \<Rightarrow> 'a wi_array \<Rightarrow> 'a \<Rightarrow> 'a wi_array wi_checked" where
  "wi_mutable_array_remove_data eq a x =
     (if \<not> is_mutable a then Inl Not_Mutable
      else if wi_array_refuses_null a x then Inl Null_Data
      else case wi_array_index_of_data eq a x of
             Some index \<Rightarrow> wi_mutable_array_remove_data_at_index a index
           | None \<Rightarrow> Inr a)"

fun wi_array_remove_range_loop :: "nat \<Rightarrow> nat \<Rightarrow> 'a wi_array \<Rightarrow> 'a wi_array wi_checked" where
  "wi_array_remove_range_loop 0 loc a = Inr a"
| "wi_array_remove_range_loop (Suc n) loc a =
     wi_checked_bind (wi_mutable_array_remove_data_at_index a loc)
       (wi_array_remove_range_loop n loc)"

definition wi_mutable_array_remove_data_in_range ::
  "'a wi_array \<Rightarrow> nat \<Rightarrow> nat \<Rightarrow> 'a wi_array wi_checked" where
  "wi_mutable_array_remove_data_in_range a loc len =
     (if is_mutable a then wi_array_remove_range_loop len loc a else Inl Not_Mutable)"

fun wi_array_remove_each :: "('a \<Rightarrow> 'a \<Rightarrow> bool) \<Rightarrow> 'a list \<Rightarrow> 'a wi_array \<Rightarrow> 'a wi_array wi_checked" where
  "wi_array_remove_each eq [] a = Inr a"
| "wi_array_remove_each eq (x # xs) a =
     wi_checked_bind
       (case wi_array_index_of_data eq a x of
          Some index \<Rightarrow> wi_mutable_array_remove_data_at_index a index
        | None \<Rightarrow> Inr a)
       (wi_array_remove_each eq xs)"

definition wi_mutable_array_remove_data_in_array ::
  "('a \<Rightarrow> 'a \<Rightarrow> bool) \<Rightarrow> 'a wi_array \<Rightarrow> 'a wi_array \<Rightarrow> 'a wi_array wi_checked" where
  "wi_mutable_array_remove_data_in_array eq a b =
     (if is_mutable a then wi_array_remove_each eq (wi_array_list b) a else Inl Not_Mutable)"

definition wi_mutable_array_remove_all_data :: "'a wi_array \<Rightarrow> 'a wi_array wi_checked" where
  "wi_mutable_array_remove_all_data a =
     (if is_mutable a then Inr (wi_array_remove_all_data_internal a) else Inl Not_Mutable)"

text \<open>\<open>wi_mutable_array_reverse\<close> swaps the pointers \<open>i\<close> and \<open>cnt - i - 1\<close> for each \<open>i < max\<close>.\<close>

fun wi_array_reverse_loop :: "nat \<Rightarrow> nat \<Rightarrow> nat \<Rightarrow> 'b list \<Rightarrow> 'b list" where
  "wi_array_reverse_loop 0 i cnt xs = xs"
| "wi_array_reverse_loop (Suc n) i cnt xs =
     wi_array_reverse_loop n (Suc i) cnt
       (xs[i := xs ! (cnt - i - 1), cnt - i - 1 := xs ! i])"

definition wi_mutable_array_reverse :: "'a wi_array \<Rightarrow> 'a wi_array wi_checked" where
  "wi_mutable_array_reverse a =
     (if is_mutable a
      then Inr (a\<lparr>items := wi_array_reverse_loop (data_count a div 2) 0 (data_count a) (items a)\<rparr>)
      else Inl Not_Mutable)"

text \<open>
  \<open>qsort\<close> of the C library is the argument \<open>qs\<close>; the sorted data are written back into the items
  in place.
\<close>

definition wi_mutable_array_sort ::
  "(('a \<Rightarrow> 'a \<Rightarrow> int) \<Rightarrow> 'a list \<Rightarrow> 'a list) \<Rightarrow> 'a wi_array \<Rightarrow> ('a \<Rightarrow> 'a \<Rightarrow> int) \<Rightarrow> 'a wi_array wi_checked" where
  "wi_mutable_array_sort qs a cmp =
     (if \<not> is_mutable a then Inl Not_Mutable
      else if data_count a = 0 then Inr a
      else Inr (a\<lparr>items := map Some (take (data_count a) (qs cmp (wi_array_list a))) @ drop (data_count a) (items a)\<rparr>))"

subsection \<open>New arrays from old ones\<close>

definition wi_array_copy :: "'a wi_array \<Rightarrow> 'a wi_array" where
  "wi_array_copy a =
     fold (\<lambda>x b. wi_array_add_data_internal b x) (wi_array_list a)
       (wi_array_init_with_capacity_and_callbacks (items_per_page a) False (data_count a) (array_callbacks a) (array_null a))"

definition wi_array_mutable_copy :: "'a wi_array \<Rightarrow> 'a wi_array" where
  "wi_array_mutable_copy a = (wi_array_copy a)\<lparr>is_mutable := True\<rparr>"

fun wi_array_subarray_loop :: "nat \<Rightarrow> nat \<Rightarrow> 'a wi_array \<Rightarrow> 'a wi_array \<Rightarrow> 'a wi_array" where
  "wi_array_subarray_loop 0 i a b = b"
| "wi_array_subarray_loop (Suc n) i a b =
     wi_array_subarray_loop n (Suc i) a (wi_array_add_data_internal b (the (items a ! i)))"

text \<open>
  The two assertions of \<open>wi_array_subarray_with_range\<close>; for an empty range the second
  index wraps to the one before \<open>location\<close>, and to the largest word at 0.
\<close>

definition wi_array_subarray_with_range :: "'a wi_array \<Rightarrow> nat \<Rightarrow> nat \<Rightarrow> 'a wi_array wi_checked" where
  "wi_array_subarray_with_range a loc len =
     (let upper = (if loc + len = 0 then 2 ^ 64 - 1 else loc + len - 1)
      in if \<not> loc < data_count a then Inl (Index_Out_Of_Range loc (data_count a))
         else if \<not> upper < data_count a then Inl (Index_Out_Of_Range upper (data_count a))
         else Inr (wi_array_subarray_loop len loc a
                     (wi_array_init_with_capacity_and_callbacks (items_per_page a) False len
                       Default_Array_Callbacks (array_null a))))"

text \<open>
  \<open>wi_array_by_adding_data\<close> makes a mutable copy and then calls the mutator on its
  argument, not on the copy: the first component is the argument after the call, the
  second the array that is returned.
\<close>

definition wi_array_by_adding_data :: "'a wi_array \<Rightarrow> 'a \<Rightarrow> ('a wi_array \<times> 'a wi_array) wi_checked" where
  "wi_array_by_adding_data a x =
     (let new = wi_array_mutable_copy a
      in wi_checked_bind (wi_mutable_array_add_data a x)
           (\<lambda>a'. Inr (a', new\<lparr>is_mutable := False\<rparr>)))"

definition wi_array_by_adding_data_from_array ::
  "'a wi_array \<Rightarrow> 'a wi_array \<Rightarrow> ('a wi_array \<times> 'a wi_array) wi_checked" where
  "wi_array_by_adding_data_from_array a b =
     (let new = wi_array_mutable_copy a
      in wi_checked_bind (wi_mutable_array_add_data_from_array a b)
           (\<lambda>a'. Inr (a', new\<lparr>is_mutable := False\<rparr>)))"

text \<open>Enumerators: the context is the index of the next datum.\<close>

definition wi_enumerator_array_data_enumerator :: "'a wi_array \<Rightarrow> nat \<Rightarrow> ('a \<times> nat) option" where
  "wi_enumerator_array_data_enumerator a i =
     (if i = data_count a then None
      else case wi_array_data_at_index a i of
             Inr x \<Rightarrow> Some (x, i + 1) | Inl _ \<Rightarrow> None)"

definition wi_enumerator_array_reverse_data_enumerator :: "'a wi_array \<Rightarrow> nat \<Rightarrow> ('a \<times> nat) option" where
  "wi_enumerator_array_reverse_data_enumerator a i =
     (if i = data_count a then None
      else case wi_array_data_at_index a (data_count a - i - 1) of
             Inr x \<Rightarrow> Some (x, i + 1) | Inl _ \<Rightarrow> None)"

subsection \<open>What each step does to the abstraction and the invariant\<close>

lemma wi_array_okD:
  "wi_array_ok a \<Longrightarrow> wi_array_slots_ok a"
  "wi_array_ok a \<Longrightarrow> wi_array_chunks_ok (data_count a) a"
  by (simp_all add: wi_array_ok_def)

lemma length_wi_array_list [simp]:
  "wi_array_slots_ok a \<Longrightarrow> length (wi_array_list a) = data_count a"
  by (simp add: wi_array_slots_ok_def wi_array_list_def)

lemma nth_wi_array_list:
  "wi_array_slots_ok a \<Longrightarrow> i < data_count a \<Longrightarrow> items a ! i = Some (wi_array_list a ! i)"
  by (auto simp: wi_array_slots_ok_def wi_array_list_def)

text \<open>The slots in use, as pointers: the form the proofs about the slots work with.\<close>

lemma take_items:
  "wi_array_slots_ok a \<Longrightarrow> take (data_count a) (items a) = map Some (wi_array_list a)"
  by (rule nth_equalityI) (auto simp: wi_array_slots_ok_def wi_array_list_def)

lemma slots_okI:
  assumes "length (items a) = items_count a" and "data_count a \<le> items_count a"
    and "0 < min_count a" and "take (data_count a) (items a) = map Some xs"
  shows "wi_array_slots_ok a \<and> wi_array_list a = xs"
proof -
  have "items a ! i = Some (xs ! i)" if "i < data_count a" for i
  proof -
    have "length xs = data_count a"
      using arg_cong [OF assms(4), of length] assms(1,2) by simp
    then show ?thesis
      using that arg_cong [OF assms(4), of "\<lambda>l. l ! i"] assms(1,2) by simp
  qed
  with assms show ?thesis
    by (simp add: wi_array_slots_ok_def wi_array_list_def comp_def)
qed

lemma length_wi_realloc_items [simp]: "length (wi_realloc_items n xs) = n"
  by (simp add: wi_realloc_items_def)

lemma take_wi_realloc_items:
  "k \<le> n \<Longrightarrow> k \<le> length xs \<Longrightarrow> take k (wi_realloc_items n xs) = take k xs"
  by (simp add: wi_realloc_items_def min_def)

lemma length_memmove:
  "dst + n \<le> length xs \<Longrightarrow> src + n \<le> length xs \<Longrightarrow> length (memmove dst src n xs) = length xs"
  by (simp add: memmove_def)

lemma wi_array_grow:
  assumes "wi_array_slots_ok a" and "data_count a \<le> index"
  shows "wi_array_slots_ok (wi_array_grow a index) \<and> wi_array_list (wi_array_grow a index) = wi_array_list a"
    and "index < items_count (wi_array_grow a index)"
proof -
  have n: "index < (index + 1) * 3 div 2" by simp
  show "wi_array_slots_ok (wi_array_grow a index) \<and> wi_array_list (wi_array_grow a index) = wi_array_list a"
  proof (rule slots_okI)
    show "take (data_count (wi_array_grow a index)) (items (wi_array_grow a index)) =
      map Some (wi_array_list a)"
      using assms n take_items [OF assms(1)]
      by (simp add: wi_array_grow_def Let_def wi_array_slots_ok_def take_wi_realloc_items)
  qed (use assms n in \<open>auto simp: wi_array_grow_def Let_def wi_array_slots_ok_def\<close>)
  show "index < items_count (wi_array_grow a index)"
    using n by (simp add: wi_array_grow_def Let_def)
qed

lemma wi_array_grow_fields [simp]:
  "data_count (wi_array_grow a i) = data_count a" "min_count (wi_array_grow a i) = min_count a"
  "item_chunks_count (wi_array_grow a i) = item_chunks_count a"
  "item_chunks_offset (wi_array_grow a i) = item_chunks_offset a"
  "item_free_count (wi_array_grow a i) = item_free_count a"
  "items_per_page (wi_array_grow a i) = items_per_page a"
  "is_mutable (wi_array_grow a i) = is_mutable a"
  "array_callbacks (wi_array_grow a i) = array_callbacks a" "array_null (wi_array_grow a i) = array_null a"
  by (simp_all add: wi_array_grow_def Let_def)

text \<open>
  The block kept by \<open>_wi_array_optimize\<close> holds the data as long as there are at most
  \<open>_WI_ARRAY_MAX_COUNT\<close> of them.
\<close>

lemma wi_array_optimize:
  assumes "wi_array_slots_ok a" and "data_count a \<le> WI_ARRAY_MAX_COUNT"
  shows "wi_array_slots_ok (wi_array_optimize a) \<and>
    wi_array_list (wi_array_optimize a) = wi_array_list a"
proof (rule slots_okI)
  have n: "data_count a \<le> wi_clamp (data_count a) (min_count a) WI_ARRAY_MAX_COUNT"
    using assms(2) by (simp add: wi_clamp_def)
  show "take (data_count (wi_array_optimize a)) (items (wi_array_optimize a)) =
    map Some (wi_array_list a)"
    using assms n take_items [OF assms(1)]
    by (simp add: wi_array_optimize_def Let_def wi_array_slots_ok_def take_wi_realloc_items)
  show "data_count (wi_array_optimize a) \<le> items_count (wi_array_optimize a)"
    using n by (simp add: wi_array_optimize_def Let_def)
qed (use assms in \<open>auto simp: wi_array_optimize_def Let_def wi_array_slots_ok_def\<close>)

lemma wi_array_check_optimize_fields [simp]:
  "data_count (wi_array_check_optimize a) = data_count a"
  "min_count (wi_array_check_optimize a) = min_count a"
  "item_chunks_count (wi_array_check_optimize a) = item_chunks_count a"
  "item_chunks_offset (wi_array_check_optimize a) = item_chunks_offset a"
  "item_free_count (wi_array_check_optimize a) = item_free_count a"
  "items_per_page (wi_array_check_optimize a) = items_per_page a"
  "is_mutable (wi_array_check_optimize a) = is_mutable a"
  "array_callbacks (wi_array_check_optimize a) = array_callbacks a" "array_null (wi_array_check_optimize a) = array_null a"
  by (simp_all add: wi_array_check_optimize_def wi_array_optimize_def Let_def)

lemma wi_array_check_optimize:
  assumes "wi_array_slots_ok a" and "data_count a \<le> WI_ARRAY_MAX_COUNT"
  shows "wi_array_slots_ok (wi_array_check_optimize a) \<and>
    wi_array_list (wi_array_check_optimize a) = wi_array_list a"
  using assms wi_array_optimize [OF assms] by (simp add: wi_array_check_optimize_def)

lemma wi_array_create_item_chunks:
  "wi_array_chunks_ok n a \<Longrightarrow> wi_array_chunks_ok (Suc n) (wi_array_create_item a)"
  by (auto simp: wi_array_chunks_ok_def wi_array_create_item_def Let_def)

lemma wi_array_remove_item_chunks:
  "wi_array_chunks_ok (Suc n) a \<Longrightarrow> wi_array_chunks_ok n (wi_array_remove_item a)"
  by (simp add: wi_array_chunks_ok_def wi_array_remove_item_def)

lemma wi_array_create_item_fields [simp]:
  "items (wi_array_create_item a) = items a" "items_count (wi_array_create_item a) = items_count a"
  "min_count (wi_array_create_item a) = min_count a" "data_count (wi_array_create_item a) = data_count a"
  "items_per_page (wi_array_create_item a) = items_per_page a"
  "is_mutable (wi_array_create_item a) = is_mutable a"
  "array_callbacks (wi_array_create_item a) = array_callbacks a" "array_null (wi_array_create_item a) = array_null a"
  by (simp_all add: wi_array_create_item_def Let_def)

lemma wi_array_remove_item_fields [simp]:
  "items (wi_array_remove_item a) = items a" "items_count (wi_array_remove_item a) = items_count a"
  "min_count (wi_array_remove_item a) = min_count a" "data_count (wi_array_remove_item a) = data_count a"
  "items_per_page (wi_array_remove_item a) = items_per_page a"
  "is_mutable (wi_array_remove_item a) = is_mutable a"
  "array_callbacks (wi_array_remove_item a) = array_callbacks a" "array_null (wi_array_remove_item a) = array_null a"
  by (simp_all add: wi_array_remove_item_def)

lemma wi_array_slots_cong:
  assumes "items b = items a" "items_count b = items_count a" "min_count b = min_count a"
    "data_count b = data_count a"
  shows "wi_array_slots_ok b = wi_array_slots_ok a" "wi_array_list b = wi_array_list a"
  using assms by (simp_all add: wi_array_slots_ok_def wi_array_list_def)

lemma wi_array_item_slots [simp]:
  "wi_array_slots_ok (wi_array_create_item a) = wi_array_slots_ok a"
  "wi_array_list (wi_array_create_item a) = wi_array_list a"
  "wi_array_slots_ok (wi_array_remove_item a) = wi_array_slots_ok a"
  "wi_array_list (wi_array_remove_item a) = wi_array_list a"
  by (simp_all add: wi_array_slots_ok_def wi_array_list_def)

text \<open>Room for one more: the common first step of adding and inserting.\<close>

lemma wi_array_make_room:
  assumes "wi_array_slots_ok a" and "b = (if data_count a \<ge> items_count a then wi_array_grow a k else a)"
    and "data_count a \<le> k"
  shows "wi_array_slots_ok b" "wi_array_list b = wi_array_list a" "data_count b = data_count a"
    "data_count b < items_count b"
  using assms wi_array_grow [of a k] by (auto simp: not_le)

lemma wi_array_add_item:
  assumes "wi_array_slots_ok a"
  shows "wi_array_slots_ok (wi_array_add_item a x) \<and>
    wi_array_list (wi_array_add_item a x) = wi_array_list a @ [x]"
proof -
  define b where "b = (if data_count a \<ge> items_count a then wi_array_grow a (data_count a) else a)"
  note room = wi_array_make_room [OF assms b_def order_refl]
  have add: "wi_array_add_item a x =
    b\<lparr>items := (items b)[data_count b := Some x], data_count := data_count b + 1\<rparr>"
    by (simp add: wi_array_add_item_def b_def Let_def)
  show ?thesis
    unfolding add
  proof (rule slots_okI)
    show "take (data_count (b\<lparr>items := (items b)[data_count b := Some x], data_count := data_count b + 1\<rparr>))
        (items (b\<lparr>items := (items b)[data_count b := Some x], data_count := data_count b + 1\<rparr>)) =
      map Some (wi_array_list a @ [x])"
      using room take_items [OF room(1)] by (simp add: wi_array_slots_ok_def)
  qed (use room in \<open>auto simp: wi_array_slots_ok_def\<close>)
qed

lemma wi_array_add_item_fields [simp]:
  "data_count (wi_array_add_item a x) = Suc (data_count a)"
  "min_count (wi_array_add_item a x) = min_count a"
  "item_chunks_count (wi_array_add_item a x) = item_chunks_count a"
  "item_chunks_offset (wi_array_add_item a x) = item_chunks_offset a"
  "item_free_count (wi_array_add_item a x) = item_free_count a"
  "items_per_page (wi_array_add_item a x) = items_per_page a"
  "is_mutable (wi_array_add_item a x) = is_mutable a"
  "array_callbacks (wi_array_add_item a x) = array_callbacks a" "array_null (wi_array_add_item a x) = array_null a"
  by (simp_all add: wi_array_add_item_def Let_def)

lemma wi_array_insert_item_fields [simp]:
  "data_count (wi_array_insert_item_at_index a x i) = Suc (data_count a)"
  "min_count (wi_array_insert_item_at_index a x i) = min_count a"
  "item_chunks_count (wi_array_insert_item_at_index a x i) = item_chunks_count a"
  "item_chunks_offset (wi_array_insert_item_at_index a x i) = item_chunks_offset a"
  "item_free_count (wi_array_insert_item_at_index a x i) = item_free_count a"
  "items_per_page (wi_array_insert_item_at_index a x i) = items_per_page a"
  "is_mutable (wi_array_insert_item_at_index a x i) = is_mutable a"
  "array_callbacks (wi_array_insert_item_at_index a x i) = array_callbacks a" "array_null (wi_array_insert_item_at_index a x i) = array_null a"
  by (simp_all add: wi_array_insert_item_at_index_def Let_def)

text \<open>Opening a gap with \<open>memmove\<close> and filling it is list insertion.\<close>

lemma memmove_open:
  assumes "i \<le> n" and "n < length xs"
  shows "take (Suc n) ((memmove (i + 1) i (n - i) xs)[i := x]) = take i xs @ x # take (n - i) (drop i xs)"
proof -
  have "(take (Suc i) xs)[i := x] = take i xs @ [x]"
    using assms by (simp add: take_Suc_conv_app_nth list_update_append)
  then show ?thesis
    using assms by (simp add: memmove_def list_update_append Suc_diff_le)
qed

lemma memmove_close:
  assumes "i < n" and "n \<le> length xs"
  shows "take (n - 1) ((memmove i (i + 1) (n - i - 1) (xs[i := y]))[n - 1 := z]) =
    take i xs @ take (n - 1 - i) (drop (Suc i) xs)"
  using assms by (simp add: memmove_def)

lemma wi_array_insert_item_at_index:
  assumes "wi_array_slots_ok a" and "i \<le> data_count a"
  shows "wi_array_slots_ok (wi_array_insert_item_at_index a x i) \<and>
    wi_array_list (wi_array_insert_item_at_index a x i) =
      take i (wi_array_list a) @ x # drop i (wi_array_list a)"
proof -
  define b where "b = (if data_count a \<ge> items_count a then wi_array_grow a (data_count a + 1) else a)"
  have room: "wi_array_slots_ok b" "wi_array_list b = wi_array_list a" "data_count b = data_count a"
    "data_count b < items_count b"
    using wi_array_make_room [OF assms(1) b_def] by simp_all
  define ys where "ys = (memmove (i + 1) i (data_count b - i) (items b))[i := Some x]"
  have ins: "wi_array_insert_item_at_index a x i = b\<lparr>items := ys, data_count := data_count b + 1\<rparr>"
    by (simp add: wi_array_insert_item_at_index_def b_def ys_def Let_def)
  have len: "length (items b) = items_count b"
    using room(1) by (simp add: wi_array_slots_ok_def)
  have "take (Suc (data_count b)) ys =
    take i (items b) @ Some x # take (data_count b - i) (drop i (items b))"
    unfolding ys_def using assms(2) room len by (intro memmove_open) auto
  also have "\<dots> = take i (take (data_count b) (items b)) @ Some x # drop i (take (data_count b) (items b))"
    using assms(2) room(3) by (simp add: min_def drop_take)
  also have "\<dots> = map Some (take i (wi_array_list a) @ x # drop i (wi_array_list a))"
    using take_items [OF room(1)] room(2) by (simp add: take_map drop_map)
  finally have taken: "take (Suc (data_count b)) ys =
    map Some (take i (wi_array_list a) @ x # drop i (wi_array_list a))" .
  have "length ys = items_count b"
    using assms(2) room len by (simp add: ys_def length_memmove)
  then show ?thesis
    unfolding ins using taken room by (intro slots_okI) (auto simp: wi_array_slots_ok_def)
qed

lemma wi_array_add_data_internal:
  assumes "wi_array_ok a"
  shows "wi_array_ok (wi_array_add_data_internal a x)"
    and "wi_array_list (wi_array_add_data_internal a x) = wi_array_list a @ [x]"
  using assms wi_array_add_item [of "wi_array_create_item a" x]
    wi_array_create_item_chunks [of "data_count a" a]
  by (simp_all add: wi_array_ok_def wi_array_add_data_internal_def wi_array_chunks_ok_def)

lemma wi_array_add_data_internal_fields [simp]:
  "is_mutable (wi_array_add_data_internal a x) = is_mutable a"
  "array_callbacks (wi_array_add_data_internal a x) = array_callbacks a" "array_null (wi_array_add_data_internal a x) = array_null a"
  "data_count (wi_array_add_data_internal a x) = Suc (data_count a)"
  "items_per_page (wi_array_add_data_internal a x) = items_per_page a"
  by (simp_all add: wi_array_add_data_internal_def)

lemma wi_array_insert_ok:
  assumes "wi_array_ok a" and "i \<le> data_count a"
  shows "wi_array_ok (wi_array_insert_item_at_index (wi_array_create_item a) x i)"
    and "wi_array_list (wi_array_insert_item_at_index (wi_array_create_item a) x i) =
      take i (wi_array_list a) @ x # drop i (wi_array_list a)"
  using assms wi_array_insert_item_at_index [of "wi_array_create_item a" i x]
    wi_array_create_item_chunks [of "data_count a" a]
  by (simp_all add: wi_array_ok_def wi_array_chunks_ok_def)

subsection \<open>Sorted insertion\<close>

lemma wi_array_sorted_index_Some:
  "wi_array_sorted_index cmp x ys k = Some i \<Longrightarrow>
     k \<le> i \<and> i - k < length ys \<and> cmp x (ys ! (i - k)) < 0 \<and> (\<forall>j < i - k. \<not> cmp x (ys ! j) < 0)"
proof (induction cmp x ys k rule: wi_array_sorted_index.induct)
  case (2 cmp x y ys k)
  show ?case
  proof (cases "cmp x y < 0")
    case True
    with "2.prems" show ?thesis by simp
  next
    case False
    with 2 have IH: "Suc k \<le> i \<and> i - Suc k < length ys \<and> cmp x (ys ! (i - Suc k)) < 0 \<and>
      (\<forall>j < i - Suc k. \<not> cmp x (ys ! j) < 0)" by simp
    then have "i - k = Suc (i - Suc k)" by (simp add: Suc_diff_Suc)
    with IH False show ?thesis by (auto simp: nth_Cons less_Suc_eq_0_disj)
  qed
qed simp

lemma wi_array_sorted_index_None:
  "wi_array_sorted_index cmp x ys k = None \<longleftrightarrow> (\<forall>y \<in> set ys. \<not> cmp x y < 0)"
  by (induction cmp x ys k rule: wi_array_sorted_index.induct) auto

text \<open>The abstract routine: insertion after every datum that is not greater.\<close>

fun insort_after :: "('a \<Rightarrow> 'a \<Rightarrow> int) \<Rightarrow> 'a \<Rightarrow> 'a list \<Rightarrow> 'a list" where
  "insort_after cmp x [] = [x]"
| "insort_after cmp x (y # ys) = (if cmp x y < 0 then x # y # ys else y # insort_after cmp x ys)"

lemma insort_after_index:
  "insort_after cmp x ys =
     (case wi_array_sorted_index cmp x ys k of
        Some i \<Rightarrow> take (i - k) ys @ x # drop (i - k) ys | None \<Rightarrow> ys @ [x])"
proof (induction cmp x ys k rule: wi_array_sorted_index.induct)
  case (2 cmp x y ys k)
  show ?case
  proof (cases "cmp x y < 0")
    case False
    show ?thesis
    proof (cases "wi_array_sorted_index cmp x ys (Suc k)")
      case (Some i)
      then have "i - k = Suc (i - Suc k)"
        using wi_array_sorted_index_Some [OF Some] by (simp add: Suc_diff_Suc)
      with Some False 2 show ?thesis by simp
    qed (use False 2 in simp)
  qed simp
qed simp

lemma wi_array_add_item_sorted:
  assumes "wi_array_ok a"
  shows "wi_array_ok (wi_array_add_item_sorted (wi_array_create_item a) x cmp)"
    and "wi_array_list (wi_array_add_item_sorted (wi_array_create_item a) x cmp) =
      insort_after cmp x (wi_array_list a)"
proof -
  have empty: "wi_array_list a = []" if "data_count a = 0"
    using that by (simp add: wi_array_list_def)
  note added = wi_array_add_data_internal [OF assms, unfolded wi_array_add_data_internal_def]
  have "wi_array_ok (wi_array_add_item_sorted (wi_array_create_item a) x cmp) \<and>
    wi_array_list (wi_array_add_item_sorted (wi_array_create_item a) x cmp) =
      insort_after cmp x (wi_array_list a)"
  proof (cases "data_count a = 0")
    case True
    with added empty show ?thesis by (simp add: wi_array_add_item_sorted_def)
  next
    case False
    show ?thesis
    proof (cases "wi_array_sorted_index cmp x (wi_array_list a) 0")
      case None
      with False added show ?thesis
        by (simp add: wi_array_add_item_sorted_def insort_after_index [where k = 0])
    next
      case (Some i)
      then have "i \<le> data_count a"
        using wi_array_sorted_index_Some [OF Some] wi_array_okD [OF assms] by simp
      with False Some show ?thesis
        using wi_array_insert_ok [OF assms, of i x]
        by (simp add: wi_array_add_item_sorted_def insort_after_index [where k = 0])
    qed
  qed
  then show "wi_array_ok (wi_array_add_item_sorted (wi_array_create_item a) x cmp)"
    and "wi_array_list (wi_array_add_item_sorted (wi_array_create_item a) x cmp) =
      insort_after cmp x (wi_array_list a)" by simp_all
qed

subsection \<open>Removal\<close>

lemma wi_array_remove_at_ok:
  assumes ok: "wi_array_ok a" and max: "data_count a \<le> WI_ARRAY_MAX_COUNT"
    and rm: "wi_mutable_array_remove_data_at_index a i = Inr b"
  shows "wi_array_ok b" and "i < length (wi_array_list a)"
    and "wi_array_list b = take i (wi_array_list a) @ drop (Suc i) (wi_array_list a)"
    and "data_count b = data_count a - 1" and "is_mutable b"
proof -
  note slots = wi_array_okD(1) [OF ok]
  have mut: "is_mutable a" and i: "i < data_count a"
    using rm by (auto simp: wi_mutable_array_remove_data_at_index_def split: if_splits)
  define n where "n = data_count a"
  define ys where "ys = (if i \<noteq> n - 1
    then (memmove i (i + 1) (n - i - 1) ((items a)[i := None]))[n - 1 := None]
    else (items a)[i := None])"
  define c where "c = (wi_array_remove_item a)\<lparr>items := ys, data_count := n - 1\<rparr>"
  have b: "b = wi_array_check_optimize c"
    using rm mut i by (simp add: wi_mutable_array_remove_data_at_index_def Let_def c_def ys_def n_def cong: if_cong)
  have len: "length (items a) = items_count a" "n \<le> items_count a"
    using slots by (simp_all add: wi_array_slots_ok_def n_def)
  have "take (n - 1) ys = take i (items a) @ take (n - 1 - i) (drop (Suc i) (items a))"
    using memmove_close [of i n "items a" None None] i len by (auto simp: ys_def n_def)
  also have "\<dots> = take i (take n (items a)) @ drop (Suc i) (take n (items a))"
    using i by (simp add: n_def min_def drop_take)
  also have "\<dots> = map Some (take i (wi_array_list a) @ drop (Suc i) (wi_array_list a))"
    using take_items [OF slots] by (simp add: n_def take_map drop_map)
  finally have taken: "take (n - 1) ys = map Some (take i (wi_array_list a) @ drop (Suc i) (wi_array_list a))" .
  have "length ys = items_count a"
    using i len by (simp add: ys_def n_def length_memmove)
  then have c: "wi_array_slots_ok c \<and> wi_array_list c = take i (wi_array_list a) @ drop (Suc i) (wi_array_list a)"
    using taken len slots by (intro slots_okI) (auto simp: c_def wi_array_slots_ok_def)
  have "wi_array_chunks_ok (Suc (n - 1)) a"
    using wi_array_okD(2) [OF ok] i by (simp add: n_def)
  then have "wi_array_chunks_ok (n - 1) c"
    using wi_array_remove_item_chunks [of "n - 1" a] by (simp add: c_def wi_array_chunks_ok_def)
  with c max show "wi_array_ok b"
    using wi_array_check_optimize [of c]
    by (simp add: b wi_array_ok_def wi_array_chunks_ok_def) (simp add: c_def n_def)
  show "i < length (wi_array_list a)" using i slots by simp
  show "wi_array_list b = take i (wi_array_list a) @ drop (Suc i) (wi_array_list a)"
    using wi_array_check_optimize [of c] c max by (simp add: b) (simp add: c_def n_def)
  show "data_count b = data_count a - 1" by (simp add: b c_def n_def)
  show "is_mutable b" using mut by (simp add: b c_def)
qed

lemma wi_array_index_from_Some:
  "wi_array_index_from eq x ys k = Some i \<Longrightarrow>
     k \<le> i \<and> i - k < length ys \<and> eq (ys ! (i - k)) x \<and> (\<forall>j < i - k. \<not> eq (ys ! j) x)"
proof (induction eq x ys k rule: wi_array_index_from.induct)
  case (2 eq x y ys k)
  show ?case
  proof (cases "eq y x")
    case True
    with "2.prems" show ?thesis by simp
  next
    case False
    with 2 have IH: "Suc k \<le> i \<and> i - Suc k < length ys \<and> eq (ys ! (i - Suc k)) x \<and>
      (\<forall>j < i - Suc k. \<not> eq (ys ! j) x)" by simp
    then have "i - k = Suc (i - Suc k)" by (simp add: Suc_diff_Suc)
    with IH False show ?thesis by (auto simp: nth_Cons less_Suc_eq_0_disj)
  qed
qed simp

lemma wi_array_index_from_None:
  "wi_array_index_from eq x ys k = None \<longleftrightarrow> (\<forall>y \<in> set ys. \<not> eq y x)"
  by (induction eq x ys k rule: wi_array_index_from.induct) auto

fun remove_first :: "('a \<Rightarrow> 'a \<Rightarrow> bool) \<Rightarrow> 'a \<Rightarrow> 'a list \<Rightarrow> 'a list" where
  "remove_first eq x [] = []"
| "remove_first eq x (y # ys) = (if eq y x then ys else y # remove_first eq x ys)"

lemma remove_first_eq: "remove_first (=) x ys = remove1 x ys"
  by (induction ys) auto

lemma remove_first_index:
  "remove_first eq x ys =
     (case wi_array_index_from eq x ys k of
        Some i \<Rightarrow> take (i - k) ys @ drop (Suc (i - k)) ys | None \<Rightarrow> ys)"
proof (induction eq x ys k rule: wi_array_index_from.induct)
  case (2 eq x y ys k)
  show ?case
  proof (cases "eq y x")
    case False
    show ?thesis
    proof (cases "wi_array_index_from eq x ys (Suc k)")
      case (Some i)
      then have "i - k = Suc (i - Suc k)"
        using wi_array_index_from_Some [OF Some] by (simp add: Suc_diff_Suc)
      with Some False 2 show ?thesis by simp
    qed (use False 2 in simp)
  qed simp
qed simp

lemma wi_array_remove_data:
  assumes "wi_array_ok a" and "data_count a \<le> WI_ARRAY_MAX_COUNT"
    and "wi_mutable_array_remove_data eq a x = Inr b"
  shows "wi_array_ok b \<and> wi_array_list b = remove_first eq x (wi_array_list a) \<and>
    data_count b \<le> data_count a \<and> is_mutable b"
proof (cases "wi_array_index_of_data eq a x")
  case None
  with assms show ?thesis
    by (auto simp: wi_mutable_array_remove_data_def wi_array_index_of_data_def
        remove_first_index [where k = 0] split: if_splits)
next
  case (Some i)
  with assms have "wi_mutable_array_remove_data_at_index a i = Inr b"
    by (auto simp: wi_mutable_array_remove_data_def split: if_splits)
  from wi_array_remove_at_ok [OF assms(1,2) this] Some show ?thesis
    by (simp add: wi_array_index_of_data_def remove_first_index [where k = 0])
qed

lemma wi_array_remove_items_fields [simp]:
  "items (wi_array_remove_items n a) = items a" "items_count (wi_array_remove_items n a) = items_count a"
  "min_count (wi_array_remove_items n a) = min_count a" "data_count (wi_array_remove_items n a) = data_count a"
  "is_mutable (wi_array_remove_items n a) = is_mutable a"
  "array_callbacks (wi_array_remove_items n a) = array_callbacks a" "array_null (wi_array_remove_items n a) = array_null a"
  by (induction n a rule: wi_array_remove_items.induct) simp_all

lemma wi_array_remove_items_chunks:
  "wi_array_chunks_ok (n + k) a \<Longrightarrow> wi_array_chunks_ok k (wi_array_remove_items n a)"
proof (induction n a rule: wi_array_remove_items.induct)
  case (2 n a)
  then show ?case using wi_array_remove_item_chunks [of "n + k" a] by simp
qed simp

lemma wi_array_remove_all:
  assumes "wi_array_ok a"
  shows "wi_array_ok (wi_array_remove_all_data_internal a)"
    and "wi_array_list (wi_array_remove_all_data_internal a) = []"
    and "data_count (wi_array_remove_all_data_internal a) = 0"
    and "is_mutable (wi_array_remove_all_data_internal a) = is_mutable a"
proof -
  define c where "c = (if data_count a > 0
    then (wi_array_remove_items (data_count a) a)\<lparr>data_count := 0\<rparr> else a)"
  have all: "wi_array_remove_all_data_internal a = wi_array_check_optimize c"
    by (simp add: wi_array_remove_all_data_internal_def c_def)
  have 0: "data_count c = 0" and mut: "is_mutable c = is_mutable a" by (simp_all add: c_def)
  have slots: "wi_array_slots_ok c"
    using wi_array_okD(1) [OF assms] by (simp add: c_def wi_array_slots_ok_def)
  have "wi_array_chunks_ok 0 c"
    using wi_array_okD(2) [OF assms] wi_array_remove_items_chunks [of "data_count a" 0 a]
    by (cases "data_count a = 0") (simp_all add: c_def wi_array_chunks_ok_def)
  with slots 0 show "wi_array_ok (wi_array_remove_all_data_internal a)"
    using wi_array_check_optimize [of c] by (simp add: all wi_array_ok_def wi_array_chunks_ok_def)
  show "wi_array_list (wi_array_remove_all_data_internal a) = []"
    "data_count (wi_array_remove_all_data_internal a) = 0"
    "is_mutable (wi_array_remove_all_data_internal a) = is_mutable a"
    using 0 mut by (simp_all add: all wi_array_list_def)
qed

lemma wi_array_replace:
  assumes ok: "wi_array_ok a" and r: "wi_mutable_array_replace_data_at_index a x i = Inr b"
  shows "wi_array_ok b \<and> i < length (wi_array_list a) \<and>
    wi_array_list b = (wi_array_list a)[i := x] \<and> data_count b = data_count a \<and> is_mutable b"
proof -
  note slots = wi_array_okD(1) [OF ok]
  define c where "c = wi_array_remove_item (wi_array_create_item a)"
  have i: "i < data_count a" and mut: "is_mutable a"
    and b: "b = c\<lparr>items := (items a)[i := Some x]\<rparr>"
    using r by (auto simp: wi_mutable_array_replace_data_at_index_def c_def split: if_splits)
  have "take (data_count a) ((items a)[i := Some x]) = map Some ((wi_array_list a)[i := x])"
    using take_items [OF slots] by (simp add: take_update_swap map_update)
  then have b_slots: "wi_array_slots_ok b \<and> wi_array_list b = (wi_array_list a)[i := x]"
    using slots by (intro slots_okI) (simp_all add: b c_def wi_array_slots_ok_def)
  have "wi_array_chunks_ok (data_count a) c"
    using wi_array_create_item_chunks [OF wi_array_okD(2) [OF ok]]
    by (simp add: c_def wi_array_remove_item_chunks)
  then have "wi_array_chunks_ok (data_count b) b"
    by (simp add: b c_def wi_array_chunks_ok_def)
  with b_slots i slots mut show ?thesis
    by (simp add: wi_array_ok_def) (simp add: b c_def)
qed

subsection \<open>Reversal\<close>

lemma length_reverse_loop [simp]: "length (wi_array_reverse_loop n i cnt xs) = length xs"
  by (induction n i cnt xs rule: wi_array_reverse_loop.induct) simp_all

text \<open>
  The loop from \<open>i\<close> with \<open>n\<close> rounds to go swaps the mirror positions between \<open>i\<close> and
  \<open>i + n\<close> and leaves every other one alone.
\<close>

lemma nth_reverse_loop:
  assumes "2 * (i + n) \<le> cnt" and "cnt \<le> length xs" and "j < length xs"
  shows "wi_array_reverse_loop n i cnt xs ! j =
    (if (i \<le> j \<and> j < i + n) \<or> (cnt - i - n \<le> j \<and> j < cnt - i) then xs ! (cnt - j - 1) else xs ! j)"
  using assms
proof (induction n i cnt xs rule: wi_array_reverse_loop.induct)
  case (2 n i cnt xs)
  let ?ys = "xs[i := xs ! (cnt - i - 1), cnt - i - 1 := xs ! i]"
  have ys: "?ys ! k = (if k = i then xs ! (cnt - i - 1) else if k = cnt - i - 1 then xs ! i else xs ! k)"
    if "k < length xs" for k
    using that "2.prems" by (auto simp: nth_list_update)
  have IH: "wi_array_reverse_loop n (Suc i) cnt ?ys ! j =
    (if (Suc i \<le> j \<and> j < Suc i + n) \<or> (cnt - Suc i - n \<le> j \<and> j < cnt - Suc i)
     then ?ys ! (cnt - j - 1) else ?ys ! j)"
    using 2 by simp
  consider "j = i" | "j = cnt - i - 1" "j \<noteq> i" | "j \<noteq> i" "j \<noteq> cnt - i - 1" by blast
  then show ?case
  proof cases
    case 1
    with "2.prems" show ?thesis
      unfolding wi_array_reverse_loop.simps IH by (auto simp: nth_list_update)
  next
    case 2
    with "2.prems" show ?thesis
      unfolding wi_array_reverse_loop.simps IH by (auto simp: nth_list_update)
  next
    case 3
    have "?ys ! (cnt - j - 1) = xs ! (cnt - j - 1)"
      if "Suc i \<le> j \<and> j < Suc i + n \<or> cnt - Suc i - n \<le> j \<and> j < cnt - Suc i"
      using that "2.prems" 3 by (subst ys) auto
    with 3 "2.prems" show ?thesis
      unfolding wi_array_reverse_loop.simps IH by (auto simp: ys)
  qed
qed auto

lemma wi_array_reverse_list:
  assumes "wi_array_ok a" and "wi_mutable_array_reverse a = Inr b"
  shows "wi_array_ok b \<and> wi_array_list b = rev (wi_array_list a) \<and> data_count b = data_count a \<and> is_mutable b"
proof -
  note slots = wi_array_okD(1) [OF assms(1)]
  let ?n = "data_count a"
  have mut: "is_mutable a"
    and b: "b = a\<lparr>items := wi_array_reverse_loop (?n div 2) 0 ?n (items a)\<rparr>"
    using assms(2) by (auto simp: wi_mutable_array_reverse_def split: if_splits)
  have len: "?n \<le> length (items a)" using slots by (simp add: wi_array_slots_ok_def)
  have "take ?n (wi_array_reverse_loop (?n div 2) 0 ?n (items a)) = rev (take ?n (items a))"
  proof (rule nth_equalityI)
    fix j assume "j < length (take ?n (wi_array_reverse_loop (?n div 2) 0 ?n (items a)))"
    then have j: "j < ?n" by simp
    have "wi_array_reverse_loop (?n div 2) 0 ?n (items a) ! j = items a ! (?n - j - 1)"
    proof (cases "j < ?n div 2 \<or> ?n - ?n div 2 \<le> j")
      case True
      with j len show ?thesis by (subst nth_reverse_loop) auto
    next
      case False
      with j have "j = ?n - j - 1" by linarith
      with False j len show ?thesis by (subst nth_reverse_loop) auto
    qed
    with j len show "take ?n (wi_array_reverse_loop (?n div 2) 0 ?n (items a)) ! j =
      rev (take ?n (items a)) ! j" by (simp add: rev_nth min_def)
  qed (use len in simp)
  then have "take (data_count b) (items b) = map Some (rev (wi_array_list a))"
    using take_items [OF slots] by (simp add: b rev_map)
  then have "wi_array_slots_ok b \<and> wi_array_list b = rev (wi_array_list a)"
    using slots by (intro slots_okI) (simp_all add: b wi_array_slots_ok_def)
  with wi_array_okD(2) [OF assms(1)] mut show ?thesis
    by (simp add: wi_array_ok_def) (simp add: b wi_array_chunks_ok_def)
qed

subsection \<open>The interface of an array that is only appended to\<close>

text \<open>
  Copies, \<open>set_array\<close>, the arrays of keys and values of a dictionary and the array of
  the data of a set are all built by adding one datum after the other.
\<close>

locale appendable =
  fixes lst :: "'s \<Rightarrow> 'a list" and ok :: "'s \<Rightarrow> bool" and add :: "'s \<Rightarrow> 'a \<Rightarrow> 's"
  assumes ok_add: "ok s \<Longrightarrow> ok (add s x)"
    and lst_add: "ok s \<Longrightarrow> lst (add s x) = lst s @ [x]"
begin

lemma fold_add:
  "ok s \<Longrightarrow> ok (fold (\<lambda>x s. add s x) xs s) \<and> lst (fold (\<lambda>x s. add s x) xs s) = lst s @ xs"
proof (induction xs arbitrary: s)
  case (Cons x xs)
  from Cons.prems have "ok (add s x)" by (rule ok_add)
  with Cons.IH [OF this] Cons.prems show ?case by (simp add: lst_add)
qed simp

end

interpretation arr: appendable wi_array_list wi_array_ok wi_array_add_data_internal
  by unfold_locales (simp_all add: wi_array_add_data_internal)

lemma wi_array_init_with_callbacks:
  "0 < page \<Longrightarrow> wi_array_ok (wi_array_init_with_capacity_and_callbacks page mut cap cb null)"
  "wi_array_list (wi_array_init_with_capacity_and_callbacks page mut cap cb null) = []"
  "items_per_page (wi_array_init_with_capacity_and_callbacks page mut cap cb null) = page"
  "is_mutable (wi_array_init_with_capacity_and_callbacks page mut cap cb null) = mut"
  "data_count (wi_array_init_with_capacity_and_callbacks page mut cap cb null) = 0"
  "array_callbacks (wi_array_init_with_capacity_and_callbacks page mut cap cb null) = cb"
  "array_null (wi_array_init_with_capacity_and_callbacks page mut cap cb null) = null"
  by (simp_all add: wi_array_init_with_capacity_and_callbacks_def Let_def wi_array_ok_def wi_array_slots_ok_def
      wi_array_chunks_ok_def wi_array_list_def WI_ARRAY_MIN_COUNT_def)

lemma wi_array_init:
  "0 < page \<Longrightarrow> wi_array_ok (wi_array_init_with_capacity page mut cap)"
  "wi_array_list (wi_array_init_with_capacity page mut cap) = []"
  "items_per_page (wi_array_init_with_capacity page mut cap) = page"
  "is_mutable (wi_array_init_with_capacity page mut cap) = mut"
  "data_count (wi_array_init_with_capacity page mut cap) = 0"
  "array_callbacks (wi_array_init_with_capacity page mut cap) = Default_Array_Callbacks"
  "array_null (wi_array_init_with_capacity page mut cap) = None"
  by (simp_all add: wi_array_init_with_capacity_def wi_array_init_with_callbacks)

lemma fold_add_fields [simp]:
  "is_mutable (fold (\<lambda>x a. wi_array_add_data_internal a x) xs a) = is_mutable a"
  "items_per_page (fold (\<lambda>x a. wi_array_add_data_internal a x) xs a) = items_per_page a"
  "array_callbacks (fold (\<lambda>x a. wi_array_add_data_internal a x) xs a) = array_callbacks a"
  "array_null (fold (\<lambda>x a. wi_array_add_data_internal a x) xs a) = array_null a"
  by (induction xs arbitrary: a) simp_all

lemma wi_array_ok_page: "wi_array_ok a \<Longrightarrow> 0 < items_per_page a"
  by (simp add: wi_array_ok_def wi_array_chunks_ok_def)

lemma wi_array_ok_mutable [simp]:
  "wi_array_ok (a\<lparr>is_mutable := m\<rparr>) = wi_array_ok a"
  "wi_array_list (a\<lparr>is_mutable := m\<rparr>) = wi_array_list a"
  by (simp_all add: wi_array_ok_def wi_array_slots_ok_def wi_array_chunks_ok_def wi_array_list_def)

lemma wi_array_copy:
  assumes "wi_array_ok a"
  shows "wi_array_ok (wi_array_copy a)" and "wi_array_list (wi_array_copy a) = wi_array_list a"
    and "\<not> is_mutable (wi_array_copy a)"
  using arr.fold_add [OF wi_array_init_with_callbacks(1) [OF wi_array_ok_page [OF assms]],
      of "wi_array_list a" False "data_count a" "array_callbacks a" "array_null a"]
  by (simp_all add: wi_array_copy_def wi_array_init_with_callbacks)

lemma wi_array_mutable_copy:
  assumes "wi_array_ok a"
  shows "wi_array_ok (wi_array_mutable_copy a)"
    and "wi_array_list (wi_array_mutable_copy a) = wi_array_list a"
    and "is_mutable (wi_array_mutable_copy a)"
  using wi_array_copy [OF assms] by (simp_all add: wi_array_mutable_copy_def)

lemma wi_array_set_array:
  assumes "wi_array_ok a" and "wi_mutable_array_set_array a b = Inr c"
  shows "wi_array_ok c \<and> wi_array_list c = wi_array_list b"
  using assms arr.fold_add [OF wi_array_remove_all(1) [OF assms(1)], of "wi_array_list b"]
  by (auto simp: wi_mutable_array_set_array_def wi_mutable_array_add_data_from_array_def
      wi_array_remove_all split: if_splits)

lemma wi_array_subarray_loop:
  assumes "wi_array_ok a" "wi_array_ok b" and "i + n \<le> data_count a"
  shows "wi_array_ok (wi_array_subarray_loop n i a b) \<and>
    wi_array_list (wi_array_subarray_loop n i a b) = wi_array_list b @ take n (drop i (wi_array_list a))"
  using assms
proof (induction n i a b rule: wi_array_subarray_loop.induct)
  case (2 n i a b)
  note slots = wi_array_okD(1) [OF "2.prems"(1)]
  have i: "i < data_count a" using "2.prems"(3) by simp
  then have "take (Suc n) (drop i (wi_array_list a)) =
    (wi_array_list a ! i) # take n (drop (Suc i) (wi_array_list a))"
    using slots by (subst Cons_nth_drop_Suc [symmetric]) simp_all
  with 2 i show ?case
    by (simp add: wi_array_add_data_internal nth_wi_array_list [OF slots])
qed simp

subsection \<open>Sorting\<close>

text \<open>What the C standard says of \<open>qsort\<close>: the sorted array is a permutation of the array.\<close>

definition qsort_permutes :: "(('a \<Rightarrow> 'a \<Rightarrow> int) \<Rightarrow> 'a list \<Rightarrow> 'a list) \<Rightarrow> bool" where
  "qsort_permutes qs \<longleftrightarrow> (\<forall>cmp xs. mset (qs cmp xs) = mset xs)"

lemma qsort_length: "qsort_permutes qs \<Longrightarrow> length (qs cmp xs) = length xs"
  unfolding qsort_permutes_def by (metis size_mset)

lemma wi_array_sort:
  assumes "wi_array_ok a" and "qsort_permutes qs" and "wi_mutable_array_sort qs a cmp = Inr b"
  shows "wi_array_ok b \<and> wi_array_list b = qs cmp (wi_array_list a)"
proof (cases "data_count a = 0")
  case True
  then have "wi_array_list a = []" by (simp add: wi_array_list_def)
  moreover have "b = a" using assms(3) True by (simp add: wi_mutable_array_sort_def split: if_splits)
  ultimately show ?thesis using assms(1) qsort_length [OF assms(2), of cmp "[]"] by simp
next
  case False
  let ?xs = "qs cmp (wi_array_list a)"
  note slots = wi_array_okD(1) [OF assms(1)]
  have len: "length ?xs = data_count a" using qsort_length [OF assms(2)] slots by simp
  with assms(3) False have b: "b = a\<lparr>items := map Some ?xs @ drop (data_count a) (items a)\<rparr>"
    by (auto simp: wi_mutable_array_sort_def split: if_splits)
  then have "wi_array_slots_ok b \<and> wi_array_list b = ?xs"
    using slots len by (intro slots_okI) (simp_all add: wi_array_slots_ok_def)
  with wi_array_okD(2) [OF assms(1)] show ?thesis by (simp add: wi_array_ok_def) (simp add: b wi_array_chunks_ok_def)
qed

subsection \<open>The list each mutator promises\<close>

text \<open>
  One constructor per public mutator of an array, what the code does (\<open>wi_array_apply\<close>) and
  what the list specification says (\<open>list_apply\<close>, \<open>None\<close> for a call that must stop in an
  assertion; \<open>null\<close> is the datum that is NULL and \<open>strict\<close> tells whether the callbacks retain
  the data). An array that is given to a call is another one than the one that is changed.
\<close>

datatype 'a array_op =
    Add 'a
  | Add_Sorted 'a
  | Add_Array "'a wi_array"
  | Insert 'a nat
  | Replace 'a nat
  | Set_Array "'a wi_array"
  | Remove 'a
  | Remove_At nat
  | Remove_Range nat nat
  | Remove_Array "'a wi_array"
  | Remove_All
  | Sort
  | Reverse

fun wi_array_apply ::
  "(('a \<Rightarrow> 'a \<Rightarrow> int) \<Rightarrow> 'a list \<Rightarrow> 'a list) \<Rightarrow> ('a \<Rightarrow> 'a \<Rightarrow> bool) \<Rightarrow> ('a \<Rightarrow> 'a \<Rightarrow> int) \<Rightarrow>
    'a array_op \<Rightarrow> 'a wi_array \<Rightarrow> 'a wi_array wi_checked" where
  "wi_array_apply qs eq cmp (Add x) a = wi_mutable_array_add_data a x"
| "wi_array_apply qs eq cmp (Add_Sorted x) a = wi_mutable_array_add_data_sorted a x cmp"
| "wi_array_apply qs eq cmp (Add_Array b) a = wi_mutable_array_add_data_from_array a b"
| "wi_array_apply qs eq cmp (Insert x i) a = wi_mutable_array_insert_data_at_index a x i"
| "wi_array_apply qs eq cmp (Replace x i) a = wi_mutable_array_replace_data_at_index a x i"
| "wi_array_apply qs eq cmp (Set_Array b) a = wi_mutable_array_set_array a b"
| "wi_array_apply qs eq cmp (Remove x) a = wi_mutable_array_remove_data eq a x"
| "wi_array_apply qs eq cmp (Remove_At i) a = wi_mutable_array_remove_data_at_index a i"
| "wi_array_apply qs eq cmp (Remove_Range i n) a = wi_mutable_array_remove_data_in_range a i n"
| "wi_array_apply qs eq cmp (Remove_Array b) a = wi_mutable_array_remove_data_in_array eq a b"
| "wi_array_apply qs eq cmp Remove_All a = wi_mutable_array_remove_all_data a"
| "wi_array_apply qs eq cmp Sort a = wi_mutable_array_sort qs a cmp"
| "wi_array_apply qs eq cmp Reverse a = wi_mutable_array_reverse a"

fun list_apply ::
  "'a option \<Rightarrow> bool \<Rightarrow> (('a \<Rightarrow> 'a \<Rightarrow> int) \<Rightarrow> 'a list \<Rightarrow> 'a list) \<Rightarrow> ('a \<Rightarrow> 'a \<Rightarrow> bool) \<Rightarrow> ('a \<Rightarrow> 'a \<Rightarrow> int) \<Rightarrow>
    'a array_op \<Rightarrow> 'a list \<Rightarrow> 'a list option" where
  "list_apply null strict qs eq cmp (Add x) xs = (if null = Some x then None else Some (xs @ [x]))"
| "list_apply null strict qs eq cmp (Add_Sorted x) xs =
     (if strict \<and> null = Some x then None else Some (insort_after cmp x xs))"
| "list_apply null strict qs eq cmp (Add_Array b) xs = Some (xs @ wi_array_list b)"
| "list_apply null strict qs eq cmp (Insert x i) xs =
     (if i < length xs \<and> \<not> (strict \<and> null = Some x) then Some (take i xs @ x # drop i xs) else None)"
| "list_apply null strict qs eq cmp (Replace x i) xs =
     (if i < length xs \<and> \<not> (strict \<and> null = Some x) then Some (xs[i := x]) else None)"
| "list_apply null strict qs eq cmp (Set_Array b) xs = Some (wi_array_list b)"
| "list_apply null strict qs eq cmp (Remove x) xs =
     (if strict \<and> null = Some x then None else Some (remove_first eq x xs))"
| "list_apply null strict qs eq cmp (Remove_At i) xs =
     (if i < length xs then Some (take i xs @ drop (Suc i) xs) else None)"
| "list_apply null strict qs eq cmp (Remove_Range i n) xs =
     (if n = 0 \<or> i + n \<le> length xs then Some (take i xs @ drop (i + n) xs) else None)"
| "list_apply null strict qs eq cmp (Remove_Array b) xs = Some (fold (remove_first eq) (wi_array_list b) xs)"
| "list_apply null strict qs eq cmp Remove_All xs = Some []"
| "list_apply null strict qs eq cmp Sort xs = Some (qs cmp xs)"
| "list_apply null strict qs eq cmp Reverse xs = Some (rev xs)"

fun wi_array_run ::
  "(('a \<Rightarrow> 'a \<Rightarrow> int) \<Rightarrow> 'a list \<Rightarrow> 'a list) \<Rightarrow> ('a \<Rightarrow> 'a \<Rightarrow> bool) \<Rightarrow> ('a \<Rightarrow> 'a \<Rightarrow> int) \<Rightarrow>
    'a array_op list \<Rightarrow> 'a wi_array \<Rightarrow> 'a wi_array wi_checked" where
  "wi_array_run qs eq cmp [] a = Inr a"
| "wi_array_run qs eq cmp (c # cs) a = wi_checked_bind (wi_array_apply qs eq cmp c a) (wi_array_run qs eq cmp cs)"

fun list_run ::
  "'a option \<Rightarrow> bool \<Rightarrow> (('a \<Rightarrow> 'a \<Rightarrow> int) \<Rightarrow> 'a list \<Rightarrow> 'a list) \<Rightarrow> ('a \<Rightarrow> 'a \<Rightarrow> bool) \<Rightarrow> ('a \<Rightarrow> 'a \<Rightarrow> int) \<Rightarrow>
    'a array_op list \<Rightarrow> 'a list \<Rightarrow> 'a list option" where
  "list_run null strict qs eq cmp [] xs = Some xs"
| "list_run null strict qs eq cmp (c # cs) xs =
     (case list_apply null strict qs eq cmp c xs of None \<Rightarrow> None | Some ys \<Rightarrow> list_run null strict qs eq cmp cs ys)"

text \<open>By how many data a call can lengthen the array.\<close>

fun array_op_size :: "'a array_op \<Rightarrow> nat" where
  "array_op_size (Add x) = 1"
| "array_op_size (Add_Sorted x) = 1"
| "array_op_size (Add_Array b) = length (wi_array_list b)"
| "array_op_size (Insert x i) = 1"
| "array_op_size (Set_Array b) = length (wi_array_list b)"
| "array_op_size _ = 0"

lemma length_remove_first: "length (remove_first eq x xs) \<le> length xs"
  by (induction eq x xs rule: remove_first.induct) auto

lemma length_remove_each: "length (fold (remove_first eq) ys xs) \<le> length xs"
  by (induction ys arbitrary: xs) (auto intro: order_trans [OF _ length_remove_first])

lemma length_insort_after [simp]: "length (insort_after cmp x xs) = Suc (length xs)"
  by (induction cmp x xs rule: insort_after.induct) auto

lemma list_apply_length:
  "qsort_permutes qs \<Longrightarrow> list_apply null strict qs eq cmp c xs = Some ys \<Longrightarrow> length ys \<le> length xs + array_op_size c"
  using length_remove_first [of eq _ xs] length_remove_each [of eq _ xs] qsort_length [of qs cmp xs]
  by (cases c) (auto split: if_splits)

definition array_rel :: "'a option \<Rightarrow> bool \<Rightarrow> 'a wi_array \<Rightarrow> 'a list \<Rightarrow> bool" where
  "array_rel null strict a xs \<longleftrightarrow> wi_array_ok a \<and> is_mutable a \<and> wi_array_list a = xs \<and>
     array_null a = null \<and> (array_callbacks a = Default_Array_Callbacks \<longleftrightarrow> strict)"

lemma array_relD:
  assumes "array_rel null strict a xs"
  shows "wi_array_ok a" "is_mutable a" "wi_array_list a = xs" "data_count a = length xs"
    and "wi_array_is_null a x \<longleftrightarrow> null = Some x" and "wi_array_refuses_null a x \<longleftrightarrow> strict \<and> null = Some x"
  using assms wi_array_okD(1) [of a]
  by (auto simp: array_rel_def wi_array_is_null_def wi_array_refuses_null_def)

lemma remove_at_fields:
  "wi_mutable_array_remove_data_at_index a i = Inr b \<Longrightarrow>
     array_callbacks b = array_callbacks a \<and> array_null b = array_null a"
  by (auto simp: wi_mutable_array_remove_data_at_index_def Let_def split: if_splits)

lemma remove_at_refines:
  assumes "array_rel null strict a xs" and "length xs \<le> WI_ARRAY_MAX_COUNT"
  shows "if i < length xs
    then \<exists>b. wi_mutable_array_remove_data_at_index a i = Inr b \<and> array_rel null strict b (take i xs @ drop (Suc i) xs)
    else \<exists>e. wi_mutable_array_remove_data_at_index a i = Inl e"
proof (cases "i < length xs")
  case True
  note a = array_relD [OF assms(1)]
  then obtain b where b: "wi_mutable_array_remove_data_at_index a i = Inr b"
    using True by (simp add: wi_mutable_array_remove_data_at_index_def Let_def)
  have "data_count a \<le> WI_ARRAY_MAX_COUNT" using assms(2) a(4) by simp
  from wi_array_remove_at_ok [OF a(1) this b] remove_at_fields [OF b] True b assms(1) show ?thesis
    by (auto simp: array_rel_def)
qed (use array_relD(4) [OF assms(1)] in \<open>simp add: wi_mutable_array_remove_data_at_index_def\<close>)

lemma remove_first_refines:
  assumes "array_rel null strict a xs" and "length xs \<le> WI_ARRAY_MAX_COUNT"
  shows "\<exists>b. (case wi_array_index_of_data eq a x of
      Some i \<Rightarrow> wi_mutable_array_remove_data_at_index a i | None \<Rightarrow> Inr a) = Inr b \<and>
    array_rel null strict b (remove_first eq x xs)"
proof (cases "wi_array_index_of_data eq a x")
  case None
  with assms(1) array_relD(3) [OF assms(1)] show ?thesis
    by (simp add: wi_array_index_of_data_def remove_first_index [where k = 0])
next
  case (Some i)
  then have i: "wi_array_index_from eq x xs 0 = Some i" using array_relD(3) [OF assms(1)] by (simp add: wi_array_index_of_data_def)
  then have "i < length xs" using wi_array_index_from_Some by fastforce
  with remove_at_refines [OF assms, of i] i Some show ?thesis by (auto simp: remove_first_index [where k = 0])
qed

lemma remove_each_refines:
  assumes "array_rel null strict a xs" and "length xs \<le> WI_ARRAY_MAX_COUNT"
  shows "\<exists>b. wi_array_remove_each eq ys a = Inr b \<and> array_rel null strict b (fold (remove_first eq) ys xs)"
  using assms
proof (induction ys arbitrary: a xs)
  case (Cons y ys)
  from remove_first_refines [OF Cons.prems, of eq y] obtain b where
    b: "(case wi_array_index_of_data eq a y of Some i \<Rightarrow> wi_mutable_array_remove_data_at_index a i | None \<Rightarrow> Inr a) = Inr b"
    "array_rel null strict b (remove_first eq y xs)" by blast
  have "length (remove_first eq y xs) \<le> WI_ARRAY_MAX_COUNT" using Cons.prems(2) length_remove_first [of eq y xs] by simp
  with Cons.IH [OF b(2)] b(1) show ?case by simp
qed simp

lemma remove_range_refines:
  assumes "array_rel null strict a xs" and "length xs \<le> WI_ARRAY_MAX_COUNT"
  shows "if n = 0 \<or> i + n \<le> length xs
    then \<exists>b. wi_array_remove_range_loop n i a = Inr b \<and> array_rel null strict b (take i xs @ drop (i + n) xs)
    else \<exists>e. wi_array_remove_range_loop n i a = Inl e"
  using assms
proof (induction n arbitrary: a xs)
  case (Suc n)
  note one = remove_at_refines [OF Suc.prems, of i]
  show ?case
  proof (cases "i < length xs")
    case True
    with one obtain b where b: "wi_mutable_array_remove_data_at_index a i = Inr b"
      "array_rel null strict b (take i xs @ drop (Suc i) xs)" by auto
    have "length (take i xs @ drop (Suc i) xs) \<le> WI_ARRAY_MAX_COUNT" using Suc.prems(2) by simp
    from Suc.IH [OF b(2) this] b(1) True show ?thesis
      by (auto simp: min_def add.commute split: if_splits)
  qed (use one in auto)
qed simp

text \<open>One call: the related list, or the same refusal.\<close>

lemma wi_array_apply_refines:
  assumes rel: "array_rel null strict a xs" and max: "length xs \<le> WI_ARRAY_MAX_COUNT" and qs: "qsort_permutes qs"
  shows "case list_apply null strict qs eq cmp c xs of
           None \<Rightarrow> \<exists>e. wi_array_apply qs eq cmp c a = Inl e
         | Some ys \<Rightarrow> \<exists>b. wi_array_apply qs eq cmp c a = Inr b \<and> array_rel null strict b ys"
proof -
  note a = array_relD [OF rel]
  note kind = rel [unfolded array_rel_def]
  show ?thesis
  proof (cases c)
    case (Remove x)
    with remove_first_refines [OF rel max, of eq x] a(2,6) show ?thesis
      by (auto simp: wi_mutable_array_remove_data_def)
  next
    case (Remove_At i)
    with remove_at_refines [OF rel max, of i] show ?thesis by auto
  next
    case (Remove_Range i n)
    with remove_range_refines [OF rel max, of n i] a(2) show ?thesis
      by (auto simp: wi_mutable_array_remove_data_in_range_def)
  next
    case (Remove_Array b)
    with remove_each_refines [OF rel max, of eq "wi_array_list b"] a(2) show ?thesis
      by (simp add: wi_mutable_array_remove_data_in_array_def)
  next
    case (Replace x i)
    show ?thesis
    proof (cases "i < length xs \<and> \<not> (strict \<and> null = Some x)")
      case True
      with a(2,4,6) obtain b where b: "wi_mutable_array_replace_data_at_index a x i = Inr b"
        "b = (wi_array_remove_item (wi_array_create_item a))\<lparr>items := (items a)[i := Some x]\<rparr>"
        by (simp add: wi_mutable_array_replace_data_at_index_def Let_def)
      from wi_array_replace [OF a(1) b(1)] Replace True b a kind show ?thesis by (simp add: array_rel_def)
    qed (use a(2,4,6) Replace in \<open>auto simp: wi_mutable_array_replace_data_at_index_def\<close>)
  next
    case Reverse
    obtain b where b: "wi_mutable_array_reverse a = Inr b"
      "b = a\<lparr>items := wi_array_reverse_loop (data_count a div 2) 0 (data_count a) (items a)\<rparr>"
      using a(2) by (simp add: wi_mutable_array_reverse_def)
    with wi_array_reverse_list [OF a(1) b(1)] Reverse a kind show ?thesis by (simp add: array_rel_def)
  next
    case Sort
    obtain b where b: "wi_mutable_array_sort qs a cmp = Inr b" "array_callbacks b = array_callbacks a"
      "array_null b = array_null a" "is_mutable b"
      using a(2) by (cases "data_count a = 0") (simp_all add: wi_mutable_array_sort_def)
    from wi_array_sort [OF a(1) qs b(1)] b Sort a kind show ?thesis by (simp add: array_rel_def)
  next
    case (Insert x i)
    with a kind wi_array_insert_ok [OF a(1), of i x] show ?thesis
      by (auto simp: wi_mutable_array_insert_data_at_index_def array_rel_def)
  next
    case (Add_Sorted x)
    have "is_mutable (wi_array_add_item_sorted (wi_array_create_item a) x cmp)"
      "array_callbacks (wi_array_add_item_sorted (wi_array_create_item a) x cmp) = array_callbacks a"
      "array_null (wi_array_add_item_sorted (wi_array_create_item a) x cmp) = array_null a"
      using a(2) by (simp_all add: wi_array_add_item_sorted_def split: option.split)
    with Add_Sorted a kind wi_array_add_item_sorted [OF a(1), of x cmp] show ?thesis
      by (simp add: wi_mutable_array_add_data_sorted_def array_rel_def)
  next
    case (Add_Array b)
    with a kind arr.fold_add [OF a(1), of "wi_array_list b"] show ?thesis
      by (simp add: wi_mutable_array_add_data_from_array_def array_rel_def)
  next
    case (Set_Array b)
    have f: "array_callbacks (wi_array_remove_all_data_internal a) = array_callbacks a"
      "array_null (wi_array_remove_all_data_internal a) = array_null a"
      by (simp_all add: wi_array_remove_all_data_internal_def Let_def)
    note r = wi_array_remove_all [OF a(1)]
    from Set_Array f a kind r arr.fold_add [OF r(1), of "wi_array_list b"] show ?thesis
      by (simp add: wi_mutable_array_set_array_def wi_mutable_array_add_data_from_array_def array_rel_def)
  next
    case (Add x)
    with a kind show ?thesis
      by (simp add: array_rel_def wi_mutable_array_add_data_def wi_array_add_data_internal)
  next
    case Remove_All
    have f: "array_callbacks (wi_array_remove_all_data_internal a) = array_callbacks a"
      "array_null (wi_array_remove_all_data_internal a) = array_null a"
      by (simp_all add: wi_array_remove_all_data_internal_def Let_def)
    with Remove_All a kind show ?thesis
      by (simp add: array_rel_def wi_mutable_array_remove_all_data_def wi_array_remove_all)
  qed
qed

lemma wi_array_run_simulation:
  assumes "array_rel null strict a xs" and "length xs + sum_list (map array_op_size cs) \<le> WI_ARRAY_MAX_COUNT"
    and "qsort_permutes qs"
  shows "case list_run null strict qs eq cmp cs xs of
           None \<Rightarrow> \<exists>e. wi_array_run qs eq cmp cs a = Inl e
         | Some ys \<Rightarrow> \<exists>b. wi_array_run qs eq cmp cs a = Inr b \<and> array_rel null strict b ys"
  using assms(1,2)
proof (induction cs arbitrary: a xs)
  case (Cons c cs)
  have "length xs \<le> WI_ARRAY_MAX_COUNT" using Cons.prems(2) by simp
  note one = wi_array_apply_refines [OF Cons.prems(1) this assms(3), of eq cmp c]
  show ?case
  proof (cases "list_apply null strict qs eq cmp c xs")
    case None
    with one show ?thesis by auto
  next
    case (Some ys)
    then obtain b where b: "wi_array_apply qs eq cmp c a = Inr b" "array_rel null strict b ys"
      using one by auto
    have "length ys + sum_list (map array_op_size cs) \<le> WI_ARRAY_MAX_COUNT"
      using list_apply_length [OF assms(3) Some] Cons.prems(2) by simp
    with Cons.IH [OF b(2)] Some b(1) show ?thesis by (simp split: option.split_asm option.split)
  qed
qed simp

subsection \<open>Properties\<close>

text \<open>
  C25: Any sequence of calls of the public mutators on a well-formed mutable array does what
  the list specification says: adding, sorted adding, inserting, replacing, removing a datum,
  an index, a range, the data of another array or all data, setting, sorting and reversing.
  It stops in an assertion exactly when the specification refuses a call (an index out of
  range, or NULL where the callbacks retain the data), and otherwise ends in a well-formed
  array that holds the specified list. The capacity changes, the \<open>memmove\<close>s and the recycling
  of items never lose or reorder a datum while the array stays within \<open>_WI_ARRAY_MAX_COUNT\<close>.
  An array given to a call is another one, and \<open>qsort\<close> is taken to permute the data.
\<close>
theorem wi_array_run_refines:
  assumes "wi_array_ok a" and "is_mutable a"
    and "data_count a + sum_list (map array_op_size cs) \<le> WI_ARRAY_MAX_COUNT"
    and "qsort_permutes qs"
  shows "let spec = list_run (array_null a) (array_callbacks a = Default_Array_Callbacks) qs eq cmp cs (wi_array_list a)
         in case wi_array_run qs eq cmp cs a of
              Inl e \<Rightarrow> spec = None
            | Inr b \<Rightarrow> wi_array_ok b \<and> spec = Some (wi_array_list b)"
proof -
  have rel: "array_rel (array_null a) (array_callbacks a = Default_Array_Callbacks) a (wi_array_list a)"
    using assms(1,2) by (simp add: array_rel_def)
  have len: "length (wi_array_list a) + sum_list (map array_op_size cs) \<le> WI_ARRAY_MAX_COUNT"
    using assms(3) wi_array_okD(1) [OF assms(1)] by simp
  show ?thesis
    using wi_array_run_simulation [OF rel len assms(4), of eq cmp] unfolding Let_def
    by (cases "list_run (array_null a) (array_callbacks a = Default_Array_Callbacks) qs eq cmp cs (wi_array_list a)")
      (auto simp: array_rel_def)
qed

text \<open>A function that \<open>qsort\<close> may be: sorting by insertion.\<close>

definition insertion_sort :: "('a \<Rightarrow> 'a \<Rightarrow> int) \<Rightarrow> 'a list \<Rightarrow> 'a list" where
  "insertion_sort cmp xs = fold (insort_after cmp) xs []"

lemma mset_insort_after [simp]: "mset (insort_after cmp x xs) = add_mset x (mset xs)"
  by (induction cmp x xs rule: insort_after.induct) auto

lemma qsort_permutes_insertion: "qsort_permutes insertion_sort"
proof -
  have "mset (fold (insort_after cmp) xs ys) = mset ys + mset xs" for cmp :: "'a \<Rightarrow> 'a \<Rightarrow> int" and xs ys
    by (induction xs arbitrary: ys) auto
  then show ?thesis by (simp add: qsort_permutes_def insertion_sort_def)
qed

theorem wi_array_run_refines_witness:
  "\<exists>b. wi_array_run insertion_sort (=) (-)
         [Add 3, Add_Sorted 1, Insert (9::int) 1, Add_Array (wi_array_add_data_internal (wi_array_init_with_capacity 2 True 0) 4),
          Remove 3, Sort, Remove_Range 1 1, Reverse]
         (wi_array_init_with_capacity 2 True 0) = Inr b \<and> wi_array_list b = [9, 1]"
proof -
  let ?a = "wi_array_init_with_capacity 2 True 0 :: int wi_array"
  let ?b = "wi_array_add_data_internal ?a 4"
  let ?cs = "[Add 3, Add_Sorted 1, Insert (9::int) 1, Add_Array ?b, Remove 3, Sort, Remove_Range 1 1, Reverse]"
  have l: "wi_array_list ?b = [4]" by (simp add: wi_array_add_data_internal wi_array_init)
  have h: "wi_array_ok ?a" "is_mutable ?a" "data_count ?a + sum_list (map array_op_size ?cs) \<le> WI_ARRAY_MAX_COUNT"
    by (simp_all add: wi_array_init l WI_ARRAY_MAX_COUNT_def)
  have spec: "list_run (array_null ?a) (array_callbacks ?a = Default_Array_Callbacks) insertion_sort (=) (-) ?cs (wi_array_list ?a) = Some [9, 1]"
    by (simp add: wi_array_init l insertion_sort_def)
  show ?thesis
    using wi_array_run_refines [OF h qsort_permutes_insertion, of "(=)" "(-)"] unfolding Let_def spec by (auto split: sum.split_asm)
qed

text \<open>A comparison function as \<open>qsort\<close> and the sorted insertion expect it.\<close>

definition compare_ok :: "('a \<Rightarrow> 'a \<Rightarrow> int) \<Rightarrow> bool" where
  "compare_ok cmp \<longleftrightarrow> (\<forall>x y. cmp x y < 0 \<longleftrightarrow> 0 < cmp y x) \<and>
     (\<forall>x y z. cmp x y \<le> 0 \<longrightarrow> cmp y z \<le> 0 \<longrightarrow> cmp x z \<le> 0)"

lemma set_insort_after [simp]: "set (insort_after cmp x ys) = insert x (set ys)"
  by (induction cmp x ys rule: insort_after.induct) auto

lemma insort_after_sorted:
  assumes "compare_ok cmp" and "sorted_wrt (\<lambda>x y. cmp x y \<le> 0) ys"
  shows "sorted_wrt (\<lambda>x y. cmp x y \<le> 0) (insort_after cmp x ys) \<and>
    mset (insort_after cmp x ys) = add_mset x (mset ys) \<and>
    filter (\<lambda>y. cmp x y = 0) (insort_after cmp x ys) =
      filter (\<lambda>y. cmp x y = 0) ys @ filter (\<lambda>y. cmp x y = 0) [x]"
  using assms(2)
proof (induction ys)
  case (Cons y ys)
  have tot: "cmp y x \<le> 0" if "\<not> cmp x y < 0"
    using that assms(1) unfolding compare_ok_def by (metis not_less)
  have trans: "cmp x z \<le> 0" if "cmp x y < 0" "cmp y z \<le> 0" for z
    using that assms(1) unfolding compare_ok_def by (meson less_imp_le)
  have neg: "cmp x z < 0" if "cmp x y < 0" "z \<in> set ys" for z
  proof (rule ccontr)
    assume "\<not> cmp x z < 0"
    then have "cmp z x \<le> 0" using assms(1) unfolding compare_ok_def by (metis not_less)
    moreover have "cmp y z \<le> 0" using that(2) Cons.prems by simp
    ultimately have "cmp y x \<le> 0" using assms(1) unfolding compare_ok_def by blast
    moreover have "0 < cmp y x" using that(1) assms(1) by (simp add: compare_ok_def)
    ultimately show False by simp
  qed
  have none: "filter (\<lambda>z. cmp x z = 0) (y # ys) = []" if "cmp x y < 0"
    using that neg by (fastforce simp: filter_empty_conv)
  show ?case
    using Cons tot trans none by (auto dest: neg)
qed simp

text \<open>
  Sorted insertion with a comparison function keeps the array sorted, adds exactly
  the one datum, and places it after the data that compare equal to it.
\<close>
theorem wi_array_add_data_sorted:
  assumes "wi_array_ok a" and "compare_ok cmp"
    and "sorted_wrt (\<lambda>x y. cmp x y \<le> 0) (wi_array_list a)"
    and "wi_mutable_array_add_data_sorted a x cmp = Inr b"
  shows "wi_array_ok b \<and> sorted_wrt (\<lambda>x y. cmp x y \<le> 0) (wi_array_list b) \<and>
    mset (wi_array_list b) = add_mset x (mset (wi_array_list a)) \<and>
    filter (\<lambda>y. cmp x y = 0) (wi_array_list b) =
      filter (\<lambda>y. cmp x y = 0) (wi_array_list a) @ filter (\<lambda>y. cmp x y = 0) [x]"
  using assms wi_array_add_item_sorted [OF assms(1), of x cmp] insort_after_sorted [OF assms(2,3), of x]
  by (auto simp: wi_mutable_array_add_data_sorted_def split: if_splits)

theorem wi_array_add_data_sorted_example:
  "\<exists>b. wi_mutable_array_add_data_sorted
          (wi_array_add_data_internal (wi_array_init_with_capacity 2 True 0) (7::int)) 5 (-) = Inr b \<and>
       sorted_wrt (\<lambda>x y. x - y \<le> 0) (wi_array_list b)"
proof -
  let ?a = "wi_array_add_data_internal (wi_array_init_with_capacity 2 True 0) (7::int)"
  have ok: "wi_array_ok ?a" and l: "wi_array_list ?a = [7]"
    by (simp_all add: wi_array_add_data_internal wi_array_init)
  have cmp: "compare_ok ((-) :: int \<Rightarrow> int \<Rightarrow> int)" by (auto simp: compare_ok_def)
  obtain b where "wi_mutable_array_add_data_sorted ?a 5 (-) = Inr b"
    by (simp add: wi_mutable_array_add_data_sorted_def wi_array_refuses_null_def wi_array_is_null_def wi_array_init)
  with wi_array_add_data_sorted [OF ok cmp _ this] l show ?thesis by auto
qed

text \<open>
  \<open>wi_array_by_adding_data\<close> does not add the datum to the array it returns: on a
  mutable array it returns a copy without the datum and changes its argument, and on an
  immutable array or for NULL it stops in the assertion.
\<close>
theorem wi_array_by_adding_data_returns_unchanged:
  assumes "wi_array_ok a"
  shows "if is_mutable a \<and> \<not> wi_array_is_null a x
         then \<exists>a' new. wi_array_by_adding_data a x = Inr (a', new) \<and>
           wi_array_list new = wi_array_list a \<and> wi_array_list a' = wi_array_list a @ [x]
         else wi_array_by_adding_data a x = Inl (if is_mutable a then Null_Data else Not_Mutable)"
  using wi_array_mutable_copy [OF assms] wi_array_add_data_internal [OF assms, of x]
  by (simp add: wi_array_by_adding_data_def Let_def wi_mutable_array_add_data_def)

theorem wi_array_by_adding_data_returns_unchanged_example:
  "wi_array_ok (wi_array_init_with_capacity 4 False 0 :: nat wi_array) \<and>
   wi_array_by_adding_data (wi_array_init_with_capacity 4 False 0) (1::nat) = Inl Not_Mutable"
proof -
  have ok: "wi_array_ok (wi_array_init_with_capacity 4 False 0 :: nat wi_array)"
    by (simp add: wi_array_init)
  with wi_array_by_adding_data_returns_unchanged [OF ok, of 1] show ?thesis
    by (simp add: wi_array_init)
qed

text \<open>
  Above \<open>_WI_ARRAY_MAX_COUNT\<close> data the block is cut below the data it holds: there is
  a well-formed array from which removing one datum leaves a block that is too short.
\<close>
theorem wi_array_optimize_over_max:
  "\<exists>a b :: unit wi_array. wi_array_ok a \<and> is_mutable a \<and>
     wi_mutable_array_remove_data_at_index a 0 = Inr b \<and> items_count b < data_count b"
proof -
  define n :: nat where "n = WI_ARRAY_MAX_COUNT + 2"
  define a where "a = \<lparr>array_callbacks = Default_Array_Callbacks, array_null = None, items = replicate n (Some ()) @ replicate (2 * n) None, items_count = 3 * n,
    min_count = 10, data_count = n, item_chunks_count = 1, item_chunks_offset = n,
    item_free_count = 0, items_per_page = n, is_mutable = True\<rparr>"
  have "0 < n" by (simp add: n_def)
  then have "wi_array_ok a"
    by (simp add: a_def wi_array_ok_def wi_array_slots_ok_def wi_array_chunks_ok_def nth_append)
  moreover have "is_mutable a \<and> (\<exists>b. wi_mutable_array_remove_data_at_index a 0 = Inr b \<and>
      items_count b < data_count b)"
    by (auto simp: a_def n_def wi_mutable_array_remove_data_at_index_def wi_array_remove_item_def
        Let_def wi_array_check_optimize_def wi_array_optimize_def wi_clamp_def WI_ARRAY_MAX_COUNT_def)
  ultimately show ?thesis by blast
qed

end
