(* ===== verification/Wi_Hash.thy ===== *)
theory Wi_Hash
  imports Wi_Array
begin

text \<open>
  The bucket table that collections/wi-dictionary.c and collections/wi-set.c both
  implement: an array of singly linked chains, indexed by the hash of the key modulo the
  number of chains, whose bucket structures come from chunks and a free list. A chain is
  a list of buckets \<open>(key, value)\<close>; in the dictionary the value is the datum, in the set
  it is the number of times the key was added. The lemmas are stated over the multiset of
  all buckets, which resizing permutes and the other operations change at one place.
\<close>

type_synonym ('k, 'v) bucket = "'k \<times> 'v"
type_synonym ('k, 'v) chains = "('k, 'v) bucket list list"

subsection \<open>Bucket structures: chunks and the free list\<close>

record bucket_pool =
  bucket_chunks_count :: nat
  bucket_chunks_offset :: nat
  bucket_free_count :: nat
  buckets_per_page :: nat

definition pool_init :: "nat \<Rightarrow> bucket_pool" where
  "pool_init page = \<lparr>bucket_chunks_count = 0, bucket_chunks_offset = page,
     bucket_free_count = 0, buckets_per_page = page\<rparr>"

definition pool_create :: "bucket_pool \<Rightarrow> bucket_pool" where
  "pool_create p =
     (let p1 =
        (if bucket_free_count p = 0 then
           (let p0 = (if bucket_chunks_offset p = buckets_per_page p
                      then p\<lparr>bucket_chunks_count := bucket_chunks_count p + 1,
                              bucket_chunks_offset := 0\<rparr>
                      else p)
            in p0\<lparr>bucket_free_count := 1, bucket_chunks_offset := bucket_chunks_offset p0 + 1\<rparr>)
         else p)
      in p1\<lparr>bucket_free_count := bucket_free_count p1 - 1\<rparr>)"

definition pool_release :: "bucket_pool \<Rightarrow> bucket_pool" where
  "pool_release p = p\<lparr>bucket_free_count := bucket_free_count p + 1\<rparr>"

definition pool_ok :: "nat \<Rightarrow> bucket_pool \<Rightarrow> bool" where
  "pool_ok used p \<longleftrightarrow>
     0 < buckets_per_page p \<and> bucket_chunks_offset p \<le> buckets_per_page p \<and>
     bucket_chunks_count p * buckets_per_page p =
       used + bucket_free_count p + (buckets_per_page p - bucket_chunks_offset p)"

lemma pool_ok_steps [wi_inv]:
  "0 < page \<Longrightarrow> pool_ok 0 (pool_init page)"
  "pool_ok n p \<Longrightarrow> pool_ok (Suc n) (pool_create p)"
  "pool_ok (Suc n) p \<Longrightarrow> pool_ok n (pool_release p)"
  by (auto simp: pool_ok_def pool_init_def pool_create_def pool_release_def Let_def)

lemma pool_ok_release_all: "pool_ok (n + k) p \<Longrightarrow> pool_ok k ((pool_release ^^ n) p)"
proof (induction n arbitrary: k)
  case (Suc n)
  then have "pool_ok (Suc k) ((pool_release ^^ n) p)" by simp
  then show ?case by (simp add: pool_ok_steps)
qed simp

subsection \<open>Chains\<close>

text \<open>The loops over one chain: find the bucket of a key, overwrite it, unlink it.\<close>

fun chain_find :: "('k \<Rightarrow> 'k \<Rightarrow> bool) \<Rightarrow> 'k \<Rightarrow> ('k, 'v) bucket list \<Rightarrow> ('k, 'v) bucket option" where
  "chain_find eq k [] = None"
| "chain_find eq k (b # bs) = (if eq (fst b) k then Some b else chain_find eq k bs)"

fun chain_replace ::
  "('k \<Rightarrow> 'k \<Rightarrow> bool) \<Rightarrow> 'k \<Rightarrow> ('k, 'v) bucket \<Rightarrow> ('k, 'v) bucket list \<Rightarrow> ('k, 'v) bucket list" where
  "chain_replace eq k new [] = []"
| "chain_replace eq k new (b # bs) = (if eq (fst b) k then new # bs else b # chain_replace eq k new bs)"

fun chain_remove :: "('k \<Rightarrow> 'k \<Rightarrow> bool) \<Rightarrow> 'k \<Rightarrow> ('k, 'v) bucket list \<Rightarrow> ('k, 'v) bucket list" where
  "chain_remove eq k [] = []"
| "chain_remove eq k (b # bs) = (if eq (fst b) k then bs else b # chain_remove eq k bs)"

lemma chain_find_Some: "chain_find eq k c = Some b \<Longrightarrow> b \<in> set c \<and> eq (fst b) k"
  by (induction eq k c rule: chain_find.induct) (auto split: if_splits)

lemma chain_find_None: "chain_find eq k c = None \<longleftrightarrow> (\<forall>b \<in> set c. \<not> eq (fst b) k)"
  by (induction eq k c rule: chain_find.induct) auto

lemma mset_chain_replace:
  "chain_find eq k c = Some b \<Longrightarrow> mset (chain_replace eq k new c) = add_mset new (mset c - {#b#})"
  by (induction eq k c rule: chain_find.induct)
    (auto split: if_splits dest!: chain_find_Some simp: diff_add_mset_swap)

lemma mset_chain_remove:
  "mset (chain_remove eq k c) = (case chain_find eq k c of None \<Rightarrow> mset c | Some b \<Rightarrow> mset c - {#b#})"
  by (induction eq k c rule: chain_find.induct)
    (auto split: option.split dest!: chain_find_Some simp: diff_add_mset_swap)

lemma set_chain_remove: "set (chain_remove eq k c) \<subseteq> set c"
  by (induction eq k c rule: chain_remove.induct) auto

lemma set_chain_replace: "set (chain_replace eq k new c) \<subseteq> insert new (set c)"
  by (induction eq k new c rule: chain_replace.induct) auto

subsection \<open>Rehashing\<close>

text \<open>
  The double loop of the resize functions: every bucket of every chain, in order, is
  pushed on the front of its chain in the new table.
\<close>

fun rehash_chain ::
  "('k \<Rightarrow> nat) \<Rightarrow> nat \<Rightarrow> ('k, 'v) bucket list \<Rightarrow> ('k, 'v) chains \<Rightarrow> ('k, 'v) chains" where
  "rehash_chain hash n [] new = new"
| "rehash_chain hash n (b # bs) new =
     (let i = hash (fst b) mod n in rehash_chain hash n bs (new[i := b # new ! i]))"

fun rehash_chains ::
  "('k \<Rightarrow> nat) \<Rightarrow> nat \<Rightarrow> ('k, 'v) chains \<Rightarrow> ('k, 'v) chains \<Rightarrow> ('k, 'v) chains" where
  "rehash_chains hash n [] new = new"
| "rehash_chains hash n (c # cs) new = rehash_chains hash n cs (rehash_chain hash n c new)"

definition rehash :: "('k \<Rightarrow> nat) \<Rightarrow> nat \<Rightarrow> ('k, 'v) chains \<Rightarrow> ('k, 'v) chains" where
  "rehash hash n cs = rehash_chains hash n cs (replicate n [])"

definition placed :: "('k \<Rightarrow> nat) \<Rightarrow> nat \<Rightarrow> ('k, 'v) chains \<Rightarrow> bool" where
  "placed hash n cs \<longleftrightarrow> length cs = n \<and> 0 < n \<and> (\<forall>i < n. \<forall>b \<in> set (cs ! i). hash (fst b) mod n = i)"

lemma mset_concat_update:
  assumes "i < length cs"
  shows "mset (concat (cs[i := c])) = mset (concat cs) - mset (cs ! i) + mset c"
  using assms by (simp add: concat_update_split concat_split_at [OF assms])

lemma mset_concat_push:
  assumes "i < length cs"
  shows "mset (concat (cs[i := b # cs ! i])) = add_mset b (mset (concat cs))"
  using assms by (simp add: concat_update_split concat_split_at [OF assms])

lemma in_chain_concat: "i < length cs \<Longrightarrow> b \<in> set (cs ! i) \<Longrightarrow> b \<in> set (concat cs)"
  by auto

lemma placed_update:
  assumes "placed hash n cs" and "i < n" and "\<forall>b \<in> set c. hash (fst b) mod n = i"
  shows "placed hash n (cs[i := c])"
  using assms by (auto simp: placed_def nth_list_update)

lemma rehash_chain:
  assumes "placed hash n new"
  shows "placed hash n (rehash_chain hash n bs new) \<and>
    mset (concat (rehash_chain hash n bs new)) = mset bs + mset (concat new)"
  using assms
proof (induction hash n bs new rule: rehash_chain.induct)
  case (2 hash n b bs new)
  let ?i = "hash (fst b) mod n"
  have i: "?i < n" "?i < length new" using "2.prems" by (auto simp: placed_def)
  have "placed hash n (new[?i := b # new ! ?i])"
    using "2.prems" i by (intro placed_update) (auto simp: placed_def)
  with 2 mset_concat_push [OF i(2), of b] show ?case by (simp add: Let_def)
qed simp

lemma rehash_chains:
  assumes "placed hash n new"
  shows "placed hash n (rehash_chains hash n cs new) \<and>
    mset (concat (rehash_chains hash n cs new)) = mset (concat cs) + mset (concat new)"
  using assms
proof (induction hash n cs new rule: rehash_chains.induct)
  case (2 hash n c cs new)
  with rehash_chain [OF "2.prems", of c] show ?case by simp
qed simp

lemma rehash:
  assumes "0 < n"
  shows "placed hash n (rehash hash n cs)" and "mset (concat (rehash hash n cs)) = mset (concat cs)"
proof -
  have "placed hash n (replicate n [])" using assms by (auto simp: placed_def)
  from rehash_chains [OF this, of cs] show "placed hash n (rehash hash n cs)"
    and "mset (concat (rehash hash n cs)) = mset (concat cs)" by (simp_all add: rehash_def)
qed

subsection \<open>Enumerators\<close>

text \<open>
  The context of an enumerator: the index of the current chain and the pointer to the
  current bucket. A pointer into a chain is the part of the chain that starts there, NULL
  the empty list.
\<close>

record ('k, 'v) enumerator_context =
  e_index :: nat
  e_bucket :: "('k, 'v) bucket list"

definition enumerator_start :: "('k, 'v) enumerator_context" where
  "enumerator_start = \<lparr>e_index = 0, e_bucket = []\<rparr>"

function enumerator_scan :: "('k, 'v) chains \<Rightarrow> nat \<Rightarrow> nat \<Rightarrow> ('k, 'v) enumerator_context" where
  "enumerator_scan cs n i =
     (if i < n then
        (case cs ! i of [] \<Rightarrow> enumerator_scan cs n (Suc i)
         | b # bs \<Rightarrow> \<lparr>e_index = i, e_bucket = b # bs\<rparr>)
      else \<lparr>e_index = i, e_bucket = []\<rparr>)"
  by pat_completeness auto
termination by (relation "measure (\<lambda>(cs, n, i). n - i)") auto

declare enumerator_scan.simps [simp del]

definition enumerator_next ::
  "('k, 'v) chains \<Rightarrow> nat \<Rightarrow> ('k, 'v) enumerator_context \<Rightarrow>
    ('k, 'v) bucket option \<times> ('k, 'v) enumerator_context" where
  "enumerator_next cs n c =
     (case e_bucket c of
        _ # b # bs \<Rightarrow> (Some b, c\<lparr>e_bucket := b # bs\<rparr>)
      | cur \<Rightarrow>
          let i = (if cur = [] then e_index c else e_index c + 1);
              c' = enumerator_scan cs n i
          in (case e_bucket c' of [] \<Rightarrow> None | b # bs \<Rightarrow> Some b, c'))"

text \<open>A caller's loop \<open>while((x = next()))\<close>, cut off after \<open>n\<close> calls.\<close>

fun enumerate :: "('c \<Rightarrow> 'a option \<times> 'c) \<Rightarrow> nat \<Rightarrow> 'c \<Rightarrow> 'a list \<times> bool" where
  "enumerate next 0 c = ([], False)"
| "enumerate next (Suc n) c =
     (case next c of (None, c') \<Rightarrow> ([], True)
      | (Some x, c') \<Rightarrow> (let (xs, done) = enumerate next n c' in (x # xs, done)))"

text \<open>What an enumerator has still to return.\<close>

definition enumerator_rest :: "('k, 'v) chains \<Rightarrow> ('k, 'v) enumerator_context \<Rightarrow> ('k, 'v) bucket list" where
  "enumerator_rest cs c =
     (if e_bucket c = [] then concat (drop (e_index c) cs)
      else tl (e_bucket c) @ concat (drop (Suc (e_index c)) cs))"

lemma enumerator_scan:
  assumes "i \<le> length cs"
  shows "(e_bucket (enumerator_scan cs (length cs) i) = [] \<longleftrightarrow> concat (drop i cs) = []) \<and>
    (e_bucket (enumerator_scan cs (length cs) i) \<noteq> [] \<longrightarrow>
       concat (drop i cs) = hd (e_bucket (enumerator_scan cs (length cs) i)) #
         enumerator_rest cs (enumerator_scan cs (length cs) i))"
  using assms
proof (induction cs "length cs" i rule: enumerator_scan.induct)
  case (1 cs i)
  show ?case
  proof (cases "i < length cs")
    case False
    then show ?thesis by (subst enumerator_scan.simps) (simp add: enumerator_scan.simps)
  next
    case True
    then have drop: "drop i cs = cs ! i # drop (Suc i) cs" by (rule Cons_nth_drop_Suc [symmetric])
    show ?thesis
    proof (cases "cs ! i")
      case Nil
      with True have "enumerator_scan cs (length cs) i = enumerator_scan cs (length cs) (Suc i)"
        by (subst enumerator_scan.simps) simp
      with 1(1) [OF True Nil] True Nil drop show ?thesis by simp
    next
      case (Cons b bs)
      with True have "enumerator_scan cs (length cs) i = \<lparr>e_index = i, e_bucket = b # bs\<rparr>"
        by (subst enumerator_scan.simps) simp
      with Cons drop show ?thesis by (simp add: enumerator_rest_def)
    qed
  qed
qed

definition enumerator_ok :: "('k, 'v) chains \<Rightarrow> ('k, 'v) enumerator_context \<Rightarrow> bool" where
  "enumerator_ok cs c \<longleftrightarrow> (e_bucket c \<noteq> [] \<longrightarrow> e_index c < length cs) \<and> e_index c \<le> length cs"

lemma enumerator_scan_ok:
  "i \<le> length cs \<Longrightarrow> enumerator_ok cs (enumerator_scan cs (length cs) i)"
proof (induction cs "length cs" i rule: enumerator_scan.induct)
  case (1 cs i)
  then show ?case
    by (subst enumerator_scan.simps) (auto simp: enumerator_ok_def split: list.split)
qed

lemma enumerator_next:
  assumes "enumerator_ok cs c"
  shows "case enumerator_next cs (length cs) c of (r, c') \<Rightarrow>
    enumerator_ok cs c' \<and>
    (case r of None \<Rightarrow> enumerator_rest cs c = []
     | Some b \<Rightarrow> enumerator_rest cs c = b # enumerator_rest cs c')"
proof (cases "\<exists>a b bs. e_bucket c = a # b # bs")
  case True
  then show ?thesis using assms
    by (auto simp: enumerator_next_def enumerator_rest_def enumerator_ok_def)
next
  case False
  define i where "i = (if e_bucket c = [] then e_index c else e_index c + 1)"
  define s where "s = enumerator_scan cs (length cs) i"
  have i: "i \<le> length cs" using assms by (auto simp: i_def enumerator_ok_def)
  have nxt: "enumerator_next cs (length cs) c =
      (case e_bucket s of [] \<Rightarrow> None | b # bs \<Rightarrow> Some b, s)"
    using False by (auto simp: enumerator_next_def Let_def i_def s_def split: list.split)
  have "e_bucket c = [] \<or> (\<exists>b. e_bucket c = [b])"
    using False by (metis neq_Nil_conv)
  then have rest: "enumerator_rest cs c = concat (drop i cs)"
    by (auto simp: enumerator_rest_def i_def)
  have s: "enumerator_ok cs s" unfolding s_def using i by (rule enumerator_scan_ok)
  show ?thesis
    using enumerator_scan [OF i] s unfolding nxt rest s_def [symmetric]
    by (auto split: list.split)
qed

lemma enumerate_rest:
  assumes "enumerator_ok cs c" and "length (enumerator_rest cs c) \<le> n"
  shows "enumerate (enumerator_next cs (length cs)) (Suc n) c = (enumerator_rest cs c, True)"
  using assms
proof (induction n arbitrary: c)
  case 0
  with enumerator_next [OF 0(1)] show ?case by (auto split: prod.splits option.splits)
next
  case (Suc n)
  obtain r c' where n: "enumerator_next cs (length cs) c = (r, c')" by fastforce
  note step = enumerator_next [OF Suc.prems(1), unfolded n prod.case]
  show ?case
  proof (cases r)
    case None
    with step n show ?thesis by simp
  next
    case (Some b)
    with step have "length (enumerator_rest cs c') \<le> n" "enumerator_ok cs c'"
      using Suc.prems(2) by auto
    from Suc.IH [OF this(2,1)] step n Some show ?thesis by simp
  qed
qed

lemma enumerate_all:
  assumes "length (concat cs) \<le> n"
  shows "enumerate (enumerator_next cs (length cs)) (Suc n) enumerator_start = (concat cs, True)"
  using enumerate_rest [of cs enumerator_start n] assms
  by (simp add: enumerator_ok_def enumerator_rest_def enumerator_start_def)

subsection \<open>Tables without duplicate keys\<close>

text \<open>At most one bucket of the table has a key equal to \<open>k\<close>.\<close>

definition unique_keys :: "('k \<Rightarrow> 'k \<Rightarrow> bool) \<Rightarrow> ('k, 'v) bucket multiset \<Rightarrow> bool" where
  "unique_keys eq M \<longleftrightarrow> (\<forall>k. size (filter_mset (\<lambda>b. eq (fst b) k) M) \<le> 1)"

lemma unique_keysD:
  assumes "unique_keys eq M" and "b \<in># M" "c \<in># M" and "eq (fst b) k" "eq (fst c) k"
  shows "b = c"
proof (rule ccontr)
  assume "b \<noteq> c"
  with assms(2-) have "{#b, c#} \<subseteq># filter_mset (\<lambda>b. eq (fst b) k) M"
    by (auto simp: insert_subset_eq_iff in_diff_count)
  then have "size {#b, c#} \<le> size (filter_mset (\<lambda>b. eq (fst b) k) M)" by (rule size_mset_mono)
  with assms(1) show False by (simp add: unique_keys_def) (metis Suc_n_not_le_n numeral_2_eq_2 le_trans One_nat_def)
qed

lemma unique_keys_diff: "unique_keys eq M \<Longrightarrow> unique_keys eq (M - N)"
  unfolding unique_keys_def
  by (metis (no_types, lifting) diff_subset_eq_self le_trans multiset_filter_mono size_mset_mono)

text \<open>The table \<open>M\<close> has a bucket with datum \<open>v\<close> whose key is equal to \<open>k\<close>.\<close>

definition has_entry :: "('k \<Rightarrow> 'k \<Rightarrow> bool) \<Rightarrow> ('k, 'v) bucket multiset \<Rightarrow> 'k \<Rightarrow> 'v \<Rightarrow> bool" where
  "has_entry eq M k v \<longleftrightarrow> (\<exists>b \<in># M. eq (fst b) k \<and> snd b = v)"

lemma has_entry_unique: "unique_keys eq M \<Longrightarrow> has_entry eq M k v \<Longrightarrow> has_entry eq M k w \<Longrightarrow> v = w"
  unfolding has_entry_def by (metis unique_keysD)

text \<open>The laws of the key callbacks: equality of keys is an equivalence that the hash respects.\<close>

locale hash_callbacks =
  fixes hash :: "'k \<Rightarrow> nat" and eq :: "'k \<Rightarrow> 'k \<Rightarrow> bool"
  assumes eq_refl: "eq k k"
    and eq_sym: "eq k k' \<Longrightarrow> eq k' k"
    and eq_trans: "eq k k' \<Longrightarrow> eq k' k'' \<Longrightarrow> eq k k''"
    and eq_hash: "eq k k' \<Longrightarrow> hash k = hash k'"
begin

lemma unique_keys_add:
  assumes "unique_keys eq M" and "\<forall>b \<in># M. \<not> eq (fst b) k"
  shows "unique_keys eq (add_mset (k, v) M)"
  unfolding unique_keys_def
proof
  fix l
  show "size (filter_mset (\<lambda>b. eq (fst b) l) (add_mset (k, v) M)) \<le> 1"
  proof (cases "eq k l")
    case True
    have "\<not> eq (fst b) l" if "b \<in># M" for b
      using assms(2) that True eq_sym eq_trans by blast
    then have none: "filter_mset (\<lambda>b. eq (fst b) l) M = {#}"
      by (simp only: filter_mset_eq_mempty_iff) blast
    show ?thesis
      using True by (simp only: filter_mset_add_mset fst_conv if_True none) simp
  next
    case False
    with assms(1) show ?thesis by (simp add: unique_keys_def)
  qed
qed

lemma unique_keys_rest:
  assumes "unique_keys eq M" and "b \<in># M" and "eq (fst b) k"
  shows "\<forall>c \<in># M - {#b#}. \<not> eq (fst c) k"
proof -
  obtain N where N: "M = add_mset b N" using assms(2) by (metis mset_add)
  have "size (filter_mset (\<lambda>b. eq (fst b) k) M) \<le> 1" using assms(1) by (simp add: unique_keys_def)
  then have "filter_mset (\<lambda>b. eq (fst b) k) N = {#}" using assms(3) by (simp add: N)
  then show ?thesis
    by (simp only: N add_mset_remove_trivial filter_mset_eq_mempty_iff) blast
qed

lemma unique_keys_replace:
  assumes "unique_keys eq M" and "b \<in># M" and "eq (fst b) k"
  shows "unique_keys eq (add_mset (k, v) (M - {#b#}))"
  using unique_keys_diff [OF assms(1)] unique_keys_rest [OF assms] by (rule unique_keys_add)

lemma has_entry_add:
  assumes "\<forall>b \<in># M. \<not> eq (fst b) k"
  shows "has_entry eq (add_mset (k, v) M) k' w \<longleftrightarrow> (if eq k k' then w = v else has_entry eq M k' w)"
proof (cases "eq k k'")
  case True
  have "\<not> has_entry eq M k' w"
    using assms eq_trans [OF _ eq_sym [OF True]] by (auto simp: has_entry_def)
  with True show ?thesis by (auto simp: has_entry_def)
qed (simp add: has_entry_def)

lemma has_entry_rest:
  assumes "unique_keys eq M" and "b \<in># M" and "eq (fst b) k"
  shows "has_entry eq (M - {#b#}) k' w \<longleftrightarrow> \<not> eq k k' \<and> has_entry eq M k' w"
proof -
  obtain N where N: "M = add_mset b N" using assms(2) by (metis mset_add)
  have none: "\<forall>c \<in># N. \<not> eq (fst c) k" using unique_keys_rest [OF assms] by (simp add: N)
  have "has_entry eq N k' w \<longleftrightarrow> \<not> eq k k' \<and> has_entry eq (add_mset b N) k' w"
  proof (cases "eq k k'")
    case True
    then show ?thesis using none eq_sym eq_trans unfolding has_entry_def by blast
  next
    case False
    then have "\<not> eq (fst b) k'" using assms(3) eq_sym eq_trans by blast
    with False show ?thesis by (auto simp: has_entry_def)
  qed
  then show ?thesis by (simp add: N)
qed

lemma has_entry_eq: "eq k k' \<Longrightarrow> has_entry eq M k v \<longleftrightarrow> has_entry eq M k' v"
  using eq_sym eq_trans unfolding has_entry_def by blast

text \<open>The chain of a key holds every bucket of the table whose key is equal to it.\<close>

lemma chain_find_table:
  assumes "placed hash n cs" and "unique_keys eq (mset (concat cs))"
  shows "chain_find eq k (cs ! (hash k mod n)) = Some b \<longleftrightarrow> b \<in> set (concat cs) \<and> eq (fst b) k"
proof -
  let ?i = "hash k mod n"
  have i: "?i < length cs" using assms(1) by (auto simp: placed_def)
  have in_chain: "c \<in> set (cs ! ?i)" if "c \<in> set (concat cs)" "eq (fst c) k" for c
  proof -
    from that(1) obtain j where j: "j < length cs" "c \<in> set (cs ! j)" by (auto simp: in_set_conv_nth) metis
    then have "hash (fst c) mod n = j" using assms(1) by (auto simp: placed_def)
    with eq_hash [OF that(2)] j(2) show ?thesis by simp
  qed
  show ?thesis
  proof
    assume "chain_find eq k (cs ! ?i) = Some b"
    from chain_find_Some [OF this] i show "b \<in> set (concat cs) \<and> eq (fst b) k"
      by (auto intro: nth_mem)
  next
    assume b: "b \<in> set (concat cs) \<and> eq (fst b) k"
    then have "chain_find eq k (cs ! ?i) \<noteq> None"
      using in_chain [of b] by (simp only: chain_find_None) blast
    then obtain c where c: "chain_find eq k (cs ! ?i) = Some c" by auto
    from chain_find_Some [OF this] i have "c \<in> set (concat cs)" "eq (fst c) k"
      by (auto intro: nth_mem)
    with b have "c = b"
      by (intro unique_keysD [OF assms(2)]) auto
    with c show "chain_find eq k (cs ! ?i) = Some b" by simp
  qed
qed

lemma chain_find_table_None:
  assumes "placed hash n cs" and "unique_keys eq (mset (concat cs))"
  shows "chain_find eq k (cs ! (hash k mod n)) = None \<longleftrightarrow> (\<forall>b \<in> set (concat cs). \<not> eq (fst b) k)"
  using chain_find_table [OF assms, of k] by (metis not_None_eq option.distinct(1))

end

end
