(* ===== verification/Wi_Dictionary.thy ===== *)
theory Wi_Dictionary
  imports Wi_Hash
begin

text \<open>
  The hash table of collections/wi-dictionary.c. A bucket is the pair of its key and its
  datum; \<open>d_hash\<close> and \<open>d_eq\<close> are the key callbacks, \<open>d_value_callbacks\<close> tells
  \<open>wi_dictionary_default_value_callbacks\<close> from \<open>wi_dictionary_null_value_callbacks\<close>, the
  only two the sources use. Data and keys are non-NULL, which the public functions assert
  where the callbacks retain them; with the null callbacks a datum may be NULL, which matters
  where two dictionaries are compared: there \<open>null\<close> is the datum that is NULL. Where a program
  makes an array of a dictionary's keys, the kind of the key callbacks is an argument.
  The reference counting callbacks have no counterpart.

  The first part translates the operations; the second shows that each keeps the
  invariant \<open>dict_ok\<close> (every bucket in the chain of its hash, no key twice, the count, the
  load factor and the bucket chunks) and how the lookup function changes; the interface
  \<open>dictionary\<close> collects those laws for the programs that use dictionaries.
\<close>

datatype value_callbacks = Default_Value_Callbacks | Null_Value_Callbacks

record ('k, 'v) wi_dictionary =
  d_hash :: "'k \<Rightarrow> nat"
  d_eq :: "'k \<Rightarrow> 'k \<Rightarrow> bool"
  d_value_callbacks :: value_callbacks
  d_buckets :: "('k, 'v) chains"
  d_buckets_count :: nat
  d_min_count :: nat
  d_key_count :: nat
  d_pool :: bucket_pool
  d_mutable :: bool

definition WI_DICTIONARY_MIN_COUNT :: nat where "WI_DICTIONARY_MIN_COUNT = 11"
definition WI_DICTIONARY_MAX_COUNT :: nat where "WI_DICTIONARY_MAX_COUNT = 16777213"

definition wi_dictionary_init ::
  "nat \<Rightarrow> bool \<Rightarrow> nat \<Rightarrow> ('k \<Rightarrow> nat) \<Rightarrow> ('k \<Rightarrow> 'k \<Rightarrow> bool) \<Rightarrow> value_callbacks \<Rightarrow> ('k, 'v) wi_dictionary" where
  "wi_dictionary_init page mut capacity hash eq vcb =
     (let n = max (wi_exp2m1 (wi_log2 capacity + 1)) WI_DICTIONARY_MIN_COUNT
      in \<lparr>d_hash = hash, d_eq = eq, d_value_callbacks = vcb, d_buckets = replicate n [],
          d_buckets_count = n, d_min_count = n, d_key_count = 0, d_pool = pool_init page,
          d_mutable = mut\<rparr>)"

definition wi_dictionary_resize :: "('k, 'v) wi_dictionary \<Rightarrow> ('k, 'v) wi_dictionary" where
  "wi_dictionary_resize d =
     (let capacity = wi_exp2m1 (wi_log2 (d_key_count d) + 1);
          n = wi_clamp capacity (d_min_count d) WI_DICTIONARY_MAX_COUNT
      in d\<lparr>d_buckets := rehash (d_hash d) n (d_buckets d), d_buckets_count := n\<rparr>)"

definition wi_dictionary_check_resize :: "('k, 'v) wi_dictionary \<Rightarrow> ('k, 'v) wi_dictionary" where
  "wi_dictionary_check_resize d =
     (if (d_buckets_count d \<ge> 3 * d_key_count d \<and> d_buckets_count d > d_min_count d) \<or>
         (d_key_count d \<ge> 3 * d_buckets_count d \<and> d_buckets_count d < WI_DICTIONARY_MAX_COUNT)
      then wi_dictionary_resize d else d)"

definition wi_dictionary_bucket_create :: "('k, 'v) wi_dictionary \<Rightarrow> ('k, 'v) wi_dictionary" where
  "wi_dictionary_bucket_create d = d\<lparr>d_pool := pool_create (d_pool d)\<rparr>"

definition wi_dictionary_bucket_for_key ::
  "('k, 'v) wi_dictionary \<Rightarrow> 'k \<Rightarrow> nat \<Rightarrow> ('k, 'v) bucket option" where
  "wi_dictionary_bucket_for_key d key index = chain_find (d_eq d) key (d_buckets d ! index)"

definition wi_dictionary_bucket_remove :: "('k, 'v) wi_dictionary \<Rightarrow> ('k, 'v) wi_dictionary" where
  "wi_dictionary_bucket_remove d =
     d\<lparr>d_pool := pool_release (d_pool d), d_key_count := d_key_count d - 1\<rparr>"

subsection \<open>Reading\<close>

definition wi_dictionary_count :: "('k, 'v) wi_dictionary \<Rightarrow> nat" where
  "wi_dictionary_count d = d_key_count d"

definition wi_dictionary_data_for_key :: "('k, 'v) wi_dictionary \<Rightarrow> 'k \<Rightarrow> 'v option" where
  "wi_dictionary_data_for_key d key =
     (let index = d_hash d key mod d_buckets_count d
      in case wi_dictionary_bucket_for_key d key index of Some b \<Rightarrow> Some (snd b) | None \<Rightarrow> None)"

definition wi_dictionary_contains_key :: "('k, 'v) wi_dictionary \<Rightarrow> 'k \<Rightarrow> bool" where
  "wi_dictionary_contains_key d key =
     (let index = d_hash d key mod d_buckets_count d
      in wi_dictionary_bucket_for_key d key index \<noteq> None)"

definition wi_dictionary_all_keys :: "array_callbacks \<Rightarrow> nat \<Rightarrow> ('k, 'v) wi_dictionary \<Rightarrow> 'k wi_array" where
  "wi_dictionary_all_keys callbacks page d =
     (let a = fold (\<lambda>k a. wi_array_add_data_internal a k) (map fst (concat (d_buckets d)))
                (wi_array_init_with_capacity_and_callbacks page True (d_key_count d) callbacks None)
      in a\<lparr>is_mutable := False\<rparr>)"

definition wi_dictionary_all_values :: "nat \<Rightarrow> ('k, 'v) wi_dictionary \<Rightarrow> 'v wi_array" where
  "wi_dictionary_all_values page d =
     (let callbacks = (case d_value_callbacks d of
            Default_Value_Callbacks \<Rightarrow> Default_Array_Callbacks | Null_Value_Callbacks \<Rightarrow> Null_Array_Callbacks);
          a = fold (\<lambda>v a. wi_array_add_data_internal a v) (map snd (concat (d_buckets d)))
                (wi_array_init_with_capacity_and_callbacks page True (d_key_count d) callbacks None)
      in a\<lparr>is_mutable := False\<rparr>)"

text \<open>\<open>qsort\<close> and the value comparison are arguments; \<open>qs\<close> sorts the block of bucket pointers.\<close>

definition wi_dictionary_keys_sorted_by_value ::
  "array_callbacks \<Rightarrow> (('k, 'v) bucket list \<Rightarrow> ('k, 'v) bucket list) \<Rightarrow> nat \<Rightarrow> ('k, 'v) wi_dictionary \<Rightarrow> 'k wi_array" where
  "wi_dictionary_keys_sorted_by_value callbacks qs page d =
     (if d_key_count d = 0 then wi_array_init_with_capacity page False 0
      else
        let buckets = fold (\<lambda>b a. wi_array_add_data_internal a b) (concat (d_buckets d))
                        (wi_array_init_with_capacity_and_callbacks page True (d_key_count d) Null_Array_Callbacks None);
            data = qs (take (d_key_count d) (wi_array_list buckets));
            a = fold (\<lambda>b a. wi_array_add_data_internal a (fst b)) (take (d_key_count d) data)
                  (wi_array_init_with_capacity_and_callbacks page True (d_key_count d) callbacks None)
        in a\<lparr>is_mutable := False\<rparr>)"

definition wi_dictionary_enumerator ::
  "('k, 'v) wi_dictionary \<Rightarrow> ('k, 'v) enumerator_context \<Rightarrow>
    ('k, 'v) bucket option \<times> ('k, 'v) enumerator_context" where
  "wi_dictionary_enumerator d c = enumerator_next (d_buckets d) (d_buckets_count d) c"

definition wi_dictionary_key_enumerator ::
  "('k, 'v) wi_dictionary \<Rightarrow> ('k, 'v) enumerator_context \<Rightarrow> 'k option \<times> ('k, 'v) enumerator_context" where
  "wi_dictionary_key_enumerator d c = apfst (map_option fst) (wi_dictionary_enumerator d c)"

definition wi_dictionary_data_enumerator ::
  "('k, 'v) wi_dictionary \<Rightarrow> ('k, 'v) enumerator_context \<Rightarrow> 'v option \<times> ('k, 'v) enumerator_context" where
  "wi_dictionary_data_enumerator d c = apfst (map_option snd) (wi_dictionary_enumerator d c)"

subsection \<open>Writing\<close>

definition wi_dictionary_set :: "('k, 'v) wi_dictionary \<Rightarrow> 'v \<Rightarrow> 'k \<Rightarrow> ('k, 'v) wi_dictionary" where
  "wi_dictionary_set d data key =
     (let index = d_hash d key mod d_buckets_count d;
          d1 = (case wi_dictionary_bucket_for_key d key index of
                  Some _ \<Rightarrow>
                    d\<lparr>d_buckets := (d_buckets d)
                        [index := chain_replace (d_eq d) key (key, data) (d_buckets d ! index)]\<rparr>
                | None \<Rightarrow>
                    (wi_dictionary_bucket_create d)
                      \<lparr>d_key_count := d_key_count d + 1,
                       d_buckets := (d_buckets d)[index := (key, data) # d_buckets d ! index]\<rparr>)
      in wi_dictionary_check_resize d1)"

definition wi_dictionary_remove :: "('k, 'v) wi_dictionary \<Rightarrow> 'k \<Rightarrow> ('k, 'v) wi_dictionary" where
  "wi_dictionary_remove d key =
     (let index = d_hash d key mod d_buckets_count d;
          chain = d_buckets d ! index;
          d1 = (case chain_find (d_eq d) key chain of
                  Some _ \<Rightarrow>
                    wi_dictionary_bucket_remove
                      (d\<lparr>d_buckets := (d_buckets d)[index := chain_remove (d_eq d) key chain]\<rparr>)
                | None \<Rightarrow> d)
      in wi_dictionary_check_resize d1)"

fun wi_dictionary_remove_chain :: "('k, 'v) bucket list \<Rightarrow> ('k, 'v) wi_dictionary \<Rightarrow> ('k, 'v) wi_dictionary" where
  "wi_dictionary_remove_chain [] d = d"
| "wi_dictionary_remove_chain (b # bs) d = wi_dictionary_remove_chain bs (wi_dictionary_bucket_remove d)"

text \<open>The loop over the chains, with \<open>n\<close> of them left and \<open>i\<close> the next.\<close>

fun wi_dictionary_remove_chains :: "nat \<Rightarrow> nat \<Rightarrow> ('k, 'v) wi_dictionary \<Rightarrow> ('k, 'v) wi_dictionary" where
  "wi_dictionary_remove_chains 0 i d = d"
| "wi_dictionary_remove_chains (Suc n) i d =
     (let d1 = wi_dictionary_remove_chain (d_buckets d ! i) d
      in wi_dictionary_remove_chains n (Suc i) (d1\<lparr>d_buckets := (d_buckets d1)[i := []]\<rparr>))"

definition wi_dictionary_remove_all :: "('k, 'v) wi_dictionary \<Rightarrow> ('k, 'v) wi_dictionary" where
  "wi_dictionary_remove_all d =
     wi_dictionary_check_resize (wi_dictionary_remove_chains (d_buckets_count d) 0 d)"

definition wi_dictionary_set_buckets ::
  "('k, 'v) bucket list \<Rightarrow> ('k, 'v) wi_dictionary \<Rightarrow> ('k, 'v) wi_dictionary" where
  "wi_dictionary_set_buckets bs d = fold (\<lambda>b d. wi_dictionary_set d (snd b) (fst b)) bs d"

definition wi_dictionary_copy :: "nat \<Rightarrow> ('k, 'v) wi_dictionary \<Rightarrow> ('k, 'v) wi_dictionary" where
  "wi_dictionary_copy page d =
     wi_dictionary_set_buckets (concat (d_buckets d))
       (wi_dictionary_init page False (d_key_count d) (d_hash d) (d_eq d) (d_value_callbacks d))"

definition dictionary_value_is_equal ::
  "('v \<Rightarrow> 'v \<Rightarrow> bool) \<Rightarrow> ('k, 'v) wi_dictionary \<Rightarrow> 'v \<Rightarrow> 'v \<Rightarrow> bool" where
  "dictionary_value_is_equal veq d v w =
     (case d_value_callbacks d of Default_Value_Callbacks \<Rightarrow> veq v w | Null_Value_Callbacks \<Rightarrow> v = w)"

text \<open>
  The look-up of a key that is missing gives NULL, which is compared like any datum. \<open>veq\<close> is
  \<open>wi_is_equal\<close>, for which NULL equals only itself.
\<close>

definition wi_dictionary_is_equal ::
  "('v \<Rightarrow> 'v \<Rightarrow> bool) \<Rightarrow> 'v \<Rightarrow> ('k, 'v) wi_dictionary \<Rightarrow> ('k, 'v) wi_dictionary \<Rightarrow> bool" where
  "wi_dictionary_is_equal veq null d1 d2 =
     (if d_key_count d1 \<noteq> d_key_count d2 then False
      else if d_value_callbacks d1 \<noteq> d_value_callbacks d2 then False
      else list_all (\<lambda>b. dictionary_value_is_equal veq d1 (snd b)
               (case wi_dictionary_data_for_key d2 (fst b) of None \<Rightarrow> null | Some w \<Rightarrow> w))
             (concat (d_buckets d1)))"

definition wi_mutable_dictionary_set_data_for_key ::
  "('k, 'v) wi_dictionary \<Rightarrow> 'v \<Rightarrow> 'k \<Rightarrow> ('k, 'v) wi_dictionary wi_checked" where
  "wi_mutable_dictionary_set_data_for_key d data key =
     (if \<not> d_mutable d then Inl Not_Mutable else Inr (wi_dictionary_set d data key))"

definition wi_mutable_dictionary_remove_data_for_key ::
  "('k, 'v) wi_dictionary \<Rightarrow> 'k \<Rightarrow> ('k, 'v) wi_dictionary wi_checked" where
  "wi_mutable_dictionary_remove_data_for_key d key =
     (if \<not> d_mutable d then Inl Not_Mutable else Inr (wi_dictionary_remove d key))"

definition wi_mutable_dictionary_remove_all_data ::
  "('k, 'v) wi_dictionary \<Rightarrow> ('k, 'v) wi_dictionary wi_checked" where
  "wi_mutable_dictionary_remove_all_data d =
     (if \<not> d_mutable d then Inl Not_Mutable else Inr (wi_dictionary_remove_all d))"

definition wi_mutable_dictionary_add_entries_from_dictionary ::
  "('k, 'v) wi_dictionary \<Rightarrow> ('k, 'v) wi_dictionary \<Rightarrow> ('k, 'v) wi_dictionary wi_checked" where
  "wi_mutable_dictionary_add_entries_from_dictionary d d' =
     (if \<not> d_mutable d then Inl Not_Mutable
      else Inr (wi_dictionary_set_buckets (concat (d_buckets d')) d))"

definition wi_mutable_dictionary_set_dictionary ::
  "('k, 'v) wi_dictionary \<Rightarrow> ('k, 'v) wi_dictionary \<Rightarrow> ('k, 'v) wi_dictionary wi_checked" where
  "wi_mutable_dictionary_set_dictionary d d' =
     (if \<not> d_mutable d then Inl Not_Mutable
      else wi_mutable_dictionary_add_entries_from_dictionary (wi_dictionary_remove_all d) d')"

subsection \<open>The invariant\<close>

definition dict_table_ok :: "('k, 'v) wi_dictionary \<Rightarrow> bool" where
  "dict_table_ok d \<longleftrightarrow>
     hash_callbacks (d_hash d) (d_eq d) \<and>
     placed (d_hash d) (d_buckets_count d) (d_buckets d) \<and>
     unique_keys (d_eq d) (mset (concat (d_buckets d))) \<and>
     d_key_count d = length (concat (d_buckets d)) \<and>
     pool_ok (d_key_count d) (d_pool d) \<and> 0 < d_min_count d"

definition dict_load_ok :: "('k, 'v) wi_dictionary \<Rightarrow> bool" where
  "dict_load_ok d \<longleftrightarrow>
     (d_buckets_count d < 3 * d_key_count d \<or> d_buckets_count d \<le> d_min_count d) \<and>
     (d_key_count d < 3 * d_buckets_count d \<or> WI_DICTIONARY_MAX_COUNT \<le> d_buckets_count d)"

definition dict_ok :: "('k, 'v) wi_dictionary \<Rightarrow> bool" where
  "dict_ok d \<longleftrightarrow> dict_table_ok d \<and> dict_load_ok d"

text \<open>All that resizing and the loops leave alone.\<close>

definition dict_same_kind :: "('k, 'v) wi_dictionary \<Rightarrow> ('k, 'v) wi_dictionary \<Rightarrow> bool" where
  "dict_same_kind d d' \<longleftrightarrow> d_hash d' = d_hash d \<and> d_eq d' = d_eq d \<and>
     d_value_callbacks d' = d_value_callbacks d \<and> d_mutable d' = d_mutable d \<and>
     d_min_count d' = d_min_count d"

lemma dict_same_kind_refl [simp]: "dict_same_kind d d"
  by (simp add: dict_same_kind_def)

lemma dict_same_kind_trans: "dict_same_kind d d' \<Longrightarrow> dict_same_kind d' d'' \<Longrightarrow> dict_same_kind d d''"
  by (simp add: dict_same_kind_def)

lemma wi_dictionary_resize_load: "0 < d_min_count d \<Longrightarrow> dict_load_ok (wi_dictionary_resize d)"
  using wi_capacity_ge [of "d_key_count d"] wi_capacity_less [of "d_key_count d"]
  by (cases "d_key_count d = 0")
    (auto simp: dict_load_ok_def wi_dictionary_resize_def Let_def wi_clamp_def wi_exp2m1_def wi_log2.simps [of 0])

lemma wi_dictionary_resize:
  assumes "dict_table_ok d"
  shows "dict_table_ok (wi_dictionary_resize d) \<and>
    mset (concat (d_buckets (wi_dictionary_resize d))) = mset (concat (d_buckets d)) \<and>
    dict_same_kind d (wi_dictionary_resize d) \<and>
    d_key_count (wi_dictionary_resize d) = d_key_count d"
proof -
  define n where "n = wi_clamp (wi_exp2m1 (wi_log2 (d_key_count d) + 1)) (d_min_count d) WI_DICTIONARY_MAX_COUNT"
  have "0 < n" using assms unfolding n_def
    by (intro wi_clamp_pos) (auto simp: dict_table_ok_def WI_DICTIONARY_MAX_COUNT_def)
  note r = rehash [OF this, of "d_hash d" "d_buckets d"]
  have len: "length (concat (rehash (d_hash d) n (d_buckets d))) = length (concat (d_buckets d))"
    using r(2) by (metis size_mset)
  have "wi_dictionary_resize d = d\<lparr>d_buckets := rehash (d_hash d) n (d_buckets d), d_buckets_count := n\<rparr>"
    by (simp add: wi_dictionary_resize_def n_def Let_def)
  with r len assms show ?thesis by (auto simp: dict_table_ok_def dict_same_kind_def simp del: length_concat)
qed

lemma wi_dictionary_check_resize:
  assumes "dict_table_ok d"
  shows "dict_ok (wi_dictionary_check_resize d) \<and>
    mset (concat (d_buckets (wi_dictionary_check_resize d))) = mset (concat (d_buckets d)) \<and>
    dict_same_kind d (wi_dictionary_check_resize d) \<and>
    d_key_count (wi_dictionary_check_resize d) = d_key_count d"
proof -
  have "0 < d_min_count d" using assms by (simp add: dict_table_ok_def)
  with wi_dictionary_resize [OF assms] wi_dictionary_resize_load [of d] assms show ?thesis
    by (auto simp: wi_dictionary_check_resize_def dict_ok_def dict_load_ok_def not_le not_less)
qed

lemma wi_dictionary_init [wi_inv]:
  assumes "0 < page" and "hash_callbacks hash eq"
  shows "dict_ok (wi_dictionary_init page mut capacity hash eq vcb)"
  using assms
  by (auto simp: dict_ok_def dict_table_ok_def dict_load_ok_def wi_dictionary_init_def Let_def
      placed_def unique_keys_def pool_ok_steps WI_DICTIONARY_MIN_COUNT_def)

lemma wi_dictionary_init_fields [simp]:
  "concat (d_buckets (wi_dictionary_init page mut capacity hash eq vcb)) = []"
  "d_hash (wi_dictionary_init page mut capacity hash eq vcb) = hash"
  "d_eq (wi_dictionary_init page mut capacity hash eq vcb) = eq"
  "d_value_callbacks (wi_dictionary_init page mut capacity hash eq vcb) = vcb"
  "d_mutable (wi_dictionary_init page mut capacity hash eq vcb) = mut"
  "d_key_count (wi_dictionary_init page mut capacity hash eq vcb) = 0"
  by (simp_all add: wi_dictionary_init_def Let_def)

subsection \<open>Lookup\<close>

lemma wi_dictionary_bucket_for_key:
  assumes "dict_table_ok d"
  shows "wi_dictionary_bucket_for_key d k (d_hash d k mod d_buckets_count d) = Some b \<longleftrightarrow>
    b \<in># mset (concat (d_buckets d)) \<and> d_eq d (fst b) k"
  using assms hash_callbacks.chain_find_table [of "d_hash d" "d_eq d" "d_buckets_count d" "d_buckets d" k b]
  by (simp add: dict_table_ok_def wi_dictionary_bucket_for_key_def del: set_concat)

lemma wi_dictionary_bucket_for_key_None:
  assumes "dict_table_ok d"
  shows "wi_dictionary_bucket_for_key d k (d_hash d k mod d_buckets_count d) = None \<longleftrightarrow>
    (\<forall>b \<in># mset (concat (d_buckets d)). \<not> d_eq d (fst b) k)"
  using wi_dictionary_bucket_for_key [OF assms, of k] by (metis not_None_eq option.distinct(1))

lemma wi_dictionary_data_for_key_Some:
  assumes "dict_table_ok d"
  shows "wi_dictionary_data_for_key d k = Some v \<longleftrightarrow> has_entry (d_eq d) (mset (concat (d_buckets d))) k v"
proof -
  have "wi_dictionary_data_for_key d k = Some v \<longleftrightarrow>
      (\<exists>b. wi_dictionary_bucket_for_key d k (d_hash d k mod d_buckets_count d) = Some b \<and> snd b = v)"
    by (auto simp: wi_dictionary_data_for_key_def Let_def split: option.splits)
  then show ?thesis
    unfolding wi_dictionary_bucket_for_key [OF assms] has_entry_def by blast
qed

lemma wi_dictionary_lookup_eqI:
  assumes "dict_table_ok d" "dict_table_ok d'"
    and "\<And>v. has_entry (d_eq d) (mset (concat (d_buckets d))) k v \<longleftrightarrow>
              has_entry (d_eq d') (mset (concat (d_buckets d'))) k' v"
  shows "wi_dictionary_data_for_key d k = wi_dictionary_data_for_key d' k'"
proof -
  have "wi_dictionary_data_for_key d k = Some v \<longleftrightarrow> wi_dictionary_data_for_key d' k' = Some v" for v
    by (simp only: wi_dictionary_data_for_key_Some [OF assms(1)] wi_dictionary_data_for_key_Some [OF assms(2)] assms(3))
  then show ?thesis by (metis not_None_eq)
qed

lemma wi_dictionary_contains_key [wi_simps]:
  "wi_dictionary_contains_key d k \<longleftrightarrow> wi_dictionary_data_for_key d k \<noteq> None"
  by (auto simp: wi_dictionary_contains_key_def wi_dictionary_data_for_key_def Let_def split: option.split)

subsection \<open>What each mutator does\<close>

lemma dict_table_okD:
  assumes "dict_table_ok d"
  shows "hash_callbacks (d_hash d) (d_eq d)" and "unique_keys (d_eq d) (mset (concat (d_buckets d)))"
    and "d_hash d k mod d_buckets_count d < length (d_buckets d)"
  using assms by (auto simp: dict_table_ok_def placed_def)

text \<open>Changing one chain keeps the table; the new multiset decides the rest.\<close>

lemma dict_table_ok_update:
  assumes d: "dict_table_ok d" and i: "i = d_hash d k mod d_buckets_count d"
    and c: "\<forall>b \<in> set c. b \<in> set (d_buckets d ! i) \<or> d_eq d (fst b) k"
    and M: "M = mset (concat (d_buckets d)) - mset (d_buckets d ! i) + mset c"
    and u: "unique_keys (d_eq d) M" and n: "n = size M" and p: "pool_ok n p"
  shows "dict_table_ok (d\<lparr>d_pool := p, d_key_count := n, d_buckets := (d_buckets d)[i := c]\<rparr>) \<and>
    mset (concat ((d_buckets d)[i := c])) = M"
proof -
  have len: "i < length (d_buckets d)" and i2: "i < d_buckets_count d"
    using dict_table_okD(3) [OF d, of k] d i by (auto simp: dict_table_ok_def placed_def)
  have M': "mset (concat ((d_buckets d)[i := c])) = M"
    by (simp add: mset_concat_update [OF len] M)
  have hc: "d_hash d (fst b) mod d_buckets_count d = i" if "b \<in> set c" for b
  proof -
    from c that consider "b \<in> set (d_buckets d ! i)" | "d_eq d (fst b) k" by blast
    then show ?thesis
    proof cases
      case 1
      with d i2 show ?thesis by (auto simp: dict_table_ok_def placed_def)
    next
      case 2
      from hash_callbacks.eq_hash [OF dict_table_okD(1) [OF d] 2] show ?thesis by (simp add: i)
    qed
  qed
  have "placed (d_hash d) (d_buckets_count d) ((d_buckets d)[i := c])"
    using d i2 hc by (intro placed_update) (auto simp: dict_table_ok_def)
  moreover have "length (concat ((d_buckets d)[i := c])) = n"
    using M' n by (metis size_mset)
  ultimately show ?thesis using d u p M' by (simp add: dict_table_ok_def)
qed

lemma mset_chain_subset:
  "i < length cs \<Longrightarrow> mset (cs ! i) \<subseteq># mset (concat cs)"
  by (metis concat_split_at mset_append mset_subset_eq_add_left union_commute union_assoc)

lemma mset_chain_diff:
  assumes "i < length cs" and "b \<in> set (cs ! i)"
  shows "mset (concat cs) - mset (cs ! i) + (mset (cs ! i) - {#b#}) = mset (concat cs) - {#b#}"
proof -
  have "{#b#} \<subseteq># mset (cs ! i)" using assms(2) by simp
  with mset_chain_subset [OF assms(1)] show ?thesis
    by (metis add.commute subset_mset.add_diff_assoc subset_mset.diff_add_assoc2
        subset_mset.add_diff_assoc2 multiset_diff_union_assoc subset_mset.diff_add)
qed

lemma wi_dictionary_set:
  assumes "dict_ok d"
  shows "dict_ok (wi_dictionary_set d v k) \<and> dict_same_kind d (wi_dictionary_set d v k) \<and>
    has_entry (d_eq d) (mset (concat (d_buckets (wi_dictionary_set d v k)))) k' w =
      (if d_eq d k k' then w = v else has_entry (d_eq d) (mset (concat (d_buckets d))) k' w) \<and>
    d_key_count (wi_dictionary_set d v k) =
      (if wi_dictionary_contains_key d k then d_key_count d else d_key_count d + 1)"
proof -
  have d: "dict_table_ok d" using assms by (simp add: dict_ok_def)
  define i where "i = d_hash d k mod d_buckets_count d"
  note len = dict_table_okD(3) [OF d, of k, folded i_def]
  note cb = dict_table_okD(1) [OF d] and uq = dict_table_okD(2) [OF d]
  let ?M = "mset (concat (d_buckets d))"
  note find = wi_dictionary_bucket_for_key [OF d, of k, folded i_def]
  note none = wi_dictionary_bucket_for_key_None [OF d, of k, folded i_def]
  have size: "size ?M = d_key_count d" and pool: "pool_ok (d_key_count d) (d_pool d)"
    using d unfolding dict_table_ok_def by (metis size_mset, blast)
  have key: "d_eq d (fst (k, v)) k" using hash_callbacks.eq_refl [OF cb] by simp
  show ?thesis
  proof (cases "wi_dictionary_bucket_for_key d k i")
    case None
    with none have absent: "\<forall>b \<in># ?M. \<not> d_eq d (fst b) k" by simp
    let ?d1 = "d\<lparr>d_pool := pool_create (d_pool d), d_key_count := d_key_count d + 1,
                 d_buckets := (d_buckets d)[i := (k, v) # d_buckets d ! i]\<rparr>"
    let ?M' = "add_mset (k, v) ?M"
    have t: "dict_table_ok ?d1 \<and> mset (concat ((d_buckets d)[i := (k, v) # d_buckets d ! i])) = ?M'"
      using mset_chain_subset [OF len] size pool key
      by (intro dict_table_ok_update [OF d i_def])
        (auto simp: hash_callbacks.unique_keys_add [OF cb uq absent] pool_ok_steps simp del: mset_concat length_concat)
    have set: "wi_dictionary_set d v k = wi_dictionary_check_resize ?d1"
      using None by (simp add: wi_dictionary_set_def Let_def i_def wi_dictionary_bucket_create_def)
    have "\<not> wi_dictionary_contains_key d k"
      using None by (simp add: wi_dictionary_contains_key_def i_def)
    with wi_dictionary_check_resize [of ?d1] t set show ?thesis
      by (simp add: dict_same_kind_def hash_callbacks.has_entry_add [OF cb absent] del: mset_concat)
  next
    case (Some b)
    with find have b: "b \<in># ?M" "d_eq d (fst b) k" by blast+
    from Some have chain: "chain_find (d_eq d) k (d_buckets d ! i) = Some b"
      by (simp add: wi_dictionary_bucket_for_key_def)
    let ?c = "chain_replace (d_eq d) k (k, v) (d_buckets d ! i)"
    let ?d1 = "d\<lparr>d_pool := d_pool d, d_key_count := d_key_count d, d_buckets := (d_buckets d)[i := ?c]\<rparr>"
    let ?M' = "add_mset (k, v) (?M - {#b#})"
    have M': "?M' = ?M - mset (d_buckets d ! i) + mset ?c"
      using mset_chain_diff [OF len, of b] chain_find_Some [OF chain]
      by (simp add: mset_chain_replace [OF chain] del: mset_concat)
    have "size ?M' = d_key_count d"
      using b(1) size by (metis insert_DiffM size_add_mset)
    then have t: "dict_table_ok ?d1 \<and> mset (concat ((d_buckets d)[i := ?c])) = ?M'"
      using pool key set_chain_replace [of "d_eq d" k "(k, v)" "d_buckets d ! i"]
      by (intro dict_table_ok_update [OF d i_def _ M' hash_callbacks.unique_keys_replace [OF cb uq b]])
        auto
    have set: "wi_dictionary_set d v k = wi_dictionary_check_resize ?d1"
      using Some by (simp add: wi_dictionary_set_def Let_def i_def)
    have contains: "wi_dictionary_contains_key d k"
      using Some by (simp add: wi_dictionary_contains_key_def i_def)
    have rest: "\<forall>c \<in># ?M - {#b#}. \<not> d_eq d (fst c) k"
      by (rule hash_callbacks.unique_keys_rest [OF cb uq b])
    have "has_entry (d_eq d) ?M' k' w =
        (if d_eq d k k' then w = v else has_entry (d_eq d) ?M k' w)"
      by (simp add: hash_callbacks.has_entry_add [OF cb rest] hash_callbacks.has_entry_rest [OF cb uq b] del: mset_concat)
    with wi_dictionary_check_resize [of ?d1] t set contains show ?thesis
      by (simp add: dict_same_kind_def del: mset_concat)
  qed
qed

lemma wi_dictionary_remove:
  assumes "dict_ok d"
  shows "dict_ok (wi_dictionary_remove d k) \<and> dict_same_kind d (wi_dictionary_remove d k) \<and>
    has_entry (d_eq d) (mset (concat (d_buckets (wi_dictionary_remove d k)))) k' w =
      (\<not> d_eq d k k' \<and> has_entry (d_eq d) (mset (concat (d_buckets d))) k' w) \<and>
    d_key_count (wi_dictionary_remove d k) =
      (if wi_dictionary_contains_key d k then d_key_count d - 1 else d_key_count d)"
proof -
  have d: "dict_table_ok d" using assms by (simp add: dict_ok_def)
  define i where "i = d_hash d k mod d_buckets_count d"
  note len = dict_table_okD(3) [OF d, of k, folded i_def]
  note cb = dict_table_okD(1) [OF d] and uq = dict_table_okD(2) [OF d]
  let ?M = "mset (concat (d_buckets d))"
  note find = wi_dictionary_bucket_for_key [OF d, of k, folded i_def]
  note none = wi_dictionary_bucket_for_key_None [OF d, of k, folded i_def]
  have size: "size ?M = d_key_count d" and pool: "pool_ok (d_key_count d) (d_pool d)"
    using d unfolding dict_table_ok_def by (metis size_mset, blast)
  show ?thesis
  proof (cases "wi_dictionary_bucket_for_key d k i")
    case None
    with none have absent: "\<forall>b \<in># ?M. \<not> d_eq d (fst b) k" by simp
    have "\<not> has_entry (d_eq d) ?M k' w" if "d_eq d k k'"
      using absent hash_callbacks.has_entry_eq [OF cb that, of ?M w]
      unfolding has_entry_def by blast
    moreover have "wi_dictionary_remove d k = wi_dictionary_check_resize d"
      using None by (simp add: wi_dictionary_remove_def Let_def i_def wi_dictionary_bucket_for_key_def)
    moreover have "\<not> wi_dictionary_contains_key d k"
      using None by (simp add: wi_dictionary_contains_key_def i_def)
    ultimately show ?thesis
      using wi_dictionary_check_resize [OF d] by (auto simp del: mset_concat)
  next
    case (Some b)
    with find have b: "b \<in># ?M" "d_eq d (fst b) k" by blast+
    from Some have chain: "chain_find (d_eq d) k (d_buckets d ! i) = Some b"
      by (simp add: wi_dictionary_bucket_for_key_def)
    let ?c = "chain_remove (d_eq d) k (d_buckets d ! i)"
    let ?d1 = "d\<lparr>d_pool := pool_release (d_pool d), d_key_count := d_key_count d - 1,
                 d_buckets := (d_buckets d)[i := ?c]\<rparr>"
    let ?M' = "?M - {#b#}"
    have M': "?M' = ?M - mset (d_buckets d ! i) + mset ?c"
      using mset_chain_diff [OF len, of b] chain_find_Some [OF chain] chain
      by (simp add: mset_chain_remove del: mset_concat)
    have size': "d_key_count d = Suc (size ?M')"
      using b(1) size by (metis insert_DiffM size_add_mset)
    have t: "dict_table_ok ?d1 \<and> mset (concat ((d_buckets d)[i := ?c])) = ?M'"
    proof (rule dict_table_ok_update [OF d i_def _ M' unique_keys_diff [OF uq]])
      show "\<forall>b\<in>set ?c. b \<in> set (d_buckets d ! i) \<or> d_eq d (fst b) k"
        using set_chain_remove [of "d_eq d" k "d_buckets d ! i"] by blast
      show "pool_ok (d_key_count d - 1) (pool_release (d_pool d))"
        using pool unfolding size' by (simp add: pool_ok_steps(3))
    qed (simp add: size')
    have "wi_dictionary_remove d k = wi_dictionary_check_resize
        (wi_dictionary_bucket_remove (d\<lparr>d_buckets := (d_buckets d)[i := ?c]\<rparr>))"
      using chain by (simp add: wi_dictionary_remove_def Let_def i_def)
    also have "wi_dictionary_bucket_remove (d\<lparr>d_buckets := (d_buckets d)[i := ?c]\<rparr>) = ?d1"
      by (rule wi_dictionary.equality) (simp_all add: wi_dictionary_bucket_remove_def)
    finally have set: "wi_dictionary_remove d k = wi_dictionary_check_resize ?d1" .
    have contains: "wi_dictionary_contains_key d k"
      using Some by (simp add: wi_dictionary_contains_key_def i_def)
    with wi_dictionary_check_resize [of ?d1] t set show ?thesis
      by (simp add: dict_same_kind_def hash_callbacks.has_entry_rest [OF cb uq b] del: mset_concat)
  qed
qed

lemma wi_dictionary_remove_chain:
  "wi_dictionary_remove_chain bs d =
     d\<lparr>d_pool := (pool_release ^^ length bs) (d_pool d), d_key_count := d_key_count d - length bs\<rparr>"
  by (induction bs d rule: wi_dictionary_remove_chain.induct)
    (simp_all add: wi_dictionary_bucket_remove_def funpow_swap1)

lemma wi_dictionary_remove_chains:
  assumes "n + i = length (d_buckets d)"
  shows "wi_dictionary_remove_chains n i d =
    d\<lparr>d_pool := (pool_release ^^ length (concat (drop i (d_buckets d)))) (d_pool d),
      d_key_count := d_key_count d - length (concat (drop i (d_buckets d))),
      d_buckets := take i (d_buckets d) @ replicate n []\<rparr>"
  using assms
proof (induction n i d rule: wi_dictionary_remove_chains.induct)
  case (2 n i d)
  then have i: "i < length (d_buckets d)" by simp
  then have drop: "drop i (d_buckets d) = d_buckets d ! i # drop (Suc i) (d_buckets d)"
    by (rule Cons_nth_drop_Suc [symmetric])
  have pow: "(pool_release ^^ m) ((pool_release ^^ l) p) = (pool_release ^^ (l + m)) p" for l m p
    by (metis add.commute comp_apply funpow_add)
  from 2(2) i show ?case
    by (subst wi_dictionary_remove_chains.simps, simp only: Let_def, subst 2(1) [OF refl])
      (auto simp: wi_dictionary_remove_chain drop pow)
qed simp

lemma wi_dictionary_remove_all:
  assumes "dict_ok d"
  shows "dict_ok (wi_dictionary_remove_all d) \<and> dict_same_kind d (wi_dictionary_remove_all d) \<and>
    concat (d_buckets (wi_dictionary_remove_all d)) = []"
proof -
  have d: "dict_table_ok d" using assms by (simp add: dict_ok_def)
  then have n: "d_buckets_count d = length (d_buckets d)"
    and c: "d_key_count d = length (concat (d_buckets d))" and p: "pool_ok (d_key_count d) (d_pool d)"
    by (auto simp: dict_table_ok_def placed_def simp del: length_concat)
  let ?d1 = "d\<lparr>d_pool := (pool_release ^^ d_key_count d) (d_pool d), d_key_count := 0,
               d_buckets := replicate (d_buckets_count d) []\<rparr>"
  have eq: "wi_dictionary_remove_chains (d_buckets_count d) 0 d = ?d1"
    using wi_dictionary_remove_chains [of "d_buckets_count d" 0 d] n c by simp
  have "dict_table_ok ?d1"
    using d pool_ok_release_all [of "d_key_count d" 0 "d_pool d"] p
    by (auto simp: dict_table_ok_def placed_def unique_keys_def)
  from wi_dictionary_check_resize [OF this]
  have "dict_ok (wi_dictionary_remove_all d) \<and> dict_same_kind ?d1 (wi_dictionary_remove_all d) \<and>
      mset (concat (d_buckets (wi_dictionary_remove_all d))) = mset (concat (d_buckets ?d1))"
    unfolding wi_dictionary_remove_all_def eq by blast
  then show ?thesis
    by (simp add: dict_same_kind_def del: mset_concat)
qed

subsection \<open>The interface of a dictionary\<close>

text \<open>
  What a program that keeps its state in dictionaries relies on. \<open>eq\<close> is the equality of
  keys; the client's lemmas are proved from the laws alone.
\<close>

locale dictionary =
  fixes ok :: "'d \<Rightarrow> bool"
    and eq :: "'k \<Rightarrow> 'k \<Rightarrow> bool"
    and lookup :: "'d \<Rightarrow> 'k \<Rightarrow> 'v option"
    and put :: "'d \<Rightarrow> 'v \<Rightarrow> 'k \<Rightarrow> 'd"
    and del :: "'d \<Rightarrow> 'k \<Rightarrow> 'd"
  assumes ok_put: "ok d \<Longrightarrow> ok (put d v k)"
    and ok_del: "ok d \<Longrightarrow> ok (del d k)"
    and lookup_put: "ok d \<Longrightarrow> lookup (put d v k) k' = (if eq k k' then Some v else lookup d k')"
    and lookup_del: "ok d \<Longrightarrow> lookup (del d k) k' = (if eq k k' then None else lookup d k')"
begin

lemma fold_put:
  assumes "ok d"
  shows "ok (fold (\<lambda>b d. put d (snd b) (fst b)) bs d) \<and>
    lookup (fold (\<lambda>b d. put d (snd b) (fst b)) bs d) k =
      (case chain_find eq k (rev bs) of Some b \<Rightarrow> Some (snd b) | None \<Rightarrow> lookup d k)"
  using assms
proof (induction bs arbitrary: d rule: rev_induct)
  case (snoc b bs)
  from snoc.IH [OF snoc.prems] show ?case by (auto simp: ok_put lookup_put)
qed simp

lemma fold_del:
  assumes "ok d"
  shows "ok (fold (\<lambda>k d. del d k) ks d) \<and>
    lookup (fold (\<lambda>k d. del d k) ks d) k = (if \<exists>k' \<in> set ks. eq k' k then None else lookup d k)"
  using assms
proof (induction ks arbitrary: d rule: rev_induct)
  case (snoc k' ks)
  from snoc.IH [OF snoc.prems] show ?case by (auto simp: ok_del lookup_del)
qed simp

text \<open>A loop over keys that changes each key's entry by a rule of its own.\<close>

lemma fold_pointwise:
  assumes "\<And>k d. ok d \<Longrightarrow> ok (g k d) \<and> (\<forall>k'. lookup (g k d) k' = (if k' = k then h k (lookup d k) else lookup d k'))"
    and "ok d" and "distinct ks"
  shows "ok (fold g ks d) \<and> lookup (fold g ks d) k = (if k \<in> set ks then h k (lookup d k) else lookup d k)"
  using assms(2,3)
proof (induction ks arbitrary: d)
  case (Cons a ks)
  from assms(1) [OF Cons.prems(1), of a] Cons.IH [of "g a d"] Cons.prems(2) show ?case by auto
qed simp

lemma put_del: "ok d \<Longrightarrow> lookup (put (del d k) v k) k' = lookup (put d v k) k'"
  by (simp add: ok_del lookup_put lookup_del)

end

definition dict_keyed :: "('k \<Rightarrow> 'k \<Rightarrow> bool) \<Rightarrow> ('k, 'v) wi_dictionary \<Rightarrow> bool" where
  "dict_keyed eq d \<longleftrightarrow> dict_ok d \<and> d_eq d = eq"

lemma dict_keyedD:
  assumes "dict_keyed eq d"
  shows "dict_ok d" "dict_table_ok d" "d_eq d = eq"
  using assms by (simp_all add: dict_keyed_def dict_ok_def)

lemma lookup_if_Some: "(\<And>w. a = Some w \<longleftrightarrow> b = Some w) \<Longrightarrow> a = b"
  by (metis not_None_eq)

lemma wi_dictionary_set_keyed:
  assumes "dict_keyed eq d"
  shows "dict_keyed eq (wi_dictionary_set d v k)"
  using wi_dictionary_set [of d v k] assms by (simp add: dict_keyed_def dict_same_kind_def)

lemma wi_dictionary_remove_keyed:
  assumes "dict_keyed eq d"
  shows "dict_keyed eq (wi_dictionary_remove d k)"
  using wi_dictionary_remove [of d k] assms by (simp add: dict_keyed_def dict_same_kind_def)

lemma wi_dictionary_lookup_set:
  assumes "dict_keyed eq d"
  shows "wi_dictionary_data_for_key (wi_dictionary_set d v k) k' =
    (if eq k k' then Some v else wi_dictionary_data_for_key d k')"
proof (rule lookup_if_Some)
  fix w
  note d = dict_keyedD [OF assms] and d' = dict_keyedD [OF wi_dictionary_set_keyed [OF assms, of v k]]
  show "wi_dictionary_data_for_key (wi_dictionary_set d v k) k' = Some w \<longleftrightarrow>
      (if eq k k' then Some v else wi_dictionary_data_for_key d k') = Some w"
    using wi_dictionary_set [OF d(1), of v k k' w]
    by (auto simp: wi_dictionary_data_for_key_Some [OF d(2)] wi_dictionary_data_for_key_Some [OF d'(2)] d(3) d'(3))
qed

lemma wi_dictionary_lookup_remove:
  assumes "dict_keyed eq d"
  shows "wi_dictionary_data_for_key (wi_dictionary_remove d k) k' =
    (if eq k k' then None else wi_dictionary_data_for_key d k')"
proof (rule lookup_if_Some)
  fix w
  note d = dict_keyedD [OF assms] and d' = dict_keyedD [OF wi_dictionary_remove_keyed [OF assms, of k]]
  show "wi_dictionary_data_for_key (wi_dictionary_remove d k) k' = Some w \<longleftrightarrow>
      (if eq k k' then None else wi_dictionary_data_for_key d k') = Some w"
    using wi_dictionary_remove [OF d(1), of k k' w]
    by (auto simp: wi_dictionary_data_for_key_Some [OF d(2)] wi_dictionary_data_for_key_Some [OF d'(2)] d(3) d'(3))
qed

interpretation dict: dictionary "dict_keyed eq" eq
  wi_dictionary_data_for_key wi_dictionary_set wi_dictionary_remove for eq
  by unfold_locales
    (simp_all add: wi_dictionary_set_keyed wi_dictionary_remove_keyed
      wi_dictionary_lookup_set wi_dictionary_lookup_remove)

lemma wi_dictionary_empty:
  assumes "dict_table_ok d" and "concat (d_buckets d) = []"
  shows "wi_dictionary_data_for_key d k = None"
  using wi_dictionary_data_for_key_Some [OF assms(1), of k] assms(2)
  by (cases "wi_dictionary_data_for_key d k") (auto simp: has_entry_def simp del: concat_eq_Nil_conv)

lemma wi_dictionary_remove_all_keyed:
  assumes "dict_keyed eq d"
  shows "dict_keyed eq (wi_dictionary_remove_all d) \<and>
    wi_dictionary_data_for_key (wi_dictionary_remove_all d) k = None"
proof -
  note r = wi_dictionary_remove_all [OF dict_keyedD(1) [OF assms]]
  then have "dict_keyed eq (wi_dictionary_remove_all d)"
    using assms by (simp add: dict_keyed_def dict_same_kind_def)
  moreover from this r have "wi_dictionary_data_for_key (wi_dictionary_remove_all d) k = None"
    by (intro wi_dictionary_empty) (auto dest: dict_keyedD)
  ultimately show ?thesis by simp
qed

subsection \<open>Dictionaries whose keys are compared with equality\<close>

lemma chain_find_map_of: "chain_find (=) k xs = map_option (Pair k) (map_of xs k)"
  by (induction xs) auto

lemma unique_keys_distinct: "unique_keys (=) (mset xs) \<Longrightarrow> distinct (map fst xs)"
proof (induction xs)
  case (Cons b xs)
  have "unique_keys (=) (mset xs)" using unique_keys_diff [OF Cons.prems, of "{#b#}"] by simp
  moreover have "fst b \<noteq> fst c" if "c \<in> set xs" for c
  proof
    assume "fst b = fst c"
    then have "c \<in># filter_mset (\<lambda>c. fst c = fst b) (mset xs)" using that by simp
    then have "0 < size (filter_mset (\<lambda>c. fst c = fst b) (mset xs))"
      by (metis empty_iff gr0I set_mset_empty size_eq_0_iff_empty)
    moreover have "size (filter_mset (\<lambda>c. fst c = fst b) (mset (b # xs))) \<le> 1"
      using Cons.prems unfolding unique_keys_def by blast
    moreover have "size (filter_mset (\<lambda>c. fst c = fst b) (mset (b # xs))) =
        Suc (size (filter_mset (\<lambda>c. fst c = fst b) (mset xs)))" by simp
    ultimately show False by linarith
  qed
  ultimately show ?case using Cons.IH by force
qed simp

lemma dict_keyed_entries:
  assumes "dict_keyed (=) d"
  shows "distinct (map fst (concat (d_buckets d)))"
    and "wi_dictionary_data_for_key d = map_of (concat (d_buckets d))"
    and "wi_dictionary_count d = card (dom (wi_dictionary_data_for_key d))"
proof -
  note d = dict_keyedD [OF assms]
  show dist: "distinct (map fst (concat (d_buckets d)))"
    using dict_table_okD(2) [OF d(2)] d(3) by (intro unique_keys_distinct) simp
  show eq: "wi_dictionary_data_for_key d = map_of (concat (d_buckets d))"
  proof (rule ext, rule lookup_if_Some)
    fix k w
    show "wi_dictionary_data_for_key d k = Some w \<longleftrightarrow> map_of (concat (d_buckets d)) k = Some w"
      unfolding wi_dictionary_data_for_key_Some [OF d(2)] d(3) map_of_eq_Some_iff [OF dist] has_entry_def
      by (metis fst_conv prod.exhaust_sel set_mset_mset snd_conv)
  qed
  have "d_key_count d = length (map fst (concat (d_buckets d)))"
    using d(2) by (simp add: dict_table_ok_def del: length_concat)
  also have "\<dots> = card (set (map fst (concat (d_buckets d))))"
    using distinct_card [OF dist] by simp
  also have "set (map fst (concat (d_buckets d))) = dom (wi_dictionary_data_for_key d)"
    by (simp only: eq dom_map_of_conv_image_fst set_map)
  finally show "wi_dictionary_count d = card (dom (wi_dictionary_data_for_key d))"
    by (simp add: wi_dictionary_count_def)
qed

lemma wi_dictionary_set_buckets:
  assumes "dict_keyed (=) d" and "dict_keyed (=) e"
  shows "dict_keyed (=) (wi_dictionary_set_buckets (concat (d_buckets e)) d) \<and>
    wi_dictionary_data_for_key (wi_dictionary_set_buckets (concat (d_buckets e)) d) =
      wi_dictionary_data_for_key d ++ wi_dictionary_data_for_key e"
proof -
  note e = dict_keyed_entries [OF assms(2)]
  have "map_of (rev (concat (d_buckets e))) = map_of (concat (d_buckets e))"
    using e(1) map_of_inject_set [of "rev (concat (d_buckets e))" "concat (d_buckets e)"]
    by (simp add: rev_map [symmetric])
  then have "chain_find (=) k (rev (concat (d_buckets e))) =
      map_option (Pair k) (wi_dictionary_data_for_key e k)" for k
    by (simp add: chain_find_map_of e(2))
  then show ?thesis
    using dict.fold_put [OF assms(1), of "concat (d_buckets e)"]
    unfolding wi_dictionary_set_buckets_def
    by (auto simp: map_add_def fun_eq_iff split: option.split)
qed

lemma wi_dictionary_set_mutable [simp]: "d_mutable (wi_dictionary_set d v k) = d_mutable d"
  by (auto simp: wi_dictionary_set_def wi_dictionary_check_resize_def wi_dictionary_resize_def Let_def
      wi_dictionary_bucket_create_def split: option.split)

lemma wi_dictionary_remove_mutable [simp]: "d_mutable (wi_dictionary_remove d k) = d_mutable d"
  by (auto simp: wi_dictionary_remove_def wi_dictionary_check_resize_def wi_dictionary_resize_def Let_def
      wi_dictionary_bucket_remove_def split: option.split)

lemma wi_dictionary_set_buckets_mutable [simp]: "d_mutable (wi_dictionary_set_buckets bs d) = d_mutable d"
  by (induction bs arbitrary: d) (simp_all add: wi_dictionary_set_buckets_def)

lemma wi_dictionary_remove_all_mutable:
  "dict_ok d \<Longrightarrow> d_mutable (wi_dictionary_remove_all d) = d_mutable d"
  using wi_dictionary_remove_all by (auto simp: dict_same_kind_def)

text \<open>The public mutators, and the map each one promises.\<close>

datatype ('k, 'v) dict_op =
    Dict_Set 'v 'k
  | Dict_Remove 'k
  | Dict_Remove_All
  | Dict_Add_Entries "('k, 'v) wi_dictionary"
  | Dict_Set_Dictionary "('k, 'v) wi_dictionary"

fun wi_dictionary_apply :: "('k, 'v) dict_op \<Rightarrow> ('k, 'v) wi_dictionary \<Rightarrow> ('k, 'v) wi_dictionary wi_checked" where
  "wi_dictionary_apply (Dict_Set v k) d = wi_mutable_dictionary_set_data_for_key d v k"
| "wi_dictionary_apply (Dict_Remove k) d = wi_mutable_dictionary_remove_data_for_key d k"
| "wi_dictionary_apply Dict_Remove_All d = wi_mutable_dictionary_remove_all_data d"
| "wi_dictionary_apply (Dict_Add_Entries e) d = wi_mutable_dictionary_add_entries_from_dictionary d e"
| "wi_dictionary_apply (Dict_Set_Dictionary e) d = wi_mutable_dictionary_set_dictionary d e"

fun wi_dictionary_run :: "('k, 'v) dict_op list \<Rightarrow> ('k, 'v) wi_dictionary \<Rightarrow> ('k, 'v) wi_dictionary wi_checked" where
  "wi_dictionary_run [] d = Inr d"
| "wi_dictionary_run (c # cs) d = wi_checked_bind (wi_dictionary_apply c d) (wi_dictionary_run cs)"

fun map_apply :: "('k, 'v) dict_op \<Rightarrow> ('k \<rightharpoonup> 'v) \<Rightarrow> ('k \<rightharpoonup> 'v)" where
  "map_apply (Dict_Set v k) m = m(k \<mapsto> v)"
| "map_apply (Dict_Remove k) m = m(k := None)"
| "map_apply Dict_Remove_All m = Map.empty"
| "map_apply (Dict_Add_Entries e) m = m ++ wi_dictionary_data_for_key e"
| "map_apply (Dict_Set_Dictionary e) m = wi_dictionary_data_for_key e"

fun dict_op_ok :: "('k, 'v) dict_op \<Rightarrow> bool" where
  "dict_op_ok (Dict_Add_Entries e) = dict_keyed (=) e"
| "dict_op_ok (Dict_Set_Dictionary e) = dict_keyed (=) e"
| "dict_op_ok _ = True"

lemma wi_dictionary_apply_refines:
  assumes "dict_keyed (=) d" and "d_mutable d" and "dict_op_ok c"
  shows "\<exists>d'. wi_dictionary_apply c d = Inr d' \<and> dict_keyed (=) d' \<and> d_mutable d' \<and>
    wi_dictionary_data_for_key d' = map_apply c (wi_dictionary_data_for_key d)"
proof -
  note all = wi_dictionary_remove_all_keyed [OF assms(1)]
  have m: "d_mutable (wi_dictionary_remove_all d)"
    using wi_dictionary_remove_all_mutable [OF dict_keyedD(1) [OF assms(1)]] assms(2) by simp
  show ?thesis
  proof (cases c)
    case (Dict_Set v k)
    then show ?thesis using assms
      by (simp add: wi_mutable_dictionary_set_data_for_key_def dict.ok_put dict.lookup_put fun_eq_iff)
  next
    case (Dict_Remove k)
    then show ?thesis using assms
      by (simp add: wi_mutable_dictionary_remove_data_for_key_def dict.ok_del dict.lookup_del fun_eq_iff)
  next
    case Dict_Remove_All
    then show ?thesis using assms(2) all m
      by (simp add: wi_mutable_dictionary_remove_all_data_def fun_eq_iff)
  next
    case (Dict_Add_Entries e)
    then show ?thesis using assms wi_dictionary_set_buckets [of d e]
      by (simp add: wi_mutable_dictionary_add_entries_from_dictionary_def)
  next
    case (Dict_Set_Dictionary e)
    have "wi_dictionary_data_for_key (wi_dictionary_remove_all d) = Map.empty"
      using all by (simp add: fun_eq_iff)
    with Dict_Set_Dictionary show ?thesis
      using assms wi_dictionary_set_buckets [of "wi_dictionary_remove_all d" e] all m
      by (simp add: wi_mutable_dictionary_set_dictionary_def wi_mutable_dictionary_add_entries_from_dictionary_def)
  qed
qed

lemma wi_dictionary_run_simulation:
  assumes "dict_keyed (=) d" and "d_mutable d" and "\<forall>c \<in> set cs. dict_op_ok c"
  shows "\<exists>d'. wi_dictionary_run cs d = Inr d' \<and> dict_keyed (=) d' \<and>
    wi_dictionary_data_for_key d' = fold map_apply cs (wi_dictionary_data_for_key d)"
  using assms
proof (induction cs arbitrary: d)
  case (Cons c cs)
  obtain d1 where d1: "wi_dictionary_apply c d = Inr d1" "dict_keyed (=) d1" "d_mutable d1"
    "wi_dictionary_data_for_key d1 = map_apply c (wi_dictionary_data_for_key d)"
    using wi_dictionary_apply_refines [OF Cons.prems(1,2), of c] Cons.prems(3) by auto
  from Cons.IH [OF d1(2,3)] Cons.prems(3) show ?case by (simp add: d1)
qed simp

lemma wi_dictionary_run_immutable:
  "\<not> d_mutable d \<Longrightarrow> cs \<noteq> [] \<Longrightarrow> wi_dictionary_run cs d = Inl Not_Mutable"
  by (cases cs; cases "hd cs")
    (auto simp: wi_mutable_dictionary_set_data_for_key_def wi_mutable_dictionary_remove_data_for_key_def
      wi_mutable_dictionary_remove_all_data_def wi_mutable_dictionary_add_entries_from_dictionary_def
      wi_mutable_dictionary_set_dictionary_def)

text \<open>The table does not shrink below its first size.\<close>

definition dict_floor :: "nat \<Rightarrow> ('k, 'v) wi_dictionary \<Rightarrow> bool" where
  "dict_floor m d \<longleftrightarrow> d_min_count d = m \<and> m \<le> d_buckets_count d \<and> m \<le> WI_DICTIONARY_MAX_COUNT"

lemma dict_floor_check_resize: "dict_floor m d \<Longrightarrow> dict_floor m (wi_dictionary_check_resize d)"
  by (simp add: dict_floor_def wi_dictionary_check_resize_def wi_dictionary_resize_def Let_def wi_clamp_def)

lemma dict_floor_step:
  assumes "dict_floor m d"
  shows "dict_floor m (wi_dictionary_set d v k)" and "dict_floor m (wi_dictionary_remove d k)"
proof -
  show "dict_floor m (wi_dictionary_set d v k)" unfolding wi_dictionary_set_def Let_def
    by (rule dict_floor_check_resize) (use assms in \<open>simp add: dict_floor_def wi_dictionary_bucket_create_def split: option.split\<close>)
  show "dict_floor m (wi_dictionary_remove d k)" unfolding wi_dictionary_remove_def Let_def
    by (rule dict_floor_check_resize) (use assms in \<open>simp add: dict_floor_def wi_dictionary_bucket_remove_def split: option.split\<close>)
qed

lemma dict_floor_set_buckets: "dict_floor m d \<Longrightarrow> dict_floor m (wi_dictionary_set_buckets bs d)"
  unfolding wi_dictionary_set_buckets_def by (induction bs arbitrary: d) (auto intro: dict_floor_step)

lemma dict_floor_remove_all: "dict_floor m d \<Longrightarrow> dict_floor m (wi_dictionary_remove_all d)"
proof -
  have "d_min_count (wi_dictionary_remove_chains n i e) = d_min_count e \<and>
      d_buckets_count (wi_dictionary_remove_chains n i e) = d_buckets_count e" for n i and e :: "('a, 'b) wi_dictionary"
    by (induction n arbitrary: i e) (simp_all add: wi_dictionary_remove_chain Let_def)
  then show "dict_floor m d \<Longrightarrow> dict_floor m (wi_dictionary_remove_all d)"
    unfolding wi_dictionary_remove_all_def by (intro dict_floor_check_resize) (simp add: dict_floor_def)
qed

lemma wi_dictionary_run_floor: "wi_dictionary_run cs d = Inr d' \<Longrightarrow> dict_floor m d \<Longrightarrow> dict_floor m d'"
proof (induction cs arbitrary: d)
  case (Cons c cs)
  then obtain e where e: "wi_dictionary_apply c d = Inr e" "wi_dictionary_run cs e = Inr d'"
    by (auto simp: wi_checked_bind_Inr)
  have "dict_floor m e"
    using e(1) Cons.prems(2)
    by (cases c) (auto intro: dict_floor_step dict_floor_remove_all dict_floor_set_buckets simp: wi_mutable_dictionary_set_data_for_key_def wi_mutable_dictionary_remove_data_for_key_def
        wi_mutable_dictionary_remove_all_data_def wi_mutable_dictionary_add_entries_from_dictionary_def
        wi_mutable_dictionary_set_dictionary_def split: if_splits)
  with Cons.IH [OF e(2)] show ?case by blast
qed simp

text \<open>The key callbacks the programs use: strings, pointers, and 32-bit numbers.\<close>

definition wi_string_hash :: "string \<Rightarrow> nat" where
  "wi_string_hash s = unat (wi_hash_cstring (map of_char s))"

interpretation string_keys: hash_callbacks wi_string_hash "(=)"
  by unfold_locales simp_all

interpretation pointer_keys: hash_callbacks "\<lambda>p. unat (wi_hash_pointer p)" "(=)"
  by unfold_locales simp_all

interpretation number_keys: hash_callbacks "\<lambda>i. unat (wi_hash_int i)" "(=)"
  by unfold_locales simp_all

lemma hash_callbacks_eq: "hash_callbacks hash (=)"
  by unfold_locales simp_all

lemma dict_keyed_init [wi_inv]: "0 < page \<Longrightarrow> dict_keyed (=) (wi_dictionary_init page mut capacity hash (=) vcb)"
  by (simp add: dict_keyed_def wi_dictionary_init hash_callbacks_eq)

lemma wi_dictionary_init_lookup [simp]:
  "0 < page \<Longrightarrow> wi_dictionary_data_for_key (wi_dictionary_init page mut capacity hash (=) vcb) = Map.empty"
  using dict_keyed_init [of page mut capacity hash vcb]
  by (intro ext wi_dictionary_empty) (auto dest: dict_keyedD(2))

subsection \<open>Properties\<close>

text \<open>
  C24: A dictionary is a finite map. Any sequence of public mutator calls on a mutable
  dictionary with keys compared by equality returns a well-formed dictionary whose lookup
  function is the specified map and whose count is the number of its keys; resizing in
  either direction, chain order and bucket reuse are invisible. There are never more than
  three entries per chain on average (below the largest table), and a table that was not
  smaller than its first size never shrinks below it (if that is not above the largest size).
  Every call on an immutable dictionary stops in the assertion.
\<close>
theorem wi_dictionary_run_refines:
  assumes "dict_keyed (=) d" and "\<forall>c \<in> set cs. dict_op_ok c"
  shows "case wi_dictionary_run cs d of
      Inl e \<Rightarrow> e = Not_Mutable \<and> \<not> d_mutable d \<and> cs \<noteq> []
    | Inr d' \<Rightarrow> (d_mutable d \<or> cs = []) \<and> dict_keyed (=) d' \<and>
        wi_dictionary_data_for_key d' = fold map_apply cs (wi_dictionary_data_for_key d) \<and>
        wi_dictionary_count d' = card (dom (fold map_apply cs (wi_dictionary_data_for_key d))) \<and>
        (wi_dictionary_count d' < 3 * d_buckets_count d' \<or> WI_DICTIONARY_MAX_COUNT \<le> d_buckets_count d') \<and>
        (d_min_count d \<le> d_buckets_count d \<and> d_min_count d \<le> WI_DICTIONARY_MAX_COUNT \<longrightarrow>
           d_min_count d' = d_min_count d \<and> d_min_count d \<le> d_buckets_count d')"
proof (cases "d_mutable d \<or> cs = []")
  case True
  then have "\<exists>d'. wi_dictionary_run cs d = Inr d' \<and> dict_keyed (=) d' \<and>
      wi_dictionary_data_for_key d' = fold map_apply cs (wi_dictionary_data_for_key d)"
    using wi_dictionary_run_simulation [OF assms(1) _ assms(2)] assms(1) by auto
  then obtain d' where d': "wi_dictionary_run cs d = Inr d'" "dict_keyed (=) d'"
    "wi_dictionary_data_for_key d' = fold map_apply cs (wi_dictionary_data_for_key d)" by blast
  have "dict_load_ok d'" using dict_keyedD(1) [OF d'(2)] by (simp add: dict_ok_def)
  with True d' dict_keyed_entries(3) [OF d'(2)] wi_dictionary_run_floor [OF d'(1)] show ?thesis
    by (simp add: dict_load_ok_def wi_dictionary_count_def dict_floor_def)
next
  case False
  then show ?thesis by (simp add: wi_dictionary_run_immutable)
qed

theorem wi_dictionary_run_refines_witness:
  "case wi_dictionary_run [Dict_Set (7::nat) ''a'', Dict_Set 8 ''b'', Dict_Set 9 ''a'', Dict_Remove ''b'']
          (wi_dictionary_init 4 True 0 wi_string_hash (=) Default_Value_Callbacks) of
     Inl e \<Rightarrow> False
   | Inr d \<Rightarrow> wi_dictionary_data_for_key d = [''a'' \<mapsto> 9] \<and> wi_dictionary_count d = 1"
proof -
  let ?d = "wi_dictionary_init 4 True 0 wi_string_hash (=) Default_Value_Callbacks :: (string, nat) wi_dictionary"
  let ?cs = "[Dict_Set (7::nat) ''a'', Dict_Set 8 ''b'', Dict_Set 9 ''a'', Dict_Remove ''b'']"
  have h: "dict_keyed (=) ?d" "\<forall>c \<in> set ?cs. dict_op_ok c"
    by (simp_all add: dict_keyed_init)
  have m: "fold map_apply ?cs (wi_dictionary_data_for_key ?d) = [''a'' \<mapsto> 9]"
    by (simp add: fun_eq_iff)
  show ?thesis
    using wi_dictionary_run_refines [OF h] unfolding m by (auto split: sum.splits)
qed

text \<open>Equality as the values' callbacks decide it.\<close>

definition value_equal :: "('v \<Rightarrow> 'v \<Rightarrow> bool) \<Rightarrow> value_callbacks \<Rightarrow> 'v \<Rightarrow> 'v \<Rightarrow> bool" where
  "value_equal veq cb v w = (case cb of Default_Value_Callbacks \<Rightarrow> veq v w | Null_Value_Callbacks \<Rightarrow> v = w)"

lemma finite_dict_dom: "dict_keyed (=) d \<Longrightarrow> finite (dom (wi_dictionary_data_for_key d))"
  by (simp add: dict_keyed_entries(2) finite_dom_map_of)

lemma list_all_entries:
  assumes "dict_keyed (=) d"
  shows "list_all P (concat (d_buckets d)) \<longleftrightarrow>
    (\<forall>k v. wi_dictionary_data_for_key d k = Some v \<longrightarrow> P (k, v))"
  using map_of_eq_Some_iff [OF dict_keyed_entries(1) [OF assms]]
  unfolding dict_keyed_entries(2) [OF assms] list_all_iff by (metis prod.exhaust)

text \<open>
  C39: Two dictionaries of which the first holds no NULL are equal exactly when they use the
  same value callbacks and hold, under every key, either no value in both or two values that
  those callbacks call equal: comparing the counts and looking up only the first dictionary's
  keys in the second is enough.
\<close>
theorem wi_dictionary_is_equal_iff:
  assumes "dict_keyed (=) d1" and "dict_keyed (=) d2"
    and "\<forall>k v. wi_dictionary_data_for_key d1 k = Some v \<longrightarrow> \<not> value_equal veq (d_value_callbacks d1) v null"
  shows "wi_dictionary_is_equal veq null d1 d2 \<longleftrightarrow>
    d_value_callbacks d1 = d_value_callbacks d2 \<and>
    (\<forall>k. rel_option (value_equal veq (d_value_callbacks d1))
       (wi_dictionary_data_for_key d1 k) (wi_dictionary_data_for_key d2 k))"
    (is "?eq \<longleftrightarrow> ?spec")
proof -
  let ?m1 = "wi_dictionary_data_for_key d1" and ?m2 = "wi_dictionary_data_for_key d2"
  let ?R = "value_equal veq (d_value_callbacks d1)"
  have count: "d_key_count d1 = d_key_count d2 \<longleftrightarrow> card (dom ?m1) = card (dom ?m2)"
    using dict_keyed_entries(3) [OF assms(1)] dict_keyed_entries(3) [OF assms(2)]
    by (simp add: wi_dictionary_count_def)
  have veq: "dictionary_value_is_equal veq d1 v w \<longleftrightarrow> ?R v w" for v w
    by (simp add: dictionary_value_is_equal_def value_equal_def)
  have eq: "?eq \<longleftrightarrow> card (dom ?m1) = card (dom ?m2) \<and> d_value_callbacks d1 = d_value_callbacks d2 \<and>
      (\<forall>k v. ?m1 k = Some v \<longrightarrow> (\<exists>w. ?m2 k = Some w \<and> ?R v w))"
  proof -
    have "?R v (case ?m2 k of None \<Rightarrow> null | Some w \<Rightarrow> w) \<longleftrightarrow> (\<exists>w. ?m2 k = Some w \<and> ?R v w)" if "?m1 k = Some v" for k v
      using assms(3) that by (cases "?m2 k") auto
    then have "(\<forall>k v. ?m1 k = Some v \<longrightarrow> ?R v (case ?m2 k of None \<Rightarrow> null | Some w \<Rightarrow> w)) \<longleftrightarrow>
        (\<forall>k v. ?m1 k = Some v \<longrightarrow> (\<exists>w. ?m2 k = Some w \<and> ?R v w))" by blast
    then show ?thesis
      by (simp only: wi_dictionary_is_equal_def count list_all_entries [OF assms(1)] veq fst_conv snd_conv) argo
  qed
  show ?thesis
  proof
    assume ?eq
    with eq have h: "card (dom ?m1) = card (dom ?m2)" "d_value_callbacks d1 = d_value_callbacks d2"
      "\<forall>k v. ?m1 k = Some v \<longrightarrow> (\<exists>w. ?m2 k = Some w \<and> ?R v w)" by blast+
    have "dom ?m1 \<subseteq> dom ?m2" using h(3) by (auto simp: dom_def)
    then have "dom ?m1 = dom ?m2" using h(1) finite_dict_dom [OF assms(2)] by (simp add: card_subset_eq)
    then have "?m2 k = None" if "?m1 k = None" for k using that by (metis domIff)
    then have "rel_option ?R (?m1 k) (?m2 k)" for k
      using h(3) by (cases "?m1 k") (auto simp: option_rel_Some1)
    with h(2) show ?spec by blast
  next
    assume ?spec
    then have "(?m1 k = None) = (?m2 k = None)" for k by (metis option.rel_sel)
    then have "dom ?m1 = dom ?m2" by (auto simp: dom_def)
    with \<open>?spec\<close> eq show ?eq by (metis option_rel_Some1)
  qed
qed

theorem wi_dictionary_is_equal_iff_witness:
  "\<not> wi_dictionary_is_equal (=) 0
     (wi_dictionary_set (wi_dictionary_init 4 True 0 wi_string_hash (=) Null_Value_Callbacks) (1::nat) ''a'')
     (wi_dictionary_set (wi_dictionary_init 4 True 0 wi_string_hash (=) Null_Value_Callbacks) 1 ''b'')"
proof -
  let ?i = "wi_dictionary_init 4 True 0 wi_string_hash (=) Null_Value_Callbacks :: (string, nat) wi_dictionary"
  have k: "dict_keyed (=) ?i" by (simp add: dict_keyed_init)
  note l = dict.lookup_put [OF k]
  let ?a = "wi_dictionary_set ?i 1 ''a''" and ?b = "wi_dictionary_set ?i 1 ''b''"
  have "\<not> rel_option R (wi_dictionary_data_for_key ?a ''a'') (wi_dictionary_data_for_key ?b ''a'')" for R by (simp add: l)
  moreover have "\<forall>x v. wi_dictionary_data_for_key ?a x = Some v \<longrightarrow> \<not> value_equal (=) (d_value_callbacks ?a) v 0"
    by (simp add: l value_equal_def split: value_callbacks.split)
  ultimately show ?thesis
    using wi_dictionary_is_equal_iff [OF dict.ok_put [OF k] dict.ok_put [OF k]] by blast
qed

text \<open>
  A NULL that is stored equals a missing key: with the null callbacks, two dictionaries with
  NULL under different keys are equal.
\<close>

lemma wi_dictionary_is_equal_null:
  fixes k1 k2 :: string and null :: 'v
  assumes "k1 \<noteq> k2"
  defines "d \<equiv> \<lambda>k. wi_dictionary_set (wi_dictionary_init 4 True 0 wi_string_hash (=) Null_Value_Callbacks) null k"
  shows "wi_dictionary_is_equal veq null (d k1) (d k2)" and "wi_dictionary_data_for_key (d k1) \<noteq> wi_dictionary_data_for_key (d k2)"
proof -
  let ?i = "wi_dictionary_init 4 True 0 wi_string_hash (=) Null_Value_Callbacks :: (string, 'v) wi_dictionary"
  have i: "dict_keyed (=) ?i" by (simp add: dict_keyed_init)
  then have k: "dict_keyed (=) (d k)" for k by (simp add: d_def dict.ok_put)
  have l: "wi_dictionary_data_for_key (d k) k' = (if k = k' then Some null else None)" for k k'
    by (simp add: d_def dict.lookup_put [OF i])
  have "dom (wi_dictionary_data_for_key (d k)) = {k}" for k by (auto simp: dom_def l split: if_splits)
  then have c: "d_key_count (d k) = 1" for k
    using dict_keyed_entries(3) [OF k, of k] by (simp add: wi_dictionary_count_def)
  have v: "d_value_callbacks (d k) = Null_Value_Callbacks" for k
    using wi_dictionary_set [OF dict_keyedD(1) [OF i], of null k] by (simp add: d_def dict_same_kind_def)
  show "wi_dictionary_is_equal veq null (d k1) (d k2)"
    by (auto simp: wi_dictionary_is_equal_def c v list_all_entries [OF k] l dictionary_value_is_equal_def split: if_splits)
  show "wi_dictionary_data_for_key (d k1) \<noteq> wi_dictionary_data_for_key (d k2)"
    using assms(1) by (auto simp: l fun_eq_iff)
qed

lemma wi_dictionary_set_buckets_same_kind:
  "dict_ok d \<Longrightarrow> dict_same_kind d (wi_dictionary_set_buckets bs d) \<and> dict_ok (wi_dictionary_set_buckets bs d)"
proof (induction bs arbitrary: d)
  case (Cons b bs)
  note s = wi_dictionary_set [OF Cons.prems, of "snd b" "fst b"]
  with Cons.IH [of "wi_dictionary_set d (snd b) (fst b)"] show ?case
    by (auto simp: wi_dictionary_set_buckets_def intro: dict_same_kind_trans)
qed (simp add: wi_dictionary_set_buckets_def)

lemma wi_dictionary_copy:
  assumes "dict_keyed (=) d" and "0 < page"
  shows "dict_keyed (=) (wi_dictionary_copy page d)"
    and "wi_dictionary_data_for_key (wi_dictionary_copy page d) = wi_dictionary_data_for_key d"
    and "d_value_callbacks (wi_dictionary_copy page d) = d_value_callbacks d"
    and "\<not> d_mutable (wi_dictionary_copy page d)"
proof -
  let ?i = "wi_dictionary_init page False (d_key_count d) (d_hash d) (d_eq d) (d_value_callbacks d)"
  have i: "dict_keyed (=) ?i" and m: "wi_dictionary_data_for_key ?i = Map.empty"
    using assms by (simp_all add: dict_keyedD(3) dict_keyed_init)
  note c = wi_dictionary_set_buckets [OF i assms(1), folded wi_dictionary_copy_def]
  show "dict_keyed (=) (wi_dictionary_copy page d)"
    and "wi_dictionary_data_for_key (wi_dictionary_copy page d) = wi_dictionary_data_for_key d"
    using c by (simp_all only: m empty_map_add)
  have "dict_same_kind ?i (wi_dictionary_copy page d)"
    unfolding wi_dictionary_copy_def
    using wi_dictionary_set_buckets_same_kind [OF dict_keyedD(1) [OF i]] by blast
  then show "d_value_callbacks (wi_dictionary_copy page d) = d_value_callbacks d"
    "\<not> d_mutable (wi_dictionary_copy page d)" by (simp_all add: dict_same_kind_def)
qed

text \<open>
  The copy of a dictionary is well formed, immutable, has the same lookup function and
  compares equal to the original in both directions (for a reflexive value equality),
  although its table may have another size and its chains another order.
\<close>
lemma wi_dictionary_copy_equal:
  assumes "dict_keyed (=) d" and "0 < page" and "\<forall>v. veq v v"
  shows "dict_keyed (=) (wi_dictionary_copy page d) \<and> \<not> d_mutable (wi_dictionary_copy page d) \<and>
    wi_dictionary_data_for_key (wi_dictionary_copy page d) = wi_dictionary_data_for_key d \<and>
    wi_dictionary_is_equal veq null d (wi_dictionary_copy page d) \<and>
    wi_dictionary_is_equal veq null (wi_dictionary_copy page d) d"
proof -
  note c = wi_dictionary_copy [OF assms(1,2)]
  have count: "d_key_count (wi_dictionary_copy page d) = d_key_count d"
    using dict_keyed_entries(3) [OF c(1)] dict_keyed_entries(3) [OF assms(1)] c(2)
    by (simp add: wi_dictionary_count_def)
  have v: "dictionary_value_is_equal veq e v v" for e :: "('a, 'b) wi_dictionary" and v
    using assms(3) by (auto simp: dictionary_value_is_equal_def split: value_callbacks.split)
  have eq: "wi_dictionary_is_equal veq null d (wi_dictionary_copy page d)"
    "wi_dictionary_is_equal veq null (wi_dictionary_copy page d) d"
    by (simp_all add: wi_dictionary_is_equal_def count c list_all_entries [OF c(1)] list_all_entries [OF assms(1)] v)
  from c eq show ?thesis by simp
qed

lemma wi_dictionary_copy_equal_example:
  "wi_dictionary_is_equal (=) 0 (wi_dictionary_set (wi_dictionary_init 4 True 0 wi_string_hash (=) Default_Value_Callbacks) (1::nat) ''a'')
    (wi_dictionary_copy 4 (wi_dictionary_set (wi_dictionary_init 4 True 0 wi_string_hash (=) Default_Value_Callbacks) 1 ''a''))"
  by (rule wi_dictionary_copy_equal [THEN conjunct2, THEN conjunct2, THEN conjunct2, THEN conjunct1])
    (simp_all add: dict.ok_put dict_keyed_init)

lemma enumerate_apfst:
  "enumerate (\<lambda>c. apfst (map_option f) (next c)) n c = apfst (map f) (enumerate next n c)"
proof (induction n arbitrary: c)
  case (Suc n)
  obtain r c' where "next c = (r, c')" by fastforce
  with Suc show ?case by (cases r) (auto simp: split_beta)
qed simp

lemma dict_tableD:
  assumes "dict_table_ok d"
  shows "d_buckets_count d = length (d_buckets d)" "d_key_count d = length (concat (d_buckets d))"
  using assms by (simp_all add: dict_table_ok_def placed_def del: length_concat)

lemma wi_dictionary_enumerate:
  assumes "dict_table_ok d"
  shows "enumerate (wi_dictionary_enumerator d) (Suc (wi_dictionary_count d)) enumerator_start =
    (concat (d_buckets d), True)"
  using enumerate_all [of "d_buckets d" "wi_dictionary_count d"] dict_tableD [OF assms]
  by (simp add: wi_dictionary_enumerator_def [abs_def] wi_dictionary_count_def del: length_concat)



lemma wi_array_of_list:
  assumes "0 < page"
  shows "wi_array_ok (fold (\<lambda>x a. wi_array_add_data_internal a x) xs (wi_array_init_with_capacity_and_callbacks page mut n cb null))"
    and "wi_array_list (fold (\<lambda>x a. wi_array_add_data_internal a x) xs (wi_array_init_with_capacity_and_callbacks page mut n cb null)) = xs"
  using arr.fold_add [OF wi_array_init_with_callbacks(1) [OF assms], of xs mut n cb null] by (simp_all add: wi_array_init_with_callbacks)

lemma wi_dictionary_arrays:
  assumes "0 < page"
  shows "wi_array_list (wi_dictionary_all_keys cb page d) = map fst (concat (d_buckets d))"
    and "wi_array_list (wi_dictionary_all_values page d) = map snd (concat (d_buckets d))"
    and "wi_array_ok (wi_dictionary_all_keys cb page d)" and "wi_array_ok (wi_dictionary_all_values page d)"
  by (simp_all add: wi_dictionary_all_keys_def wi_dictionary_all_values_def Let_def
      wi_array_of_list [OF assms] del: map_concat)

text \<open>What \<open>qsort\<close> promises for the comparison \<open>cmp\<close>: a permutation in order.\<close>

definition qsort_ok :: "('b \<Rightarrow> 'b \<Rightarrow> int) \<Rightarrow> ('b list \<Rightarrow> 'b list) \<Rightarrow> bool" where
  "qsort_ok cmp qs \<longleftrightarrow> (\<forall>xs. mset (qs xs) = mset xs \<and> sorted_wrt (\<lambda>x y. cmp x y \<le> 0) (qs xs))"

lemma fold_add_map:
  "fold (\<lambda>b a. wi_array_add_data_internal a (f b)) bs a = fold (\<lambda>x a. wi_array_add_data_internal a x) (map f bs) a"
  by (induction bs arbitrary: a) simp_all

lemma wi_dictionary_sorted_list:
  assumes "0 < page" and "dict_table_ok d" and "qsort_ok cmp qs"
  shows "wi_array_list (wi_dictionary_keys_sorted_by_value cb qs page d) = map fst (qs (concat (d_buckets d)))"
proof (cases "d_key_count d = 0")
  case True
  with dict_tableD(2) [OF assms(2)] have nil: "concat (d_buckets d) = []" by (simp del: length_concat)
  have "mset (qs []) = mset []" using assms(3) by (simp only: qsort_ok_def)
  with True show ?thesis
    by (simp add: wi_dictionary_keys_sorted_by_value_def wi_array_init nil del: concat_eq_Nil_conv)
next
  case False
  have "length (qs (concat (d_buckets d))) = d_key_count d"
    using assms(3) unfolding dict_tableD(2) [OF assms(2)] qsort_ok_def by (metis size_mset)
  then show ?thesis
    using False dict_tableD(2) [OF assms(2), symmetric]
    by (simp add: wi_dictionary_keys_sorted_by_value_def Let_def wi_array_of_list [OF assms(1)]
        fold_add_map [of fst] del: length_concat)
qed

text \<open>
  When \<open>qsort\<close> keeps its contract for the comparison of the buckets' data,
  \<open>wi_dictionary_keys_sorted_by_value\<close> returns an array of every key once, in the order
  of the values stored under them.
\<close>
lemma wi_dictionary_keys_sorted:
  assumes "dict_keyed (=) d" and "0 < page" and "qsort_ok (\<lambda>b c. compare (snd b) (snd c)) qs"
  shows "let ks = wi_array_list (wi_dictionary_keys_sorted_by_value cb qs page d);
             val = (\<lambda>k. the (wi_dictionary_data_for_key d k))
         in distinct ks \<and> set ks = dom (wi_dictionary_data_for_key d) \<and>
            sorted_wrt (\<lambda>k l. compare (val k) (val l) \<le> 0) ks"
proof -
  let ?es = "concat (d_buckets d)"
  let ?ks = "map fst (qs ?es)"
  note e = dict_keyed_entries [OF assms(1)]
  have q: "mset (qs ?es) = mset ?es" "sorted_wrt (\<lambda>b c. compare (snd b) (snd c) \<le> 0) (qs ?es)"
    using assms(3) unfolding qsort_ok_def by blast+
  have ks: "wi_array_list (wi_dictionary_keys_sorted_by_value cb qs page d) = ?ks"
    by (rule wi_dictionary_sorted_list [OF assms(2) dict_keyedD(2) [OF assms(1)] assms(3)])
  have m: "mset ?ks = mset (map fst ?es)" using q(1) by (simp only: mset_map)
  then have "distinct ?ks" using e(1) by (metis mset_eq_imp_distinct_iff)
  moreover have "set ?ks = dom (wi_dictionary_data_for_key d)"
    using mset_eq_setD [OF m] by (simp only: e(2) dom_map_of_conv_image_fst set_map)
  moreover have "sorted_wrt (\<lambda>k l. compare (the (wi_dictionary_data_for_key d k)) (the (wi_dictionary_data_for_key d l)) \<le> 0) ?ks"
  proof -
    have v: "the (wi_dictionary_data_for_key d (fst b)) = snd b" if "b \<in> set (qs ?es)" for b
    proof -
      have "(fst b, snd b) \<in> set ?es" using that mset_eq_setD [OF q(1)] by simp
      then show ?thesis by (simp only: e(2) map_of_is_SomeI [OF e(1)] option.sel)
    qed
    have "sorted_wrt (\<lambda>b c. compare (the (wi_dictionary_data_for_key d (fst b)))
        (the (wi_dictionary_data_for_key d (fst c))) \<le> 0) (qs ?es)"
      by (rule sorted_wrt_mono_rel [OF _ q(2)]) (simp only: v)
    then show ?thesis by (simp only: sorted_wrt_map)
  qed
  ultimately show ?thesis by (simp only: ks Let_def)
qed

lemma wi_dictionary_keys_sorted_example:
  "set (wi_array_list (wi_dictionary_keys_sorted_by_value Default_Array_Callbacks (sort_key snd) 4
     (wi_dictionary_set (wi_dictionary_init 4 True 0 wi_string_hash (=) Default_Value_Callbacks) (1::nat) ''a''))) = {''a''}"
proof -
  let ?d = "wi_dictionary_set (wi_dictionary_init 4 True 0 wi_string_hash (=) Default_Value_Callbacks) (1::nat) ''a''"
  have d: "dict_keyed (=) ?d" by (simp add: dict.ok_put dict_keyed_init)
  have q: "qsort_ok (\<lambda>b c. int (snd b) - int (snd c)) (sort_key snd :: (string \<times> nat) list \<Rightarrow> _)"
    unfolding qsort_ok_def
  proof (intro allI conjI)
    fix xs :: "(string \<times> nat) list"
    show "mset (sort_key snd xs) = mset xs" by simp
    have "sorted_wrt (\<lambda>b c. snd b \<le> snd c) (sort_key snd xs)"
      using sorted_sort_key [of snd xs] by (simp only: sorted_map)
    then show "sorted_wrt (\<lambda>b c. int (snd b) - int (snd c) \<le> 0) (sort_key snd xs)"
      by (rule sorted_wrt_mono_rel [rotated]) simp
  qed
  have "dom (wi_dictionary_data_for_key ?d) = {''a''}"
    by (auto simp: dict.lookup_put [where eq = "(=)"] dict_keyed_init split: if_splits)
  with wi_dictionary_keys_sorted [OF d _ q, of 4] show ?thesis by (simp only: Let_def)
qed

end
