(* ===== verification/Wi_Set.thy ===== *)
theory Wi_Set
  imports Wi_Dictionary
begin

text \<open>
  The hash set of collections/wi-set.c. A bucket is the pair of its datum and its
  \<open>count\<close>; adding a datum that is present only increments the count, in every set. A
  \<open>counted\<close> set takes one occurrence away per removal, the other sets drop the bucket.
  The second part proves that the set is a bag, described by \<open>wi_set_count_for_data\<close>;
  the interface \<open>bag\<close> collects the laws.
\<close>

record 'a wi_set =
  s_hash :: "'a \<Rightarrow> nat"
  s_eq :: "'a \<Rightarrow> 'a \<Rightarrow> bool"
  s_counted :: bool
  s_buckets :: "('a, nat) chains"
  s_buckets_count :: nat
  s_min_count :: nat
  s_data_count :: nat
  s_pool :: bucket_pool
  s_mutable :: bool

definition WI_SET_MIN_COUNT :: nat where "WI_SET_MIN_COUNT = 11"
definition WI_SET_MAX_COUNT :: nat where "WI_SET_MAX_COUNT = 16777213"

definition wi_set_init ::
  "nat \<Rightarrow> bool \<Rightarrow> nat \<Rightarrow> bool \<Rightarrow> ('a \<Rightarrow> nat) \<Rightarrow> ('a \<Rightarrow> 'a \<Rightarrow> bool) \<Rightarrow> 'a wi_set" where
  "wi_set_init page mut capacity counted hash eq =
     (let n = max (wi_exp2m1 (wi_log2 capacity + 1)) WI_SET_MIN_COUNT
      in \<lparr>s_hash = hash, s_eq = eq, s_counted = counted, s_buckets = replicate n [],
          s_buckets_count = n, s_min_count = n, s_data_count = 0, s_pool = pool_init page,
          s_mutable = mut\<rparr>)"

definition wi_set_resize :: "'a wi_set \<Rightarrow> 'a wi_set" where
  "wi_set_resize s =
     (let capacity = wi_exp2m1 (wi_log2 (s_data_count s) + 1);
          n = wi_clamp capacity (s_min_count s) WI_SET_MAX_COUNT
      in s\<lparr>s_buckets := rehash (s_hash s) n (s_buckets s), s_buckets_count := n\<rparr>)"

definition wi_set_check_resize :: "'a wi_set \<Rightarrow> 'a wi_set" where
  "wi_set_check_resize s =
     (if (s_buckets_count s \<ge> 3 * s_data_count s \<and> s_buckets_count s > s_min_count s) \<or>
         (s_data_count s \<ge> 3 * s_buckets_count s \<and> s_buckets_count s < WI_SET_MAX_COUNT)
      then wi_set_resize s else s)"

definition wi_set_bucket_create :: "'a wi_set \<Rightarrow> 'a wi_set" where
  "wi_set_bucket_create s = s\<lparr>s_pool := pool_create (s_pool s)\<rparr>"

definition wi_set_bucket_for_data :: "'a wi_set \<Rightarrow> 'a \<Rightarrow> nat \<Rightarrow> ('a, nat) bucket option" where
  "wi_set_bucket_for_data s x index = chain_find (s_eq s) x (s_buckets s ! index)"

definition wi_set_bucket_remove :: "'a wi_set \<Rightarrow> 'a wi_set" where
  "wi_set_bucket_remove s = s\<lparr>s_pool := pool_release (s_pool s), s_data_count := s_data_count s - 1\<rparr>"

subsection \<open>Reading\<close>

definition wi_set_count :: "'a wi_set \<Rightarrow> nat" where
  "wi_set_count s = s_data_count s"

definition wi_set_contains_data :: "'a wi_set \<Rightarrow> 'a \<Rightarrow> bool" where
  "wi_set_contains_data s x =
     (wi_set_bucket_for_data s x (s_hash s x mod s_buckets_count s) \<noteq> None)"

definition wi_set_count_for_data :: "'a wi_set \<Rightarrow> 'a \<Rightarrow> nat" where
  "wi_set_count_for_data s x =
     (case wi_set_bucket_for_data s x (s_hash s x mod s_buckets_count s) of
        None \<Rightarrow> 0 | Some b \<Rightarrow> snd b)"

definition wi_set_all_data :: "array_callbacks \<Rightarrow> nat \<Rightarrow> 'a wi_set \<Rightarrow> 'a wi_array" where
  "wi_set_all_data callbacks page s =
     (let a = fold (\<lambda>x a. wi_array_add_data_internal a x) (map fst (concat (s_buckets s)))
                (wi_array_init_with_capacity_and_callbacks page True (s_data_count s) callbacks None)
      in a\<lparr>is_mutable := False\<rparr>)"

definition wi_enumerator_set_data_enumerator ::
  "'a wi_set \<Rightarrow> ('a, nat) enumerator_context \<Rightarrow> 'a option \<times> ('a, nat) enumerator_context" where
  "wi_enumerator_set_data_enumerator s c =
     apfst (map_option fst) (enumerator_next (s_buckets s) (s_buckets_count s) c)"

definition wi_set_is_equal :: "'a wi_set \<Rightarrow> 'a wi_set \<Rightarrow> bool" where
  "wi_set_is_equal s1 s2 =
     (if s_data_count s1 \<noteq> s_data_count s2 then False
      else list_all (\<lambda>b. wi_set_contains_data s2 (fst b)) (concat (s_buckets s1)))"

subsection \<open>Writing\<close>

definition wi_set_add_data :: "'a wi_set \<Rightarrow> 'a \<Rightarrow> 'a wi_set" where
  "wi_set_add_data s x =
     (let index = s_hash s x mod s_buckets_count s;
          s1 = (case wi_set_bucket_for_data s x index of
                  Some b \<Rightarrow>
                    s\<lparr>s_buckets := (s_buckets s)
                        [index := chain_replace (s_eq s) x (fst b, snd b + 1) (s_buckets s ! index)]\<rparr>
                | None \<Rightarrow>
                    (wi_set_bucket_create s)
                      \<lparr>s_data_count := s_data_count s + 1,
                       s_buckets := (s_buckets s)[index := (x, 1) # s_buckets s ! index]\<rparr>)
      in wi_set_check_resize s1)"

definition wi_set_add_data_from_array :: "'a wi_set \<Rightarrow> 'a wi_array \<Rightarrow> 'a wi_set" where
  "wi_set_add_data_from_array s a = fold (\<lambda>x s. wi_set_add_data s x) (wi_array_list a) s"

text \<open>\<open>--bucket->count\<close> is written back only when the bucket stays.\<close>

definition wi_set_remove_data :: "'a wi_set \<Rightarrow> 'a \<Rightarrow> 'a wi_set" where
  "wi_set_remove_data s x =
     (let index = s_hash s x mod s_buckets_count s;
          chain = s_buckets s ! index;
          s1 = (case chain_find (s_eq s) x chain of
                  Some b \<Rightarrow>
                    if \<not> s_counted s \<or> snd b - 1 = 0
                    then wi_set_bucket_remove
                           (s\<lparr>s_buckets := (s_buckets s)[index := chain_remove (s_eq s) x chain]\<rparr>)
                    else s\<lparr>s_buckets := (s_buckets s)
                             [index := chain_replace (s_eq s) x (fst b, snd b - 1) chain]\<rparr>
                | None \<Rightarrow> s)
      in wi_set_check_resize s1)"

fun wi_set_remove_chain :: "('a, nat) bucket list \<Rightarrow> 'a wi_set \<Rightarrow> 'a wi_set" where
  "wi_set_remove_chain [] s = s"
| "wi_set_remove_chain (b # bs) s = wi_set_remove_chain bs (wi_set_bucket_remove s)"

fun wi_set_remove_chains :: "nat \<Rightarrow> nat \<Rightarrow> 'a wi_set \<Rightarrow> 'a wi_set" where
  "wi_set_remove_chains 0 i s = s"
| "wi_set_remove_chains (Suc n) i s =
     (let s1 = wi_set_remove_chain (s_buckets s ! i) s
      in wi_set_remove_chains n (Suc i) (s1\<lparr>s_buckets := (s_buckets s1)[i := []]\<rparr>))"

definition wi_set_remove_all_data :: "'a wi_set \<Rightarrow> 'a wi_set" where
  "wi_set_remove_all_data s = wi_set_check_resize (wi_set_remove_chains (s_buckets_count s) 0 s)"

definition wi_set_copy :: "nat \<Rightarrow> 'a wi_set \<Rightarrow> 'a wi_set" where
  "wi_set_copy page s =
     fold (\<lambda>b c. ((\<lambda>c. wi_set_add_data c (fst b)) ^^ snd b) c) (concat (s_buckets s))
       (wi_set_init page False (s_data_count s) (s_counted s) (s_hash s) (s_eq s))"

definition wi_mutable_set_add_data :: "'a wi_set \<Rightarrow> 'a \<Rightarrow> 'a wi_set wi_checked" where
  "wi_mutable_set_add_data s x =
     (if \<not> s_mutable s then Inl Not_Mutable else Inr (wi_set_add_data s x))"

definition wi_mutable_set_add_data_from_array :: "'a wi_set \<Rightarrow> 'a wi_array \<Rightarrow> 'a wi_set wi_checked" where
  "wi_mutable_set_add_data_from_array s a =
     (if \<not> s_mutable s then Inl Not_Mutable else Inr (wi_set_add_data_from_array s a))"

definition wi_mutable_set_set_set :: "'a wi_set \<Rightarrow> 'a wi_set \<Rightarrow> 'a wi_set wi_checked" where
  "wi_mutable_set_set_set s s' =
     (if \<not> s_mutable s then Inl Not_Mutable
      else Inr (fold (\<lambda>b s. wi_set_add_data s (fst b)) (concat (s_buckets s')) (wi_set_remove_all_data s)))"

definition wi_mutable_set_remove_data :: "'a wi_set \<Rightarrow> 'a \<Rightarrow> 'a wi_set wi_checked" where
  "wi_mutable_set_remove_data s x =
     (if \<not> s_mutable s then Inl Not_Mutable else Inr (wi_set_remove_data s x))"

definition wi_mutable_set_remove_all_data :: "'a wi_set \<Rightarrow> 'a wi_set wi_checked" where
  "wi_mutable_set_remove_all_data s =
     (if \<not> s_mutable s then Inl Not_Mutable else Inr (wi_set_remove_all_data s))"

subsection \<open>The invariant\<close>

definition set_table_ok :: "'a wi_set \<Rightarrow> bool" where
  "set_table_ok s \<longleftrightarrow>
     hash_callbacks (s_hash s) (s_eq s) \<and>
     placed (s_hash s) (s_buckets_count s) (s_buckets s) \<and>
     unique_keys (s_eq s) (mset (concat (s_buckets s))) \<and>
     (\<forall>b \<in># mset (concat (s_buckets s)). 0 < snd b) \<and>
     s_data_count s = length (concat (s_buckets s)) \<and>
     pool_ok (s_data_count s) (s_pool s) \<and> 0 < s_min_count s"

definition set_load_ok :: "'a wi_set \<Rightarrow> bool" where
  "set_load_ok s \<longleftrightarrow>
     (s_buckets_count s < 3 * s_data_count s \<or> s_buckets_count s \<le> s_min_count s) \<and>
     (s_data_count s < 3 * s_buckets_count s \<or> WI_SET_MAX_COUNT \<le> s_buckets_count s)"

definition set_ok :: "'a wi_set \<Rightarrow> bool" where
  "set_ok s \<longleftrightarrow> set_table_ok s \<and> set_load_ok s"

definition set_same_kind :: "'a wi_set \<Rightarrow> 'a wi_set \<Rightarrow> bool" where
  "set_same_kind s s' \<longleftrightarrow> s_hash s' = s_hash s \<and> s_eq s' = s_eq s \<and>
     s_counted s' = s_counted s \<and> s_mutable s' = s_mutable s \<and> s_min_count s' = s_min_count s"

lemma set_table_okD:
  assumes "set_table_ok s"
  shows "hash_callbacks (s_hash s) (s_eq s)" and "unique_keys (s_eq s) (mset (concat (s_buckets s)))"
    and "s_hash s x mod s_buckets_count s < length (s_buckets s)"
    and "size (mset (concat (s_buckets s))) = s_data_count s" and "pool_ok (s_data_count s) (s_pool s)"
    and "\<forall>b \<in># mset (concat (s_buckets s)). 0 < snd b"
    and "s_buckets_count s = length (s_buckets s)" and "0 < s_min_count s"
    and "placed (s_hash s) (s_buckets_count s) (s_buckets s)"
  using assms unfolding set_table_ok_def by (auto simp: placed_def simp del: length_concat)

lemma wi_set_resize_load: "0 < s_min_count s \<Longrightarrow> set_load_ok (wi_set_resize s)"
  using wi_capacity_ge [of "s_data_count s"] wi_capacity_less [of "s_data_count s"]
  by (cases "s_data_count s = 0")
    (auto simp: set_load_ok_def wi_set_resize_def Let_def wi_clamp_def wi_exp2m1_def wi_log2.simps [of 0])

lemma wi_set_resize:
  assumes "set_table_ok s"
  shows "set_table_ok (wi_set_resize s) \<and>
    mset (concat (s_buckets (wi_set_resize s))) = mset (concat (s_buckets s)) \<and>
    set_same_kind s (wi_set_resize s)"
proof -
  define n where "n = wi_clamp (wi_exp2m1 (wi_log2 (s_data_count s) + 1)) (s_min_count s) WI_SET_MAX_COUNT"
  have "0 < n" using assms unfolding n_def
    by (intro wi_clamp_pos) (auto simp: set_table_ok_def WI_SET_MAX_COUNT_def)
  note r = rehash [OF this, of "s_hash s" "s_buckets s"]
  have len: "length (concat (rehash (s_hash s) n (s_buckets s))) = length (concat (s_buckets s))"
    using r(2) by (metis size_mset)
  have "wi_set_resize s = s\<lparr>s_buckets := rehash (s_hash s) n (s_buckets s), s_buckets_count := n\<rparr>"
    by (simp add: wi_set_resize_def n_def Let_def)
  with r len assms show ?thesis
    by (auto simp: set_table_ok_def set_same_kind_def simp del: length_concat set_concat mset_concat set_mset_mset)
qed

lemma wi_set_check_resize:
  assumes "set_table_ok s"
  shows "set_ok (wi_set_check_resize s) \<and>
    mset (concat (s_buckets (wi_set_check_resize s))) = mset (concat (s_buckets s)) \<and>
    set_same_kind s (wi_set_check_resize s)"
  using wi_set_resize [OF assms] wi_set_resize_load [of s] set_table_okD(8) [OF assms] assms
  by (auto simp: wi_set_check_resize_def set_ok_def set_load_ok_def set_same_kind_def not_le not_less)

lemma wi_set_init [wi_inv]:
  assumes "0 < page" and "hash_callbacks hash eq"
  shows "set_ok (wi_set_init page mut capacity counted hash eq)"
  using assms
  by (auto simp: set_ok_def set_table_ok_def set_load_ok_def wi_set_init_def Let_def
      placed_def unique_keys_def pool_ok_steps WI_SET_MIN_COUNT_def)

lemma wi_set_init_fields [simp]:
  "concat (s_buckets (wi_set_init page mut capacity counted hash eq)) = []"
  "s_hash (wi_set_init page mut capacity counted hash eq) = hash"
  "s_eq (wi_set_init page mut capacity counted hash eq) = eq"
  "s_counted (wi_set_init page mut capacity counted hash eq) = counted"
  "s_mutable (wi_set_init page mut capacity counted hash eq) = mut"
  by (simp_all add: wi_set_init_def Let_def)

subsection \<open>What each mutator does\<close>

lemma wi_set_bucket_for_data:
  assumes "set_table_ok s"
  shows "wi_set_bucket_for_data s x (s_hash s x mod s_buckets_count s) = Some b \<longleftrightarrow>
    b \<in># mset (concat (s_buckets s)) \<and> s_eq s (fst b) x"
  using assms hash_callbacks.chain_find_table [of "s_hash s" "s_eq s" "s_buckets_count s" "s_buckets s" x b]
  by (simp add: set_table_ok_def wi_set_bucket_for_data_def del: set_concat)

lemma wi_set_bucket_for_data_None:
  assumes "set_table_ok s"
  shows "wi_set_bucket_for_data s x (s_hash s x mod s_buckets_count s) = None \<longleftrightarrow>
    (\<forall>b \<in># mset (concat (s_buckets s)). \<not> s_eq s (fst b) x)"
  using wi_set_bucket_for_data [OF assms, of x] by (metis not_None_eq option.distinct(1))

text \<open>The count of a datum, read off the multiset of buckets.\<close>

lemma wi_set_count_for_data_iff:
  assumes "set_table_ok s"
  shows "wi_set_count_for_data s x = n \<longleftrightarrow>
    (if n = 0 then \<forall>b \<in># mset (concat (s_buckets s)). \<not> s_eq s (fst b) x
     else has_entry (s_eq s) (mset (concat (s_buckets s))) x n)"
proof (cases "wi_set_bucket_for_data s x (s_hash s x mod s_buckets_count s)")
  case None
  with wi_set_bucket_for_data_None [OF assms, of x] show ?thesis
    by (auto simp: wi_set_count_for_data_def has_entry_def simp del: set_concat)
next
  case (Some b)
  with wi_set_bucket_for_data [OF assms, of x]
  have b: "b \<in># mset (concat (s_buckets s))" "s_eq s (fst b) x" by blast+
  have "c = b" if "c \<in># mset (concat (s_buckets s))" "s_eq s (fst c) x" for c
    by (rule unique_keysD [OF set_table_okD(2) [OF assms] that(1) b(1) that(2) b(2)])
  then have "has_entry (s_eq s) (mset (concat (s_buckets s))) x n \<longleftrightarrow> snd b = n"
    using b unfolding has_entry_def by blast
  moreover have "0 < snd b" using set_table_okD(6) [OF assms] b(1) by blast
  ultimately show ?thesis
    using Some b by (auto simp: wi_set_count_for_data_def simp del: set_concat)
qed

lemma wi_set_contains_data [wi_simps]:
  assumes "set_table_ok s"
  shows "wi_set_contains_data s x \<longleftrightarrow> 0 < wi_set_count_for_data s x"
proof (cases "wi_set_bucket_for_data s x (s_hash s x mod s_buckets_count s)")
  case (Some b)
  with wi_set_bucket_for_data [OF assms, of x] set_table_okD(6) [OF assms]
  have "0 < snd b" by blast
  with Some show ?thesis by (simp add: wi_set_contains_data_def wi_set_count_for_data_def)
qed (simp add: wi_set_contains_data_def wi_set_count_for_data_def)

lemma set_table_ok_update:
  assumes s: "set_table_ok s" and i: "i = s_hash s x mod s_buckets_count s"
    and c: "\<forall>b \<in> set c. b \<in> set (s_buckets s ! i) \<or> s_eq s (fst b) x"
    and M: "M = mset (concat (s_buckets s)) - mset (s_buckets s ! i) + mset c"
    and u: "unique_keys (s_eq s) M" and pos: "\<forall>b \<in># M. 0 < snd b"
    and n: "n = size M" and p: "pool_ok n p"
  shows "set_table_ok (s\<lparr>s_pool := p, s_data_count := n, s_buckets := (s_buckets s)[i := c]\<rparr>) \<and>
    mset (concat ((s_buckets s)[i := c])) = M"
proof -
  note t = set_table_okD [OF s]
  have len: "i < length (s_buckets s)" and i2: "i < s_buckets_count s"
    using t(3) [of x] t(7) i by simp_all
  have M': "mset (concat ((s_buckets s)[i := c])) = M"
    by (simp add: mset_concat_update [OF len] M)
  have hc: "s_hash s (fst b) mod s_buckets_count s = i" if "b \<in> set c" for b
  proof -
    from c that consider "b \<in> set (s_buckets s ! i)" | "s_eq s (fst b) x" by blast
    then show ?thesis
    proof cases
      case 1
      with t(9) i2 show ?thesis by (auto simp: placed_def)
    next
      case 2
      from hash_callbacks.eq_hash [OF t(1) 2] show ?thesis by (simp add: i)
    qed
  qed
  have "placed (s_hash s) (s_buckets_count s) ((s_buckets s)[i := c])"
    using t(9) i2 hc by (intro placed_update) auto
  moreover have "length (concat ((s_buckets s)[i := c])) = n"
    using M' n by (metis size_mset)
  ultimately show ?thesis using s u p pos M'
    by (simp add: set_table_ok_def del: set_mset_mset set_concat mset_concat)
qed

text \<open>The three changes of one chain: a new bucket, another count, no bucket.\<close>

lemma set_chain_changes:
  assumes s: "set_table_ok s" and i: "i = s_hash s x mod s_buckets_count s"
    and chain: "chain_find (s_eq s) x (s_buckets s ! i) = Some b"
  shows "0 < n \<Longrightarrow> s1 = s\<lparr>s_buckets := (s_buckets s)[i := chain_replace (s_eq s) x (fst b, n) (s_buckets s ! i)]\<rparr> \<Longrightarrow>
      set_table_ok s1 \<and> mset (concat (s_buckets s1)) = add_mset (fst b, n) (mset (concat (s_buckets s)) - {#b#})"
    and "s2 = wi_set_bucket_remove (s\<lparr>s_buckets := (s_buckets s)[i := chain_remove (s_eq s) x (s_buckets s ! i)]\<rparr>) \<Longrightarrow>
      set_table_ok s2 \<and> mset (concat (s_buckets s2)) = mset (concat (s_buckets s)) - {#b#}"
proof -
  let ?M = "mset (concat (s_buckets s))"
  note t = set_table_okD [OF s]
  have len: "i < length (s_buckets s)" using t(3) [of x] i by simp
  have bi: "b \<in> set (s_buckets s ! i)" and bx: "s_eq s (fst b) x" using chain_find_Some [OF chain] by blast+
  then have b: "b \<in># ?M" using len by (auto intro: in_chain_concat)
  have bb: "s_eq s (fst b) (fst b)" by (rule hash_callbacks.eq_refl [OF t(1)])
  have size: "s_data_count s = Suc (size (?M - {#b#}))"
    using b t(4) by (metis insert_DiffM size_add_mset)
  {
    assume n: "0 < n"
      and s1: "s1 = s\<lparr>s_buckets := (s_buckets s)[i := chain_replace (s_eq s) x (fst b, n) (s_buckets s ! i)]\<rparr>"
    let ?c = "chain_replace (s_eq s) x (fst b, n) (s_buckets s ! i)"
    let ?M' = "add_mset (fst b, n) (?M - {#b#})"
    have M': "?M' = ?M - mset (s_buckets s ! i) + mset ?c"
      using mset_chain_diff [OF len bi] by (simp add: mset_chain_replace [OF chain] del: mset_concat)
    have "set_table_ok (s\<lparr>s_pool := s_pool s, s_data_count := s_data_count s, s_buckets := (s_buckets s)[i := ?c]\<rparr>) \<and>
        mset (concat ((s_buckets s)[i := ?c])) = ?M'"
    proof (rule set_table_ok_update [OF s i _ M' hash_callbacks.unique_keys_replace [OF t(1,2) b bb]])
      show "\<forall>c\<in>set ?c. c \<in> set (s_buckets s ! i) \<or> s_eq s (fst c) x"
        using set_chain_replace [of "s_eq s" x "(fst b, n)" "s_buckets s ! i"] bx by auto
      show "\<forall>c\<in>#?M'. 0 < snd c" using t(6) n by (metis in_diffD insert_iff set_mset_add_mset_insert snd_conv)
    qed (simp_all add: size t(5) [unfolded size])
    then show "set_table_ok s1 \<and> mset (concat (s_buckets s1)) = ?M'" by (simp add: s1 del: mset_concat)
  next
    assume s2: "s2 = wi_set_bucket_remove (s\<lparr>s_buckets := (s_buckets s)[i := chain_remove (s_eq s) x (s_buckets s ! i)]\<rparr>)"
    let ?c = "chain_remove (s_eq s) x (s_buckets s ! i)"
    have M': "?M - {#b#} = ?M - mset (s_buckets s ! i) + mset ?c"
      using mset_chain_diff [OF len bi] chain by (simp add: mset_chain_remove del: mset_concat)
    have "set_table_ok (s\<lparr>s_pool := pool_release (s_pool s), s_data_count := s_data_count s - 1,
          s_buckets := (s_buckets s)[i := ?c]\<rparr>) \<and> mset (concat ((s_buckets s)[i := ?c])) = ?M - {#b#}"
    proof (rule set_table_ok_update [OF s i _ M' unique_keys_diff [OF t(2)]])
      show "\<forall>c\<in>set ?c. c \<in> set (s_buckets s ! i) \<or> s_eq s (fst c) x"
        using set_chain_remove [of "s_eq s" x "s_buckets s ! i"] by blast
      show "\<forall>c\<in>#?M - {#b#}. 0 < snd c" using t(6) by (metis in_diffD)
      show "pool_ok (s_data_count s - 1) (pool_release (s_pool s))"
        using t(5) unfolding size by (simp add: pool_ok_steps(3))
    qed (simp add: size)
    moreover have "s2 = s\<lparr>s_pool := pool_release (s_pool s), s_data_count := s_data_count s - 1,
          s_buckets := (s_buckets s)[i := ?c]\<rparr>"
      by (rule wi_set.equality) (simp_all add: s2 wi_set_bucket_remove_def)
    ultimately show "set_table_ok s2 \<and> mset (concat (s_buckets s2)) = ?M - {#b#}"
      by (simp del: mset_concat)
  }
qed

text \<open>What the changes do to the counts.\<close>

lemma wi_set_counts:
  assumes s: "set_table_ok s" and s': "set_table_ok s'" and eq: "s_eq s' = s_eq s"
  shows "\<forall>b \<in># mset (concat (s_buckets s)). \<not> s_eq s (fst b) x \<Longrightarrow> 0 < n \<Longrightarrow>
      mset (concat (s_buckets s')) = add_mset (x, n) (mset (concat (s_buckets s))) \<Longrightarrow>
      wi_set_count_for_data s' y = (if s_eq s x y then n else wi_set_count_for_data s y)"
    and "b \<in># mset (concat (s_buckets s)) \<Longrightarrow> s_eq s (fst b) x \<Longrightarrow> 0 < n \<Longrightarrow>
      mset (concat (s_buckets s')) = add_mset (fst b, n) (mset (concat (s_buckets s)) - {#b#}) \<Longrightarrow>
      wi_set_count_for_data s' y = (if s_eq s x y then n else wi_set_count_for_data s y)"
    and "b \<in># mset (concat (s_buckets s)) \<Longrightarrow> s_eq s (fst b) x \<Longrightarrow>
      mset (concat (s_buckets s')) = mset (concat (s_buckets s)) - {#b#} \<Longrightarrow>
      wi_set_count_for_data s' y = (if s_eq s x y then 0 else wi_set_count_for_data s y)"
proof -
  let ?M = "mset (concat (s_buckets s))" and ?M' = "mset (concat (s_buckets s'))"
  note t = set_table_okD [OF s]
  have none: "(\<forall>b \<in># M. \<not> s_eq s (fst b) y) \<longleftrightarrow> (\<forall>n. \<not> has_entry (s_eq s) M y n)" for M :: "('a, nat) bucket multiset"
    by (auto simp: has_entry_def)
  have count: "wi_set_count_for_data s' y = (if c then m else wi_set_count_for_data s y)"
    if "\<And>k. has_entry (s_eq s) ?M' y k \<longleftrightarrow> (if c then 0 < m \<and> k = m else has_entry (s_eq s) ?M y k)" for c m
    using that wi_set_count_for_data_iff [OF s, of y "wi_set_count_for_data s y"]
      wi_set_count_for_data_iff [OF s', of y "if c then m else wi_set_count_for_data s y"]
    unfolding eq none by (cases c) simp_all
  {
    assume h: "\<forall>b \<in># ?M. \<not> s_eq s (fst b) x" "0 < n" "?M' = add_mset (x, n) ?M"
    then show "wi_set_count_for_data s' y = (if s_eq s x y then n else wi_set_count_for_data s y)"
      by (intro count) (simp add: hash_callbacks.has_entry_add [OF t(1)] del: mset_concat)
  next
    assume h: "b \<in># ?M" "s_eq s (fst b) x" "0 < n" "?M' = add_mset (fst b, n) (?M - {#b#})"
    have bb: "s_eq s (fst b) (fst b)" by (rule hash_callbacks.eq_refl [OF t(1)])
    have "s_eq s (fst b) y \<longleftrightarrow> s_eq s x y"
      using h(2) hash_callbacks.eq_sym [OF t(1)] hash_callbacks.eq_trans [OF t(1)] by blast
    with h show "wi_set_count_for_data s' y = (if s_eq s x y then n else wi_set_count_for_data s y)"
      by (intro count) (simp add: hash_callbacks.has_entry_add [OF t(1) hash_callbacks.unique_keys_rest [OF t(1,2) h(1) bb]]
          hash_callbacks.has_entry_rest [OF t(1,2) h(1) bb] del: mset_concat)
  next
    assume h: "b \<in># ?M" "s_eq s (fst b) x" "?M' = ?M - {#b#}"
    then show "wi_set_count_for_data s' y = (if s_eq s x y then 0 else wi_set_count_for_data s y)"
      by (intro count) (simp add: hash_callbacks.has_entry_rest [OF t(1,2) h(1,2)] del: mset_concat)
  }
qed

lemma wi_set_count_for_data_cong:
  assumes "set_table_ok s" "set_table_ok s'" "s_eq s' = s_eq s"
    and "mset (concat (s_buckets s')) = mset (concat (s_buckets s))"
  shows "wi_set_count_for_data s' y = wi_set_count_for_data s y"
  using wi_set_count_for_data_iff [OF assms(1), of y] wi_set_count_for_data_iff [OF assms(2), of y]
  unfolding assms(3,4) by blast

text \<open>An operation ends with the resize check, which no count sees.\<close>

lemma wi_set_finish:
  assumes "set_table_ok s1" and "set_same_kind s s1" and "s' = wi_set_check_resize s1"
  shows "set_ok s' \<and> set_same_kind s s' \<and> wi_set_count_for_data s' y = wi_set_count_for_data s1 y"
  using wi_set_check_resize [OF assms(1)] assms(2)
    wi_set_count_for_data_cong [OF assms(1), of s' y]
  by (auto simp: assms(3) set_same_kind_def set_ok_def simp del: mset_concat)

lemma wi_set_add_data:
  assumes "set_ok s"
  shows "set_ok (wi_set_add_data s x) \<and> set_same_kind s (wi_set_add_data s x) \<and>
    wi_set_count_for_data (wi_set_add_data s x) y =
      (if s_eq s x y then wi_set_count_for_data s x + 1 else wi_set_count_for_data s y)"
proof -
  have s: "set_table_ok s" using assms by (simp add: set_ok_def)
  define i where "i = s_hash s x mod s_buckets_count s"
  note t = set_table_okD [OF s]
  note find = wi_set_bucket_for_data [OF s, of x, folded i_def]
  show ?thesis
  proof (cases "wi_set_bucket_for_data s x i")
    case None
    with wi_set_bucket_for_data_None [OF s, of x, folded i_def]
    have absent: "\<forall>b \<in># mset (concat (s_buckets s)). \<not> s_eq s (fst b) x" by simp
    have zero: "wi_set_count_for_data s x = 0" using None by (simp add: wi_set_count_for_data_def i_def)
    let ?s1 = "s\<lparr>s_pool := pool_create (s_pool s), s_data_count := s_data_count s + 1,
                 s_buckets := (s_buckets s)[i := (x, 1) # s_buckets s ! i]\<rparr>"
    have t1: "set_table_ok ?s1 \<and>
        mset (concat ((s_buckets s)[i := (x, 1) # s_buckets s ! i])) = add_mset (x, 1) (mset (concat (s_buckets s)))"
    proof (rule set_table_ok_update [OF s i_def])
      show "add_mset (x, 1) (mset (concat (s_buckets s))) =
          mset (concat (s_buckets s)) - mset (s_buckets s ! i) + mset ((x, 1) # s_buckets s ! i)"
        using mset_chain_subset [OF t(3) [of x, folded i_def]] by (simp del: mset_concat)
      show "\<forall>b\<in>set ((x, 1) # s_buckets s ! i). b \<in> set (s_buckets s ! i) \<or> s_eq s (fst b) x"
        using hash_callbacks.eq_refl [OF t(1)] by simp
    qed (use t in \<open>simp_all add: hash_callbacks.unique_keys_add [OF t(1,2) absent] pool_ok_steps del: mset_concat set_concat set_mset_mset\<close>)
    have "wi_set_add_data s x = wi_set_check_resize ?s1"
      using None by (simp add: wi_set_add_data_def Let_def i_def wi_set_bucket_create_def)
    from wi_set_finish [OF _ _ this, of s y] t1 wi_set_counts(1) [OF s _ _ absent, of ?s1 1 y]
    show ?thesis by (simp add: set_same_kind_def zero del: mset_concat)
  next
    case (Some b)
    with find have b: "b \<in># mset (concat (s_buckets s))" "s_eq s (fst b) x" by blast+
    have count: "wi_set_count_for_data s x = snd b" using Some by (simp add: wi_set_count_for_data_def i_def)
    from Some have chain: "chain_find (s_eq s) x (s_buckets s ! i) = Some b"
      by (simp add: wi_set_bucket_for_data_def)
    let ?s1 = "s\<lparr>s_buckets := (s_buckets s)[i := chain_replace (s_eq s) x (fst b, snd b + 1) (s_buckets s ! i)]\<rparr>"
    note t1 = set_chain_changes(1) [OF s i_def chain, of "snd b + 1" ?s1]
    have "wi_set_add_data s x = wi_set_check_resize ?s1"
      using Some by (simp add: wi_set_add_data_def Let_def i_def)
    from wi_set_finish [OF _ _ this, of s y] t1 wi_set_counts(2) [OF s _ _ b, of ?s1 "snd b + 1" y]
    show ?thesis by (simp add: set_same_kind_def count del: mset_concat)
  qed
qed

definition set_drop :: "bool \<Rightarrow> nat \<Rightarrow> nat" where
  "set_drop counted n = (if counted then n - 1 else 0)"

lemma wi_set_remove_data:
  assumes "set_ok s"
  shows "set_ok (wi_set_remove_data s x) \<and> set_same_kind s (wi_set_remove_data s x) \<and>
    wi_set_count_for_data (wi_set_remove_data s x) y =
      (if s_eq s x y then set_drop (s_counted s) (wi_set_count_for_data s x) else wi_set_count_for_data s y)"
proof -
  have s: "set_table_ok s" using assms by (simp add: set_ok_def)
  define i where "i = s_hash s x mod s_buckets_count s"
  note t = set_table_okD [OF s]
  note find = wi_set_bucket_for_data [OF s, of x, folded i_def]
  show ?thesis
  proof (cases "wi_set_bucket_for_data s x i")
    case None
    with wi_set_bucket_for_data_None [OF s, of x, folded i_def]
    have absent: "\<forall>b \<in># mset (concat (s_buckets s)). \<not> s_eq s (fst b) x" by simp
    then have zero: "wi_set_count_for_data s x = 0" using wi_set_count_for_data_iff [OF s, of x 0] by simp
    have "wi_set_count_for_data s y = 0" if "s_eq s x y"
    proof -
      have "\<forall>b \<in># mset (concat (s_buckets s)). \<not> s_eq s (fst b) y"
        using absent that hash_callbacks.eq_sym [OF t(1)] hash_callbacks.eq_trans [OF t(1)] by blast
      then show ?thesis using wi_set_count_for_data_iff [OF s, of y 0] by simp
    qed
    moreover have "wi_set_remove_data s x = wi_set_check_resize s"
      using None by (simp add: wi_set_remove_data_def Let_def i_def wi_set_bucket_for_data_def)
    from wi_set_finish [OF s _ this, of s y]
    have "set_ok (wi_set_remove_data s x) \<and> set_same_kind s (wi_set_remove_data s x) \<and>
        wi_set_count_for_data (wi_set_remove_data s x) y = wi_set_count_for_data s y"
      by (simp add: set_same_kind_def)
    ultimately show ?thesis by (simp add: zero set_drop_def)
  next
    case (Some b)
    with find have b: "b \<in># mset (concat (s_buckets s))" "s_eq s (fst b) x" by blast+
    have count: "wi_set_count_for_data s x = snd b" using Some by (simp add: wi_set_count_for_data_def i_def)
    from Some have chain: "chain_find (s_eq s) x (s_buckets s ! i) = Some b"
      by (simp add: wi_set_bucket_for_data_def)
    show ?thesis
    proof (cases "\<not> s_counted s \<or> snd b - 1 = 0")
      case True
      let ?s1 = "wi_set_bucket_remove (s\<lparr>s_buckets := (s_buckets s)[i := chain_remove (s_eq s) x (s_buckets s ! i)]\<rparr>)"
      note t1 = set_chain_changes(2) [OF s i_def chain, of ?s1, OF refl]
      have "wi_set_remove_data s x = wi_set_check_resize ?s1"
        using chain True by (simp add: wi_set_remove_data_def Let_def i_def)
      from wi_set_finish [OF conjunct1 [OF t1] _ this, of s y] t1 wi_set_counts(3) [OF s _ _ b, of ?s1 y] True
      show ?thesis by (auto simp: set_same_kind_def count set_drop_def wi_set_bucket_remove_def simp del: mset_concat)
    next
      case False
      let ?s1 = "s\<lparr>s_buckets := (s_buckets s)[i := chain_replace (s_eq s) x (fst b, snd b - 1) (s_buckets s ! i)]\<rparr>"
      have pos: "0 < snd b - 1" using False by simp
      note t1 = set_chain_changes(1) [OF s i_def chain, of "snd b - 1" ?s1, OF pos refl]
      have "wi_set_remove_data s x = wi_set_check_resize ?s1"
        using chain False by (auto simp: wi_set_remove_data_def Let_def i_def)
      from wi_set_finish [OF conjunct1 [OF t1] _ this, of s y] t1 wi_set_counts(2) [OF s _ _ b pos, of ?s1 y] False
      show ?thesis by (auto simp: set_same_kind_def count set_drop_def simp del: mset_concat)
    qed
  qed
qed

lemma wi_set_remove_chain:
  "wi_set_remove_chain bs s =
     s\<lparr>s_pool := (pool_release ^^ length bs) (s_pool s), s_data_count := s_data_count s - length bs\<rparr>"
  by (induction bs s rule: wi_set_remove_chain.induct)
    (simp_all add: wi_set_bucket_remove_def funpow_swap1)

lemma wi_set_remove_chains:
  assumes "n + i = length (s_buckets s)"
  shows "wi_set_remove_chains n i s =
    s\<lparr>s_pool := (pool_release ^^ length (concat (drop i (s_buckets s)))) (s_pool s),
      s_data_count := s_data_count s - length (concat (drop i (s_buckets s))),
      s_buckets := take i (s_buckets s) @ replicate n []\<rparr>"
  using assms
proof (induction n i s rule: wi_set_remove_chains.induct)
  case (2 n i s)
  then have i: "i < length (s_buckets s)" by simp
  then have drop: "drop i (s_buckets s) = s_buckets s ! i # drop (Suc i) (s_buckets s)"
    by (rule Cons_nth_drop_Suc [symmetric])
  have pow: "(pool_release ^^ m) ((pool_release ^^ l) p) = (pool_release ^^ (l + m)) p" for l m p
    by (metis add.commute comp_apply funpow_add)
  from 2(2) i show ?case
    by (subst wi_set_remove_chains.simps, simp only: Let_def, subst 2(1) [OF refl])
      (auto simp: wi_set_remove_chain drop pow)
qed simp

lemma wi_set_remove_all_data:
  assumes "set_ok s"
  shows "set_ok (wi_set_remove_all_data s) \<and> set_same_kind s (wi_set_remove_all_data s) \<and>
    wi_set_count_for_data (wi_set_remove_all_data s) x = 0"
proof -
  have s: "set_table_ok s" using assms by (simp add: set_ok_def)
  note t = set_table_okD [OF s]
  have c: "s_data_count s = length (concat (s_buckets s))" using t(4) by (simp only: size_mset)
  let ?s1 = "s\<lparr>s_pool := (pool_release ^^ s_data_count s) (s_pool s), s_data_count := 0,
               s_buckets := replicate (s_buckets_count s) []\<rparr>"
  have eq: "wi_set_remove_chains (s_buckets_count s) 0 s = ?s1"
    using wi_set_remove_chains [of "s_buckets_count s" 0 s] t(7) c by simp
  have "set_table_ok ?s1"
    using s pool_ok_release_all [of "s_data_count s" 0 "s_pool s"] t(5)
    by (auto simp: set_table_ok_def placed_def unique_keys_def)
  moreover from this have "wi_set_count_for_data ?s1 x = 0"
    using wi_set_count_for_data_iff [of ?s1 x 0] by simp
  ultimately show ?thesis
    using wi_set_finish [of ?s1 s "wi_set_remove_all_data s" x]
    by (simp add: wi_set_remove_all_data_def eq set_same_kind_def)
qed

subsection \<open>The interface of a bag\<close>

text \<open>\<open>drop\<close> says what a removal leaves of the occurrences of a datum.\<close>

locale bag =
  fixes ok :: "'s \<Rightarrow> bool"
    and eq :: "'a \<Rightarrow> 'a \<Rightarrow> bool"
    and occurrences :: "'s \<Rightarrow> 'a \<Rightarrow> nat"
    and add :: "'s \<Rightarrow> 'a \<Rightarrow> 's"
    and del :: "'s \<Rightarrow> 'a \<Rightarrow> 's"
    and drop :: "nat \<Rightarrow> nat"
  assumes ok_add: "ok s \<Longrightarrow> ok (add s x)"
    and ok_del: "ok s \<Longrightarrow> ok (del s x)"
    and occurrences_add: "ok s \<Longrightarrow>
          occurrences (add s x) y = (if eq x y then occurrences s x + 1 else occurrences s y)"
    and occurrences_del: "ok s \<Longrightarrow>
          occurrences (del s x) y = (if eq x y then drop (occurrences s x) else occurrences s y)"
    and occurrences_eq: "ok s \<Longrightarrow> eq x y \<Longrightarrow> occurrences s x = occurrences s y"
begin

lemma fold_add:
  assumes "ok s"
  shows "ok (fold (\<lambda>x s. add s x) xs s) \<and>
    occurrences (fold (\<lambda>x s. add s x) xs s) y = occurrences s y + length (filter (\<lambda>x. eq x y) xs)"
  using assms
proof (induction xs arbitrary: s)
  case (Cons x xs)
  from Cons.IH [OF ok_add [OF Cons.prems, of x]] Cons.prems show ?case
    by (auto simp: occurrences_add occurrences_eq)
qed simp

lemma add_del: "ok s \<Longrightarrow> drop (Suc (occurrences s y)) = occurrences s y \<Longrightarrow>
    occurrences (del (add s x) x) y = occurrences s y"
  by (auto simp: ok_add occurrences_add occurrences_del occurrences_eq)

lemma pow_add:
  assumes "ok s"
  shows "ok (((\<lambda>s. add s x) ^^ n) s) \<and>
    occurrences (((\<lambda>s. add s x) ^^ n) s) y = occurrences s y + (if eq x y then n else 0)"
proof (induction n)
  case (Suc n)
  then show ?case by (auto simp: ok_add occurrences_add) (metis occurrences_eq)
qed (simp add: assms)

end

definition set_keyed :: "bool \<Rightarrow> 'a wi_set \<Rightarrow> bool" where
  "set_keyed counted s \<longleftrightarrow> set_ok s \<and> s_eq s = (=) \<and> s_counted s = counted"

interpretation wiset: bag "set_keyed counted" "(=)" wi_set_count_for_data
  wi_set_add_data wi_set_remove_data "set_drop counted" for counted
proof unfold_locales
  fix s :: "'a wi_set" and x y :: 'a
  assume "set_keyed counted s"
  then have s: "set_ok s" "s_eq s = (=)" "s_counted s = counted" by (simp_all add: set_keyed_def)
  note a = wi_set_add_data [OF s(1), of x y] and r = wi_set_remove_data [OF s(1), of x y]
  show "set_keyed counted (wi_set_add_data s x)" "set_keyed counted (wi_set_remove_data s x)"
    using a r s by (simp_all add: set_keyed_def set_same_kind_def)
  show "wi_set_count_for_data (wi_set_add_data s x) y =
      (if x = y then wi_set_count_for_data s x + 1 else wi_set_count_for_data s y)"
    and "wi_set_count_for_data (wi_set_remove_data s x) y =
      (if x = y then set_drop counted (wi_set_count_for_data s x) else wi_set_count_for_data s y)"
    using a r s by simp_all
qed simp

subsection \<open>Sets whose data are compared with equality\<close>

lemma set_keyedD:
  assumes "set_keyed counted s"
  shows "set_ok s" "set_table_ok s" "s_eq s = (=)" "s_counted s = counted"
  using assms by (simp_all add: set_keyed_def set_ok_def)

lemma set_keyed_init [wi_inv]:
  "0 < page \<Longrightarrow> set_keyed counted (wi_set_init page mut capacity counted hash (=))"
  by (simp add: set_keyed_def wi_set_init hash_callbacks_eq)

lemma wi_set_init_counts [simp]:
  assumes "0 < page"
  shows "wi_set_count_for_data (wi_set_init page mut capacity counted hash (=)) x = 0"
  using wi_set_count_for_data_iff [OF set_keyedD(2) [OF set_keyed_init [OF assms]], of mut capacity counted hash x 0]
  by simp

lemma set_keyed_entries:
  assumes "set_keyed counted s"
  shows "distinct (map fst (concat (s_buckets s)))"
    and "b \<in> set (concat (s_buckets s)) \<Longrightarrow> wi_set_count_for_data s (fst b) = snd b"
    and "0 < wi_set_count_for_data s x \<longleftrightarrow> x \<in> set (map fst (concat (s_buckets s)))"
    and "wi_set_count s = card {x. 0 < wi_set_count_for_data s x}"
proof -
  note s = set_keyedD [OF assms] and t = set_table_okD [OF set_keyedD(2) [OF assms]]
  note iff = wi_set_count_for_data_iff [OF s(2)]
  show dist: "distinct (map fst (concat (s_buckets s)))"
    using t(2) s(3) by (intro unique_keys_distinct) simp
  show "wi_set_count_for_data s (fst b) = snd b" if "b \<in> set (concat (s_buckets s))"
  proof -
    have "b \<in># mset (concat (s_buckets s))" using that by (simp only: set_mset_mset)
    moreover from this have "0 < snd b" using t(6) by blast
    ultimately show ?thesis
      using iff [of "fst b" "snd b"] s(3) by (auto simp: has_entry_def simp del: set_concat)
  qed
  show pos: "0 < wi_set_count_for_data s x \<longleftrightarrow> x \<in> set (map fst (concat (s_buckets s)))" for x
    using iff [of x 0] s(3) by (auto simp: image_iff simp del: set_concat)
  have "wi_set_count s = length (map fst (concat (s_buckets s)))"
    using t(4) by (simp add: wi_set_count_def del: length_concat)
  also have "\<dots> = card (set (map fst (concat (s_buckets s))))" using distinct_card [OF dist] by simp
  also have "set (map fst (concat (s_buckets s))) = {x. 0 < wi_set_count_for_data s x}"
    using pos by blast
  finally show "wi_set_count s = card {x. 0 < wi_set_count_for_data s x}" .
qed

lemma length_filter_distinct:
  "distinct xs \<Longrightarrow> length (filter (\<lambda>x. x = y) xs) = (if y \<in> set xs then 1 else 0)"
  by (induction xs) auto

lemma fold_fst: "fold (\<lambda>b s. f s (fst b)) bs s = fold (\<lambda>x s. f s x) (map fst bs) s"
  by (induction bs arbitrary: s) simp_all

lemma wi_set_set_buckets:
  assumes "set_keyed counted s" and "set_keyed counted' s'" and "\<And>x. wi_set_count_for_data s x = 0"
  shows "set_keyed counted (fold (\<lambda>b s. wi_set_add_data s (fst b)) (concat (s_buckets s')) s) \<and>
    wi_set_count_for_data (fold (\<lambda>b s. wi_set_add_data s (fst b)) (concat (s_buckets s')) s) y =
      (if 0 < wi_set_count_for_data s' y then 1 else 0)"
proof -
  note e = set_keyed_entries [OF assms(2)]
  show ?thesis
    using wiset.fold_add [OF assms(1), of "map fst (concat (s_buckets s'))" y]
    by (simp only: fold_fst assms(3) e(3) length_filter_distinct [OF e(1)] add_0)
qed

lemma wi_set_mutable [simp]:
  "s_mutable (wi_set_add_data s x) = s_mutable s"
  "s_mutable (wi_set_remove_data s x) = s_mutable s"
  "s_mutable (wi_set_add_data_from_array s a) = s_mutable s"
proof -
  show add: "s_mutable (wi_set_add_data s x) = s_mutable s" for s and x :: 'a
    by (auto simp: wi_set_add_data_def wi_set_check_resize_def wi_set_resize_def Let_def
        wi_set_bucket_create_def split: option.split)
  show "s_mutable (wi_set_remove_data s x) = s_mutable s"
    by (auto simp: wi_set_remove_data_def wi_set_check_resize_def wi_set_resize_def Let_def
        wi_set_bucket_remove_def split: option.split)
  have "s_mutable (fold (\<lambda>x s. wi_set_add_data s x) xs s) = s_mutable s" for xs
    by (induction xs arbitrary: s) (simp_all add: add)
  then show "s_mutable (wi_set_add_data_from_array s a) = s_mutable s"
    by (simp add: wi_set_add_data_from_array_def)
qed

datatype 'a set_op =
    Set_Add 'a
  | Set_Add_Array "'a wi_array"
  | Set_Remove 'a
  | Set_Remove_All
  | Set_Set "'a wi_set"

fun wi_set_apply :: "'a set_op \<Rightarrow> 'a wi_set \<Rightarrow> 'a wi_set wi_checked" where
  "wi_set_apply (Set_Add x) s = wi_mutable_set_add_data s x"
| "wi_set_apply (Set_Add_Array a) s = wi_mutable_set_add_data_from_array s a"
| "wi_set_apply (Set_Remove x) s = wi_mutable_set_remove_data s x"
| "wi_set_apply Set_Remove_All s = wi_mutable_set_remove_all_data s"
| "wi_set_apply (Set_Set s') s = wi_mutable_set_set_set s s'"

fun wi_set_run :: "'a set_op list \<Rightarrow> 'a wi_set \<Rightarrow> 'a wi_set wi_checked" where
  "wi_set_run [] s = Inr s"
| "wi_set_run (c # cs) s = wi_checked_bind (wi_set_apply c s) (wi_set_run cs)"

fun bag_apply :: "bool \<Rightarrow> 'a set_op \<Rightarrow> ('a \<Rightarrow> nat) \<Rightarrow> ('a \<Rightarrow> nat)" where
  "bag_apply counted (Set_Add x) f = f(x := f x + 1)"
| "bag_apply counted (Set_Add_Array a) f = (\<lambda>y. f y + count_list (wi_array_list a) y)"
| "bag_apply counted (Set_Remove x) f = f(x := if counted then f x - 1 else 0)"
| "bag_apply counted Set_Remove_All f = (\<lambda>_. 0)"
| "bag_apply counted (Set_Set s') f = (\<lambda>y. if 0 < wi_set_count_for_data s' y then 1 else 0)"

fun set_op_ok :: "'a set_op \<Rightarrow> bool" where
  "set_op_ok (Set_Set s') = (set_keyed True s' \<or> set_keyed False s')"
| "set_op_ok _ = True"

lemma wi_set_remove_all_keyed:
  assumes "set_keyed counted s"
  shows "set_keyed counted (wi_set_remove_all_data s)" "wi_set_count_for_data (wi_set_remove_all_data s) x = 0"
    "s_mutable (wi_set_remove_all_data s) = s_mutable s"
  using wi_set_remove_all_data [OF set_keyedD(1) [OF assms], of x] assms
  by (auto simp: set_keyed_def set_same_kind_def)

lemma wi_set_apply_refines:
  assumes "set_keyed counted s" and "s_mutable s" and "set_op_ok c"
  shows "\<exists>s'. wi_set_apply c s = Inr s' \<and> set_keyed counted s' \<and> s_mutable s' \<and>
    wi_set_count_for_data s' = bag_apply counted c (wi_set_count_for_data s)"
proof (cases c)
  case (Set_Add x)
  then show ?thesis using assms
    by (auto simp: wi_mutable_set_add_data_def wiset.ok_add wiset.occurrences_add fun_eq_iff)
next
  case (Set_Add_Array a)
  have eq: "(\<lambda>x. x = y) = (=) y" for y :: 'a by auto
  show ?thesis
    using wiset.fold_add [OF assms(1), of "wi_array_list a"] assms(2) wi_set_mutable(3) [of s a]
    unfolding Set_Add_Array
    by (simp add: wi_mutable_set_add_data_from_array_def wi_set_add_data_from_array_def fun_eq_iff
        count_list_eq_length_filter eq)
next
  case (Set_Remove x)
  then show ?thesis using assms
    by (auto simp: wi_mutable_set_remove_data_def wiset.ok_del wiset.occurrences_del fun_eq_iff set_drop_def)
next
  case Set_Remove_All
  then show ?thesis using assms(2) wi_set_remove_all_keyed [OF assms(1)]
    by (simp add: wi_mutable_set_remove_all_data_def fun_eq_iff)
next
  case (Set_Set s')
  note r = wi_set_remove_all_keyed [OF assms(1)]
  obtain counted' where "set_keyed counted' s'" using assms(3) Set_Set by auto
  note f = wi_set_set_buckets [OF r(1) this r(2)]
  have "s_mutable (fold (\<lambda>b s. wi_set_add_data s (fst b)) bs s) = s_mutable s" for bs :: "('a \<times> nat) list" and s
    by (induction bs arbitrary: s) simp_all
  with f Set_Set r(3) assms(2) show ?thesis
    by (simp add: wi_mutable_set_set_set_def fun_eq_iff)
qed

lemma wi_set_run_simulation:
  assumes "set_keyed counted s" and "s_mutable s" and "\<forall>c \<in> set cs. set_op_ok c"
  shows "\<exists>s'. wi_set_run cs s = Inr s' \<and> set_keyed counted s' \<and>
    wi_set_count_for_data s' = fold (bag_apply counted) cs (wi_set_count_for_data s)"
  using assms
proof (induction cs arbitrary: s)
  case (Cons c cs)
  obtain s1 where s1: "wi_set_apply c s = Inr s1" "set_keyed counted s1" "s_mutable s1"
    "wi_set_count_for_data s1 = bag_apply counted c (wi_set_count_for_data s)"
    using wi_set_apply_refines [OF Cons.prems(1,2), of c] Cons.prems(3) by auto
  from Cons.IH [OF s1(2,3)] Cons.prems(3) show ?case by (simp add: s1)
qed simp

subsection \<open>Properties\<close>

text \<open>
  C26: A set is a bag. Any sequence of public mutator calls on a mutable set (counted or
  not) with data compared by equality returns a well-formed set in which every datum has
  the specified number of occurrences, and whose count is the number of different data in
  it; a removal takes one occurrence from a counted set and all of them from another, and
  replacing the contents by another set's records each of its data once.
\<close>
theorem wi_set_run_refines:
  assumes "set_keyed counted s" and "s_mutable s" and "\<forall>c \<in> set cs. set_op_ok c"
  shows "\<exists>s'. wi_set_run cs s = Inr s' \<and> set_keyed counted s' \<and>
    wi_set_count_for_data s' = fold (bag_apply counted) cs (wi_set_count_for_data s) \<and>
    wi_set_count s' = card {x. 0 < wi_set_count_for_data s' x} \<and>
    (\<forall>x. wi_set_contains_data s' x \<longleftrightarrow> 0 < wi_set_count_for_data s' x)"
proof -
  obtain s' where s': "wi_set_run cs s = Inr s'" "set_keyed counted s'"
    "wi_set_count_for_data s' = fold (bag_apply counted) cs (wi_set_count_for_data s)"
    using wi_set_run_simulation [OF assms] by blast
  with set_keyed_entries(4) [OF s'(2)] wi_set_contains_data [OF set_keyedD(2) [OF s'(2)]]
  show ?thesis by blast
qed

theorem wi_set_run_refines_witness:
  "\<exists>s. wi_set_run [Set_Add ''a'', Set_Add ''a'', Set_Add ''b'', Set_Remove ''a'', Set_Remove ''b'']
        (wi_set_init 4 True 0 True wi_string_hash (=)) = Inr s \<and>
      wi_set_count_for_data s ''a'' = 1 \<and> wi_set_count_for_data s ''b'' = 0"
proof -
  let ?s = "wi_set_init 4 True 0 True wi_string_hash (=)"
  have "set_keyed True ?s" "s_mutable ?s" by (simp_all add: set_keyed_init)
  from wi_set_run_refines [OF this, of "[Set_Add ''a'', Set_Add ''a'', Set_Add ''b'', Set_Remove ''a'', Set_Remove ''b'']"]
  show ?thesis by auto
qed

lemma sum_list_filter_none:
  "y \<notin> fst ` set bs \<Longrightarrow> sum_list (map (\<lambda>c. if fst c = y then snd c else (0::nat)) bs) = 0"
  by (induction bs) auto

lemma sum_list_filter_distinct:
  "distinct (map fst bs) \<Longrightarrow> b \<in> set bs \<Longrightarrow>
    sum_list (map (\<lambda>c. if fst c = fst b then snd c else (0::nat)) bs) = snd b"
proof (induction bs)
  case (Cons c bs)
  then have c: "fst c \<notin> fst ` set bs" and d: "distinct (map fst bs)" by simp_all
  show ?case
  proof (cases "b = c")
    case True
    with sum_list_filter_none [OF c] show ?thesis by simp
  next
    case False
    then have "b \<in> set bs" using Cons.prems(2) by simp
    moreover from this have "fst c \<noteq> fst b" using c by blast
    ultimately show ?thesis using Cons.IH [OF d] by simp
  qed
qed simp

lemma wi_set_fold_copies:
  assumes "set_keyed counted c"
  shows "set_keyed counted (fold (\<lambda>b c. ((\<lambda>c. wi_set_add_data c (fst b)) ^^ snd b) c) bs c) \<and>
    wi_set_count_for_data (fold (\<lambda>b c. ((\<lambda>c. wi_set_add_data c (fst b)) ^^ snd b) c) bs c) y =
      wi_set_count_for_data c y + sum_list (map (\<lambda>b. if fst b = y then snd b else 0) bs)"
  using assms
proof (induction bs arbitrary: c)
  case (Cons b bs)
  note p = wiset.pow_add [OF Cons.prems, where x = "fst b" and n = "snd b" and y = y]
  from Cons.IH [OF conjunct1 [OF p]] p show ?case by simp
qed simp

lemma wi_set_is_equal_iff:
  assumes "set_keyed counted1 s1" and "set_keyed counted2 s2"
  shows "wi_set_is_equal s1 s2 \<longleftrightarrow>
    (\<forall>x. 0 < wi_set_count_for_data s1 x \<longleftrightarrow> 0 < wi_set_count_for_data s2 x)"
    (is "_ \<longleftrightarrow> ?same")
proof -
  let ?D1 = "{x. 0 < wi_set_count_for_data s1 x}" and ?D2 = "{x. 0 < wi_set_count_for_data s2 x}"
  note e1 = set_keyed_entries [OF assms(1)] and e2 = set_keyed_entries [OF assms(2)]
  have fin: "finite ?D2" by (simp only: e2(3) Collect_mem_eq finite_set)
  have "wi_set_is_equal s1 s2 \<longleftrightarrow> card ?D1 = card ?D2 \<and> ?D1 \<subseteq> ?D2"
    using e1(4) e2(4) wi_set_contains_data [OF set_keyedD(2) [OF assms(2)]]
    by (auto simp: wi_set_is_equal_def wi_set_count_def e1(3) list_all_iff image_iff
        simp del: set_concat)
  also have "\<dots> \<longleftrightarrow> ?D1 = ?D2" using card_subset_eq [OF fin] by auto
  finally show ?thesis by blast
qed

text \<open>
  The copy of a set is well formed and immutable, keeps the number of occurrences of
  every datum and compares equal to the original; equality of sets means the same data,
  whatever the counts.
\<close>
lemma wi_set_copy_equal:
  assumes "set_keyed counted s" and "0 < page"
  shows "set_keyed counted (wi_set_copy page s) \<and>
    wi_set_count_for_data (wi_set_copy page s) = wi_set_count_for_data s \<and>
    wi_set_is_equal s (wi_set_copy page s) \<and>
    (\<forall>counted' s'. set_keyed counted' s' \<longrightarrow>
      (wi_set_is_equal s s' \<longleftrightarrow> {x. 0 < wi_set_count_for_data s x} = {x. 0 < wi_set_count_for_data s' x}))"
proof -
  note e = set_keyed_entries [OF assms(1)]
  let ?i = "wi_set_init page False (s_data_count s) (s_counted s) (s_hash s) (s_eq s)"
  have i: "set_keyed counted ?i"
    using set_keyedD(3,4) [OF assms(1)] set_keyed_init [OF assms(2)] by simp
  have zero: "wi_set_count_for_data ?i x = 0" for x
    using set_keyedD(3) [OF assms(1)] assms(2) by simp
  note f = wi_set_fold_copies [OF i, of "concat (s_buckets s)", folded wi_set_copy_def]
  have k: "set_keyed counted (wi_set_copy page s)" using f by blast
  have c: "wi_set_count_for_data (wi_set_copy page s) y = wi_set_count_for_data s y" for y
  proof (cases "\<exists>b \<in> set (concat (s_buckets s)). fst b = y")
    case True
    then obtain b where b: "b \<in> set (concat (s_buckets s))" "fst b = y" by blast
    from e(2) [OF b(1)] sum_list_filter_distinct [OF e(1) b(1)] f [of y] zero [of y] b(2)
    show ?thesis by simp
  next
    case False
    then have "wi_set_count_for_data s y = 0" using e(3) [of y] by (auto simp del: set_concat)
    moreover have "sum_list (map (\<lambda>b. if fst b = y then snd b else (0::nat)) (concat (s_buckets s))) = 0"
      using False by (intro sum_list_filter_none) blast
    ultimately show ?thesis using f [of y] zero [of y] by simp
  qed
  then have eq: "wi_set_count_for_data (wi_set_copy page s) = wi_set_count_for_data s" by (rule ext)
  show ?thesis
    using k eq wi_set_is_equal_iff [OF assms(1)] by (auto simp: set_eq_iff)
qed

lemma wi_set_copy_equal_example:
  "wi_set_count_for_data (wi_set_copy 4 (wi_set_add_data (wi_set_add_data
     (wi_set_init 4 True 0 True wi_string_hash (=)) ''a'') ''a'')) ''a'' = 2"
proof -
  let ?s = "wi_set_init 4 True 0 True wi_string_hash (=)"
  have s: "set_keyed True ?s" "set_keyed True (wi_set_add_data ?s ''a'')"
    "set_keyed True (wi_set_add_data (wi_set_add_data ?s ''a'') ''a'')"
    by (simp_all add: set_keyed_init wiset.ok_add)
  from wi_set_copy_equal [OF s(3), of 4] show ?thesis
    by (simp add: wiset.occurrences_add [OF s(1)] wiset.occurrences_add [OF s(2)])
qed

text \<open>
  \<open>wi_mutable_set_set_set\<close> does not make the set a copy of the other one: of a
  datum with several occurrences in a counted set only one arrives, so one removal then
  takes the datum out of the new set while it stays in the old one.
\<close>
theorem wi_mutable_set_set_set_drops_counts:
  assumes "set_keyed True s" and "s_mutable s" and "set_keyed True s'"
    and "2 \<le> wi_set_count_for_data s' x"
  shows "\<exists>r. wi_mutable_set_set_set s s' = Inr r \<and> wi_set_is_equal r s' \<and>
    wi_set_count_for_data r x = 1 \<and> \<not> wi_set_contains_data (wi_set_remove_data r x) x \<and>
    wi_set_contains_data (wi_set_remove_data s' x) x"
proof -
  obtain r where r: "wi_mutable_set_set_set s s' = Inr r" "set_keyed True r"
    "wi_set_count_for_data r = (\<lambda>y. if 0 < wi_set_count_for_data s' y then 1 else 0)"
    using wi_set_apply_refines [OF assms(1,2), of "Set_Set s'"] assms(3) by auto
  have "wi_set_is_equal r s'" by (simp add: wi_set_is_equal_iff [OF r(2) assms(3)] r(3))
  moreover have "\<not> wi_set_contains_data (wi_set_remove_data r x) x"
    and "wi_set_contains_data (wi_set_remove_data s' x) x"
    using assms(4) wiset.occurrences_del [OF r(2), of x x] wiset.occurrences_del [OF assms(3), of x x]
    by (auto simp: wi_set_contains_data [OF set_keyedD(2) [OF wiset.ok_del [OF r(2)]]]
        wi_set_contains_data [OF set_keyedD(2) [OF wiset.ok_del [OF assms(3)]]] r(3) set_drop_def)
  ultimately show ?thesis using r assms(4) by simp
qed

theorem wi_mutable_set_set_set_drops_counts_example:
  "\<exists>r. wi_mutable_set_set_set (wi_set_init 4 True 0 True wi_string_hash (=))
        (wi_set_add_data (wi_set_add_data (wi_set_init 4 True 0 True wi_string_hash (=)) ''a'') ''a'') = Inr r \<and>
      wi_set_count_for_data r ''a'' = 1"
proof -
  let ?s = "wi_set_init 4 True 0 True wi_string_hash (=)"
  have s: "set_keyed True ?s" "set_keyed True (wi_set_add_data ?s ''a'')"
    "set_keyed True (wi_set_add_data (wi_set_add_data ?s ''a'') ''a'')"
    by (simp_all add: set_keyed_init wiset.ok_add)
  have "s_mutable ?s" "2 \<le> wi_set_count_for_data (wi_set_add_data (wi_set_add_data ?s ''a'') ''a'') ''a''"
    by (simp_all add: wiset.occurrences_add [OF s(1)] wiset.occurrences_add [OF s(2)])
  from wi_mutable_set_set_set_drops_counts [OF s(1) this(1) s(3) this(2)] show ?thesis by blast
qed

end
