(* ===== verification/Wd_State.thy ===== *)
theory Wd_State
  imports Wi_Set Wi_String
begin

text \<open>
  The state of the server under src/wired/wired: messages as the handlers see them, the
  accounts, users and chats, the tables of the database that the modelled parts use, and
  the messages sent. Every thread of the server holds the lock of what it changes while
  it handles one message, so one handler is one step on this state.

  Objects that several parts share are named by their identifiers: a user by its uid in
  \<open>wd_users\<close>, a chat by its id in \<open>wd_chats\<close>. Both are dictionaries of Wi_Dictionary with
  32-bit number keys, the set of invitations and the subscribed paths are sets of Wi_Set.
  Arrays are lists here; Wi_Array proves that the array operations are those of lists.
  The socket, the clock and the success of the database are external: \<open>sv_writable\<close> says
  which users' sockets accept a message, \<open>sv_now\<close> is the time, \<open>sv_db_ok\<close> tells whether
  statements succeed.
\<close>

subsection \<open>Messages\<close>

text \<open>
  A message has a name and fields with values of the types of the protocol
  (p7/wi-p7-message.c). Dates are seconds; an enumeration value is given by its name
  and a UUID by its text.
\<close>

datatype p7_value =
    P7_Bool bool
  | P7_Enum string
  | P7_Enum_Value "32 word"
  | P7_UInt32 "32 word"
  | P7_UInt64 "64 word"
  | P7_String string
  | P7_Date int
  | P7_UUID string
  | P7_Data "8 word list"
  | P7_List "string list"

record p7_message =
  m_name :: string
  m_fields :: "(string \<times> p7_value) list"

definition p7_field :: "p7_message \<Rightarrow> string \<Rightarrow> p7_value option" where
  "p7_field m f = map_of (m_fields m) f"

text \<open>
  \<open>_wi_p7_message_get_binary_buffer_for_writing_for_id\<close> refuses a field that the message
  has already: a second setting of a field has no effect.
\<close>

fun p7_set :: "string \<Rightarrow> p7_value \<Rightarrow> (string \<times> p7_value) list \<Rightarrow> (string \<times> p7_value) list" where
  "p7_set f v [] = [(f, v)]"
| "p7_set f v ((g, w) # fs) = (g, w) # (if g = f then fs else p7_set f v fs)"

definition p7_string :: "p7_message \<Rightarrow> string \<Rightarrow> string option" where
  "p7_string m f = (case p7_field m f of Some (P7_String s) \<Rightarrow> Some s | _ \<Rightarrow> None)"

definition p7_data :: "p7_message \<Rightarrow> string \<Rightarrow> 8 word list option" where
  "p7_data m f = (case p7_field m f of Some (P7_Data s) \<Rightarrow> Some s | _ \<Rightarrow> None)"

definition p7_date :: "p7_message \<Rightarrow> string \<Rightarrow> int option" where
  "p7_date m f = (case p7_field m f of Some (P7_Date d) \<Rightarrow> Some d | _ \<Rightarrow> None)"

definition p7_uint32 :: "p7_message \<Rightarrow> string \<Rightarrow> 32 word option" where
  "p7_uint32 m f = (case p7_field m f of Some (P7_UInt32 w) \<Rightarrow> Some w | _ \<Rightarrow> None)"

definition p7_uuid_arg :: "p7_message \<Rightarrow> string \<Rightarrow> string" where
  "p7_uuid_arg m f = (case p7_field m f of Some (P7_UUID s) \<Rightarrow> s | _ \<Rightarrow> [])"

definition p7_string_arg :: "p7_message \<Rightarrow> string \<Rightarrow> string" where
  "p7_string_arg m f = (case p7_string m f of Some s \<Rightarrow> s | None \<Rightarrow> [])"

text \<open>
  \<open>wi_p7_message_set_string_for_name\<close> and \<open>wi_p7_message_set_data_for_name\<close> take NULL for
  the empty string and no bytes. \<open>opt_field\<close> is for the fields that the code sets only when
  their value is there.
\<close>

definition str_field :: "string \<Rightarrow> string option \<Rightarrow> (string \<times> p7_value) list" where
  "str_field f v = [(f, P7_String (case v of Some s \<Rightarrow> s | None \<Rightarrow> []))]"

definition data_field :: "string \<Rightarrow> 8 word list option \<Rightarrow> (string \<times> p7_value) list" where
  "data_field f v = [(f, P7_Data (case v of Some s \<Rightarrow> s | None \<Rightarrow> []))]"

definition opt_field :: "string \<Rightarrow> ('a \<Rightarrow> p7_value) \<Rightarrow> 'a option \<Rightarrow> (string \<times> p7_value) list" where
  "opt_field f c v = (case v of Some x \<Rightarrow> [(f, c x)] | None \<Rightarrow> [])"

subsection \<open>Accounts, users and chats\<close>

text \<open>
  The values of an account (accounts.c) by the protocol name of the field. Booleans and
  enumerations are stored as the database and the messages deliver them: a number, and
  the name of the enumeration value.
\<close>

datatype account_value =
    AV_String string
  | AV_Date int
  | AV_Number int
  | AV_List "string list"

type_synonym wd_account = "(string, account_value) wi_dictionary"

datatype wd_user_state =
    WD_USER_CONNECTED
  | WD_USER_GAVE_CLIENT_INFO
  | WD_USER_SAID_HELLO
  | WD_USER_GAVE_USER
  | WD_USER_LOGGED_IN
  | WD_USER_DISCONNECTED

record wd_client_info =
  ci_application_name :: string
  ci_application_version :: string
  ci_application_build :: string
  ci_os_name :: string
  ci_os_version :: string
  ci_arch :: string
  ci_supports_rsrc :: bool

record wd_user_transfer =
  ut_type :: "32 word"
  ut_path :: string
  ut_datasize :: "64 word"
  ut_rsrcsize :: "64 word"
  ut_transferred :: "64 word"
  ut_speed :: "32 word"
  ut_queue :: "32 word"

record wd_user =
  u_id :: "32 word"
  u_state :: wd_user_state
  u_idle :: bool
  u_account :: "wd_account option"
  u_nick :: "string option"
  u_login :: "string option"
  u_ip :: string
  u_host :: string
  u_client_info :: "wd_client_info option"
  u_status :: "string option"
  u_icon :: "8 word list option"
  u_color :: "32 word"
  u_cipher :: "(string \<times> 32 word) option"
  u_login_time :: int
  u_idle_time :: int
  u_joined_public_chat :: bool
  u_subscribed_boards :: bool
  u_subscribed_accounts :: bool
  u_subscribed_log :: bool
  u_subscribed_events :: bool
  u_subscribed_paths :: "string wi_set"
  u_subscribed_virtualpaths :: "(string, string) wi_dictionary"
  u_transfer :: "wd_user_transfer option"

record wd_topic =
  t_topic :: string
  t_date :: int
  t_nick :: "string option"
  t_login :: "string option"
  t_ip :: string

record wd_chat =
  c_id :: "32 word"
  c_topic :: "wd_topic option"
  c_users :: "32 word list"
  c_invited_users :: "32 word wi_set"

record wd_event =
  ev_event :: string
  ev_parameters :: "string option"
  ev_time :: int
  ev_nick :: "string option"
  ev_login :: "string option"
  ev_ip :: string

text \<open>
  The tables of the offline messages (main.c, messages.c): a token that stands for a login
  with the profile last shown under it, and the messages that wait for their recipient.
\<close>

record wd_offline_token =
  ot_login :: string
  ot_token :: string
  ot_nick :: string
  ot_status :: string
  ot_icon :: "8 word list option"

record wd_pending_message =
  pm_sender_nick :: string
  pm_sender_login :: string
  pm_sender_token :: string
  pm_recipient_login :: string
  pm_message :: string
  pm_ciphertext :: "8 word list option"
  pm_sent_at :: int

text \<open>
  The tables of the boards (boards.c): a board and who may read and write it, a thread, and
  a reply to a thread. The icon is the NULL of the database for an author without one, bytes,
  or the text that the first thread is made with.
\<close>

datatype wd_icon =
    Icon_Null
  | Icon_Blob "8 word list"
  | Icon_Text string

record wd_board =
  bo_board :: string
  bo_owner :: string
  bo_group :: string
  bo_mode :: int

record wd_thread =
  th_thread :: string
  th_board :: string
  th_subject :: string
  th_text :: string
  th_post_date :: int
  th_edit_date :: "int option"
  th_nick :: string
  th_login :: string
  th_ip :: string
  th_icon :: wd_icon

record wd_post =
  po_post :: string
  po_thread :: string
  po_text :: string
  po_post_date :: int
  po_edit_date :: "int option"
  po_nick :: string
  po_login :: string
  po_ip :: string
  po_icon :: wd_icon

text \<open>
  \<open>sv_banlist\<close>, \<open>sv_topic\<close>, \<open>sv_events\<close>, \<open>sv_db_users\<close> and \<open>sv_db_groups\<close> are the rows of
  the tables \<open>banlist\<close>, \<open>topic\<close>, \<open>events\<close>, \<open>users\<close> and \<open>groups\<close>, in the order of their
  insertion; \<open>sv_offline_tokens\<close>, \<open>sv_offline_keys\<close> and \<open>sv_pending\<close> are those of
  \<open>offline_tokens\<close>, \<open>offline_keys\<close> and \<open>pending_messages\<close>, \<open>sv_boards\<close>, \<open>sv_threads\<close> and
  \<open>sv_posts\<close> those of \<open>boards\<close>, \<open>threads\<close> and \<open>posts\<close>. \<open>sv_uuid n\<close> is the \<open>n\<close>th random
  identifier that is drawn. \<open>sv_events_time\<close> is the setting "events time", \<open>sv_color_enum\<close>
  gives the values of the colour names of the protocol, and \<open>sv_server_info\<close> the fields of
  the message about the server. \<open>sv_uninitialised\<close>, \<open>sv_uninitialised_null\<close>,
  \<open>sv_absent\<close>, \<open>sv_undefined\<close> and \<open>sv_garbage\<close> stand for what C leaves open: an uninitialised number,
  whether an uninitialised pointer happens to be NULL, the variable for a field that a message lacks, a conversion out of range, and a
  string read as a number. \<open>sv_strftime\<close> and \<open>sv_numeric\<close> are the functions of SQLite of
  that name and the number it makes of a text in a subtraction. \<open>sv_home\<close> is the home
  directory of the user the server runs as. \<open>sv_cursor\<close> is what SQLite leaves open when a table changes under a query: from the rows the query selected when it
  began, those it has delivered, and those it would select now, the next row. Times in the database are
  seconds here. \<open>sv_page\<close> is the number of structures the containers fit on a page.
\<close>

record wd_server =
  sv_users :: "(32 word, wd_user) wi_dictionary"
  sv_users_current_id :: "32 word"
  sv_chats :: "(32 word, wd_chat) wi_dictionary"
  sv_chats_current_id :: "32 word"
  sv_current_users :: "64 word"
  sv_total_users :: "64 word"
  sv_banlist :: "(string \<times> int option) list"
  sv_topic :: "wd_topic option"
  sv_events :: "wd_event list"
  sv_db_users :: "(string \<times> wd_account) list"
  sv_db_groups :: "(string \<times> wd_account) list"
  sv_offline_tokens :: "wd_offline_token list"
  sv_offline_keys :: "(string \<times> 8 word list) list"
  sv_pending :: "wd_pending_message list"
  sv_boards :: "wd_board list"
  sv_threads :: "wd_thread list"
  sv_posts :: "wd_post list"
  sv_uuid :: "nat \<Rightarrow> string"
  sv_uuid_count :: nat
  sv_color_enum :: "string \<Rightarrow> 32 word"
  sv_server_info :: "(string \<times> p7_value) list"
  sv_now :: int
  sv_events_time :: "string option"
  sv_uninitialised :: int
  sv_uninitialised_null :: bool
  sv_undefined :: "32 word"
  sv_absent :: "p7_message \<Rightarrow> string \<Rightarrow> 32 word"
  sv_garbage :: "account_value \<Rightarrow> bool"
  sv_db_ok :: bool
  sv_strftime :: "string \<Rightarrow> int \<Rightarrow> string"
  sv_numeric :: "string \<Rightarrow> int"
  sv_home :: wi_passwd
  sv_cursor :: "string list \<Rightarrow> string list \<Rightarrow> string list \<Rightarrow> string option"
  sv_writable :: "32 word \<Rightarrow> bool"
  sv_page :: nat
  sv_out :: "(32 word \<times> p7_message) list"

text \<open>
  The handlers read required fields into variables without looking at the result of the
  call. \<open>wd_messages_loop_for_user\<close> has verified the message against the specification, and a
  message that was built with the setters and passes has its required fields. But a peer can make
  up messages that pass without them (Wi_P7_Verify). A number or a truth value then is what was on
  the stack, \<open>sv_absent\<close>, about which nothing is known. A string or an identifier then is NULL;
  the handlers for which that matters read it as an option (the login, the password, the names of
  accounts), and the others are modelled for messages that have their strings, which
  \<open>wd_message_complete\<close> says and the theorems on runs and on crashes assume.
\<close>

definition p7_uint32_arg :: "wd_server \<Rightarrow> p7_message \<Rightarrow> string \<Rightarrow> 32 word" where
  "p7_uint32_arg sv m f = (case p7_uint32 m f of Some w \<Rightarrow> w | None \<Rightarrow> sv_absent sv m f)"

definition p7_bool_arg :: "wd_server \<Rightarrow> p7_message \<Rightarrow> string \<Rightarrow> bool" where
  "p7_bool_arg sv m f = (case p7_field m f of Some (P7_Bool b) \<Rightarrow> b | _ \<Rightarrow> sv_absent sv m f \<noteq> 0)"

definition wi_number_hash :: "32 word \<Rightarrow> nat" where
  "wi_number_hash i = unat (wi_hash_int i)"

definition wd_user :: "wd_server \<Rightarrow> 32 word \<Rightarrow> wd_user" where
  "wd_user sv uid = the (wi_dictionary_data_for_key (sv_users sv) uid)"

text \<open>Assigning to a field of a user object.\<close>

definition wd_set_user :: "(wd_user \<Rightarrow> wd_user) \<Rightarrow> 32 word \<Rightarrow> wd_server \<Rightarrow> wd_server" where
  "wd_set_user f uid sv =
     (case wi_dictionary_data_for_key (sv_users sv) uid of
        None \<Rightarrow> sv
      | Some u \<Rightarrow> sv\<lparr>sv_users := wi_dictionary_set (sv_users sv) (f u) uid\<rparr>)"

definition wd_set_chat :: "(wd_chat \<Rightarrow> wd_chat) \<Rightarrow> 32 word \<Rightarrow> wd_server \<Rightarrow> wd_server" where
  "wd_set_chat f cid sv =
     (case wi_dictionary_data_for_key (sv_chats sv) cid of
        None \<Rightarrow> sv
      | Some c \<Rightarrow> sv\<lparr>sv_chats := wi_dictionary_set (sv_chats sv) (f c) cid\<rparr>)"

text \<open>A server on which nothing has happened yet.\<close>

definition wd_server_start :: "nat \<Rightarrow> wd_server" where
  "wd_server_start page =
     \<lparr>sv_users = wi_dictionary_init page True 0 wi_number_hash (=) Default_Value_Callbacks,
      sv_users_current_id = 0,
      sv_chats = wi_dictionary_init page True 0 wi_number_hash (=) Default_Value_Callbacks,
      sv_chats_current_id = 1, sv_current_users = 0, sv_total_users = 0, sv_banlist = [],
      sv_topic = None, sv_events = [], sv_db_users = [], sv_db_groups = [],
      sv_offline_tokens = [], sv_offline_keys = [], sv_pending = [],
      sv_boards = [], sv_threads = [], sv_posts = [], sv_uuid = (\<lambda>n. replicate n CHR ''u''),
      sv_uuid_count = 0, sv_color_enum = (\<lambda>_. 0), sv_server_info = [], sv_now = 0,
      sv_events_time = None, sv_uninitialised = 0, sv_uninitialised_null = True, sv_undefined = 0, sv_absent = (\<lambda>_ _. 0),
      sv_garbage = (\<lambda>_. False), sv_db_ok = True, sv_strftime = (\<lambda>f _. [last f]), sv_numeric = (\<lambda>_. 0),
      sv_home = no_passwd, sv_cursor = (\<lambda>rows delivered _.
        if length delivered < length rows then Some (rows ! length delivered) else None),
      sv_writable = (\<lambda>_. True),
      sv_page = page, sv_out = []\<rparr>"

text \<open>The users and chats in the order an enumerator of the dictionary returns them.\<close>

definition dict_values :: "('k, 'v) wi_dictionary \<Rightarrow> 'v list" where
  "dict_values d = fst (enumerate (wi_dictionary_data_enumerator d) (Suc (wi_dictionary_count d)) enumerator_start)"

definition dict_keys :: "('k, 'v) wi_dictionary \<Rightarrow> 'k list" where
  "dict_keys d = fst (enumerate (wi_dictionary_key_enumerator d) (Suc (wi_dictionary_count d)) enumerator_start)"

subsection \<open>Sending (server.c)\<close>

definition wd_user_set_state :: "wd_user_state \<Rightarrow> 32 word \<Rightarrow> wd_server \<Rightarrow> wd_server" where
  "wd_user_set_state st uid sv = wd_set_user (\<lambda>u. u\<lparr>u_state := st\<rparr>) uid sv"

definition wd_user_send_message :: "32 word \<Rightarrow> p7_message \<Rightarrow> wd_server \<Rightarrow> wd_server" where
  "wd_user_send_message uid m sv =
     (if u_transfer (wd_user sv uid) = None then
        (if sv_writable sv uid then sv\<lparr>sv_out := sv_out sv @ [(uid, m)]\<rparr>
         else wd_user_set_state WD_USER_DISCONNECTED uid sv)
      else sv)"

definition wd_user_reply_message :: "32 word \<Rightarrow> p7_message \<Rightarrow> p7_message \<Rightarrow> wd_server \<Rightarrow> wd_server" where
  "wd_user_reply_message uid reply m sv =
     (let reply = (case p7_uint32 m ''wired.transaction'' of
                     Some t \<Rightarrow> reply\<lparr>m_fields := p7_set ''wired.transaction'' (P7_UInt32 t) (m_fields reply)\<rparr>
                   | None \<Rightarrow> reply)
      in wd_user_send_message uid reply sv)"

definition wd_user_reply_okay :: "32 word \<Rightarrow> p7_message \<Rightarrow> wd_server \<Rightarrow> wd_server" where
  "wd_user_reply_okay uid m = wd_user_reply_message uid \<lparr>m_name = ''wired.okay'', m_fields = []\<rparr> m"

definition wd_user_reply_error :: "32 word \<Rightarrow> string \<Rightarrow> p7_message \<Rightarrow> wd_server \<Rightarrow> wd_server" where
  "wd_user_reply_error uid err m =
     wd_user_reply_message uid \<lparr>m_name = ''wired.error'', m_fields = [(''wired.error'', P7_Enum err)]\<rparr> m"

definition wd_user_reply_internal_error :: "32 word \<Rightarrow> string option \<Rightarrow> p7_message \<Rightarrow> wd_server \<Rightarrow> wd_server" where
  "wd_user_reply_internal_error uid str m =
     wd_user_reply_message uid
       \<lparr>m_name = ''wired.error'',
        m_fields = (''wired.error'', P7_Enum ''wired.error.internal_error'') #
          opt_field ''wired.error.string'' P7_String str\<rparr> m"

definition wd_broadcast_message :: "p7_message \<Rightarrow> wd_server \<Rightarrow> wd_server" where
  "wd_broadcast_message m sv =
     fold (\<lambda>uid sv. if u_state (wd_user sv uid) = WD_USER_LOGGED_IN then wd_user_send_message uid m sv else sv)
       (dict_keys (sv_users sv)) sv"

definition wd_chat_broadcast_message :: "wd_chat \<Rightarrow> p7_message \<Rightarrow> wd_server \<Rightarrow> wd_server" where
  "wd_chat_broadcast_message c m sv =
     fold (\<lambda>uid sv. if u_state (wd_user sv uid) = WD_USER_LOGGED_IN then wd_user_send_message uid m sv else sv)
       (c_users c) sv"

subsection \<open>Facts on the dictionaries of the state\<close>

lemma dict_keys_entries:
  assumes "dict_keyed (=) d"
  shows "dict_keys d = map fst (concat (d_buckets d))"
    and "distinct (dict_keys d)" and "set (dict_keys d) = dom (wi_dictionary_data_for_key d)"
proof -
  show k: "dict_keys d = map fst (concat (d_buckets d))"
    unfolding dict_keys_def wi_dictionary_key_enumerator_def [abs_def]
    by (simp only: enumerate_apfst wi_dictionary_enumerate [OF dict_keyedD(2) [OF assms]] apfst_conv fst_conv)
  show "distinct (dict_keys d)" using dict_keyed_entries(1) [OF assms] by (simp only: k)
  show "set (dict_keys d) = dom (wi_dictionary_data_for_key d)"
    by (simp only: k dict_keyed_entries(2) [OF assms] dom_map_of_conv_image_fst set_map)
qed

lemma dict_values_entries:
  assumes "dict_keyed (=) d"
  shows "set (dict_values d) = ran (wi_dictionary_data_for_key d)"
proof -
  have v: "dict_values d = map snd (concat (d_buckets d))"
    unfolding dict_values_def wi_dictionary_data_enumerator_def [abs_def]
    by (simp only: enumerate_apfst wi_dictionary_enumerate [OF dict_keyedD(2) [OF assms]] apfst_conv fst_conv)
  show ?thesis
    by (simp only: v dict_keyed_entries(2) [OF assms] set_map ran_distinct [OF dict_keyed_entries(1) [OF assms]])
qed

subsection \<open>Crashes\<close>

text \<open>
  A handler that follows a NULL pointer ends the process, and so does a transaction that
  cannot be begun. \<open>Inl\<close> names the cause. A column of a row that the database did not
  find is NULL, and a column that is NULL in the database is an object without a value, read
  past its end (\<open>Null_Column\<close>); \<open>Null_Privileges\<close> are the privileges of a board while the
  database fails. \<open>Statement_Alive\<close> is the assertion that a query has run to its end,
  \<open>Not_Normalized\<close> the one that fails when a path with a tilde is normalised.
  \<open>Endless_Loop\<close> is no crash: the handler does not return.
\<close>

datatype wd_crash =
    Null_Account
  | Null_Client_Info
  | Uninitialised_Date
  | Transaction_Failed
  | Missing_Row
  | Null_Column
  | Null_Privileges
  | Statement_Alive
  | Not_Normalized
  | Endless_Loop

type_synonym 'a wd_result = "wd_crash + 'a"

definition wd_bind :: "'a wd_result \<Rightarrow> ('a \<Rightarrow> 'b wd_result) \<Rightarrow> 'b wd_result" where
  "wd_bind r f = (case r of Inl e \<Rightarrow> Inl e | Inr x \<Rightarrow> f x)"

lemma wd_bind_simps [simp]:
  "wd_bind (Inl e) f = Inl e"
  "wd_bind (Inr x) f = f x"
  by (simp_all add: wd_bind_def)

subsection \<open>Sending disturbs nothing else\<close>

text \<open>
  \<open>wd_quiet\<close>: messages were sent, and users whose socket failed were marked disconnected.
\<close>

definition user_quiet :: "wd_user \<Rightarrow> wd_user \<Rightarrow> bool" where
  "user_quiet u u' \<longleftrightarrow> u' = u \<or> u' = u\<lparr>u_state := WD_USER_DISCONNECTED\<rparr>"

definition wd_quiet :: "wd_server \<Rightarrow> wd_server \<Rightarrow> bool" where
  "wd_quiet sv sv' \<longleftrightarrow>
     (\<exists>us out. sv' = sv\<lparr>sv_users := us, sv_out := sv_out sv @ out\<rparr>) \<and>
     (dict_keyed (=) (sv_users sv) \<longrightarrow> dict_keyed (=) (sv_users sv') \<and>
       (\<forall>uid. rel_option user_quiet (wi_dictionary_data_for_key (sv_users sv) uid)
                (wi_dictionary_data_for_key (sv_users sv') uid)))"

lemma user_quiet_refl [simp]: "user_quiet u u"
  by (simp add: user_quiet_def)

lemma user_quiet_trans: "user_quiet u v \<Longrightarrow> user_quiet v w \<Longrightarrow> user_quiet u w"
  by (auto simp: user_quiet_def)

lemma wd_quietI:
  assumes "sv' = sv\<lparr>sv_users := us, sv_out := sv_out sv @ out\<rparr>"
    and "dict_keyed (=) (sv_users sv) \<Longrightarrow> dict_keyed (=) us"
    and "\<And>uid. dict_keyed (=) (sv_users sv) \<Longrightarrow>
      rel_option user_quiet (wi_dictionary_data_for_key (sv_users sv) uid) (wi_dictionary_data_for_key us uid)"
  shows "wd_quiet sv sv'"
proof -
  have us: "sv_users sv' = us" using assms(1) by simp
  show ?thesis unfolding wd_quiet_def us using assms(2,3) by (intro conjI exI [of _ us] exI [of _ out] assms(1)) auto
qed

lemma rel_option_quiet_refl [simp]: "rel_option user_quiet x x"
  by (cases x) simp_all

lemma wd_quiet_refl [simp]: "wd_quiet sv sv"
  by (rule wd_quietI [where us = "sv_users sv" and out = "[]"]) simp_all

lemma wd_quiet_trans:
  assumes "wd_quiet a b" and "wd_quiet b c"
  shows "wd_quiet a c"
proof -
  have t: "rel_option user_quiet x z" if "rel_option user_quiet x y" "rel_option user_quiet y z" for x y z
    using that by (cases x; cases y; cases z) (auto intro: user_quiet_trans)
  from assms obtain us1 out1 us2 out2 where
    b: "b = a\<lparr>sv_users := us1, sv_out := sv_out a @ out1\<rparr>" and
    c: "c = b\<lparr>sv_users := us2, sv_out := sv_out b @ out2\<rparr>" unfolding wd_quiet_def by metis
  have k: "dict_keyed (=) us1 \<and> dict_keyed (=) us2" if "dict_keyed (=) (sv_users a)"
    using assms that by (simp add: wd_quiet_def b c)
  show ?thesis
  proof (rule wd_quietI)
    show "c = a\<lparr>sv_users := us2, sv_out := sv_out a @ (out1 @ out2)\<rparr>" by (simp add: b c)
    show "dict_keyed (=) us2" if "dict_keyed (=) (sv_users a)" using k that by blast
    fix uid assume a: "dict_keyed (=) (sv_users a)"
    have "rel_option user_quiet (wi_dictionary_data_for_key (sv_users a) uid) (wi_dictionary_data_for_key us1 uid)"
      "rel_option user_quiet (wi_dictionary_data_for_key us1 uid) (wi_dictionary_data_for_key us2 uid)"
      using assms a k by (simp_all add: wd_quiet_def b c)
    then show "rel_option user_quiet (wi_dictionary_data_for_key (sv_users a) uid) (wi_dictionary_data_for_key us2 uid)"
      by (rule t)
  qed
qed

lemma wd_set_user_lookup:
  assumes "dict_keyed (=) (sv_users sv)"
  shows "dict_keyed (=) (sv_users (wd_set_user f uid sv))"
    and "wi_dictionary_data_for_key (sv_users (wd_set_user f uid sv)) k =
      (if k = uid then map_option f (wi_dictionary_data_for_key (sv_users sv) uid)
       else wi_dictionary_data_for_key (sv_users sv) k)"
  by (auto simp: wd_set_user_def assms dict.ok_put [OF assms] dict.lookup_put [OF assms] split: option.split)

lemma wd_set_chat_lookup:
  assumes "dict_keyed (=) (sv_chats sv)"
  shows "dict_keyed (=) (sv_chats (wd_set_chat f cid sv))"
    and "wi_dictionary_data_for_key (sv_chats (wd_set_chat f cid sv)) k =
      (if k = cid then map_option f (wi_dictionary_data_for_key (sv_chats sv) cid)
       else wi_dictionary_data_for_key (sv_chats sv) k)"
  by (auto simp: wd_set_chat_def assms dict.ok_put [OF assms] dict.lookup_put [OF assms] split: option.split)

lemma wd_set_user_fields [simp]:
  "sv_chats (wd_set_user f uid sv) = sv_chats sv" "sv_out (wd_set_user f uid sv) = sv_out sv"
  "sv_page (wd_set_user f uid sv) = sv_page sv" "sv_banlist (wd_set_user f uid sv) = sv_banlist sv"
  "sv_current_users (wd_set_user f uid sv) = sv_current_users sv" "sv_now (wd_set_user f uid sv) = sv_now sv"
  "sv_db_ok (wd_set_user f uid sv) = sv_db_ok sv" "sv_db_users (wd_set_user f uid sv) = sv_db_users sv"
  "sv_offline_keys (wd_set_user f uid sv) = sv_offline_keys sv" "sv_events (wd_set_user f uid sv) = sv_events sv"
  "sv_boards (wd_set_user f uid sv) = sv_boards sv" "sv_threads (wd_set_user f uid sv) = sv_threads sv"
  "sv_posts (wd_set_user f uid sv) = sv_posts sv"
  "sv_events_time (wd_set_user f uid sv) = sv_events_time sv" "sv_writable (wd_set_user f uid sv) = sv_writable sv"
  by (simp_all add: wd_set_user_def split: option.split)

lemma wd_set_chat_fields [simp]:
  "sv_users (wd_set_chat f cid sv) = sv_users sv" "sv_out (wd_set_chat f cid sv) = sv_out sv"
  "sv_page (wd_set_chat f cid sv) = sv_page sv" "sv_banlist (wd_set_chat f cid sv) = sv_banlist sv"
  "sv_current_users (wd_set_chat f cid sv) = sv_current_users sv" "sv_db_ok (wd_set_chat f cid sv) = sv_db_ok sv"
  by (simp_all add: wd_set_chat_def split: option.split)

named_theorems wd_quiets "operations that only send"

lemma wd_user_set_disconnected_quiet: "wd_quiet sv (wd_user_set_state WD_USER_DISCONNECTED uid sv)"
proof (rule wd_quietI)
  show "wd_user_set_state WD_USER_DISCONNECTED uid sv =
      sv\<lparr>sv_users := sv_users (wd_user_set_state WD_USER_DISCONNECTED uid sv), sv_out := sv_out sv @ []\<rparr>"
    by (simp add: wd_user_set_state_def wd_set_user_def split: option.split)
  assume k: "dict_keyed (=) (sv_users sv)"
  show "dict_keyed (=) (sv_users (wd_user_set_state WD_USER_DISCONNECTED uid sv))"
    by (simp add: wd_user_set_state_def wd_set_user_lookup [OF k])
  fix k'
  show "rel_option user_quiet (wi_dictionary_data_for_key (sv_users sv) k')
      (wi_dictionary_data_for_key (sv_users (wd_user_set_state WD_USER_DISCONNECTED uid sv)) k')"
    by (cases "wi_dictionary_data_for_key (sv_users sv) k'")
      (auto simp: wd_user_set_state_def wd_set_user_lookup [OF k] user_quiet_def)
qed

lemma wd_user_send_message_quiet [wd_quiets]: "wd_quiet sv (wd_user_send_message uid m sv)"
proof -
  have "wd_quiet sv (sv\<lparr>sv_out := sv_out sv @ [(uid, m)]\<rparr>)"
    by (rule wd_quietI [where us = "sv_users sv" and out = "[(uid, m)]"]) simp_all
  then show ?thesis by (simp add: wd_user_send_message_def wd_user_set_disconnected_quiet)
qed

lemma wd_quiet_fold:
  assumes "\<And>x sv. wd_quiet sv (f x sv)"
  shows "wd_quiet sv (fold f xs sv)"
proof (induction xs arbitrary: sv)
  case (Cons x xs)
  from wd_quiet_trans [OF assms Cons.IH] show ?case by simp
qed simp

lemma wd_reply_quiets [wd_quiets]:
  "wd_quiet sv (wd_user_reply_message uid reply m sv)"
  "wd_quiet sv (wd_user_reply_okay uid m sv)"
  "wd_quiet sv (wd_user_reply_error uid err m sv)"
  "wd_quiet sv (wd_user_reply_internal_error uid str m sv)"
  "wd_quiet sv (wd_broadcast_message m sv)"
  "wd_quiet sv (wd_chat_broadcast_message c m sv)"
  by (simp_all add: wd_user_reply_message_def wd_user_reply_okay_def wd_user_reply_error_def
      wd_user_reply_internal_error_def wd_broadcast_message_def wd_chat_broadcast_message_def
      Let_def wd_user_send_message_quiet wd_quiet_fold)

end
