(* ===== verification/Wd_Accounts.thy ===== *)
theory Wd_Accounts
  imports Wd_State
begin

text \<open>
  Accounts (accounts.c): the table of account fields, privileges and the rules by which a
  group's values complete a user's and an editor's privileges bound those of the accounts
  it edits. An account is a dictionary from the protocol names of the fields to values.
\<close>

subsection \<open>The table of account fields\<close>

datatype wd_account_field_type =
    FIELD_STRING | FIELD_DATE | FIELD_NUMBER | FIELD_BOOLEAN | FIELD_ENUM | FIELD_LIST

text \<open>The bits of \<open>wd_account_field_account_t\<close>.\<close>

definition FIELD_USER_LIST :: "32 word" where "FIELD_USER_LIST = 1"
definition FIELD_GROUP_LIST :: "32 word" where "FIELD_GROUP_LIST = 2"
definition FIELD_USER :: "32 word" where "FIELD_USER = 4"
definition FIELD_GROUP :: "32 word" where "FIELD_GROUP = 8"
definition FIELD_PRIVILEGE :: "32 word" where "FIELD_PRIVILEGE = 16"

record wd_account_field =
  af_tablename :: "string option"
  af_protocolname :: string
  af_type :: wd_account_field_type
  af_account :: "32 word"
  af_required :: bool

abbreviation af :: "string option \<Rightarrow> string \<Rightarrow> wd_account_field_type \<Rightarrow> 32 word \<Rightarrow> bool \<Rightarrow> wd_account_field" where
  "af tab name ty acc req \<equiv>
     \<lparr>af_tablename = tab, af_protocolname = name, af_type = ty, af_account = acc, af_required = req\<rparr>"

definition wd_account_user_fields :: "wd_account_field list" where
  "wd_account_user_fields =
  [af (Some ''name'') ''wired.account.name'' FIELD_STRING 31 True,
   af None ''wired.account.new_name'' FIELD_STRING 0 False,
   af (Some ''full_name'') ''wired.account.full_name'' FIELD_STRING 5 True,
   af (Some ''comment'') ''wired.account.comment'' FIELD_STRING 15 True,
   af (Some ''creation_time'') ''wired.account.creation_time'' FIELD_DATE 15 True,
   af (Some ''modification_time'') ''wired.account.modification_time'' FIELD_DATE 15 True,
   af (Some ''login_time'') ''wired.account.login_time'' FIELD_DATE 5 True,
   af (Some ''edited_by'') ''wired.account.edited_by'' FIELD_STRING 15 True,
   af (Some ''downloads'') ''wired.account.downloads'' FIELD_NUMBER 5 True,
   af (Some ''download_transferred'') ''wired.account.download_transferred'' FIELD_NUMBER 5 True,
   af (Some ''uploads'') ''wired.account.uploads'' FIELD_NUMBER 5 True,
   af (Some ''upload_transferred'') ''wired.account.upload_transferred'' FIELD_NUMBER 5 True,
   af (Some ''group'') ''wired.account.group'' FIELD_STRING 21 True,
   af (Some ''groups'') ''wired.account.groups'' FIELD_LIST 21 True,
   af (Some ''password'') ''wired.account.password'' FIELD_STRING 5 True,
   af (Some ''color'') ''wired.account.color'' FIELD_ENUM 15 False,
   af (Some ''files'') ''wired.account.files'' FIELD_STRING 12 False,
   af (Some ''user_get_info'') ''wired.account.user.get_info'' FIELD_BOOLEAN 28 False,
   af (Some ''user_disconnect_users'') ''wired.account.user.disconnect_users'' FIELD_BOOLEAN 28 False,
   af (Some ''user_ban_users'') ''wired.account.user.ban_users'' FIELD_BOOLEAN 28 False,
   af (Some ''user_cannot_be_disconnected'') ''wired.account.user.cannot_be_disconnected'' FIELD_BOOLEAN 28 False,
   af (Some ''user_cannot_set_nick'') ''wired.account.user.cannot_set_nick'' FIELD_BOOLEAN 28 False,
   af (Some ''user_get_users'') ''wired.account.user.get_users'' FIELD_BOOLEAN 28 False,
   af (Some ''chat_kick_users'') ''wired.account.chat.kick_users'' FIELD_BOOLEAN 28 False,
   af (Some ''chat_set_topic'') ''wired.account.chat.set_topic'' FIELD_BOOLEAN 28 False,
   af (Some ''chat_create_chats'') ''wired.account.chat.create_chats'' FIELD_BOOLEAN 28 False,
   af (Some ''message_send_messages'') ''wired.account.message.send_messages'' FIELD_BOOLEAN 28 False,
   af (Some ''message_broadcast'') ''wired.account.message.broadcast'' FIELD_BOOLEAN 28 False]"

definition wd_account_board_and_file_fields :: "wd_account_field list" where
  "wd_account_board_and_file_fields =
  [af (Some ''file_list_files'') ''wired.account.file.list_files'' FIELD_BOOLEAN 28 False,
   af (Some ''file_search_files'') ''wired.account.file.search_files'' FIELD_BOOLEAN 28 False,
   af (Some ''file_get_info'') ''wired.account.file.get_info'' FIELD_BOOLEAN 28 False,
   af (Some ''file_create_links'') ''wired.account.file.create_links'' FIELD_BOOLEAN 28 False,
   af (Some ''file_rename_files'') ''wired.account.file.rename_files'' FIELD_BOOLEAN 28 False,
   af (Some ''file_set_type'') ''wired.account.file.set_type'' FIELD_BOOLEAN 28 False,
   af (Some ''file_set_comment'') ''wired.account.file.set_comment'' FIELD_BOOLEAN 28 False,
   af (Some ''file_set_permissions'') ''wired.account.file.set_permissions'' FIELD_BOOLEAN 28 False,
   af (Some ''file_set_executable'') ''wired.account.file.set_executable'' FIELD_BOOLEAN 28 False,
   af (Some ''file_set_label'') ''wired.account.file.set_label'' FIELD_BOOLEAN 28 False,
   af (Some ''file_recursive_list_depth_limit'') ''wired.account.file.recursive_list_depth_limit'' FIELD_NUMBER 28 False,
   af (Some ''file_create_directories'') ''wired.account.file.create_directories'' FIELD_BOOLEAN 28 False,
   af (Some ''file_move_files'') ''wired.account.file.move_files'' FIELD_BOOLEAN 28 False,
   af (Some ''file_delete_files'') ''wired.account.file.delete_files'' FIELD_BOOLEAN 28 False,
   af (Some ''file_access_all_dropboxes'') ''wired.account.file.access_all_dropboxes'' FIELD_BOOLEAN 28 False,
   af (Some ''account_change_password'') ''wired.account.account.change_password'' FIELD_BOOLEAN 28 False,
   af (Some ''account_list_accounts'') ''wired.account.account.list_accounts'' FIELD_BOOLEAN 28 False,
   af (Some ''account_read_accounts'') ''wired.account.account.read_accounts'' FIELD_BOOLEAN 28 False,
   af (Some ''account_create_users'') ''wired.account.account.create_users'' FIELD_BOOLEAN 28 False,
   af (Some ''account_edit_users'') ''wired.account.account.edit_users'' FIELD_BOOLEAN 28 False,
   af (Some ''account_delete_users'') ''wired.account.account.delete_users'' FIELD_BOOLEAN 28 False,
   af (Some ''account_create_groups'') ''wired.account.account.create_groups'' FIELD_BOOLEAN 28 False,
   af (Some ''account_edit_groups'') ''wired.account.account.edit_groups'' FIELD_BOOLEAN 28 False,
   af (Some ''account_delete_groups'') ''wired.account.account.delete_groups'' FIELD_BOOLEAN 28 False,
   af (Some ''account_raise_account_privileges'') ''wired.account.account.raise_account_privileges'' FIELD_BOOLEAN 28 False,
   af (Some ''transfer_download_files'') ''wired.account.transfer.download_files'' FIELD_BOOLEAN 28 False,
   af (Some ''transfer_upload_files'') ''wired.account.transfer.upload_files'' FIELD_BOOLEAN 28 False,
   af (Some ''transfer_upload_anywhere'') ''wired.account.transfer.upload_anywhere'' FIELD_BOOLEAN 28 False]"

definition wd_account_transfer_and_admin_fields :: "wd_account_field list" where
  "wd_account_transfer_and_admin_fields =
  [af (Some ''transfer_upload_directories'') ''wired.account.transfer.upload_directories'' FIELD_BOOLEAN 28 False,
   af (Some ''transfer_download_speed_limit'') ''wired.account.transfer.download_speed_limit'' FIELD_NUMBER 28 False,
   af (Some ''transfer_upload_speed_limit'') ''wired.account.transfer.upload_speed_limit'' FIELD_NUMBER 28 False,
   af (Some ''transfer_download_limit'') ''wired.account.transfer.download_limit'' FIELD_NUMBER 28 False,
   af (Some ''transfer_upload_limit'') ''wired.account.transfer.upload_limit'' FIELD_NUMBER 28 False,
   af (Some ''log_view_log'') ''wired.account.log.view_log'' FIELD_BOOLEAN 28 False,
   af (Some ''events_view_events'') ''wired.account.events.view_events'' FIELD_BOOLEAN 28 False,
   af (Some ''settings_get_settings'') ''wired.account.settings.get_settings'' FIELD_BOOLEAN 28 False,
   af (Some ''settings_set_settings'') ''wired.account.settings.set_settings'' FIELD_BOOLEAN 28 False,
   af (Some ''banlist_get_bans'') ''wired.account.banlist.get_bans'' FIELD_BOOLEAN 28 False,
   af (Some ''banlist_add_bans'') ''wired.account.banlist.add_bans'' FIELD_BOOLEAN 28 False,
   af (Some ''banlist_delete_bans'') ''wired.account.banlist.delete_bans'' FIELD_BOOLEAN 28 False,
   af (Some ''board_read_boards'') ''wired.account.board.read_boards'' FIELD_BOOLEAN 28 False,
   af (Some ''board_add_boards'') ''wired.account.board.add_boards'' FIELD_BOOLEAN 28 False,
   af (Some ''board_move_boards'') ''wired.account.board.move_boards'' FIELD_BOOLEAN 28 False,
   af (Some ''board_rename_boards'') ''wired.account.board.rename_boards'' FIELD_BOOLEAN 28 False,
   af (Some ''board_delete_boards'') ''wired.account.board.delete_boards'' FIELD_BOOLEAN 28 False,
   af (Some ''board_get_board_info'') ''wired.account.board.get_board_info'' FIELD_BOOLEAN 28 False,
   af (Some ''board_set_board_info'') ''wired.account.board.set_board_info'' FIELD_BOOLEAN 28 False,
   af (Some ''board_add_threads'') ''wired.account.board.add_threads'' FIELD_BOOLEAN 28 False,
   af (Some ''board_move_threads'') ''wired.account.board.move_threads'' FIELD_BOOLEAN 28 False,
   af (Some ''board_add_posts'') ''wired.account.board.add_posts'' FIELD_BOOLEAN 28 False,
   af (Some ''board_edit_own_threads_and_posts'') ''wired.account.board.edit_own_threads_and_posts'' FIELD_BOOLEAN 28 False,
   af (Some ''board_edit_all_threads_and_posts'') ''wired.account.board.edit_all_threads_and_posts'' FIELD_BOOLEAN 28 False,
   af (Some ''board_delete_own_threads_and_posts'') ''wired.account.board.delete_own_threads_and_posts'' FIELD_BOOLEAN 28 False,
   af (Some ''board_delete_all_threads_and_posts'') ''wired.account.board.delete_all_threads_and_posts'' FIELD_BOOLEAN 28 False,
   af (Some ''tracker_list_servers'') ''wired.account.tracker.list_servers'' FIELD_BOOLEAN 28 False,
   af (Some ''tracker_register_servers'') ''wired.account.tracker.register_servers'' FIELD_BOOLEAN 28 False]"

definition wd_account_fields :: "wd_account_field list" where
  "wd_account_fields = wd_account_user_fields @ wd_account_board_and_file_fields @ wd_account_transfer_and_admin_fields"

definition wd_account_fields_by_protocol_name :: "nat \<Rightarrow> (string, wd_account_field) wi_dictionary" where
  "wd_account_fields_by_protocol_name page =
     fold (\<lambda>f d. wi_dictionary_set d f (af_protocolname f)) wd_account_fields
       (wi_dictionary_init page True 0 wi_string_hash (=) Default_Value_Callbacks)"

subsection \<open>Reading values\<close>

text \<open>
  \<open>wi_number_bool\<close> reads a number as a 32-bit boolean. Called on a value that is not a
  number it reads the string's memory as if it were one; \<open>garbage v\<close> is what that gives.
\<close>

definition wi_number_bool :: "(account_value \<Rightarrow> bool) \<Rightarrow> account_value \<Rightarrow> bool" where
  "wi_number_bool garbage v = (case v of AV_Number n \<Rightarrow> (word_of_int n :: 32 word) \<noteq> 0 | _ \<Rightarrow> garbage v)"

definition wi_number_integer :: "account_value \<Rightarrow> int" where
  "wi_number_integer v = (case v of AV_Number n \<Rightarrow> n | _ \<Rightarrow> 0)"

definition wd_account_string :: "string \<Rightarrow> wd_account \<Rightarrow> string" where
  "wd_account_string f a =
     (case wi_dictionary_data_for_key a f of Some (AV_String s) \<Rightarrow> s | _ \<Rightarrow> [])"

definition wd_account_flag :: "(account_value \<Rightarrow> bool) \<Rightarrow> string \<Rightarrow> wd_account \<Rightarrow> bool" where
  "wd_account_flag garbage f a =
     (case wi_dictionary_data_for_key a f of Some v \<Rightarrow> wi_number_bool garbage v | None \<Rightarrow> False)"

text \<open>The accessors are only used on fields that hold numbers.\<close>

definition wd_account_boolean :: "string \<Rightarrow> wd_account \<Rightarrow> bool" where
  "wd_account_boolean f a = wd_account_flag (\<lambda>_. False) f a"

definition wd_account_number :: "string \<Rightarrow> wd_account \<Rightarrow> int" where
  "wd_account_number f a =
     (case wi_dictionary_data_for_key a f of Some v \<Rightarrow> wi_number_integer v | None \<Rightarrow> 0)"

definition wd_account_nick :: "wd_account \<Rightarrow> string" where
  "wd_account_nick a =
     (let fullname = wd_account_string ''wired.account.full_name'' a
      in if 0 < length fullname then fullname else wd_account_string ''wired.account.name'' a)"

subsection \<open>Groups\<close>

definition wd_account_override_field ::
  "(account_value \<Rightarrow> bool) \<Rightarrow> (string, wd_account_field) wi_dictionary \<Rightarrow> wd_account \<Rightarrow>
    string \<Rightarrow> wd_account \<Rightarrow> wd_account" where
  "wd_account_override_field garbage ftab account2 name account1 =
     (case wi_dictionary_data_for_key ftab name of
        None \<Rightarrow> account1
      | Some f \<Rightarrow>
          if (name \<noteq> ''wired.account.name'' \<and> and (af_account f) FIELD_PRIVILEGE \<noteq> 0) \<or>
             name = ''wired.account.files'' \<or> name = ''wired.account.color'' then
            (case wi_dictionary_data_for_key account1 name of
               None \<Rightarrow>
                 (case wi_dictionary_data_for_key account2 name of
                    Some v \<Rightarrow> wi_dictionary_set account1 v name | None \<Rightarrow> account1)
             | Some v1 \<Rightarrow>
                 if \<not> wi_number_bool garbage v1 then
                   (case wi_dictionary_data_for_key account2 name of
                      Some v \<Rightarrow> wi_dictionary_set account1 v name | None \<Rightarrow> account1)
                 else account1)
          else account1)"

definition wd_account_override_privileges ::
  "(account_value \<Rightarrow> bool) \<Rightarrow> nat \<Rightarrow> wd_account \<Rightarrow> wd_account \<Rightarrow> wd_account" where
  "wd_account_override_privileges garbage page account1 account2 =
     (let ftab = wd_account_fields_by_protocol_name page
      in fold (wd_account_override_field garbage ftab account2) (dict_keys ftab) account1)"

definition wd_accounts_read_user :: "wd_server \<Rightarrow> string \<Rightarrow> wd_account option" where
  "wd_accounts_read_user sv name = (if sv_db_ok sv then map_of (sv_db_users sv) name else None)"

definition wd_accounts_read_group :: "wd_server \<Rightarrow> string \<Rightarrow> wd_account option" where
  "wd_accounts_read_group sv name = (if sv_db_ok sv then map_of (sv_db_groups sv) name else None)"

definition wd_accounts_read_user_and_group ::
  "(account_value \<Rightarrow> bool) \<Rightarrow> wd_server \<Rightarrow> string \<Rightarrow> wd_account option" where
  "wd_accounts_read_user_and_group garbage sv name =
     (case wd_accounts_read_user sv name of
        None \<Rightarrow> None
      | Some useraccount \<Rightarrow>
          let groupname = wd_account_string ''wired.account.group'' useraccount
          in if 0 < length groupname then
               (case wd_accounts_read_group sv groupname of
                  Some groupaccount \<Rightarrow>
                    Some (wd_account_override_privileges garbage (sv_page sv) useraccount groupaccount)
                | None \<Rightarrow> Some useraccount)
             else Some useraccount)"

subsection \<open>The check of an edited account against its editor\<close>

text \<open>
  The result of \<open>wd_account_verify_privileges_for_user\<close>: true, or false with the error
  string, or, for the last, false with the caller's error pointer left unset.
\<close>

datatype wd_verify =
    Verified
  | Tried_To_Increase string int
  | Tried_To_Enable string
  | Files_Outside

fun wd_account_verify_fields ::
  "(account_value \<Rightarrow> bool) \<Rightarrow> (string, wd_account_field) wi_dictionary \<Rightarrow> wd_account \<Rightarrow> wd_account \<Rightarrow>
    string list \<Rightarrow> wd_verify" where
  "wd_account_verify_fields garbage ftab useraccount newaccount [] =
     (let files1 = wd_account_string ''wired.account.files'' useraccount;
          files2 = wd_account_string ''wired.account.files'' newaccount
      in if take (length files1) files2 = files1 then Verified else Files_Outside)"
| "wd_account_verify_fields garbage ftab useraccount newaccount (name # names) =
     (case wi_dictionary_data_for_key ftab name of
        None \<Rightarrow> wd_account_verify_fields garbage ftab useraccount newaccount names
      | Some f \<Rightarrow>
          let instance1 = wi_dictionary_data_for_key useraccount name;
              instance2 = wi_dictionary_data_for_key newaccount name;
              integer1 = (case instance1 of Some v \<Rightarrow> wi_number_integer v | None \<Rightarrow> 0);
              integer2 = (case instance2 of Some v \<Rightarrow> wi_number_integer v | None \<Rightarrow> 0);
              boolean1 = (case instance1 of Some v \<Rightarrow> wi_number_bool garbage v | None \<Rightarrow> False);
              boolean2 = (case instance2 of Some v \<Rightarrow> wi_number_bool garbage v | None \<Rightarrow> False)
          in if and (af_account f) FIELD_PRIVILEGE \<noteq> 0 then
               (if af_type f = FIELD_NUMBER \<and> integer1 > 0 \<and> (integer2 > integer1 \<or> integer2 = 0)
                then Tried_To_Increase name integer2
                else if af_type f = FIELD_BOOLEAN \<and> \<not> boolean1 \<and> boolean2
                then Tried_To_Enable name
                else wd_account_verify_fields garbage ftab useraccount newaccount names)
             else wd_account_verify_fields garbage ftab useraccount newaccount names)"

text \<open>An account with the values its group adds, as the check and the login build it.\<close>

definition wd_account_with_group ::
  "(account_value \<Rightarrow> bool) \<Rightarrow> wd_server \<Rightarrow> wd_account \<Rightarrow> wd_account" where
  "wd_account_with_group garbage sv a =
     (let group = wd_account_string ''wired.account.group'' a
      in if 0 < length group then
           (case wd_accounts_read_group sv group of
              Some groupaccount \<Rightarrow> wd_account_override_privileges garbage (sv_page sv) a groupaccount
            | None \<Rightarrow> a)
         else a)"

definition wd_account_verify_privileges_for_user ::
  "(account_value \<Rightarrow> bool) \<Rightarrow> wd_server \<Rightarrow> wd_account \<Rightarrow> wd_account \<Rightarrow> wd_verify" where
  "wd_account_verify_privileges_for_user garbage sv account useraccount =
     (let newaccount = wd_account_with_group garbage sv (wi_dictionary_copy (sv_page sv) account)
      in if \<not> wd_account_boolean ''wired.account.account.raise_account_privileges'' useraccount then
           let ftab = wd_account_fields_by_protocol_name (sv_page sv)
           in wd_account_verify_fields garbage ftab useraccount newaccount (dict_keys ftab)
         else Verified)"

subsection \<open>Accounts and messages\<close>

text \<open>
  \<open>wi_p7_message_number_for_name\<close> turns a 32-bit unsigned field into a number with
  \<open>wi_number_with_int32\<close>, so values from 2^31 on become negative.
\<close>

definition account_value_of_message :: "wd_account_field_type \<Rightarrow> p7_message \<Rightarrow> string \<Rightarrow> account_value option" where
  "account_value_of_message ty m name =
     (case (ty, p7_field m name) of
        (FIELD_STRING, Some (P7_String s)) \<Rightarrow> Some (AV_String s)
      | (FIELD_DATE, Some (P7_Date d)) \<Rightarrow> Some (AV_Date d)
      | (FIELD_NUMBER, Some (P7_UInt32 w)) \<Rightarrow> Some (AV_Number (sint w))
      | (FIELD_NUMBER, Some (P7_UInt64 w)) \<Rightarrow> Some (AV_Number (sint w))
      | (FIELD_BOOLEAN, Some (P7_Bool b)) \<Rightarrow> Some (AV_Number (if b then 1 else 0))
      | (FIELD_ENUM, Some (P7_Enum s)) \<Rightarrow> Some (AV_String s)
      | (FIELD_LIST, Some (P7_List l)) \<Rightarrow> Some (AV_List l)
      | _ \<Rightarrow> None)"

definition wd_account_read_field ::
  "(string, wd_account_field) wi_dictionary \<Rightarrow> p7_message \<Rightarrow> string \<Rightarrow> wd_account \<Rightarrow> wd_account" where
  "wd_account_read_field ftab m name a =
     (case wi_dictionary_data_for_key ftab name of
        None \<Rightarrow> a
      | Some f \<Rightarrow>
          (case account_value_of_message (af_type f) m name of
             Some v \<Rightarrow> wi_dictionary_set a v name
           | None \<Rightarrow> if \<not> af_required f then wi_dictionary_remove a name else a))"

definition wd_account_read_from_message :: "nat \<Rightarrow> wd_account \<Rightarrow> p7_message \<Rightarrow> wd_account" where
  "wd_account_read_from_message page a m =
     (let ftab = wd_account_fields_by_protocol_name page
      in fold (wd_account_read_field ftab m) (dict_keys ftab) a)"

definition wd_account_init_with_message :: "nat \<Rightarrow> p7_message \<Rightarrow> wd_account" where
  "wd_account_init_with_message page m =
     wd_account_read_from_message page
       (wi_dictionary_init page True 0 wi_string_hash (=) Default_Value_Callbacks) m"

text \<open>
  The type of a number in a message is that of the field in the protocol specification:
  the two byte counts are 64 bits wide, the others 32. A value of another type than its
  field has cannot come from the database or a message and sets no field here.
\<close>

definition account_value_to_message ::
  "wd_account_field_type \<Rightarrow> string \<Rightarrow> bool \<Rightarrow> account_value option \<Rightarrow> p7_value option" where
  "account_value_to_message ty name required v =
     (case (ty, v) of
        (FIELD_STRING, None) \<Rightarrow> if required then Some (P7_String []) else None
      | (FIELD_STRING, Some (AV_String s)) \<Rightarrow> Some (P7_String s)
      | (FIELD_DATE, None) \<Rightarrow> if required then Some (P7_Date 0) else None
      | (FIELD_DATE, Some (AV_Date d)) \<Rightarrow> Some (P7_Date d)
      | (FIELD_NUMBER, None) \<Rightarrow>
          if required then
            (if name = ''wired.account.download_transferred'' \<or> name = ''wired.account.upload_transferred''
             then Some (P7_UInt64 0) else Some (P7_UInt32 0))
          else None
      | (FIELD_NUMBER, Some (AV_Number n)) \<Rightarrow>
          if name = ''wired.account.download_transferred'' \<or> name = ''wired.account.upload_transferred''
          then Some (P7_UInt64 (word_of_int n)) else Some (P7_UInt32 (word_of_int n))
      | (FIELD_BOOLEAN, None) \<Rightarrow> if required then Some (P7_Bool False) else None
      | (FIELD_BOOLEAN, Some (AV_Number n)) \<Rightarrow> Some (P7_Bool ((word_of_int n :: 32 word) \<noteq> 0))
      | (FIELD_ENUM, None) \<Rightarrow> if required then Some (P7_Enum_Value 0) else None
      | (FIELD_ENUM, Some (AV_String s)) \<Rightarrow> Some (P7_Enum s)
      | (FIELD_LIST, None) \<Rightarrow> if required then Some (P7_List []) else None
      | (FIELD_LIST, Some (AV_List l)) \<Rightarrow> Some (P7_List l)
      | _ \<Rightarrow> None)"

definition wd_account_write_to_message ::
  "nat \<Rightarrow> wd_account \<Rightarrow> 32 word \<Rightarrow> (string \<times> p7_value) list" where
  "wd_account_write_to_message page a accounttype =
     (let ftab = wd_account_fields_by_protocol_name page
      in concat (map (\<lambda>name.
           case wi_dictionary_data_for_key ftab name of
             None \<Rightarrow> []
           | Some f \<Rightarrow>
               if and (af_account f) accounttype \<noteq> 0 then
                 opt_field name (\<lambda>v. v)
                   (account_value_to_message (af_type f) name
                      (accounttype = FIELD_PRIVILEGE \<or> af_required f) (wi_dictionary_data_for_key a name))
               else []) (dict_keys ftab)))"

definition wd_account_privileges_message :: "nat \<Rightarrow> wd_account \<Rightarrow> p7_message" where
  "wd_account_privileges_message page a =
     \<lparr>m_name = ''wired.account.privileges'', m_fields = wd_account_write_to_message page a FIELD_PRIVILEGE\<rparr>"

definition wd_account_reply_user_account :: "wd_account \<Rightarrow> 32 word \<Rightarrow> p7_message \<Rightarrow> wd_server \<Rightarrow> wd_server" where
  "wd_account_reply_user_account a uid m sv =
     wd_user_reply_message uid
       \<lparr>m_name = ''wired.account.user'', m_fields = wd_account_write_to_message (sv_page sv) a FIELD_USER\<rparr> m sv"

definition wd_account_reply_group_account :: "wd_account \<Rightarrow> 32 word \<Rightarrow> p7_message \<Rightarrow> wd_server \<Rightarrow> wd_server" where
  "wd_account_reply_group_account a uid m sv =
     wd_user_reply_message uid
       \<lparr>m_name = ''wired.account.group'', m_fields = wd_account_write_to_message (sv_page sv) a FIELD_GROUP\<rparr> m sv"

subsection \<open>The field table\<close>

lemma wd_account_fields_keyed:
  assumes "0 < page"
  shows "dict_keyed (=) (wd_account_fields_by_protocol_name page)"
    and "wi_dictionary_data_for_key (wd_account_fields_by_protocol_name page) name =
      map_of (rev (map (\<lambda>f. (af_protocolname f, f)) wd_account_fields)) name"
proof -
  let ?d = "wi_dictionary_init page True 0 wi_string_hash (=) Default_Value_Callbacks :: (string, wd_account_field) wi_dictionary"
  let ?bs = "map (\<lambda>f. (af_protocolname f, f)) wd_account_fields"
  have d: "dict_keyed (=) ?d" using assms by (rule dict_keyed_init)
  have fold: "wd_account_fields_by_protocol_name page = fold (\<lambda>b d. wi_dictionary_set d (snd b) (fst b)) ?bs ?d"
    by (simp add: wd_account_fields_by_protocol_name_def fold_map comp_def)
  show "dict_keyed (=) (wd_account_fields_by_protocol_name page)"
    using dict.fold_put [OF d, of ?bs] by (simp only: fold)
  show "wi_dictionary_data_for_key (wd_account_fields_by_protocol_name page) name = map_of (rev ?bs) name"
    using dict.fold_put [OF d, of ?bs name] assms
    by (simp add: fold chain_find_map_of split: option.split)
qed

lemma wd_account_fields_name:
  assumes "0 < page" and "wi_dictionary_data_for_key (wd_account_fields_by_protocol_name page) name = Some f"
  shows "af_protocolname f = name" and "f \<in> set wd_account_fields"
  using map_of_SomeD [OF assms(2) [unfolded wd_account_fields_keyed(2) [OF assms(1)]]] by auto

lemma dict_keys_fields:
  assumes "0 < page"
  shows "distinct (dict_keys (wd_account_fields_by_protocol_name page))"
    and "name \<in> set (dict_keys (wd_account_fields_by_protocol_name page)) \<longleftrightarrow>
      wi_dictionary_data_for_key (wd_account_fields_by_protocol_name page) name \<noteq> None"
  using dict_keys_entries(2,3) [OF wd_account_fields_keyed(1) [OF assms]] by (auto simp: dom_def)

subsection \<open>Overriding, reading and verifying, field by field\<close>

definition overridable :: "(string, wd_account_field) wi_dictionary \<Rightarrow> string \<Rightarrow> bool" where
  "overridable ftab name \<longleftrightarrow>
     (case wi_dictionary_data_for_key ftab name of
        None \<Rightarrow> False
      | Some f \<Rightarrow> (name \<noteq> ''wired.account.name'' \<and> and (af_account f) FIELD_PRIVILEGE \<noteq> 0) \<or>
          name = ''wired.account.files'' \<or> name = ''wired.account.color'')"

definition override_value ::
  "(account_value \<Rightarrow> bool) \<Rightarrow> account_value option \<Rightarrow> account_value option \<Rightarrow> account_value option" where
  "override_value garbage v1 v2 =
     (case v1 of None \<Rightarrow> v2
      | Some v \<Rightarrow> if wi_number_bool garbage v \<or> v2 = None then Some v else v2)"

lemma wd_account_override_field:
  assumes "dict_keyed (=) a"
  shows "dict_keyed (=) (wd_account_override_field garbage ftab a2 k a) \<and>
    (\<forall>k'. wi_dictionary_data_for_key (wd_account_override_field garbage ftab a2 k a) k' =
      (if k' = k then
         (if overridable ftab k
          then override_value garbage (wi_dictionary_data_for_key a k) (wi_dictionary_data_for_key a2 k)
          else wi_dictionary_data_for_key a k)
       else wi_dictionary_data_for_key a k'))"
proof (cases "overridable ftab k")
  case False
  then have "wd_account_override_field garbage ftab a2 k a = a"
    by (cases "wi_dictionary_data_for_key ftab k") (simp_all only: overridable_def wd_account_override_field_def
      option.case if_False)
  with False assms show ?thesis by simp
next
  case True
  then obtain f where f: "wi_dictionary_data_for_key ftab k = Some f"
    by (cases "wi_dictionary_data_for_key ftab k") (simp_all add: overridable_def)
  have "wd_account_override_field garbage ftab a2 k a =
      (if (case wi_dictionary_data_for_key a k of Some v \<Rightarrow> wi_number_bool garbage v | None \<Rightarrow> False) then a
       else case wi_dictionary_data_for_key a2 k of Some v \<Rightarrow> wi_dictionary_set a v k | None \<Rightarrow> a)"
    using True unfolding overridable_def wd_account_override_field_def f option.case
    by (cases "wi_dictionary_data_for_key a k") simp_all
  then show ?thesis
    using True assms dict.ok_put [OF assms] dict.lookup_put [OF assms]
    by (cases "wi_dictionary_data_for_key a k"; cases "wi_dictionary_data_for_key a2 k")
      (simp_all add: override_value_def)
qed

lemma wd_account_override_privileges:
  assumes "0 < page" and "dict_keyed (=) a"
  shows "dict_keyed (=) (wd_account_override_privileges garbage page a a2)"
    and "wi_dictionary_data_for_key (wd_account_override_privileges garbage page a a2) name =
      (if overridable (wd_account_fields_by_protocol_name page) name
       then override_value garbage (wi_dictionary_data_for_key a name) (wi_dictionary_data_for_key a2 name)
       else wi_dictionary_data_for_key a name)"
proof -
  let ?F = "wd_account_fields_by_protocol_name page"
  note p = dict.fold_pointwise [where eq = "(=)" and g = "wd_account_override_field garbage ?F a2"
      and h = "\<lambda>k v. if overridable ?F k then override_value garbage v (wi_dictionary_data_for_key a2 k) else v",
      OF wd_account_override_field assms(2) dict_keys_fields(1) [OF assms(1)]]
  show "dict_keyed (=) (wd_account_override_privileges garbage page a a2)"
    using p by (simp add: wd_account_override_privileges_def Let_def)
  show "wi_dictionary_data_for_key (wd_account_override_privileges garbage page a a2) name =
      (if overridable ?F name
       then override_value garbage (wi_dictionary_data_for_key a name) (wi_dictionary_data_for_key a2 name)
       else wi_dictionary_data_for_key a name)"
    using p dict_keys_fields(2) [OF assms(1), of name]
    by (auto simp: wd_account_override_privileges_def Let_def overridable_def split: option.splits)
qed

lemma wd_account_with_group_keyed:
  assumes "0 < sv_page sv" and "dict_keyed (=) a"
  shows "dict_keyed (=) (wd_account_with_group garbage sv a)"
  using assms by (auto simp: wd_account_with_group_def Let_def wd_account_override_privileges(1) split: option.split)

lemma wd_account_verify_fields_iff:
  "wd_account_verify_fields garbage ftab user new names = Verified \<longleftrightarrow>
    (\<forall>name \<in> set names. \<forall>f. wi_dictionary_data_for_key ftab name = Some f \<longrightarrow>
       and (af_account f) FIELD_PRIVILEGE \<noteq> 0 \<longrightarrow>
       (af_type f = FIELD_NUMBER \<longrightarrow> wd_account_number name user > 0 \<longrightarrow>
          wd_account_number name new \<le> wd_account_number name user \<and> wd_account_number name new \<noteq> 0) \<and>
       (af_type f = FIELD_BOOLEAN \<longrightarrow> wd_account_flag garbage name new \<longrightarrow> wd_account_flag garbage name user)) \<and>
    take (length (wd_account_string ''wired.account.files'' user)) (wd_account_string ''wired.account.files'' new) =
      wd_account_string ''wired.account.files'' user"
proof (induction names)
  case (Cons name names)
  let ?i1 = "wd_account_number name user" and ?i2 = "wd_account_number name new"
  have n: "(case wi_dictionary_data_for_key a name of Some v \<Rightarrow> wi_number_integer v | None \<Rightarrow> 0) = wd_account_number name a" for a
    by (simp add: wd_account_number_def)
  have b: "(case wi_dictionary_data_for_key a name of Some v \<Rightarrow> wi_number_bool garbage v | None \<Rightarrow> False) = wd_account_flag garbage name a" for a
    by (simp add: wd_account_flag_def)
  show ?case
    by (cases "wi_dictionary_data_for_key ftab name")
      (auto simp: Let_def n b Cons.IH simp del: One_nat_def split: if_splits)
qed (simp add: Let_def)

lemma wd_account_read_field:
  assumes "dict_keyed (=) a"
  shows "dict_keyed (=) (wd_account_read_field ftab m k a) \<and>
    (\<forall>k'. wi_dictionary_data_for_key (wd_account_read_field ftab m k a) k' =
      (if k' = k then
         (case wi_dictionary_data_for_key ftab k of
            None \<Rightarrow> wi_dictionary_data_for_key a k
          | Some f \<Rightarrow> (case account_value_of_message (af_type f) m k of
               Some v \<Rightarrow> Some v
             | None \<Rightarrow> if af_required f then wi_dictionary_data_for_key a k else None))
       else wi_dictionary_data_for_key a k'))"
  by (auto simp: wd_account_read_field_def assms dict.ok_put [OF assms] dict.lookup_put [OF assms]
      dict.ok_del [OF assms] dict.lookup_del [OF assms] split: option.splits)

lemma wd_account_read_from_message:
  assumes "0 < page" and "dict_keyed (=) a"
  shows "dict_keyed (=) (wd_account_read_from_message page a m)"
    and "wi_dictionary_data_for_key (wd_account_read_from_message page a m) name =
      (case wi_dictionary_data_for_key (wd_account_fields_by_protocol_name page) name of
         None \<Rightarrow> wi_dictionary_data_for_key a name
       | Some f \<Rightarrow> (case account_value_of_message (af_type f) m name of
            Some v \<Rightarrow> Some v
          | None \<Rightarrow> if af_required f then wi_dictionary_data_for_key a name else None))"
proof -
  let ?F = "wd_account_fields_by_protocol_name page"
  note p = dict.fold_pointwise [where eq = "(=)" and g = "wd_account_read_field ?F m"
      and h = "\<lambda>k v. case wi_dictionary_data_for_key ?F k of None \<Rightarrow> v
         | Some f \<Rightarrow> (case account_value_of_message (af_type f) m k of
              Some w \<Rightarrow> Some w | None \<Rightarrow> if af_required f then v else None)",
      OF wd_account_read_field assms(2) dict_keys_fields(1) [OF assms(1)]]
  show "dict_keyed (=) (wd_account_read_from_message page a m)"
    using p by (simp add: wd_account_read_from_message_def Let_def)
  show "wi_dictionary_data_for_key (wd_account_read_from_message page a m) name =
      (case wi_dictionary_data_for_key ?F name of
         None \<Rightarrow> wi_dictionary_data_for_key a name
       | Some f \<Rightarrow> (case account_value_of_message (af_type f) m name of
            Some v \<Rightarrow> Some v
          | None \<Rightarrow> if af_required f then wi_dictionary_data_for_key a name else None))"
    using p dict_keys_fields(2) [OF assms(1), of name]
    by (auto simp: wd_account_read_from_message_def Let_def split: option.splits)
qed

lemma wd_account_fields_lookup:
  assumes "0 < page"
  shows "wi_dictionary_data_for_key (wd_account_fields_by_protocol_name page) ''wired.account.user.get_info'' =
      Some (af (Some ''user_get_info'') ''wired.account.user.get_info'' FIELD_BOOLEAN 28 False)"
    and "wi_dictionary_data_for_key (wd_account_fields_by_protocol_name page) ''wired.account.transfer.download_speed_limit'' =
      Some (af (Some ''transfer_download_speed_limit'') ''wired.account.transfer.download_speed_limit'' FIELD_NUMBER 28 False)"
    and "wi_dictionary_data_for_key (wd_account_fields_by_protocol_name page) ''wired.account.files'' =
      Some (af (Some ''files'') ''wired.account.files'' FIELD_STRING 12 False)"
  unfolding wd_account_fields_keyed(2) [OF assms] by code_simp+

subsection \<open>Properties\<close>

text \<open>
  C28: What a user gets from its group. For every privilege field but the name, a boolean
  of the completed account holds when it holds in the user's own account or in the
  group's, and a number is the user's own unless that is zero or missing and the group
  has one. Fields that are not overridable keep the user's value. Whatever
  \<open>wi_number_bool\<close> makes of a string has no influence on these fields.
\<close>
theorem wd_account_group_completes_privileges:
  assumes "0 < page" and "dict_keyed (=) a"
    and "wi_dictionary_data_for_key (wd_account_fields_by_protocol_name page) name = Some f"
    and "name \<noteq> ''wired.account.name''" and "and (af_account f) FIELD_PRIVILEGE \<noteq> 0"
    and "\<forall>v. wi_dictionary_data_for_key a name = Some v \<longrightarrow> (\<exists>n. v = AV_Number n)"
  shows "let e = wd_account_override_privileges garbage page a g in
    (wd_account_boolean name e \<longleftrightarrow> wd_account_boolean name a \<or> wd_account_boolean name g) \<and>
    wd_account_number name e =
      (if wd_account_boolean name a \<or> wi_dictionary_data_for_key g name = None
       then wd_account_number name a else wd_account_number name g) \<and>
    (\<forall>k. \<not> overridable (wd_account_fields_by_protocol_name page) k \<longrightarrow>
       wi_dictionary_data_for_key e k = wi_dictionary_data_for_key a k)"
proof -
  have o: "overridable (wd_account_fields_by_protocol_name page) name"
    using assms(3-5) by (simp add: overridable_def)
  note e = wd_account_override_privileges(2) [OF assms(1,2), of garbage g]
  from e [of name] o have en: "wi_dictionary_data_for_key (wd_account_override_privileges garbage page a g) name =
      override_value garbage (wi_dictionary_data_for_key a name) (wi_dictionary_data_for_key g name)" by simp
  have rest: "\<forall>k. \<not> overridable (wd_account_fields_by_protocol_name page) k \<longrightarrow>
      wi_dictionary_data_for_key (wd_account_override_privileges garbage page a g) k = wi_dictionary_data_for_key a k"
    by (simp add: e)
  note defs = wd_account_boolean_def wd_account_flag_def wd_account_number_def override_value_def
  show ?thesis
  proof (cases "wi_dictionary_data_for_key a name")
    case None
    with rest en show ?thesis
      by (cases "wi_dictionary_data_for_key g name") (simp_all only: Let_def, simp_all add: defs)
  next
    case (Some v)
    with assms(6) obtain n where "v = AV_Number n" by blast
    with Some rest en show ?thesis
      by (cases "wi_dictionary_data_for_key g name")
        (simp_all only: Let_def, simp_all add: defs wi_number_bool_def)
  qed
qed

theorem wd_account_group_completes_privileges_witness:
  "let name = ''wired.account.user.get_info'';
       a = wi_dictionary_init 4 True 0 wi_string_hash (=) Default_Value_Callbacks;
       g = wi_dictionary_set a (AV_Number 1) name
   in wd_account_boolean name (wd_account_override_privileges (\<lambda>_. False) 4 a g)"
proof -
  let ?a = "wi_dictionary_init 4 True 0 wi_string_hash (=) Default_Value_Callbacks :: wd_account"
  let ?n = "''wired.account.user.get_info''"
  have a: "dict_keyed (=) ?a" by (simp add: dict_keyed_init)
  have p: "0 < (4::nat)" by simp
  note h = wd_account_group_completes_privileges [OF p a wd_account_fields_lookup(1) [OF p], where garbage = "\<lambda>_. False"
      and g = "wi_dictionary_set ?a (AV_Number 1) ?n"]
  have "wd_account_boolean ?n (wi_dictionary_set ?a (AV_Number 1) ?n)"
    by (simp add: wd_account_boolean_def wd_account_flag_def dict.lookup_put [OF a] wi_number_bool_def)
  with h show ?thesis by (simp add: FIELD_PRIVILEGE_def Let_def)
qed

text \<open>
  C19: An editor without the privilege to raise privileges cannot hand out what it does
  not have. When the check of an account passes, then in the account as it will be
  effective with its group every boolean privilege that is set is one the editor has,
  every limit is a number other than zero and at most the editor's wherever the editor
  has a positive one, and the files root has the editor's as a prefix. The check accepts
  every account for which this holds.
\<close>
theorem wd_account_verify_iff:
  assumes "0 < sv_page sv"
    and "\<not> wd_account_boolean ''wired.account.account.raise_account_privileges'' editor"
  shows "wd_account_verify_privileges_for_user garbage sv account editor = Verified \<longleftrightarrow>
    (let new = wd_account_with_group garbage sv (wi_dictionary_copy (sv_page sv) account);
         root = wd_account_string ''wired.account.files'' editor
     in (\<forall>name f. wi_dictionary_data_for_key (wd_account_fields_by_protocol_name (sv_page sv)) name = Some f \<longrightarrow>
          and (af_account f) FIELD_PRIVILEGE \<noteq> 0 \<longrightarrow>
          (af_type f = FIELD_BOOLEAN \<longrightarrow> wd_account_flag garbage name new \<longrightarrow> wd_account_flag garbage name editor) \<and>
          (af_type f = FIELD_NUMBER \<longrightarrow> wd_account_number name editor > 0 \<longrightarrow>
             wd_account_number name new \<noteq> 0 \<and> wd_account_number name new \<le> wd_account_number name editor)) \<and>
        take (length root) (wd_account_string ''wired.account.files'' new) = root)"
proof -
  let ?F = "wd_account_fields_by_protocol_name (sv_page sv)"
  let ?new = "wd_account_with_group garbage sv (wi_dictionary_copy (sv_page sv) account)"
  have v: "wd_account_verify_privileges_for_user garbage sv account editor =
      wd_account_verify_fields garbage ?F editor ?new (dict_keys ?F)"
    using assms(2) by (simp add: wd_account_verify_privileges_for_user_def Let_def)
  have keys: "name \<in> set (dict_keys ?F)" if "wi_dictionary_data_for_key ?F name = Some f" for name f
    using dict_keys_fields(2) [OF assms(1), of name] that by simp
  show ?thesis
    unfolding v wd_account_verify_fields_iff Let_def
    by (intro conj_cong refl iffI; use keys in blast)
qed

theorem wd_account_verify_iff_witness:
  "let a = wi_dictionary_init 4 True 0 wi_string_hash (=) Default_Value_Callbacks
   in wd_account_verify_privileges_for_user (\<lambda>_. False) (wd_server_start 4)
        (wi_dictionary_set a (AV_Number 1) ''wired.account.user.get_info'') a \<noteq> Verified"
proof -
  let ?a = "wi_dictionary_init 4 True 0 wi_string_hash (=) Default_Value_Callbacks :: wd_account"
  let ?b = "wi_dictionary_set ?a (AV_Number 1) ''wired.account.user.get_info''"
  have p: "0 < sv_page (wd_server_start 4)" "0 < (4::nat)" by (simp_all add: wd_server_start_def)
  have a: "dict_keyed (=) ?a" by (simp add: dict_keyed_init)
  have b: "dict_keyed (=) ?b" by (rule dict.ok_put [OF a])
  have e: "\<not> wd_account_boolean ''wired.account.account.raise_account_privileges'' ?a"
    "\<not> wd_account_flag (\<lambda>_. False) ''wired.account.user.get_info'' ?a"
    by (simp_all add: wd_account_boolean_def wd_account_flag_def)
  have copy: "wd_account_with_group (\<lambda>_. False) (wd_server_start 4) (wi_dictionary_copy 4 ?b) = wi_dictionary_copy 4 ?b"
    by (simp add: wd_account_with_group_def wd_account_string_def wi_dictionary_copy(2) [OF b] dict.lookup_put [OF a])
  have "wd_account_flag (\<lambda>_. False) ''wired.account.user.get_info'' (wi_dictionary_copy 4 ?b)"
    by (simp add: wd_account_flag_def wi_dictionary_copy(2) [OF b] dict.lookup_put [OF a] wi_number_bool_def)
  moreover have page: "sv_page (wd_server_start 4) = 4" by (simp add: wd_server_start_def)
  have "wd_account_flag (\<lambda>_. False) ''wired.account.user.get_info'' ?a"
    if "wd_account_verify_privileges_for_user (\<lambda>_. False) (wd_server_start 4) ?b ?a = Verified"
      and "wd_account_flag (\<lambda>_. False) ''wired.account.user.get_info'' (wi_dictionary_copy 4 ?b)"
  proof -
    note all = that(1) [unfolded wd_account_verify_iff [OF p(1) e(1)] Let_def page copy, THEN conjunct1, THEN spec, THEN spec,
        THEN mp, OF wd_account_fields_lookup(1) [OF p(2)]]
    from all show ?thesis using that(2) by (simp add: FIELD_PRIVILEGE_def)
  qed
  ultimately have "\<not> wd_account_verify_privileges_for_user (\<lambda>_. False) (wd_server_start 4) ?b ?a = Verified"
    using e(2) by blast
  then show ?thesis by (simp add: Let_def)
qed

text \<open>
  C29: The check does not bound limits from 2^31 on. A limit arrives as an unsigned 32-bit
  number and is stored as a signed one, so it counts as negative and passes against any
  positive limit of the editor; read back through the unsigned accessor it is larger than
  every limit the editor can have.
\<close>
theorem wd_account_limit_wraps:
  assumes "0 < sv_page sv"
    and "wi_dictionary_data_for_key (wd_account_fields_by_protocol_name (sv_page sv)) name = Some f"
    and "af_type f = FIELD_NUMBER" and "dict_keyed (=) account"
    and "p7_field m name = Some (P7_UInt32 w)" and "2 ^ 31 \<le> uint w"
    and "0 < wd_account_number name editor" and "wd_account_number name editor < 2 ^ 31"
  shows "let new = wd_account_read_from_message (sv_page sv) account m
    in wd_account_verify_fields garbage (wd_account_fields_by_protocol_name (sv_page sv)) editor new (name # names) =
         wd_account_verify_fields garbage (wd_account_fields_by_protocol_name (sv_page sv)) editor new names \<and>
       wd_account_number name editor < uint (word_of_int (wd_account_number name new) :: 64 word)"
proof -
  let ?new = "wd_account_read_from_message (sv_page sv) account m"
  have v: "wi_dictionary_data_for_key ?new name = Some (AV_Number (sint w))"
    using assms(2,3,5) by (simp add: wd_account_read_from_message(2) [OF assms(1,4)] account_value_of_message_def)
  have "sint w = (uint w + 2 ^ 31) mod 2 ^ 32 - 2 ^ 31"
    by (simp add: sint_uint signed_take_bit_eq_take_bit_shift take_bit_eq_mod)
  moreover have lt: "uint w < 2 ^ 32" using uint_lt2p [of w] by simp
  moreover have "(uint w + 2 ^ 31) mod 2 ^ 32 = uint w + 2 ^ 31 - 2 ^ 32"
    using assms(6) lt by (subst mod_pos_geq) (simp_all add: mod_pos_pos_trivial)
  ultimately have w: "sint w = uint w - 2 ^ 32" "uint w < 2 ^ 32" by simp_all
  have "uint (word_of_int (sint w) :: 64 word) = (uint w - 2 ^ 32) mod 2 ^ 64"
    by (simp only: uint_word_of_int w(1)) simp
  also have "\<dots> = uint w - 2 ^ 32 + 2 ^ 64"
    using assms(6) w(2) by (subst mod_add_self2 [symmetric], subst mod_pos_pos_trivial) simp_all
  finally have big: "2 ^ 31 < uint (word_of_int (sint w) :: 64 word)" using assms(6) by simp
  have number: "wd_account_number name ?new = sint w"
    by (simp add: wd_account_number_def v wi_number_integer_def)
  have editor: "wi_number_integer v = wd_account_number name editor" if "wi_dictionary_data_for_key editor name = Some v" for v
    using that by (simp add: wd_account_number_def)
  show ?thesis
    using assms(2,3,7,8) w big number v assms(6)
    by (auto simp: Let_def wd_account_number_def wi_number_integer_def split: option.splits)
qed

theorem wd_account_limit_wraps_witness:
  "let name = ''wired.account.transfer.download_speed_limit'';
       a = wi_dictionary_init 4 True 0 wi_string_hash (=) Default_Value_Callbacks;
       editor = wi_dictionary_set a (AV_Number 1000) name;
       new = wd_account_read_from_message 4 a \<lparr>m_name = [], m_fields = [(name, P7_UInt32 (2 ^ 31))]\<rparr>
   in wd_account_number name editor < uint (word_of_int (wd_account_number name new) :: 64 word)"
proof -
  let ?n = "''wired.account.transfer.download_speed_limit''"
  let ?a = "wi_dictionary_init 4 True 0 wi_string_hash (=) Default_Value_Callbacks :: wd_account"
  let ?m = "\<lparr>m_name = [], m_fields = [(?n, P7_UInt32 (2 ^ 31))]\<rparr>"
  have page: "sv_page (wd_server_start 4) = 4" by (simp add: wd_server_start_def)
  have p: "0 < sv_page (wd_server_start 4)" "0 < (4::nat)" by (simp_all add: page)
  have a: "dict_keyed (=) ?a" by (simp add: dict_keyed_init)
  have editor: "wd_account_number ?n (wi_dictionary_set ?a (AV_Number 1000) ?n) = 1000"
    by (simp add: wd_account_number_def dict.lookup_put [OF a] wi_number_integer_def)
  note f = wd_account_fields_lookup(2) [OF p(1)]
  have m: "p7_field ?m ?n = Some (P7_UInt32 (2 ^ 31))" by (simp add: p7_field_def)
  have "af_type (af (Some ''transfer_download_speed_limit'') ?n FIELD_NUMBER 28 False) = FIELD_NUMBER"
    "(2::int) ^ 31 \<le> uint (2 ^ 31 :: 32 word)"
    "0 < wd_account_number ?n (wi_dictionary_set ?a (AV_Number 1000) ?n)"
    "wd_account_number ?n (wi_dictionary_set ?a (AV_Number 1000) ?n) < 2 ^ 31"
    by (simp_all add: editor)
  from wd_account_limit_wraps [OF p(1) f this(1) a m this(2-4)] show ?thesis
    by (simp add: Let_def page)
qed

end
