(* ===== verification/Wd_Files.thy ===== *)
theory Wd_Files
  imports Wd_Accounts Wi_String
begin

text \<open>
  The paths that clients send (files.c): the check that a handler of a file message makes
  first, the normalisation that follows, and the path on the server's disk. The file
  operations themselves are not modelled.
\<close>

definition wd_files_path_is_valid :: "string \<Rightarrow> bool" where
  "wd_files_path_is_valid path =
     (if wi_string_has_prefix path ''.'' then False
      else if wi_string_contains_string path ''/..'' then False
      else if wi_string_contains_string path ''../'' then False
      else True)"

definition wd_files_account_path :: "wd_account option \<Rightarrow> string" where
  "wd_files_account_path account = (case account of Some a \<Rightarrow> wd_account_string ''wired.account.files'' a | None \<Rightarrow> [])"

definition wd_files_virtual_path :: "wi_passwd \<Rightarrow> string \<Rightarrow> wd_account option \<Rightarrow> string wi_checked" where
  "wd_files_virtual_path home path account =
     (let accountpath = wd_files_account_path account
      in if length accountpath > 0 then wi_string_by_normalizing_path home (accountpath @ ''/'' @ path)
         else Inr path)"

definition wd_files_real_path :: "string \<Rightarrow> string \<Rightarrow> wd_account option \<Rightarrow> string" where
  "wd_files_real_path files path account =
     (let accountpath = wd_files_account_path account
      in if length accountpath > 0 then files @ ''/'' @ accountpath @ ''/'' @ path
         else files @ ''/'' @ path)"

subsection \<open>Two dots\<close>

lemma join_append:
  "xs \<noteq> [] \<Longrightarrow> ys \<noteq> [] \<Longrightarrow>
     wi_components_joined_by_string (xs @ ys) sep = wi_components_joined_by_string xs sep @ sep @ wi_components_joined_by_string ys sep"
  by (induction xs sep rule: wi_components_joined_by_string.induct) (auto simp: join_Cons)

lemma component_position:
  assumes "t \<in> set (wi_string_components_separated_by_string s [c])"
  shows "(\<exists>b. s = t @ b) \<or> (\<exists>a b. s = a @ c # t @ b)"
proof -
  from assms obtain xs ys where x: "wi_string_components_separated_by_string s [c] = xs @ t # ys"
    by (auto simp: in_set_conv_decomp)
  have s: "s = wi_components_joined_by_string (xs @ t # ys) [c]" using join_split [of s c] by (simp add: x)
  have h: "\<exists>b. wi_components_joined_by_string (t # ys) [c] = t @ b" by (cases ys) auto
  show ?thesis
  proof (cases "xs = []")
    case True
    with s h show ?thesis by auto
  next
    case False
    with s h obtain b where "s = wi_components_joined_by_string xs [c] @ c # t @ b" by (auto simp: join_append)
    then show ?thesis by blast
  qed
qed

lemma valid_path_no_dots:
  assumes "wd_files_path_is_valid path"
  shows "''..'' \<notin> set (path_parts path)"
proof
  assume "''..'' \<in> set (path_parts path)"
  then have "''..'' \<in> set (wi_string_components_separated_by_string path [CHR ''/''])" by (simp add: path_parts_def)
  from component_position [OF this] show False
  proof (elim disjE exE)
    fix b assume "path = ''..'' @ b"
    with assms show False by (simp add: wd_files_path_is_valid_def wi_string_has_prefix_def)
  next
    fix a b assume "path = a @ CHR ''/'' # ''..'' @ b"
    then have "\<exists>a b. path = a @ ''/..'' @ b" by auto
    then have "wi_string_contains_string path ''/..''" by (simp only: wi_string_contains_iff list.distinct not_False_eq_True)
    with assms show False by (simp only: wd_files_path_is_valid_def if_True if_cancel simp_thms split: if_splits)
  qed
qed

lemma normalized_parts:
  assumes "wi_string_by_normalizing_path home path = Inr q"
    and "\<And>h. getpwuid_dir home = Some h \<Longrightarrow> ''..'' \<notin> set (path_parts h)" and "''..'' \<notin> set (path_parts path)"
  shows "''..'' \<notin> set (path_parts q)"
proof -
  obtain p where p: "wi_expand_tilde home path = Inr p"
    using assms(1) by (cases "wi_expand_tilde home path") (auto simp: wi_normalize_parts)
  have "''..'' \<notin> set (path_parts p)"
  proof (cases "wi_string_has_prefix path ''~'' \<and> getpwuid_dir home \<noteq> None")
    case False
    with p have "p = path" by (auto simp: wi_expand_tilde Let_def split: if_splits option.splits)
    with assms(3) show ?thesis by simp
  next
    case True
    then obtain h r where h: "getpwuid_dir home = Some h" and r: "path = CHR ''~'' # r"
      by (cases path) (auto simp: wi_string_has_prefix_def)
    have l: "length (hd (wi_string_path_components path)) = 1"
      using p True by (auto simp: wi_expand_tilde Let_def split: if_splits)
    then have "p = h @ r" using p True by (simp add: wi_expand_tilde Let_def h r)
    moreover have "r = [] \<or> (\<exists>r'. r = CHR ''/'' # r')"
    proof (cases r)
      case (Cons c r')
      then show ?thesis using l by (auto simp: wi_string_path_components_def r split_Cons Let_def split: if_splits)
    qed simp
    moreover have "set (path_parts r) \<subseteq> set (path_parts path)" if "r = CHR ''/'' # r'" for r'
      using path_parts_append [of "''~''" r'] by (simp add: r that)
    ultimately show ?thesis using assms(2) [OF h] assms(3) by (auto simp: path_parts_append)
  qed
  then have "''..'' \<notin> set (normalize_spec a [] (path_parts p))" for a
    using normalize_spec_subset [of a "[]" "path_parts p"] by auto
  moreover have "path_parts q = normalize_spec (wi_string_has_prefix p ''/'') [] (path_parts p)"
    using assms(1) by (auto simp: wi_normalize_parts p Let_def path_parts_join [OF normalized_plain] split: if_splits)
  ultimately show ?thesis by simp
qed

subsection \<open>Properties\<close>

text \<open>
  C23: A path that passes the check and is then normalised cannot climb out of the shared
  directory: the components of the path on disk are those of the shared directory, those
  of the account's own directory and those of the normalised path, and the last have no
  two dots.
\<close>
theorem wd_files_real_path_contained:
  assumes "wd_files_path_is_valid path" and "wi_string_by_normalizing_path home path = Inr q"
    and "\<And>h. getpwuid_dir home = Some h \<Longrightarrow> ''..'' \<notin> set (path_parts h)"
  shows "path_parts (wd_files_real_path files q account) =
      path_parts files @ path_parts (wd_files_account_path account) @ path_parts q \<and>
    ''..'' \<notin> set (path_parts q)"
  using normalized_parts [OF assms(2,3) valid_path_no_dots [OF assms(1)]]
  by (auto simp: wd_files_real_path_def Let_def path_parts_append)

theorem wd_files_real_path_contained_witness:
  "path_parts (wd_files_real_path ''/srv/files'' ''/a/b'' None) = [''srv'', ''files'', ''a'', ''b'']"
proof -
  have v: "wd_files_path_is_valid ''/a/./b''"
    by (simp add: wd_files_path_is_valid_def wi_string_has_prefix_def wi_string_contains_string_def
        wi_string_index_of_string_def)
  have p: "path_parts ''a/./b'' = [''a'', ''.'', ''b'']" "path_parts ''a/b'' = [''a'', ''b'']"
    "path_parts ''srv/files'' = [''srv'', ''files'']" by (simp_all add: path_parts_def split_Cons)
  have "wi_string_by_normalizing_path no_passwd ''/a/./b'' = Inr ''/a/b''"
    by (simp add: wi_normalize_parts wi_expand_tilde_other wi_string_has_prefix_def Let_def p)
  from wd_files_real_path_contained [OF v this, of "''/srv/files''" None] show ?thesis
    by (simp add: p wd_files_account_path_def no_passwd_def)
qed

end
