(* ===== verification/Wd_Chats.thy ===== *)
theory Wd_Chats
  imports Wd_State
begin

text \<open>
  Chats (chats.c): the public chat with id 1, private chats with the next free ids, their
  users, invitations and topics. A chat object is named by its id; the object
  \<open>wd_public_chat\<close> is the chat with id 1, which only differs after 2^32 private chats.
\<close>

definition WD_PUBLIC_CHAT_ID :: "32 word" where "WD_PUBLIC_CHAT_ID = 1"

subsection \<open>Chats\<close>

definition wd_chat_init :: "nat \<Rightarrow> 32 word \<Rightarrow> wd_chat" where
  "wd_chat_init page cid =
     \<lparr>c_id = cid, c_topic = None, c_users = [],
      c_invited_users = wi_set_init page True 0 False wi_number_hash (=)\<rparr>"

definition wd_chats_add_chat :: "wd_chat \<Rightarrow> wd_server \<Rightarrow> wd_server" where
  "wd_chats_add_chat c sv = sv\<lparr>sv_chats := wi_dictionary_set (sv_chats sv) c (c_id c)\<rparr>"

definition wd_chats_initialize :: "wd_server \<Rightarrow> wd_server" where
  "wd_chats_initialize sv =
     (let sv = sv\<lparr>sv_chats := wi_dictionary_init (sv_page sv) True 0 wi_number_hash (=) Default_Value_Callbacks,
                  sv_chats_current_id := WD_PUBLIC_CHAT_ID\<rparr>;
          c = (wd_chat_init (sv_page sv) WD_PUBLIC_CHAT_ID)\<lparr>c_topic := sv_topic sv\<rparr>
      in wd_chats_add_chat c sv)"

definition wd_chat_next_id :: "wd_server \<Rightarrow> 32 word \<times> wd_server" where
  "wd_chat_next_id sv =
     (let cid = sv_chats_current_id sv + 1 in (cid, sv\<lparr>sv_chats_current_id := cid\<rparr>))"

definition wd_chat_init_private_chat :: "wd_server \<Rightarrow> wd_chat \<times> wd_server" where
  "wd_chat_init_private_chat sv =
     (let (cid, sv') = wd_chat_next_id sv in (wd_chat_init (sv_page sv) cid, sv'))"

definition wd_chats_chat_with_id :: "wd_server \<Rightarrow> 32 word \<Rightarrow> wd_chat option" where
  "wd_chats_chat_with_id sv cid = wi_dictionary_data_for_key (sv_chats sv) cid"

definition wd_chat_contains_user :: "wd_chat \<Rightarrow> 32 word \<Rightarrow> bool" where
  "wd_chat_contains_user c uid \<longleftrightarrow> uid \<in> set (c_users c)"

definition wd_chats_chats_with_user :: "wd_server \<Rightarrow> 32 word \<Rightarrow> wd_chat list" where
  "wd_chats_chats_with_user sv uid = filter (\<lambda>c. wd_chat_contains_user c uid) (dict_values (sv_chats sv))"

definition wd_chats_remove_user_from :: "32 word \<Rightarrow> 32 word \<Rightarrow> wd_server \<Rightarrow> wd_server" where
  "wd_chats_remove_user_from uid key sv =
     (case wi_dictionary_data_for_key (sv_chats sv) key of
        None \<Rightarrow> sv
      | Some c \<Rightarrow>
          let c' = c\<lparr>c_users := remove1 uid (c_users c)\<rparr>;
              sv' = wd_set_chat (\<lambda>_. c') key sv
          in if c_id c \<noteq> WD_PUBLIC_CHAT_ID \<and> length (c_users c') = 0
             then sv'\<lparr>sv_chats := wi_dictionary_remove (sv_chats sv') key\<rparr>
             else sv')"

definition wd_chats_remove_user :: "32 word \<Rightarrow> wd_server \<Rightarrow> wd_server" where
  "wd_chats_remove_user uid sv = fold (wd_chats_remove_user_from uid) (dict_keys (sv_chats sv)) sv"

definition wd_chat_user_join_message :: "wd_chat \<Rightarrow> wd_user \<Rightarrow> p7_message" where
  "wd_chat_user_join_message c u =
     \<lparr>m_name = ''wired.chat.user_join'',
      m_fields =
        [(''wired.chat.id'', P7_UInt32 (c_id c)), (''wired.user.id'', P7_UInt32 (u_id u)),
         (''wired.user.idle'', P7_Bool (u_idle u))] @
        str_field ''wired.user.nick'' (u_nick u) @
        str_field ''wired.user.status'' (u_status u) @
        data_field ''wired.user.icon'' (u_icon u) @
        str_field ''wired.user.login'' (u_login u) @
        [(''wired.account.color'', P7_Enum_Value (u_color u)),
         (''wired.user.idle_time'', P7_Date (u_idle_time u))]\<rparr>"

definition wd_chat_add_user_and_broadcast :: "32 word \<Rightarrow> 32 word \<Rightarrow> wd_server \<Rightarrow> wd_server" where
  "wd_chat_add_user_and_broadcast cid uid sv =
     (case wd_chats_chat_with_id sv cid of
        None \<Rightarrow> sv
      | Some c \<Rightarrow>
          let sv' = wd_chat_broadcast_message c (wd_chat_user_join_message c (wd_user sv uid)) sv
          in wd_set_chat (\<lambda>c. c\<lparr>c_users := c_users c @ [uid]\<rparr>) cid sv')"

definition wd_chat_remove_user :: "32 word \<Rightarrow> 32 word \<Rightarrow> wd_server \<Rightarrow> wd_server" where
  "wd_chat_remove_user cid uid sv = wd_chats_remove_user_from uid cid sv"

definition wd_chat_user_list_message :: "wd_chat \<Rightarrow> wd_user \<Rightarrow> p7_message" where
  "wd_chat_user_list_message c u =
     \<lparr>m_name = ''wired.chat.user_list'',
      m_fields =
        [(''wired.chat.id'', P7_UInt32 (c_id c)), (''wired.user.id'', P7_UInt32 (u_id u)),
         (''wired.user.idle'', P7_Bool (u_idle u))] @
        str_field ''wired.user.nick'' (u_nick u) @
        str_field ''wired.user.status'' (u_status u) @
        data_field ''wired.user.icon'' (u_icon u) @
        str_field ''wired.user.login'' (u_login u) @
        [(''wired.user.idle_time'', P7_Date (u_idle_time u)),
         (''wired.account.color'', P7_Enum_Value (u_color u))]\<rparr>"

definition wd_chat_reply_user_list :: "wd_chat \<Rightarrow> 32 word \<Rightarrow> p7_message \<Rightarrow> wd_server \<Rightarrow> wd_server" where
  "wd_chat_reply_user_list c uid m sv =
     (let sv' = fold (\<lambda>peer sv.
                  if u_state (wd_user sv peer) = WD_USER_LOGGED_IN
                  then wd_user_reply_message uid (wd_chat_user_list_message c (wd_user sv peer)) m sv
                  else sv) (c_users c) sv
      in wd_user_reply_message uid
           \<lparr>m_name = ''wired.chat.user_list.done'', m_fields = [(''wired.chat.id'', P7_UInt32 (c_id c))]\<rparr> m sv')"

definition wd_chat_broadcast_user_leave :: "wd_chat \<Rightarrow> 32 word \<Rightarrow> wd_server \<Rightarrow> wd_server" where
  "wd_chat_broadcast_user_leave c uid sv =
     wd_chat_broadcast_message c
       \<lparr>m_name = ''wired.chat.user_leave'',
        m_fields = [(''wired.chat.id'', P7_UInt32 (c_id c)), (''wired.user.id'', P7_UInt32 uid)]\<rparr> sv"

definition wd_chat_topic_message :: "wd_chat \<Rightarrow> p7_message option" where
  "wd_chat_topic_message c =
     (case c_topic c of
        None \<Rightarrow> None
      | Some t \<Rightarrow>
          Some \<lparr>m_name = ''wired.chat.topic'',
                m_fields = [(''wired.chat.id'', P7_UInt32 (c_id c))] @
                           str_field ''wired.user.nick'' (t_nick t) @
                           [(''wired.chat.topic.topic'', P7_String (t_topic t)),
                            (''wired.chat.topic.time'', P7_Date (t_date t))]\<rparr>)"

text \<open>
  The table \<open>topic\<close> keeps one row, the topic of the public chat. All columns are NOT NULL,
  and the arguments of the insertion end at a nick or login that is NULL, so that the
  insertion fails then, after the deletion of the old topic.
\<close>

definition wd_chat_set_topic :: "32 word \<Rightarrow> wd_topic \<Rightarrow> wd_server \<Rightarrow> wd_server" where
  "wd_chat_set_topic cid t sv =
     (let sv' = wd_set_chat (\<lambda>c. c\<lparr>c_topic := Some t\<rparr>) cid sv
      in if cid = WD_PUBLIC_CHAT_ID \<and> sv_db_ok sv'
         then sv'\<lparr>sv_topic := (if t_nick t \<noteq> None \<and> t_login t \<noteq> None then Some t else None)\<rparr>
         else sv')"

definition wd_chat_add_invitation_for_user :: "wd_chat \<Rightarrow> 32 word \<Rightarrow> wd_chat" where
  "wd_chat_add_invitation_for_user c uid =
     c\<lparr>c_invited_users := wi_set_add_data (c_invited_users c) uid\<rparr>"

definition wd_chat_is_user_invited :: "wd_chat \<Rightarrow> 32 word \<Rightarrow> bool" where
  "wd_chat_is_user_invited c uid = wi_set_contains_data (c_invited_users c) uid"

definition wd_chat_remove_invitation_for_user :: "wd_chat \<Rightarrow> 32 word \<Rightarrow> wd_chat" where
  "wd_chat_remove_invitation_for_user c uid =
     c\<lparr>c_invited_users := wi_set_remove_data (c_invited_users c) uid\<rparr>"

subsection \<open>The invariant\<close>

text \<open>
  A chat is stored under its id, has no user twice, and its users are registered ones; the
  invitations are a well-formed set.
\<close>

definition chat_ok :: "wd_server \<Rightarrow> 32 word \<Rightarrow> wd_chat \<Rightarrow> bool" where
  "chat_ok sv cid c \<longleftrightarrow> c_id c = cid \<and> distinct (c_users c) \<and>
     set (c_users c) \<subseteq> dom (wi_dictionary_data_for_key (sv_users sv)) \<and>
     set_keyed False (c_invited_users c)"

definition chats_ok :: "wd_server \<Rightarrow> bool" where
  "chats_ok sv \<longleftrightarrow> 0 < sv_page sv \<and> dict_keyed (=) (sv_users sv) \<and> dict_keyed (=) (sv_chats sv) \<and>
     (\<forall>cid c. wd_chats_chat_with_id sv cid = Some c \<longrightarrow> chat_ok sv cid c) \<and>
     wd_chats_chat_with_id sv WD_PUBLIC_CHAT_ID \<noteq> None"

lemma chats_okD:
  assumes "chats_ok sv"
  shows "0 < sv_page sv" "dict_keyed (=) (sv_users sv)" "dict_keyed (=) (sv_chats sv)"
    "wd_chats_chat_with_id sv cid = Some c \<Longrightarrow> chat_ok sv cid c"
    "wd_chats_chat_with_id sv WD_PUBLIC_CHAT_ID \<noteq> None"
  using assms by (auto simp: chats_ok_def)

lemma wd_quiet_fields:
  assumes "wd_quiet sv sv'"
  shows "sv_chats sv' = sv_chats sv" "sv_page sv' = sv_page sv" "sv_db_ok sv' = sv_db_ok sv"
    "sv_topic sv' = sv_topic sv" "sv_chats_current_id sv' = sv_chats_current_id sv"
    "sv_current_users sv' = sv_current_users sv" "sv_banlist sv' = sv_banlist sv"
    "sv_events sv' = sv_events sv" "sv_now sv' = sv_now sv" "sv_total_users sv' = sv_total_users sv"
  using assms by (auto simp: wd_quiet_def)

lemma wd_quiet_users:
  assumes "wd_quiet sv sv'" and "dict_keyed (=) (sv_users sv)"
  shows "dict_keyed (=) (sv_users sv')"
    and "dom (wi_dictionary_data_for_key (sv_users sv')) = dom (wi_dictionary_data_for_key (sv_users sv))"
    and "rel_option user_quiet (wi_dictionary_data_for_key (sv_users sv) uid) (wi_dictionary_data_for_key (sv_users sv') uid)"
proof -
  from assms have r: "rel_option user_quiet (wi_dictionary_data_for_key (sv_users sv) uid) (wi_dictionary_data_for_key (sv_users sv') uid)" for uid
    by (simp add: wd_quiet_def)
  then have "(wi_dictionary_data_for_key (sv_users sv) uid = None) = (wi_dictionary_data_for_key (sv_users sv') uid = None)" for uid
    by (metis option.rel_sel)
  then show "dom (wi_dictionary_data_for_key (sv_users sv')) = dom (wi_dictionary_data_for_key (sv_users sv))"
    by (auto simp: dom_def)
  show "dict_keyed (=) (sv_users sv')" using assms by (simp add: wd_quiet_def)
  show "rel_option user_quiet (wi_dictionary_data_for_key (sv_users sv) uid) (wi_dictionary_data_for_key (sv_users sv') uid)"
    by (rule r)
qed

lemma chats_ok_quiet:
  assumes "wd_quiet sv sv'" and "chats_ok sv"
  shows "chats_ok sv'"
  using assms(2) wd_quiet_users(1,2) [OF assms(1)] wd_quiet_fields [OF assms(1)]
  by (auto simp: chats_ok_def chat_ok_def wd_chats_chat_with_id_def)

text \<open>Changing one chat, or leaving it as it is.\<close>

lemma chats_ok_set_chat:
  assumes "chats_ok sv" and "\<And>c. wd_chats_chat_with_id sv cid = Some c \<Longrightarrow> chat_ok sv cid (f c)"
  shows "chats_ok (wd_set_chat f cid sv)"
  using assms wd_set_chat_lookup [OF chats_okD(3) [OF assms(1)], of f cid]
  by (auto simp: chats_ok_def chat_ok_def wd_chats_chat_with_id_def)

lemma chats_ok_set_user:
  assumes "chats_ok sv"
  shows "chats_ok (wd_set_user f uid sv)"
proof -
  note l = wd_set_user_lookup [OF chats_okD(2) [OF assms], of f uid]
  have "dom (wi_dictionary_data_for_key (sv_users (wd_set_user f uid sv))) = dom (wi_dictionary_data_for_key (sv_users sv))"
    by (auto simp: dom_def l split: if_splits)
  with assms l(1) show ?thesis by (auto simp: chats_ok_def chat_ok_def wd_chats_chat_with_id_def)
qed

lemma wd_chats_remove_user_from_lookup:
  assumes "dict_keyed (=) (sv_chats sv)"
  shows "dict_keyed (=) (sv_chats (wd_chats_remove_user_from uid key sv))"
    and "wi_dictionary_data_for_key (sv_chats (wd_chats_remove_user_from uid key sv)) k =
      (if k = key then
         (case wi_dictionary_data_for_key (sv_chats sv) key of
            None \<Rightarrow> None
          | Some c \<Rightarrow> if c_id c \<noteq> WD_PUBLIC_CHAT_ID \<and> remove1 uid (c_users c) = [] then None
                      else Some (c\<lparr>c_users := remove1 uid (c_users c)\<rparr>))
       else wi_dictionary_data_for_key (sv_chats sv) k)"
    and "sv_users (wd_chats_remove_user_from uid key sv) = sv_users sv"
    and "sv_page (wd_chats_remove_user_from uid key sv) = sv_page sv"
  using wd_set_chat_lookup [OF assms]
  by (auto simp: wd_chats_remove_user_from_def Let_def assms dict.ok_del [OF wd_set_chat_lookup(1) [OF assms]]
      dict.lookup_del [OF wd_set_chat_lookup(1) [OF assms]] split: option.split)

text \<open>What the removal of a user leaves of a chat.\<close>

definition chat_without :: "32 word \<Rightarrow> wd_chat \<Rightarrow> wd_chat option" where
  "chat_without uid c =
     (if c_id c \<noteq> WD_PUBLIC_CHAT_ID \<and> remove1 uid (c_users c) = [] then None
      else Some (c\<lparr>c_users := remove1 uid (c_users c)\<rparr>))"

lemma wd_chats_remove_user_fold:
  assumes "dict_keyed (=) (sv_chats sv)" and "distinct ks"
  shows "dict_keyed (=) (sv_chats (fold (wd_chats_remove_user_from uid) ks sv)) \<and>
    wi_dictionary_data_for_key (sv_chats (fold (wd_chats_remove_user_from uid) ks sv)) cid =
      (if cid \<in> set ks then Option.bind (wi_dictionary_data_for_key (sv_chats sv) cid) (chat_without uid)
       else wi_dictionary_data_for_key (sv_chats sv) cid) \<and>
    sv_users (fold (wd_chats_remove_user_from uid) ks sv) = sv_users sv \<and>
    sv_page (fold (wd_chats_remove_user_from uid) ks sv) = sv_page sv"
  using assms
proof (induction ks arbitrary: sv)
  case (Cons k ks)
  note l = wd_chats_remove_user_from_lookup [OF Cons.prems(1), of uid k]
  from Cons.IH [OF l(1)] Cons.prems(2) show ?case
    by (auto simp: l(2-4) chat_without_def split: option.split)
qed simp

lemma wd_chats_remove_user:
  assumes "dict_keyed (=) (sv_chats sv)"
  shows "dict_keyed (=) (sv_chats (wd_chats_remove_user uid sv))"
    and "wd_chats_chat_with_id (wd_chats_remove_user uid sv) cid =
      Option.bind (wd_chats_chat_with_id sv cid) (chat_without uid)"
    and "sv_users (wd_chats_remove_user uid sv) = sv_users sv"
    and "sv_page (wd_chats_remove_user uid sv) = sv_page sv"
proof -
  note k = dict_keys_entries(2,3) [OF assms]
  note f = wd_chats_remove_user_fold [OF assms k(1), of uid, folded wd_chats_remove_user_def]
  show "dict_keyed (=) (sv_chats (wd_chats_remove_user uid sv))"
    "sv_users (wd_chats_remove_user uid sv) = sv_users sv"
    "sv_page (wd_chats_remove_user uid sv) = sv_page sv" using f by blast+
  show "wd_chats_chat_with_id (wd_chats_remove_user uid sv) cid =
      Option.bind (wd_chats_chat_with_id sv cid) (chat_without uid)"
  proof (cases "cid \<in> set (dict_keys (sv_chats sv))")
    case True
    with f show ?thesis by (simp add: wd_chats_chat_with_id_def)
  next
    case False
    with k(2) have "wi_dictionary_data_for_key (sv_chats sv) cid = None" by (auto simp: dom_def)
    with False f show ?thesis by (simp add: wd_chats_chat_with_id_def)
  qed
qed

lemma chat_without_ok:
  assumes "chat_ok sv cid c" and "chat_without uid c = Some c'"
  shows "chat_ok sv cid c'" and "\<not> wd_chat_contains_user c' uid"
    and "set (c_users c') = set (c_users c) - {uid}"
  using assms set_remove1_subset [of uid "c_users c"]
  by (auto simp: chat_ok_def chat_without_def wd_chat_contains_user_def split: if_splits)

lemma chats_ok_remove_user:
  assumes "chats_ok sv"
  shows "chats_ok (wd_chats_remove_user uid sv)"
proof -
  note r = wd_chats_remove_user [OF chats_okD(3) [OF assms], of uid]
  have "chat_ok (wd_chats_remove_user uid sv) cid c'"
    if c': "wd_chats_chat_with_id (wd_chats_remove_user uid sv) cid = Some c'" for cid c'
  proof -
    obtain c where c: "wd_chats_chat_with_id sv cid = Some c" "chat_without uid c = Some c'"
      using c' unfolding r(2) by (cases "wd_chats_chat_with_id sv cid") auto
    from chat_without_ok(1) [OF chats_okD(4) [OF assms c(1)] c(2)] r(3)
    show ?thesis by (simp add: chat_ok_def)
  qed
  moreover obtain c where c: "wd_chats_chat_with_id sv WD_PUBLIC_CHAT_ID = Some c"
    using chats_okD(5) [OF assms] by auto
  moreover have "chat_without uid c \<noteq> None"
    using chats_okD(4) [OF assms c] by (simp add: chat_without_def chat_ok_def)
  ultimately show ?thesis
    using chats_okD(1,2) [OF assms] r by (auto simp: chats_ok_def)
qed

lemma chat_init_ok: "0 < page \<Longrightarrow> sv_page sv = page \<Longrightarrow> chat_ok sv cid (wd_chat_init page cid)"
  by (simp add: chat_ok_def wd_chat_init_def set_keyed_init)

lemma chats_ok_add_chat:
  assumes "chats_ok sv" and "chat_ok sv cid c"
  shows "chats_ok (wd_chats_add_chat c sv)"
  using assms(2) chats_okD(1-5) [OF assms(1)]
  by (auto simp: chats_ok_def wd_chats_add_chat_def wd_chats_chat_with_id_def dict.ok_put chat_ok_def
      wi_dictionary_lookup_set [OF chats_okD(3) [OF assms(1)]] split: if_splits)

lemma chats_ok_cong:
  assumes "chats_ok sv" and "sv_chats sv' = sv_chats sv" and "sv_users sv' = sv_users sv" and "sv_page sv' = sv_page sv"
  shows "chats_ok sv'"
  using assms by (auto simp: chats_ok_def chat_ok_def wd_chats_chat_with_id_def)

subsection \<open>Properties\<close>

text \<open>
  The start of the chats creates exactly the public chat, with the stored topic and
  no users, in a state that satisfies the invariant; the first private chat gets the id 2.
\<close>
theorem wd_chats_start:
  assumes "0 < sv_page sv" and "dict_keyed (=) (sv_users sv)"
  shows "chats_ok (wd_chats_initialize sv) \<and>
    (\<forall>cid. wd_chats_chat_with_id (wd_chats_initialize sv) cid \<noteq> None \<longleftrightarrow> cid = WD_PUBLIC_CHAT_ID) \<and>
    (\<forall>c. wd_chats_chat_with_id (wd_chats_initialize sv) WD_PUBLIC_CHAT_ID = Some c \<longrightarrow>
       c_users c = [] \<and> c_topic c = sv_topic sv) \<and>
    fst (wd_chat_next_id (wd_chats_initialize sv)) = 2"
proof -
  note d = dict_keyed_init [OF assms(1), of True 0 wi_number_hash Default_Value_Callbacks]
  have c: "chat_ok sv WD_PUBLIC_CHAT_ID ((wd_chat_init (sv_page sv) WD_PUBLIC_CHAT_ID)\<lparr>c_topic := sv_topic sv\<rparr>)"
    using assms(1) by (simp add: chat_ok_def wd_chat_init_def set_keyed_init)
  have l: "wd_chats_chat_with_id (wd_chats_initialize sv) cid =
      (if cid = WD_PUBLIC_CHAT_ID then Some ((wd_chat_init (sv_page sv) WD_PUBLIC_CHAT_ID)\<lparr>c_topic := sv_topic sv\<rparr>) else None)" for cid
    using assms(1) by (simp add: wd_chats_initialize_def wd_chats_add_chat_def Let_def wd_chats_chat_with_id_def
        wi_dictionary_lookup_set [OF d] wd_chat_init_def)
  have k: "dict_keyed (=) (sv_chats (wd_chats_initialize sv))"
    by (simp add: wd_chats_initialize_def wd_chats_add_chat_def Let_def wi_dictionary_set_keyed [OF d])
  have f: "sv_users (wd_chats_initialize sv) = sv_users sv" "sv_page (wd_chats_initialize sv) = sv_page sv"
    "sv_chats_current_id (wd_chats_initialize sv) = WD_PUBLIC_CHAT_ID"
    by (simp_all add: wd_chats_initialize_def wd_chats_add_chat_def Let_def)
  have "chats_ok (wd_chats_initialize sv)"
    using assms c k f l by (auto simp: chats_ok_def chat_ok_def split: if_splits)
  moreover have "fst (wd_chat_next_id (wd_chats_initialize sv)) = 2"
    by (simp add: wd_chat_next_id_def Let_def f WD_PUBLIC_CHAT_ID_def)
  ultimately show ?thesis
    using l by (simp add: wd_chat_init_def)
qed

theorem wd_chats_start_example:
  "chats_ok (wd_chats_initialize (wd_server_start 4))"
  using wd_chats_start [of "wd_server_start 4"] by (simp add: wd_server_start_def dict_keyed_init)

text \<open>
  C27: When a user goes, it is taken out of every chat and no other member is; the public
  chat stays, and the invariant holds afterwards. But the loop also deletes every other
  chat that has no users at that moment, whoever it belongs to: a private chat that was
  created and not yet joined disappears when any user disconnects.
\<close>
theorem wd_chats_remove_user_effect:
  assumes "chats_ok sv"
  shows "chats_ok (wd_chats_remove_user uid sv) \<and>
    (\<forall>cid c. wd_chats_chat_with_id sv cid = Some c \<longrightarrow>
       (case wd_chats_chat_with_id (wd_chats_remove_user uid sv) cid of
          None \<Rightarrow> cid \<noteq> WD_PUBLIC_CHAT_ID \<and> set (c_users c) \<subseteq> {uid}
        | Some c' \<Rightarrow> set (c_users c') = set (c_users c) - {uid} \<and> c_topic c' = c_topic c \<and>
            c_invited_users c' = c_invited_users c \<and> (cid \<noteq> WD_PUBLIC_CHAT_ID \<longrightarrow> c_users c' \<noteq> []))) \<and>
    (\<forall>cid c. wd_chats_chat_with_id sv cid = Some c \<longrightarrow> c_users c = [] \<longrightarrow> cid \<noteq> WD_PUBLIC_CHAT_ID \<longrightarrow>
       wd_chats_chat_with_id (wd_chats_remove_user uid sv) cid = None)"
proof -
  note r = wd_chats_remove_user(2) [OF chats_okD(3) [OF assms], of uid]
  have "case wd_chats_chat_with_id (wd_chats_remove_user uid sv) cid of
          None \<Rightarrow> cid \<noteq> WD_PUBLIC_CHAT_ID \<and> set (c_users c) \<subseteq> {uid}
        | Some c' \<Rightarrow> set (c_users c') = set (c_users c) - {uid} \<and> c_topic c' = c_topic c \<and>
            c_invited_users c' = c_invited_users c \<and> (cid \<noteq> WD_PUBLIC_CHAT_ID \<longrightarrow> c_users c' \<noteq> [])"
    if c: "wd_chats_chat_with_id sv cid = Some c" for cid c
  proof -
    have ok: "distinct (c_users c)" "c_id c = cid" using chats_okD(4) [OF assms c] by (auto simp: chat_ok_def)
    have s: "set (remove1 uid (c_users c)) = set (c_users c) - {uid}" using ok(1) by (rule set_remove1_eq)
    show ?thesis
    proof (cases "chat_without uid c")
      case None
      then have "remove1 uid (c_users c) = []" and i: "c_id c \<noteq> WD_PUBLIC_CHAT_ID"
        by (auto simp: chat_without_def split: if_splits)
      then have "set (c_users c) \<subseteq> {uid}" using s by (metis Diff_eq_empty_iff list.set(1))
      with None i ok(2) c show ?thesis by (simp add: r)
    next
      case (Some c')
      with ok s c show ?thesis by (auto simp: r chat_without_def split: if_splits)
    qed
  qed
  moreover have "wd_chats_chat_with_id (wd_chats_remove_user uid sv) cid = None"
    if "wd_chats_chat_with_id sv cid = Some c" "c_users c = []" "cid \<noteq> WD_PUBLIC_CHAT_ID" for cid c
    using that chats_okD(4) [OF assms that(1)] by (simp add: r chat_without_def chat_ok_def)
  ultimately show ?thesis using chats_ok_remove_user [OF assms] by blast
qed

theorem wd_chats_remove_user_effect_witness:
  "wd_chats_chat_with_id (wd_chats_remove_user 7
     (wd_chats_add_chat (wd_chat_init 4 2) (wd_chats_initialize (wd_server_start 4)))) 2 = None"
proof -
  let ?sv = "wd_chats_initialize (wd_server_start 4)"
  have p: "sv_page ?sv = 4" "dict_keyed (=) (sv_users ?sv)"
    by (simp_all add: wd_chats_initialize_def wd_chats_add_chat_def Let_def wd_server_start_def dict_keyed_init)
  have ok: "chats_ok ?sv"
  proof -
    note d = dict_keyed_init [of 4 True 0 wi_number_hash Default_Value_Callbacks]
    show ?thesis using p
      by (auto simp: chats_ok_def wd_chats_initialize_def wd_chats_add_chat_def Let_def wd_chats_chat_with_id_def
          wd_server_start_def wi_dictionary_lookup_set [OF d] wi_dictionary_set_keyed [OF d] wd_chat_init_def
          chat_ok_def set_keyed_init dict_keyed_init split: if_splits)
  qed
  have c: "chat_ok ?sv 2 (wd_chat_init 4 2)" using p by (intro chat_init_ok) simp_all
  have l: "wd_chats_chat_with_id (wd_chats_add_chat (wd_chat_init 4 2) ?sv) 2 = Some (wd_chat_init 4 2)"
    using chats_okD(3) [OF ok]
    by (simp add: wd_chats_add_chat_def wd_chats_chat_with_id_def wi_dictionary_lookup_set wd_chat_init_def)
  from wd_chats_remove_user_effect [OF chats_ok_add_chat [OF ok c], of 7] l
  show ?thesis by (simp add: wd_chat_init_def WD_PUBLIC_CHAT_ID_def)
qed

end
