(* ===== verification/Wd_Banlist.thy ===== *)
theory Wd_Banlist
  imports Wd_Chats Wi_Ip
begin

text \<open>
  The ban list (banlist.c), the table \<open>banlist\<close> of addresses with an optional time of
  expiry. A query runs on the rows as they are when it starts.
\<close>

subsection \<open>Is an address banned?\<close>

text \<open>
  The statement that deletes expired rows is passed to SQLite as it is, not through a
  format: its \<open>%%s\<close> stays. A row without a time of expiry gives NULL, which is not true.
\<close>

definition wd_banlist_delete_expired :: "wd_server \<Rightarrow> wd_server" where
  "wd_banlist_delete_expired sv =
     (if sv_db_ok sv then
        sv\<lparr>sv_banlist := filter (\<lambda>(ip, expiry). case expiry of
             None \<Rightarrow> True
           | Some d \<Rightarrow> \<not> sv_numeric sv (sv_strftime sv ''%%s'' (sv_now sv)) - sv_numeric sv (sv_strftime sv ''%%s'' d) > 0)
           (sv_banlist sv)\<rparr>
      else sv)"

definition wi_date_valid_expiration_date :: "int \<Rightarrow> int option \<Rightarrow> bool" where
  "wi_date_valid_expiration_date now date = (case date of None \<Rightarrow> False | Some d \<Rightarrow> d - now > 0)"

text \<open>
  One row of the loop. The state is the return value, what was written to the caller's
  expiration date (\<open>None\<close> if nothing), and the rows left in the table.
\<close>

definition wd_banlist_check_row ::
  "32 word \<Rightarrow> int \<Rightarrow> string \<Rightarrow> string \<times> int option \<Rightarrow>
    bool \<times> int option option \<times> (string \<times> int option) list \<Rightarrow> bool \<times> int option option \<times> (string \<times> int option) list" where
  "wd_banlist_check_row undef now ip row r =
     (case r of (ret, date, rows) \<Rightarrow>
        if wi_ip_matches_string undef (fst row) ip then
          (case snd row of
             Some d \<Rightarrow>
               if wi_date_valid_expiration_date now (Some d) then (True, Some (Some d), rows)
               else (False, Some None, filter (\<lambda>r. fst r \<noteq> ip) rows)
           | None \<Rightarrow> (True, date, rows))
        else (ret, date, rows))"

definition wd_banlist_ip_is_banned :: "string \<Rightarrow> wd_server \<Rightarrow> bool \<times> int option option \<times> wd_server" where
  "wd_banlist_ip_is_banned ip sv =
     (let sv = wd_banlist_delete_expired sv
      in if \<not> sv_db_ok sv then (False, None, sv)
         else
           case fold (wd_banlist_check_row (sv_undefined sv) (sv_now sv) ip) (sv_banlist sv) (False, None, sv_banlist sv) of
             (ret, date, rows) \<Rightarrow> (ret, date, sv\<lparr>sv_banlist := rows\<rparr>))"

subsection \<open>Listing and editing\<close>

definition wd_banlist_reply_bans :: "32 word \<Rightarrow> p7_message \<Rightarrow> wd_server \<Rightarrow> wd_server" where
  "wd_banlist_reply_bans uid m sv =
     (if \<not> sv_db_ok sv then wd_user_reply_internal_error uid (Some ''database'') m sv
      else
        let sv' = fold (\<lambda>(ip, expiry). wd_user_reply_message uid
                     \<lparr>m_name = ''wired.banlist.list'',
                      m_fields = (''wired.banlist.ip'', P7_String ip) #
                        opt_field ''wired.banlist.expiration_date'' P7_Date expiry\<rparr> m) (sv_banlist sv) sv
        in wd_user_reply_message uid \<lparr>m_name = ''wired.banlist.list.done'', m_fields = []\<rparr> m sv')"

text \<open>The text of a database error is the constant \<open>database\<close> here.\<close>

definition wd_banlist_add_ban :: "string \<Rightarrow> int option \<Rightarrow> 32 word \<Rightarrow> p7_message \<Rightarrow> wd_server \<Rightarrow> bool \<times> wd_server" where
  "wd_banlist_add_ban ip expiry uid m sv =
     (if (case expiry of Some d \<Rightarrow> d - sv_now sv < 1 | None \<Rightarrow> False) then
        (False, wd_user_reply_internal_error uid (Some ''Ban has negative expiration date'') m sv)
      else if \<not> sv_db_ok sv then (False, wd_user_reply_internal_error uid (Some ''database'') m sv)
      else if \<exists>row \<in> set (sv_banlist sv). fst row = ip then
        (False, wd_user_reply_error uid ''wired.error.ban_exists'' m sv)
      else (True, sv\<lparr>sv_banlist := sv_banlist sv @ [(ip, expiry)]\<rparr>))"

definition wd_banlist_delete_ban :: "string \<Rightarrow> 32 word \<Rightarrow> p7_message \<Rightarrow> wd_server \<Rightarrow> bool \<times> wd_server" where
  "wd_banlist_delete_ban ip uid m sv =
     (if \<not> sv_db_ok sv then (False, wd_user_reply_internal_error uid (Some ''database'') m sv)
      else if \<not> (\<exists>row \<in> set (sv_banlist sv). fst row = ip) then
        (False, wd_user_reply_error uid ''wired.error.ban_not_found'' m sv)
      else (True, sv\<lparr>sv_banlist := filter (\<lambda>row. fst row \<noteq> ip) (sv_banlist sv)\<rparr>))"

subsection \<open>Facts\<close>

text \<open>
  The loop passes the row as the address and the user's address as the pattern. A literal
  IPv4 address used as the pattern matches itself only.
\<close>

lemma contains_char_iff: "wi_string_contains_string s [c] \<longleftrightarrow> c \<in> set s"
  by (auto simp: wi_string_contains_iff in_set_conv_decomp)

lemma inet_pton4_plain:
  assumes "inet_pton4 ip"
  shows "CHR ''*'' \<notin> set ip" "CHR ''/'' \<notin> set ip" "CHR ''.'' \<in> set ip" "CHR '':'' \<notin> set ip"
proof -
  obtain a b c d where s: "ip = a @ CHR ''.'' # b @ CHR ''.'' # c @ CHR ''.'' # d"
    and o: "pton4_octet a" "pton4_octet b" "pton4_octet c" "pton4_octet d"
    using inet_pton4_octets [OF assms] by metis
  have n: "x \<notin> set g" if "pton4_octet g" "\<not> c_digit x < 10" for g x
    using that by (auto simp: pton4_octet_def list_all_iff)
  have "\<not> c_digit CHR ''*'' < 10" "\<not> c_digit CHR ''/'' < 10" "\<not> c_digit CHR '':'' < 10"
    by (simp_all add: c_digit_def)
  with n o show "CHR ''*'' \<notin> set ip" "CHR ''/'' \<notin> set ip" "CHR '':'' \<notin> set ip" by (simp_all add: s)
  show "CHR ''.'' \<in> set ip" by (simp add: s)
qed

lemma wi_ip_matches_literal:
  assumes "inet_pton4 ip"
  shows "wi_ip_matches_string undef row ip \<longleftrightarrow> row = ip"
proof -
  note p = inet_pton4_plain [OF assms]
  have v: "wi_ip_version ip = WI_IP_IPV4" using assms p by (simp add: wi_ip_version_def contains_char_iff)
  have "wi_ipv6_expanded_value ip = None"
    using p(4) by (simp add: wi_ipv6_expanded_value_def Let_def split_no_sep)
  then show ?thesis
    using p v by (cases "wi_ip_version row")
      (auto simp: wi_ip_matches_string_def contains_char_iff wi_ipv6_match_literal_def split: option.splits)
qed

lemma check_rows_undated:
  assumes "fold (wd_banlist_check_row undef now ip) rows r = (True, None, rest)"
  shows "fst r \<and> fst (snd r) = None \<or>
    fst (snd r) = None \<and> (\<exists>row \<in> set rows. snd row = None \<and> wi_ip_matches_string undef (fst row) ip)"
  using assms
proof (induction rows arbitrary: r)
  case (Cons row rows)
  have "fold (wd_banlist_check_row undef now ip) rows (wd_banlist_check_row undef now ip row r) = (True, None, rest)"
    using Cons.prems by simp
  from Cons.IH [OF this] show ?case
    by (cases r) (auto simp: wd_banlist_check_row_def split: if_splits option.splits)
qed simp

text \<open>Only a ban without a time of expiry says banned and writes no date.\<close>

lemma wd_banlist_ip_is_banned_undated:
  assumes "fst (wd_banlist_ip_is_banned ip sv)" and "fst (snd (wd_banlist_ip_is_banned ip sv)) = None"
  shows "\<exists>pattern. (pattern, None) \<in> set (sv_banlist sv) \<and> wi_ip_matches_string (sv_undefined sv) pattern ip"
proof -
  define sv1 where "sv1 = wd_banlist_delete_expired sv"
  have s: "set (sv_banlist sv1) \<subseteq> set (sv_banlist sv)" "sv_undefined sv1 = sv_undefined sv" "sv_now sv1 = sv_now sv"
    by (auto simp: sv1_def wd_banlist_delete_expired_def)
  obtain rest where "fold (wd_banlist_check_row (sv_undefined sv1) (sv_now sv1) ip) (sv_banlist sv1) (False, None, sv_banlist sv1) =
      (True, None, rest)"
    using assms by (auto simp: wd_banlist_ip_is_banned_def Let_def sv1_def [symmetric] split: if_splits prod.splits)
  from check_rows_undated [OF this] s show ?thesis by fastforce
qed

lemma check_rows_other:
  assumes "inet_pton4 ip" and "ip \<notin> fst ` set rows"
  shows "fold (wd_banlist_check_row undef now ip) rows r = r"
  using assms(2)
proof (induction rows arbitrary: r)
  case (Cons row rows)
  then show ?case
    by (cases r) (auto simp: wd_banlist_check_row_def wi_ip_matches_literal [OF assms(1)])
qed simp

lemma check_rows_found:
  assumes "inet_pton4 ip" and "distinct (map fst rows)" and "map_of rows ip = Some e"
  shows "fold (wd_banlist_check_row undef now ip) rows r = wd_banlist_check_row undef now ip (ip, e) r"
proof -
  from map_of_SomeD [OF assms(3)] obtain xs ys where r: "rows = xs @ (ip, e) # ys" by (meson split_list)
  with assms(2) have "ip \<notin> fst ` set xs" "ip \<notin> fst ` set ys" by auto
  then show ?thesis by (simp add: r check_rows_other [OF assms(1)])
qed

text \<open>What SQLite documents of the two functions makes the first statement delete nothing.\<close>

lemma wd_banlist_delete_expired_nothing:
  assumes "\<forall>t. sv_strftime sv ''%%s'' t = ''%s''"
  shows "wd_banlist_delete_expired sv = sv"
  using assms by (simp add: wd_banlist_delete_expired_def option.case_eq_if)

subsection \<open>Properties\<close>

text \<open>
  C34: What the ban list does for a user with an IPv4 address. Only a row with exactly
  that address counts, and only until its time of expiry; a wildcard or a netmask in the
  list never bans anybody, because address and pattern are swapped. A ban without expiry
  leaves the caller's date unset. An expired row of this address is deleted, expired rows
  of other addresses stay. This uses what SQLite documents of \<open>strftime\<close>: two percent
  signs stand for one.
\<close>
theorem wd_banlist_ip_is_banned_iff:
  assumes "inet_pton4 ip" and "sv_db_ok sv" and "distinct (map fst (sv_banlist sv))"
    and "\<forall>t. sv_strftime sv ''%%s'' t = ''%s''"
  shows "wd_banlist_ip_is_banned ip sv =
    (case map_of (sv_banlist sv) ip of
       None \<Rightarrow> (False, None, sv)
     | Some None \<Rightarrow> (True, None, sv)
     | Some (Some d) \<Rightarrow>
         if sv_now sv < d then (True, Some (Some d), sv)
         else (False, Some None, sv\<lparr>sv_banlist := filter (\<lambda>row. fst row \<noteq> ip) (sv_banlist sv)\<rparr>))"
proof (cases "map_of (sv_banlist sv) ip")
  case None
  then have "ip \<notin> fst ` set (sv_banlist sv)" by (simp add: map_of_eq_None_iff)
  from check_rows_other [OF assms(1) this] show ?thesis
    using assms(2) None by (simp add: wd_banlist_ip_is_banned_def wd_banlist_delete_expired_nothing [OF assms(4)])
next
  case (Some e)
  show ?thesis
    unfolding wd_banlist_ip_is_banned_def wd_banlist_delete_expired_nothing [OF assms(4)] Let_def
      check_rows_found [OF assms(1,3) Some] Some
    using assms(2) by (cases e) (simp_all add: wd_banlist_check_row_def wi_ip_matches_literal [OF assms(1)]
        wi_date_valid_expiration_date_def)
qed

theorem wd_banlist_ip_is_banned_iff_witness:
  "fst (wd_banlist_ip_is_banned ''10.1.2.3''
     ((wd_server_start 4)\<lparr>sv_strftime := \<lambda>_ _. ''%s'', sv_banlist := [(''10.*.*.*'', None), (''10.1.2.3'', Some 5)]\<rparr>)) \<and>
   \<not> fst (wd_banlist_ip_is_banned ''10.1.2.4''
     ((wd_server_start 4)\<lparr>sv_strftime := \<lambda>_ _. ''%s'', sv_banlist := [(''10.*.*.*'', None), (''10.1.2.3'', Some 5)]\<rparr>))"
proof -
  let ?sv = "(wd_server_start 4)\<lparr>sv_strftime := \<lambda>_ _. ''%s'', sv_banlist := [(''10.*.*.*'', None), (''10.1.2.3'', Some 5)]\<rparr>"
  have p: "inet_pton4 ''10.1.2.3''" "inet_pton4 ''10.1.2.4''"
    by (simp_all add: inet_pton4_def pton4_octet_def split_Cons c_digit_def Let_def)
  show ?thesis
    using wd_banlist_ip_is_banned_iff [OF p(1), of ?sv] wd_banlist_ip_is_banned_iff [OF p(2), of ?sv]
    by (simp add: wd_server_start_def)
qed

text \<open>
  Adding a ban and deleting it are inverse. A ban is added exactly when it does not
  expire within the next second and its address is not in the list yet; then it is the
  last row and the list has every address at most once, and deleting it restores the list.
  A refusal changes nothing but sends an error.
\<close>
theorem wd_banlist_add_delete_ban:
  assumes "sv_db_ok sv" and "distinct (map fst (sv_banlist sv))"
  shows "case wd_banlist_add_ban ip expiry uid m sv of (added, sv') \<Rightarrow>
    (added \<longleftrightarrow> (\<forall>d. expiry = Some d \<longrightarrow> sv_now sv + 1 \<le> d) \<and> map_of (sv_banlist sv) ip = None) \<and>
    distinct (map fst (sv_banlist sv')) \<and>
    (added \<longrightarrow> map_of (sv_banlist sv') = (map_of (sv_banlist sv))(ip \<mapsto> expiry) \<and>
       wd_banlist_delete_ban ip uid' m' sv' = (True, sv)) \<and>
    (\<not> added \<longrightarrow> wd_quiet sv sv')"
proof -
  have k: "(\<exists>row \<in> set (sv_banlist sv). fst row = ip) \<longleftrightarrow> map_of (sv_banlist sv) ip \<noteq> None"
    by (force simp: map_of_eq_None_iff)
  show ?thesis
  proof (cases "(case expiry of Some d \<Rightarrow> d - sv_now sv < 1 | None \<Rightarrow> False) \<or> map_of (sv_banlist sv) ip \<noteq> None")
    case True
    then have a: "fst (wd_banlist_add_ban ip expiry uid m sv) = False" "wd_quiet sv (snd (wd_banlist_add_ban ip expiry uid m sv))"
      using assms(1) k by (auto simp: wd_banlist_add_ban_def wd_reply_quiets)
    moreover have "\<not> ((\<forall>d. expiry = Some d \<longrightarrow> sv_now sv + 1 \<le> d) \<and> map_of (sv_banlist sv) ip = None)"
      using True by (auto split: option.splits)
    ultimately show ?thesis using assms(2) wd_quiet_fields(7) by (simp add: case_prod_beta)
  next
    case False
    then have n: "map_of (sv_banlist sv) ip = None" and e: "\<forall>d. expiry = Some d \<longrightarrow> sv_now sv + 1 \<le> d" by (auto split: option.splits)
    have i: "ip \<notin> fst ` set (sv_banlist sv)" using n by (simp add: map_of_eq_None_iff)
    then have f: "filter (\<lambda>row. fst row \<noteq> ip) (sv_banlist sv) = sv_banlist sv" by (auto simp: filter_id_conv)
    have a: "wd_banlist_add_ban ip expiry uid m sv = (True, sv\<lparr>sv_banlist := sv_banlist sv @ [(ip, expiry)]\<rparr>)"
      using False assms(1) k by (auto simp: wd_banlist_add_ban_def)
    show ?thesis unfolding a
      using assms i n e f by (auto simp: wd_banlist_delete_ban_def map_add_def fun_eq_iff split: option.splits)
  qed
qed

theorem wd_banlist_add_delete_ban_example:
  "fst (wd_banlist_add_ban ''10.1.2.3'' (Some 60) 1 \<lparr>m_name = [], m_fields = []\<rparr> (wd_server_start 4))"
  using wd_banlist_add_delete_ban [of "wd_server_start 4", where ip = "''10.1.2.3''" and expiry = "Some 60" and uid = 1 and
      m = "\<lparr>m_name = [], m_fields = []\<rparr>"]
  by (simp add: wd_server_start_def case_prod_beta)

end
