(* ===== verification/Wd_Users.thy ===== *)
theory Wd_Users
  imports Wd_Chats Wi_String
begin

text \<open>
  The users (users.c): the table of connected users, their lists and details for other
  clients, idling, status and icon broadcasts, and what each user has subscribed to. The
  accessors of a user's fields are those of the record \<open>wd_user\<close> with \<open>wd_set_user\<close>.
\<close>

definition WD_USERS_IDLE_TIME :: int where "WD_USERS_IDLE_TIME = 600"
definition WD_FILES_META_PATH :: string where "WD_FILES_META_PATH = ''.wired''"

subsection \<open>The table of users\<close>

definition wd_users_initialize :: "wd_server \<Rightarrow> wd_server" where
  "wd_users_initialize sv =
     sv\<lparr>sv_users := wi_dictionary_init (sv_page sv) True 0 wi_number_hash (=) Default_Value_Callbacks,
        sv_users_current_id := 0\<rparr>"

definition wd_user_next_id :: "wd_server \<Rightarrow> 32 word \<times> wd_server" where
  "wd_user_next_id sv = (let uid = sv_users_current_id sv + 1 in (uid, sv\<lparr>sv_users_current_id := uid\<rparr>))"

definition wd_user_init_with_socket :: "string \<Rightarrow> string \<Rightarrow> (string \<times> 32 word) option \<Rightarrow> wd_server \<Rightarrow> wd_user \<times> wd_server" where
  "wd_user_init_with_socket ip host cipher sv =
     (let (uid, sv') = wd_user_next_id sv
      in (\<lparr>u_id = uid, u_state = WD_USER_CONNECTED, u_idle = False, u_account = None, u_nick = None,
           u_login = None, u_ip = ip, u_host = host, u_client_info = None, u_status = None, u_icon = None,
           u_color = 0, u_cipher = cipher, u_login_time = sv_now sv, u_idle_time = sv_now sv,
           u_joined_public_chat = False, u_subscribed_boards = False, u_subscribed_accounts = False,
           u_subscribed_log = False, u_subscribed_events = False,
           u_subscribed_paths = wi_set_init (sv_page sv) True 0 True wi_string_hash (=),
           u_subscribed_virtualpaths =
             wi_dictionary_init (sv_page sv) True 0 wi_string_hash (=) Default_Value_Callbacks,
           u_transfer = None\<rparr>, sv'))"

definition wd_users_add_user :: "wd_user \<Rightarrow> wd_server \<Rightarrow> wd_server" where
  "wd_users_add_user u sv = sv\<lparr>sv_users := wi_dictionary_set (sv_users sv) u (u_id u)\<rparr>"

definition wd_users_user_with_id :: "wd_server \<Rightarrow> 32 word \<Rightarrow> wd_user option" where
  "wd_users_user_with_id sv uid = wi_dictionary_data_for_key (sv_users sv) uid"

definition wd_users_users_with_login :: "wd_server \<Rightarrow> string \<Rightarrow> wd_user list" where
  "wd_users_users_with_login sv name = filter (\<lambda>u. u_login u = Some name) (dict_values (sv_users sv))"

subsection \<open>Status and icon\<close>

definition wd_user_status_message :: "wd_chat \<Rightarrow> wd_user \<Rightarrow> p7_message" where
  "wd_user_status_message c u =
     \<lparr>m_name = ''wired.chat.user_status'',
      m_fields =
        [(''wired.chat.id'', P7_UInt32 (c_id c)), (''wired.user.id'', P7_UInt32 (u_id u)),
         (''wired.user.idle'', P7_Bool (u_idle u))] @
        str_field ''wired.user.nick'' (u_nick u) @
        str_field ''wired.user.status'' (u_status u) @
        [(''wired.account.color'', P7_Enum_Value (u_color u)),
         (''wired.user.idle_time'', P7_Date (u_idle_time u))]\<rparr>"

definition wd_user_broadcast_status :: "32 word \<Rightarrow> wd_server \<Rightarrow> wd_server" where
  "wd_user_broadcast_status uid sv =
     fold (\<lambda>c sv. wd_chat_broadcast_message c (wd_user_status_message c (wd_user sv uid)) sv)
       (wd_chats_chats_with_user sv uid) sv"

definition wd_user_broadcast_icon :: "32 word \<Rightarrow> wd_server \<Rightarrow> wd_server" where
  "wd_user_broadcast_icon uid sv =
     fold (\<lambda>c sv. wd_chat_broadcast_message c
          \<lparr>m_name = ''wired.chat.user_icon'',
           m_fields = [(''wired.user.id'', P7_UInt32 uid), (''wired.chat.id'', P7_UInt32 (c_id c))] @
             data_field ''wired.user.icon'' (u_icon (wd_user sv uid))\<rparr> sv)
       (wd_chats_chats_with_user sv uid) sv"

text \<open>The timer that marks users idle; an idle time in seconds, as all times here.\<close>

definition wd_users_update_idle_user :: "32 word \<Rightarrow> wd_server \<Rightarrow> wd_server" where
  "wd_users_update_idle_user uid sv =
     (let u = wd_user sv uid
      in if u_state u = WD_USER_LOGGED_IN \<and> \<not> u_idle u \<and> u_idle_time u + WD_USERS_IDLE_TIME < sv_now sv
         then wd_user_broadcast_status uid (wd_set_user (\<lambda>u. u\<lparr>u_idle := True\<rparr>) uid sv)
         else sv)"

definition wd_users_update_idle :: "wd_server \<Rightarrow> wd_server" where
  "wd_users_update_idle sv =
     (if wi_dictionary_count (sv_users sv) > 0
      then fold wd_users_update_idle_user (dict_keys (sv_users sv)) sv else sv)"

subsection \<open>Lists and details\<close>

datatype wd_user_protocol_state =
    WD_USER_PROTOCOL_CONNECTED
  | WD_USER_PROTOCOL_LOGGING_IN
  | WD_USER_PROTOCOL_LOGGED_IN
  | WD_USER_PROTOCOL_TRANSFERRING
  | WD_USER_PROTOCOL_DISCONNECTING

fun wd_user_protocol_state_enum :: "wd_user_protocol_state \<Rightarrow> 32 word" where
  "wd_user_protocol_state_enum WD_USER_PROTOCOL_CONNECTED = 0"
| "wd_user_protocol_state_enum WD_USER_PROTOCOL_LOGGING_IN = 1"
| "wd_user_protocol_state_enum WD_USER_PROTOCOL_LOGGED_IN = 2"
| "wd_user_protocol_state_enum WD_USER_PROTOCOL_TRANSFERRING = 3"
| "wd_user_protocol_state_enum WD_USER_PROTOCOL_DISCONNECTING = 4"

fun wd_protocol_state_of :: "wd_user_state \<Rightarrow> wd_user_protocol_state" where
  "wd_protocol_state_of WD_USER_CONNECTED = WD_USER_PROTOCOL_CONNECTED"
| "wd_protocol_state_of WD_USER_GAVE_CLIENT_INFO = WD_USER_PROTOCOL_LOGGING_IN"
| "wd_protocol_state_of WD_USER_SAID_HELLO = WD_USER_PROTOCOL_LOGGING_IN"
| "wd_protocol_state_of WD_USER_GAVE_USER = WD_USER_PROTOCOL_LOGGING_IN"
| "wd_protocol_state_of WD_USER_LOGGED_IN = WD_USER_PROTOCOL_LOGGED_IN"
| "wd_protocol_state_of WD_USER_DISCONNECTED = WD_USER_PROTOCOL_DISCONNECTING"

text \<open>The state in the list is computed from \<open>user\<close>, who asks, not from \<open>peer\<close>.\<close>

definition wd_user_list_message :: "wd_user \<Rightarrow> wd_user \<Rightarrow> p7_message" where
  "wd_user_list_message user peer =
     (let state = wd_protocol_state_of (u_state user);
          fields =
            [(''wired.user.id'', P7_UInt32 (u_id peer)), (''wired.user.idle'', P7_Bool (u_idle peer))] @
            str_field ''wired.user.nick'' (u_nick peer) @
            str_field ''wired.user.status'' (u_status peer) @
            data_field ''wired.user.icon'' (u_icon peer) @
            [(''wired.account.color'', P7_Enum_Value (u_color peer)),
             (''wired.user.idle_time'', P7_Date (u_idle_time peer))];
          (state, transfer_fields) =
            (case u_transfer peer of
               None \<Rightarrow> (state, [])
             | Some t \<Rightarrow> (WD_USER_PROTOCOL_TRANSFERRING,
                 [(''wired.transfer.type'', P7_Enum_Value (ut_type t)), (''wired.file.path'', P7_String (ut_path t)),
                  (''wired.transfer.data_size'', P7_UInt64 (ut_datasize t)),
                  (''wired.transfer.rsrc_size'', P7_UInt64 (ut_rsrcsize t)),
                  (''wired.transfer.transferred'', P7_UInt64 (ut_transferred t)),
                  (''wired.transfer.speed'', P7_UInt32 (ut_speed t)),
                  (''wired.transfer.queue_position'', P7_UInt32 (ut_queue t))]))
      in \<lparr>m_name = ''wired.user.user_list'',
          m_fields = fields @ transfer_fields @
            [(''wired.user.state'', P7_Enum_Value (wd_user_protocol_state_enum state))]\<rparr>)"

definition wd_users_reply_users :: "32 word \<Rightarrow> p7_message \<Rightarrow> wd_server \<Rightarrow> wd_server" where
  "wd_users_reply_users uid m sv =
     (let sv' = fold (\<lambda>peer sv.
                  wd_user_reply_message uid (wd_user_list_message (wd_user sv uid) (wd_user sv peer)) m sv)
                (dict_keys (sv_users sv)) sv
      in wd_user_reply_message uid \<lparr>m_name = ''wired.user.user_list.done'', m_fields = []\<rparr> m sv')"

text \<open>The details of a peer read its client info, which a peer that has just connected has not given.\<close>

definition wd_user_reply_user_info :: "32 word \<Rightarrow> 32 word \<Rightarrow> p7_message \<Rightarrow> wd_server \<Rightarrow> wd_server wd_result" where
  "wd_user_reply_user_info peer uid m sv =
     (let p = wd_user sv peer
      in case u_client_info p of
           None \<Rightarrow> Inl Null_Client_Info
         | Some ci \<Rightarrow>
             Inr (wd_user_reply_message uid
               \<lparr>m_name = ''wired.user.info'',
                m_fields =
                  [(''wired.user.id'', P7_UInt32 (u_id p)), (''wired.user.idle'', P7_Bool (u_idle p))] @
                  str_field ''wired.user.login'' (u_login p) @
                  str_field ''wired.user.nick'' (u_nick p) @
                  str_field ''wired.user.status'' (u_status p) @
                  data_field ''wired.user.icon'' (u_icon p) @
                  [(''wired.account.color'', P7_Enum_Value (u_color p)), (''wired.user.ip'', P7_String (u_ip p)),
                   (''wired.user.host'', P7_String (u_host p)), (''wired.user.login_time'', P7_Date (u_login_time p)),
                   (''wired.user.idle_time'', P7_Date (u_idle_time p))] @
                  (case u_cipher p of
                     None \<Rightarrow> []
                   | Some (name, bits) \<Rightarrow>
                       [(''wired.user.cipher.name'', P7_String name), (''wired.user.cipher.bits'', P7_UInt32 bits)]) @
                  [(''wired.info.application.name'', P7_String (ci_application_name ci)),
                   (''wired.info.application.version'', P7_String (ci_application_version ci))] @
                  (if length (ci_application_build ci) > 0
                   then [(''wired.info.application.build'', P7_String (ci_application_build ci))] else []) @
                  [(''wired.info.os.name'', P7_String (ci_os_name ci)),
                   (''wired.info.os.version'', P7_String (ci_os_version ci)),
                   (''wired.info.arch'', P7_String (ci_arch ci))]\<rparr> m sv))"

subsection \<open>Client information\<close>

definition wd_client_info_init_with_message :: "wd_server \<Rightarrow> p7_message \<Rightarrow> wd_client_info" where
  "wd_client_info_init_with_message sv m =
     \<lparr>ci_application_name = p7_string_arg m ''wired.info.application.name'',
      ci_application_version = p7_string_arg m ''wired.info.application.version'',
      ci_application_build = p7_string_arg m ''wired.info.application.build'',
      ci_os_name = p7_string_arg m ''wired.info.os.name'',
      ci_os_version = p7_string_arg m ''wired.info.os.version'',
      ci_arch = p7_string_arg m ''wired.info.arch'',
      ci_supports_rsrc = p7_bool_arg sv m ''wired.info.supports_rsrc''\<rparr>"

definition wd_client_info_application_string :: "wd_client_info \<Rightarrow> string" where
  "wd_client_info_application_string ci =
     ci_application_name ci @ '' '' @ ci_application_version ci @ '' ('' @ ci_application_build ci @ '')''"

definition wd_client_info_os_string :: "wd_client_info \<Rightarrow> string" where
  "wd_client_info_os_string ci = ci_os_name ci @ '' '' @ ci_os_version ci @ '' ('' @ ci_arch ci @ '')''"


subsection \<open>Subscriptions\<close>

text \<open>
  The flags of the boards, accounts, log and events are set by the handlers. A directory is
  subscribed under its real path and that of its metadata; the virtual path under which the
  client knows it is kept beside. \<open>subscribed_paths\<close> is a counted set, so that every
  subscription needs its own removal. The file system events of the operating system
  (\<open>wd_files_fsevents\<close>) are not modelled.
\<close>

definition wd_user_subscribe_path :: "string \<Rightarrow> string \<Rightarrow> wd_user \<Rightarrow> wd_user" where
  "wd_user_subscribe_path path realpath u =
     (let s1 = wi_set_add_data (u_subscribed_paths u) realpath;
          metapath = wi_string_by_appending_path_component realpath WD_FILES_META_PATH;
          s2 = wi_set_add_data s1 metapath
      in u\<lparr>u_subscribed_paths := s2,
           u_subscribed_virtualpaths := wi_dictionary_set (u_subscribed_virtualpaths u) path realpath\<rparr>)"

definition wd_user_unsubscribe_path :: "string \<Rightarrow> wd_user \<Rightarrow> wd_user" where
  "wd_user_unsubscribe_path realpath u =
     (let s1 = wi_set_remove_data (u_subscribed_paths u) realpath;
          metapath = wi_string_by_appending_path_component realpath WD_FILES_META_PATH;
          s2 = wi_set_add_data s1 metapath
      in u\<lparr>u_subscribed_paths := s2,
           u_subscribed_virtualpaths := wi_dictionary_remove (u_subscribed_virtualpaths u) realpath\<rparr>)"

text \<open>
  The loop that removes a path while the set contains it; its fuel is one more than the
  number of the path's subscriptions, which \<open>remove_subscriptions_done\<close> shows to be enough.
\<close>

fun remove_subscriptions :: "nat \<Rightarrow> string \<Rightarrow> string wi_set \<Rightarrow> string wi_set" where
  "remove_subscriptions 0 path s = s"
| "remove_subscriptions (Suc n) path s =
     (if wi_set_contains_data s path then remove_subscriptions n path (wi_set_remove_data s path) else s)"

definition wd_user_unsubscribe_paths :: "nat \<Rightarrow> wd_user \<Rightarrow> wd_user" where
  "wd_user_unsubscribe_paths page u =
     (let s = fold (\<lambda>path s. remove_subscriptions (wi_set_count_for_data s path + 1) path s)
                (wi_array_list (wi_set_all_data Default_Array_Callbacks page (u_subscribed_paths u))) (u_subscribed_paths u)
      in u\<lparr>u_subscribed_paths := s,
           u_subscribed_virtualpaths := wi_dictionary_remove_all (u_subscribed_virtualpaths u)\<rparr>)"

definition wd_user_subscribed_virtual_paths_for_path ::
  "wi_passwd \<Rightarrow> wd_user \<Rightarrow> string \<Rightarrow> string list wi_checked" where
  "wd_user_subscribed_virtual_paths_for_path home u path =
     (let virtual = (\<lambda>p. case wi_dictionary_data_for_key (u_subscribed_virtualpaths u) p of
                           Some v \<Rightarrow> [v] | None \<Rightarrow> [])
      in if wi_string_last_path_component path = WD_FILES_META_PATH then
           wi_checked_bind (wi_string_by_deleting_last_path_component home path) (\<lambda>path.
             if path \<noteq> ''/'' then
               wi_checked_bind (wi_string_by_deleting_last_path_component home path) (\<lambda>parent.
                 Inr (virtual path @ virtual parent))
             else Inr (virtual path))
         else Inr (virtual path))"

subsection \<open>Users that go\<close>

text \<open>The transfer queue, which \<open>wd_transfers_remove_user\<close> changes, is not modelled.\<close>

definition wd_users_remove_user :: "32 word \<Rightarrow> wd_server \<Rightarrow> wd_server" where
  "wd_users_remove_user uid sv =
     (let sv = wd_chats_remove_user uid sv;
          sv = wd_set_user (wd_user_unsubscribe_paths (sv_page sv)) uid sv
      in sv\<lparr>sv_users := wi_dictionary_remove (sv_users sv) uid\<rparr>)"

subsection \<open>The invariant\<close>

text \<open>
  A user is stored under its id, its containers are well-formed, and a user that is logged
  in has an account, client information and a nick. It need not have a login, see
  \<open>wd_message_send_login\<close>.
\<close>

definition user_ok :: "32 word \<Rightarrow> wd_user \<Rightarrow> bool" where
  "user_ok uid u \<longleftrightarrow> u_id u = uid \<and> set_keyed True (u_subscribed_paths u) \<and>
     dict_keyed (=) (u_subscribed_virtualpaths u) \<and>
     (u_state u = WD_USER_LOGGED_IN \<longrightarrow> u_account u \<noteq> None \<and> u_client_info u \<noteq> None \<and>
        u_nick u \<noteq> None) \<and>
     (u_state u \<noteq> WD_USER_CONNECTED \<and> u_state u \<noteq> WD_USER_DISCONNECTED \<longrightarrow> u_client_info u \<noteq> None)"

definition server_ok :: "wd_server \<Rightarrow> bool" where
  "server_ok sv \<longleftrightarrow> chats_ok sv \<and> (\<forall>uid u. wd_users_user_with_id sv uid = Some u \<longrightarrow> user_ok uid u)"

lemma server_okD:
  assumes "server_ok sv"
  shows "chats_ok sv" "wd_users_user_with_id sv uid = Some u \<Longrightarrow> user_ok uid u"
    "dict_keyed (=) (sv_users sv)" "dict_keyed (=) (sv_chats sv)" "0 < sv_page sv"
  using assms chats_okD [of sv] by (auto simp: server_ok_def)

lemma user_ok_quiet: "user_ok uid u \<Longrightarrow> user_quiet u u' \<Longrightarrow> user_ok uid u'"
  by (auto simp: user_ok_def user_quiet_def)

lemma server_ok_quiet:
  assumes "wd_quiet sv sv'" and "server_ok sv"
  shows "server_ok sv'"
proof -
  note r = wd_quiet_users(3) [OF assms(1) server_okD(3) [OF assms(2)]]
  have "user_ok uid u'" if "wd_users_user_with_id sv' uid = Some u'" for uid u'
    using r [of uid] that server_okD(2) [OF assms(2), of uid] user_ok_quiet
    by (cases "wi_dictionary_data_for_key (sv_users sv) uid") (auto simp: wd_users_user_with_id_def)
  then show ?thesis using chats_ok_quiet [OF assms(1) server_okD(1) [OF assms(2)]] by (simp add: server_ok_def)
qed

lemma server_ok_set_user:
  assumes "server_ok sv"
    and "\<And>u. wd_users_user_with_id sv uid = Some u \<Longrightarrow> user_ok uid u \<Longrightarrow> user_ok uid (f u)"
  shows "server_ok (wd_set_user f uid sv)"
  using assms(2) server_okD(1,2) [OF assms(1)] chats_ok_set_user [of sv f uid]
    wd_set_user_lookup(2) [OF server_okD(3) [OF assms(1)], of f uid]
  by (auto simp: server_ok_def wd_users_user_with_id_def split: if_splits)

lemma server_ok_chats: "server_ok sv \<Longrightarrow> chats_ok sv' \<Longrightarrow> sv_users sv' = sv_users sv \<Longrightarrow> server_ok sv'"
  by (simp add: server_ok_def wd_users_user_with_id_def)

lemma server_ok_cong:
  "server_ok sv \<Longrightarrow> sv_chats sv' = sv_chats sv \<Longrightarrow> sv_users sv' = sv_users sv \<Longrightarrow> sv_page sv' = sv_page sv \<Longrightarrow>
     server_ok sv'"
  by (rule server_ok_chats) (auto simp: server_ok_def intro: chats_ok_cong)

lemma wd_broadcast_quiets [wd_quiets]:
  "wd_quiet sv (wd_user_broadcast_status uid sv)"
  "wd_quiet sv (wd_user_broadcast_icon uid sv)"
  "wd_quiet sv (wd_users_reply_users uid m sv)"
  "wd_quiet sv (wd_chat_reply_user_list c uid m sv)"
  "wd_quiet sv (wd_chat_broadcast_user_leave c uid sv)"
  by (auto simp: wd_user_broadcast_status_def wd_user_broadcast_icon_def wd_users_reply_users_def Let_def
      wd_chat_reply_user_list_def wd_chat_broadcast_user_leave_def
      intro!: wd_quiet_fold wd_quiets intro: wd_quiet_trans [OF wd_quiet_fold wd_reply_quiets(1)])


subsection \<open>Subscriptions and removals\<close>

lemma wi_set_all_data_list:
  assumes "0 < page"
  shows "wi_array_list (wi_set_all_data cb page s) = map fst (concat (s_buckets s))"
  using wi_array_of_list [OF assms, of "map fst (concat (s_buckets s))" True "s_data_count s"]
  by (simp add: wi_set_all_data_def Let_def)

lemma remove_subscriptions_done:
  assumes "set_keyed True s" and "wi_set_count_for_data s path < n"
  shows "set_keyed True (remove_subscriptions n path s) \<and>
    wi_set_count_for_data (remove_subscriptions n path s) y = (if y = path then 0 else wi_set_count_for_data s y)"
  using assms
proof (induction n arbitrary: s)
  case (Suc n)
  note c = wi_set_contains_data [OF set_keyedD(2) [OF Suc.prems(1)]]
  show ?case
  proof (cases "wi_set_contains_data s path")
    case True
    have "wi_set_count_for_data (wi_set_remove_data s path) path < n"
      using Suc.prems True c by (simp add: wiset.occurrences_del [OF Suc.prems(1)] set_drop_def)
    from Suc.IH [OF wiset.ok_del [OF Suc.prems(1)] this] True
    show ?thesis by (simp add: wiset.occurrences_del [OF Suc.prems(1)])
  qed (use Suc.prems c in auto)
qed simp

lemma unsubscribe_all:
  assumes "set_keyed True s"
  defines "f \<equiv> \<lambda>path s. remove_subscriptions (wi_set_count_for_data s path + 1) path s"
  shows "set_keyed True (fold f ps s) \<and>
    wi_set_count_for_data (fold f ps s) y = (if y \<in> set ps then 0 else wi_set_count_for_data s y)"
  using assms(1)
proof (induction ps arbitrary: s)
  case (Cons p ps)
  have "set_keyed True (f p s)" "wi_set_count_for_data (f p s) y = (if y = p then 0 else wi_set_count_for_data s y)"
    using remove_subscriptions_done [OF Cons.prems, of p "wi_set_count_for_data s p + 1" y]
    unfolding f_def by simp_all
  with Cons.IH [of "f p s"] show ?case by (cases "y = p") simp_all
qed simp

lemma wd_user_unsubscribe_paths:
  assumes "0 < page" and "set_keyed True (u_subscribed_paths u)" and "dict_keyed (=) (u_subscribed_virtualpaths u)"
  shows "set_keyed True (u_subscribed_paths (wd_user_unsubscribe_paths page u))"
    and "wi_set_count_for_data (u_subscribed_paths (wd_user_unsubscribe_paths page u)) path = 0"
    and "dict_keyed (=) (u_subscribed_virtualpaths (wd_user_unsubscribe_paths page u))"
    and "wi_dictionary_data_for_key (u_subscribed_virtualpaths (wd_user_unsubscribe_paths page u)) k = None"
proof -
  let ?s = "u_subscribed_paths u"
  have m: "wi_set_count_for_data ?s p = 0" if "p \<notin> set (wi_array_list (wi_set_all_data Default_Array_Callbacks page ?s))" for p
    using set_keyed_entries(3) [OF assms(2), of p] that by (simp only: wi_set_all_data_list [OF assms(1)]) simp
  note f = unsubscribe_all [OF assms(2)]
  show "set_keyed True (u_subscribed_paths (wd_user_unsubscribe_paths page u))"
    "wi_set_count_for_data (u_subscribed_paths (wd_user_unsubscribe_paths page u)) path = 0"
    using f m by (simp_all add: wd_user_unsubscribe_paths_def Let_def)
  show "dict_keyed (=) (u_subscribed_virtualpaths (wd_user_unsubscribe_paths page u))"
    "wi_dictionary_data_for_key (u_subscribed_virtualpaths (wd_user_unsubscribe_paths page u)) k = None"
    using wi_dictionary_remove_all_keyed [OF assms(3)] by (simp_all add: wd_user_unsubscribe_paths_def Let_def)
qed

lemma user_ok_unsubscribe_paths:
  assumes "0 < page" and "user_ok uid u"
  shows "user_ok uid (wd_user_unsubscribe_paths page u)"
proof -
  have s: "u_id (wd_user_unsubscribe_paths page u) = u_id u" "u_state (wd_user_unsubscribe_paths page u) = u_state u"
    "u_account (wd_user_unsubscribe_paths page u) = u_account u" "u_nick (wd_user_unsubscribe_paths page u) = u_nick u"
    "u_login (wd_user_unsubscribe_paths page u) = u_login u"
    "u_client_info (wd_user_unsubscribe_paths page u) = u_client_info u"
    by (simp_all add: wd_user_unsubscribe_paths_def Let_def)
  show ?thesis using assms(2) wd_user_unsubscribe_paths(1,3) [OF assms(1)] by (auto simp: user_ok_def s)
qed

lemma wd_users_remove_user_lookup:
  assumes "server_ok sv"
  shows "wd_users_user_with_id (wd_users_remove_user uid sv) k = (if k = uid then None else wd_users_user_with_id sv k)"
    and "wd_chats_chat_with_id (wd_users_remove_user uid sv) cid =
      Option.bind (wd_chats_chat_with_id sv cid) (chat_without uid)"
    and "server_ok (wd_users_remove_user uid sv)"
proof -
  define sv1 where "sv1 = wd_chats_remove_user uid sv"
  define sv2 where "sv2 = wd_set_user (wd_user_unsubscribe_paths (sv_page sv1)) uid sv1"
  have r: "wd_users_remove_user uid sv = sv2\<lparr>sv_users := wi_dictionary_remove (sv_users sv2) uid\<rparr>"
    by (simp add: wd_users_remove_user_def Let_def sv1_def sv2_def)
  note c = wd_chats_remove_user [OF server_okD(4) [OF assms], of uid, folded sv1_def]
  have ok1: "server_ok sv1"
    using chats_ok_remove_user [OF server_okD(1) [OF assms], of uid] c(3)
    by (intro server_ok_chats [OF assms]) (simp_all add: sv1_def)
  have ok2: "server_ok sv2" unfolding sv2_def
    using server_okD(5) [OF ok1] by (intro server_ok_set_user [OF ok1] user_ok_unsubscribe_paths)
  have ch: "sv_chats sv2 = sv_chats sv1" "sv_page sv2 = sv_page sv1" by (simp_all add: sv2_def)
  note u = wd_set_user_lookup(2) [OF server_okD(3) [OF ok1], of "wd_user_unsubscribe_paths (sv_page sv1)" uid, folded sv2_def]
  note d = dict.lookup_del [OF server_okD(3) [OF ok2]]
  show l: "wd_users_user_with_id (wd_users_remove_user uid sv) k = (if k = uid then None else wd_users_user_with_id sv k)" for k
    by (simp add: r wd_users_user_with_id_def d u c(3))
  show cl: "wd_chats_chat_with_id (wd_users_remove_user uid sv) cid =
      Option.bind (wd_chats_chat_with_id sv cid) (chat_without uid)" for cid
    using c(2) by (simp add: r wd_chats_chat_with_id_def ch)
  have "chats_ok (wd_users_remove_user uid sv)"
  proof -
    have dom: "dom (wi_dictionary_data_for_key (sv_users (wd_users_remove_user uid sv))) =
        dom (wi_dictionary_data_for_key (sv_users sv)) - {uid}"
      using l by (auto simp: wd_users_user_with_id_def dom_def split: if_splits)
    have "chat_ok (wd_users_remove_user uid sv) cid' c'"
      if c': "wd_chats_chat_with_id (wd_users_remove_user uid sv) cid' = Some c'" for cid' c'
    proof -
      obtain c0 where c0: "wd_chats_chat_with_id sv cid' = Some c0" "chat_without uid c0 = Some c'"
        using c' unfolding cl by (cases "wd_chats_chat_with_id sv cid'") auto
      note ok0 = chats_okD(4) [OF server_okD(1) [OF assms] c0(1)]
      from chat_without_ok [OF ok0 c0(2)] show ?thesis by (auto simp: chat_ok_def dom)
    qed
    moreover have "wd_chats_chat_with_id (wd_users_remove_user uid sv) WD_PUBLIC_CHAT_ID \<noteq> None"
      using chats_okD(5) [OF chats_ok_remove_user [OF server_okD(1) [OF assms]], of uid] cl
        wd_chats_remove_user(2) [OF server_okD(4) [OF assms]] by simp
    ultimately show ?thesis
      using server_okD(5,4) [OF ok2] dict.ok_del [OF server_okD(3) [OF ok2]] by (auto simp: chats_ok_def r)
  qed
  then show "server_ok (wd_users_remove_user uid sv)"
    using server_okD(2) [OF assms] by (auto simp: server_ok_def l split: if_splits)
qed


text \<open>A user that connects.\<close>

lemma server_ok_add_user:
  assumes "server_ok sv" and "user_ok (u_id u) u"
  shows "server_ok (wd_users_add_user u sv)"
    and "wd_users_user_with_id (wd_users_add_user u sv) k = (if k = u_id u then Some u else wd_users_user_with_id sv k)"
proof -
  note d = server_okD(3) [OF assms(1)]
  show l: "wd_users_user_with_id (wd_users_add_user u sv) k = (if k = u_id u then Some u else wd_users_user_with_id sv k)" for k
    by (simp add: wd_users_add_user_def wd_users_user_with_id_def dict.lookup_put [OF d])
  have dom: "dom (wi_dictionary_data_for_key (sv_users sv)) \<subseteq> dom (wi_dictionary_data_for_key (sv_users (wd_users_add_user u sv)))"
    using l by (auto simp: wd_users_user_with_id_def dom_def)
  have f: "sv_chats (wd_users_add_user u sv) = sv_chats sv" "sv_page (wd_users_add_user u sv) = sv_page sv"
    "dict_keyed (=) (sv_users (wd_users_add_user u sv))"
    by (simp_all add: wd_users_add_user_def dict.ok_put [OF d])
  have "chats_ok (wd_users_add_user u sv)"
    using server_okD(1) [OF assms(1)] dom f by (fastforce simp: chats_ok_def chat_ok_def wd_chats_chat_with_id_def)
  then show "server_ok (wd_users_add_user u sv)"
    using server_okD(2) [OF assms(1)] assms(2) by (auto simp: server_ok_def l split: if_splits)
qed

lemma server_ok_initialize:
  assumes "0 < sv_page sv" and "sv_users sv = wi_dictionary_init (sv_page sv) True 0 wi_number_hash (=) Default_Value_Callbacks"
  shows "server_ok (wd_chats_initialize sv)" and "wd_users_user_with_id (wd_chats_initialize sv) uid = None"
proof -
  note d = dict_keyed_init [OF assms(1), of True 0 wi_number_hash Default_Value_Callbacks]
  have i: "sv_page (wd_chats_initialize sv) = sv_page sv" "sv_users (wd_chats_initialize sv) = sv_users sv"
    "sv_chats (wd_chats_initialize sv) = wi_dictionary_set (wi_dictionary_init (sv_page sv) True 0 wi_number_hash (=) Default_Value_Callbacks)
       ((wd_chat_init (sv_page sv) WD_PUBLIC_CHAT_ID)\<lparr>c_topic := sv_topic sv\<rparr>) WD_PUBLIC_CHAT_ID"
    by (simp_all add: wd_chats_initialize_def wd_chats_add_chat_def Let_def wd_chat_init_def)
  have c: "wd_chats_chat_with_id (wd_chats_initialize sv) cid = (if cid = WD_PUBLIC_CHAT_ID
      then Some ((wd_chat_init (sv_page sv) WD_PUBLIC_CHAT_ID)\<lparr>c_topic := sv_topic sv\<rparr>) else None)" for cid
    using assms by (simp add: wd_chats_chat_with_id_def i dict.lookup_put [OF d])
  show u: "wd_users_user_with_id (wd_chats_initialize sv) uid = None" for uid
    using assms by (simp add: wd_users_user_with_id_def i)
  have "chats_ok (wd_chats_initialize sv)"
    using assms by (auto simp: chats_ok_def c i d dict.ok_put [OF d] chat_ok_def wd_chat_init_def set_keyed_init split: if_splits)
  then show "server_ok (wd_chats_initialize sv)" by (simp add: server_ok_def u)
qed

lemma server_ok_start: "0 < page \<Longrightarrow> server_ok (wd_chats_initialize (wd_server_start page))"
  by (rule server_ok_initialize) (simp_all add: wd_server_start_def)

lemma wd_user_init_ok:
  assumes "0 < sv_page sv"
  shows "user_ok (u_id (fst (wd_user_init_with_socket ip host cipher sv))) (fst (wd_user_init_with_socket ip host cipher sv))"
  using assms by (simp add: wd_user_init_with_socket_def wd_user_next_id_def Let_def user_ok_def set_keyed_init dict_keyed_init)

text \<open>The idle timer only marks users and sends.\<close>

definition idle_due :: "wd_server \<Rightarrow> wd_user \<Rightarrow> bool" where
  "idle_due sv u \<longleftrightarrow> u_state u = WD_USER_LOGGED_IN \<and> \<not> u_idle u \<and> u_idle_time u + WD_USERS_IDLE_TIME < sv_now sv"

definition idle_step :: "wd_server \<Rightarrow> wd_user \<Rightarrow> wd_user \<Rightarrow> bool" where
  "idle_step sv u u' \<longleftrightarrow>
     u' = u\<lparr>u_idle := u_idle u', u_state := u_state u'\<rparr> \<and>
     (u_state u' = u_state u \<or> u_state u' = WD_USER_DISCONNECTED) \<and>
     (u_idle u' = u_idle u \<or> u_idle u' \<and> idle_due sv u)"

lemma idle_step_quiet: "idle_step sv u v \<Longrightarrow> user_quiet v w \<Longrightarrow> idle_step sv u w"
  unfolding idle_step_def user_quiet_def by (elim conjE disjE) (auto intro!: wd_user.equality)

lemma idle_step_due:
  assumes "idle_step sv u v" and "idle_due sv' v" and "sv_now sv' = sv_now sv"
  shows "idle_step sv u (v\<lparr>u_idle := True\<rparr>)"
proof -
  have v: "v = u\<lparr>u_idle := u_idle v, u_state := u_state v\<rparr>" using assms(1) by (simp add: idle_step_def)
  have "u_idle_time v = u_idle_time u" by (subst v) simp
  then have "idle_due sv u"
    using assms by (auto simp: idle_due_def idle_step_def)
  moreover have "v\<lparr>u_idle := True\<rparr> = u\<lparr>u_idle := True, u_state := u_state v\<rparr>" by (subst v) simp
  ultimately show ?thesis using assms(1) by (simp add: idle_step_def)
qed


definition idle_run :: "wd_server \<Rightarrow> 32 word set \<Rightarrow> wd_server \<Rightarrow> bool" where
  "idle_run sv P sv' \<longleftrightarrow> server_ok sv' \<and> sv_now sv' = sv_now sv \<and>
     (\<forall>uid u. wd_users_user_with_id sv uid = Some u \<longrightarrow>
        (\<exists>u'. wd_users_user_with_id sv' uid = Some u' \<and> idle_step sv u u' \<and>
              (uid \<in> P \<longrightarrow> idle_due sv u \<longrightarrow> u_idle u' \<or> u_state u' = WD_USER_DISCONNECTED)))"

lemma idle_run_quiet:
  assumes "idle_run sv P sv'" and "wd_quiet sv' sv''"
  shows "idle_run sv P sv''"
proof -
  have ok: "server_ok sv'" and "sv_now sv' = sv_now sv" using assms(1) by (simp_all add: idle_run_def)
  moreover have "\<exists>u''. wd_users_user_with_id sv'' uid = Some u'' \<and> idle_step sv u u'' \<and>
      (uid \<in> P \<longrightarrow> idle_due sv u \<longrightarrow> u_idle u'' \<or> u_state u'' = WD_USER_DISCONNECTED)"
    if u: "wd_users_user_with_id sv uid = Some u" for uid u
  proof -
    from assms(1) u obtain u' where u': "wd_users_user_with_id sv' uid = Some u'" "idle_step sv u u'"
      "uid \<in> P \<longrightarrow> idle_due sv u \<longrightarrow> u_idle u' \<or> u_state u' = WD_USER_DISCONNECTED"
      unfolding idle_run_def by blast
    from wd_quiet_users(3) [OF assms(2) server_okD(3) [OF ok], of uid] u'(1)
    obtain u'' where u'': "wd_users_user_with_id sv'' uid = Some u''" "user_quiet u' u''"
      by (cases "wi_dictionary_data_for_key (sv_users sv'') uid") (auto simp: wd_users_user_with_id_def)
    have "u_idle u'' = u_idle u'" "u_state u' = WD_USER_DISCONNECTED \<longrightarrow> u_state u'' = WD_USER_DISCONNECTED"
      using u''(2) by (auto simp: user_quiet_def)
    with u''(1) idle_step_quiet [OF u'(2) u''(2)] u'(3) show ?thesis by auto
  qed
  ultimately show ?thesis
    using server_ok_quiet [OF assms(2) ok] wd_quiet_fields(9) [OF assms(2)] by (simp add: idle_run_def)
qed

lemma idle_run_step:
  assumes "idle_run sv P sv'"
  shows "idle_run sv (insert uid P) (wd_users_update_idle_user uid sv')"
proof (cases "idle_due sv' (wd_user sv' uid)")
  case False
  have "idle_run sv (insert uid P) sv'"
  proof -
    have "u_idle u' \<or> u_state u' = WD_USER_DISCONNECTED"
      if u: "wd_users_user_with_id sv uid = Some u" "wd_users_user_with_id sv' uid = Some u'" "idle_step sv u u'" "idle_due sv u" for u u'
    proof -
      have u': "u' = u\<lparr>u_idle := u_idle u', u_state := u_state u'\<rparr>" using u(3) by (simp add: idle_step_def)
      have "u_idle_time u' = u_idle_time u" by (subst u') simp
      moreover have "\<not> idle_due sv' u'" using False u(2) by (simp add: wd_user_def wd_users_user_with_id_def)
      moreover have "sv_now sv' = sv_now sv" using assms by (simp add: idle_run_def)
      ultimately show ?thesis using u(3,4) by (auto simp: idle_due_def idle_step_def)
    qed
    then show ?thesis using assms unfolding idle_run_def by blast
  qed
  then show ?thesis using False by (auto simp: wd_users_update_idle_user_def idle_due_def Let_def)
next
  case True
  let ?sv1 = "wd_set_user (\<lambda>u. u\<lparr>u_idle := True\<rparr>) uid sv'"
  have ok: "server_ok sv'" and now: "sv_now sv' = sv_now sv" using assms by (simp_all add: idle_run_def)
  have l: "wd_users_user_with_id ?sv1 k = (if k = uid then map_option (\<lambda>u. u\<lparr>u_idle := True\<rparr>) (wd_users_user_with_id sv' uid)
      else wd_users_user_with_id sv' k)" for k
    by (simp add: wd_users_user_with_id_def wd_set_user_lookup(2) [OF server_okD(3) [OF ok]])
  have "server_ok ?sv1" by (rule server_ok_set_user [OF ok]) (simp add: user_ok_def)
  moreover have "sv_now ?sv1 = sv_now sv" using now by (simp add: wd_set_user_def split: option.split)
  moreover have "\<exists>u'. wd_users_user_with_id ?sv1 k = Some u' \<and> idle_step sv u u' \<and>
      (k \<in> insert uid P \<longrightarrow> idle_due sv u \<longrightarrow> u_idle u' \<or> u_state u' = WD_USER_DISCONNECTED)"
    if u: "wd_users_user_with_id sv k = Some u" for k u
  proof -
    from assms u obtain u' where u': "wd_users_user_with_id sv' k = Some u'" "idle_step sv u u'"
      "k \<in> P \<longrightarrow> idle_due sv u \<longrightarrow> u_idle u' \<or> u_state u' = WD_USER_DISCONNECTED"
      unfolding idle_run_def by blast
    show ?thesis
    proof (cases "k = uid")
      case k: True
      with u'(1) True have "idle_due sv' u'" by (simp add: wd_user_def wd_users_user_with_id_def)
      from idle_step_due [OF u'(2) this now] k u'(1) show ?thesis by (simp add: l)
    next
      case False
      with u' show ?thesis by (simp add: l)
    qed
  qed
  ultimately have "idle_run sv (insert uid P) ?sv1" by (simp add: idle_run_def)
  then have "idle_run sv (insert uid P) (wd_user_broadcast_status uid ?sv1)"
    by (rule idle_run_quiet) (rule wd_broadcast_quiets)
  then show ?thesis using True by (simp add: wd_users_update_idle_user_def idle_due_def Let_def)
qed

lemma idle_run_fold:
  "idle_run sv P sv' \<Longrightarrow> idle_run sv (P \<union> set ks) (fold wd_users_update_idle_user ks sv')"
proof (induction ks arbitrary: P sv')
  case (Cons k ks)
  from Cons.IH [OF idle_run_step [OF Cons.prems, of k]] show ?case by simp
qed simp

subsection \<open>Properties\<close>

text \<open>
  C18: When a user is removed, it is gone from the table and from every chat, everybody
  else is still registered unchanged, and the invariant of users and chats holds: every
  member of a chat is registered.
\<close>
theorem wd_users_remove_user_effect:
  assumes "server_ok sv"
  shows "server_ok (wd_users_remove_user uid sv) \<and>
    wd_users_user_with_id (wd_users_remove_user uid sv) uid = None \<and>
    (\<forall>k. k \<noteq> uid \<longrightarrow> wd_users_user_with_id (wd_users_remove_user uid sv) k = wd_users_user_with_id sv k) \<and>
    (\<forall>cid c. wd_chats_chat_with_id (wd_users_remove_user uid sv) cid = Some c \<longrightarrow> \<not> wd_chat_contains_user c uid)"
proof -
  note r = wd_users_remove_user_lookup [OF assms, of uid]
  have "\<not> wd_chat_contains_user c uid" if c: "wd_chats_chat_with_id (wd_users_remove_user uid sv) cid = Some c" for cid c
  proof -
    obtain c0 where c0: "wd_chats_chat_with_id sv cid = Some c0" "chat_without uid c0 = Some c"
      using c unfolding r(2) by (cases "wd_chats_chat_with_id sv cid") auto
    show ?thesis by (rule chat_without_ok(2) [OF chats_okD(4) [OF server_okD(1) [OF assms] c0(1)] c0(2)])
  qed
  then show ?thesis using r by auto
qed

text \<open>
  The idle timer marks exactly the logged-in users whose last activity is more than
  ten minutes ago. It changes nothing else of any user, but that a user whose socket fails
  while the news are sent becomes disconnected.
\<close>
theorem wd_users_update_idle_marks:
  assumes "server_ok sv" and "wd_users_user_with_id sv uid = Some u"
  shows "server_ok (wd_users_update_idle sv) \<and>
    (\<exists>u'. wd_users_user_with_id (wd_users_update_idle sv) uid = Some u' \<and>
       u' = u\<lparr>u_idle := u_idle u', u_state := u_state u'\<rparr> \<and>
       (u_state u' = u_state u \<or> u_state u' = WD_USER_DISCONNECTED) \<and>
       (u_idle u' \<longrightarrow> u_idle u \<or> idle_due sv u) \<and> (u_idle u \<longrightarrow> u_idle u') \<and>
       (idle_due sv u \<longrightarrow> u_idle u' \<or> u_state u' = WD_USER_DISCONNECTED))"
proof -
  note k = dict_keys_entries(3) [OF server_okD(3) [OF assms(1)]]
  have "idle_run sv {} sv" using assms(1) by (simp add: idle_run_def idle_step_def)
  from idle_run_fold [OF this, of "dict_keys (sv_users sv)"]
  have r: "idle_run sv (set (dict_keys (sv_users sv))) (fold wd_users_update_idle_user (dict_keys (sv_users sv)) sv)" by simp
  have u: "uid \<in> set (dict_keys (sv_users sv))" using assms(2) k by (auto simp: wd_users_user_with_id_def)
  then have "wi_dictionary_count (sv_users sv) > 0"
    using dict_keyed_entries(3) [OF server_okD(3) [OF assms(1)]]
    by (simp only: k [symmetric]) (metis List.finite_set card_gt_0_iff emptyE)
  then have e: "wd_users_update_idle sv = fold wd_users_update_idle_user (dict_keys (sv_users sv)) sv"
    by (simp add: wd_users_update_idle_def)
  from r u assms(2) show ?thesis unfolding e idle_run_def idle_step_def by blast
qed


text \<open>A server with one user that has just connected, for the examples.\<close>

definition wd_server_one :: wd_server where
  "wd_server_one =
     (let sv = wd_chats_initialize (wd_server_start 4)
      in wd_users_add_user (fst (wd_user_init_with_socket ''10.0.0.1'' ''host'' None sv)) (snd (wd_user_init_with_socket ''10.0.0.1'' ''host'' None sv)))"

definition wd_user_one :: wd_user where
  "wd_user_one = fst (wd_user_init_with_socket ''10.0.0.1'' ''host'' None (wd_chats_initialize (wd_server_start 4)))"

lemma wd_server_one:
  "server_ok wd_server_one" "wd_users_user_with_id wd_server_one k = (if k = 1 then Some wd_user_one else None)"
  "user_ok 1 wd_user_one" "u_state wd_user_one = WD_USER_CONNECTED" "u_client_info wd_user_one = None"
proof -
  let ?sv = "wd_chats_initialize (wd_server_start 4)"
  have s: "server_ok ?sv" by (rule server_ok_start) simp
  have n: "sv_users_current_id ?sv = 0" "sv_page ?sv = 4"
    by (simp_all add: wd_chats_initialize_def wd_chats_add_chat_def Let_def wd_server_start_def)
  have e: "wd_users_user_with_id ?sv k = None" for k
    by (simp add: wd_users_user_with_id_def wd_chats_initialize_def wd_chats_add_chat_def Let_def wd_server_start_def)
  have i: "u_id wd_user_one = 1"
    by (simp add: wd_user_one_def wd_user_init_with_socket_def wd_user_next_id_def n Let_def)
  show ok: "user_ok 1 wd_user_one"
    using wd_user_init_ok [of ?sv "''10.0.0.1''" "''host''" None] n i by (simp add: wd_user_one_def)
  let ?sv' = "snd (wd_user_init_with_socket ''10.0.0.1'' ''host'' None ?sv)"
  have o: "wd_server_one = wd_users_add_user wd_user_one ?sv'" by (simp add: wd_server_one_def wd_user_one_def Let_def)
  have f: "sv_chats ?sv' = sv_chats ?sv" "sv_users ?sv' = sv_users ?sv" "sv_page ?sv' = sv_page ?sv"
    by (simp_all add: wd_user_init_with_socket_def wd_user_next_id_def Let_def)
  have s': "server_ok ?sv'" by (rule server_ok_cong [OF s f])
  note a = server_ok_add_user [OF s', of wd_user_one]
  show "server_ok wd_server_one" using a(1) ok i by (simp add: o)
  have "wd_users_user_with_id ?sv' k = None" using e by (simp add: wd_users_user_with_id_def f)
  then show "wd_users_user_with_id wd_server_one k = (if k = 1 then Some wd_user_one else None)"
    using a(2) ok i by (simp add: o)
  show "u_state wd_user_one = WD_USER_CONNECTED" "u_client_info wd_user_one = None"
    by (simp_all add: wd_user_one_def wd_user_init_with_socket_def wd_user_next_id_def Let_def)
qed

theorem wd_users_remove_user_effect_witness:
  "wd_users_user_with_id (wd_users_remove_user 1 wd_server_one) 1 = None"
  using wd_users_remove_user_effect [OF wd_server_one(1), of 1] by simp

theorem wd_users_update_idle_marks_example:
  "\<exists>u'. wd_users_user_with_id (wd_users_update_idle wd_server_one) 1 = Some u' \<and> u_id u' = 1"
proof -
  have "wd_users_user_with_id wd_server_one 1 = Some wd_user_one" by (simp add: wd_server_one(2))
  from wd_users_update_idle_marks [OF wd_server_one(1) this] obtain u' where
    u: "wd_users_user_with_id (wd_users_update_idle wd_server_one) 1 = Some u'"
    "u' = wd_user_one\<lparr>u_idle := u_idle u', u_state := u_state u'\<rparr>" by blast
  have "u_id u' = u_id wd_user_one" by (subst u(2)) simp
  with u(1) wd_server_one(3) show ?thesis by (auto simp: user_ok_def)
qed

lemma metapath_differs: "wi_string_by_appending_path_component p WD_FILES_META_PATH \<noteq> p"
  by (auto simp: wi_string_by_appending_path_component_def WD_FILES_META_PATH_def wi_string_has_prefix_def
      dest: arg_cong [of _ _ length])

text \<open>
  A change at a subscribed directory or at its metadata is announced under the
  virtual path of the subscription.
\<close>
theorem wd_user_subscription_found:
  assumes "user_ok uid u" and "plain_parts cs" and "''..'' \<notin> set cs" and "WD_FILES_META_PATH \<notin> set cs"
  defines "realpath \<equiv> ''/'' @ wi_components_joined_by_string cs ''/''"
  shows "wd_user_subscribed_virtual_paths_for_path home (wd_user_subscribe_path path realpath u) realpath = Inr [path] \<and>
    (\<exists>vs. wd_user_subscribed_virtual_paths_for_path home (wd_user_subscribe_path path realpath u)
       (wi_string_by_appending_path_component realpath WD_FILES_META_PATH) = Inr vs \<and> path \<in> set vs)"
proof
  have d: "dict_keyed (=) (u_subscribed_virtualpaths u)" using assms(1) by (simp add: user_ok_def)
  let ?u = "wd_user_subscribe_path path realpath u"
  have v: "wi_dictionary_data_for_key (u_subscribed_virtualpaths ?u) realpath = Some path"
    by (simp add: wd_user_subscribe_path_def Let_def dict.lookup_put [OF d])
  have dots: "''..'' \<notin> set (tl cs)" using assms(3) by (cases cs) auto
  have last_real: "wi_string_last_path_component realpath \<noteq> WD_FILES_META_PATH"
  proof (cases cs rule: rev_cases)
    case Nil
    then show ?thesis by (simp add: realpath_def wi_string_last_path_component_def WD_FILES_META_PATH_def)
  next
    case (snoc ds c)
    have c: "c \<noteq> []" "CHR ''/'' \<notin> set c" and ds: "plain_parts ds" "''..'' \<notin> set (tl ds)"
      using assms(2,3) snoc by (cases ds; auto simp: plain_parts_def)+
    have "realpath = wi_string_by_appending_path_component (''/'' @ wi_components_joined_by_string ds ''/'') c"
      using append_component_join [OF ds(1) c] by (simp add: realpath_def snoc)
    then have "wi_string_last_path_component realpath = c"
      using wi_string_last_append_plain [OF ds(1) c] by simp
    with assms(4) snoc show ?thesis by auto
  qed
  then show "wd_user_subscribed_virtual_paths_for_path home ?u realpath = Inr [path]"
    by (simp add: wd_user_subscribed_virtual_paths_for_path_def v Let_def)
  have m: "WD_FILES_META_PATH \<noteq> []" "CHR ''/'' \<notin> set WD_FILES_META_PATH" by (simp_all add: WD_FILES_META_PATH_def)
  let ?m = "wi_string_by_appending_path_component realpath WD_FILES_META_PATH"
  have l: "wi_string_last_path_component ?m = WD_FILES_META_PATH"
    "wi_string_by_deleting_last_path_component home ?m = Inr realpath"
    unfolding realpath_def
    by (rule wi_string_last_append_plain [OF assms(2) m], rule wi_string_delete_append_plain [OF assms(2) dots m])
  obtain q where "realpath \<noteq> ''/'' \<longrightarrow> wi_string_by_deleting_last_path_component home realpath = Inr q"
    using wi_string_delete_absolute [of realpath home] by (auto simp: realpath_def wi_string_has_prefix_def)
  then show "\<exists>vs. wd_user_subscribed_virtual_paths_for_path home ?u ?m = Inr vs \<and> path \<in> set vs"
    by (cases "realpath \<noteq> ''/''")
      (simp_all only: wd_user_subscribed_virtual_paths_for_path_def l v Let_def if_True if_False wi_checked_bind_simps
        option.case, simp_all)
qed

theorem wd_user_subscription_found_example:
  "wd_user_subscribed_virtual_paths_for_path no_passwd (wd_user_subscribe_path ''/a'' ''/srv/a'' wd_user_one) ''/srv/a'' = Inr [''/a'']"
  using wd_user_subscription_found [OF wd_server_one(3), of "[''srv'', ''a'']" no_passwd "''/a''"]
  by (simp add: plain_parts_def WD_FILES_META_PATH_def)

text \<open>
  Unsubscribing from a directory takes back the subscription of the directory itself
  but adds one more for its metadata instead of removing it: a subscription and its
  removal leave the metadata subscribed twice more. Only the removal of all subscriptions
  ends them.
\<close>
theorem wd_user_unsubscribe_keeps_metapath:
  fixes realpath path :: string
  assumes "user_ok uid u" and "0 < page"
  defines "u' \<equiv> wd_user_unsubscribe_path realpath (wd_user_subscribe_path path realpath u)"
    and "metapath \<equiv> wi_string_by_appending_path_component realpath WD_FILES_META_PATH"
  shows "wi_set_count_for_data (u_subscribed_paths u') realpath = wi_set_count_for_data (u_subscribed_paths u) realpath \<and>
    wi_set_count_for_data (u_subscribed_paths u') metapath = wi_set_count_for_data (u_subscribed_paths u) metapath + 2 \<and>
    user_ok uid u' \<and>
    (\<forall>p. wi_set_count_for_data (u_subscribed_paths (wd_user_unsubscribe_paths page u')) p = 0)"
proof -
  have s: "set_keyed True (u_subscribed_paths u)" and d: "dict_keyed (=) (u_subscribed_virtualpaths u)"
    using assms(1) by (simp_all add: user_ok_def)
  let ?s = "u_subscribed_paths u"
  have m: "metapath \<noteq> realpath" "realpath \<noteq> metapath" using metapath_differs unfolding metapath_def by metis+
  have u': "u_subscribed_paths u' =
      wi_set_add_data (wi_set_remove_data (wi_set_add_data (wi_set_add_data ?s realpath) metapath) realpath) metapath"
    "u_subscribed_virtualpaths u' = wi_dictionary_remove (wi_dictionary_set (u_subscribed_virtualpaths u) path realpath) realpath"
    "u_id u' = u_id u" "u_state u' = u_state u" "u_account u' = u_account u" "u_client_info u' = u_client_info u"
    "u_nick u' = u_nick u" "u_login u' = u_login u"
    by (simp_all add: u'_def wd_user_unsubscribe_path_def wd_user_subscribe_path_def metapath_def Let_def)
  note a1 = wiset.ok_add [OF s, of realpath] note a2 = wiset.ok_add [OF a1, of metapath]
  note a3 = wiset.ok_del [OF a2, of realpath] note a4 = wiset.ok_add [OF a3, of metapath]
  have ok: "user_ok uid u'"
    using assms(1) a4 dict.ok_del [OF dict.ok_put [OF d]] by (simp add: user_ok_def u')
  have c: "wi_set_count_for_data (u_subscribed_paths u') y =
      wi_set_count_for_data ?s y + (if y = metapath then 2 else 0)" for y
    unfolding u' using m
    by (cases "y = realpath"; cases "y = metapath") (simp_all add: wiset.occurrences_add [OF s]
        wiset.occurrences_add [OF a1] wiset.occurrences_del [OF a2] wiset.occurrences_add [OF a3] set_drop_def)
  show ?thesis
    using c ok m wd_user_unsubscribe_paths(2) [OF assms(2), of u'] by (simp add: user_ok_def)
qed

theorem wd_user_unsubscribe_keeps_metapath_example:
  "wi_set_count_for_data (u_subscribed_paths
     (wd_user_unsubscribe_path ''/srv/a'' (wd_user_subscribe_path ''/a'' ''/srv/a'' wd_user_one))) ''/srv/a/.wired'' = 2"
proof -
  have "wi_set_count_for_data (u_subscribed_paths wd_user_one) p = 0" for p
    by (simp add: wd_user_one_def wd_user_init_with_socket_def wd_user_next_id_def Let_def
        wd_chats_initialize_def wd_chats_add_chat_def wd_server_start_def)
  then show ?thesis
    using wd_user_unsubscribe_keeps_metapath [OF wd_server_one(3), of 4 "''/srv/a''" "''/a''"]
    by (simp add: wi_string_by_appending_path_component_def WD_FILES_META_PATH_def wi_string_has_suffix_def)
qed

end
