(* ===== verification/Wd_Events.thy ===== *)
theory Wd_Events
  imports Wd_Users
begin

text \<open>
  The log of events (events.c): a table of what users did, kept for the time the setting
  "events time" names, and sent to the users that subscribed to it. The order of rows with
  the same time is that of SQLite's index on the time.
\<close>

subsection \<open>Adding\<close>

definition wd_events_interval :: "int \<Rightarrow> string \<Rightarrow> int" where
  "wd_events_interval uninitialised events_time =
     (if events_time = ''minutely'' then 60
      else if events_time = ''hourly'' then 3600
      else if events_time = ''daily'' then 24 * 3600
      else if events_time = ''weekly'' then 7 * 24 * 3600
      else if events_time = ''monthly'' then 30 * 7 * 24 * 3600
      else if events_time = ''yearly'' then 12 * 30 * 7 * 24 * 3600
      else uninitialised)"

definition wd_events_delete_older_events :: "wd_server \<Rightarrow> wd_server wd_result" where
  "wd_events_delete_older_events sv =
     (case sv_events_time sv of
        None \<Rightarrow> Inr sv
      | Some events_time \<Rightarrow>
          if events_time = ''none'' then Inr sv
          else
            let interval = wd_events_interval (sv_uninitialised sv) events_time
            in if \<not> sv_db_ok sv then Inl Transaction_Failed
               else Inr (sv\<lparr>sv_events := filter (\<lambda>e. \<not> ev_time e \<le> sv_now sv - interval) (sv_events sv)\<rparr>))"

text \<open>
  The query for an earlier event of the same kind gets its arguments up to the first NULL;
  with a nick or a login missing it compares with NULL and finds nothing.
\<close>

definition wd_events_has_event :: "string \<Rightarrow> wd_user \<Rightarrow> wd_event list \<Rightarrow> bool" where
  "wd_events_has_event event u evs \<longleftrightarrow>
     u_nick u \<noteq> None \<and> u_login u \<noteq> None \<and>
     list_ex (\<lambda>e. ev_event e = event \<and> ev_nick e = u_nick u \<and> ev_login e = u_login u \<and> ev_ip e = u_ip u) evs"

definition WD_EVENTS_SEPARATOR :: string where "WD_EVENTS_SEPARATOR = [CHR 0x1C]"

definition wd_event_message :: "string \<Rightarrow> string list \<Rightarrow> wd_user \<Rightarrow> int \<Rightarrow> p7_message" where
  "wd_event_message event parameters u date =
     \<lparr>m_name = ''wired.event.event'',
      m_fields =
        [(''wired.event.event'', P7_Enum event), (''wired.event.time'', P7_Date date)] @
        (if length parameters > 0 then [(''wired.event.parameters'', P7_List parameters)] else []) @
        [(''wired.user.nick'', P7_String (case u_nick u of Some s \<Rightarrow> s | None \<Rightarrow> [])),
         (''wired.user.login'', P7_String (case u_login u of Some s \<Rightarrow> s | None \<Rightarrow> [])),
         (''wired.user.ip'', P7_String (u_ip u))]\<rparr>"

definition wd_events_new_event :: "string \<Rightarrow> string list \<Rightarrow> wd_user \<Rightarrow> int \<Rightarrow> wd_event" where
  "wd_events_new_event event parameters u date =
     \<lparr>ev_event = event,
      ev_parameters = (if length parameters > 0
        then Some (wi_components_joined_by_string parameters WD_EVENTS_SEPARATOR) else None),
      ev_time = date, ev_nick = u_nick u, ev_login = u_login u, ev_ip = u_ip u\<rparr>"

definition wd_events_broadcast_event :: "p7_message \<Rightarrow> wd_server \<Rightarrow> wd_server" where
  "wd_events_broadcast_event message sv =
     fold (\<lambda>peer sv.
         if u_state (wd_user sv peer) = WD_USER_LOGGED_IN \<and> u_subscribed_events (wd_user sv peer)
         then wd_user_send_message peer message sv else sv)
       (dict_keys (sv_users sv)) sv"

text \<open>The arguments after the user are a list that ends at its first NULL.\<close>

definition wd_events_add_event :: "string \<Rightarrow> 32 word \<Rightarrow> string option list \<Rightarrow> wd_server \<Rightarrow> wd_server wd_result" where
  "wd_events_add_event event uid arguments sv =
     wd_bind (wd_events_delete_older_events sv) (\<lambda>sv.
       let u = wd_user sv uid
       in if sv_db_ok sv \<and> wd_events_has_event event u (sv_events sv) \<and>
             (event = ''wired.event.user.got_users'' \<or> event = ''wired.event.user.got_info'')
          then Inr sv
          else if \<not> sv_db_ok sv then Inr sv
          else
            let parameters = map the (takeWhile (\<lambda>p. p \<noteq> None) arguments);
                e = wd_events_new_event event parameters u (sv_now sv);
                message = wd_event_message event parameters u (sv_now sv)
            in Inr (wd_events_broadcast_event message (sv\<lparr>sv_events := sv_events sv @ [e]\<rparr>)))"

subsection \<open>Listing\<close>

text \<open>
  The time of the first event is read as text and then sent as if it were a date object;
  \<open>sv_uninitialised\<close> is the number found in its memory.
\<close>

definition wd_events_reply_first_time :: "32 word \<Rightarrow> p7_message \<Rightarrow> wd_server \<Rightarrow> bool \<times> wd_server" where
  "wd_events_reply_first_time uid m sv =
     (if \<not> sv_db_ok sv then (False, wd_user_reply_internal_error uid (Some ''database'') m sv)
      else
        let date = (if sv_events sv \<noteq> [] then sv_uninitialised sv else sv_now sv)
        in (True, wd_user_reply_message uid
             \<lparr>m_name = ''wired.event.first_time'', m_fields = [(''wired.event.first_time'', P7_Date date)]\<rparr> m sv))"

definition wd_event_list_message :: "wd_event \<Rightarrow> p7_message" where
  "wd_event_list_message e =
     \<lparr>m_name = ''wired.event.event_list'',
      m_fields =
        [(''wired.event.event'', P7_Enum (ev_event e)), (''wired.event.time'', P7_Date (ev_time e))] @
        opt_field ''wired.event.parameters'' (\<lambda>p. P7_List (wi_string_components_separated_by_string p WD_EVENTS_SEPARATOR))
          (ev_parameters e) @
        [(''wired.user.nick'', P7_String (case ev_nick e of Some s \<Rightarrow> s | None \<Rightarrow> [])),
         (''wired.user.login'', P7_String (case ev_login e of Some s \<Rightarrow> s | None \<Rightarrow> [])),
         (''wired.user.ip'', P7_String (ev_ip e))]\<rparr>"

text \<open>The count is bound as a signed 32-bit number; SQLite takes a negative limit as none.\<close>

definition wd_events_select :: "int option \<Rightarrow> 32 word \<Rightarrow> 32 word \<Rightarrow> wd_event list \<Rightarrow> wd_event list" where
  "wd_events_select fromtime numberofdays lasteventcount evs =
     (case fromtime of
        Some t \<Rightarrow>
          if numberofdays > 0
          then filter (\<lambda>e. t \<le> ev_time e \<and> ev_time e \<le> t + uint numberofdays * 24 * 3600) evs
          else filter (\<lambda>e. t \<le> ev_time e) evs
      | None \<Rightarrow>
          let newest = rev (sort_key ev_time evs)
          in if sint lasteventcount < 0 then newest else take (nat (sint lasteventcount)) newest)"

definition wd_events_reply_events ::
  "int option \<Rightarrow> 32 word \<Rightarrow> 32 word \<Rightarrow> 32 word \<Rightarrow> p7_message \<Rightarrow> wd_server \<Rightarrow> bool \<times> wd_server" where
  "wd_events_reply_events fromtime numberofdays lasteventcount uid m sv =
     (if \<not> sv_db_ok sv then (False, wd_user_reply_internal_error uid (Some ''database'') m sv)
      else
        let sv' = fold (\<lambda>e. wd_user_reply_message uid (wd_event_list_message e) m)
                    (wd_events_select fromtime numberofdays lasteventcount (sv_events sv)) sv
        in (True, wd_user_reply_message uid \<lparr>m_name = ''wired.event.event_list.done'', m_fields = []\<rparr> m sv'))"

definition wd_events_delete_events :: "wd_server \<Rightarrow> (bool \<times> wd_server) wd_result" where
  "wd_events_delete_events sv =
     (if \<not> sv_db_ok sv then Inl Transaction_Failed else Inr (True, sv\<lparr>sv_events := []\<rparr>))"

subsection \<open>Facts\<close>

lemma wd_events_broadcast_event_quiet [wd_quiets]: "wd_quiet sv (wd_events_broadcast_event message sv)"
  unfolding wd_events_broadcast_event_def by (rule wd_quiet_fold) (simp add: wd_quiets)

lemma wd_events_delete_older_events:
  assumes "wd_events_delete_older_events sv = Inr sv1"
  shows "\<exists>evs. sv1 = sv\<lparr>sv_events := evs\<rparr>"
proof -
  have "sv = sv\<lparr>sv_events := sv_events sv\<rparr>" by simp
  then show ?thesis
    using assms by (auto simp: wd_events_delete_older_events_def Let_def split: option.splits if_splits intro: exI [of _ "sv_events sv"])
qed

text \<open>What a call does once the old events are gone.\<close>

lemma wd_events_add_event_pruned:
  fixes arguments :: "string option list" and uid :: "32 word"
  assumes "wd_events_delete_older_events sv = Inr (sv\<lparr>sv_events := kept\<rparr>)" and "sv_db_ok sv"
  defines "ps \<equiv> map the (takeWhile (\<lambda>p. p \<noteq> None) arguments)" and "u \<equiv> wd_user sv uid"
  shows "wd_events_add_event event uid arguments sv =
    Inr (if wd_events_has_event event u kept \<and> event \<in> {''wired.event.user.got_users'', ''wired.event.user.got_info''}
         then sv\<lparr>sv_events := kept\<rparr>
         else wd_events_broadcast_event (wd_event_message event ps u (sv_now sv))
                (sv\<lparr>sv_events := kept @ [wd_events_new_event event ps u (sv_now sv)]\<rparr>))"
proof -
  have u: "wd_user (sv\<lparr>sv_events := kept\<rparr>) uid = u" by (simp add: wd_user_def u_def)
  show ?thesis
    unfolding wd_events_add_event_def assms(1) wd_bind_simps Let_def u ps_def
    using assms(2) by auto
qed

lemma wd_events_add_event_quiet:
  assumes "wd_events_add_event event uid arguments sv = Inr sv'"
  shows "\<exists>evs. wd_quiet (sv\<lparr>sv_events := evs\<rparr>) sv'"
proof (cases "wd_events_delete_older_events sv")
  case (Inl e)
  with assms show ?thesis by (simp add: wd_events_add_event_def)
next
  case (Inr sv1)
  then obtain kept where k: "wd_events_delete_older_events sv = Inr (sv\<lparr>sv_events := kept\<rparr>)"
    using wd_events_delete_older_events by blast
  show ?thesis
  proof (cases "sv_db_ok sv")
    case True
    show ?thesis
      using assms unfolding wd_events_add_event_pruned [OF k True] Inr_inject
      by (cases "wd_events_has_event event (wd_user sv uid) kept \<and> event \<in> {''wired.event.user.got_users'', ''wired.event.user.got_info''}")
        (simp only: if_P if_not_P sum.inject, metis wd_quiet_refl wd_events_broadcast_event_quiet)+
  next
    case False
    then have "sv' = sv\<lparr>sv_events := kept\<rparr>" using assms by (simp add: wd_events_add_event_def k Let_def)
    then show ?thesis by (intro exI [of _ kept]) simp
  qed
qed

lemma wd_events_add_event_crash:
  assumes "wd_events_add_event event uid arguments sv = Inl e"
  shows "e = Transaction_Failed \<and> \<not> sv_db_ok sv"
proof (cases "wd_events_delete_older_events sv")
  case (Inl e')
  with assms have "e = e'" by (simp add: wd_events_add_event_def)
  with Inl show ?thesis by (auto simp: wd_events_delete_older_events_def Let_def split: option.splits if_splits)
next
  case (Inr sv1)
  from assms show ?thesis unfolding wd_events_add_event_def Inr wd_bind_simps Let_def by (simp split: if_splits)
qed

lemma server_ok_events: "server_ok (sv\<lparr>sv_events := evs\<rparr>) \<longleftrightarrow> server_ok sv"
  using server_ok_cong [of sv "sv\<lparr>sv_events := evs\<rparr>"] server_ok_cong [of "sv\<lparr>sv_events := evs\<rparr>" sv] by auto

subsection \<open>Properties\<close>

text \<open>
  The seconds for which each setting keeps events; a setting that is none of these leaves the
  number unset.
\<close>

definition wd_events_seconds :: "(string \<times> int) list" where
  "wd_events_seconds =
     [(''minutely'', 60), (''hourly'', 3600), (''daily'', 86400), (''weekly'', 7 * 86400),
      (''monthly'', 210 * 86400), (''yearly'', 2520 * 86400)]"

definition wd_events_kept :: "wd_server \<Rightarrow> wd_event list" where
  "wd_events_kept sv =
     (if sv_events_time sv \<in> {None, Some ''none''} then sv_events sv
      else
        let seconds = (case map_of wd_events_seconds (the (sv_events_time sv)) of
              Some n \<Rightarrow> n | None \<Rightarrow> sv_uninitialised sv)
        in filter (\<lambda>e. sv_now sv - seconds < ev_time e) (sv_events sv))"

lemma wd_events_interval: "wd_events_interval n setting = (case map_of wd_events_seconds setting of Some k \<Rightarrow> k | None \<Rightarrow> n)"
  by (simp add: wd_events_interval_def wd_events_seconds_def)

lemma wd_events_delete_older_events_kept:
  "wd_events_delete_older_events sv =
     (if \<not> sv_db_ok sv \<and> sv_events_time sv \<notin> {None, Some ''none''} then Inl Transaction_Failed
      else Inr (sv\<lparr>sv_events := wd_events_kept sv\<rparr>))"
  by (auto simp: wd_events_delete_older_events_def wd_events_kept_def wd_events_interval Let_def not_le split: option.split)

text \<open>
  C37: An event goes into the log with the user's names and address as they are now, after
  the events that are older than the configured time are gone: a minute, an hour, a day, seven
  days, but 210 days for "monthly" and 2520 for "yearly", seven times the time meant; without
  a setting, or with "none", all events stay, and another setting prunes by a number that
  nobody set. Getting the users or the details of one is logged once only for the same names
  and address. The process ends exactly if the log is to be pruned and the database refuses
  the transaction; if it is not to be pruned and the database fails, nothing happens.
\<close>
theorem wd_events_add_event_effect:
  "case wd_events_add_event event uid arguments sv of
      Inl e \<Rightarrow> e = Transaction_Failed \<and> \<not> sv_db_ok sv \<and> sv_events_time sv \<notin> {None, Some ''none''}
    | Inr sv' \<Rightarrow>
        if sv_db_ok sv then
          let kept = wd_events_kept sv; u = wd_user sv uid
          in if wd_events_has_event event u kept \<and>
                event \<in> {''wired.event.user.got_users'', ''wired.event.user.got_info''}
             then sv' = sv\<lparr>sv_events := kept\<rparr>
             else \<exists>e. sv_events sv' = kept @ [e] \<and> ev_event e = event \<and> ev_time e = sv_now sv \<and>
                    ev_nick e = u_nick u \<and> ev_login e = u_login u \<and> ev_ip e = u_ip u \<and>
                    wd_quiet (sv\<lparr>sv_events := kept @ [e]\<rparr>) sv'
        else sv_events_time sv \<in> {None, Some ''none''} \<and> sv' = sv"
proof (cases "sv_db_ok sv")
  case False
  then show ?thesis
    by (simp add: wd_events_add_event_def wd_events_delete_older_events_kept wd_events_kept_def Let_def)
next
  case True
  define kept where "kept = wd_events_kept sv"
  have d: "wd_events_delete_older_events sv = Inr (sv\<lparr>sv_events := kept\<rparr>)"
    using True by (simp add: wd_events_delete_older_events_kept kept_def)
  note p = wd_events_add_event_pruned [OF d True, of event uid arguments]
  let ?u = "wd_user sv uid" and ?dup = "wd_events_has_event event (wd_user sv uid) kept \<and>
      event \<in> {''wired.event.user.got_users'', ''wired.event.user.got_info''}"
  show ?thesis
  proof (cases ?dup)
    case dup: True
    show ?thesis unfolding p if_P [OF dup] sum.case Let_def kept_def [symmetric] if_P [OF True] by simp
  next
    case new: False
    define e where "e = wd_events_new_event event (map the (takeWhile (\<lambda>p. p \<noteq> None) arguments)) ?u (sv_now sv)"
    have q: "wd_quiet (sv\<lparr>sv_events := kept @ [e]\<rparr>) (wd_events_broadcast_event m (sv\<lparr>sv_events := kept @ [e]\<rparr>))" for m
      by (rule wd_events_broadcast_event_quiet)
    have "ev_event e = event \<and> ev_time e = sv_now sv \<and> ev_nick e = u_nick ?u \<and> ev_login e = u_login ?u \<and> ev_ip e = u_ip ?u"
      by (simp add: e_def wd_events_new_event_def)
    then show ?thesis
      unfolding p if_not_P [OF new] sum.case Let_def kept_def [symmetric] e_def [symmetric] if_P [OF True]
      using q wd_quiet_fields(8) [OF q] by (intro exI [of _ e]) simp_all
  qed
qed

theorem wd_events_add_event_effect_witness:
  "\<exists>sv' e. wd_events_add_event ''wired.event.user.got_users'' 1 [] (wd_server_one\<lparr>sv_events_time := Some ''monthly''\<rparr>) = Inr sv' \<and>
     sv_events sv' = [e] \<and> ev_ip e = ''10.0.0.1''"
proof -
  let ?sv = "wd_server_one\<lparr>sv_events_time := Some ''monthly''\<rparr>"
  have f: "sv_db_ok ?sv" "sv_events ?sv = []" "wd_user ?sv 1 = wd_user_one"
    using wd_server_one(2) [of 1]
    by (simp_all add: wd_user_def wd_users_user_with_id_def wd_server_one_def wd_chats_initialize_def wd_chats_add_chat_def
        wd_server_start_def Let_def wd_users_add_user_def wd_user_init_with_socket_def wd_user_next_id_def)
  have i: "u_ip wd_user_one = ''10.0.0.1''"
    by (simp add: wd_user_one_def wd_user_init_with_socket_def wd_user_next_id_def Let_def)
  have k: "wd_events_kept ?sv = []" using f(2) by (simp add: wd_events_kept_def)
  from wd_events_add_event_effect [where event = "''wired.event.user.got_users''" and uid = 1 and arguments = "[]" and sv = ?sv] f i k show ?thesis
    by (cases "wd_events_add_event ''wired.event.user.got_users'' 1 [] ?sv") (auto simp: wd_events_has_event_def Let_def)
qed

text \<open>
  The parameters of an event survive the log: what is listed for an event that was
  just added has the parameters that were given, up to the first that is NULL, when none
  of them contains the separator.
\<close>
theorem wd_events_parameters_roundtrip:
  assumes "wd_events_add_event event uid arguments sv = Inr sv'" and "sv_db_ok sv"
    and "event \<notin> {''wired.event.user.got_users'', ''wired.event.user.got_info''}"
    and "\<forall>s. Some s \<in> set arguments \<longrightarrow> CHR 0x1C \<notin> set s"
  shows "p7_field (wd_event_list_message (last (sv_events sv'))) ''wired.event.parameters'' =
    (let ps = map the (takeWhile (\<lambda>p. p \<noteq> None) arguments) in if ps = [] then None else Some (P7_List ps))"
proof -
  define ps where "ps = map the (takeWhile (\<lambda>p. p \<noteq> None) arguments)"
  obtain kept where d: "wd_events_delete_older_events sv = Inr (sv\<lparr>sv_events := kept\<rparr>)"
    using assms(1) wd_events_delete_older_events by (cases "wd_events_delete_older_events sv") (auto simp: wd_events_add_event_def)
  let ?e = "wd_events_new_event event ps (wd_user sv uid) (sv_now sv)"
  have new: "\<not> (wd_events_has_event event (wd_user sv uid) kept \<and> event \<in> {''wired.event.user.got_users'', ''wired.event.user.got_info''})"
    using assms(3) by blast
  have "sv' = wd_events_broadcast_event (wd_event_message event ps (wd_user sv uid) (sv_now sv)) (sv\<lparr>sv_events := kept @ [?e]\<rparr>)"
    using assms(1) unfolding wd_events_add_event_pruned [OF d assms(2)] if_not_P [OF new] ps_def by simp
  then have l: "last (sv_events sv') = ?e"
    using wd_quiet_fields(8) [OF wd_events_broadcast_event_quiet] by simp
  have "\<forall>p \<in> set ps. CHR 0x1C \<notin> set p"
    using assms(4) by (auto simp: ps_def dest!: set_takeWhileD)
  then have "ps \<noteq> [] \<Longrightarrow> wi_string_components_separated_by_string (wi_components_joined_by_string ps [CHR 0x1C]) [CHR 0x1C] = ps"
    by (intro split_join) blast+
  then show ?thesis
    unfolding l ps_def [symmetric] Let_def
    by (cases "ps = []") (simp_all add: p7_field_def wd_event_list_message_def wd_events_new_event_def opt_field_def WD_EVENTS_SEPARATOR_def)
qed

theorem wd_events_parameters_roundtrip_example:
  "\<exists>sv'. wd_events_add_event ''wired.event.user.changed_nick'' 1 [Some ''a'', Some ''b'', None, Some ''c''] wd_server_one = Inr sv' \<and>
     p7_field (wd_event_list_message (last (sv_events sv'))) ''wired.event.parameters'' = Some (P7_List [''a'', ''b''])"
proof -
  let ?ps = "[Some ''a'', Some ''b'', None, Some ''c'']"
  have f: "sv_db_ok wd_server_one" "wd_events_delete_older_events wd_server_one = Inr (wd_server_one\<lparr>sv_events := []\<rparr>)"
    by (simp_all add: wd_events_delete_older_events_def wd_server_one_def wd_chats_initialize_def wd_chats_add_chat_def
        wd_server_start_def Let_def wd_users_add_user_def wd_user_init_with_socket_def wd_user_next_id_def)
  obtain sv' where s: "wd_events_add_event ''wired.event.user.changed_nick'' 1 ?ps wd_server_one = Inr sv'"
    using wd_events_add_event_pruned [OF f(2,1)] by blast
  from wd_events_parameters_roundtrip [OF s f(1)] s show ?thesis by (simp add: Let_def)
qed

end
