(* ===== verification/Wd_Login.thy ===== *)
theory Wd_Login
  imports Wd_Banlist Wd_Events Wd_Accounts
begin

text \<open>
  The first messages of a connection (messages.c): the client information, pings and the
  login, with the delivery of offline messages and the list of known users that follow a
  login, and the tokens that stand for logins in both.
\<close>

subsection \<open>Tokens\<close>

text \<open>
  Without a database the token is drawn but not stored. A login that is NULL ends the
  arguments of both statements: nothing is found, and the insertion is ignored.
\<close>

definition wd_messages_token_for_login :: "string option \<Rightarrow> wd_server \<Rightarrow> string \<times> wd_server" where
  "wd_messages_token_for_login login sv =
     (case (if sv_db_ok sv then find (\<lambda>t. Some (ot_login t) = login) (sv_offline_tokens sv) else None) of
        Some t \<Rightarrow> (ot_token t, sv)
      | None \<Rightarrow>
          let token = sv_uuid sv (sv_uuid_count sv);
              sv = sv\<lparr>sv_uuid_count := sv_uuid_count sv + 1\<rparr>
          in (token,
              if sv_db_ok sv then
                (case login of
                   Some l \<Rightarrow> sv\<lparr>sv_offline_tokens := sv_offline_tokens sv @
                     [\<lparr>ot_login = l, ot_token = token, ot_nick = [], ot_status = [], ot_icon = None\<rparr>]\<rparr>
                 | None \<Rightarrow> sv)
              else sv))"

definition wd_messages_save_user_profile :: "32 word \<Rightarrow> wd_server \<Rightarrow> wd_server" where
  "wd_messages_save_user_profile uid sv =
     (case u_login (wd_user sv uid) of
        None \<Rightarrow> sv
      | Some login \<Rightarrow>
          if length login = 0 then sv
          else
            let u = wd_user sv uid;
                sv = snd (wd_messages_token_for_login (Some login) sv);
                nick = (case u_nick u of Some s \<Rightarrow> s | None \<Rightarrow> []);
                status = (case u_status u of Some s \<Rightarrow> if length s > 128 then take 128 s else s | None \<Rightarrow> []);
                icon = (case u_icon u of Some i \<Rightarrow> if length i > 16384 then None else Some i | None \<Rightarrow> None)
            in if sv_db_ok sv then
                 sv\<lparr>sv_offline_tokens := map (\<lambda>t. if ot_login t = login
                      then t\<lparr>ot_nick := nick, ot_status := status, ot_icon := icon\<rparr> else t) (sv_offline_tokens sv)\<rparr>
               else sv)"

subsection \<open>Client information and pings\<close>

definition wd_server_info_message :: "wd_server \<Rightarrow> p7_message" where
  "wd_server_info_message sv = \<lparr>m_name = ''wired.server_info'', m_fields = sv_server_info sv\<rparr>"

definition wd_message_client_info :: "32 word \<Rightarrow> p7_message \<Rightarrow> wd_server \<Rightarrow> wd_server wd_result" where
  "wd_message_client_info uid m sv =
     (let sv = wd_set_user (\<lambda>u. u\<lparr>u_client_info := Some (wd_client_info_init_with_message sv m)\<rparr>) uid sv;
          sv = wd_user_reply_message uid (wd_server_info_message sv) m sv
      in Inr (wd_user_set_state WD_USER_GAVE_CLIENT_INFO uid sv))"

definition wd_message_send_ping :: "32 word \<Rightarrow> p7_message \<Rightarrow> wd_server \<Rightarrow> wd_server wd_result" where
  "wd_message_send_ping uid m sv = Inr (wd_user_reply_message uid \<lparr>m_name = ''wired.ping'', m_fields = []\<rparr> m sv)"

definition wd_message_ping :: "32 word \<Rightarrow> p7_message \<Rightarrow> wd_server \<Rightarrow> wd_server wd_result" where
  "wd_message_ping uid m sv = Inr sv"

subsection \<open>After a login\<close>

definition wd_accounts_update_login_time :: "wd_account \<Rightarrow> wd_server \<Rightarrow> wd_server" where
  "wd_accounts_update_login_time account sv =
     (let name = wd_account_string ''wired.account.name'' account
      in if sv_db_ok sv then
           sv\<lparr>sv_db_users := map (\<lambda>(n, a). if n = name
                then (n, wi_dictionary_set a (AV_Date (sv_now sv)) ''wired.account.login_time'') else (n, a)) (sv_db_users sv)\<rparr>
         else sv)"

definition wd_pending_delivery_message :: "string \<Rightarrow> wd_pending_message \<Rightarrow> p7_message" where
  "wd_pending_delivery_message token p =
     \<lparr>m_name = ''wired.message.offline_message_delivered'',
      m_fields =
        [(''wired.message.offline_sender_nick'', P7_String (pm_sender_nick p)),
         (''wired.message.offline_sender_token'', P7_String token),
         (''wired.message.message'', P7_String (pm_message p))] @
        (case pm_ciphertext p of
           Some c \<Rightarrow> if length c > 0 then [(''wired.message.offline_message_ciphertext'', P7_Data c)] else []
         | None \<Rightarrow> [])\<rparr>"

text \<open>
  The query orders the rows by the time they were sent, which the clock of the server gave
  them; rows of one time keep the order of their ids. Nothing ever sets \<open>delivered_at\<close>. The
  rows are deleted by their ids after the loop, whether or not they could be sent.
\<close>

definition wd_message_deliver_row :: "32 word \<Rightarrow> wd_pending_message \<Rightarrow> wd_server \<Rightarrow> wd_server" where
  "wd_message_deliver_row uid p sv =
     (let (token, sv) = (if length (pm_sender_token p) = 0
                         then wd_messages_token_for_login (Some (pm_sender_login p)) sv
                         else (pm_sender_token p, sv))
      in wd_user_send_message uid (wd_pending_delivery_message token p) sv)"

definition wd_message_deliver_pending :: "32 word \<Rightarrow> string \<Rightarrow> wd_server \<Rightarrow> wd_server" where
  "wd_message_deliver_pending uid login sv =
     (if \<not> sv_db_ok sv then sv
      else
        let sv = fold (wd_message_deliver_row uid)
                   (sort_key pm_sent_at (filter (\<lambda>p. pm_recipient_login p = login) (sv_pending sv))) sv
        in sv\<lparr>sv_pending := filter (\<lambda>p. pm_recipient_login p \<noteq> login) (sv_pending sv)\<rparr>)"

text \<open>The row of the query that joins \<open>users\<close> with \<open>offline_tokens\<close> and \<open>offline_keys\<close>.\<close>

definition wd_known_user_message :: "string \<Rightarrow> string \<Rightarrow> wd_account \<Rightarrow> wd_server \<Rightarrow> p7_message" where
  "wd_known_user_message token name account sv =
     (let row = find (\<lambda>t. ot_login t = name) (sv_offline_tokens sv);
          fullname = (case wi_dictionary_data_for_key account ''wired.account.full_name'' of
                        Some (AV_String s) \<Rightarrow> s | _ \<Rightarrow> name);
          nick = (case row of Some t \<Rightarrow> if ot_nick t = [] then fullname else ot_nick t | None \<Rightarrow> fullname);
          status = (case row of Some t \<Rightarrow> ot_status t | None \<Rightarrow> []);
          icon = (case row of Some t \<Rightarrow> ot_icon t | None \<Rightarrow> None);
          pubkey = map_of (sv_offline_keys sv) name
      in \<lparr>m_name = ''wired.user.known_users'',
          m_fields =
            [(''wired.message.offline_sender_token'', P7_String token), (''wired.user.nick'', P7_String nick)] @
            (if length status > 0 then [(''wired.user.status'', P7_String status)] else []) @
            (case icon of Some i \<Rightarrow> if length i > 0 then [(''wired.user.icon'', P7_Data i)] else [] | None \<Rightarrow> []) @
            (case pubkey of Some k \<Rightarrow> if length k > 0 then [(''wired.message.offline_public_key'', P7_Data k)] else []
                          | None \<Rightarrow> [])\<rparr>)"

definition wd_message_known_user :: "32 word \<Rightarrow> string \<times> wd_account \<Rightarrow> wd_server \<Rightarrow> wd_server" where
  "wd_message_known_user uid row sv =
     (let message = (\<lambda>token. wd_known_user_message token (fst row) (snd row) sv);
          (token, sv) = wd_messages_token_for_login (Some (fst row)) sv
      in wd_user_send_message uid (message token) sv)"

definition wd_message_send_known_users :: "32 word \<Rightarrow> string \<Rightarrow> wd_server \<Rightarrow> wd_server" where
  "wd_message_send_known_users uid login sv =
     (let recent = (\<lambda>(name, account). name \<noteq> login \<and>
            (case wi_dictionary_data_for_key account ''wired.account.login_time'' of
               Some (AV_Date d) \<Rightarrow> sv_now sv - 30 * 86400 \<le> d | _ \<Rightarrow> False));
          sv = (if sv_db_ok sv then fold (wd_message_known_user uid) (filter recent (sv_db_users sv)) sv else sv)
      in wd_user_send_message uid \<lparr>m_name = ''wired.user.known_users.done'', m_fields = []\<rparr> sv)"

subsection \<open>Login\<close>

definition wd_account_color :: "wd_account \<Rightarrow> wd_server \<Rightarrow> 32 word" where
  "wd_account_color account sv =
     (case wi_dictionary_data_for_key account ''wired.account.color'' of
        Some (AV_String s) \<Rightarrow> sv_color_enum sv s | _ \<Rightarrow> 0)"

definition wd_message_login_failed :: "32 word \<Rightarrow> p7_message \<Rightarrow> wd_server \<Rightarrow> wd_server wd_result" where
  "wd_message_login_failed uid m sv =
     wd_events_add_event ''wired.event.user.login_failed'' uid []
       (wd_user_reply_error uid ''wired.error.login_failed'' m sv)"

text \<open>Accepting a login logs the client information first.\<close>

definition wd_message_accept_login :: "wd_account \<Rightarrow> string \<Rightarrow> 32 word \<Rightarrow> p7_message \<Rightarrow> wd_server \<Rightarrow> wd_server wd_result" where
  "wd_message_accept_login account login uid m sv =
     (if u_client_info (wd_user sv uid) = None then Inl Null_Client_Info
      else
        let sv = wd_set_user (\<lambda>u. u\<lparr>
                   u_nick := (if wd_account_boolean ''wired.account.user.cannot_set_nick'' account \<or> u_nick u = None
                              then Some (wd_account_nick account) else u_nick u),
                   u_account := Some account, u_color := wd_account_color account sv,
                   u_state := WD_USER_LOGGED_IN\<rparr>) uid sv;
            sv = sv\<lparr>sv_current_users := sv_current_users sv + 1, sv_total_users := sv_total_users sv + 1\<rparr>;
            sv = wd_user_reply_message uid \<lparr>m_name = ''wired.login'', m_fields = [(''wired.user.id'', P7_UInt32 uid)]\<rparr> m sv;
            sv = wd_user_reply_message uid (wd_account_privileges_message (sv_page sv) account) m sv;
            sv = wd_accounts_update_login_time account sv;
            sv = wd_message_deliver_pending uid login sv
        in Inr (wd_message_send_known_users uid login sv))"

text \<open>
  The password of an account that has none is the empty string; that of the message may be
  NULL, which no string equals.
\<close>

definition wd_password_matches :: "wd_account \<Rightarrow> p7_message \<Rightarrow> bool" where
  "wd_password_matches account m \<longleftrightarrow>
     p7_string m ''wired.user.password'' = Some (wd_account_string ''wired.account.password'' account)"

text \<open>
  The decision once the ban list was asked: whether banned, and the date it wrote. The login
  is NULL where the message has the password twice instead, which the verification of
  messages lets pass; the query for the account then has no argument and finds no row.
\<close>

definition wd_message_decide_login ::
  "bool \<Rightarrow> int option option \<Rightarrow> string option \<Rightarrow> 32 word \<Rightarrow> p7_message \<Rightarrow> wd_server \<Rightarrow> wd_server wd_result" where
  "wd_message_decide_login banned date login uid m sv =
     (if banned then
        (if date = None \<and> \<not> sv_uninitialised_null sv then Inl Uninitialised_Date
         else
           let date = (case date of Some d \<Rightarrow> d | None \<Rightarrow> None);
               sv = wd_user_reply_message uid
                      \<lparr>m_name = ''wired.banned'',
                       m_fields = opt_field ''wired.banlist.expiration_date'' P7_Date date\<rparr> m sv
           in wd_events_add_event ''wired.event.user.login_failed'' uid [] sv)
      else
        case login of
          None \<Rightarrow> wd_message_login_failed uid m sv
        | Some name \<Rightarrow>
            (case wd_accounts_read_user_and_group (sv_garbage sv) sv name of
               None \<Rightarrow> wd_message_login_failed uid m sv
             | Some account \<Rightarrow>
                 if \<not> wd_password_matches account m
                 then wd_message_login_failed uid m sv
                 else wd_message_accept_login account name uid m sv))"

definition wd_message_send_login :: "32 word \<Rightarrow> p7_message \<Rightarrow> wd_server \<Rightarrow> wd_server wd_result" where
  "wd_message_send_login uid m sv =
     (let login = p7_string m ''wired.user.login'';
          sv = wd_set_user (\<lambda>u. u\<lparr>u_login := login\<rparr>) uid sv;
          (banned, date, sv) = wd_banlist_ip_is_banned (u_ip (wd_user sv uid)) sv
      in wd_message_decide_login banned date login uid m sv)"

end
