(* ===== verification/Wd_Handlers.thy ===== *)
theory Wd_Handlers
  imports Wd_Login
begin

text \<open>
  The handlers of messages.c that change users, chats, private and offline messages, the
  ban list and the log, and the subscriptions. A handler gets the id of the user and the
  message; the user's object is \<open>wd_user sv uid\<close>.
\<close>

text \<open>
  The accessors of an account follow the pointer they are given. Most handlers begin by
  asking for a privilege and refuse without it.
\<close>

definition wd_with_privilege ::
  "string \<Rightarrow> 32 word \<Rightarrow> p7_message \<Rightarrow> (wd_server \<Rightarrow> wd_server wd_result) \<Rightarrow> wd_server \<Rightarrow> wd_server wd_result" where
  "wd_with_privilege field uid m handle sv =
     (case u_account (wd_user sv uid) of
        None \<Rightarrow> Inl Null_Account
      | Some account \<Rightarrow>
          if wd_account_boolean field account then handle sv
          else Inr (wd_user_reply_error uid ''wired.error.permission_denied'' m sv))"

definition wd_reply_error :: "32 word \<Rightarrow> string \<Rightarrow> p7_message \<Rightarrow> wd_server \<Rightarrow> wd_server wd_result" where
  "wd_reply_error uid err m sv = Inr (wd_user_reply_error uid err m sv)"

subsection \<open>Users\<close>

definition wd_message_user_set_nick :: "32 word \<Rightarrow> p7_message \<Rightarrow> wd_server \<Rightarrow> wd_server wd_result" where
  "wd_message_user_set_nick uid m sv =
     (let u = wd_user sv uid
      in if (case u_account u of Some a \<Rightarrow> wd_account_boolean ''wired.account.user.cannot_set_nick'' a | None \<Rightarrow> False)
         then wd_reply_error uid ''wired.error.permission_denied'' m sv
         else
           let newnick = p7_string_arg m ''wired.user.nick''
           in wd_bind
                (if u_nick u \<noteq> Some newnick then
                   let sv = wd_set_user (\<lambda>u. u\<lparr>u_nick := Some newnick\<rparr>) uid sv
                   in if u_state u = WD_USER_LOGGED_IN
                      then wd_events_add_event ''wired.event.user.changed_nick'' uid [u_nick u, Some newnick]
                             (wd_user_broadcast_status uid sv)
                      else Inr sv
                 else Inr sv)
                (\<lambda>sv. Inr (wd_user_reply_okay uid m sv)))"

definition wd_message_user_set_status :: "32 word \<Rightarrow> p7_message \<Rightarrow> wd_server \<Rightarrow> wd_server wd_result" where
  "wd_message_user_set_status uid m sv =
     (let u = wd_user sv uid;
          status = Some (p7_string_arg m ''wired.user.status'');
          sv = (if status \<noteq> u_status u then
                  let sv = wd_set_user (\<lambda>u. u\<lparr>u_status := status\<rparr>) uid sv
                  in if u_state u = WD_USER_LOGGED_IN then wd_user_broadcast_status uid sv else sv
                else sv)
      in Inr (wd_user_reply_okay uid m sv))"

definition wd_message_user_set_icon :: "32 word \<Rightarrow> p7_message \<Rightarrow> wd_server \<Rightarrow> wd_server wd_result" where
  "wd_message_user_set_icon uid m sv =
     (let u = wd_user sv uid;
          icon = p7_data m ''wired.user.icon'';
          sv = (if icon \<noteq> u_icon u then
                  let sv = wd_set_user (\<lambda>u. u\<lparr>u_icon := icon\<rparr>) uid sv
                  in if u_state u = WD_USER_LOGGED_IN then wd_user_broadcast_icon uid sv else sv
                else sv)
      in Inr (wd_user_reply_okay uid m sv))"

definition wd_message_user_set_idle :: "32 word \<Rightarrow> p7_message \<Rightarrow> wd_server \<Rightarrow> wd_server wd_result" where
  "wd_message_user_set_idle uid m sv =
     (let u = wd_user sv uid;
          idle = p7_bool_arg sv m ''wired.user.idle'';
          sv = (if idle \<noteq> u_idle u then
                  let sv = wd_set_user (\<lambda>u. u\<lparr>u_idle := idle\<rparr>) uid sv
                  in if u_state u = WD_USER_LOGGED_IN then wd_user_broadcast_status uid sv else sv
                else sv)
      in Inr (wd_user_reply_okay uid m sv))"

definition wd_message_user_get_info :: "32 word \<Rightarrow> p7_message \<Rightarrow> wd_server \<Rightarrow> wd_server wd_result" where
  "wd_message_user_get_info uid m = wd_with_privilege ''wired.account.user.get_info'' uid m (\<lambda>sv.
     let pid = p7_uint32_arg sv m ''wired.user.id''
     in case wd_users_user_with_id sv pid of
          None \<Rightarrow> wd_reply_error uid ''wired.error.user_not_found'' m sv
        | Some peer \<Rightarrow>
            wd_bind (wd_user_reply_user_info pid uid m sv) (\<lambda>sv.
              wd_events_add_event ''wired.event.user.got_info'' uid [u_nick (wd_user sv pid)] sv))"

text \<open>The news of a disconnection go to the chats of the user who asks for it.\<close>

definition wd_disconnect_message :: "string \<Rightarrow> 32 word \<Rightarrow> p7_message \<Rightarrow> wd_chat \<Rightarrow> p7_message" where
  "wd_disconnect_message name pid m c =
     \<lparr>m_name = name,
      m_fields =
        [(''wired.chat.id'', P7_UInt32 (c_id c)), (''wired.user.disconnected_id'', P7_UInt32 pid),
         (''wired.user.disconnect_message'', P7_String (p7_string_arg m ''wired.user.disconnect_message''))]\<rparr>"

definition wd_broadcast_disconnect :: "string \<Rightarrow> 32 word \<Rightarrow> 32 word \<Rightarrow> p7_message \<Rightarrow> wd_server \<Rightarrow> wd_server" where
  "wd_broadcast_disconnect name uid pid m sv =
     fold (\<lambda>c. wd_chat_broadcast_message c (wd_disconnect_message name pid m c)) (wd_chats_chats_with_user sv uid) sv"

definition wd_message_user_disconnect_user :: "32 word \<Rightarrow> p7_message \<Rightarrow> wd_server \<Rightarrow> wd_server wd_result" where
  "wd_message_user_disconnect_user uid m = wd_with_privilege ''wired.account.user.disconnect_users'' uid m (\<lambda>sv.
     let pid = p7_uint32_arg sv m ''wired.user.id''
     in case wd_users_user_with_id sv pid of
          None \<Rightarrow> wd_reply_error uid ''wired.error.user_not_found'' m sv
        | Some peer \<Rightarrow>
            (case u_account peer of
               None \<Rightarrow> Inl Null_Account
             | Some account \<Rightarrow>
                 if wd_account_boolean ''wired.account.user.cannot_be_disconnected'' account
                 then wd_reply_error uid ''wired.error.user_cannot_be_disconnected'' m sv
                 else
                   let sv = wd_broadcast_disconnect ''wired.chat.user_disconnect'' uid pid m sv;
                       sv = wd_user_set_state WD_USER_DISCONNECTED pid sv;
                       sv = wd_user_reply_okay uid m sv
                   in wd_events_add_event ''wired.event.user.disconnected_user'' uid [u_nick (wd_user sv pid)] sv))"

definition wd_message_user_ban_user :: "32 word \<Rightarrow> p7_message \<Rightarrow> wd_server \<Rightarrow> wd_server wd_result" where
  "wd_message_user_ban_user uid m = wd_with_privilege ''wired.account.user.ban_users'' uid m (\<lambda>sv.
     let pid = p7_uint32_arg sv m ''wired.user.id''
     in case wd_users_user_with_id sv pid of
          None \<Rightarrow> wd_reply_error uid ''wired.error.user_not_found'' m sv
        | Some peer \<Rightarrow>
            (case u_account peer of
               None \<Rightarrow> Inl Null_Account
             | Some account \<Rightarrow>
                 if wd_account_boolean ''wired.account.user.cannot_be_disconnected'' account
                 then wd_reply_error uid ''wired.error.user_cannot_be_disconnected'' m sv
                 else
                   let sv = wd_broadcast_disconnect ''wired.chat.user_ban'' uid pid m sv;
                       (added, sv) = wd_banlist_add_ban (u_ip peer) (p7_date m ''wired.banlist.expiration_date'') uid m sv
                   in if added then
                        let sv = wd_user_set_state WD_USER_DISCONNECTED pid sv;
                            sv = wd_user_reply_okay uid m sv
                        in wd_events_add_event ''wired.event.user.banned_user'' uid [u_nick (wd_user sv pid)] sv
                      else Inr sv))"

definition wd_message_user_get_users :: "32 word \<Rightarrow> p7_message \<Rightarrow> wd_server \<Rightarrow> wd_server wd_result" where
  "wd_message_user_get_users uid m = wd_with_privilege ''wired.account.user.get_users'' uid m (\<lambda>sv.
     wd_events_add_event ''wired.event.user.got_users'' uid [] (wd_users_reply_users uid m sv))"

subsection \<open>Chats\<close>

definition wd_message_chat_join_chat :: "32 word \<Rightarrow> p7_message \<Rightarrow> wd_server \<Rightarrow> wd_server wd_result" where
  "wd_message_chat_join_chat uid m sv =
     (let cid = p7_uint32_arg sv m ''wired.chat.id''
      in case wd_chats_chat_with_id sv cid of
           None \<Rightarrow> wd_reply_error uid ''wired.error.chat_not_found'' m sv
         | Some c \<Rightarrow>
             if wd_chat_contains_user c uid then wd_reply_error uid ''wired.error.already_on_chat'' m sv
             else if cid \<noteq> WD_PUBLIC_CHAT_ID \<and> \<not> wd_chat_is_user_invited c uid
             then wd_reply_error uid ''wired.error.not_invited_to_chat'' m sv
             else
               let sv = wd_chat_add_user_and_broadcast cid uid sv;
                   sv = (if cid \<noteq> WD_PUBLIC_CHAT_ID
                         then wd_set_chat (\<lambda>c. wd_chat_remove_invitation_for_user c uid) cid sv else sv);
                   sv = wd_chat_reply_user_list (c\<lparr>c_users := c_users c @ [uid]\<rparr>) uid m sv;
                   sv = (case wd_chat_topic_message c of
                           Some reply \<Rightarrow> wd_user_reply_message uid reply m sv | None \<Rightarrow> sv)
               in if cid = WD_PUBLIC_CHAT_ID \<and> \<not> u_joined_public_chat (wd_user sv uid) then
                    (case u_client_info (wd_user sv uid) of
                       None \<Rightarrow> Inl Null_Client_Info
                     | Some ci \<Rightarrow>
                         wd_bind (wd_events_add_event ''wired.event.user.logged_in'' uid
                                    [Some (wd_client_info_application_string ci), Some (wd_client_info_os_string ci)] sv)
                           (\<lambda>sv. Inr (wd_set_user (\<lambda>u. u\<lparr>u_joined_public_chat := True\<rparr>) uid sv)))
                  else Inr sv)"

text \<open>The leave is broadcast to the chat object, which may be out of the table by then.\<close>

definition wd_message_chat_leave_chat :: "32 word \<Rightarrow> p7_message \<Rightarrow> wd_server \<Rightarrow> wd_server wd_result" where
  "wd_message_chat_leave_chat uid m sv =
     (let cid = p7_uint32_arg sv m ''wired.chat.id''
      in case wd_chats_chat_with_id sv cid of
           None \<Rightarrow> wd_reply_error uid ''wired.error.chat_not_found'' m sv
         | Some c \<Rightarrow>
             if \<not> wd_chat_contains_user c uid then wd_reply_error uid ''wired.error.not_on_chat'' m sv
             else
               let sv = wd_chat_remove_user cid uid sv;
                   sv = wd_chat_broadcast_user_leave (c\<lparr>c_users := remove1 uid (c_users c)\<rparr>) uid sv
               in Inr (wd_user_reply_okay uid m sv))"

definition wd_message_chat_kick_user :: "32 word \<Rightarrow> p7_message \<Rightarrow> wd_server \<Rightarrow> wd_server wd_result" where
  "wd_message_chat_kick_user uid m sv =
     (let cid = p7_uint32_arg sv m ''wired.chat.id''; pid = p7_uint32_arg sv m ''wired.user.id''
      in case wd_users_user_with_id sv pid of
           None \<Rightarrow> wd_reply_error uid ''wired.error.user_not_found'' m sv
         | Some peer \<Rightarrow>
             (case wd_chats_chat_with_id sv cid of
                None \<Rightarrow> wd_reply_error uid ''wired.error.chat_not_found'' m sv
              | Some c \<Rightarrow>
                  if \<not> wd_chat_contains_user c uid \<or> \<not> wd_chat_contains_user c pid
                  then wd_reply_error uid ''wired.error.not_on_chat'' m sv
                  else
                    let kick = (\<lambda>sv.
                      let sv = wd_chat_broadcast_message c
                                 \<lparr>m_name = ''wired.chat.user_kick'',
                                  m_fields =
                                    [(''wired.chat.id'', P7_UInt32 cid), (''wired.user.id'', P7_UInt32 uid),
                                     (''wired.user.disconnected_id'', P7_UInt32 pid),
                                     (''wired.user.disconnect_message'',
                                      P7_String (p7_string_arg m ''wired.user.disconnect_message''))]\<rparr> sv;
                          sv = wd_chat_remove_user cid pid sv
                      in Inr (wd_user_reply_okay uid m sv))
                    in if cid = WD_PUBLIC_CHAT_ID
                       then wd_with_privilege ''wired.account.chat.kick_users'' uid m kick sv else kick sv))"

definition wd_message_chat_set_topic :: "32 word \<Rightarrow> p7_message \<Rightarrow> wd_server \<Rightarrow> wd_server wd_result" where
  "wd_message_chat_set_topic uid m sv =
     (let cid = p7_uint32_arg sv m ''wired.chat.id''
      in case wd_chats_chat_with_id sv cid of
           None \<Rightarrow> wd_reply_error uid ''wired.error.chat_not_found'' m sv
         | Some c \<Rightarrow>
             if \<not> wd_chat_contains_user c uid then wd_reply_error uid ''wired.error.not_on_chat'' m sv
             else
               let set_topic = (\<lambda>sv.
                 let u = wd_user sv uid;
                     topic = \<lparr>t_topic = p7_string_arg m ''wired.chat.topic.topic'', t_date = sv_now sv,
                              t_nick = u_nick u, t_login = u_login u, t_ip = u_ip u\<rparr>;
                     sv = wd_chat_set_topic cid topic sv;
                     c' = c\<lparr>c_topic := Some topic\<rparr>;
                     sv = wd_chat_broadcast_message c' (the (wd_chat_topic_message c')) sv
                 in Inr (wd_user_reply_okay uid m sv))
               in if cid = WD_PUBLIC_CHAT_ID
                  then wd_with_privilege ''wired.account.chat.set_topic'' uid m set_topic sv else set_topic sv)"

definition wd_message_chat_send_say_or_me :: "32 word \<Rightarrow> p7_message \<Rightarrow> wd_server \<Rightarrow> wd_server wd_result" where
  "wd_message_chat_send_say_or_me uid m sv =
     (let cid = p7_uint32_arg sv m ''wired.chat.id''
      in case wd_chats_chat_with_id sv cid of
           None \<Rightarrow> wd_reply_error uid ''wired.error.chat_not_found'' m sv
         | Some c \<Rightarrow>
             if \<not> wd_chat_contains_user c uid then wd_reply_error uid ''wired.error.not_on_chat'' m sv
             else
               let name = (if m_name m = ''wired.chat.send_say'' then ''wired.chat.say'' else ''wired.chat.me'');
                   string = p7_string_arg m name;
                   array = wi_string_components_separated_by_string string [CHR 0x0A, CHR 0x0D];
                   sv = fold (\<lambda>line sv.
                          if length line > 0 then
                            wd_chat_broadcast_message c
                              \<lparr>m_name = name,
                               m_fields = [(name, P7_String line), (''wired.chat.id'', P7_UInt32 cid),
                                           (''wired.user.id'', P7_UInt32 uid)]\<rparr> sv
                          else sv) array sv
               in Inr (wd_user_reply_okay uid m sv))"

definition wd_message_chat_create_chat :: "32 word \<Rightarrow> p7_message \<Rightarrow> wd_server \<Rightarrow> wd_server wd_result" where
  "wd_message_chat_create_chat uid m = wd_with_privilege ''wired.account.chat.create_chats'' uid m (\<lambda>sv.
     let (c, sv) = wd_chat_init_private_chat sv;
         c = wd_chat_add_invitation_for_user c uid;
         sv = wd_chats_add_chat c sv
     in Inr (wd_user_reply_message uid
          \<lparr>m_name = ''wired.chat.chat_created'', m_fields = [(''wired.chat.id'', P7_UInt32 (c_id c))]\<rparr> m sv))"

definition wd_message_chat_invite_user :: "32 word \<Rightarrow> p7_message \<Rightarrow> wd_server \<Rightarrow> wd_server wd_result" where
  "wd_message_chat_invite_user uid m sv =
     (let pid = p7_uint32_arg sv m ''wired.user.id''; cid = p7_uint32_arg sv m ''wired.chat.id''
      in case wd_users_user_with_id sv pid of
           None \<Rightarrow> wd_reply_error uid ''wired.error.user_not_found'' m sv
         | Some peer \<Rightarrow>
             (case wd_chats_chat_with_id sv cid of
                None \<Rightarrow> wd_reply_error uid ''wired.error.chat_not_found'' m sv
              | Some c \<Rightarrow>
                  if \<not> wd_chat_contains_user c uid then wd_reply_error uid ''wired.error.not_on_chat'' m sv
                  else if wd_chat_contains_user c pid then wd_reply_error uid ''wired.error.already_on_chat'' m sv
                  else
                    let sv = wd_set_chat (\<lambda>c. wd_chat_add_invitation_for_user c pid) cid sv;
                        sv = wd_user_send_message pid
                               \<lparr>m_name = ''wired.chat.invitation'',
                                m_fields = [(''wired.user.id'', P7_UInt32 uid), (''wired.chat.id'', P7_UInt32 cid)]\<rparr> sv
                    in Inr (wd_user_reply_okay uid m sv)))"

definition wd_message_chat_decline_invitation :: "32 word \<Rightarrow> p7_message \<Rightarrow> wd_server \<Rightarrow> wd_server wd_result" where
  "wd_message_chat_decline_invitation uid m sv =
     (let pid = p7_uint32_arg sv m ''wired.user.id''; cid = p7_uint32_arg sv m ''wired.chat.id''
      in case wd_users_user_with_id sv pid of
           None \<Rightarrow> wd_reply_error uid ''wired.error.user_not_found'' m sv
         | Some peer \<Rightarrow>
             (case wd_chats_chat_with_id sv cid of
                None \<Rightarrow> wd_reply_error uid ''wired.error.chat_not_found'' m sv
              | Some c \<Rightarrow>
                  if cid \<noteq> WD_PUBLIC_CHAT_ID \<and> \<not> wd_chat_is_user_invited c uid
                  then wd_reply_error uid ''wired.error.not_invited_to_chat'' m sv
                  else
                    let sv = wd_set_chat (\<lambda>c. wd_chat_remove_invitation_for_user c uid) cid sv;
                        sv = wd_user_send_message pid
                               \<lparr>m_name = ''wired.chat.user_decline_invitation'',
                                m_fields = [(''wired.user.id'', P7_UInt32 uid), (''wired.chat.id'', P7_UInt32 cid)]\<rparr> sv
                    in Inr (wd_user_reply_okay uid m sv)))"

subsection \<open>Private messages\<close>

definition wd_message_message_send_message :: "32 word \<Rightarrow> p7_message \<Rightarrow> wd_server \<Rightarrow> wd_server wd_result" where
  "wd_message_message_send_message uid m = wd_with_privilege ''wired.account.message.send_messages'' uid m (\<lambda>sv.
     let pid = p7_uint32_arg sv m ''wired.user.id''
     in case wd_users_user_with_id sv pid of
          None \<Rightarrow> wd_reply_error uid ''wired.error.user_not_found'' m sv
        | Some peer \<Rightarrow>
            let sv = wd_user_send_message pid
                       \<lparr>m_name = ''wired.message.message'',
                        m_fields = [(''wired.user.id'', P7_UInt32 uid),
                          (''wired.message.message'', P7_String (p7_string_arg m ''wired.message.message''))]\<rparr> sv;
                sv = wd_user_reply_okay uid m sv
            in wd_events_add_event ''wired.event.message.sent'' uid [u_nick (wd_user sv pid)] sv)"

definition wd_message_message_set_offline_public_key :: "32 word \<Rightarrow> p7_message \<Rightarrow> wd_server \<Rightarrow> wd_server wd_result" where
  "wd_message_message_set_offline_public_key uid m = wd_with_privilege ''wired.account.message.send_messages'' uid m (\<lambda>sv.
     case p7_data m ''wired.message.offline_public_key'' of
       None \<Rightarrow> wd_reply_error uid ''wired.error.invalid_message'' m sv
     | Some key \<Rightarrow>
         if length key = 0 then wd_reply_error uid ''wired.error.invalid_message'' m sv
         else if length key > 1024 then wd_reply_error uid ''wired.error.invalid_message'' m sv
         else
           let sv = (case u_login (wd_user sv uid) of
                       Some login \<Rightarrow>
                         if sv_db_ok sv
                         then sv\<lparr>sv_offline_keys := filter (\<lambda>k. fst k \<noteq> login) (sv_offline_keys sv) @ [(login, key)]\<rparr>
                         else sv
                     | None \<Rightarrow> sv)
           in Inr (wd_user_reply_okay uid m sv))"

text \<open>
  The recipient: by token, or by login from old clients, for whom a token is made. The
  error to reply, or the recipient's login and the new state.
\<close>

definition wd_message_offline_recipient :: "p7_message \<Rightarrow> wd_server \<Rightarrow> string + string \<times> wd_server" where
  "wd_message_offline_recipient m sv =
     (let token = p7_string_arg m ''wired.message.offline_recipient_token'' in
      if length token > 0 then
        (case (if sv_db_ok sv then find (\<lambda>t. ot_token t = token) (sv_offline_tokens sv) else None) of
           None \<Rightarrow> Inl ''wired.error.account_not_found''
         | Some t \<Rightarrow> Inr (ot_login t, sv))
      else
        let login = p7_string_arg m ''wired.message.offline_recipient'' in
        if length login = 0 then Inl ''wired.error.invalid_message''
        else if wd_accounts_read_user sv login = None then Inl ''wired.error.account_not_found''
        else Inr (login, snd (wd_messages_token_for_login (Some login) sv)))"

text \<open>
  A statement with a nick or login that is NULL lacks arguments and fails on its NOT NULL
  columns.
\<close>

definition wd_message_store_offline_message :: "string \<Rightarrow> 32 word \<Rightarrow> p7_message \<Rightarrow> wd_server \<Rightarrow> wd_server wd_result" where
  "wd_message_store_offline_message recipient uid m sv =
     (if sv_db_ok sv \<and> length (filter (\<lambda>p. pm_recipient_login p = recipient) (sv_pending sv)) \<ge> 50
      then wd_reply_error uid ''wired.error.internal_error'' m sv
      else
        let (sender_token, sv) = wd_messages_token_for_login (u_login (wd_user sv uid)) sv;
            ciphertext = (case p7_data m ''wired.message.offline_message_ciphertext'' of
                            Some c \<Rightarrow> if length c = 0 then None else Some c | None \<Rightarrow> None)
        in if (case ciphertext of Some c \<Rightarrow> length c > 65536 | None \<Rightarrow> False)
           then wd_reply_error uid ''wired.error.invalid_message'' m sv
           else if u_login (wd_user sv uid) = None \<or> u_nick (wd_user sv uid) = None \<or> \<not> sv_db_ok sv
           then wd_reply_error uid ''wired.error.internal_error'' m sv
           else
             let row = \<lparr>pm_sender_nick = the (u_nick (wd_user sv uid)), pm_sender_login = the (u_login (wd_user sv uid)),
                        pm_sender_token = sender_token, pm_recipient_login = recipient,
                        pm_message = p7_string_arg m ''wired.message.message'', pm_ciphertext = ciphertext,
                        pm_sent_at = sv_now sv\<rparr>;
                 sv = wd_user_reply_okay uid m (sv\<lparr>sv_pending := sv_pending sv @ [row]\<rparr>)
             in wd_events_add_event ''wired.event.message.sent'' uid [u_nick (wd_user sv uid)] sv)"

definition wd_message_message_send_offline_message :: "32 word \<Rightarrow> p7_message \<Rightarrow> wd_server \<Rightarrow> wd_server wd_result" where
  "wd_message_message_send_offline_message uid m = wd_with_privilege ''wired.account.message.send_messages'' uid m (\<lambda>sv.
     case wd_message_offline_recipient m sv of
       Inl err \<Rightarrow> wd_reply_error uid err m sv
     | Inr (recipient, sv) \<Rightarrow> wd_message_store_offline_message recipient uid m sv)"

definition wd_message_message_send_broadcast :: "32 word \<Rightarrow> p7_message \<Rightarrow> wd_server \<Rightarrow> wd_server wd_result" where
  "wd_message_message_send_broadcast uid m = wd_with_privilege ''wired.account.message.broadcast'' uid m (\<lambda>sv.
     let sv = wd_broadcast_message
                \<lparr>m_name = ''wired.message.broadcast'',
                 m_fields = [(''wired.user.id'', P7_UInt32 uid),
                   (''wired.message.broadcast'', P7_String (p7_string_arg m ''wired.message.broadcast''))]\<rparr> sv;
         sv = wd_user_reply_okay uid m sv
     in wd_events_add_event ''wired.event.message.broadcasted'' uid [] sv)"

subsection \<open>Subscriptions\<close>

text \<open>The handlers that set or clear one of the flags \<open>subscribed\<close> of the user.\<close>

definition wd_message_subscribe ::
  "string \<Rightarrow> (wd_user \<Rightarrow> bool) \<Rightarrow> (wd_user \<Rightarrow> wd_user) \<Rightarrow> 32 word \<Rightarrow> p7_message \<Rightarrow> wd_server \<Rightarrow> wd_server wd_result" where
  "wd_message_subscribe field subscribed subscribe uid m = wd_with_privilege field uid m (\<lambda>sv.
     if subscribed (wd_user sv uid) then wd_reply_error uid ''wired.error.already_subscribed'' m sv
     else Inr (wd_user_reply_okay uid m (wd_set_user subscribe uid sv)))"

definition wd_message_unsubscribe ::
  "string \<Rightarrow> (wd_user \<Rightarrow> bool) \<Rightarrow> (wd_user \<Rightarrow> wd_user) \<Rightarrow> 32 word \<Rightarrow> p7_message \<Rightarrow> wd_server \<Rightarrow> wd_server wd_result" where
  "wd_message_unsubscribe field subscribed unsubscribe uid m = wd_with_privilege field uid m (\<lambda>sv.
     if \<not> subscribed (wd_user sv uid) then wd_reply_error uid ''wired.error.not_subscribed'' m sv
     else Inr (wd_user_reply_okay uid m (wd_set_user unsubscribe uid sv)))"

definition wd_message_board_subscribe_boards :: "32 word \<Rightarrow> p7_message \<Rightarrow> wd_server \<Rightarrow> wd_server wd_result" where
  "wd_message_board_subscribe_boards =
     wd_message_subscribe ''wired.account.board.read_boards'' u_subscribed_boards (\<lambda>u. u\<lparr>u_subscribed_boards := True\<rparr>)"

definition wd_message_board_unsubscribe_boards :: "32 word \<Rightarrow> p7_message \<Rightarrow> wd_server \<Rightarrow> wd_server wd_result" where
  "wd_message_board_unsubscribe_boards =
     wd_message_unsubscribe ''wired.account.board.read_boards'' u_subscribed_boards (\<lambda>u. u\<lparr>u_subscribed_boards := False\<rparr>)"

definition wd_message_account_subscribe_accounts :: "32 word \<Rightarrow> p7_message \<Rightarrow> wd_server \<Rightarrow> wd_server wd_result" where
  "wd_message_account_subscribe_accounts =
     wd_message_subscribe ''wired.account.account.list_accounts'' u_subscribed_accounts (\<lambda>u. u\<lparr>u_subscribed_accounts := True\<rparr>)"

definition wd_message_account_unsubscribe_accounts :: "32 word \<Rightarrow> p7_message \<Rightarrow> wd_server \<Rightarrow> wd_server wd_result" where
  "wd_message_account_unsubscribe_accounts =
     wd_message_unsubscribe ''wired.account.account.list_accounts'' u_subscribed_accounts (\<lambda>u. u\<lparr>u_subscribed_accounts := False\<rparr>)"

definition wd_message_log_subscribe :: "32 word \<Rightarrow> p7_message \<Rightarrow> wd_server \<Rightarrow> wd_server wd_result" where
  "wd_message_log_subscribe =
     wd_message_subscribe ''wired.account.log.view_log'' u_subscribed_log (\<lambda>u. u\<lparr>u_subscribed_log := True\<rparr>)"

definition wd_message_log_unsubscribe :: "32 word \<Rightarrow> p7_message \<Rightarrow> wd_server \<Rightarrow> wd_server wd_result" where
  "wd_message_log_unsubscribe =
     wd_message_unsubscribe ''wired.account.log.view_log'' u_subscribed_log (\<lambda>u. u\<lparr>u_subscribed_log := False\<rparr>)"

definition wd_message_event_subscribe :: "32 word \<Rightarrow> p7_message \<Rightarrow> wd_server \<Rightarrow> wd_server wd_result" where
  "wd_message_event_subscribe =
     wd_message_subscribe ''wired.account.events.view_events'' u_subscribed_events (\<lambda>u. u\<lparr>u_subscribed_events := True\<rparr>)"

definition wd_message_event_unsubscribe :: "32 word \<Rightarrow> p7_message \<Rightarrow> wd_server \<Rightarrow> wd_server wd_result" where
  "wd_message_event_unsubscribe =
     wd_message_unsubscribe ''wired.account.events.view_events'' u_subscribed_events (\<lambda>u. u\<lparr>u_subscribed_events := False\<rparr>)"

subsection \<open>Events and bans\<close>

definition wd_message_event_get_first_time :: "32 word \<Rightarrow> p7_message \<Rightarrow> wd_server \<Rightarrow> wd_server wd_result" where
  "wd_message_event_get_first_time uid m = wd_with_privilege ''wired.account.events.view_events'' uid m (\<lambda>sv.
     Inr (snd (wd_events_reply_first_time uid m sv)))"

definition wd_message_event_get_events :: "32 word \<Rightarrow> p7_message \<Rightarrow> wd_server \<Rightarrow> wd_server wd_result" where
  "wd_message_event_get_events uid m = wd_with_privilege ''wired.account.events.view_events'' uid m (\<lambda>sv.
     let fromtime = p7_date m ''wired.event.from_time'';
         numberofdays = (case p7_uint32 m ''wired.event.number_of_days'' of Some n \<Rightarrow> n | None \<Rightarrow> 0);
         lasteventcount = (case p7_uint32 m ''wired.event.last_event_count'' of Some n \<Rightarrow> n | None \<Rightarrow> 0)
     in wd_bind (wd_events_add_event ''wired.event.events.got_events'' uid [] sv) (\<lambda>sv.
          Inr (snd (wd_events_reply_events fromtime numberofdays lasteventcount uid m sv))))"

definition wd_message_event_delete_events :: "32 word \<Rightarrow> p7_message \<Rightarrow> wd_server \<Rightarrow> wd_server wd_result" where
  "wd_message_event_delete_events uid m sv = Inr (wd_user_reply_okay uid m sv)"

definition wd_message_banlist_get_bans :: "32 word \<Rightarrow> p7_message \<Rightarrow> wd_server \<Rightarrow> wd_server wd_result" where
  "wd_message_banlist_get_bans uid m = wd_with_privilege ''wired.account.banlist.get_bans'' uid m (\<lambda>sv.
     wd_events_add_event ''wired.event.banlist.got_bans'' uid [] (wd_banlist_reply_bans uid m sv))"

definition wd_message_banlist_add_ban :: "32 word \<Rightarrow> p7_message \<Rightarrow> wd_server \<Rightarrow> wd_server wd_result" where
  "wd_message_banlist_add_ban uid m = wd_with_privilege ''wired.account.banlist.add_bans'' uid m (\<lambda>sv.
     let ip = p7_string_arg m ''wired.banlist.ip'';
         (added, sv) = wd_banlist_add_ban ip (p7_date m ''wired.banlist.expiration_date'') uid m sv
     in if added then
          wd_events_add_event ''wired.event.banlist.added_ban'' uid [Some ip] (wd_user_reply_okay uid m sv)
        else Inr sv)"

definition wd_message_banlist_delete_ban :: "32 word \<Rightarrow> p7_message \<Rightarrow> wd_server \<Rightarrow> wd_server wd_result" where
  "wd_message_banlist_delete_ban uid m = wd_with_privilege ''wired.account.banlist.delete_bans'' uid m (\<lambda>sv.
     let ip = p7_string_arg m ''wired.banlist.ip'';
         (deleted, sv) = wd_banlist_delete_ban ip uid m sv
     in if deleted then
          wd_events_add_event ''wired.event.banlist.deleted_ban'' uid [Some ip] (wd_user_reply_okay uid m sv)
        else Inr sv)"

end
