(* ===== verification/Wd_Boards.thy ===== *)
theory Wd_Boards
  imports Wd_Events Wd_Accounts "HOL-Library.Char_ord" "HOL-Library.List_Lexorder"
begin

text \<open>
  The boards (boards.c): the tables of boards, threads and posts with the statements that the
  server executes on them, who may read and write a board, the listings, the changes and
  what the subscribed users are told of them.

  Dates are seconds. Rows are selected in the order of their insertion where the statement
  does not order them; of several replies with the latest date SQLite takes one, here the
  first. The migration of boards and news from files is not modelled.
\<close>

subsection \<open>Privileges\<close>

record wd_board_privileges =
  bp_owner :: string
  bp_group :: string
  bp_mode :: "64 word"

definition WD_BOARD_OWNER_WRITE :: "64 word" where "WD_BOARD_OWNER_WRITE = push_bit 6 2"
definition WD_BOARD_OWNER_READ :: "64 word" where "WD_BOARD_OWNER_READ = push_bit 6 4"
definition WD_BOARD_GROUP_WRITE :: "64 word" where "WD_BOARD_GROUP_WRITE = push_bit 3 2"
definition WD_BOARD_GROUP_READ :: "64 word" where "WD_BOARD_GROUP_READ = push_bit 3 4"
definition WD_BOARD_EVERYONE_WRITE :: "64 word" where "WD_BOARD_EVERYONE_WRITE = push_bit 0 2"
definition WD_BOARD_EVERYONE_READ :: "64 word" where "WD_BOARD_EVERYONE_READ = push_bit 0 4"

lemmas wd_board_permissions =
  WD_BOARD_OWNER_WRITE_def WD_BOARD_OWNER_READ_def WD_BOARD_GROUP_WRITE_def WD_BOARD_GROUP_READ_def
  WD_BOARD_EVERYONE_WRITE_def WD_BOARD_EVERYONE_READ_def

definition wd_board_privileges_with_message :: "wd_server \<Rightarrow> p7_message \<Rightarrow> wd_board_privileges" where
  "wd_board_privileges_with_message sv m =
     (let bit = (\<lambda>f w. if p7_bool_arg sv m f then w else 0)
      in \<lparr>bp_owner = p7_string_arg m ''wired.board.owner'',
          bp_group = p7_string_arg m ''wired.board.group'',
          bp_mode = or (or (or (or (or (bit ''wired.board.owner.read'' WD_BOARD_OWNER_READ)
              (bit ''wired.board.owner.write'' WD_BOARD_OWNER_WRITE))
              (bit ''wired.board.group.read'' WD_BOARD_GROUP_READ))
              (bit ''wired.board.group.write'' WD_BOARD_GROUP_WRITE))
              (bit ''wired.board.everyone.read'' WD_BOARD_EVERYONE_READ))
              (bit ''wired.board.everyone.write'' WD_BOARD_EVERYONE_WRITE)\<rparr>)"

definition wd_board_privileges_with_sqlite3_results :: "wd_board \<Rightarrow> wd_board_privileges" where
  "wd_board_privileges_with_sqlite3_results b =
     \<lparr>bp_owner = bo_owner b, bp_group = bo_group b, bp_mode = word_of_int (bo_mode b)\<rparr>"

definition wd_account_list :: "string \<Rightarrow> wd_account \<Rightarrow> string list" where
  "wd_account_list f a = (case wi_dictionary_data_for_key a f of Some (AV_List l) \<Rightarrow> l | _ \<Rightarrow> [])"

text \<open>
  The two tests differ in the bits they look at. The account is only looked at when one of
  the bits of the group and the owner is set, in a board that has a group or an owner.
\<close>

definition wd_board_access ::
  "64 word \<Rightarrow> 64 word \<Rightarrow> 64 word \<Rightarrow> wd_board_privileges option \<Rightarrow> wd_account option \<Rightarrow> bool wd_result" where
  "wd_board_access everyone_bit group_bit owner_bit privileges account =
     (case privileges of
        None \<Rightarrow> Inl Null_Privileges
      | Some p \<Rightarrow>
          if and (bp_mode p) everyone_bit \<noteq> 0 then Inr True
          else
            let by_group = and (bp_mode p) group_bit \<noteq> 0 \<and> length (bp_group p) > 0;
                by_owner = and (bp_mode p) owner_bit \<noteq> 0 \<and> length (bp_owner p) > 0
            in if \<not> by_group \<and> \<not> by_owner then Inr False
               else (case account of
                  None \<Rightarrow> Inl Null_Account
                | Some a \<Rightarrow> Inr
                    (by_group \<and> (bp_group p = wd_account_string ''wired.account.group'' a \<or>
                       list_ex (\<lambda>g. g = bp_group p) (wd_account_list ''wired.account.groups'' a)) \<or>
                     by_owner \<and> bp_owner p = wd_account_string ''wired.account.name'' a)))"

definition wd_board_privileges_is_readable_by_account ::
  "wd_board_privileges option \<Rightarrow> wd_account option \<Rightarrow> bool wd_result" where
  "wd_board_privileges_is_readable_by_account =
     wd_board_access WD_BOARD_EVERYONE_READ WD_BOARD_GROUP_READ WD_BOARD_OWNER_READ"

definition wd_board_privileges_is_writable_by_account ::
  "wd_board_privileges option \<Rightarrow> wd_account option \<Rightarrow> bool wd_result" where
  "wd_board_privileges_is_writable_by_account =
     wd_board_access WD_BOARD_EVERYONE_WRITE WD_BOARD_GROUP_WRITE WD_BOARD_OWNER_WRITE"

text \<open>Both tests, where the program makes them one after the other.\<close>

definition wd_board_rights :: "wd_board_privileges option \<Rightarrow> wd_account option \<Rightarrow> (bool \<times> bool) wd_result" where
  "wd_board_rights privileges account =
     wd_bind (wd_board_privileges_is_readable_by_account privileges account) (\<lambda>readable.
       wd_bind (wd_board_privileges_is_writable_by_account privileges account) (\<lambda>writable. Inr (readable, writable)))"

subsection \<open>Looking up\<close>

definition wd_boards_board :: "wd_server \<Rightarrow> string \<Rightarrow> wd_board option" where
  "wd_boards_board sv board = find (\<lambda>b. bo_board b = board) (sv_boards sv)"

definition wd_boards_thread :: "wd_server \<Rightarrow> string \<Rightarrow> wd_thread option" where
  "wd_boards_thread sv thread = find (\<lambda>t. th_thread t = thread) (sv_threads sv)"

definition wd_boards_post :: "wd_server \<Rightarrow> string \<Rightarrow> wd_post option" where
  "wd_boards_post sv post = find (\<lambda>p. po_post p = post) (sv_posts sv)"

text \<open>
  The privileges are NULL when the database fails. The mode of a row that was not found is
  NULL, and that of a thread whose board is not there the null object.
\<close>

definition wd_boards_privileges_for_board :: "string \<Rightarrow> wd_server \<Rightarrow> wd_board_privileges option wd_result" where
  "wd_boards_privileges_for_board board sv =
     (if \<not> sv_db_ok sv then Inr None
      else case wd_boards_board sv board of
             None \<Rightarrow> Inl Missing_Row
           | Some b \<Rightarrow> Inr (Some (wd_board_privileges_with_sqlite3_results b)))"

definition wd_boards_privileges_joined :: "wd_board option \<Rightarrow> wd_board_privileges wd_result" where
  "wd_boards_privileges_joined board =
     (case board of
        None \<Rightarrow> Inl Null_Column
      | Some b \<Rightarrow> Inr (wd_board_privileges_with_sqlite3_results b))"

definition wd_boards_privileges_for_thread :: "string \<Rightarrow> wd_server \<Rightarrow> wd_board_privileges option wd_result" where
  "wd_boards_privileges_for_thread thread sv =
     (if \<not> sv_db_ok sv then Inr None
      else case wd_boards_thread sv thread of
             None \<Rightarrow> Inl Missing_Row
           | Some t \<Rightarrow> wd_bind (wd_boards_privileges_joined (wd_boards_board sv (th_board t))) (\<lambda>p. Inr (Some p)))"

definition wd_boards_privileges_for_post :: "string \<Rightarrow> wd_server \<Rightarrow> wd_board_privileges option wd_result" where
  "wd_boards_privileges_for_post post sv =
     (if \<not> sv_db_ok sv then Inr None
      else case wd_boards_post sv post of
             None \<Rightarrow> Inl Missing_Row
           | Some p \<Rightarrow> wd_bind (wd_boards_privileges_joined
               (Option.bind (wd_boards_thread sv (po_thread p)) (\<lambda>t. wd_boards_board sv (th_board t)))) (\<lambda>p. Inr (Some p)))"

definition wd_boards_has_board_with_name :: "string \<Rightarrow> wd_server \<Rightarrow> bool" where
  "wd_boards_has_board_with_name board sv \<longleftrightarrow> sv_db_ok sv \<and> wd_boards_board sv board \<noteq> None"

definition wd_boards_board_for_thread :: "string \<Rightarrow> wd_server \<Rightarrow> string option" where
  "wd_boards_board_for_thread thread sv =
     (if sv_db_ok sv then map_option th_board (wd_boards_thread sv thread) else None)"

definition wd_boards_subject_for_thread :: "string \<Rightarrow> wd_server \<Rightarrow> string option" where
  "wd_boards_subject_for_thread thread sv =
     (if sv_db_ok sv then map_option th_subject (wd_boards_thread sv thread) else None)"

text \<open>
  Of a post whose thread or board is not there these are the null object, here None; the
  handlers that would use it have crashed before.
\<close>

definition wd_boards_board_for_post :: "string \<Rightarrow> wd_server \<Rightarrow> string option" where
  "wd_boards_board_for_post post sv =
     (if sv_db_ok sv then
        Option.bind (wd_boards_post sv post) (\<lambda>p.
          Option.bind (wd_boards_thread sv (po_thread p)) (\<lambda>t. map_option bo_board (wd_boards_board sv (th_board t))))
      else None)"

definition wd_boards_subject_for_post :: "string \<Rightarrow> wd_server \<Rightarrow> string option" where
  "wd_boards_subject_for_post post sv =
     (if sv_db_ok sv then
        Option.bind (wd_boards_post sv post) (\<lambda>p. map_option th_subject (wd_boards_thread sv (po_thread p)))
      else None)"

subsection \<open>Telling the subscribers\<close>

fun wd_each :: "('a \<Rightarrow> 's \<Rightarrow> 's wd_result) \<Rightarrow> 'a list \<Rightarrow> 's \<Rightarrow> 's wd_result" where
  "wd_each f [] s = Inr s"
| "wd_each f (x # xs) s = wd_bind (f x s) (wd_each f xs)"

definition wd_boards_broadcast :: "(wd_user \<Rightarrow> p7_message option wd_result) \<Rightarrow> wd_server \<Rightarrow> wd_server wd_result" where
  "wd_boards_broadcast message sv =
     wd_each (\<lambda>peer sv.
       let u = wd_user sv peer
       in if u_state u = WD_USER_LOGGED_IN \<and> u_subscribed_boards u then
            wd_bind (message u) (\<lambda>broadcast.
              Inr (case broadcast of Some b \<Rightarrow> wd_user_send_message peer b sv | None \<Rightarrow> sv))
          else Inr sv) (dict_keys (sv_users sv)) sv"

definition wd_board_added_message :: "string \<Rightarrow> string \<Rightarrow> bool \<times> bool \<Rightarrow> p7_message" where
  "wd_board_added_message name board rights =
     \<lparr>m_name = name,
      m_fields = [(''wired.board.board'', P7_String board), (''wired.board.readable'', P7_Bool (fst rights)),
                  (''wired.board.writable'', P7_Bool (snd rights))]\<rparr>"

definition wd_board_deleted_message :: "string \<Rightarrow> p7_message" where
  "wd_board_deleted_message board =
     \<lparr>m_name = ''wired.board.board_deleted'', m_fields = [(''wired.board.board'', P7_String board)]\<rparr>"

definition wd_board_renamed_message :: "string \<Rightarrow> string \<Rightarrow> string \<Rightarrow> p7_message" where
  "wd_board_renamed_message name oldboard newboard =
     \<lparr>m_name = name,
      m_fields = [(''wired.board.board'', P7_String oldboard), (''wired.board.new_board'', P7_String newboard)]\<rparr>"

text \<open>The message for a user who can read or write; the second test is made when the first fails.\<close>

definition wd_boards_if_accessible ::
  "wd_board_privileges option \<Rightarrow> p7_message \<Rightarrow> wd_user \<Rightarrow> p7_message option wd_result" where
  "wd_boards_if_accessible privileges m u =
     wd_bind (wd_board_privileges_is_readable_by_account privileges (u_account u)) (\<lambda>readable.
       wd_bind (if readable then Inr True else wd_board_privileges_is_writable_by_account privileges (u_account u)) (\<lambda>b.
         Inr (if b then Some m else None)))"

definition wd_boards_if_readable ::
  "wd_board_privileges option \<Rightarrow> (wd_user \<Rightarrow> p7_message wd_result) \<Rightarrow> wd_user \<Rightarrow> p7_message option wd_result" where
  "wd_boards_if_readable privileges message u =
     wd_bind (wd_board_privileges_is_readable_by_account privileges (u_account u)) (\<lambda>readable.
       if readable then wd_bind (message u) (\<lambda>m. Inr (Some m)) else Inr None)"

subsection \<open>Listing\<close>

definition wd_boards_reply_boards :: "32 word \<Rightarrow> p7_message \<Rightarrow> wd_server \<Rightarrow> wd_server wd_result" where
  "wd_boards_reply_boards uid m sv =
     (if \<not> sv_db_ok sv then Inr (wd_user_reply_internal_error uid (Some ''database'') m sv)
      else
        wd_bind
          (wd_each (\<lambda>b sv.
             wd_bind (wd_board_rights (Some (wd_board_privileges_with_sqlite3_results b)) (u_account (wd_user sv uid))) (\<lambda>rights.
               Inr (if fst rights \<or> snd rights
                    then wd_user_reply_message uid (wd_board_added_message ''wired.board.board_list'' (bo_board b) rights) m sv
                    else sv)))
             (sort_key bo_board (sv_boards sv)) sv)
          (\<lambda>sv. Inr (wd_user_reply_message uid \<lparr>m_name = ''wired.board.board_list.done'', m_fields = []\<rparr> m sv)))"

text \<open>The replies to a thread: their number, and the latest one.\<close>

definition wd_boards_replies :: "wd_server \<Rightarrow> string \<Rightarrow> wd_post list" where
  "wd_boards_replies sv thread = filter (\<lambda>p. po_thread p = thread) (sv_posts sv)"

fun wd_boards_latest :: "wd_post list \<Rightarrow> wd_post option" where
  "wd_boards_latest [] = None"
| "wd_boards_latest (p # ps) =
     (case wd_boards_latest ps of
        None \<Rightarrow> Some p
      | Some q \<Rightarrow> Some (if po_post_date q > po_post_date p then q else p))"

definition wd_boards_replies_fields :: "wd_server \<Rightarrow> string \<Rightarrow> (string \<times> p7_value) list" where
  "wd_boards_replies_fields sv thread =
     (let replies = wd_boards_replies sv thread; latest = wd_boards_latest replies
      in [(''wired.board.replies'', P7_UInt32 (of_nat (length replies)))] @
         opt_field ''wired.board.latest_reply'' P7_UUID (map_option po_post latest) @
         opt_field ''wired.board.latest_reply_date'' P7_Date (map_option po_post_date latest))"

definition wd_thread_list_message :: "wd_server \<Rightarrow> wd_user \<Rightarrow> wd_thread \<Rightarrow> p7_message" where
  "wd_thread_list_message sv u t =
     \<lparr>m_name = ''wired.board.thread_list'',
      m_fields =
        [(''wired.board.board'', P7_String (th_board t)), (''wired.board.thread'', P7_UUID (th_thread t)),
         (''wired.board.post_date'', P7_Date (th_post_date t))] @
        opt_field ''wired.board.edit_date'' P7_Date (th_edit_date t) @
        [(''wired.board.own_thread'', P7_Bool (Some (th_login t) = u_login u))] @
        wd_boards_replies_fields sv (th_thread t) @
        [(''wired.board.subject'', P7_String (th_subject t)), (''wired.user.nick'', P7_String (th_nick t))]\<rparr>"

text \<open>
  The threads of one board, or all; a board that is not there gives no threads, and a thread
  whose board is not there has no mode when all threads are listed.
\<close>

definition wd_boards_select_threads :: "string option \<Rightarrow> wd_server \<Rightarrow> (wd_thread \<times> wd_board option) list" where
  "wd_boards_select_threads board sv =
     (let rows = map (\<lambda>t. (t, wd_boards_board sv (th_board t))) (sv_threads sv)
      in case board of None \<Rightarrow> rows | Some name \<Rightarrow> filter (\<lambda>r. map_option bo_board (snd r) = Some name) rows)"

definition wd_boards_reply_threads :: "string option \<Rightarrow> 32 word \<Rightarrow> p7_message \<Rightarrow> wd_server \<Rightarrow> wd_server wd_result" where
  "wd_boards_reply_threads board uid m sv =
     (if \<not> sv_db_ok sv then Inr (wd_user_reply_internal_error uid (Some ''database'') m sv)
      else
        wd_bind
          (wd_each (\<lambda>row sv.
             wd_bind (wd_boards_privileges_joined (snd row)) (\<lambda>privileges.
               wd_bind (wd_board_privileges_is_readable_by_account (Some privileges) (u_account (wd_user sv uid))) (\<lambda>readable.
                 Inr (if readable
                      then wd_user_reply_message uid (wd_thread_list_message sv (wd_user sv uid) (fst row)) m sv
                      else sv))))
             (wd_boards_select_threads board sv) sv)
          (\<lambda>sv. Inr (wd_user_reply_message uid \<lparr>m_name = ''wired.board.thread_list.done'', m_fields = []\<rparr> m sv)))"

text \<open>The text of the first thread is read as if it were bytes, which the two structures allow.\<close>

definition wd_icon_field :: "wd_icon \<Rightarrow> (string \<times> p7_value) list wd_result" where
  "wd_icon_field icon =
     (case icon of
        Icon_Null \<Rightarrow> Inl Null_Column
      | Icon_Blob bytes \<Rightarrow> Inr [(''wired.user.icon'', P7_Data bytes)]
      | Icon_Text s \<Rightarrow> Inr [(''wired.user.icon'', P7_Data (map of_char s))])"

definition wd_thread_message :: "wd_thread \<Rightarrow> p7_message wd_result" where
  "wd_thread_message t =
     wd_bind (wd_icon_field (th_icon t)) (\<lambda>icon.
       Inr \<lparr>m_name = ''wired.board.thread'',
            m_fields = [(''wired.board.thread'', P7_UUID (th_thread t)), (''wired.board.text'', P7_String (th_text t))] @ icon\<rparr>)"

definition wd_post_list_message :: "wd_user \<Rightarrow> wd_post \<Rightarrow> p7_message wd_result" where
  "wd_post_list_message u p =
     wd_bind (wd_icon_field (po_icon p)) (\<lambda>icon.
       Inr \<lparr>m_name = ''wired.board.post_list'',
            m_fields =
              [(''wired.board.thread'', P7_UUID (po_thread p)), (''wired.board.post'', P7_UUID (po_post p)),
               (''wired.board.post_date'', P7_Date (po_post_date p))] @
              opt_field ''wired.board.edit_date'' P7_Date (po_edit_date p) @
              [(''wired.board.text'', P7_String (po_text p)),
               (''wired.board.own_post'', P7_Bool (Some (po_login p) = u_login u)),
               (''wired.user.nick'', P7_String (po_nick p))] @ icon\<rparr>)"

definition wd_boards_reply_thread :: "string \<Rightarrow> 32 word \<Rightarrow> p7_message \<Rightarrow> wd_server \<Rightarrow> (bool \<times> wd_server) wd_result" where
  "wd_boards_reply_thread thread uid m sv =
     (if \<not> sv_db_ok sv then Inr (False, wd_user_reply_internal_error uid (Some ''database'') m sv)
      else case wd_boards_thread sv thread of
        None \<Rightarrow> Inr (False, wd_user_reply_error uid ''wired.error.thread_not_found'' m sv)
      | Some t \<Rightarrow>
          wd_bind (wd_boards_privileges_joined (wd_boards_board sv (th_board t))) (\<lambda>privileges.
            wd_bind (wd_board_privileges_is_readable_by_account (Some privileges) (u_account (wd_user sv uid))) (\<lambda>readable.
              if \<not> readable then Inr (False, wd_user_reply_error uid ''wired.error.permission_denied'' m sv)
              else
                wd_bind (wd_thread_message t) (\<lambda>reply.
                  wd_bind
                    (wd_each (\<lambda>p sv.
                       wd_bind (wd_post_list_message (wd_user sv uid) p) (\<lambda>reply. Inr (wd_user_reply_message uid reply m sv)))
                       (wd_boards_replies sv thread) (wd_user_reply_message uid reply m sv))
                    (\<lambda>sv. Inr (True, wd_user_reply_message uid
                       \<lparr>m_name = ''wired.board.post_list.done'', m_fields = [(''wired.board.thread'', P7_UUID thread)]\<rparr> m sv))))))"

subsection \<open>Statements that change the tables\<close>

text \<open>
  The name of a board, the identifier of a thread and that of a post are the primary keys of
  their tables. A statement that would make two rows with one key, or put NULL into a column
  that is NOT NULL, changes nothing and fails (None), as every statement does while the
  database fails.
\<close>

definition wd_db_rename_board :: "string \<Rightarrow> string \<Rightarrow> wd_server \<Rightarrow> wd_server option" where
  "wd_db_rename_board oldboard newboard sv =
     (if \<not> sv_db_ok sv then None
      else if oldboard \<noteq> newboard \<and> wd_boards_board sv oldboard \<noteq> None \<and> wd_boards_board sv newboard \<noteq> None then None
      else Some (sv\<lparr>sv_boards := map (\<lambda>b. if bo_board b = oldboard then b\<lparr>bo_board := newboard\<rparr> else b) (sv_boards sv)\<rparr>))"

definition wd_db_move_threads :: "string \<Rightarrow> string \<Rightarrow> wd_server \<Rightarrow> wd_server option" where
  "wd_db_move_threads oldboard newboard sv =
     (if \<not> sv_db_ok sv then None
      else Some (sv\<lparr>sv_threads := map (\<lambda>t. if th_board t = oldboard then t\<lparr>th_board := newboard\<rparr> else t) (sv_threads sv)\<rparr>))"

text \<open>The triggers: the threads go before their board, and the posts before their thread.\<close>

definition wd_db_delete_threads :: "(wd_thread \<Rightarrow> bool) \<Rightarrow> wd_server \<Rightarrow> wd_server" where
  "wd_db_delete_threads P sv =
     (let threads = map th_thread (filter P (sv_threads sv))
      in sv\<lparr>sv_threads := filter (\<lambda>t. \<not> P t) (sv_threads sv),
            sv_posts := filter (\<lambda>p. \<not> list_ex (\<lambda>t. t = po_thread p) threads) (sv_posts sv)\<rparr>)"

definition wd_db_delete_board :: "string \<Rightarrow> wd_server \<Rightarrow> wd_server" where
  "wd_db_delete_board board sv =
     (if wd_boards_board sv board = None then sv
      else
        let sv = wd_db_delete_threads (\<lambda>t. th_board t = board) sv
        in sv\<lparr>sv_boards := filter (\<lambda>b. bo_board b \<noteq> board) (sv_boards sv)\<rparr>)"

text \<open>A fresh identifier, and the icon of a user as it is bound.\<close>

definition wi_uuid :: "wd_server \<Rightarrow> string \<times> wd_server" where
  "wi_uuid sv = (sv_uuid sv (sv_uuid_count sv), sv\<lparr>sv_uuid_count := sv_uuid_count sv + 1\<rparr>)"

definition wd_bind_icon :: "8 word list option \<Rightarrow> wd_icon" where
  "wd_bind_icon icon = (case icon of None \<Rightarrow> Icon_Null | Some bytes \<Rightarrow> Icon_Blob bytes)"

definition wd_db_insert_thread ::
  "string \<Rightarrow> string \<Rightarrow> string \<Rightarrow> string \<Rightarrow> wd_user \<Rightarrow> wd_server \<Rightarrow> wd_server option" where
  "wd_db_insert_thread thread board subject txt u sv =
     (case (u_nick u, u_login u) of
        (Some nick, Some login) \<Rightarrow>
          if \<not> sv_db_ok sv \<or> wd_boards_thread sv thread \<noteq> None then None
          else Some (sv\<lparr>sv_threads := sv_threads sv @
                 [\<lparr>th_thread = thread, th_board = board, th_subject = subject, th_text = txt,
                   th_post_date = sv_now sv, th_edit_date = None, th_nick = nick, th_login = login,
                   th_ip = u_ip u, th_icon = wd_bind_icon (u_icon u)\<rparr>]\<rparr>)
      | _ \<Rightarrow> None)"

definition wd_db_insert_post :: "string \<Rightarrow> string \<Rightarrow> string \<Rightarrow> wd_user \<Rightarrow> wd_server \<Rightarrow> wd_server option" where
  "wd_db_insert_post post thread txt u sv =
     (case (u_nick u, u_login u) of
        (Some nick, Some login) \<Rightarrow>
          if \<not> sv_db_ok sv \<or> wd_boards_post sv post \<noteq> None then None
          else Some (sv\<lparr>sv_posts := sv_posts sv @
                 [\<lparr>po_post = post, po_thread = thread, po_text = txt, po_post_date = sv_now sv,
                   po_edit_date = None, po_nick = nick, po_login = login, po_ip = u_ip u,
                   po_icon = wd_bind_icon (u_icon u)\<rparr>]\<rparr>)
      | _ \<Rightarrow> None)"

subsection \<open>Boards\<close>

definition wd_boards_add_board :: "string \<Rightarrow> 32 word \<Rightarrow> p7_message \<Rightarrow> wd_server \<Rightarrow> (bool \<times> wd_server) wd_result" where
  "wd_boards_add_board board uid m sv =
     (let privileges = wd_board_privileges_with_message sv m
      in if \<not> sv_db_ok sv \<or> wd_boards_board sv board \<noteq> None
         then Inr (False, wd_user_reply_internal_error uid (Some ''database'') m sv)
         else
           let row = \<lparr>bo_board = board, bo_owner = bp_owner privileges, bo_group = bp_group privileges,
                      bo_mode = sint (ucast (bp_mode privileges) :: 32 word)\<rparr>;
               sv = sv\<lparr>sv_boards := sv_boards sv @ [row]\<rparr>
           in wd_bind
                (wd_boards_broadcast (\<lambda>u.
                   wd_bind (wd_board_rights (Some privileges) (u_account u)) (\<lambda>rights.
                     Inr (if fst rights \<or> snd rights
                          then Some (wd_board_added_message ''wired.board.board_added'' board rights) else None))) sv)
                (\<lambda>sv. Inr (True, sv)))"

text \<open>
  \<open>LIKE\<close> with the pattern made of the old name and a per cent sign: letters compare without
  regard to case, and per cent signs and underscores of the name are wild cards.
\<close>

definition sqlite_fold_case :: "char \<Rightarrow> char" where
  "sqlite_fold_case c = (let n = of_char c :: nat in if 65 \<le> n \<and> n \<le> 90 then char_of (n + 32) else c)"

fun sqlite_like :: "string \<Rightarrow> string \<Rightarrow> bool" where
  "sqlite_like [] [] = True"
| "sqlite_like [] (c # s) = False"
| "sqlite_like (p # ps) [] = (p = CHR 0x25 \<and> sqlite_like ps [])"
| "sqlite_like (p # ps) (c # s) =
     (if p = CHR 0x25 then sqlite_like ps (c # s) \<or> sqlite_like (p # ps) s
      else (p = CHR ''_'' \<or> sqlite_fold_case p = sqlite_fold_case c) \<and> sqlite_like ps s)"

definition wd_boards_like :: "string \<Rightarrow> wd_server \<Rightarrow> string list" where
  "wd_boards_like oldboard sv = sort (filter (sqlite_like (oldboard @ [CHR 0x25])) (map bo_board (sv_boards sv)))"

text \<open>The new name of a board: the first occurrence of the old name is replaced.\<close>

definition wd_boards_new_name :: "string \<Rightarrow> string \<Rightarrow> string \<Rightarrow> string option" where
  "wd_boards_new_name oldboard newboard board =
     map_option (\<lambda>i. take i board @ newboard @ drop (i + length oldboard) board) (wi_string_index_of_string board oldboard)"

definition wd_db_rename_subboard :: "string \<Rightarrow> string \<Rightarrow> wd_server \<Rightarrow> wd_server option" where
  "wd_db_rename_subboard old new sv = Option.bind (wd_db_rename_board old new sv) (wd_db_move_threads old new)"

text \<open>
  Renaming the boards below: \<open>Inl\<close> is the state in which a statement failed, with what the
  statements before it have changed.
\<close>

fun wd_boards_rename_subboards :: "(string \<times> string) list \<Rightarrow> wd_server \<Rightarrow> wd_server + wd_server" where
  "wd_boards_rename_subboards [] sv = Inr sv"
| "wd_boards_rename_subboards ((old, new) # pairs) sv =
     (if old = new then wd_boards_rename_subboards pairs sv
      else case wd_db_rename_subboard old new sv of
             None \<Rightarrow> Inl sv
           | Some sv \<Rightarrow> wd_boards_rename_subboards pairs sv)"

definition wd_boards_subboards :: "string \<Rightarrow> string \<Rightarrow> wd_server \<Rightarrow> (string \<times> string) list" where
  "wd_boards_subboards oldboard newboard sv =
     List.map_filter (\<lambda>b. if b = newboard then None else map_option (\<lambda>n. (b, n)) (wd_boards_new_name oldboard newboard b))
       (wd_boards_like oldboard sv)"

text \<open>The end of both operations: the threads of the board itself, and the news of it.\<close>

definition wd_boards_renamed ::
  "string \<Rightarrow> string \<Rightarrow> string \<Rightarrow> 32 word \<Rightarrow> p7_message \<Rightarrow> wd_server \<Rightarrow> (bool \<times> wd_server) wd_result" where
  "wd_boards_renamed name oldboard newboard uid m sv =
     (case wd_db_move_threads oldboard newboard sv of
        None \<Rightarrow> Inr (False, wd_user_reply_internal_error uid (Some ''database'') m sv)
      | Some sv \<Rightarrow>
          wd_bind (wd_boards_privileges_for_board newboard sv) (\<lambda>privileges.
            wd_bind (wd_boards_broadcast (wd_boards_if_accessible privileges (wd_board_renamed_message name oldboard newboard)) sv)
              (\<lambda>sv. Inr (True, sv))))"

definition wd_boards_rename_board ::
  "string \<Rightarrow> string \<Rightarrow> 32 word \<Rightarrow> p7_message \<Rightarrow> wd_server \<Rightarrow> (bool \<times> wd_server) wd_result" where
  "wd_boards_rename_board oldboard newboard uid m sv =
     (case wd_db_rename_board oldboard newboard sv of
        None \<Rightarrow> Inr (False, wd_user_reply_internal_error uid (Some ''database'') m sv)
      | Some sv \<Rightarrow>
          (case wd_boards_rename_subboards (wd_boards_subboards oldboard newboard sv) sv of
             Inl sv \<Rightarrow> Inr (False, wd_user_reply_internal_error uid (Some ''database'') m sv)
           | Inr sv \<Rightarrow> wd_boards_renamed ''wired.board.board_renamed'' oldboard newboard uid m sv))"

text \<open>
  Moving a board changes the table while the query for the boards below is running:
  \<open>rows\<close> is what it selected when it began. \<open>None\<close> when the loop does not end. A statement
  that fails leaves the function with the query still open; the pool of the thread then
  releases it, and its destructor asserts that it was closed.
\<close>

partial_function (option) wd_boards_move_subboards ::
  "string \<Rightarrow> string \<Rightarrow> string list \<Rightarrow> string list \<Rightarrow> wd_server \<Rightarrow> wd_server wd_result option" where
  "wd_boards_move_subboards oldboard newboard rows delivered sv =
     (case sv_cursor sv rows delivered (wd_boards_like oldboard sv) of
        None \<Rightarrow> Some (Inr sv)
      | Some old \<Rightarrow>
          (case wd_boards_new_name oldboard newboard old of
             None \<Rightarrow> wd_boards_move_subboards oldboard newboard rows (delivered @ [old]) sv
           | Some new \<Rightarrow>
               (case wd_db_rename_subboard old new sv of
                  None \<Rightarrow> Some (Inl Statement_Alive)
                | Some sv \<Rightarrow> wd_boards_move_subboards oldboard newboard rows (delivered @ [old]) sv)))"

definition wd_boards_move_board ::
  "string \<Rightarrow> string \<Rightarrow> 32 word \<Rightarrow> p7_message \<Rightarrow> wd_server \<Rightarrow> (bool \<times> wd_server) wd_result" where
  "wd_boards_move_board oldboard newboard uid m sv =
     (case wd_db_rename_board oldboard newboard sv of
        None \<Rightarrow> Inr (False, wd_user_reply_internal_error uid (Some ''database'') m sv)
      | Some sv \<Rightarrow>
          (case wd_boards_move_subboards oldboard newboard (wd_boards_like oldboard sv) [] sv of
             None \<Rightarrow> Inl Endless_Loop
           | Some r \<Rightarrow> wd_bind r (wd_boards_renamed ''wired.board.board_moved'' oldboard newboard uid m)))"

definition wd_boards_delete_board :: "string \<Rightarrow> 32 word \<Rightarrow> p7_message \<Rightarrow> wd_server \<Rightarrow> (bool \<times> wd_server) wd_result" where
  "wd_boards_delete_board board uid m sv =
     wd_bind (wd_boards_privileges_for_board board sv) (\<lambda>privileges.
       if \<not> sv_db_ok sv then Inr (False, wd_user_reply_internal_error uid (Some ''database'') m sv)
       else
         wd_bind (wd_boards_broadcast (wd_boards_if_accessible privileges (wd_board_deleted_message board)) (wd_db_delete_board board sv))
           (\<lambda>sv. Inr (True, sv)))"

definition wd_board_info_message :: "string \<Rightarrow> wd_board_privileges \<Rightarrow> p7_message" where
  "wd_board_info_message board p =
     \<lparr>m_name = ''wired.board.board_info'',
      m_fields =
        [(''wired.board.board'', P7_String board),
         (''wired.board.owner'', P7_String (bp_owner p)),
         (''wired.board.owner.read'', P7_Bool (and (bp_mode p) WD_BOARD_OWNER_READ \<noteq> 0)),
         (''wired.board.owner.write'', P7_Bool (and (bp_mode p) WD_BOARD_OWNER_WRITE \<noteq> 0)),
         (''wired.board.group'', P7_String (bp_group p)),
         (''wired.board.group.read'', P7_Bool (and (bp_mode p) WD_BOARD_GROUP_READ \<noteq> 0)),
         (''wired.board.group.write'', P7_Bool (and (bp_mode p) WD_BOARD_GROUP_WRITE \<noteq> 0)),
         (''wired.board.everyone.read'', P7_Bool (and (bp_mode p) WD_BOARD_EVERYONE_READ \<noteq> 0)),
         (''wired.board.everyone.write'', P7_Bool (and (bp_mode p) WD_BOARD_EVERYONE_WRITE \<noteq> 0))]\<rparr>"

definition wd_boards_get_board_info :: "string \<Rightarrow> 32 word \<Rightarrow> p7_message \<Rightarrow> wd_server \<Rightarrow> (bool \<times> wd_server) wd_result" where
  "wd_boards_get_board_info board uid m sv =
     wd_bind (wd_boards_privileges_for_board board sv) (\<lambda>privileges.
       case privileges of
         None \<Rightarrow> Inl Null_Privileges
       | Some p \<Rightarrow> Inr (True, wd_user_reply_message uid (wd_board_info_message board p) m sv))"

definition wd_board_info_change ::
  "string \<Rightarrow> wd_board_privileges option \<Rightarrow> wd_board_privileges option \<Rightarrow> wd_user \<Rightarrow> p7_message option wd_result" where
  "wd_board_info_change board oldprivileges newprivileges u =
     wd_bind (wd_board_rights oldprivileges (u_account u)) (\<lambda>old.
       wd_bind (wd_board_rights newprivileges (u_account u)) (\<lambda>new.
         Inr (if (fst old \<or> snd old) \<and> (\<not> fst new \<and> \<not> snd new) then Some (wd_board_deleted_message board)
              else if (\<not> fst old \<and> \<not> snd old) \<and> (fst new \<or> snd new)
              then Some (wd_board_added_message ''wired.board.board_added'' board new)
              else if (fst old \<or> snd old) \<and> (fst new \<or> snd new)
              then Some (wd_board_added_message ''wired.board.board_info_changed'' board new)
              else None)))"

definition wd_boards_set_board_info :: "string \<Rightarrow> 32 word \<Rightarrow> p7_message \<Rightarrow> wd_server \<Rightarrow> (bool \<times> wd_server) wd_result" where
  "wd_boards_set_board_info board uid m sv =
     wd_bind (wd_boards_privileges_for_board board sv) (\<lambda>oldprivileges.
       let newprivileges = wd_board_privileges_with_message sv m
       in if \<not> sv_db_ok sv then Inr (False, wd_user_reply_internal_error uid (Some ''database'') m sv)
          else
            let sv = sv\<lparr>sv_boards := map (\<lambda>b. if bo_board b = board
                      then b\<lparr>bo_owner := bp_owner newprivileges, bo_group := bp_group newprivileges,
                             bo_mode := sint (ucast (bp_mode newprivileges) :: 32 word)\<rparr>
                      else b) (sv_boards sv)\<rparr>
            in wd_bind (wd_boards_broadcast (wd_board_info_change board oldprivileges (Some newprivileges)) sv)
                 (\<lambda>sv. Inr (True, sv)))"

subsection \<open>Threads and posts\<close>

text \<open>
  The news of a changed thread. The row is looked up before the users are; a subject and an
  edit date of a thread that is not there are NULL, and the date is followed.
\<close>

definition wd_thread_changed_message :: "wd_server \<Rightarrow> string \<Rightarrow> p7_message wd_result" where
  "wd_thread_changed_message sv thread =
     (case wd_boards_thread sv thread of
        None \<Rightarrow> Inl Missing_Row
      | Some t \<Rightarrow> Inr
          \<lparr>m_name = ''wired.board.thread_changed'',
           m_fields =
             [(''wired.board.thread'', P7_UUID thread), (''wired.board.subject'', P7_String (th_subject t))] @
             opt_field ''wired.board.edit_date'' P7_Date (th_edit_date t) @
             wd_boards_replies_fields sv thread\<rparr>)"

definition wd_boards_changed_thread :: "string \<Rightarrow> wd_board_privileges option \<Rightarrow> wd_server \<Rightarrow> wd_server wd_result" where
  "wd_boards_changed_thread thread privileges sv =
     (if \<not> sv_db_ok sv then Inr sv
      else wd_boards_broadcast (wd_boards_if_readable privileges (\<lambda>_. wd_thread_changed_message sv thread)) sv)"

definition wd_thread_added_message :: "string \<Rightarrow> string \<Rightarrow> string \<Rightarrow> int \<Rightarrow> wd_user \<Rightarrow> wd_user \<Rightarrow> p7_message" where
  "wd_thread_added_message board thread subject date u peer =
     \<lparr>m_name = ''wired.board.thread_added'',
      m_fields =
        [(''wired.board.board'', P7_String board), (''wired.board.thread'', P7_UUID thread),
         (''wired.board.post_date'', P7_Date date), (''wired.board.subject'', P7_String subject),
         (''wired.board.replies'', P7_UInt32 0), (''wired.board.own_thread'', P7_Bool (u_login peer = u_login u))] @
        str_field ''wired.user.nick'' (u_nick u) @ data_field ''wired.user.icon'' (u_icon u)\<rparr>"

definition wd_boards_add_thread ::
  "string \<Rightarrow> string \<Rightarrow> string \<Rightarrow> 32 word \<Rightarrow> p7_message \<Rightarrow> wd_server \<Rightarrow> (bool \<times> wd_server) wd_result" where
  "wd_boards_add_thread board subject txt uid m sv =
     wd_bind (wd_boards_privileges_for_board board sv) (\<lambda>privileges.
       wd_bind (wd_board_privileges_is_writable_by_account privileges (u_account (wd_user sv uid))) (\<lambda>writable.
         if \<not> writable then Inr (False, wd_user_reply_error uid ''wired.error.permission_denied'' m sv)
         else
           let (thread, sv) = wi_uuid sv; u = wd_user sv uid; postdate = sv_now sv
           in case wd_db_insert_thread thread board subject txt u sv of
                None \<Rightarrow> Inr (False, wd_user_reply_internal_error uid (Some ''database'') m sv)
              | Some sv \<Rightarrow>
                  wd_bind (wd_boards_broadcast (wd_boards_if_readable privileges
                      (\<lambda>peer. Inr (wd_thread_added_message board thread subject postdate u peer))) sv)
                    (\<lambda>sv. Inr (True, sv))))"

definition wd_boards_edit_thread ::
  "string \<Rightarrow> string \<Rightarrow> string \<Rightarrow> 32 word \<Rightarrow> p7_message \<Rightarrow> wd_server \<Rightarrow> (bool \<times> wd_server) wd_result" where
  "wd_boards_edit_thread thread subject txt uid m sv =
     wd_bind (wd_boards_privileges_for_thread thread sv) (\<lambda>privileges.
       let u = wd_user sv uid
       in wd_bind (wd_board_privileges_is_writable_by_account privileges (u_account u)) (\<lambda>writable.
         if \<not> writable then Inr (False, wd_user_reply_error uid ''wired.error.permission_denied'' m sv)
         else case u_account u of
           None \<Rightarrow> Inl Null_Account
         | Some account \<Rightarrow>
             if \<not> wd_account_boolean ''wired.account.board.edit_all_threads_and_posts'' account \<and>
                u_login u \<noteq> map_option th_login (wd_boards_thread sv thread)
             then Inr (False, wd_user_reply_error uid ''wired.error.permission_denied'' m sv)
             else
               let sv = sv\<lparr>sv_threads := map (\<lambda>t. if th_thread t = thread
                         then t\<lparr>th_subject := subject, th_text := txt, th_edit_date := Some (sv_now sv)\<rparr> else t) (sv_threads sv)\<rparr>
               in wd_bind (wd_boards_changed_thread thread privileges sv) (\<lambda>sv. Inr (True, sv))))"

text \<open>
  For a user who sees the thread for the first time: a field that the message has already is
  not set again, which leaves out whether the thread is the user's own.
\<close>

definition wd_thread_moved_in_message :: "string \<Rightarrow> wd_thread \<Rightarrow> p7_message wd_result" where
  "wd_thread_moved_in_message newboard t =
     wd_bind (wd_icon_field (th_icon t)) (\<lambda>icon.
       Inr \<lparr>m_name = ''wired.board.thread_added'',
            m_fields =
              [(''wired.board.board'', P7_String newboard), (''wired.board.thread'', P7_UUID (th_thread t)),
               (''wired.board.post_date'', P7_Date (th_post_date t))] @
              opt_field ''wired.board.edit_date'' P7_Date (th_edit_date t) @
              [(''wired.board.subject'', P7_String (th_subject t)), (''wired.user.nick'', P7_String (th_nick t))] @ icon\<rparr>)"

definition wd_thread_deleted_message :: "string \<Rightarrow> p7_message" where
  "wd_thread_deleted_message thread =
     \<lparr>m_name = ''wired.board.thread_deleted'', m_fields = [(''wired.board.thread'', P7_UUID thread)]\<rparr>"

definition wd_thread_move_change ::
  "string \<Rightarrow> wd_thread \<Rightarrow> wd_board_privileges option \<Rightarrow> wd_board_privileges option \<Rightarrow> wd_user \<Rightarrow> p7_message option wd_result" where
  "wd_thread_move_change newboard t oldprivileges newprivileges u =
     wd_bind (wd_board_privileges_is_readable_by_account oldprivileges (u_account u)) (\<lambda>oldreadable.
       wd_bind (wd_board_privileges_is_readable_by_account newprivileges (u_account u)) (\<lambda>newreadable.
         if oldreadable \<and> newreadable then
           Inr (Some \<lparr>m_name = ''wired.board.thread_moved'',
             m_fields = [(''wired.board.thread'', P7_UUID (th_thread t)), (''wired.board.new_board'', P7_String newboard)]\<rparr>)
         else if oldreadable then Inr (Some (wd_thread_deleted_message (th_thread t)))
         else if newreadable then wd_bind (wd_thread_moved_in_message newboard t) (\<lambda>b. Inr (Some b))
         else Inr None))"

definition wd_boards_move_thread ::
  "string \<Rightarrow> string \<Rightarrow> 32 word \<Rightarrow> p7_message \<Rightarrow> wd_server \<Rightarrow> (bool \<times> wd_server) wd_result" where
  "wd_boards_move_thread thread newboard uid m sv =
     (if \<not> sv_db_ok sv then Inr (False, wd_user_reply_internal_error uid (Some ''database'') m sv)
      else case wd_boards_thread sv thread of
        None \<Rightarrow> Inr (False, wd_user_reply_error uid ''wired.error.thread_not_found'' m sv)
      | Some t \<Rightarrow>
          wd_bind (wd_boards_privileges_for_board (th_board t) sv) (\<lambda>oldprivileges.
            wd_bind (wd_boards_privileges_for_board newboard sv) (\<lambda>newprivileges.
              let account = u_account (wd_user sv uid)
              in wd_bind (wd_board_privileges_is_writable_by_account oldprivileges account) (\<lambda>oldwritable.
                wd_bind (if oldwritable then Inr True
                         else wd_board_privileges_is_writable_by_account newprivileges account) (\<lambda>writable.
                  if \<not> writable then Inr (False, wd_user_reply_error uid ''wired.error.permission_denied'' m sv)
                  else
                    let sv = sv\<lparr>sv_threads := map (\<lambda>t. if th_thread t = thread then t\<lparr>th_board := newboard\<rparr> else t) (sv_threads sv)\<rparr>
                    in wd_bind (wd_boards_broadcast (wd_thread_move_change newboard t oldprivileges newprivileges) sv)
                         (\<lambda>sv. Inr (True, sv)))))))"

definition wd_boards_delete_thread :: "string \<Rightarrow> 32 word \<Rightarrow> p7_message \<Rightarrow> wd_server \<Rightarrow> (bool \<times> wd_server) wd_result" where
  "wd_boards_delete_thread thread uid m sv =
     (if \<not> sv_db_ok sv then Inr (False, wd_user_reply_internal_error uid (Some ''database'') m sv)
      else case wd_boards_thread sv thread of
        None \<Rightarrow> Inr (False, wd_user_reply_error uid ''wired.error.thread_not_found'' m sv)
      | Some t \<Rightarrow>
          wd_bind (wd_boards_privileges_for_thread thread sv) (\<lambda>privileges.
            let u = wd_user sv uid
            in wd_bind (wd_board_privileges_is_writable_by_account privileges (u_account u)) (\<lambda>writable.
              if \<not> writable then Inr (False, wd_user_reply_error uid ''wired.error.permission_denied'' m sv)
              else case u_account u of
                None \<Rightarrow> Inl Null_Account
              | Some account \<Rightarrow>
                  if \<not> wd_account_boolean ''wired.account.board.delete_all_threads_and_posts'' account \<and>
                     u_login u \<noteq> Some (th_login t)
                  then Inr (False, wd_user_reply_error uid ''wired.error.permission_denied'' m sv)
                  else
                    wd_bind (wd_boards_broadcast (wd_boards_if_readable privileges (\<lambda>_. Inr (wd_thread_deleted_message thread)))
                        (wd_db_delete_threads (\<lambda>t. th_thread t = thread) sv))
                      (\<lambda>sv. Inr (True, sv)))))"

definition wd_boards_add_post :: "string \<Rightarrow> string \<Rightarrow> 32 word \<Rightarrow> p7_message \<Rightarrow> wd_server \<Rightarrow> (bool \<times> wd_server) wd_result" where
  "wd_boards_add_post thread txt uid m sv =
     (case wd_boards_board_for_thread thread sv of
        None \<Rightarrow> Inr (False, wd_user_reply_error uid ''wired.error.thread_not_found'' m sv)
      | Some board \<Rightarrow>
          wd_bind (wd_boards_privileges_for_board board sv) (\<lambda>privileges.
            wd_bind (wd_board_privileges_is_writable_by_account privileges (u_account (wd_user sv uid))) (\<lambda>writable.
              if \<not> writable then Inr (False, wd_user_reply_error uid ''wired.error.permission_denied'' m sv)
              else
                let (post, sv) = wi_uuid sv
                in case wd_db_insert_post post thread txt (wd_user sv uid) sv of
                     None \<Rightarrow> Inr (False, wd_user_reply_internal_error uid (Some ''database'') m sv)
                   | Some sv \<Rightarrow> wd_bind (wd_boards_changed_thread thread privileges sv) (\<lambda>sv. Inr (True, sv)))))"

text \<open>
  Editing and deleting a post begin alike: the post that the user may change, with the
  privileges of its board, or the error that was replied.
\<close>

definition wd_boards_changeable_post ::
  "string \<Rightarrow> string \<Rightarrow> 32 word \<Rightarrow> p7_message \<Rightarrow> wd_server \<Rightarrow> (wd_server + wd_post \<times> wd_board_privileges option) wd_result" where
  "wd_boards_changeable_post field post uid m sv =
     wd_bind (wd_boards_privileges_for_post post sv) (\<lambda>privileges.
       let u = wd_user sv uid
       in wd_bind (wd_board_privileges_is_writable_by_account privileges (u_account u)) (\<lambda>writable.
         if \<not> writable then Inr (Inl (wd_user_reply_error uid ''wired.error.permission_denied'' m sv))
         else if \<not> sv_db_ok sv then Inr (Inl (wd_user_reply_internal_error uid (Some ''database'') m sv))
         else case wd_boards_post sv post of
           None \<Rightarrow> Inr (Inl (wd_user_reply_error uid ''wired.error.post_not_found'' m sv))
         | Some p \<Rightarrow>
             (case u_account u of
                None \<Rightarrow> Inl Null_Account
              | Some account \<Rightarrow>
                  if \<not> wd_account_boolean field account \<and> u_login u \<noteq> Some (po_login p)
                  then Inr (Inl (wd_user_reply_error uid ''wired.error.permission_denied'' m sv))
                  else Inr (Inr (p, privileges)))))"

definition wd_boards_edit_post :: "string \<Rightarrow> string \<Rightarrow> 32 word \<Rightarrow> p7_message \<Rightarrow> wd_server \<Rightarrow> (bool \<times> wd_server) wd_result" where
  "wd_boards_edit_post post txt uid m sv =
     wd_bind (wd_boards_changeable_post ''wired.account.board.edit_all_threads_and_posts'' post uid m sv) (\<lambda>r.
       case r of
         Inl sv \<Rightarrow> Inr (False, sv)
       | Inr (p, privileges) \<Rightarrow>
           let sv = sv\<lparr>sv_posts := map (\<lambda>q. if po_post q = post
                     then q\<lparr>po_text := txt, po_edit_date := Some (sv_now sv)\<rparr> else q) (sv_posts sv)\<rparr>
           in wd_bind (wd_boards_changed_thread (po_thread p) privileges sv) (\<lambda>sv. Inr (True, sv)))"

definition wd_boards_delete_post :: "string \<Rightarrow> 32 word \<Rightarrow> p7_message \<Rightarrow> wd_server \<Rightarrow> (bool \<times> wd_server) wd_result" where
  "wd_boards_delete_post post uid m sv =
     wd_bind (wd_boards_changeable_post ''wired.account.board.delete_all_threads_and_posts'' post uid m sv) (\<lambda>r.
       case r of
         Inl sv \<Rightarrow> Inr (False, sv)
       | Inr (p, privileges) \<Rightarrow>
           let sv = sv\<lparr>sv_posts := filter (\<lambda>q. po_post q \<noteq> post) (sv_posts sv)\<rparr>
           in wd_bind (wd_boards_changed_thread (po_thread p) privileges sv) (\<lambda>sv. Inr (True, sv)))"

subsection \<open>The start of the server and the accounts\<close>

text \<open>
  A server without boards makes one, with a first thread. \<open>None\<close>: the server logs the error
  and exits.
\<close>

definition wd_boards_welcome :: string where
  "wd_boards_welcome =
     ''Welcome to your Wired server. To learn more about administrating your server, please have a look to the '' @
     ''[url=http://www.read-write.fr/wired/wiki/]wiki[/url].''"

definition wd_boards_initialize :: "wd_server \<Rightarrow> wd_server option" where
  "wd_boards_initialize sv =
     (if \<not> sv_db_ok sv then None
      else if length (sv_boards sv) = 0 then
        let mode = or (or (or (or (or WD_BOARD_OWNER_READ WD_BOARD_OWNER_WRITE) WD_BOARD_GROUP_READ) WD_BOARD_GROUP_WRITE)
                     WD_BOARD_EVERYONE_READ) WD_BOARD_EVERYONE_WRITE;
            row = \<lparr>bo_board = ''General'', bo_owner = ''admin'', bo_group = [], bo_mode = uint mode\<rparr>;
            (thread, sv) = wi_uuid (sv\<lparr>sv_boards := [row]\<rparr>)
        in if wd_boards_thread sv thread \<noteq> None then None
           else Some (sv\<lparr>sv_threads := sv_threads sv @
             [\<lparr>th_thread = thread, th_board = ''General'', th_subject = ''Welcome to Wired'',
               th_text = wd_boards_welcome, th_post_date = sv_now sv, th_edit_date = None,
               th_nick = ''nark'', th_login = ''admin'', th_ip = ''127.0.0.1'', th_icon = Icon_Text []\<rparr>]\<rparr>)
      else Some sv)"

text \<open>
  The renaming of an account. For an account that is deleted the new name is NULL, which the
  column of the owner does not take: the statement fails, or there was nothing to change.
\<close>

definition wd_boards_renamed_user :: "string \<Rightarrow> string option \<Rightarrow> wd_server \<Rightarrow> wd_server" where
  "wd_boards_renamed_user olduser newuser sv =
     (case newuser of
        None \<Rightarrow> sv
      | Some new \<Rightarrow>
          if \<not> sv_db_ok sv then sv
          else sv\<lparr>sv_boards := map (\<lambda>b. if bo_owner b = olduser then b\<lparr>bo_owner := new\<rparr> else b) (sv_boards sv),
                  sv_threads := map (\<lambda>t. if th_login t = olduser then t\<lparr>th_login := new\<rparr> else t) (sv_threads sv),
                  sv_posts := map (\<lambda>p. if po_login p = olduser then p\<lparr>po_login := new\<rparr> else p) (sv_posts sv)\<rparr>)"

definition wd_boards_renamed_group :: "string \<Rightarrow> string option \<Rightarrow> wd_server \<Rightarrow> wd_server" where
  "wd_boards_renamed_group oldgroup newgroup sv =
     (case newgroup of
        None \<Rightarrow> sv
      | Some new \<Rightarrow>
          if \<not> sv_db_ok sv then sv
          else sv\<lparr>sv_boards := map (\<lambda>b. if bo_group b = oldgroup then b\<lparr>bo_group := new\<rparr> else b) (sv_boards sv)\<rparr>)"

definition wd_boards_reload_account :: "32 word \<Rightarrow> wd_account option \<Rightarrow> wd_account option \<Rightarrow> wd_server \<Rightarrow> wd_server wd_result" where
  "wd_boards_reload_account uid oldaccount newaccount sv =
     (if \<not> sv_db_ok sv then Inr sv
      else wd_each (\<lambda>b sv.
        let privileges = Some (wd_board_privileges_with_sqlite3_results b)
        in wd_bind (wd_board_rights privileges oldaccount) (\<lambda>old.
          wd_bind (wd_board_rights privileges newaccount) (\<lambda>new.
            Inr (if \<not> (fst old \<or> snd old) \<and> (fst new \<or> snd new)
                 then wd_user_send_message uid (wd_board_added_message ''wired.board.board_added'' (bo_board b) new) sv
                 else if (fst old \<or> snd old) \<and> \<not> (fst new \<or> snd new)
                 then wd_user_send_message uid (wd_board_deleted_message (bo_board b)) sv
                 else sv)))) (sv_boards sv) sv)"

subsection \<open>The invariant of the tables\<close>

text \<open>The primary keys, and no post without its thread.\<close>

definition boards_tables_ok :: "wd_board list \<Rightarrow> wd_thread list \<Rightarrow> wd_post list \<Rightarrow> bool" where
  "boards_tables_ok boards threads posts \<longleftrightarrow>
     distinct (map bo_board boards) \<and> distinct (map th_thread threads) \<and> distinct (map po_post posts) \<and>
     (\<forall>p \<in> set posts. po_thread p \<in> th_thread ` set threads)"

abbreviation boards_ok :: "wd_server \<Rightarrow> bool" where
  "boards_ok sv \<equiv> boards_tables_ok (sv_boards sv) (sv_threads sv) (sv_posts sv)"

text \<open>\<open>boards_step\<close>: only the tables of the boards were changed, and their invariant is kept.\<close>

definition boards_step :: "wd_server \<Rightarrow> wd_server \<Rightarrow> bool" where
  "boards_step sv sv' \<longleftrightarrow>
     sv' = sv\<lparr>sv_boards := sv_boards sv', sv_threads := sv_threads sv', sv_posts := sv_posts sv',
              sv_uuid_count := sv_uuid_count sv'\<rparr> \<and> (boards_ok sv \<longrightarrow> boards_ok sv')"

lemma boards_stepI:
  assumes "sv' = sv\<lparr>sv_boards := bs, sv_threads := ts, sv_posts := ps, sv_uuid_count := n\<rparr>"
    and "boards_ok sv \<Longrightarrow> boards_ok sv'"
  shows "boards_step sv sv'"
  using assms by (simp add: boards_step_def)

lemma boards_step_refl: "boards_step sv sv"
  by (simp add: boards_step_def)

lemma boards_step_trans: "boards_step a b \<Longrightarrow> boards_step b c \<Longrightarrow> boards_step a c"
  unfolding boards_step_def by (elim conjE, intro conjI) (erule ssubst [of c], erule ssubst [of b], simp, simp)

lemma wd_boards_board_Some: "wd_boards_board sv board = Some b \<Longrightarrow> b \<in> set (sv_boards sv) \<and> bo_board b = board"
  by (auto simp: wd_boards_board_def find_Some_iff)

lemma wd_boards_board_None: "wd_boards_board sv board = None \<longleftrightarrow> board \<notin> bo_board ` set (sv_boards sv)"
  by (auto simp: wd_boards_board_def find_None_iff)

lemma wd_boards_thread_Some: "wd_boards_thread sv thread = Some t \<Longrightarrow> t \<in> set (sv_threads sv) \<and> th_thread t = thread"
  by (auto simp: wd_boards_thread_def find_Some_iff)

lemma wd_boards_thread_None: "wd_boards_thread sv thread = None \<longleftrightarrow> thread \<notin> th_thread ` set (sv_threads sv)"
  by (auto simp: wd_boards_thread_def find_None_iff)

lemma wd_boards_post_Some: "wd_boards_post sv post = Some p \<Longrightarrow> p \<in> set (sv_posts sv) \<and> po_post p = post"
  by (auto simp: wd_boards_post_def find_Some_iff)

lemma wd_boards_post_None: "wd_boards_post sv post = None \<longleftrightarrow> post \<notin> po_post ` set (sv_posts sv)"
  by (auto simp: wd_boards_post_def find_None_iff)

lemma distinct_rename:
  "distinct xs \<Longrightarrow> x = y \<or> x \<notin> set xs \<or> y \<notin> set xs \<Longrightarrow> distinct (map (\<lambda>z. if z = x then y else z) xs)"
  by (auto simp: distinct_map inj_on_def)

lemma map_key_same: "(\<And>x. key (f x) = key x) \<Longrightarrow> map key (map f xs) = map key xs"
  by simp

lemma wd_db_rename_board_step:
  assumes "wd_db_rename_board oldboard newboard sv = Some sv'"
  shows "boards_step sv sv'"
proof (rule boards_stepI)
  show "sv' = sv\<lparr>sv_boards := map (\<lambda>b. if bo_board b = oldboard then b\<lparr>bo_board := newboard\<rparr> else b) (sv_boards sv),
      sv_threads := sv_threads sv, sv_posts := sv_posts sv, sv_uuid_count := sv_uuid_count sv\<rparr>"
    using assms by (simp add: wd_db_rename_board_def split: if_splits)
  then have e: "sv_threads sv' = sv_threads sv" "sv_posts sv' = sv_posts sv"
    "map bo_board (sv_boards sv') = map (\<lambda>z. if z = oldboard then newboard else z) (map bo_board (sv_boards sv))"
    by simp_all
  have "oldboard = newboard \<or> oldboard \<notin> set (map bo_board (sv_boards sv)) \<or> newboard \<notin> set (map bo_board (sv_boards sv))"
    using assms by (auto simp: wd_db_rename_board_def wd_boards_board_None split: if_splits)
  then show "boards_ok sv \<Longrightarrow> boards_ok sv'"
    using distinct_rename [of "map bo_board (sv_boards sv)" oldboard newboard] by (simp add: boards_tables_ok_def e del: set_map map_map)
qed

lemma wd_db_move_threads_step:
  assumes "wd_db_move_threads oldboard newboard sv = Some sv'"
  shows "boards_step sv sv'"
proof (rule boards_stepI)
  let ?f = "\<lambda>t. if th_board t = oldboard then t\<lparr>th_board := newboard\<rparr> else t"
  show "sv' = sv\<lparr>sv_boards := sv_boards sv, sv_threads := map ?f (sv_threads sv), sv_posts := sv_posts sv,
      sv_uuid_count := sv_uuid_count sv\<rparr>"
    using assms by (simp add: wd_db_move_threads_def split: if_splits)
  moreover have "map th_thread (map ?f (sv_threads sv)) = map th_thread (sv_threads sv)" by (rule map_key_same) simp
  moreover from this have "th_thread ` set (map ?f (sv_threads sv)) = th_thread ` set (sv_threads sv)" by (metis list.set_map)
  ultimately show "boards_ok sv \<Longrightarrow> boards_ok sv'" by (simp add: boards_tables_ok_def del: set_map map_map)
qed

lemma wd_db_rename_subboard_step: "wd_db_rename_subboard old new sv = Some sv' \<Longrightarrow> boards_step sv sv'"
  unfolding wd_db_rename_subboard_def bind_eq_Some_conv
  by (blast intro: boards_step_trans wd_db_rename_board_step wd_db_move_threads_step)

lemma wd_db_delete_threads_step: "boards_step sv (wd_db_delete_threads P sv)"
proof (rule boards_stepI)
  show "wd_db_delete_threads P sv = sv\<lparr>sv_boards := sv_boards sv, sv_threads := sv_threads (wd_db_delete_threads P sv),
      sv_posts := sv_posts (wd_db_delete_threads P sv), sv_uuid_count := sv_uuid_count sv\<rparr>"
    by (simp add: wd_db_delete_threads_def Let_def)
  show "boards_ok sv \<Longrightarrow> boards_ok (wd_db_delete_threads P sv)"
    by (auto simp: boards_tables_ok_def wd_db_delete_threads_def Let_def distinct_map_filter list_ex_iff)
qed

lemma boards_step_remove_boards: "boards_step sv (sv\<lparr>sv_boards := filter P (sv_boards sv)\<rparr>)"
  by (rule boards_stepI [where bs = "filter P (sv_boards sv)" and ts = "sv_threads sv" and ps = "sv_posts sv"
        and n = "sv_uuid_count sv"]) (auto simp: boards_tables_ok_def distinct_map_filter)

lemma wd_db_delete_board_step: "boards_step sv (wd_db_delete_board board sv)"
  unfolding wd_db_delete_board_def Let_def
  using boards_step_refl boards_step_trans [OF wd_db_delete_threads_step boards_step_remove_boards] by simp

lemma wi_uuid_step: "boards_step sv (snd (wi_uuid sv))"
  by (rule boards_stepI [where bs = "sv_boards sv" and ts = "sv_threads sv" and ps = "sv_posts sv"])
    (simp_all add: wi_uuid_def boards_tables_ok_def)

lemma wd_db_insert_thread_step:
  assumes "wd_db_insert_thread thread board subject txt u sv = Some sv'"
  shows "boards_step sv sv'"
proof -
  obtain t where sv': "sv' = sv\<lparr>sv_threads := sv_threads sv @ [t]\<rparr>" "th_thread t = thread"
    and n: "wd_boards_thread sv thread = None"
    using assms by (auto simp: wd_db_insert_thread_def split: option.splits if_splits)
  show ?thesis
    by (rule boards_stepI [where bs = "sv_boards sv" and ts = "sv_threads sv @ [t]" and ps = "sv_posts sv"
          and n = "sv_uuid_count sv"]) (use n sv'(2) in \<open>auto simp: sv'(1) boards_tables_ok_def wd_boards_thread_None\<close>)
qed

lemma wd_db_insert_post_step:
  assumes "wd_db_insert_post post thread txt u sv = Some sv'" and "wd_boards_thread sv thread \<noteq> None"
  shows "boards_step sv sv'"
proof -
  obtain p where sv': "sv' = sv\<lparr>sv_posts := sv_posts sv @ [p]\<rparr>" "po_post p = post" "po_thread p = thread"
    and n: "wd_boards_post sv post = None"
    using assms(1) by (auto simp: wd_db_insert_post_def split: option.splits if_splits)
  show ?thesis
    by (rule boards_stepI [where bs = "sv_boards sv" and ts = "sv_threads sv" and ps = "sv_posts sv @ [p]"
          and n = "sv_uuid_count sv"])
      (use n sv'(2,3) assms(2) in \<open>auto simp: sv'(1) boards_tables_ok_def wd_boards_post_None wd_boards_thread_None\<close>)
qed

lemma boards_step_edit:
  assumes "\<And>b. bo_board (f b) = bo_board b" "\<And>t. th_thread (g t) = th_thread t"
    "\<And>p. po_post (h p) = po_post p" "\<And>p. po_thread (h p) = po_thread p"
  shows "boards_step sv (sv\<lparr>sv_boards := map f (sv_boards sv), sv_threads := map g (sv_threads sv),
      sv_posts := map h (filter P (sv_posts sv))\<rparr>)"
proof (rule boards_stepI [where n = "sv_uuid_count sv"])
  have "map bo_board (map f (sv_boards sv)) = map bo_board (sv_boards sv)"
    "map th_thread (map g (sv_threads sv)) = map th_thread (sv_threads sv)"
    "map po_post (map h (filter P (sv_posts sv))) = map po_post (filter P (sv_posts sv))"
    using assms by (auto simp: comp_def)
  moreover have "th_thread ` set (map g (sv_threads sv)) = th_thread ` set (sv_threads sv)"
    using assms(2) by (simp add: image_comp comp_def)
  ultimately show "boards_ok (sv\<lparr>sv_boards := map f (sv_boards sv), sv_threads := map g (sv_threads sv),
      sv_posts := map h (filter P (sv_posts sv))\<rparr>)" if "boards_ok sv"
    using that assms(4) by (auto simp: boards_tables_ok_def distinct_map_filter simp del: map_map)
qed simp

subsection \<open>Looking up in changed tables\<close>

lemma find_map_key:
  assumes "\<And>x. P (f x) \<longleftrightarrow> P x"
  shows "find P (map f xs) = map_option f (find P xs)"
  by (induction xs) (simp_all add: assms)

lemma wd_boards_thread_map:
  "(\<And>t. th_thread (f t) = th_thread t) \<Longrightarrow>
     wd_boards_thread (sv\<lparr>sv_threads := map f (sv_threads sv)\<rparr>) thread = map_option f (wd_boards_thread sv thread)"
  by (simp add: wd_boards_thread_def find_map_key)

lemma wd_boards_post_map:
  "(\<And>p. po_post (f p) = po_post p) \<Longrightarrow>
     wd_boards_post (sv\<lparr>sv_posts := map f (sv_posts sv)\<rparr>) post = map_option f (wd_boards_post sv post)"
  by (simp add: wd_boards_post_def find_map_key)

lemma wd_boards_board_map:
  "(\<And>b. bo_board (f b) = bo_board b) \<Longrightarrow>
     wd_boards_board (sv\<lparr>sv_boards := map f (sv_boards sv)\<rparr>) board = map_option f (wd_boards_board sv board)"
  by (simp add: wd_boards_board_def find_map_key)

end
