(* ===== verification/Wd_Board_Handlers.thy ===== *)
theory Wd_Board_Handlers
  imports Wd_Handlers Wd_Boards
begin

text \<open>
  The handlers of the messages on boards (messages.c): the privilege of the account, the
  checks on the names of boards, the operation of Wd_Boards, the reply and the event.
\<close>

text \<open>Handlers that need one of two privileges.\<close>

definition wd_with_either_privilege ::
  "string \<Rightarrow> string \<Rightarrow> 32 word \<Rightarrow> p7_message \<Rightarrow> (wd_server \<Rightarrow> wd_server wd_result) \<Rightarrow> wd_server \<Rightarrow> wd_server wd_result" where
  "wd_with_either_privilege field1 field2 uid m handle sv =
     (case u_account (wd_user sv uid) of
        None \<Rightarrow> Inl Null_Account
      | Some account \<Rightarrow>
          if \<not> wd_account_boolean field1 account \<and> \<not> wd_account_boolean field2 account
          then Inr (wd_user_reply_error uid ''wired.error.permission_denied'' m sv)
          else handle sv)"

text \<open>What follows an operation that succeeded.\<close>

definition wd_if_done :: "(wd_server \<Rightarrow> wd_server wd_result) \<Rightarrow> (bool \<times> wd_server) wd_result \<Rightarrow> wd_server wd_result" where
  "wd_if_done continue r = wd_bind r (\<lambda>(ok, sv). if ok then continue sv else Inr sv)"

subsection \<open>Listing\<close>

definition wd_message_board_get_boards :: "32 word \<Rightarrow> p7_message \<Rightarrow> wd_server \<Rightarrow> wd_server wd_result" where
  "wd_message_board_get_boards uid m = wd_with_privilege ''wired.account.board.read_boards'' uid m (\<lambda>sv.
     wd_bind (wd_boards_reply_boards uid m sv) (wd_events_add_event ''wired.event.board.got_boards'' uid []))"

definition wd_message_board_get_threads :: "32 word \<Rightarrow> p7_message \<Rightarrow> wd_server \<Rightarrow> wd_server wd_result" where
  "wd_message_board_get_threads uid m = wd_with_privilege ''wired.account.board.read_boards'' uid m (\<lambda>sv.
     let board = p7_string m ''wired.board.board''
     in if (case board of Some b \<Rightarrow> \<not> wd_boards_has_board_with_name b sv | None \<Rightarrow> False)
        then wd_reply_error uid ''wired.error.board_not_found'' m sv
        else wd_bind (wd_boards_reply_threads board uid m sv) (wd_events_add_event ''wired.event.board.got_threads'' uid []))"

definition wd_message_board_get_thread :: "32 word \<Rightarrow> p7_message \<Rightarrow> wd_server \<Rightarrow> wd_server wd_result" where
  "wd_message_board_get_thread uid m = wd_with_privilege ''wired.account.board.read_boards'' uid m (\<lambda>sv.
     let thread = p7_uuid_arg m ''wired.board.thread''
     in wd_if_done (\<lambda>sv.
          let board = wd_boards_board_for_thread thread sv; subject = wd_boards_board_for_thread thread sv
          in wd_events_add_event ''wired.event.board.got_thread'' uid [subject, board] sv)
          (wd_boards_reply_thread thread uid m sv))"

subsection \<open>Boards\<close>

definition wd_message_board_add_board :: "32 word \<Rightarrow> p7_message \<Rightarrow> wd_server \<Rightarrow> wd_server wd_result" where
  "wd_message_board_add_board uid m = wd_with_privilege ''wired.account.board.add_boards'' uid m (\<lambda>sv.
     let board = p7_string_arg m ''wired.board.board''
     in if wd_boards_has_board_with_name board sv then wd_reply_error uid ''wired.error.board_exists'' m sv
        else wd_if_done (\<lambda>sv. wd_events_add_event ''wired.event.board.added_board'' uid [Some board] (wd_user_reply_okay uid m sv))
               (wd_boards_add_board board uid m sv))"

definition wd_message_board_rename_board :: "32 word \<Rightarrow> p7_message \<Rightarrow> wd_server \<Rightarrow> wd_server wd_result" where
  "wd_message_board_rename_board uid m = wd_with_privilege ''wired.account.board.rename_boards'' uid m (\<lambda>sv.
     let oldboard = p7_string_arg m ''wired.board.board''; newboard = p7_string_arg m ''wired.board.new_board''
     in if \<not> wd_boards_has_board_with_name oldboard sv then wd_reply_error uid ''wired.error.board_not_found'' m sv
        else if wd_boards_has_board_with_name newboard sv then wd_reply_error uid ''wired.error.board_exists'' m sv
        else
          case (wi_string_by_deleting_last_path_component (sv_home sv) oldboard,
                wi_string_by_deleting_last_path_component (sv_home sv) newboard) of
            (Inr oldparent, Inr newparent) \<Rightarrow>
              if oldparent \<noteq> newparent then wd_reply_error uid ''wired.error.board_not_found'' m sv
              else wd_if_done (\<lambda>sv. wd_events_add_event ''wired.event.board.renamed_board'' uid [Some oldboard, Some newboard]
                       (wd_user_reply_okay uid m sv))
                     (wd_boards_rename_board oldboard newboard uid m sv)
          | _ \<Rightarrow> Inl Not_Normalized)"

definition wd_message_board_move_board :: "32 word \<Rightarrow> p7_message \<Rightarrow> wd_server \<Rightarrow> wd_server wd_result" where
  "wd_message_board_move_board uid m = wd_with_privilege ''wired.account.board.move_boards'' uid m (\<lambda>sv.
     let oldboard = p7_string_arg m ''wired.board.board''; newboard = p7_string_arg m ''wired.board.new_board''
     in if \<not> wd_boards_has_board_with_name oldboard sv then wd_reply_error uid ''wired.error.board_not_found'' m sv
        else if wd_boards_has_board_with_name newboard sv then wd_reply_error uid ''wired.error.board_exists'' m sv
        else wd_if_done (\<lambda>sv. wd_events_add_event ''wired.event.board.moved_board'' uid [Some oldboard, Some newboard]
                 (wd_user_reply_okay uid m sv))
               (wd_boards_move_board oldboard newboard uid m sv))"

text \<open>The operations on one board that has to be there.\<close>

definition wd_with_board ::
  "32 word \<Rightarrow> p7_message \<Rightarrow> (string \<Rightarrow> wd_server \<Rightarrow> wd_server wd_result) \<Rightarrow> wd_server \<Rightarrow> wd_server wd_result" where
  "wd_with_board uid m handle sv =
     (let board = p7_string_arg m ''wired.board.board''
      in if \<not> wd_boards_has_board_with_name board sv then wd_reply_error uid ''wired.error.board_not_found'' m sv
         else handle board sv)"

definition wd_message_board_delete_board :: "32 word \<Rightarrow> p7_message \<Rightarrow> wd_server \<Rightarrow> wd_server wd_result" where
  "wd_message_board_delete_board uid m = wd_with_privilege ''wired.account.board.delete_boards'' uid m
     (wd_with_board uid m (\<lambda>board sv.
        wd_if_done (\<lambda>sv. wd_events_add_event ''wired.event.board.deleted_board'' uid [Some board] (wd_user_reply_okay uid m sv))
          (wd_boards_delete_board board uid m sv)))"

definition wd_message_board_get_board_info :: "32 word \<Rightarrow> p7_message \<Rightarrow> wd_server \<Rightarrow> wd_server wd_result" where
  "wd_message_board_get_board_info uid m = wd_with_privilege ''wired.account.board.get_board_info'' uid m
     (wd_with_board uid m (\<lambda>board sv.
        wd_if_done (wd_events_add_event ''wired.event.board.got_board_info'' uid [Some board])
          (wd_boards_get_board_info board uid m sv)))"

definition wd_message_board_set_board_info :: "32 word \<Rightarrow> p7_message \<Rightarrow> wd_server \<Rightarrow> wd_server wd_result" where
  "wd_message_board_set_board_info uid m = wd_with_privilege ''wired.account.board.set_board_info'' uid m
     (wd_with_board uid m (\<lambda>board sv.
        wd_if_done (\<lambda>sv. wd_events_add_event ''wired.event.board.set_board_info'' uid [Some board] (wd_user_reply_okay uid m sv))
          (wd_boards_set_board_info board uid m sv)))"

subsection \<open>Threads\<close>

definition wd_message_board_add_thread :: "32 word \<Rightarrow> p7_message \<Rightarrow> wd_server \<Rightarrow> wd_server wd_result" where
  "wd_message_board_add_thread uid m = wd_with_privilege ''wired.account.board.add_threads'' uid m
     (wd_with_board uid m (\<lambda>board sv.
        let subject = p7_string_arg m ''wired.board.subject''; txt = p7_string_arg m ''wired.board.text''
        in wd_if_done (\<lambda>sv. wd_events_add_event ''wired.event.board.added_thread'' uid [Some subject, Some board]
               (wd_user_reply_okay uid m sv))
             (wd_boards_add_thread board subject txt uid m sv)))"

text \<open>The board of the event is looked up as if the thread were a post.\<close>

definition wd_message_board_edit_thread :: "32 word \<Rightarrow> p7_message \<Rightarrow> wd_server \<Rightarrow> wd_server wd_result" where
  "wd_message_board_edit_thread uid m =
     wd_with_either_privilege ''wired.account.board.edit_own_threads_and_posts'' ''wired.account.board.edit_all_threads_and_posts'' uid m
       (\<lambda>sv.
         let thread = p7_uuid_arg m ''wired.board.thread'';
             subject = p7_string_arg m ''wired.board.subject''; txt = p7_string_arg m ''wired.board.text''
         in wd_if_done (\<lambda>sv.
              let board = wd_boards_board_for_post thread sv
              in wd_events_add_event ''wired.event.board.edited_thread'' uid [Some subject, board] (wd_user_reply_okay uid m sv))
              (wd_boards_edit_thread thread subject txt uid m sv))"

text \<open>The old board of the event is looked up after the move.\<close>

definition wd_message_board_move_thread :: "32 word \<Rightarrow> p7_message \<Rightarrow> wd_server \<Rightarrow> wd_server wd_result" where
  "wd_message_board_move_thread uid m = wd_with_privilege ''wired.account.board.move_threads'' uid m (\<lambda>sv.
     let newboard = p7_string_arg m ''wired.board.new_board''
     in if \<not> wd_boards_has_board_with_name newboard sv then wd_reply_error uid ''wired.error.board_not_found'' m sv
        else
          let thread = p7_uuid_arg m ''wired.board.thread''
          in wd_if_done (\<lambda>sv.
               let oldboard = wd_boards_board_for_thread thread sv; subject = wd_boards_subject_for_thread thread sv
               in wd_events_add_event ''wired.event.board.moved_thread'' uid [subject, oldboard, Some newboard]
                    (wd_user_reply_okay uid m sv))
               (wd_boards_move_thread thread newboard uid m sv))"

text \<open>The board and the subject of the event are looked up after the thread was deleted.\<close>

definition wd_message_board_delete_thread :: "32 word \<Rightarrow> p7_message \<Rightarrow> wd_server \<Rightarrow> wd_server wd_result" where
  "wd_message_board_delete_thread uid m =
     wd_with_either_privilege ''wired.account.board.delete_own_threads_and_posts'' ''wired.account.board.delete_all_threads_and_posts'' uid m
       (\<lambda>sv.
         let thread = p7_uuid_arg m ''wired.board.thread''
         in wd_if_done (\<lambda>sv.
              let board = wd_boards_board_for_thread thread sv; subject = wd_boards_subject_for_thread thread sv
              in wd_events_add_event ''wired.event.board.deleted_thread'' uid [subject, board] (wd_user_reply_okay uid m sv))
              (wd_boards_delete_thread thread uid m sv))"

subsection \<open>Posts\<close>

definition wd_message_board_add_post :: "32 word \<Rightarrow> p7_message \<Rightarrow> wd_server \<Rightarrow> wd_server wd_result" where
  "wd_message_board_add_post uid m = wd_with_privilege ''wired.account.board.add_posts'' uid m (\<lambda>sv.
     let thread = p7_uuid_arg m ''wired.board.thread''; txt = p7_string_arg m ''wired.board.text''
     in wd_if_done (\<lambda>sv.
          let board = wd_boards_board_for_thread thread sv; subject = wd_boards_subject_for_thread thread sv
          in wd_events_add_event ''wired.event.board.added_post'' uid [subject, board] (wd_user_reply_okay uid m sv))
          (wd_boards_add_post thread txt uid m sv))"

definition wd_message_board_edit_post :: "32 word \<Rightarrow> p7_message \<Rightarrow> wd_server \<Rightarrow> wd_server wd_result" where
  "wd_message_board_edit_post uid m =
     wd_with_either_privilege ''wired.account.board.edit_own_threads_and_posts'' ''wired.account.board.edit_all_threads_and_posts'' uid m
       (\<lambda>sv.
         let post = p7_uuid_arg m ''wired.board.post''; txt = p7_string_arg m ''wired.board.text''
         in wd_if_done (\<lambda>sv.
              let board = wd_boards_board_for_post post sv; subject = wd_boards_subject_for_post post sv
              in wd_events_add_event ''wired.event.board.edited_post'' uid [subject, board] (wd_user_reply_okay uid m sv))
              (wd_boards_edit_post post txt uid m sv))"

definition wd_message_board_delete_post :: "32 word \<Rightarrow> p7_message \<Rightarrow> wd_server \<Rightarrow> wd_server wd_result" where
  "wd_message_board_delete_post uid m =
     wd_with_either_privilege ''wired.account.board.delete_own_threads_and_posts'' ''wired.account.board.delete_all_threads_and_posts'' uid m
       (\<lambda>sv.
         let post = p7_uuid_arg m ''wired.board.post'';
             board = wd_boards_board_for_post post sv; subject = wd_boards_subject_for_post post sv
         in wd_if_done (\<lambda>sv. wd_events_add_event ''wired.event.board.deleted_post'' uid [subject, board] (wd_user_reply_okay uid m sv))
              (wd_boards_delete_post post uid m sv))"

end
