(* ===== verification/Wd_Session.thy ===== *)
theory Wd_Session
  imports Wd_Board_Handlers
begin

text \<open>
  The invariant of the whole server and the proof that every handler keeps it: server_ok of
  the users and chats, what a session has at which stage, and the keys and limits of the
  tables. With it the handlers are shown to crash only on the hazards that
  \<open>wd_hazards\<close> names.
\<close>

subsection \<open>The invariant\<close>

text \<open>
  A session is in one of the four states that are ever set, and one that has an account
  also has client information and a nick.
\<close>

definition session_ok :: "32 word \<Rightarrow> wd_user \<Rightarrow> bool" where
  "session_ok uid u \<longleftrightarrow> user_ok uid u \<and>
     u_state u \<in> {WD_USER_CONNECTED, WD_USER_GAVE_CLIENT_INFO, WD_USER_LOGGED_IN, WD_USER_DISCONNECTED} \<and>
     (u_account u \<noteq> None \<longrightarrow> u_client_info u \<noteq> None \<and> u_nick u \<noteq> None)"

definition tables_ok :: "wd_server \<Rightarrow> bool" where
  "tables_ok sv \<longleftrightarrow>
     distinct (map fst (sv_banlist sv)) \<and> distinct (map ot_login (sv_offline_tokens sv)) \<and>
     distinct (map fst (sv_offline_keys sv)) \<and> (\<forall>row \<in> set (sv_offline_keys sv). length (snd row) \<le> 1024) \<and>
     (\<forall>login. length (filter (\<lambda>p. pm_recipient_login p = login) (sv_pending sv)) \<le> 50) \<and>
     (\<forall>p \<in> set (sv_pending sv). \<forall>c. pm_ciphertext p = Some c \<longrightarrow> length c \<le> 65536) \<and>
     boards_ok sv"

definition wd_inv :: "wd_server \<Rightarrow> bool" where
  "wd_inv sv \<longleftrightarrow> server_ok sv \<and> (\<forall>uid u. wd_users_user_with_id sv uid = Some u \<longrightarrow> session_ok uid u) \<and> tables_ok sv"

lemma wd_invD:
  assumes "wd_inv sv"
  shows "server_ok sv" "tables_ok sv" "wd_users_user_with_id sv uid = Some u \<Longrightarrow> session_ok uid u"
  using assms by (simp_all add: wd_inv_def)

lemma wd_inv_cong:
  assumes "wd_inv sv" and "sv_chats sv' = sv_chats sv" and "sv_users sv' = sv_users sv" and "sv_page sv' = sv_page sv"
    and "tables_ok sv'"
  shows "wd_inv sv'"
  using assms server_ok_cong [of sv sv'] by (simp add: wd_inv_def wd_users_user_with_id_def)

lemma tables_ok_cong:
  "sv_banlist sv' = sv_banlist sv \<Longrightarrow> sv_offline_tokens sv' = sv_offline_tokens sv \<Longrightarrow>
     sv_offline_keys sv' = sv_offline_keys sv \<Longrightarrow> sv_pending sv' = sv_pending sv \<Longrightarrow>
     sv_boards sv' = sv_boards sv \<Longrightarrow> sv_threads sv' = sv_threads sv \<Longrightarrow> sv_posts sv' = sv_posts sv \<Longrightarrow>
     tables_ok sv' = tables_ok sv"
  by (simp add: tables_ok_def)

lemma wd_quiet_tables:
  assumes "wd_quiet sv sv'"
  shows "tables_ok sv' = tables_ok sv" "sv_uninitialised_null sv' = sv_uninitialised_null sv"
    "sv_db_users sv' = sv_db_users sv" "sv_offline_keys sv' = sv_offline_keys sv" "sv_pending sv' = sv_pending sv"
    "sv_offline_tokens sv' = sv_offline_tokens sv"
  using assms by (auto simp: wd_quiet_def tables_ok_def)

lemma session_ok_quiet: "session_ok uid u \<Longrightarrow> user_quiet u u' \<Longrightarrow> session_ok uid u'"
  using user_ok_quiet [of uid u u'] by (auto simp: session_ok_def user_quiet_def)

lemma wd_inv_quiet:
  assumes "wd_quiet sv sv'" and "wd_inv sv"
  shows "wd_inv sv'"
proof -
  note ok = wd_invD [OF assms(2)]
  have "session_ok uid u'" if "wd_users_user_with_id sv' uid = Some u'" for uid u'
    using wd_quiet_users(3) [OF assms(1) server_okD(3) [OF ok(1)], of uid] that ok(3) [of uid] session_ok_quiet
    by (cases "wi_dictionary_data_for_key (sv_users sv) uid") (auto simp: wd_users_user_with_id_def)
  then show ?thesis using server_ok_quiet [OF assms(1) ok(1)] ok(2) wd_quiet_tables(1) [OF assms(1)] by (simp add: wd_inv_def)
qed

lemma wd_inv_set_user:
  assumes "wd_inv sv"
    and "\<And>u. wd_users_user_with_id sv uid = Some u \<Longrightarrow> session_ok uid u \<Longrightarrow> session_ok uid (f u)"
  shows "wd_inv (wd_set_user f uid sv)"
proof -
  note ok = wd_invD [OF assms(1)]
  have "server_ok (wd_set_user f uid sv)"
    using assms(2) ok(3) by (intro server_ok_set_user [OF ok(1)]) (auto simp: session_ok_def)
  moreover have "session_ok k u'" if "wd_users_user_with_id (wd_set_user f uid sv) k = Some u'" for k u'
    using that assms(2) ok(3) wd_set_user_lookup(2) [OF server_okD(3) [OF ok(1)], of f uid k]
    by (auto simp: wd_users_user_with_id_def split: if_splits)
  moreover have "tables_ok (wd_set_user f uid sv)"
    using ok(2) by (subst tables_ok_cong [of _ sv]) (auto simp: wd_set_user_def split: option.split)
  ultimately show ?thesis by (simp add: wd_inv_def)
qed

lemma wd_inv_chats:
  assumes "wd_inv sv" and "chats_ok sv'" and "sv_users sv' = sv_users sv" and "tables_ok sv'"
  shows "wd_inv sv'"
  using assms server_ok_chats [of sv sv'] by (simp add: wd_inv_def wd_users_user_with_id_def)

lemma wd_set_chat_tables [simp]: "tables_ok (wd_set_chat f cid sv) = tables_ok sv"
  by (rule tables_ok_cong) (auto simp: wd_set_chat_def split: option.split)

lemma wd_inv_set_chat:
  assumes "wd_inv sv" and "\<And>c. wd_chats_chat_with_id sv cid = Some c \<Longrightarrow> chat_ok sv cid c \<Longrightarrow> chat_ok sv cid (f c)"
  shows "wd_inv (wd_set_chat f cid sv)"
  using wd_invD(1,2) [OF assms(1)] assms(2) server_okD(1) chats_okD(4)
  by (intro wd_inv_chats [OF assms(1)] chats_ok_set_chat) auto

subsection \<open>Runs of handlers\<close>

text \<open>
  \<open>wd_good L s sv\<close>: the state \<open>sv\<close>, reached from \<open>s\<close>, satisfies the invariant, and the users
  of \<open>s\<close> are still there, with their address and an account and client information if they had
  one. Who is logged in now was logged in before with the same account, but for the new
  logins in \<open>L\<close>. \<open>wd_safe L s C r\<close>: the result is such a state, or a crash out of \<open>C\<close>, or a
  transaction that failed because the database does.
\<close>

definition user_grows :: "(32 word \<times> wd_account option) set \<Rightarrow> 32 word \<Rightarrow> wd_user \<Rightarrow> wd_user \<Rightarrow> bool" where
  "user_grows L uid u u' \<longleftrightarrow>
     (u_client_info u \<noteq> None \<longrightarrow> u_client_info u' \<noteq> None) \<and> (u_account u \<noteq> None \<longrightarrow> u_account u' \<noteq> None) \<and>
     u_ip u' = u_ip u \<and>
     (u_state u' = WD_USER_LOGGED_IN \<longrightarrow>
        u_state u = WD_USER_LOGGED_IN \<and> u_account u' = u_account u \<or> (uid, u_account u') \<in> L)"

definition users_grow :: "(32 word \<times> wd_account option) set \<Rightarrow> wd_server \<Rightarrow> wd_server \<Rightarrow> bool" where
  "users_grow L s sv \<longleftrightarrow> (\<forall>uid. rel_option (user_grows L uid) (wd_users_user_with_id s uid) (wd_users_user_with_id sv uid))"

definition wd_good :: "(32 word \<times> wd_account option) set \<Rightarrow> wd_server \<Rightarrow> wd_server \<Rightarrow> bool" where
  "wd_good L s sv \<longleftrightarrow> wd_inv sv \<and> sv_db_ok sv = sv_db_ok s \<and> users_grow L s sv"

definition wd_safe :: "(32 word \<times> wd_account option) set \<Rightarrow> wd_server \<Rightarrow> wd_crash set \<Rightarrow> wd_server wd_result \<Rightarrow> bool" where
  "wd_safe L s C r \<longleftrightarrow>
     (case r of Inr sv \<Rightarrow> wd_good L s sv | Inl e \<Rightarrow> e \<in> C \<or> e = Transaction_Failed \<and> \<not> sv_db_ok s)"

named_theorems wd_keep "rules for handlers that keep the invariant"

lemma user_grows_trans: "user_grows L uid u v \<Longrightarrow> user_grows L uid v w \<Longrightarrow> user_grows L uid u w"
  unfolding user_grows_def by metis

lemma users_grow_trans: "users_grow L a b \<Longrightarrow> users_grow L b c \<Longrightarrow> users_grow L a c"
proof -
  have "rel_option (user_grows L uid) x z" if "rel_option (user_grows L uid) x y" "rel_option (user_grows L uid) y z" for uid x y z
    using that by (auto elim!: option.rel_cases intro: user_grows_trans)
  then show "users_grow L a b \<Longrightarrow> users_grow L b c \<Longrightarrow> users_grow L a c" unfolding users_grow_def by blast
qed

lemma users_grow_refl [simp]: "users_grow L s s"
  by (simp add: users_grow_def user_grows_def option.rel_refl)

lemma users_grow_same: "sv_users sv' = sv_users sv \<Longrightarrow> users_grow L s sv' = users_grow L s sv"
  by (simp add: users_grow_def wd_users_user_with_id_def)

lemma wd_good_refl: "wd_inv sv \<Longrightarrow> wd_good L sv sv"
  by (simp add: wd_good_def)

lemma wd_good_keyed: "wd_good L s sv \<Longrightarrow> dict_keyed (=) (sv_users sv)"
  using server_okD(3) [OF wd_invD(1) [of sv]] by (simp add: wd_good_def)

lemma wd_good_user:
  assumes "wd_good L s sv" and "wd_users_user_with_id s uid \<noteq> None"
  shows "wd_users_user_with_id sv uid \<noteq> None"
    and "u_client_info (wd_user sv uid) = None \<Longrightarrow> u_client_info (wd_user s uid) = None"
    and "u_account (wd_user sv uid) = None \<Longrightarrow> u_account (wd_user s uid) = None"
proof -
  obtain u where u: "wd_users_user_with_id s uid = Some u" using assms(2) by auto
  with assms(1) obtain u' where u': "wd_users_user_with_id sv uid = Some u'" "user_grows L uid u u'"
    unfolding wd_good_def users_grow_def by (metis option_rel_Some1)
  show "wd_users_user_with_id sv uid \<noteq> None" using u'(1) by simp
  have w: "wd_user s uid = u" "wd_user sv uid = u'" using u u'(1) by (simp_all add: wd_user_def wd_users_user_with_id_def)
  show "u_client_info (wd_user sv uid) = None \<Longrightarrow> u_client_info (wd_user s uid) = None"
    "u_account (wd_user sv uid) = None \<Longrightarrow> u_account (wd_user s uid) = None"
    using u'(2) unfolding w user_grows_def by blast+
qed

lemma wd_good_users:
  assumes "wd_good L s sv" and "wd_inv sv'" and "sv_db_ok sv' = sv_db_ok sv" and "users_grow L sv sv'"
  shows "wd_good L s sv'"
  using assms users_grow_trans [of L s sv sv'] by (simp add: wd_good_def)

lemma wd_good_same_users:
  assumes "wd_good L s sv" and "wd_inv sv'" and "sv_db_ok sv' = sv_db_ok sv" and "sv_users sv' = sv_users sv"
  shows "wd_good L s sv'"
  using assms users_grow_same [OF assms(4)] by (simp add: wd_good_def)

lemma wd_good_quiet:
  assumes "wd_quiet sv sv'" and "wd_good L s sv"
  shows "wd_good L s sv'"
proof (rule wd_good_users [OF assms(2)])
  show "wd_inv sv'" using assms wd_inv_quiet by (simp add: wd_good_def)
  have "rel_option (user_grows L uid) (wd_users_user_with_id sv uid) (wd_users_user_with_id sv' uid)" for uid
    using wd_quiet_users(3) [OF assms(1) wd_good_keyed [OF assms(2)], of uid] unfolding wd_users_user_with_id_def
    by (rule option.rel_mono_strong) (auto simp: user_quiet_def user_grows_def)
  then show "users_grow L sv sv'" by (simp add: users_grow_def)
qed (rule wd_quiet_fields(3) [OF assms(1)])

lemmas wd_good_sends [wd_keep] =
  wd_reply_quiets [THEN wd_good_quiet] wd_broadcast_quiets [THEN wd_good_quiet]
  wd_user_send_message_quiet [THEN wd_good_quiet] wd_user_set_disconnected_quiet [THEN wd_good_quiet]

definition session_step :: "(32 word \<times> wd_account option) set \<Rightarrow> 32 word \<Rightarrow> wd_user \<Rightarrow> wd_user \<Rightarrow> bool" where
  "session_step L uid u u' \<longleftrightarrow> session_ok uid u' \<and> user_grows L uid u u'"

lemma wd_good_set_known_user:
  assumes "wd_good L s sv" and "\<And>u. wd_users_user_with_id sv uid = Some u \<Longrightarrow> session_ok uid u \<Longrightarrow> session_step L uid u (f u)"
  shows "wd_good L s (wd_set_user f uid sv)"
proof (rule wd_good_users [OF assms(1)])
  have inv: "wd_inv sv" using assms(1) by (simp add: wd_good_def)
  then show "wd_inv (wd_set_user f uid sv)" using assms(2) by (intro wd_inv_set_user) (auto simp: session_step_def)
  have "rel_option (user_grows L k) (wd_users_user_with_id sv k) (wd_users_user_with_id (wd_set_user f uid sv) k)" for k
    using assms(2) wd_invD(3) [OF inv, of k] wd_set_user_lookup(2) [OF wd_good_keyed [OF assms(1)], of f uid k]
    by (cases "wd_users_user_with_id sv k") (auto simp: wd_users_user_with_id_def session_step_def user_grows_def)
  then show "users_grow L sv (wd_set_user f uid sv)" by (simp add: users_grow_def)
qed simp

lemma wd_good_set_user [wd_keep]:
  "wd_good L s sv \<Longrightarrow> (\<And>u. session_ok uid u \<Longrightarrow> session_step L uid u (f u)) \<Longrightarrow> wd_good L s (wd_set_user f uid sv)"
  by (rule wd_good_set_known_user)

lemma wd_good_trans: "wd_good L a b \<Longrightarrow> wd_good L b c \<Longrightarrow> wd_good L a c"
  using users_grow_trans by (auto simp: wd_good_def)

lemma wd_good_set_chat [wd_keep]:
  "wd_good L s sv \<Longrightarrow> (\<And>sv c. chat_ok sv cid c \<Longrightarrow> chat_ok sv cid (f c)) \<Longrightarrow> wd_good L s (wd_set_chat f cid sv)"
  by (rule wd_good_same_users) (simp_all add: wd_good_def wd_inv_set_chat)

lemma wd_good_fold [wd_keep]:
  "(\<And>x sv. x \<in> set xs \<Longrightarrow> wd_good L s sv \<Longrightarrow> wd_good L s (f x sv)) \<Longrightarrow> wd_good L s sv \<Longrightarrow> wd_good L s (fold f xs sv)"
  by (induction xs arbitrary: sv) auto

lemma wd_safe_Inr [wd_keep]: "wd_good L s sv \<Longrightarrow> wd_safe L s C (Inr sv)"
  by (simp add: wd_safe_def)

lemma wd_safe_Inl [wd_keep]: "e \<in> C \<Longrightarrow> wd_safe L s C (Inl e)"
  by (simp add: wd_safe_def)

lemma wd_safe_error [wd_keep]: "wd_good L s sv \<Longrightarrow> wd_safe L s C (wd_reply_error uid err m sv)"
  unfolding wd_reply_error_def by (intro wd_safe_Inr wd_good_sends)

lemma wd_safe_event [wd_keep]:
  assumes "wd_good L s sv"
  shows "wd_safe L s C (wd_events_add_event event uid ps sv)"
proof (cases "wd_events_add_event event uid ps sv")
  case (Inl e)
  with wd_events_add_event_crash [OF this] assms show ?thesis by (simp add: wd_safe_def wd_good_def)
next
  case (Inr sv')
  from wd_events_add_event_quiet [OF this] obtain evs where q: "wd_quiet (sv\<lparr>sv_events := evs\<rparr>) sv'" by blast
  have "wd_inv (sv\<lparr>sv_events := evs\<rparr>)"
    by (rule wd_inv_cong [of sv]) (use assms wd_invD(2) [of sv] in \<open>auto simp: wd_good_def tables_ok_def\<close>)
  then have "wd_good L s (sv\<lparr>sv_events := evs\<rparr>)" by (rule wd_good_same_users [OF assms]) simp_all
  with wd_good_quiet [OF q this] Inr show ?thesis by (simp add: wd_safe_def)
qed

lemma wd_safe_bind [wd_keep]:
  "wd_safe L s C r \<Longrightarrow> (\<And>sv. wd_good L s sv \<Longrightarrow> wd_safe L s C (f sv)) \<Longrightarrow> wd_safe L s C (wd_bind r f)"
  by (cases r) (auto simp: wd_safe_def)

lemma wd_safe_privilege [wd_keep]:
  assumes "u_account (wd_user sv uid) = None \<Longrightarrow> Null_Account \<in> C" and "wd_good L s sv"
    and "u_account (wd_user sv uid) \<noteq> None \<Longrightarrow> wd_safe L s C (handle sv)"
  shows "wd_safe L s C (wd_with_privilege field uid m handle sv)"
proof (cases "u_account (wd_user sv uid)")
  case (Some account)
  then show ?thesis
    using assms(2,3) by (simp add: wd_with_privilege_def wd_good_sends(3) wd_safe_Inr)
qed (simp add: wd_with_privilege_def wd_safe_Inl assms(1))

lemma wd_keep_cases [wd_keep]:
  "(b \<Longrightarrow> wd_safe L s C x) \<Longrightarrow> (\<not> b \<Longrightarrow> wd_safe L s C y) \<Longrightarrow> wd_safe L s C (if b then x else y)"
  "(b \<Longrightarrow> wd_good L s sv1) \<Longrightarrow> (\<not> b \<Longrightarrow> wd_good L s sv2) \<Longrightarrow> wd_good L s (if b then sv1 else sv2)"
  "(v = None \<Longrightarrow> wd_safe L s C x) \<Longrightarrow> (\<And>a. v = Some a \<Longrightarrow> wd_safe L s C (f a)) \<Longrightarrow>
     wd_safe L s C (case v of None \<Rightarrow> x | Some a \<Rightarrow> f a)"
  "(v = None \<Longrightarrow> wd_good L s sv1) \<Longrightarrow> (\<And>a. v = Some a \<Longrightarrow> wd_good L s (g a)) \<Longrightarrow>
     wd_good L s (case v of None \<Rightarrow> sv1 | Some a \<Rightarrow> g a)"
  by (auto split: option.split)

subsection \<open>Operations on chats\<close>

lemma chats_ok_remove_user_from:
  assumes "chats_ok sv"
  shows "chats_ok (wd_chats_remove_user_from uid cid sv)"
proof -
  note l = wd_chats_remove_user_from_lookup [OF chats_okD(3) [OF assms], of uid cid]
  have o: "chat_ok (wd_chats_remove_user_from uid cid sv) k c'"
    if c': "wd_chats_chat_with_id (wd_chats_remove_user_from uid cid sv) k = Some c'" for k c'
  proof -
    have "chat_ok sv k c'"
    proof (cases "k = cid")
      case True
      then obtain c where "wd_chats_chat_with_id sv cid = Some c" "chat_without uid c = Some c'"
        using c' by (cases "wd_chats_chat_with_id sv cid") (auto simp: wd_chats_chat_with_id_def l(2) chat_without_def)
      with True chats_okD(4) [OF assms] chat_without_ok(1) show ?thesis by blast
    next
      case False
      with c' chats_okD(4) [OF assms] show ?thesis by (simp add: wd_chats_chat_with_id_def l(2))
    qed
    then show ?thesis by (simp add: chat_ok_def l(3))
  qed
  obtain c where c: "wd_chats_chat_with_id sv WD_PUBLIC_CHAT_ID = Some c" using chats_okD(5) [OF assms] by auto
  have "c_id c = WD_PUBLIC_CHAT_ID" using chats_okD(4) [OF assms c] by (simp add: chat_ok_def)
  then have "wd_chats_chat_with_id (wd_chats_remove_user_from uid cid sv) WD_PUBLIC_CHAT_ID \<noteq> None"
    using c by (auto simp: wd_chats_chat_with_id_def l(2))
  then show ?thesis using chats_okD(1,2) [OF assms] l o by (auto simp: chats_ok_def)
qed

lemma wd_chats_remove_user_from_rest:
  "tables_ok (wd_chats_remove_user_from uid cid sv) = tables_ok sv"
  "sv_db_ok (wd_chats_remove_user_from uid cid sv) = sv_db_ok sv"
  "sv_users (wd_chats_remove_user_from uid cid sv) = sv_users sv"
  by (simp_all add: wd_chats_remove_user_from_def wd_set_chat_def tables_ok_def Let_def split: option.split)

lemma wd_good_chat_remove_user [wd_keep]:
  assumes "wd_good L s sv"
  shows "wd_good L s (wd_chat_remove_user cid uid sv)"
proof -
  have "wd_inv (wd_chats_remove_user_from uid cid sv)"
  proof (rule wd_inv_chats [of sv])
    have "wd_inv sv" using assms by (simp add: wd_good_def)
    then show "wd_inv sv" "chats_ok (wd_chats_remove_user_from uid cid sv)"
      "tables_ok (wd_chats_remove_user_from uid cid sv)"
      using wd_invD(1,2) server_okD(1) by (simp_all add: chats_ok_remove_user_from wd_chats_remove_user_from_rest)
  qed (rule wd_chats_remove_user_from_rest)
  then have "wd_good L s (wd_chats_remove_user_from uid cid sv)"
    by (rule wd_good_same_users [OF assms]) (rule wd_chats_remove_user_from_rest)+
  then show ?thesis by (simp add: wd_chat_remove_user_def)
qed

lemma wd_good_add_member:
  assumes "wd_good L s sv" and "uid \<in> dom (wi_dictionary_data_for_key (sv_users sv))"
    and "wd_chats_chat_with_id sv cid = Some c" and "\<not> wd_chat_contains_user c uid"
  shows "wd_good L s (wd_set_chat (\<lambda>c. c\<lparr>c_users := c_users c @ [uid]\<rparr>) cid sv)"
proof -
  have "wd_inv (wd_set_chat (\<lambda>c. c\<lparr>c_users := c_users c @ [uid]\<rparr>) cid sv)"
  proof (rule wd_inv_set_chat)
    show "wd_inv sv" using assms(1) by (simp add: wd_good_def)
    fix c' assume "wd_chats_chat_with_id sv cid = Some c'" "chat_ok sv cid c'"
    then show "chat_ok sv cid (c'\<lparr>c_users := c_users c' @ [uid]\<rparr>)"
      using assms by (simp add: chat_ok_def wd_chat_contains_user_def)
  qed
  then show ?thesis by (rule wd_good_same_users [OF assms(1)]) simp_all
qed

lemma wd_good_chat_add_user:
  assumes "wd_good L s sv" and "wd_users_user_with_id sv uid \<noteq> None"
    and "wd_chats_chat_with_id sv cid = Some c" and "\<not> wd_chat_contains_user c uid"
  shows "wd_good L s (wd_chat_add_user_and_broadcast cid uid sv)"
proof -
  define sv' where "sv' = wd_chat_broadcast_message c (wd_chat_user_join_message c (wd_user sv uid)) sv"
  have q: "wd_quiet sv sv'" unfolding sv'_def by (rule wd_reply_quiets)
  have k: "dict_keyed (=) (sv_users sv)"
    by (rule wd_good_keyed [OF assms(1)])
  have "uid \<in> dom (wi_dictionary_data_for_key (sv_users sv'))"
    unfolding wd_quiet_users(2) [OF q k] using assms(2) by (simp add: wd_users_user_with_id_def domIff)
  moreover have "wd_chats_chat_with_id sv' cid = Some c"
    using assms(3) wd_quiet_fields(1) [OF q] by (simp add: wd_chats_chat_with_id_def)
  ultimately have "wd_good L s (wd_set_chat (\<lambda>c. c\<lparr>c_users := c_users c @ [uid]\<rparr>) cid sv')"
    using assms(4) by (rule wd_good_add_member [OF wd_good_quiet [OF q assms(1)]])
  then show ?thesis unfolding wd_chat_add_user_and_broadcast_def assms(3) option.case Let_def sv'_def .
qed

lemma wd_good_set_topic [wd_keep]:
  assumes "wd_good L s sv"
  shows "wd_good L s (wd_chat_set_topic cid t sv)"
proof -
  have g: "wd_good L s (wd_set_chat (\<lambda>c. c\<lparr>c_topic := Some t\<rparr>) cid sv)"
    using assms by (rule wd_good_set_chat) (simp add: chat_ok_def)
  have "wd_good L s (if b then sv'\<lparr>sv_topic := x\<rparr> else sv')" if "wd_good L s sv'" for b sv' x
    using that wd_invD(2) [of sv'] wd_inv_cong [of sv' "sv'\<lparr>sv_topic := x\<rparr>"] wd_good_same_users [OF that, of "sv'\<lparr>sv_topic := x\<rparr>"]
    by (auto simp: wd_good_def tables_ok_def)
  from this [OF g] show ?thesis unfolding wd_chat_set_topic_def Let_def by assumption
qed

lemma wd_good_add_private_chat [wd_keep]:
  assumes "wd_good L s sv"
  shows "wd_good L s (wd_chats_add_chat (wd_chat_add_invitation_for_user (fst (wd_chat_init_private_chat sv)) uid)
    (snd (wd_chat_init_private_chat sv)))"
proof -
  obtain c sv' where p: "wd_chat_init_private_chat sv = (c, sv')" by fastforce
  have inv: "wd_inv sv" "sv_db_ok sv = sv_db_ok s" using assms(1) by (simp_all add: wd_good_def)
  note ok = server_okD(1,5) [OF wd_invD(1) [OF inv(1)]]
  have c: "c = wd_chat_init (sv_page sv) (c_id c)" "sv' = sv\<lparr>sv_chats_current_id := c_id c\<rparr>"
    using p by (auto simp: wd_chat_init_private_chat_def wd_chat_next_id_def wd_chat_init_def Let_def)
  have s: "chats_ok sv'" by (rule chats_ok_cong [OF ok(1)]) (simp_all add: c(2))
  have "set_keyed False (c_invited_users c)" using ok(2) by (subst c(1)) (simp add: wd_chat_init_def set_keyed_init)
  then have "set_keyed False (wi_set_add_data (c_invited_users c) uid)" by (rule wiset.ok_add)
  moreover have "c_users c = []" by (subst c(1)) (simp add: wd_chat_init_def)
  ultimately have "chat_ok sv' (c_id c) (wd_chat_add_invitation_for_user c uid)"
    by (simp add: chat_ok_def wd_chat_add_invitation_for_user_def)
  with s have "chats_ok (wd_chats_add_chat (wd_chat_add_invitation_for_user c uid) sv')" by (rule chats_ok_add_chat)
  then have "wd_inv (wd_chats_add_chat (wd_chat_add_invitation_for_user c uid) sv')"
    by (rule wd_inv_chats [OF inv(1)]) (use wd_invD(2) [OF inv(1)] in \<open>simp_all add: wd_chats_add_chat_def c(2) tables_ok_def\<close>)
  then show ?thesis unfolding p fst_conv snd_conv
    by (rule wd_good_same_users [OF assms]) (simp_all add: wd_chats_add_chat_def c(2))
qed

subsection \<open>Operations on tables\<close>

lemma wd_good_tables:
  assumes "wd_good L s sv" and "sv_chats sv' = sv_chats sv" and "sv_users sv' = sv_users sv" and "sv_page sv' = sv_page sv"
    and "sv_db_ok sv' = sv_db_ok sv" and "tables_ok sv \<Longrightarrow> tables_ok sv'"
  shows "wd_good L s sv'"
  using assms wd_inv_cong [of sv sv'] wd_invD(2) [of sv] wd_good_same_users [OF assms(1), of sv'] by (simp add: wd_good_def)

lemma wd_good_banlist_add [wd_keep]: "wd_good L s sv \<Longrightarrow> wd_good L s (snd (wd_banlist_add_ban ip e uid m sv))"
proof -
  assume g: "wd_good L s sv"
  have "wd_good L s (sv\<lparr>sv_banlist := sv_banlist sv @ [(ip, e)]\<rparr>)" if "\<not> (\<exists>row \<in> set (sv_banlist sv). fst row = ip)"
    by (rule wd_good_tables [OF g]) (use that in \<open>auto simp: tables_ok_def\<close>)
  with g show ?thesis by (simp add: wd_banlist_add_ban_def wd_good_sends)
qed

lemma wd_good_banlist_delete [wd_keep]: "wd_good L s sv \<Longrightarrow> wd_good L s (snd (wd_banlist_delete_ban ip uid m sv))"
proof -
  assume g: "wd_good L s sv"
  have "wd_good L s (sv\<lparr>sv_banlist := filter (\<lambda>row. fst row \<noteq> ip) (sv_banlist sv)\<rparr>)"
    by (rule wd_good_tables [OF g]) (auto simp: tables_ok_def distinct_map_filter)
  with g show ?thesis by (simp add: wd_banlist_delete_ban_def wd_good_sends)
qed

lemma check_rows_filter:
  assumes "snd (snd r) = filter P0 all"
  shows "\<exists>P. snd (snd (fold (wd_banlist_check_row undef now ip) rows r)) = filter P all"
  using assms
proof (induction rows arbitrary: r P0)
  case (Cons row rows)
  have "snd (snd (wd_banlist_check_row undef now ip row r)) = snd (snd r) \<or>
      snd (snd (wd_banlist_check_row undef now ip row r)) = filter (\<lambda>r. fst r \<noteq> ip) (snd (snd r))"
    by (simp add: wd_banlist_check_row_def case_prod_beta split: option.split)
  then obtain P where "snd (snd (wd_banlist_check_row undef now ip row r)) = filter P all"
    using Cons.prems by (auto simp: filter_filter)
  from Cons.IH [OF this] show ?case by simp
qed auto

lemma wd_banlist_ip_is_banned_rows:
  "\<exists>P. snd (snd (wd_banlist_ip_is_banned ip sv)) = sv\<lparr>sv_banlist := filter P (sv_banlist sv)\<rparr>"
proof -
  have "sv = sv\<lparr>sv_banlist := filter (\<lambda>_. True) (sv_banlist sv)\<rparr>" by simp
  then obtain P where p: "wd_banlist_delete_expired sv = sv\<lparr>sv_banlist := filter P (sv_banlist sv)\<rparr>"
    by (simp only: wd_banlist_delete_expired_def) (metis (no_types))
  let ?sv = "wd_banlist_delete_expired sv"
  obtain Q where "snd (snd (fold (wd_banlist_check_row (sv_undefined ?sv) (sv_now ?sv) ip) (sv_banlist ?sv)
      (False, None, sv_banlist ?sv))) = filter Q (sv_banlist ?sv)"
    using check_rows_filter [of "(False, None, sv_banlist ?sv)" "\<lambda>_. True" "sv_banlist ?sv"
        "sv_undefined ?sv" "sv_now ?sv" ip "sv_banlist ?sv"] by auto
  then show ?thesis
    using p by (auto simp: wd_banlist_ip_is_banned_def Let_def case_prod_beta filter_filter)
qed

lemma wd_good_ip_is_banned [wd_keep]:
  assumes "wd_good L s sv"
  shows "wd_good L s (snd (snd (wd_banlist_ip_is_banned ip sv)))"
proof -
  obtain P where p: "snd (snd (wd_banlist_ip_is_banned ip sv)) = sv\<lparr>sv_banlist := filter P (sv_banlist sv)\<rparr>"
    using wd_banlist_ip_is_banned_rows by blast
  show ?thesis unfolding p
    by (rule wd_good_tables [OF assms]) (auto simp: tables_ok_def distinct_map_filter)
qed

lemma wd_good_banlist_reply [wd_keep]: "wd_good L s sv \<Longrightarrow> wd_good L s (wd_banlist_reply_bans uid m sv)"
  by (auto simp: wd_banlist_reply_bans_def Let_def case_prod_beta intro!: wd_keep)

lemma wd_good_reply_first_time [wd_keep]: "wd_good L s sv \<Longrightarrow> wd_good L s (snd (wd_events_reply_first_time uid m sv))"
  by (auto simp: wd_events_reply_first_time_def Let_def intro!: wd_keep)

lemma wd_good_reply_events [wd_keep]: "wd_good L s sv \<Longrightarrow> wd_good L s (snd (wd_events_reply_events t n k uid m sv))"
  by (auto simp: wd_events_reply_events_def Let_def intro!: wd_keep)

lemma wd_good_token [wd_keep]:
  assumes "wd_good L s sv"
  shows "wd_good L s (snd (wd_messages_token_for_login login sv))"
proof (cases "if sv_db_ok sv then find (\<lambda>t. Some (ot_login t) = login) (sv_offline_tokens sv) else None")
  case None
  then have n: "sv_db_ok sv \<Longrightarrow> find (\<lambda>t. Some (ot_login t) = login) (sv_offline_tokens sv) = None" by simp
  show ?thesis
    by (rule wd_good_tables [OF assms])
      (use n in \<open>auto simp: wd_messages_token_for_login_def None Let_def tables_ok_def find_None_iff split: option.split\<close>)
next
  case (Some t)
  then show ?thesis using assms by (simp add: wd_messages_token_for_login_def)
qed

lemma wd_good_save_profile [wd_keep]:
  assumes "wd_good L s sv"
  shows "wd_good L s (wd_messages_save_user_profile uid sv)"
proof -
  have "wd_good L s (sv'\<lparr>sv_offline_tokens := map f (sv_offline_tokens sv')\<rparr>)"
    if "wd_good L s sv'" "\<And>t. ot_login (f t) = ot_login t" for sv' f
    by (rule wd_good_tables [OF that(1)]) (simp_all add: tables_ok_def that(2) comp_def)
  with wd_good_token [OF assms] assms show ?thesis
    by (simp add: wd_messages_save_user_profile_def Let_def split: option.split)
qed

lemma wd_good_update_login_time [wd_keep]:
  "wd_good L s sv \<Longrightarrow> wd_good L s (wd_accounts_update_login_time a sv)"
  by (rule wd_good_tables [of L s sv]) (simp_all add: wd_accounts_update_login_time_def Let_def tables_ok_def)

lemma wd_good_deliver_row [wd_keep]: "wd_good L s sv \<Longrightarrow> wd_good L s (wd_message_deliver_row uid p sv)"
  using wd_good_token [of L s sv "Some (pm_sender_login p)"] by (simp add: wd_message_deliver_row_def case_prod_beta wd_good_sends)

lemma wd_good_deliver_pending [wd_keep]:
  assumes "wd_good L s sv"
  shows "wd_good L s (wd_message_deliver_pending uid login sv)"
proof -
  have l: "length (filter (\<lambda>x. Q x \<and> P x) xs) \<le> length (filter P xs)" for P Q and xs :: "wd_pending_message list"
    by (induction xs) auto
  have "wd_good L s (sv'\<lparr>sv_pending := filter Q (sv_pending sv')\<rparr>)" if "wd_good L s sv'" for sv' Q
    by (rule wd_good_tables [OF that]) (auto simp: tables_ok_def intro: order_trans [OF l])
  then show ?thesis using assms by (auto simp: wd_message_deliver_pending_def Let_def intro!: wd_good_fold wd_good_deliver_row)
qed

lemma wd_good_known_user [wd_keep]: "wd_good L s sv \<Longrightarrow> wd_good L s (wd_message_known_user uid row sv)"
  using wd_good_token [of L s sv "Some (fst row)"] by (simp add: wd_message_known_user_def Let_def case_prod_beta wd_good_sends)

lemma wd_good_known_users [wd_keep]: "wd_good L s sv \<Longrightarrow> wd_good L s (wd_message_send_known_users uid login sv)"
  by (auto simp: wd_message_send_known_users_def Let_def intro!: wd_keep)

subsection \<open>The handlers\<close>

lemma session_steps:
  assumes "session_ok uid u"
  shows "session_step L uid u (u\<lparr>u_nick := Some n\<rparr>)" "session_step L uid u (u\<lparr>u_login := l\<rparr>)"
    "session_step L uid u (u\<lparr>u_status := s\<rparr>)" "session_step L uid u (u\<lparr>u_icon := i\<rparr>)" "session_step L uid u (u\<lparr>u_idle := b\<rparr>)"
    "session_step L uid u (u\<lparr>u_idle_time := t\<rparr>)" "session_step L uid u (u\<lparr>u_client_info := Some ci\<rparr>)"
    "session_step L uid u (u\<lparr>u_joined_public_chat := b\<rparr>)" "session_step L uid u (u\<lparr>u_subscribed_boards := b\<rparr>)"
    "session_step L uid u (u\<lparr>u_subscribed_accounts := b\<rparr>)" "session_step L uid u (u\<lparr>u_subscribed_log := b\<rparr>)"
    "session_step L uid u (u\<lparr>u_subscribed_events := b\<rparr>)" "session_step L uid u (u\<lparr>u_state := WD_USER_DISCONNECTED\<rparr>)"
  using assms by (auto simp: session_step_def session_ok_def user_ok_def user_grows_def)

lemma wd_good_invite [wd_keep]:
  "wd_good L s sv \<Longrightarrow> wd_good L s (wd_set_chat (\<lambda>c. wd_chat_add_invitation_for_user c uid) cid sv)"
  "wd_good L s sv \<Longrightarrow> wd_good L s (wd_set_chat (\<lambda>c. wd_chat_remove_invitation_for_user c uid) cid sv)"
  by (erule wd_good_set_chat, simp add: chat_ok_def wd_chat_add_invitation_for_user_def wd_chat_remove_invitation_for_user_def
      wiset.ok_add wiset.ok_del)+

lemma wd_good_disconnect [wd_keep]:
  "wd_good L s sv \<Longrightarrow> wd_good L s (wd_broadcast_disconnect name uid pid m sv)"
  by (auto simp: wd_broadcast_disconnect_def intro!: wd_good_fold wd_good_sends)

lemma wd_safe_simple_handlers [wd_keep]:
  assumes "wd_good L s sv"
  shows "wd_safe L s C (wd_message_send_ping uid m sv)" "wd_safe L s C (wd_message_ping uid m sv)"
    "wd_safe L s C (wd_message_user_set_status uid m sv)" "wd_safe L s C (wd_message_user_set_icon uid m sv)"
    "wd_safe L s C (wd_message_user_set_idle uid m sv)" "wd_safe L s C (wd_message_event_delete_events uid m sv)"
  using assms
  by (auto simp: wd_message_send_ping_def wd_message_ping_def wd_message_user_set_status_def wd_message_user_set_icon_def
      wd_message_user_set_idle_def wd_message_event_delete_events_def Let_def intro!: wd_keep session_steps)

lemma wd_safe_user_set_nick [wd_keep]:
  assumes "wd_good L s sv"
  shows "wd_safe L s C (wd_message_user_set_nick uid m sv)"
  using assms by (auto simp: wd_message_user_set_nick_def Let_def intro!: wd_keep session_steps split: option.split)

lemma wd_safe_user_get_users [wd_keep]:
  assumes "wd_good L s sv" and "u_account (wd_user sv uid) = None \<Longrightarrow> Null_Account \<in> C"
  shows "wd_safe L s C (wd_message_user_get_users uid m sv)"
  using assms unfolding wd_message_user_get_users_def by (intro wd_keep)

lemma wd_safe_user_info [wd_keep]:
  assumes "wd_good L s sv" and "\<And>p. wd_users_user_with_id sv peer = Some p \<Longrightarrow> u_client_info p = None \<Longrightarrow> Null_Client_Info \<in> C"
    and "wd_users_user_with_id sv peer = Some p"
  shows "wd_safe L s C (wd_user_reply_user_info peer uid m sv)"
proof -
  have "wd_user sv peer = p" using assms(3) by (simp add: wd_user_def wd_users_user_with_id_def)
  then show ?thesis
    unfolding wd_user_reply_user_info_def Let_def using assms by (intro wd_keep) auto
qed

lemma wd_safe_user_get_info [wd_keep]:
  assumes "wd_good L s sv" and "u_account (wd_user sv uid) = None \<Longrightarrow> Null_Account \<in> C"
    and "\<And>peer. wd_users_user_with_id sv (p7_uint32_arg sv m ''wired.user.id'') = Some peer \<Longrightarrow> u_client_info peer = None \<Longrightarrow>
      Null_Client_Info \<in> C"
  shows "wd_safe L s C (wd_message_user_get_info uid m sv)"
  unfolding wd_message_user_get_info_def Let_def
  by (assumption | rule wd_keep assms)+

lemma wd_safe_disconnect_handlers [wd_keep]:
  assumes "wd_good L s sv" and "u_account (wd_user sv uid) = None \<Longrightarrow> Null_Account \<in> C"
    and "\<And>peer. wd_users_user_with_id sv (p7_uint32_arg sv m ''wired.user.id'') = Some peer \<Longrightarrow> u_account peer = None \<Longrightarrow>
      Null_Account \<in> C"
  shows "wd_safe L s C (wd_message_user_disconnect_user uid m sv)" "wd_safe L s C (wd_message_user_ban_user uid m sv)"
  unfolding wd_message_user_disconnect_user_def wd_message_user_ban_user_def Let_def case_prod_beta
  by (assumption | rule assms(1,3) wd_keep assms(2))+

lemma wd_safe_chat_handlers [wd_keep]:
  assumes "wd_good L s sv"
  shows "wd_safe L s C (wd_message_chat_leave_chat uid m sv)" "wd_safe L s C (wd_message_chat_send_say_or_me uid m sv)"
    "wd_safe L s C (wd_message_chat_invite_user uid m sv)" "wd_safe L s C (wd_message_chat_decline_invitation uid m sv)"
  unfolding wd_message_chat_leave_chat_def wd_message_chat_send_say_or_me_def wd_message_chat_invite_user_def
    wd_message_chat_decline_invitation_def Let_def
  by (assumption | rule wd_keep assms)+

lemma wd_safe_chat_privileged [wd_keep]:
  assumes "wd_good L s sv" and "u_account (wd_user sv uid) = None \<Longrightarrow> Null_Account \<in> C"
  shows "wd_safe L s C (wd_message_chat_kick_user uid m sv)" "wd_safe L s C (wd_message_chat_set_topic uid m sv)"
    "wd_safe L s C (wd_message_chat_create_chat uid m sv)"
  unfolding wd_message_chat_kick_user_def wd_message_chat_set_topic_def wd_message_chat_create_chat_def Let_def case_prod_beta
  by (assumption | rule wd_keep assms)+

lemma wd_safe_chat_join_chat:
  assumes "wd_inv sv" and "wd_users_user_with_id sv uid \<noteq> None"
    and "u_client_info (wd_user sv uid) = None \<Longrightarrow> Null_Client_Info \<in> C"
  shows "wd_safe L sv C (wd_message_chat_join_chat uid m sv)"
proof -
  have joined: "wd_safe L sv C (if b \<and> \<not> u_joined_public_chat (wd_user sv2 uid) then
      (case u_client_info (wd_user sv2 uid) of
         None \<Rightarrow> Inl Null_Client_Info
       | Some ci \<Rightarrow> wd_bind (wd_events_add_event event uid (args ci) sv2)
           (\<lambda>sv. Inr (wd_set_user (\<lambda>u. u\<lparr>u_joined_public_chat := True\<rparr>) uid sv)))
      else Inr sv2)" if g: "wd_good L sv sv2" for sv2 b event args
    using assms(3) wd_good_user(2) [OF g assms(2)] by (auto intro!: wd_keep session_steps g split: option.split)
  show ?thesis
    unfolding wd_message_chat_join_chat_def Let_def
    by (assumption | rule joined wd_keep wd_good_chat_add_user wd_good_refl assms)+
qed

lemma wd_safe_message_handlers [wd_keep]:
  assumes "wd_good L s sv" and "u_account (wd_user sv uid) = None \<Longrightarrow> Null_Account \<in> C"
  shows "wd_safe L s C (wd_message_message_send_message uid m sv)" "wd_safe L s C (wd_message_message_send_broadcast uid m sv)"
    "wd_safe L s C (wd_message_banlist_get_bans uid m sv)" "wd_safe L s C (wd_message_banlist_add_ban uid m sv)"
    "wd_safe L s C (wd_message_banlist_delete_ban uid m sv)" "wd_safe L s C (wd_message_event_get_first_time uid m sv)"
    "wd_safe L s C (wd_message_event_get_events uid m sv)"
  unfolding wd_message_message_send_message_def wd_message_message_send_broadcast_def wd_message_banlist_get_bans_def
    wd_message_banlist_add_ban_def wd_message_banlist_delete_ban_def wd_message_event_get_first_time_def
    wd_message_event_get_events_def Let_def case_prod_beta
  by (assumption | rule wd_keep assms)+

lemma wd_safe_subscriptions [wd_keep]:
  assumes "wd_good L s sv" and "u_account (wd_user sv uid) = None \<Longrightarrow> Null_Account \<in> C"
  shows "wd_safe L s C (wd_message_board_subscribe_boards uid m sv)" "wd_safe L s C (wd_message_board_unsubscribe_boards uid m sv)"
    "wd_safe L s C (wd_message_account_subscribe_accounts uid m sv)" "wd_safe L s C (wd_message_account_unsubscribe_accounts uid m sv)"
    "wd_safe L s C (wd_message_log_subscribe uid m sv)" "wd_safe L s C (wd_message_log_unsubscribe uid m sv)"
    "wd_safe L s C (wd_message_event_subscribe uid m sv)" "wd_safe L s C (wd_message_event_unsubscribe uid m sv)"
  unfolding wd_message_board_subscribe_boards_def wd_message_board_unsubscribe_boards_def
    wd_message_account_subscribe_accounts_def wd_message_account_unsubscribe_accounts_def wd_message_log_subscribe_def
    wd_message_log_unsubscribe_def wd_message_event_subscribe_def wd_message_event_unsubscribe_def
    wd_message_subscribe_def wd_message_unsubscribe_def
  by (assumption | rule wd_keep session_steps assms)+

lemma wd_safe_client_info [wd_keep]:
  assumes "wd_good L s sv"
  shows "wd_safe L s C (wd_message_client_info uid m sv)"
proof -
  define sv1 where "sv1 = wd_set_user (\<lambda>u. u\<lparr>u_client_info := Some (wd_client_info_init_with_message sv m)\<rparr>) uid sv"
  define sv2 where "sv2 = wd_user_reply_message uid (wd_server_info_message sv1) m sv1"
  have g1: "wd_good L s sv1" unfolding sv1_def by (assumption | rule wd_keep session_steps assms)+
  then have g2: "wd_good L sv1 sv2"
    unfolding sv2_def by (intro wd_good_sends wd_good_refl) (simp add: wd_good_def)
  have "u_client_info u \<noteq> None" if u: "wd_users_user_with_id sv2 uid = Some u" for u
  proof -
    have "wd_users_user_with_id sv1 uid \<noteq> None"
      using u wd_quiet_users(2) [OF wd_reply_quiets(1) wd_good_keyed [OF g1], of uid "wd_server_info_message sv1" m]
      by (auto simp: sv2_def wd_users_user_with_id_def)
    then have "u_client_info (wd_user sv1 uid) \<noteq> None"
      by (auto simp: sv1_def wd_user_def wd_users_user_with_id_def wd_set_user_lookup(2) [OF wd_good_keyed [OF assms]])
    with wd_good_user(2) [OF g2, of uid] \<open>wd_users_user_with_id sv1 uid \<noteq> None\<close> u show ?thesis
      by (cases "u_client_info u") (auto simp: wd_user_def wd_users_user_with_id_def)
  qed
  then have "wd_good L s (wd_set_user (\<lambda>u. u\<lparr>u_state := WD_USER_GAVE_CLIENT_INFO\<rparr>) uid sv2)"
    by (intro wd_good_set_known_user wd_good_trans [OF g1 g2])
      (auto simp: session_step_def session_ok_def user_ok_def user_grows_def)
  then show ?thesis
    by (simp add: wd_message_client_info_def Let_def sv1_def sv2_def wd_user_set_state_def wd_safe_Inr)
qed

lemma wd_safe_accept_login:
  assumes "wd_good L s sv"
    and "u_client_info (wd_user sv uid) = None \<Longrightarrow> Null_Client_Info \<in> C" and "(uid, Some account) \<in> L"
  shows "wd_safe L s C (wd_message_accept_login account login uid m sv)"
proof (cases "u_client_info (wd_user sv uid) = None")
  case False
  define sv1 where "sv1 = wd_set_user (\<lambda>u. u\<lparr>
     u_nick := (if wd_account_boolean ''wired.account.user.cannot_set_nick'' account \<or> u_nick u = None
                then Some (wd_account_nick account) else u_nick u),
     u_account := Some account, u_color := wd_account_color account sv, u_state := WD_USER_LOGGED_IN\<rparr>) uid sv"
  have "wd_good L s sv1" unfolding sv1_def
    using assms(3) False by (intro wd_good_set_known_user assms(1))
      (auto simp: session_step_def session_ok_def user_ok_def user_grows_def wd_user_def wd_users_user_with_id_def)
  then have g: "wd_good L s (sv1\<lparr>sv_current_users := sv_current_users sv1 + 1, sv_total_users := sv_total_users sv1 + 1\<rparr>)"
    by (rule wd_good_tables) (simp_all add: tables_ok_def)
  show ?thesis
    unfolding wd_message_accept_login_def if_not_P [OF False] Let_def sv1_def [symmetric]
    by (assumption | rule g wd_keep)+
qed (simp add: wd_message_accept_login_def wd_safe_Inl assms(2))

lemma wd_safe_login_failed [wd_keep]: "wd_good L s sv \<Longrightarrow> wd_safe L s C (wd_message_login_failed uid m sv)"
  unfolding wd_message_login_failed_def by (assumption | rule wd_keep)+

lemma wd_banlist_ip_is_banned_users: "sv_users (snd (snd (wd_banlist_ip_is_banned ip sv))) = sv_users sv"
  using wd_banlist_ip_is_banned_rows [of ip sv] by auto

lemma wd_accounts_read_user_and_group_cong:
  assumes "sv_db_users sv' = sv_db_users sv" and "sv_db_groups sv' = sv_db_groups sv" and "sv_page sv' = sv_page sv"
    and "sv_db_ok sv' = sv_db_ok sv"
  shows "wd_accounts_read_user_and_group g sv' login = wd_accounts_read_user_and_group g sv login"
proof -
  have "wd_accounts_read_user sv' = wd_accounts_read_user sv" "wd_accounts_read_group sv' = wd_accounts_read_group sv"
    using assms by (simp_all add: fun_eq_iff wd_accounts_read_user_def wd_accounts_read_group_def)
  then show ?thesis by (simp add: wd_accounts_read_user_and_group_def assms(3) Let_def split: option.split)
qed

lemma wd_set_user_users: "\<exists>us. wd_set_user f uid sv = sv\<lparr>sv_users := us\<rparr>"
proof (cases "wi_dictionary_data_for_key (sv_users sv) uid")
  case None
  have "sv = sv\<lparr>sv_users := sv_users sv\<rparr>" by simp
  then show ?thesis unfolding wd_set_user_def None option.case by blast
qed (auto simp: wd_set_user_def)

text \<open>What a login is checked against, in the state before the message.\<close>

definition wd_login_accepted :: "wd_server \<Rightarrow> 32 word \<Rightarrow> p7_message \<Rightarrow> wd_account \<Rightarrow> bool" where
  "wd_login_accepted sv uid m account \<longleftrightarrow>
     (\<exists>name. p7_string m ''wired.user.login'' = Some name \<and>
        wd_accounts_read_user_and_group (sv_garbage sv) sv name = Some account) \<and>
     wd_password_matches account m \<and>
     \<not> fst (wd_banlist_ip_is_banned (u_ip (wd_user sv uid)) sv)"

lemma wd_message_send_login_decide:
  fixes m :: p7_message and uid :: "32 word"
  assumes "dict_keyed (=) (sv_users sv)" and "wd_users_user_with_id sv uid \<noteq> None"
  defines "r \<equiv> wd_banlist_ip_is_banned (u_ip (wd_user sv uid)) sv" and "login \<equiv> p7_string m ''wired.user.login''"
  shows "\<exists>us P. wd_message_send_login uid m sv =
      wd_message_decide_login (fst r) (fst (snd r)) login uid m (sv\<lparr>sv_users := us, sv_banlist := filter P (sv_banlist sv)\<rparr>) \<and>
    us = sv_users (wd_set_user (\<lambda>u. u\<lparr>u_login := login\<rparr>) uid sv)"
proof -
  define sv1 where "sv1 = wd_set_user (\<lambda>u. u\<lparr>u_login := login\<rparr>) uid sv"
  obtain us where us: "sv1 = sv\<lparr>sv_users := us\<rparr>" unfolding sv1_def using wd_set_user_users by blast
  have ip: "u_ip (wd_user sv1 uid) = u_ip (wd_user sv uid)"
    using assms(2) by (auto simp: sv1_def wd_user_def wd_users_user_with_id_def wd_set_user_lookup(2) [OF assms(1)])
  define r1 where "r1 = wd_banlist_ip_is_banned (u_ip (wd_user sv uid)) sv1"
  have b: "fst r1 = fst r" "fst (snd r1) = fst (snd r)"
    by (simp_all add: r_def r1_def us wd_banlist_ip_is_banned_def wd_banlist_delete_expired_def Let_def case_prod_beta)
  obtain P where p: "snd (snd r1) = sv1\<lparr>sv_banlist := filter P (sv_banlist sv1)\<rparr>"
    unfolding r1_def using wd_banlist_ip_is_banned_rows by blast
  have "wd_message_send_login uid m sv = wd_message_decide_login (fst r) (fst (snd r)) login uid m (snd (snd r1))"
    by (simp only: wd_message_send_login_def Let_def login_def [symmetric] sv1_def [symmetric] case_prod_beta ip
        r1_def [symmetric] b)
  then show ?thesis unfolding p sv1_def [symmetric] by (intro exI [of _ us] exI [of _ P]) (simp add: us)
qed

lemma wd_safe_send_login:
  assumes "wd_inv sv" and "wd_users_user_with_id sv uid \<noteq> None"
    and "u_client_info (wd_user sv uid) = None \<Longrightarrow> Null_Client_Info \<in> C"
    and "\<not> sv_uninitialised_null sv \<Longrightarrow> fst (wd_banlist_ip_is_banned (u_ip (wd_user sv uid)) sv) \<Longrightarrow>
      fst (snd (wd_banlist_ip_is_banned (u_ip (wd_user sv uid)) sv)) = None \<Longrightarrow> Uninitialised_Date \<in> C"
    and "\<And>account. wd_login_accepted sv uid m account \<Longrightarrow> (uid, Some account) \<in> L"
  shows "wd_safe L sv C (wd_message_send_login uid m sv)"
proof -
  note keyed = server_okD(3) [OF wd_invD(1) [OF assms(1)]]
  let ?f = "\<lambda>u. u\<lparr>u_login := p7_string m ''wired.user.login''\<rparr>"
  obtain us P where s: "wd_message_send_login uid m sv =
      wd_message_decide_login (fst (wd_banlist_ip_is_banned (u_ip (wd_user sv uid)) sv))
        (fst (snd (wd_banlist_ip_is_banned (u_ip (wd_user sv uid)) sv))) (p7_string m ''wired.user.login'') uid m
        (sv\<lparr>sv_users := us, sv_banlist := filter P (sv_banlist sv)\<rparr>)"
    and us: "us = sv_users (wd_set_user ?f uid sv)"
    using wd_message_send_login_decide [OF keyed assms(2)] by blast
  define sv2 where "sv2 = sv\<lparr>sv_users := us, sv_banlist := filter P (sv_banlist sv)\<rparr>"
  have g1: "wd_good L sv (wd_set_user ?f uid sv)" by (assumption | rule wd_keep session_steps wd_good_refl assms(1))+
  obtain us' where us': "wd_set_user ?f uid sv = sv\<lparr>sv_users := us'\<rparr>" using wd_set_user_users by blast
  have g: "wd_good L sv sv2"
    by (rule wd_good_tables [OF g1]) (auto simp: sv2_def us us' tables_ok_def distinct_map_filter)
  have info: "u_client_info (wd_user sv2 uid) = None \<Longrightarrow> Null_Client_Info \<in> C"
    using wd_good_user(2) [OF g assms(2)] assms(3) by blast
  have r: "wd_accounts_read_user_and_group (sv_garbage sv2) sv2 l = wd_accounts_read_user_and_group (sv_garbage sv) sv l"
    "sv_uninitialised_null sv2 = sv_uninitialised_null sv" for l
    by (subst wd_accounts_read_user_and_group_cong [of sv2 sv]) (simp_all add: sv2_def)
  note accept = wd_safe_accept_login [OF g info]
  show ?thesis
    unfolding s sv2_def [symmetric] wd_message_decide_login_def Let_def r
    by (rule wd_keep_cases wd_safe_Inl wd_safe_event wd_safe_login_failed wd_good_sends g accept assms(5) |
        (auto simp: wd_login_accepted_def assms(4); fail))+
qed

lemma wd_safe_set_offline_public_key [wd_keep]:
  assumes "wd_good L s sv" and "u_account (wd_user sv uid) = None \<Longrightarrow> Null_Account \<in> C"
  shows "wd_safe L s C (wd_message_message_set_offline_public_key uid m sv)"
proof -
  have k: "wd_good L s (sv\<lparr>sv_offline_keys := filter (\<lambda>k. fst k \<noteq> login) (sv_offline_keys sv) @ [(login, key)]\<rparr>)"
    if "\<not> length key > 1024" for login key
    by (rule wd_good_tables [OF assms(1)]) (use that in \<open>auto simp: tables_ok_def distinct_map_filter\<close>)
  show ?thesis
    unfolding wd_message_message_set_offline_public_key_def Let_def
    by (assumption | rule k wd_keep assms)+
qed

lemma wd_message_offline_recipient_good:
  "wd_good L s sv \<Longrightarrow> wd_message_offline_recipient m sv = Inr (recipient, sv') \<Longrightarrow> wd_good L s sv'"
  by (auto simp: wd_message_offline_recipient_def Let_def wd_good_token split: if_splits option.splits)

lemma wd_messages_token_pending: "sv_pending (snd (wd_messages_token_for_login login sv)) = sv_pending sv"
  "sv_db_ok (snd (wd_messages_token_for_login login sv)) = sv_db_ok sv"
  by (simp_all add: wd_messages_token_for_login_def Let_def split: option.split)

lemma wd_good_add_pending:
  assumes "wd_good L s sv" and "length (filter (\<lambda>p. pm_recipient_login p = pm_recipient_login q) (sv_pending sv)) < 50"
    and "\<And>c. pm_ciphertext q = Some c \<Longrightarrow> length c \<le> 65536"
  shows "wd_good L s (sv\<lparr>sv_pending := sv_pending sv @ [q]\<rparr>)"
  by (rule wd_good_tables [OF assms(1)]) (use assms(2,3) in \<open>auto simp: tables_ok_def\<close>)

lemma wd_safe_store_offline_message:
  assumes "wd_good L s sv"
  shows "wd_safe L s C (wd_message_store_offline_message recipient uid m sv)"
proof (cases "sv_db_ok sv \<and> length (filter (\<lambda>p. pm_recipient_login p = recipient) (sv_pending sv)) \<ge> 50")
  case True
  show ?thesis unfolding wd_message_store_offline_message_def if_P [OF True] by (rule wd_safe_error [OF assms])
next
  case False
  define r where "r = wd_messages_token_for_login (u_login (wd_user sv uid)) sv"
  have g: "wd_good L s (snd r)" unfolding r_def by (rule wd_good_token [OF assms])
  have n: "sv_db_ok (snd r) \<Longrightarrow> length (filter (\<lambda>p. pm_recipient_login p = recipient) (sv_pending (snd r))) < 50"
    using False by (simp add: r_def wd_messages_token_pending not_le)
  show ?thesis
    unfolding wd_message_store_offline_message_def if_not_P [OF False] Let_def r_def [symmetric] case_prod_beta
    by (assumption | rule wd_keep g wd_good_add_pending)+ (use n in \<open>auto split: option.splits if_splits\<close>)
qed

lemma wd_safe_send_offline_message [wd_keep]:
  assumes "wd_good L s sv" and "u_account (wd_user sv uid) = None \<Longrightarrow> Null_Account \<in> C"
  shows "wd_safe L s C (wd_message_message_send_offline_message uid m sv)"
proof -
  have "wd_safe L s C (case wd_message_offline_recipient m sv of
       Inl err \<Rightarrow> wd_reply_error uid err m sv
     | Inr (recipient, sv) \<Rightarrow> wd_message_store_offline_message recipient uid m sv)"
    using assms(1) wd_message_offline_recipient_good [OF assms(1)]
    by (auto intro!: wd_safe_error wd_safe_store_offline_message split: sum.split prod.split)
  then show ?thesis
    unfolding wd_message_message_send_offline_message_def by (intro wd_safe_privilege assms)
qed

end
