(* ===== verification/Wd_Board_Session.thy ===== *)
theory Wd_Board_Session
  imports Wd_Session
begin

text \<open>
  The handlers of the messages on boards keep the invariant of the server, and crash only
  on threads and posts that are not there, threads whose board is not there, an author
  without an icon, a database that fails, names with a tilde, and in the moving of boards.
\<close>

subsection \<open>Rules\<close>

lemma wd_safe_value:
  "(\<And>e. r = Inl e \<Longrightarrow> e \<in> C) \<Longrightarrow> (\<And>x. r = Inr x \<Longrightarrow> wd_safe L s C (f x)) \<Longrightarrow> wd_safe L s C (wd_bind r f)"
  by (cases r) (auto simp: wd_safe_def)

text \<open>Operations that also tell whether they succeeded.\<close>

definition wd_safe_pair :: "(32 word \<times> wd_account option) set \<Rightarrow> wd_server \<Rightarrow> wd_crash set \<Rightarrow> (bool \<times> wd_server) wd_result \<Rightarrow> bool" where
  "wd_safe_pair L s C r \<longleftrightarrow> wd_safe L s C (wd_bind r (\<lambda>x. Inr (snd x)))"

named_theorems wd_pairs "rules for operations that also tell whether they succeeded"

lemma wd_safe_pair_Inr [wd_pairs]: "wd_good L s sv \<Longrightarrow> wd_safe_pair L s C (Inr (b, sv))"
  by (simp add: wd_safe_pair_def wd_safe_Inr)

lemma wd_safe_pair_Inl [wd_pairs]: "e \<in> C \<Longrightarrow> wd_safe_pair L s C (Inl e)"
  by (simp add: wd_safe_pair_def wd_safe_Inl)

lemma wd_safe_pair_done [wd_pairs]: "wd_safe L s C r \<Longrightarrow> wd_safe_pair L s C (wd_bind r (\<lambda>sv. Inr (b, sv)))"
  by (cases r) (simp_all add: wd_safe_pair_def)

lemma wd_safe_pair_bind:
  "wd_safe L s C r \<Longrightarrow> (\<And>sv. wd_good L s sv \<Longrightarrow> wd_safe_pair L s C (f sv)) \<Longrightarrow> wd_safe_pair L s C (wd_bind r f)"
  by (cases r) (auto simp: wd_safe_pair_def wd_safe_def)

lemma wd_safe_pair_value:
  "(\<And>e. r = Inl e \<Longrightarrow> e \<in> C) \<Longrightarrow> (\<And>x. r = Inr x \<Longrightarrow> wd_safe_pair L s C (f x)) \<Longrightarrow> wd_safe_pair L s C (wd_bind r f)"
  by (cases r) (auto simp: wd_safe_pair_def wd_safe_Inl)

lemma wd_safe_pair_if [wd_pairs]:
  "(b \<Longrightarrow> wd_safe_pair L s C x) \<Longrightarrow> (\<not> b \<Longrightarrow> wd_safe_pair L s C y) \<Longrightarrow> wd_safe_pair L s C (if b then x else y)"
  by simp

lemma wd_safe_pair_option [wd_pairs]:
  "(v = None \<Longrightarrow> wd_safe_pair L s C x) \<Longrightarrow> (\<And>a. v = Some a \<Longrightarrow> wd_safe_pair L s C (f a)) \<Longrightarrow>
     wd_safe_pair L s C (case v of None \<Rightarrow> x | Some a \<Rightarrow> f a)"
  by (simp split: option.split)

lemma wd_safe_if_done [wd_keep]:
  assumes "wd_safe_pair L s C r" and "\<And>sv. wd_good L s sv \<Longrightarrow> wd_safe L s C (k sv)"
  shows "wd_safe L s C (wd_if_done k r)"
  using assms by (cases r) (auto simp: wd_if_done_def wd_safe_pair_def wd_safe_def split: if_splits)

lemma wd_good_boards:
  assumes "boards_step sv sv'" and "wd_good L s sv"
  shows "wd_good L s sv'"
proof (rule wd_good_tables [OF assms(2)])
  obtain bs ts ps n where e: "sv' = sv\<lparr>sv_boards := bs, sv_threads := ts, sv_posts := ps, sv_uuid_count := n\<rparr>"
    using assms(1) unfolding boards_step_def by blast
  show "sv_chats sv' = sv_chats sv" "sv_users sv' = sv_users sv" "sv_page sv' = sv_page sv" "sv_db_ok sv' = sv_db_ok sv"
    by (simp_all add: e)
  show "tables_ok sv \<Longrightarrow> tables_ok sv'" using assms(1) by (simp add: boards_step_def tables_ok_def e)
qed

lemma wd_safe_each:
  assumes "wd_good L s sv" and "\<And>x sv. x \<in> set xs \<Longrightarrow> wd_good L s sv \<Longrightarrow> wd_safe L s C (f x sv)"
  shows "wd_safe L s C (wd_each f xs sv)"
  using assms
proof (induction xs arbitrary: sv)
  case (Cons x xs)
  show ?case unfolding wd_each.simps
    by (rule wd_safe_bind) (use Cons in \<open>auto intro: Cons.IH\<close>)
qed (simp add: wd_safe_Inr)

lemma wd_good_known: "wd_good L s sv \<Longrightarrow> wd_users_user_with_id s uid \<noteq> None \<longleftrightarrow> wd_users_user_with_id sv uid \<noteq> None"
  unfolding wd_good_def users_grow_def by (metis option.rel_distinct(1,2) option.exhaust)

lemma wd_safe_broadcast:
  assumes "wd_good L s sv" and "\<And>u e. u_account u \<noteq> None \<Longrightarrow> message u = Inl e \<Longrightarrow> e \<in> C"
  shows "wd_safe L s C (wd_boards_broadcast message sv)"
  unfolding wd_boards_broadcast_def
proof (rule wd_safe_each [OF assms(1)])
  fix peer sv' assume peer: "peer \<in> set (dict_keys (sv_users sv))" and g: "wd_good L s sv'"
  have "wd_users_user_with_id sv peer \<noteq> None"
    using peer unfolding dict_keys_entries(3) [OF wd_good_keyed [OF assms(1)]] by (simp add: wd_users_user_with_id_def domIff)
  then have "wd_users_user_with_id sv' peer \<noteq> None" using wd_good_known [OF assms(1)] wd_good_known [OF g] by blast
  then obtain u where u: "wd_users_user_with_id sv' peer = Some u" "wd_user sv' peer = u"
    by (auto simp: wd_user_def wd_users_user_with_id_def)
  have "session_ok peer u" using g wd_invD(3) [OF _ u(1)] by (simp add: wd_good_def)
  then have a: "u_state u = WD_USER_LOGGED_IN \<Longrightarrow> u_account u \<noteq> None" by (auto simp: session_ok_def user_ok_def)
  show "wd_safe L s C (let u = wd_user sv' peer
       in if u_state u = WD_USER_LOGGED_IN \<and> u_subscribed_boards u then
            wd_bind (message u) (\<lambda>broadcast.
              Inr (case broadcast of Some b \<Rightarrow> wd_user_send_message peer b sv' | None \<Rightarrow> sv'))
          else Inr sv')"
    unfolding Let_def u(2) by (intro wd_keep_cases wd_safe_value wd_safe_Inr g wd_good_sends) (use a assms(2) in auto)
qed

subsection \<open>Privileges and messages\<close>

lemma wd_board_access_crash:
  "wd_board_access w g p privileges account = Inl e \<Longrightarrow>
     e = Null_Privileges \<and> privileges = None \<or> e = Null_Account \<and> account = None"
  by (auto simp: wd_board_access_def Let_def split: option.splits if_splits)

lemmas wd_board_privileges_crash =
  wd_board_access_crash [where w = WD_BOARD_EVERYONE_READ and g = WD_BOARD_GROUP_READ and p = WD_BOARD_OWNER_READ,
    folded wd_board_privileges_is_readable_by_account_def]
  wd_board_access_crash [where w = WD_BOARD_EVERYONE_WRITE and g = WD_BOARD_GROUP_WRITE and p = WD_BOARD_OWNER_WRITE,
    folded wd_board_privileges_is_writable_by_account_def]

lemma wd_board_rights_crash:
  "wd_board_rights privileges account = Inl e \<Longrightarrow>
     e = Null_Privileges \<and> privileges = None \<or> e = Null_Account \<and> account = None"
  by (auto simp: wd_board_rights_def wd_bind_def split: sum.splits dest: wd_board_privileges_crash)

lemma wd_boards_if_accessible_crash:
  "wd_boards_if_accessible privileges m u = Inl e \<Longrightarrow>
     e = Null_Privileges \<and> privileges = None \<or> e = Null_Account \<and> u_account u = None"
  by (auto simp: wd_boards_if_accessible_def wd_bind_def split: sum.splits if_splits dest: wd_board_privileges_crash)

lemma wd_boards_if_readable_crash:
  "wd_boards_if_readable privileges message u = Inl e \<Longrightarrow>
     e = Null_Privileges \<and> privileges = None \<or> e = Null_Account \<and> u_account u = None \<or> message u = Inl e"
  by (auto simp: wd_boards_if_readable_def wd_bind_def split: sum.splits if_splits dest: wd_board_privileges_crash)

lemma wd_boards_privileges_for_board_cases:
  "wd_boards_privileges_for_board board sv = Inl e \<Longrightarrow> e = Missing_Row \<and> sv_db_ok sv \<and> wd_boards_board sv board = None"
  "wd_boards_privileges_for_board board sv = Inr None \<Longrightarrow> \<not> sv_db_ok sv"
  by (auto simp: wd_boards_privileges_for_board_def split: if_splits option.splits)

lemma wd_boards_privileges_for_thread_cases:
  "wd_boards_privileges_for_thread thread sv = Inl e \<Longrightarrow>
     e = Missing_Row \<and> wd_boards_thread sv thread = None \<or>
     e = Null_Column \<and> (\<exists>t. wd_boards_thread sv thread = Some t \<and> wd_boards_board sv (th_board t) = None)"
  "wd_boards_privileges_for_thread thread sv = Inr None \<Longrightarrow> \<not> sv_db_ok sv"
  "wd_boards_privileges_for_thread thread sv = Inr p \<Longrightarrow> sv_db_ok sv \<Longrightarrow> wd_boards_thread sv thread \<noteq> None"
  by (auto simp: wd_boards_privileges_for_thread_def wd_boards_privileges_joined_def wd_bind_def split: if_splits option.splits)

text \<open>A post whose thread or board is not there.\<close>

definition wd_post_orphan :: "wd_server \<Rightarrow> string \<Rightarrow> bool" where
  "wd_post_orphan sv post \<longleftrightarrow> (\<exists>p. wd_boards_post sv post = Some p \<and>
     (\<forall>t. wd_boards_thread sv (po_thread p) = Some t \<longrightarrow> wd_boards_board sv (th_board t) = None))"

lemma wd_boards_privileges_for_post_cases:
  "wd_boards_privileges_for_post post sv = Inl e \<Longrightarrow>
     e = Missing_Row \<and> wd_boards_post sv post = None \<or> e = Null_Column \<and> wd_post_orphan sv post"
  "wd_boards_privileges_for_post post sv = Inr None \<Longrightarrow> \<not> sv_db_ok sv"
  "wd_boards_privileges_for_post post sv = Inr (Some p) \<Longrightarrow>
     \<exists>q t. wd_boards_post sv post = Some q \<and> wd_boards_thread sv (po_thread q) = Some t"
  by (auto simp: wd_boards_privileges_for_post_def wd_boards_privileges_joined_def wd_post_orphan_def wd_bind_def
      split: if_splits option.splits bind_splits)

lemma wd_icon_field_crash: "wd_icon_field icon = Inl e \<Longrightarrow> e = Null_Column \<and> icon = Icon_Null"
  by (auto simp: wd_icon_field_def split: wd_icon.splits)

lemma wd_safe_changed_thread:
  assumes "wd_good L s sv" and "privileges = None \<Longrightarrow> Null_Privileges \<in> C" and "sv_db_ok sv \<Longrightarrow> wd_boards_thread sv thread \<noteq> None"
  shows "wd_safe L s C (wd_boards_changed_thread thread privileges sv)"
proof -
  have "wd_thread_changed_message sv thread \<noteq> Inl e" if "sv_db_ok sv" for e
    using assms(3) that by (auto simp: wd_thread_changed_message_def split: option.split)
  then show ?thesis
    unfolding wd_boards_changed_thread_def
    by (intro wd_keep_cases(1) wd_safe_Inr assms(1) wd_safe_broadcast) (use assms(2) in \<open>auto dest!: wd_boards_if_readable_crash\<close>)
qed

subsection \<open>Operations\<close>

text \<open>
  \<open>acting\<close>: a user who was there when the message came, with an account, or the crash
  without one is among \<open>C\<close>.
\<close>

definition acting :: "wd_server \<Rightarrow> 32 word \<Rightarrow> wd_crash set \<Rightarrow> bool" where
  "acting s uid C \<longleftrightarrow> wd_users_user_with_id s uid \<noteq> None \<and> (u_account (wd_user s uid) = None \<longrightarrow> Null_Account \<in> C)"

lemma acting_account: "acting s uid C \<Longrightarrow> wd_good L s sv \<Longrightarrow> u_account (wd_user sv uid) = None \<Longrightarrow> Null_Account \<in> C"
  using wd_good_user(3) [of L s sv uid] by (auto simp: acting_def)

lemma acting_rights:
  assumes "acting s uid C" and "wd_good L s sv" and "privileges = None \<Longrightarrow> Null_Privileges \<in> C"
  shows "wd_board_rights privileges (u_account (wd_user sv uid)) = Inl e \<Longrightarrow> e \<in> C"
    and "wd_board_privileges_is_readable_by_account privileges (u_account (wd_user sv uid)) = Inl e \<Longrightarrow> e \<in> C"
    and "wd_board_privileges_is_writable_by_account privileges (u_account (wd_user sv uid)) = Inl e \<Longrightarrow> e \<in> C"
  using acting_account [OF assms(1,2)] assms(3) by (auto dest!: wd_board_rights_crash wd_board_privileges_crash)

lemma wd_safe_reply_boards:
  assumes "acting s uid C" and "wd_good L s sv"
  shows "wd_safe L s C (wd_boards_reply_boards uid m sv)"
  unfolding wd_boards_reply_boards_def
  by (intro wd_keep_cases(1) wd_safe_Inr wd_good_sends assms(2) wd_safe_bind wd_safe_each wd_safe_value wd_keep_cases(2))
    (auto dest: acting_rights(1) [OF assms(1), rotated 2])

lemma wd_safe_reply_threads:
  assumes "acting s uid C" and "wd_good L s sv"
    and "\<And>t. board = None \<Longrightarrow> t \<in> set (sv_threads sv) \<Longrightarrow> wd_boards_board sv (th_board t) = None \<Longrightarrow> Null_Column \<in> C"
  shows "wd_safe L s C (wd_boards_reply_threads board uid m sv)"
proof -
  have "e \<in> C" if "row \<in> set (wd_boards_select_threads board sv)" "wd_boards_privileges_joined (snd row) = Inl e" for row e
    using that assms(3)
    by (auto simp: wd_boards_select_threads_def wd_boards_privileges_joined_def Let_def split: option.splits)
  then show ?thesis
    unfolding wd_boards_reply_threads_def
    by (intro wd_keep_cases(1) wd_safe_Inr wd_good_sends assms(2) wd_safe_bind wd_safe_each wd_safe_value wd_keep_cases(2))
      (auto dest: acting_rights(2) [OF assms(1), rotated 2])
qed

lemma wd_safe_reply_thread:
  assumes "acting s uid C" and "wd_good L s sv"
    and "\<And>t. wd_boards_thread sv thread = Some t \<Longrightarrow> wd_boards_board sv (th_board t) = None \<or> th_icon t = Icon_Null \<or>
      (\<exists>p \<in> set (sv_posts sv). po_thread p = thread \<and> po_icon p = Icon_Null) \<Longrightarrow> Null_Column \<in> C"
  shows "wd_safe_pair L s C (wd_boards_reply_thread thread uid m sv)"
proof -
  have t: "e \<in> C" if "wd_boards_thread sv thread = Some t" "wd_thread_message t = Inl e" for t e
    using that assms(3) by (auto simp: wd_thread_message_def wd_bind_def split: sum.splits dest!: wd_icon_field_crash)
  have p: "e \<in> C" if "wd_boards_thread sv thread = Some t" "p \<in> set (wd_boards_replies sv thread)"
    "wd_post_list_message u p = Inl e" for t p u e
    using that assms(3)
    by (auto simp: wd_boards_replies_def wd_post_list_message_def wd_bind_def split: sum.splits dest!: wd_icon_field_crash)
  have b: "e \<in> C" if "wd_boards_thread sv thread = Some t"
    "wd_boards_privileges_joined (wd_boards_board sv (th_board t)) = Inl e" for t e
    using that assms(3) by (auto simp: wd_boards_privileges_joined_def split: option.splits)
  show ?thesis
    unfolding wd_boards_reply_thread_def
    apply (rule wd_safe_pair_if)
     apply (intro wd_pairs wd_good_sends assms(2))
    apply (rule wd_safe_pair_option)
     apply (intro wd_pairs wd_good_sends assms(2))
    apply (rule wd_safe_pair_value, erule (1) b)
    apply (rule wd_safe_pair_value, erule acting_rights(2) [OF assms(1,2), rotated], simp)
    apply (rule wd_safe_pair_if)
     apply (intro wd_pairs wd_good_sends assms(2))
    apply (rule wd_safe_pair_value, erule (1) t)
    apply (rule wd_safe_pair_bind, rule wd_safe_each, intro wd_good_sends assms(2))
     apply (rule wd_safe_value, erule (2) p)
    apply (intro wd_safe_Inr wd_pairs wd_good_sends, assumption)+
    done
qed

lemma wd_safe_pair_told:
  "wd_good L s sv \<Longrightarrow> (\<And>u e. u_account u \<noteq> None \<Longrightarrow> message u = Inl e \<Longrightarrow> e \<in> C) \<Longrightarrow>
     wd_safe_pair L s C (wd_bind (wd_boards_broadcast message sv) (\<lambda>sv. Inr (True, sv)))"
  by (intro wd_safe_pair_done wd_safe_broadcast)

lemma wd_safe_add_board [wd_pairs]:
  assumes "wd_good L s sv"
  shows "wd_safe_pair L s C (wd_boards_add_board board uid m sv)"
proof -
  have g: "wd_good L s (sv\<lparr>sv_boards := sv_boards sv @ [row]\<rparr>)"
    if "wd_boards_board sv board = None" "bo_board row = board" for row
    by (rule wd_good_tables [OF assms])
      (use that in \<open>auto simp: tables_ok_def boards_tables_ok_def wd_boards_board_None\<close>)
  show ?thesis
    unfolding wd_boards_add_board_def Let_def
    apply (rule wd_safe_pair_if)
     apply (intro wd_pairs wd_good_sends assms)
    apply (rule wd_safe_pair_told)
     apply (rule g; simp)
    apply (auto simp: wd_bind_def split: sum.splits dest!: wd_board_rights_crash)
    done
qed

lemma wd_boards_rename_subboards_step:
  "case wd_boards_rename_subboards pairs sv of Inl sv' \<Rightarrow> boards_step sv sv' | Inr sv' \<Rightarrow> boards_step sv sv'"
proof (induction pairs sv rule: wd_boards_rename_subboards.induct)
  case (1 sv)
  then show ?case by (simp add: boards_step_refl)
next
  case (2 old new pairs sv)
  show ?case
  proof (cases "wd_db_rename_subboard old new sv")
    case None
    with 2(1) show ?thesis by (simp add: boards_step_refl)
  next
    case (Some sv1)
    from boards_step_trans [OF wd_db_rename_subboard_step [OF this]] 2 Some show ?thesis
      by (cases "old = new"; cases "wd_boards_rename_subboards pairs sv1") auto
  qed
qed

text \<open>The renamed board itself is not among those that are renamed after it.\<close>

lemma wd_boards_rename_subboards_keeps:
  assumes "wd_boards_rename_subboards pairs sv = Inr sv'" and "wd_boards_board sv newboard \<noteq> None"
    and "newboard \<notin> fst ` set pairs"
  shows "wd_boards_board sv' newboard \<noteq> None \<and> sv_db_ok sv' = sv_db_ok sv"
  using assms
proof (induction pairs sv rule: wd_boards_rename_subboards.induct)
  case (2 old new pairs sv)
  show ?case
  proof (cases "old = new")
    case False
    then obtain sv1 where s: "wd_db_rename_subboard old new sv = Some sv1"
      and r: "wd_boards_rename_subboards pairs sv1 = Inr sv'"
      using 2(3) by (auto split: option.splits)
    have "wd_boards_board sv1 newboard \<noteq> None" "sv_db_ok sv1 = sv_db_ok sv"
      using s 2(4,5) by (auto simp: wd_db_rename_subboard_def wd_db_rename_board_def wd_db_move_threads_def
          bind_eq_Some_conv wd_boards_board_None image_iff split: if_splits)
    with 2(2) [OF False s r] 2(5) show ?thesis by simp
  qed (use 2 in simp)
qed simp

lemma wd_safe_renamed:
  assumes "wd_good L s sv" and "wd_boards_board sv newboard = None \<Longrightarrow> Missing_Row \<in> C"
  shows "wd_safe_pair L s C (wd_boards_renamed name oldboard newboard uid m sv)"
  unfolding wd_boards_renamed_def
proof (rule wd_safe_pair_option)
  show "wd_safe_pair L s C (Inr (False, wd_user_reply_internal_error uid (Some ''database'') m sv))"
    by (intro wd_pairs wd_good_sends assms)
  fix sv1 assume t: "wd_db_move_threads oldboard newboard sv = Some sv1"
  then have e: "sv_db_ok sv1" "wd_boards_board sv1 newboard = wd_boards_board sv newboard"
    by (auto simp: wd_db_move_threads_def wd_boards_board_def split: if_splits)
  show "wd_safe_pair L s C (wd_bind (wd_boards_privileges_for_board newboard sv1) (\<lambda>privileges.
          wd_bind (wd_boards_broadcast (wd_boards_if_accessible privileges (wd_board_renamed_message name oldboard newboard)) sv1)
            (\<lambda>sv. Inr (True, sv))))"
    apply (rule wd_safe_pair_value)
     apply (use e assms(2) in \<open>auto dest!: wd_boards_privileges_for_board_cases(1)\<close>) [1]
    apply (rule wd_safe_pair_told [OF wd_good_boards [OF wd_db_move_threads_step [OF t] assms(1)]])
    apply (use e(1) wd_boards_privileges_for_board_cases(2) in \<open>auto dest!: wd_boards_if_accessible_crash\<close>)
    done
qed

lemma map_filter_Some: "p \<in> set (List.map_filter f xs) \<Longrightarrow> \<exists>x \<in> set xs. f x = Some p"
  by (auto simp: List.map_filter_def)

lemma wd_boards_subboards_not_new: "newboard \<notin> fst ` set (wd_boards_subboards oldboard newboard sv)"
  by (auto simp: wd_boards_subboards_def split: if_splits dest!: map_filter_Some)

lemma wd_db_rename_board_new:
  assumes "wd_db_rename_board oldboard newboard sv = Some sv'" and "wd_boards_board sv oldboard \<noteq> None"
  shows "wd_boards_board sv' newboard \<noteq> None"
proof -
  obtain b where b: "b \<in> set (sv_boards sv)" "bo_board b = oldboard"
    using assms(2) wd_boards_board_Some by (cases "wd_boards_board sv oldboard") auto
  have "sv_boards sv' = map (\<lambda>b. if bo_board b = oldboard then b\<lparr>bo_board := newboard\<rparr> else b) (sv_boards sv)"
    using assms(1) by (auto simp: wd_db_rename_board_def split: if_splits)
  with b(1) have "(if bo_board b = oldboard then b\<lparr>bo_board := newboard\<rparr> else b) \<in> set (sv_boards sv')" by simp
  with b(2) show ?thesis unfolding wd_boards_board_None by force
qed

lemma wd_safe_rename_board:
  assumes "wd_good L s sv" and "wd_boards_board sv oldboard \<noteq> None"
  shows "wd_safe_pair L s C (wd_boards_rename_board oldboard newboard uid m sv)"
  unfolding wd_boards_rename_board_def
proof (rule wd_safe_pair_option)
  show "wd_safe_pair L s C (Inr (False, wd_user_reply_internal_error uid (Some ''database'') m sv))"
    by (intro wd_pairs wd_good_sends assms)
  fix sv1 assume r: "wd_db_rename_board oldboard newboard sv = Some sv1"
  let ?pairs = "wd_boards_subboards oldboard newboard sv1"
  note g1 = wd_good_boards [OF wd_db_rename_board_step [OF r] assms(1)]
  note s2 = wd_boards_rename_subboards_step [where pairs = ?pairs and sv = sv1]
  note k2 = wd_boards_rename_subboards_keeps [OF _ wd_db_rename_board_new [OF r assms(2)] wd_boards_subboards_not_new]
  show "wd_safe_pair L s C (case wd_boards_rename_subboards ?pairs sv1 of
             Inl sv \<Rightarrow> Inr (False, wd_user_reply_internal_error uid (Some ''database'') m sv)
           | Inr sv \<Rightarrow> wd_boards_renamed ''wired.board.board_renamed'' oldboard newboard uid m sv)"
  proof (cases "wd_boards_rename_subboards ?pairs sv1")
    case (Inl sv2)
    with s2 have "wd_good L s sv2" using wd_good_boards [OF _ g1] by simp
    with Inl show ?thesis by (simp add: wd_safe_pair_Inr wd_good_sends)
  next
    case (Inr sv2)
    with s2 have "wd_good L s sv2" using wd_good_boards [OF _ g1] by simp
    then have "wd_safe_pair L s C (wd_boards_renamed ''wired.board.board_renamed'' oldboard newboard uid m sv2)"
      by (rule wd_safe_renamed) (use k2 [OF Inr] in simp)
    with Inr show ?thesis by simp
  qed
qed

lemma wd_boards_move_subboards_good:
  assumes "wd_boards_move_subboards oldboard newboard rows delivered sv = Some r"
  shows "r = Inl Statement_Alive \<or> (\<exists>sv'. r = Inr sv' \<and> boards_step sv sv')"
proof (induction rule: wd_boards_move_subboards.raw_induct [OF _ assms])
  case (1 move oldboard newboard rows delivered sv r)
  show ?case
  proof (cases "sv_cursor sv rows delivered (wd_boards_like oldboard sv)")
    case None
    then show ?thesis using 1(2) boards_step_refl by auto
  next
    case old: (Some old)
    show ?thesis
    proof (cases "wd_boards_new_name oldboard newboard old")
      case None
      then show ?thesis using 1 old by simp
    next
      case new: (Some new)
      show ?thesis
      proof (cases "wd_db_rename_subboard old new sv")
        case None
        then show ?thesis using 1(2) old new by auto
      next
        case (Some sv1)
        then show ?thesis
          using 1(1) [of oldboard newboard rows "delivered @ [old]" sv1 r] 1(2) old new
            boards_step_trans [OF wd_db_rename_subboard_step [OF Some]] by auto
      qed
    qed
  qed
qed

lemma wd_safe_move_board:
  assumes "wd_good L s sv" and "{Endless_Loop, Statement_Alive, Missing_Row} \<subseteq> C"
  shows "wd_safe_pair L s C (wd_boards_move_board oldboard newboard uid m sv)"
  unfolding wd_boards_move_board_def
proof (rule wd_safe_pair_option)
  show "wd_safe_pair L s C (Inr (False, wd_user_reply_internal_error uid (Some ''database'') m sv))"
    by (intro wd_pairs wd_good_sends assms)
  fix sv1 assume r: "wd_db_rename_board oldboard newboard sv = Some sv1"
  note g1 = wd_good_boards [OF wd_db_rename_board_step [OF r] assms(1)]
  show "wd_safe_pair L s C (case wd_boards_move_subboards oldboard newboard (wd_boards_like oldboard sv1) [] sv1 of
             None \<Rightarrow> Inl Endless_Loop
           | Some r \<Rightarrow> wd_bind r (wd_boards_renamed ''wired.board.board_moved'' oldboard newboard uid m))"
  proof (rule wd_safe_pair_option)
    fix r assume "wd_boards_move_subboards oldboard newboard (wd_boards_like oldboard sv1) [] sv1 = Some r"
    from wd_boards_move_subboards_good [OF this]
    show "wd_safe_pair L s C (wd_bind r (wd_boards_renamed ''wired.board.board_moved'' oldboard newboard uid m))"
      using assms(2) wd_good_boards [OF _ g1]
      by (auto simp: wd_safe_pair_Inl intro!: wd_safe_renamed)
  qed (use assms(2) in \<open>simp add: wd_safe_pair_Inl\<close>)
qed

lemma wd_safe_delete_board:
  assumes "wd_good L s sv" and "wd_boards_board sv board \<noteq> None"
  shows "wd_safe_pair L s C (wd_boards_delete_board board uid m sv)"
  unfolding wd_boards_delete_board_def
  apply (rule wd_safe_pair_value)
   apply (use assms(2) in \<open>auto dest!: wd_boards_privileges_for_board_cases(1)\<close>) [1]
  apply (rule wd_safe_pair_if)
   apply (intro wd_pairs wd_good_sends assms)
  apply (rule wd_safe_pair_told [OF wd_good_boards [OF wd_db_delete_board_step assms(1)]])
  apply (use wd_boards_privileges_for_board_cases(2) in \<open>auto dest!: wd_boards_if_accessible_crash\<close>)
  done

lemma wd_safe_get_board_info:
  assumes "wd_good L s sv" and "wd_boards_has_board_with_name board sv"
  shows "wd_safe_pair L s C (wd_boards_get_board_info board uid m sv)"
  unfolding wd_boards_get_board_info_def
  apply (rule wd_safe_pair_value)
   apply (use assms(2) in \<open>auto simp: wd_boards_has_board_with_name_def dest!: wd_boards_privileges_for_board_cases(1)\<close>) [1]
  apply (rule wd_safe_pair_option)
   apply (use assms(2) in \<open>auto simp: wd_boards_has_board_with_name_def dest!: wd_boards_privileges_for_board_cases(2)\<close>) [1]
  apply (intro wd_pairs wd_good_sends assms)
  done

lemma wd_board_info_change_crash:
  "wd_board_info_change board old new u = Inl e \<Longrightarrow> e = Null_Privileges \<and> (old = None \<or> new = None) \<or> e = Null_Account \<and> u_account u = None"
  by (auto simp: wd_board_info_change_def wd_bind_def split: sum.splits dest!: wd_board_rights_crash)

lemma wd_safe_set_board_info:
  assumes "wd_good L s sv" and "wd_boards_board sv board \<noteq> None"
  shows "wd_safe_pair L s C (wd_boards_set_board_info board uid m sv)"
proof -
  have e: "boards_step sv (sv\<lparr>sv_boards := map f (sv_boards sv)\<rparr>)" if "\<And>b. bo_board (f b) = bo_board b" for f
    using boards_step_edit [of f "\<lambda>t. t" "\<lambda>p. p" sv "\<lambda>_. True"] that by simp
  show ?thesis
    unfolding wd_boards_set_board_info_def Let_def
    apply (rule wd_safe_pair_value)
     apply (use assms(2) in \<open>auto dest!: wd_boards_privileges_for_board_cases(1)\<close>) [1]
    apply (rule wd_safe_pair_if)
     apply (intro wd_pairs wd_good_sends assms)
    apply (rule wd_safe_pair_told [OF wd_good_boards [OF e assms(1)]])
     apply simp
    apply (use wd_boards_privileges_for_board_cases(2) in \<open>auto dest!: wd_board_info_change_crash\<close>)
    done
qed

lemma wd_good_uuid: "wd_good L s sv \<Longrightarrow> wd_good L s (snd (wi_uuid sv))"
  by (rule wd_good_boards [OF wi_uuid_step])

lemma wd_safe_add_thread:
  assumes "acting s uid C" and "wd_good L s sv" and "wd_boards_has_board_with_name board sv"
  shows "wd_safe_pair L s C (wd_boards_add_thread board subject txt uid m sv)"
proof -
  obtain thread sv1 where u: "wi_uuid sv = (thread, sv1)" by fastforce
  then have g1: "wd_good L s sv1" using wd_good_uuid [OF assms(2)] by simp
  show ?thesis
    unfolding wd_boards_add_thread_def Let_def u prod.case
    apply (rule wd_safe_pair_value)
     apply (use assms(3) in \<open>auto simp: wd_boards_has_board_with_name_def dest!: wd_boards_privileges_for_board_cases(1)\<close>) [1]
    apply (rule wd_safe_pair_value)
     apply (use assms(3) in \<open>auto simp: wd_boards_has_board_with_name_def dest!: wd_boards_privileges_for_board_cases(2)
        acting_rights(3) [OF assms(1,2), rotated]\<close>) [1]
    apply (rule wd_safe_pair_if)
     apply (intro wd_pairs wd_good_sends assms)
    apply (rule wd_safe_pair_option)
     apply (intro wd_pairs wd_good_sends g1)
    apply (rule wd_safe_pair_told [OF wd_good_boards [OF wd_db_insert_thread_step g1]], assumption)
    apply (use assms(3) in \<open>auto simp: wd_boards_has_board_with_name_def dest!: wd_boards_if_readable_crash wd_boards_privileges_for_board_cases(2)\<close>)
    done
qed

lemma wd_safe_edit_thread:
  assumes "acting s uid C" and "wd_good L s sv" and "\<not> sv_db_ok sv \<Longrightarrow> Null_Privileges \<in> C"
    and "wd_boards_thread sv thread = None \<Longrightarrow> Missing_Row \<in> C"
    and "\<And>t. wd_boards_thread sv thread = Some t \<Longrightarrow> wd_boards_board sv (th_board t) = None \<Longrightarrow> Null_Column \<in> C"
  shows "wd_safe_pair L s C (wd_boards_edit_thread thread subject txt uid m sv)"
proof -
  let ?f = "\<lambda>t. if th_thread t = thread then t\<lparr>th_subject := subject, th_text := txt, th_edit_date := Some (sv_now sv)\<rparr> else t"
  let ?sv = "sv\<lparr>sv_threads := map ?f (sv_threads sv)\<rparr>"
  have g: "wd_good L s ?sv"
    using wd_good_boards [OF boards_step_edit [of "\<lambda>b. b" ?f "\<lambda>p. p" sv "\<lambda>_. True"] assms(2)] by simp
  have t: "wd_boards_thread ?sv thread = None \<longleftrightarrow> wd_boards_thread sv thread = None"
    by (subst wd_boards_thread_map) simp_all
  have n: "x = None \<Longrightarrow> Null_Privileges \<in> C" if "wd_boards_privileges_for_thread thread sv = Inr x" for x
    using that assms(3) wd_boards_privileges_for_thread_cases(2) by auto
  show ?thesis
    unfolding wd_boards_edit_thread_def Let_def
    apply (rule wd_safe_pair_value)
     apply (use assms(4,5) in \<open>auto dest!: wd_boards_privileges_for_thread_cases(1)\<close>) [1]
    apply (rule wd_safe_pair_value, erule acting_rights(3) [OF assms(1,2), rotated], erule (1) n)
    apply (rule wd_safe_pair_if)
     apply (intro wd_pairs wd_good_sends assms)
    apply (rule wd_safe_pair_option, rule wd_safe_pair_Inl, erule acting_account [OF assms(1,2)])
    apply (rule wd_safe_pair_if)
     apply (intro wd_pairs wd_good_sends assms)
    apply (rule wd_safe_pair_done, rule wd_safe_changed_thread [OF g], erule (1) n)
    apply (unfold t, erule wd_boards_privileges_for_thread_cases(3), simp)
    done
qed

lemma wd_thread_move_change_crash:
  "wd_thread_move_change newboard t old new u = Inl e \<Longrightarrow>
     e = Null_Privileges \<and> (old = None \<or> new = None) \<or> e = Null_Account \<and> u_account u = None \<or>
     e = Null_Column \<and> th_icon t = Icon_Null"
  by (auto simp: wd_thread_move_change_def wd_thread_moved_in_message_def wd_bind_def
      split: sum.splits if_splits dest!: wd_board_privileges_crash wd_icon_field_crash)

lemma wd_safe_move_thread:
  assumes "acting s uid C" and "wd_good L s sv" and "wd_boards_has_board_with_name newboard sv"
    and "\<And>t. wd_boards_thread sv thread = Some t \<Longrightarrow> wd_boards_board sv (th_board t) = None \<Longrightarrow> Missing_Row \<in> C"
    and "\<And>t. wd_boards_thread sv thread = Some t \<Longrightarrow> th_icon t = Icon_Null \<Longrightarrow> Null_Column \<in> C"
  shows "wd_safe_pair L s C (wd_boards_move_thread thread newboard uid m sv)"
proof -
  let ?f = "\<lambda>t. if th_thread t = thread then t\<lparr>th_board := newboard\<rparr> else t"
  have g: "wd_good L s (sv\<lparr>sv_threads := map ?f (sv_threads sv)\<rparr>)"
    using wd_good_boards [OF boards_step_edit [of "\<lambda>b. b" ?f "\<lambda>p. p" sv "\<lambda>_. True"] assms(2)] by simp
  have db: "sv_db_ok sv" "wd_boards_board sv newboard \<noteq> None" using assms(3) by (simp_all add: wd_boards_has_board_with_name_def)
  have n: "x \<noteq> None" if "wd_boards_privileges_for_board b sv = Inr x" for b x
    using that db(1) wd_boards_privileges_for_board_cases(2) by (cases x) auto
  note w = acting_rights(3) [OF assms(1,2), rotated]
  show ?thesis
    unfolding wd_boards_move_thread_def Let_def
    apply (rule wd_safe_pair_if)
     apply (intro wd_pairs wd_good_sends assms)
    apply (rule wd_safe_pair_option)
     apply (intro wd_pairs wd_good_sends assms)
    apply (rule wd_safe_pair_value)
     apply (use assms(4) in \<open>auto dest!: wd_boards_privileges_for_board_cases(1)\<close>) [1]
    apply (rule wd_safe_pair_value)
     apply (use db(2) in \<open>auto dest!: wd_boards_privileges_for_board_cases(1)\<close>) [1]
    apply (rule wd_safe_pair_value, erule w, drule n, simp)
    apply (rule wd_safe_pair_value)
     apply (auto split: if_splits dest!: n elim: w) [1]
    apply (rule wd_safe_pair_if)
     apply (intro wd_pairs wd_good_sends assms)
    apply (rule wd_safe_pair_told [OF g])
    apply (use assms(5) in \<open>auto dest!: wd_thread_move_change_crash n\<close>)
    done
qed

lemma wd_safe_delete_thread:
  assumes "acting s uid C" and "wd_good L s sv"
    and "\<And>t. wd_boards_thread sv thread = Some t \<Longrightarrow> wd_boards_board sv (th_board t) = None \<Longrightarrow> Null_Column \<in> C"
  shows "wd_safe_pair L s C (wd_boards_delete_thread thread uid m sv)"
proof -
  have n: "x \<noteq> None" if "wd_boards_privileges_for_thread thread sv = Inr x" "\<not> \<not> sv_db_ok sv" for x
    using that wd_boards_privileges_for_thread_cases(2) by (cases x) auto
  show ?thesis
    unfolding wd_boards_delete_thread_def Let_def
    apply (rule wd_safe_pair_if)
     apply (intro wd_pairs wd_good_sends assms)
    apply (rule wd_safe_pair_option)
     apply (intro wd_pairs wd_good_sends assms)
    apply (rule wd_safe_pair_value)
     apply (use assms(3) in \<open>auto dest!: wd_boards_privileges_for_thread_cases(1)\<close>) [1]
    apply (rule wd_safe_pair_value, erule acting_rights(3) [OF assms(1,2), rotated], drule (1) n, simp)
    apply (rule wd_safe_pair_if)
     apply (intro wd_pairs wd_good_sends assms)
    apply (rule wd_safe_pair_option, rule wd_safe_pair_Inl, erule acting_account [OF assms(1,2)])
    apply (rule wd_safe_pair_if)
     apply (intro wd_pairs wd_good_sends assms)
    apply (rule wd_safe_pair_told [OF wd_good_boards [OF wd_db_delete_threads_step assms(2)]])
    apply (auto dest!: wd_boards_if_readable_crash n)
    done
qed

lemma wd_safe_add_post:
  assumes "acting s uid C" and "wd_good L s sv"
    and "\<And>t. wd_boards_thread sv thread = Some t \<Longrightarrow> wd_boards_board sv (th_board t) = None \<Longrightarrow> Missing_Row \<in> C"
  shows "wd_safe_pair L s C (wd_boards_add_post thread txt uid m sv)"
proof -
  obtain post sv1 where u: "wi_uuid sv = (post, sv1)" by fastforce
  then have g1: "wd_good L s sv1" and t1: "wd_boards_thread sv1 thread = wd_boards_thread sv thread"
    using wd_good_uuid [OF assms(2)] by (auto simp: wi_uuid_def wd_boards_thread_def)
  have b: "sv_db_ok sv \<and> (\<exists>t. wd_boards_thread sv thread = Some t \<and> th_board t = board)"
    if "wd_boards_board_for_thread thread sv = Some board" for board
    using that by (auto simp: wd_boards_board_for_thread_def split: if_splits)
  have n: "x \<noteq> None" if "wd_boards_board_for_thread thread sv = Some board" "wd_boards_privileges_for_board board sv = Inr x" for board x
    using that b wd_boards_privileges_for_board_cases(2) by (cases x) auto
  have i: "wd_good L s sv2 \<and> (\<exists>t. wd_boards_thread sv2 thread = Some t)"
    if "wd_db_insert_post post thread txt (wd_user sv1 uid) sv1 = Some sv2" "wd_boards_board_for_thread thread sv = Some board" for sv2 board
  proof -
    have t: "wd_boards_thread sv1 thread \<noteq> None" using b [OF that(2)] t1 by auto
    have "wd_boards_thread sv2 thread = wd_boards_thread sv1 thread"
      using that(1) by (auto simp: wd_db_insert_post_def wd_boards_thread_def split: option.splits if_splits)
    with t wd_good_boards [OF wd_db_insert_post_step [OF that(1) t] g1] show ?thesis by auto
  qed
  show ?thesis
    unfolding wd_boards_add_post_def Let_def u prod.case
    apply (rule wd_safe_pair_option)
     apply (intro wd_pairs wd_good_sends assms)
    apply (rule wd_safe_pair_value)
     apply (use assms(3) b in \<open>auto dest!: wd_boards_privileges_for_board_cases(1)\<close>) [1]
    apply (rule wd_safe_pair_value, erule acting_rights(3) [OF assms(1,2), rotated], drule (1) n, simp)
    apply (rule wd_safe_pair_if)
     apply (intro wd_pairs wd_good_sends assms)
    apply (rule wd_safe_pair_option)
     apply (intro wd_pairs wd_good_sends g1)
    apply (rule wd_safe_pair_done, drule (1) i, rule wd_safe_changed_thread, erule conjunct1)
     apply (drule (1) n, simp)
    apply simp
    done
qed

lemma wd_boards_changeable_post_cases:
  assumes "acting s uid C" and "wd_good L s sv" and "\<not> sv_db_ok sv \<Longrightarrow> Null_Privileges \<in> C"
    and "wd_boards_post sv post = None \<Longrightarrow> Missing_Row \<in> C" and "wd_post_orphan sv post \<Longrightarrow> Null_Column \<in> C"
  shows "case wd_boards_changeable_post field post uid m sv of
      Inl e \<Rightarrow> e \<in> C
    | Inr (Inl sv') \<Rightarrow> wd_good L s sv'
    | Inr (Inr (p, privileges)) \<Rightarrow> sv_db_ok sv \<and> privileges \<noteq> None \<and> wd_boards_post sv post = Some p \<and>
        wd_boards_thread sv (po_thread p) \<noteq> None"
proof (cases "wd_boards_privileges_for_post post sv")
  case (Inl e)
  then show ?thesis
    using assms(4,5) wd_boards_privileges_for_post_cases(1) [OF Inl] by (auto simp: wd_boards_changeable_post_def)
next
  case p: (Inr privileges)
  let ?w = "wd_board_privileges_is_writable_by_account privileges (u_account (wd_user sv uid))"
  have n: "privileges = None \<Longrightarrow> Null_Privileges \<in> C"
    using p assms(3) wd_boards_privileges_for_post_cases(2) by auto
  show ?thesis
  proof (cases ?w)
    case (Inl e)
    then show ?thesis
      using acting_rights(3) [OF assms(1,2) n Inl] p by (auto simp: wd_boards_changeable_post_def Let_def)
  next
    case (Inr b)
    have g: "wd_good L s (wd_user_reply_error uid err m sv)" "wd_good L s (wd_user_reply_internal_error uid str m sv)" for err str
      by (intro wd_good_sends assms(2))+
    have "\<exists>q t. wd_boards_post sv post = Some q \<and> wd_boards_thread sv (po_thread q) = Some t \<and> privileges \<noteq> None"
      if "sv_db_ok sv"
      using that p wd_boards_privileges_for_post_cases(2,3) by (cases privileges) auto
    with p Inr g acting_account [OF assms(1,2)] show ?thesis
      by (auto simp: wd_boards_changeable_post_def Let_def split: option.split)
  qed
qed

lemma wd_safe_change_post:
  assumes "acting s uid C" and "wd_good L s sv" and "\<not> sv_db_ok sv \<Longrightarrow> Null_Privileges \<in> C"
    and "wd_boards_post sv post = None \<Longrightarrow> Missing_Row \<in> C" and "wd_post_orphan sv post \<Longrightarrow> Null_Column \<in> C"
  shows "wd_safe_pair L s C (wd_boards_edit_post post txt uid m sv)"
    and "wd_safe_pair L s C (wd_boards_delete_post post uid m sv)"
proof -
  let ?f = "\<lambda>q. if po_post q = post then q\<lparr>po_text := txt, po_edit_date := Some (sv_now sv)\<rparr> else q"
  have g: "wd_good L s (sv\<lparr>sv_posts := map ?f (sv_posts sv)\<rparr>)"
    "wd_good L s (sv\<lparr>sv_posts := filter (\<lambda>q. po_post q \<noteq> post) (sv_posts sv)\<rparr>)"
    using wd_good_boards [OF boards_step_edit [of "\<lambda>b. b" "\<lambda>t. t" ?f sv "\<lambda>_. True"] assms(2)]
      wd_good_boards [OF boards_step_edit [of "\<lambda>b. b" "\<lambda>t. t" "\<lambda>p. p" sv "\<lambda>q. po_post q \<noteq> post"] assms(2)] by simp_all
  have t: "wd_boards_thread (sv\<lparr>sv_posts := ps\<rparr>) thread = wd_boards_thread sv thread" for ps thread
    by (simp add: wd_boards_thread_def)
  have c: "case wd_boards_changeable_post field post uid m sv of
      Inl e \<Rightarrow> e \<in> C
    | Inr (Inl sv') \<Rightarrow> wd_good L s sv'
    | Inr (Inr (p, privileges)) \<Rightarrow> sv_db_ok sv \<and> privileges \<noteq> None \<and> wd_boards_post sv post = Some p \<and>
        wd_boards_thread sv (po_thread p) \<noteq> None" for field
    by (rule wd_boards_changeable_post_cases) (use assms in auto)
  show "wd_safe_pair L s C (wd_boards_edit_post post txt uid m sv)"
    using c [of "''wired.account.board.edit_all_threads_and_posts''"] g(1)
    by (auto simp: wd_boards_edit_post_def Let_def t split: sum.splits
        intro!: wd_pairs wd_safe_changed_thread)
  show "wd_safe_pair L s C (wd_boards_delete_post post uid m sv)"
    using c [of "''wired.account.board.delete_all_threads_and_posts''"] g(2)
    by (auto simp: wd_boards_delete_post_def Let_def t split: sum.splits
        intro!: wd_pairs wd_safe_changed_thread)
qed

subsection \<open>Handlers\<close>

lemma wd_safe_either_privilege:
  assumes "acting s uid C" and "wd_good L s sv" and "wd_safe L s C (handle sv)"
  shows "wd_safe L s C (wd_with_either_privilege field1 field2 uid m handle sv)"
  unfolding wd_with_either_privilege_def
  by (intro wd_keep_cases(1,3) wd_safe_Inr wd_safe_Inl wd_good_sends assms) (rule acting_account [OF assms(1,2)])

lemma wd_safe_acting_privilege:
  assumes "acting s uid C" and "wd_good L s sv" and "wd_safe L s C (handle sv)"
  shows "wd_safe L s C (wd_with_privilege field uid m handle sv)"
  by (rule wd_safe_privilege [where handle = handle], erule acting_account [OF assms(1,2)], rule assms(2), rule assms(3))

lemma wd_safe_with_board:
  assumes "wd_good L s sv"
    and "wd_boards_has_board_with_name (p7_string_arg m ''wired.board.board'') sv \<Longrightarrow>
      wd_safe L s C (handle (p7_string_arg m ''wired.board.board'') sv)"
  shows "wd_safe L s C (wd_with_board uid m handle sv)"
  unfolding wd_with_board_def Let_def by (intro wd_keep_cases(1) wd_safe_error assms) simp

lemma wd_boards_has_board: "wd_boards_has_board_with_name board sv \<Longrightarrow> wd_boards_board sv board \<noteq> None"
  by (simp add: wd_boards_has_board_with_name_def)

text \<open>
  Handlers without hazards; \<open>okay\<close> is what follows an operation: the reply and the event.
\<close>

lemma wd_safe_okay_event [wd_keep]: "wd_good L s sv \<Longrightarrow> wd_safe L s C (wd_events_add_event event uid ps (wd_user_reply_okay uid m sv))"
  by (intro wd_safe_event wd_good_sends)

lemma wd_safe_board_plain:
  assumes "acting s uid C" and "wd_good L s sv"
  shows "wd_safe L s C (wd_message_board_get_boards uid m sv)"
    "wd_safe L s C (wd_message_board_add_board uid m sv)"
    "wd_safe L s C (wd_message_board_delete_board uid m sv)"
    "wd_safe L s C (wd_message_board_get_board_info uid m sv)"
    "wd_safe L s C (wd_message_board_set_board_info uid m sv)"
    "wd_safe L s C (wd_message_board_add_thread uid m sv)"
proof -
  note p = wd_safe_acting_privilege [OF assms]
  note d = wd_safe_if_done [OF _ wd_safe_okay_event]
  show "wd_safe L s C (wd_message_board_get_boards uid m sv)"
    unfolding wd_message_board_get_boards_def
    by (rule p, rule wd_safe_bind [OF wd_safe_reply_boards [OF assms] wd_safe_event])
  show "wd_safe L s C (wd_message_board_add_board uid m sv)"
    unfolding wd_message_board_add_board_def Let_def
    by (rule p, intro wd_keep_cases(1) wd_safe_error d wd_safe_add_board assms)
  show "wd_safe L s C (wd_message_board_delete_board uid m sv)"
    unfolding wd_message_board_delete_board_def
    by (rule p, rule wd_safe_with_board [OF assms(2)], rule d, rule wd_safe_delete_board [OF assms(2) wd_boards_has_board])
  show "wd_safe L s C (wd_message_board_get_board_info uid m sv)"
    unfolding wd_message_board_get_board_info_def
    by (rule p, rule wd_safe_with_board [OF assms(2)], rule wd_safe_if_done [OF wd_safe_get_board_info [OF assms(2)] wd_safe_event])
  show "wd_safe L s C (wd_message_board_set_board_info uid m sv)"
    unfolding wd_message_board_set_board_info_def
    by (rule p, rule wd_safe_with_board [OF assms(2)], rule d, rule wd_safe_set_board_info [OF assms(2) wd_boards_has_board])
  show "wd_safe L s C (wd_message_board_add_thread uid m sv)"
    unfolding wd_message_board_add_thread_def Let_def
    by (rule p, rule wd_safe_with_board [OF assms(2)], rule d, rule wd_safe_add_thread [OF assms])
qed

text \<open>
  The threads and posts that are not as the handlers assume: a thread whose board is not
  there, and a thread that cannot be shown as its author or that of a reply has no icon.
\<close>

definition wd_thread_orphan :: "wd_server \<Rightarrow> string \<Rightarrow> bool" where
  "wd_thread_orphan sv thread \<longleftrightarrow>
     (\<exists>t. wd_boards_thread sv thread = Some t \<and> wd_boards_board sv (th_board t) = None)"

definition wd_thread_iconless :: "wd_server \<Rightarrow> string \<Rightarrow> bool" where
  "wd_thread_iconless sv thread \<longleftrightarrow>
     (\<exists>t. wd_boards_thread sv thread = Some t \<and> th_icon t = Icon_Null)"

definition wd_reply_iconless :: "wd_server \<Rightarrow> string \<Rightarrow> bool" where
  "wd_reply_iconless sv thread \<longleftrightarrow>
     wd_boards_thread sv thread \<noteq> None \<and> (\<exists>p \<in> set (sv_posts sv). po_thread p = thread \<and> po_icon p = Icon_Null)"

lemma wd_safe_board_get_threads:
  assumes "acting s uid C" and "wd_good L s sv"
    and "\<And>t. p7_string m ''wired.board.board'' = None \<Longrightarrow> t \<in> set (sv_threads sv) \<Longrightarrow> wd_boards_board sv (th_board t) = None \<Longrightarrow>
      Null_Column \<in> C"
  shows "wd_safe L s C (wd_message_board_get_threads uid m sv)"
  unfolding wd_message_board_get_threads_def Let_def
  by (rule wd_safe_acting_privilege [OF assms(1,2)],
      intro wd_keep_cases(1) wd_safe_error assms(2) wd_safe_bind [OF wd_safe_reply_threads [OF assms] wd_safe_event])

lemma wd_safe_board_get_thread:
  assumes "acting s uid C" and "wd_good L s sv" and "thread = p7_uuid_arg m ''wired.board.thread''"
    and "wd_thread_orphan sv thread \<or> wd_thread_iconless sv thread \<or> wd_reply_iconless sv thread \<Longrightarrow> Null_Column \<in> C"
  shows "wd_safe L s C (wd_message_board_get_thread uid m sv)"
  unfolding wd_message_board_get_thread_def Let_def assms(3) [symmetric]
  apply (rule wd_safe_acting_privilege [OF assms(1,2)], rule wd_safe_if_done [OF wd_safe_reply_thread [OF assms(1,2)]])
   apply (use assms(4) in \<open>auto simp: wd_thread_orphan_def wd_thread_iconless_def wd_reply_iconless_def\<close>) [1]
  apply (erule wd_safe_event)
  done

lemma wd_safe_board_rename_board:
  assumes "acting s uid C" and "wd_good L s sv"
    and "\<And>name. name \<in> {p7_string_arg m ''wired.board.board'', p7_string_arg m ''wired.board.new_board''} \<Longrightarrow>
      wi_string_has_prefix name ''~'' \<Longrightarrow> Not_Normalized \<in> C"
  shows "wd_safe L s C (wd_message_board_rename_board uid m sv)"
proof -
  have n: "Not_Normalized \<in> C"
    if "wi_string_by_deleting_last_path_component (sv_home sv) name = Inl e"
      "name \<in> {p7_string_arg m ''wired.board.board'', p7_string_arg m ''wired.board.new_board''}" for name e
    using assms(3) [OF that(2)] that(1) wi_deleting_last_no_tilde [of name "sv_home sv"] by auto
  show ?thesis
    unfolding wd_message_board_rename_board_def Let_def
    apply (rule wd_safe_acting_privilege [OF assms(1,2)])
    apply (intro wd_keep_cases(1) wd_safe_error assms(2))
    apply (auto simp: wd_safe_Inl dest: n wd_boards_has_board split: sum.split intro!: wd_safe_error assms(2)
        wd_safe_if_done [OF wd_safe_rename_board wd_safe_okay_event])
    done
qed

lemma wd_safe_board_move_board:
  assumes "acting s uid C" and "wd_good L s sv" and "{Endless_Loop, Statement_Alive, Missing_Row} \<subseteq> C"
  shows "wd_safe L s C (wd_message_board_move_board uid m sv)"
  unfolding wd_message_board_move_board_def Let_def
  by (rule wd_safe_acting_privilege [OF assms(1,2)],
      intro wd_keep_cases(1) wd_safe_error assms(2) wd_safe_if_done [OF wd_safe_move_board [OF assms(2,3)] wd_safe_okay_event])

lemma wd_safe_board_edit_thread:
  assumes "acting s uid C" and "wd_good L s sv" and "\<not> sv_db_ok sv \<Longrightarrow> Null_Privileges \<in> C"
    and "thread = p7_uuid_arg m ''wired.board.thread''"
    and "wd_boards_thread sv thread = None \<Longrightarrow> Missing_Row \<in> C" and "wd_thread_orphan sv thread \<Longrightarrow> Null_Column \<in> C"
  shows "wd_safe L s C (wd_message_board_edit_thread uid m sv)"
  unfolding wd_message_board_edit_thread_def Let_def assms(4) [symmetric]
  by (rule wd_safe_either_privilege [OF assms(1,2)],
      rule wd_safe_if_done [OF wd_safe_edit_thread [OF assms(1-3,5)] wd_safe_okay_event])
    (use assms(6) in \<open>auto simp: wd_thread_orphan_def\<close>)

lemma wd_safe_board_move_thread:
  assumes "acting s uid C" and "wd_good L s sv" and "thread = p7_uuid_arg m ''wired.board.thread''"
    and "wd_thread_orphan sv thread \<Longrightarrow> Missing_Row \<in> C" and "wd_thread_iconless sv thread \<Longrightarrow> Null_Column \<in> C"
  shows "wd_safe L s C (wd_message_board_move_thread uid m sv)"
  unfolding wd_message_board_move_thread_def Let_def assms(3) [symmetric]
  by (rule wd_safe_acting_privilege [OF assms(1,2)], rule wd_keep_cases(1), rule wd_safe_error [OF assms(2)],
      rule wd_safe_if_done [OF wd_safe_move_thread [OF assms(1,2)] wd_safe_okay_event])
    (use assms(4,5) in \<open>auto simp: wd_thread_orphan_def wd_thread_iconless_def\<close>)

lemma wd_safe_board_delete_thread:
  assumes "acting s uid C" and "wd_good L s sv" and "thread = p7_uuid_arg m ''wired.board.thread''"
    and "wd_thread_orphan sv thread \<Longrightarrow> Null_Column \<in> C"
  shows "wd_safe L s C (wd_message_board_delete_thread uid m sv)"
  unfolding wd_message_board_delete_thread_def Let_def assms(3) [symmetric]
  by (rule wd_safe_either_privilege [OF assms(1,2)],
      rule wd_safe_if_done [OF wd_safe_delete_thread [OF assms(1,2)] wd_safe_okay_event])
    (use assms(4) in \<open>auto simp: wd_thread_orphan_def\<close>)

lemma wd_safe_board_add_post:
  assumes "acting s uid C" and "wd_good L s sv" and "thread = p7_uuid_arg m ''wired.board.thread''"
    and "wd_thread_orphan sv thread \<Longrightarrow> Missing_Row \<in> C"
  shows "wd_safe L s C (wd_message_board_add_post uid m sv)"
  unfolding wd_message_board_add_post_def Let_def assms(3) [symmetric]
  by (rule wd_safe_acting_privilege [OF assms(1,2)],
      rule wd_safe_if_done [OF wd_safe_add_post [OF assms(1,2)] wd_safe_okay_event])
    (use assms(4) in \<open>auto simp: wd_thread_orphan_def\<close>)

lemma wd_safe_board_change_post:
  assumes "acting s uid C" and "wd_good L s sv" and "\<not> sv_db_ok sv \<Longrightarrow> Null_Privileges \<in> C"
    and "post = p7_uuid_arg m ''wired.board.post''"
    and "wd_boards_post sv post = None \<Longrightarrow> Missing_Row \<in> C" and "wd_post_orphan sv post \<Longrightarrow> Null_Column \<in> C"
  shows "wd_safe L s C (wd_message_board_edit_post uid m sv)"
    and "wd_safe L s C (wd_message_board_delete_post uid m sv)"
  unfolding wd_message_board_edit_post_def wd_message_board_delete_post_def Let_def assms(4) [symmetric]
  by (rule wd_safe_either_privilege [OF assms(1,2)],
      rule wd_safe_if_done [OF wd_safe_change_post(1) [OF assms(1-3,5,6)] wd_safe_okay_event]; assumption)
    (rule wd_safe_either_privilege [OF assms(1,2)],
      rule wd_safe_if_done [OF wd_safe_change_post(2) [OF assms(1-3,5,6)] wd_safe_okay_event]; assumption)

end
