(* ===== verification/Wd_Messages.thy ===== *)
theory Wd_Messages
  imports Wd_Board_Session
begin

text \<open>
  The loop of a connection and the dispatch of its messages (messages.c). Handlers that the
  development does not model (files, transfers, the editing of accounts, the log,
  settings and trackers) are the argument \<open>other\<close> of the dispatch.
\<close>

subsection \<open>The handlers of messages\<close>

datatype wd_handler =
    H_client_info
  | H_send_ping
  | H_ping
  | H_send_login
  | H_user_set_icon
  | H_user_set_nick
  | H_user_set_status
  | H_user_set_idle
  | H_user_get_info
  | H_user_disconnect_user
  | H_user_ban_user
  | H_user_get_users
  | H_chat_join_chat
  | H_chat_leave_chat
  | H_chat_set_topic
  | H_chat_send_say_or_me
  | H_chat_create_chat
  | H_chat_invite_user
  | H_chat_decline_invitation
  | H_chat_kick_user
  | H_message_send_message
  | H_message_send_offline_message
  | H_message_set_offline_public_key
  | H_message_send_broadcast
  | H_board_get_boards
  | H_board_get_threads
  | H_board_get_thread
  | H_board_add_board
  | H_board_rename_board
  | H_board_move_board
  | H_board_delete_board
  | H_board_get_board_info
  | H_board_set_board_info
  | H_board_add_thread
  | H_board_edit_thread
  | H_board_move_thread
  | H_board_delete_thread
  | H_board_add_post
  | H_board_edit_post
  | H_board_delete_post
  | H_board_subscribe_boards
  | H_board_unsubscribe_boards
  | H_account_subscribe_accounts
  | H_account_unsubscribe_accounts
  | H_log_subscribe
  | H_log_unsubscribe
  | H_event_get_first_time
  | H_event_get_events
  | H_event_delete_events
  | H_event_subscribe
  | H_event_unsubscribe
  | H_banlist_get_bans
  | H_banlist_add_ban
  | H_banlist_delete_ban
  | H_other string

definition wd_message_handlers :: "(string \<times> wd_handler) list" where
  "wd_message_handlers =
    [(''wired.client_info'', H_client_info),
     (''wired.send_ping'', H_send_ping),
     (''wired.ping'', H_ping),
     (''wired.send_login'', H_send_login),
     (''wired.user.set_icon'', H_user_set_icon),
     (''wired.user.set_nick'', H_user_set_nick),
     (''wired.user.set_status'', H_user_set_status),
     (''wired.user.set_idle'', H_user_set_idle),
     (''wired.user.get_info'', H_user_get_info),
     (''wired.user.disconnect_user'', H_user_disconnect_user),
     (''wired.user.ban_user'', H_user_ban_user),
     (''wired.user.get_users'', H_user_get_users),
     (''wired.chat.join_chat'', H_chat_join_chat),
     (''wired.chat.leave_chat'', H_chat_leave_chat),
     (''wired.chat.set_topic'', H_chat_set_topic),
     (''wired.chat.send_me'', H_chat_send_say_or_me),
     (''wired.chat.send_say'', H_chat_send_say_or_me),
     (''wired.chat.create_chat'', H_chat_create_chat),
     (''wired.chat.invite_user'', H_chat_invite_user),
     (''wired.chat.decline_invitation'', H_chat_decline_invitation),
     (''wired.chat.kick_user'', H_chat_kick_user),
     (''wired.message.send_message'', H_message_send_message),
     (''wired.message.send_offline_message'', H_message_send_offline_message),
     (''wired.message.set_offline_public_key'', H_message_set_offline_public_key),
     (''wired.message.send_broadcast'', H_message_send_broadcast),
     (''wired.board.get_boards'', H_board_get_boards),
     (''wired.board.get_threads'', H_board_get_threads),
     (''wired.board.get_thread'', H_board_get_thread),
     (''wired.board.add_board'', H_board_add_board),
     (''wired.board.rename_board'', H_board_rename_board),
     (''wired.board.move_board'', H_board_move_board),
     (''wired.board.delete_board'', H_board_delete_board),
     (''wired.board.get_board_info'', H_board_get_board_info),
     (''wired.board.set_board_info'', H_board_set_board_info),
     (''wired.board.add_thread'', H_board_add_thread),
     (''wired.board.edit_thread'', H_board_edit_thread),
     (''wired.board.move_thread'', H_board_move_thread),
     (''wired.board.delete_thread'', H_board_delete_thread),
     (''wired.board.add_post'', H_board_add_post),
     (''wired.board.edit_post'', H_board_edit_post),
     (''wired.board.delete_post'', H_board_delete_post),
     (''wired.board.subscribe_boards'', H_board_subscribe_boards),
     (''wired.board.unsubscribe_boards'', H_board_unsubscribe_boards),
     (''wired.file.list_directory'', H_other ''wired.file.list_directory''),
     (''wired.file.get_info'', H_other ''wired.file.get_info''),
     (''wired.file.move'', H_other ''wired.file.move''),
     (''wired.file.link'', H_other ''wired.file.link''),
     (''wired.file.set_type'', H_other ''wired.file.set_type''),
     (''wired.file.set_comment'', H_other ''wired.file.set_comment''),
     (''wired.file.set_executable'', H_other ''wired.file.set_executable''),
     (''wired.file.set_permissions'', H_other ''wired.file.set_permissions''),
     (''wired.file.set_label'', H_other ''wired.file.set_label''),
     (''wired.file.delete'', H_other ''wired.file.delete''),
     (''wired.file.create_directory'', H_other ''wired.file.create_directory''),
     (''wired.file.search'', H_other ''wired.file.search''),
     (''wired.file.preview_file'', H_other ''wired.file.preview_file''),
     (''wired.file.subscribe_directory'', H_other ''wired.file.subscribe_directory''),
     (''wired.file.unsubscribe_directory'', H_other ''wired.file.unsubscribe_directory''),
     (''wired.account.change_password'', H_other ''wired.account.change_password''),
     (''wired.account.list_users'', H_other ''wired.account.list_users''),
     (''wired.account.list_groups'', H_other ''wired.account.list_groups''),
     (''wired.account.read_user'', H_other ''wired.account.read_user''),
     (''wired.account.read_group'', H_other ''wired.account.read_group''),
     (''wired.account.create_user'', H_other ''wired.account.create_user''),
     (''wired.account.create_group'', H_other ''wired.account.create_group''),
     (''wired.account.edit_user'', H_other ''wired.account.edit_user''),
     (''wired.account.edit_group'', H_other ''wired.account.edit_group''),
     (''wired.account.delete_user'', H_other ''wired.account.delete_user''),
     (''wired.account.delete_group'', H_other ''wired.account.delete_group''),
     (''wired.account.subscribe_accounts'', H_account_subscribe_accounts),
     (''wired.account.unsubscribe_accounts'', H_account_unsubscribe_accounts),
     (''wired.transfer.download_file'', H_other ''wired.transfer.download_file''),
     (''wired.transfer.upload_file'', H_other ''wired.transfer.upload_file''),
     (''wired.transfer.upload_directory'', H_other ''wired.transfer.upload_directory''),
     (''wired.log.get_log'', H_other ''wired.log.get_log''),
     (''wired.log.subscribe'', H_log_subscribe),
     (''wired.log.unsubscribe'', H_log_unsubscribe),
     (''wired.event.get_first_time'', H_event_get_first_time),
     (''wired.event.get_events'', H_event_get_events),
     (''wired.event.delete_events'', H_event_delete_events),
     (''wired.event.subscribe'', H_event_subscribe),
     (''wired.event.unsubscribe'', H_event_unsubscribe),
     (''wired.settings.get_settings'', H_other ''wired.settings.get_settings''),
     (''wired.settings.set_settings'', H_other ''wired.settings.set_settings''),
     (''wired.banlist.get_bans'', H_banlist_get_bans),
     (''wired.banlist.add_ban'', H_banlist_add_ban),
     (''wired.banlist.delete_ban'', H_banlist_delete_ban),
     (''wired.tracker.get_categories'', H_other ''wired.tracker.get_categories''),
     (''wired.tracker.get_servers'', H_other ''wired.tracker.get_servers''),
     (''wired.tracker.send_register'', H_other ''wired.tracker.send_register''),
     (''wired.tracker.send_update'', H_other ''wired.tracker.send_update'')]"

fun wd_run_handler ::
  "(string \<Rightarrow> 32 word \<Rightarrow> p7_message \<Rightarrow> wd_server \<Rightarrow> wd_server wd_result) \<Rightarrow> wd_handler \<Rightarrow>
    32 word \<Rightarrow> p7_message \<Rightarrow> wd_server \<Rightarrow> wd_server wd_result" where
  "wd_run_handler other H_client_info = wd_message_client_info"
| "wd_run_handler other H_send_ping = wd_message_send_ping"
| "wd_run_handler other H_ping = wd_message_ping"
| "wd_run_handler other H_send_login = wd_message_send_login"
| "wd_run_handler other H_user_set_icon = wd_message_user_set_icon"
| "wd_run_handler other H_user_set_nick = wd_message_user_set_nick"
| "wd_run_handler other H_user_set_status = wd_message_user_set_status"
| "wd_run_handler other H_user_set_idle = wd_message_user_set_idle"
| "wd_run_handler other H_user_get_info = wd_message_user_get_info"
| "wd_run_handler other H_user_disconnect_user = wd_message_user_disconnect_user"
| "wd_run_handler other H_user_ban_user = wd_message_user_ban_user"
| "wd_run_handler other H_user_get_users = wd_message_user_get_users"
| "wd_run_handler other H_chat_join_chat = wd_message_chat_join_chat"
| "wd_run_handler other H_chat_leave_chat = wd_message_chat_leave_chat"
| "wd_run_handler other H_chat_set_topic = wd_message_chat_set_topic"
| "wd_run_handler other H_chat_send_say_or_me = wd_message_chat_send_say_or_me"
| "wd_run_handler other H_chat_create_chat = wd_message_chat_create_chat"
| "wd_run_handler other H_chat_invite_user = wd_message_chat_invite_user"
| "wd_run_handler other H_chat_decline_invitation = wd_message_chat_decline_invitation"
| "wd_run_handler other H_chat_kick_user = wd_message_chat_kick_user"
| "wd_run_handler other H_message_send_message = wd_message_message_send_message"
| "wd_run_handler other H_message_send_offline_message = wd_message_message_send_offline_message"
| "wd_run_handler other H_message_set_offline_public_key = wd_message_message_set_offline_public_key"
| "wd_run_handler other H_message_send_broadcast = wd_message_message_send_broadcast"
| "wd_run_handler other H_board_get_boards = wd_message_board_get_boards"
| "wd_run_handler other H_board_get_threads = wd_message_board_get_threads"
| "wd_run_handler other H_board_get_thread = wd_message_board_get_thread"
| "wd_run_handler other H_board_add_board = wd_message_board_add_board"
| "wd_run_handler other H_board_rename_board = wd_message_board_rename_board"
| "wd_run_handler other H_board_move_board = wd_message_board_move_board"
| "wd_run_handler other H_board_delete_board = wd_message_board_delete_board"
| "wd_run_handler other H_board_get_board_info = wd_message_board_get_board_info"
| "wd_run_handler other H_board_set_board_info = wd_message_board_set_board_info"
| "wd_run_handler other H_board_add_thread = wd_message_board_add_thread"
| "wd_run_handler other H_board_edit_thread = wd_message_board_edit_thread"
| "wd_run_handler other H_board_move_thread = wd_message_board_move_thread"
| "wd_run_handler other H_board_delete_thread = wd_message_board_delete_thread"
| "wd_run_handler other H_board_add_post = wd_message_board_add_post"
| "wd_run_handler other H_board_edit_post = wd_message_board_edit_post"
| "wd_run_handler other H_board_delete_post = wd_message_board_delete_post"
| "wd_run_handler other H_board_subscribe_boards = wd_message_board_subscribe_boards"
| "wd_run_handler other H_board_unsubscribe_boards = wd_message_board_unsubscribe_boards"
| "wd_run_handler other H_account_subscribe_accounts = wd_message_account_subscribe_accounts"
| "wd_run_handler other H_account_unsubscribe_accounts = wd_message_account_unsubscribe_accounts"
| "wd_run_handler other H_log_subscribe = wd_message_log_subscribe"
| "wd_run_handler other H_log_unsubscribe = wd_message_log_unsubscribe"
| "wd_run_handler other H_event_get_first_time = wd_message_event_get_first_time"
| "wd_run_handler other H_event_get_events = wd_message_event_get_events"
| "wd_run_handler other H_event_delete_events = wd_message_event_delete_events"
| "wd_run_handler other H_event_subscribe = wd_message_event_subscribe"
| "wd_run_handler other H_event_unsubscribe = wd_message_event_unsubscribe"
| "wd_run_handler other H_banlist_get_bans = wd_message_banlist_get_bans"
| "wd_run_handler other H_banlist_add_ban = wd_message_banlist_add_ban"
| "wd_run_handler other H_banlist_delete_ban = wd_message_banlist_delete_ban"
| "wd_run_handler other (H_other name) = other name"

text \<open>The stages of a session are compared as numbers.\<close>

fun wd_user_state_number :: "wd_user_state \<Rightarrow> nat" where
  "wd_user_state_number WD_USER_CONNECTED = 0"
| "wd_user_state_number WD_USER_GAVE_CLIENT_INFO = 1"
| "wd_user_state_number WD_USER_SAID_HELLO = 2"
| "wd_user_state_number WD_USER_GAVE_USER = 3"
| "wd_user_state_number WD_USER_LOGGED_IN = 4"
| "wd_user_state_number WD_USER_DISCONNECTED = 5"

lemma wd_user_state_number_inj: "wd_user_state_number a = wd_user_state_number b \<longleftrightarrow> a = b"
  by (cases a; cases b) simp_all

instantiation wd_user_state :: linorder
begin

definition less_eq_wd_user_state :: "wd_user_state \<Rightarrow> wd_user_state \<Rightarrow> bool" where
  "less_eq_wd_user_state a b \<longleftrightarrow> wd_user_state_number a \<le> wd_user_state_number b"

definition less_wd_user_state :: "wd_user_state \<Rightarrow> wd_user_state \<Rightarrow> bool" where
  "less_wd_user_state a b \<longleftrightarrow> wd_user_state_number a < wd_user_state_number b"

instance
  by standard (auto simp: less_eq_wd_user_state_def less_wd_user_state_def wd_user_state_number_inj)

end

definition wd_messages_handle_message ::
  "(string \<Rightarrow> 32 word \<Rightarrow> p7_message \<Rightarrow> wd_server \<Rightarrow> wd_server wd_result) \<Rightarrow>
    32 word \<Rightarrow> p7_message \<Rightarrow> wd_server \<Rightarrow> wd_server wd_result" where
  "wd_messages_handle_message other uid m sv =
     (case map_of wd_message_handlers (m_name m) of
        None \<Rightarrow> wd_reply_error uid ''wired.error.unrecognized_message'' m sv
      | Some handler \<Rightarrow>
          let user_state = u_state (wd_user sv uid)
          in if user_state = WD_USER_CONNECTED \<and> handler \<noteq> H_client_info
             then wd_reply_error uid ''wired.error.message_out_of_sequence'' m sv
             else if user_state = WD_USER_GAVE_CLIENT_INFO \<and>
                     handler \<notin> {H_send_ping, H_send_login, H_user_set_nick, H_user_set_status, H_user_set_icon}
             then wd_reply_error uid ''wired.error.message_out_of_sequence'' m sv
             else
               wd_bind (wd_run_handler other handler uid m sv) (\<lambda>sv.
                 if handler \<notin> {H_send_ping, H_ping, H_user_set_idle, H_user_get_users} then
                   let sv = wd_set_user (\<lambda>u. u\<lparr>u_idle_time := sv_now sv\<rparr>) uid sv
                   in if u_idle (wd_user sv uid)
                      then Inr (wd_user_broadcast_status uid (wd_set_user (\<lambda>u. u\<lparr>u_idle := False\<rparr>) uid sv))
                      else Inr sv
                 else Inr sv))"

subsection \<open>The end of the loop\<close>

definition wd_messages_loop_end :: "32 word \<Rightarrow> wd_server \<Rightarrow> wd_server wd_result" where
  "wd_messages_loop_end uid sv =
     (let sv = (if u_state (wd_user sv uid) \<ge> WD_USER_LOGGED_IN
                then wd_messages_save_user_profile uid (sv\<lparr>sv_current_users := sv_current_users sv - 1\<rparr>)
                else sv);
          sv = wd_user_set_state WD_USER_DISCONNECTED uid sv;
          sv = (case wd_chats_chat_with_id sv WD_PUBLIC_CHAT_ID of
                  Some c \<Rightarrow> if wd_chat_contains_user c uid then wd_chat_broadcast_user_leave c uid sv else sv
                | None \<Rightarrow> sv)
      in wd_bind (if u_joined_public_chat (wd_user sv uid)
                  then wd_events_add_event ''wired.event.user.logged_out'' uid [] sv else Inr sv)
           (\<lambda>sv. Inr (wd_users_remove_user uid sv)))"

text \<open>A connection that was accepted (\<open>wd_server_accept_thread\<close>).\<close>

definition wd_server_accept :: "string \<Rightarrow> string \<Rightarrow> (string \<times> 32 word) option \<Rightarrow> wd_server \<Rightarrow> wd_server" where
  "wd_server_accept ip host cipher sv =
     (let (u, sv) = wd_user_init_with_socket ip host cipher sv in wd_users_add_user u sv)"

end
