(* ===== verification/Wd_System.thy ===== *)
theory Wd_System
  imports Wd_Messages
begin

text \<open>
  The server as a transition system: users connect, send messages and go, the idle timer
  runs, and the environment moves the clock and changes which sockets accept messages and
  whether the database works. The invariant of Wd_Session is kept along every run, and only a
  login that is accepted logs a user in.
\<close>

subsection \<open>Transition systems\<close>

text \<open>
  An invariant that the modelled steps keep holds in every state of a run, and a property
  of states that a step cannot bring about was there at the start.
\<close>

locale transition_system =
  fixes step :: "'s \<Rightarrow> 'o \<Rightarrow> 's \<Rightarrow> bool" and run :: "'s \<Rightarrow> 'o list \<Rightarrow> 's \<Rightarrow> bool"
    and inv :: "'s \<Rightarrow> bool" and modelled :: "'o \<Rightarrow> bool"
  assumes run_Nil: "run s [] s' \<longleftrightarrow> s' = s"
    and run_Cons: "run s (x # xs) s'' \<longleftrightarrow> (\<exists>s'. step s x s' \<and> run s' xs s'')"
    and step_keeps: "inv s \<Longrightarrow> modelled x \<Longrightarrow> step s x s' \<Longrightarrow> inv s'"
begin

lemma run_keeps: "run s xs s' \<Longrightarrow> inv s \<Longrightarrow> \<forall>x \<in> set xs. modelled x \<Longrightarrow> inv s'"
  by (induction xs arbitrary: s) (auto simp: run_Nil run_Cons intro: step_keeps)

lemma run_append: "run s (xs @ ys) s'' \<longleftrightarrow> (\<exists>s'. run s xs s' \<and> run s' ys s'')"
  by (induction xs arbitrary: s) (auto simp: run_Nil run_Cons)

lemma run_changes:
  assumes "run s xs s'" and "inv s" and "\<forall>x \<in> set xs. modelled x" and "\<not> P s" and "P s'"
  shows "\<exists>ys x zs t t'. xs = ys @ x # zs \<and> run s ys t \<and> step t x t' \<and> run t' zs s' \<and> inv t \<and> \<not> P t \<and> P t'"
  using assms
proof (induction xs arbitrary: s)
  case (Cons x xs)
  then obtain t where t: "step s x t" "run t xs s'" by (auto simp: run_Cons)
  show ?case
  proof (cases "P t")
    case True
    with Cons.prems t have "x # xs = [] @ x # xs \<and> run s [] s \<and> step s x t \<and> run t xs s' \<and> inv s \<and> \<not> P s \<and> P t"
      by (simp add: run_Nil)
    then show ?thesis by blast
  next
    case False
    have "inv t" using step_keeps [OF Cons.prems(2) _ t(1)] Cons.prems(3) by simp
    with Cons.IH [OF t(2)] False Cons.prems obtain ys z zs u u'
      where "xs = ys @ z # zs" "run t ys u" "step u z u'" "run u' zs s'" "inv u" "\<not> P u" "P u'" by auto
    then have "x # xs = (x # ys) @ z # zs \<and> run s (x # ys) u \<and> step u z u' \<and> run u' zs s' \<and> inv u \<and> \<not> P u \<and> P u'"
      using t(1) by (auto simp: run_Cons)
    then show ?thesis by blast
  qed
qed (simp add: run_Nil)

end

subsection \<open>The server as a transition system\<close>

datatype wd_operation =
    Connect string string "(string \<times> 32 word) option"
  | Receive "32 word" p7_message
  | Receive_Invalid "32 word" p7_message
  | Hang_Up "32 word"
  | Idle_Timer
  | Environment int "32 word \<Rightarrow> bool" bool bool

text \<open>
  A message that the specification of the protocol accepts is received from a connected
  user, or one that it does not. A user that was disconnected may still be inside the call
  that reads its next message, so \<open>Receive\<close> does not ask for the state; the loop of a
  connection reads one such message, the relation here allows any number.
\<close>

inductive wd_step ::
  "(string \<Rightarrow> 32 word \<Rightarrow> p7_message \<Rightarrow> wd_server \<Rightarrow> wd_server wd_result) \<Rightarrow>
    wd_server \<Rightarrow> wd_operation \<Rightarrow> wd_server wd_result \<Rightarrow> bool" for other where
  connect: "wd_step other sv (Connect ip host cipher) (Inr (wd_server_accept ip host cipher sv))"
| receive: "wd_step other sv (Receive uid m) (wd_messages_handle_message other uid m sv)"
    if "wd_users_user_with_id sv uid \<noteq> None"
| receive_invalid: "wd_step other sv (Receive_Invalid uid m) (wd_reply_error uid ''wired.error.invalid_message'' m sv)"
    if "wd_users_user_with_id sv uid \<noteq> None"
| hang_up: "wd_step other sv (Hang_Up uid) (wd_messages_loop_end uid sv)"
    if "wd_users_user_with_id sv uid \<noteq> None"
| idle: "wd_step other sv Idle_Timer (Inr (wd_users_update_idle sv))"
| environment: "wd_step other sv (Environment now writable db null)
    (Inr (sv\<lparr>sv_now := now, sv_writable := writable, sv_db_ok := db, sv_uninitialised_null := null\<rparr>))"

inductive wd_run ::
  "(string \<Rightarrow> 32 word \<Rightarrow> p7_message \<Rightarrow> wd_server \<Rightarrow> wd_server wd_result) \<Rightarrow>
    wd_server \<Rightarrow> wd_operation list \<Rightarrow> wd_server \<Rightarrow> bool" for other where
  done_run: "wd_run other sv [] sv"
| step_run: "wd_run other sv (x # xs) sv''"
    if "wd_step other sv x (Inr sv')" and "wd_run other sv' xs sv''"

inductive_cases wd_step_receiveE: "wd_step other sv (Receive uid m) r"
inductive_cases wd_step_hang_upE: "wd_step other sv (Hang_Up uid) r"
inductive_simps wd_run_Nil: "wd_run other sv [] sv'"
inductive_simps wd_run_Cons: "wd_run other sv (x # xs) sv'"

text \<open>The message does not go to a handler that is not modelled.\<close>

definition wd_message_modelled :: "p7_message \<Rightarrow> bool" where
  "wd_message_modelled m \<longleftrightarrow> (\<forall>name. map_of wd_message_handlers (m_name m) \<noteq> Some (H_other name))"

text \<open>
  The strings and identifiers that the handlers read as such and that the definition of the
  message in run/wired.xml requires, and the messages that have them. The numbers and truth
  values need not be there, nor the login and the password of a login or the fields of the
  messages on accounts.
\<close>

definition wd_message_strings :: "(string \<times> string list) list" where
  "wd_message_strings =
    [(''wired.client_info'', [''wired.info.application.name'', ''wired.info.application.version'', ''wired.info.application.build'', ''wired.info.os.name'', ''wired.info.os.version'', ''wired.info.arch'']),
     (''wired.user.set_nick'', [''wired.user.nick'']),
     (''wired.user.set_status'', [''wired.user.status'']),
     (''wired.user.disconnect_user'', [''wired.user.disconnect_message'']),
     (''wired.user.ban_user'', [''wired.user.disconnect_message'']),
     (''wired.chat.kick_user'', [''wired.user.disconnect_message'']),
     (''wired.chat.set_topic'', [''wired.chat.topic.topic'']),
     (''wired.chat.send_say'', [''wired.chat.say'']),
     (''wired.chat.send_me'', [''wired.chat.me'']),
     (''wired.message.send_message'', [''wired.message.message'']),
     (''wired.message.send_offline_message'', [''wired.message.message'']),
     (''wired.message.send_broadcast'', [''wired.message.broadcast'']),
     (''wired.board.add_board'', [''wired.board.board'', ''wired.board.owner'', ''wired.board.group'']),
     (''wired.board.set_board_info'', [''wired.board.board'', ''wired.board.owner'', ''wired.board.group'']),
     (''wired.board.rename_board'', [''wired.board.board'', ''wired.board.new_board'']),
     (''wired.board.move_board'', [''wired.board.board'', ''wired.board.new_board'']),
     (''wired.board.delete_board'', [''wired.board.board'']),
     (''wired.board.get_board_info'', [''wired.board.board'']),
     (''wired.board.add_thread'', [''wired.board.board'', ''wired.board.subject'', ''wired.board.text'']),
     (''wired.board.edit_thread'', [''wired.board.subject'', ''wired.board.text'']),
     (''wired.board.move_thread'', [''wired.board.new_board'']),
     (''wired.board.add_post'', [''wired.board.subject'', ''wired.board.text'']),
     (''wired.board.edit_post'', [''wired.board.subject'', ''wired.board.text'']),
     (''wired.banlist.add_ban'', [''wired.banlist.ip'']),
     (''wired.banlist.delete_ban'', [''wired.banlist.ip''])]"

definition wd_message_identifiers :: "(string \<times> string list) list" where
  "wd_message_identifiers =
    [(''wired.board.get_thread'', [''wired.board.thread'']),
     (''wired.board.edit_thread'', [''wired.board.thread'']),
     (''wired.board.move_thread'', [''wired.board.thread'']),
     (''wired.board.delete_thread'', [''wired.board.thread'']),
     (''wired.board.add_post'', [''wired.board.thread'']),
     (''wired.board.edit_post'', [''wired.board.post'']),
     (''wired.board.delete_post'', [''wired.board.post''])]"

definition wd_message_complete :: "p7_message \<Rightarrow> bool" where
  "wd_message_complete m \<longleftrightarrow>
     (case map_of wd_message_strings (m_name m) of
        Some fs \<Rightarrow> list_all (\<lambda>f. p7_string m f \<noteq> None) fs | None \<Rightarrow> True) \<and>
     (case map_of wd_message_identifiers (m_name m) of
        Some fs \<Rightarrow> list_all (\<lambda>f. case p7_field m f of Some (P7_UUID _) \<Rightarrow> True | _ \<Rightarrow> False) fs | None \<Rightarrow> True)"

fun wd_operation_modelled :: "wd_operation \<Rightarrow> bool" where
  "wd_operation_modelled (Receive uid m) = wd_message_modelled m"
| "wd_operation_modelled _ = True"

subsection \<open>Crashes\<close>

text \<open>
  What can crash the server when a user's message is handled. The free handlers do not ask
  for a privilege, for which the account of the user is needed.
\<close>

definition wd_free_handlers :: "wd_handler list" where
  "wd_free_handlers =
     [H_client_info, H_send_ping, H_ping, H_send_login, H_user_set_icon, H_user_set_nick, H_user_set_status,
      H_user_set_idle, H_chat_join_chat, H_chat_leave_chat, H_chat_send_say_or_me, H_chat_invite_user,
      H_chat_decline_invitation, H_event_delete_events]"

text \<open>
  On boards: a thread or a post that is not there, a thread whose board is not there, an
  author without an icon, a database that fails, a name that starts with a tilde, and the
  moving of a board.
\<close>

definition wd_board_hazards :: "wd_server \<Rightarrow> p7_message \<Rightarrow> wd_handler \<Rightarrow> wd_crash set" where
  "wd_board_hazards sv m h =
     (let thread = p7_uuid_arg m ''wired.board.thread''; post = p7_uuid_arg m ''wired.board.post''
      in (if h = H_board_get_threads \<and> p7_string m ''wired.board.board'' = None \<and>
             (\<exists>t \<in> set (sv_threads sv). wd_boards_board sv (th_board t) = None) then {Null_Column} else {}) \<union>
         (if h = H_board_get_thread \<and>
             (wd_thread_orphan sv thread \<or> wd_thread_iconless sv thread \<or> wd_reply_iconless sv thread) then {Null_Column} else {}) \<union>
         (if h = H_board_rename_board \<and>
             (wi_string_has_prefix (p7_string_arg m ''wired.board.board'') ''~'' \<or>
              wi_string_has_prefix (p7_string_arg m ''wired.board.new_board'') ''~'') then {Not_Normalized} else {}) \<union>
         (if h = H_board_move_board then {Endless_Loop, Statement_Alive, Missing_Row} else {}) \<union>
         (if h = H_board_edit_thread \<and> wd_boards_thread sv thread = None then {Missing_Row} else {}) \<union>
         (if h \<in> {H_board_edit_thread, H_board_delete_thread} \<and> wd_thread_orphan sv thread then {Null_Column} else {}) \<union>
         (if h \<in> {H_board_move_thread, H_board_add_post} \<and> wd_thread_orphan sv thread then {Missing_Row} else {}) \<union>
         (if h = H_board_move_thread \<and> wd_thread_iconless sv thread then {Null_Column} else {}) \<union>
         (if h \<in> {H_board_edit_post, H_board_delete_post} \<and> wd_boards_post sv post = None then {Missing_Row} else {}) \<union>
         (if h \<in> {H_board_edit_post, H_board_delete_post} \<and> wd_post_orphan sv post then {Null_Column} else {}) \<union>
         (if h \<in> {H_board_edit_thread, H_board_edit_post, H_board_delete_post} \<and> \<not> sv_db_ok sv then {Null_Privileges} else {}))"

text \<open>The address of the user is banned, and the date of expiry was not written.\<close>

definition wd_banned_undated :: "wd_server \<Rightarrow> 32 word \<Rightarrow> bool" where
  "wd_banned_undated sv uid \<longleftrightarrow>
     fst (wd_banlist_ip_is_banned (u_ip (wd_user sv uid)) sv) \<and>
     fst (snd (wd_banlist_ip_is_banned (u_ip (wd_user sv uid)) sv)) = None"

definition wd_hazards :: "wd_server \<Rightarrow> 32 word \<Rightarrow> p7_message \<Rightarrow> wd_handler \<Rightarrow> wd_crash set" where
  "wd_hazards sv uid m h =
     (let peer = wd_users_user_with_id sv (p7_uint32_arg sv m ''wired.user.id'')
      in (if u_account (wd_user sv uid) = None \<and> h \<notin> set wd_free_handlers then {Null_Account} else {}) \<union>
         (if u_client_info (wd_user sv uid) = None \<and> h \<in> {H_send_login, H_chat_join_chat} then {Null_Client_Info} else {}) \<union>
         (if h = H_user_get_info \<and> (\<exists>p. peer = Some p \<and> u_client_info p = None) then {Null_Client_Info} else {}) \<union>
         (if h \<in> {H_user_disconnect_user, H_user_ban_user} \<and> (\<exists>p. peer = Some p \<and> u_account p = None)
          then {Null_Account} else {}) \<union>
         (if h = H_send_login \<and> \<not> sv_uninitialised_null sv \<and> wd_banned_undated sv uid then {Uninitialised_Date} else {}) \<union>
         wd_board_hazards sv m h)"

lemma wd_hazards:
  "h \<notin> set wd_free_handlers \<Longrightarrow> u_account (wd_user sv uid) = None \<Longrightarrow> Null_Account \<in> wd_hazards sv uid m h"
  "h \<in> {H_send_login, H_chat_join_chat} \<Longrightarrow> u_client_info (wd_user sv uid) = None \<Longrightarrow> Null_Client_Info \<in> wd_hazards sv uid m h"
  "wd_users_user_with_id sv (p7_uint32_arg sv m ''wired.user.id'') = Some p \<Longrightarrow> u_client_info p = None \<Longrightarrow>
     Null_Client_Info \<in> wd_hazards sv uid m H_user_get_info"
  "wd_users_user_with_id sv (p7_uint32_arg sv m ''wired.user.id'') = Some p \<Longrightarrow> u_account p = None \<Longrightarrow>
     Null_Account \<in> wd_hazards sv uid m H_user_disconnect_user"
  "wd_users_user_with_id sv (p7_uint32_arg sv m ''wired.user.id'') = Some p \<Longrightarrow> u_account p = None \<Longrightarrow>
     Null_Account \<in> wd_hazards sv uid m H_user_ban_user"
  "\<not> sv_uninitialised_null sv \<Longrightarrow> fst (wd_banlist_ip_is_banned (u_ip (wd_user sv uid)) sv) \<Longrightarrow>
     fst (snd (wd_banlist_ip_is_banned (u_ip (wd_user sv uid)) sv)) = None \<Longrightarrow>
     Uninitialised_Date \<in> wd_hazards sv uid m H_send_login"
  by (auto simp: wd_hazards_def wd_banned_undated_def Let_def)

lemma wd_hazards_boards: "e \<in> wd_board_hazards sv m h \<Longrightarrow> e \<in> wd_hazards sv uid m h"
  by (auto simp: wd_hazards_def Let_def)

definition wd_board_handlers :: "wd_handler list" where
  "wd_board_handlers =
     [H_board_get_boards, H_board_get_threads, H_board_get_thread, H_board_add_board, H_board_rename_board,
      H_board_move_board, H_board_delete_board, H_board_get_board_info, H_board_set_board_info, H_board_add_thread,
      H_board_edit_thread, H_board_move_thread, H_board_delete_thread, H_board_add_post, H_board_edit_post, H_board_delete_post]"

lemma wd_board_handlers_safe:
  assumes "wd_good L s sv" and "acting s uid C" and "\<And>e. e \<in> wd_board_hazards sv m h \<Longrightarrow> e \<in> C"
    and "h \<in> set wd_board_handlers"
  shows "wd_safe L s C (wd_run_handler other h uid m sv)"
proof -
  note b = assms(3) [unfolded wd_board_hazards_def Let_def]
  have d: "h \<in> {H_board_edit_thread, H_board_edit_post, H_board_delete_post} \<Longrightarrow> \<not> sv_db_ok sv \<Longrightarrow> Null_Privileges \<in> C"
    by (rule b) auto
  have t: "Null_Column \<in> C" if "h = H_board_get_threads" "p7_string m ''wired.board.board'' = None" "t \<in> set (sv_threads sv)"
    "wd_boards_board sv (th_board t) = None" for t
    by (rule b) (use that in auto)
  show ?thesis
    using assms(4) b d t unfolding wd_board_handlers_def list.set
    by (elim insertE emptyE; simp only: wd_run_handler.simps)
      (auto intro!: wd_safe_board_plain wd_safe_board_get_threads wd_safe_board_get_thread [OF _ _ refl]
        wd_safe_board_rename_board wd_safe_board_move_board wd_safe_board_edit_thread [OF _ _ _ refl]
        wd_safe_board_move_thread [OF _ _ refl] wd_safe_board_delete_thread [OF _ _ refl] wd_safe_board_add_post [OF _ _ refl]
        wd_safe_board_change_post [OF _ _ _ refl] assms(1,2))
qed

text \<open>Who may be logged in after a message: the sender of a login that was accepted.\<close>

definition wd_logins :: "wd_server \<Rightarrow> 32 word \<Rightarrow> p7_message \<Rightarrow> wd_handler \<Rightarrow> (32 word \<times> wd_account option) set" where
  "wd_logins sv uid m h = {(uid, Some account) | account. h = H_send_login \<and> wd_login_accepted sv uid m account}"

lemma wd_run_handler_safe:
  assumes "wd_inv sv" and "wd_users_user_with_id sv uid \<noteq> None" and "\<forall>name. h \<noteq> H_other name"
  shows "wd_safe (wd_logins sv uid m h) sv (wd_hazards sv uid m h) (wd_run_handler other h uid m sv)"
proof -
  note g = wd_good_refl [OF assms(1)]
  have l: "wd_login_accepted sv uid m account \<Longrightarrow> (uid, Some account) \<in> wd_logins sv uid m H_send_login" for account
    by (simp add: wd_logins_def)
  show ?thesis
  proof (cases "h \<in> set wd_board_handlers")
    case True
    then have "acting sv uid (wd_hazards sv uid m h)"
      using assms(2) wd_hazards(1) by (auto simp: acting_def wd_board_handlers_def wd_free_handlers_def)
    then show ?thesis by (rule wd_board_handlers_safe [OF g _ wd_hazards_boards True])
  next
    case plain: False
    show ?thesis
    proof (cases "h \<in> set wd_free_handlers")
      case True
      note safe = wd_safe_send_login [OF assms(1,2) wd_hazards(2) wd_hazards(6) l]
        wd_safe_chat_join_chat [OF assms(1,2) wd_hazards(2)] wd_safe_client_info [OF g] wd_safe_simple_handlers [OF g]
        wd_safe_user_set_nick [OF g] wd_safe_chat_handlers [OF g]
      show ?thesis using True by (auto simp: wd_free_handlers_def safe)
    next
      case False
      note a = wd_hazards(1)
      note safe = wd_safe_user_get_users [OF g a] wd_safe_user_get_info [OF g a wd_hazards(3)]
        wd_safe_disconnect_handlers(1) [OF g a wd_hazards(4)] wd_safe_disconnect_handlers(2) [OF g a wd_hazards(5)]
        wd_safe_chat_privileged [OF g a] wd_safe_message_handlers [OF g a] wd_safe_subscriptions [OF g a]
        wd_safe_set_offline_public_key [OF g a] wd_safe_send_offline_message [OF g a]
      show ?thesis using False plain assms(3) by (cases h) (simp_all add: wd_free_handlers_def wd_board_handlers_def safe)
    qed
  qed
qed

text \<open>The handler a message goes to, when the stage of the session allows it.\<close>

definition wd_admitted :: "wd_user_state \<Rightarrow> wd_handler \<Rightarrow> bool" where
  "wd_admitted st h \<longleftrightarrow>
     (st = WD_USER_CONNECTED \<longrightarrow> h = H_client_info) \<and>
     (st = WD_USER_GAVE_CLIENT_INFO \<longrightarrow>
        h \<in> {H_send_ping, H_send_login, H_user_set_nick, H_user_set_status, H_user_set_icon})"

lemma wd_messages_handle_message_safe:
  assumes "wd_inv sv" and "wd_users_user_with_id sv uid \<noteq> None" and "wd_message_modelled m"
    and "map_of wd_message_handlers (m_name m) = Some h"
  shows "wd_safe (if wd_admitted (u_state (wd_user sv uid)) h then wd_logins sv uid m h else {}) sv
    (if wd_admitted (u_state (wd_user sv uid)) h then wd_hazards sv uid m h else {})
    (wd_messages_handle_message other uid m sv)"
proof (cases "wd_admitted (u_state (wd_user sv uid)) h")
  case False
  then show ?thesis
    using wd_safe_error [OF wd_good_refl [OF assms(1)]]
    by (auto simp: wd_messages_handle_message_def assms(4) wd_admitted_def Let_def)
next
  case True
  have "\<forall>name. h \<noteq> H_other name" using assms(3,4) by (auto simp: wd_message_modelled_def)
  note safe = wd_run_handler_safe [OF assms(1,2) this, of m other]
  have "wd_messages_handle_message other uid m sv = wd_bind (wd_run_handler other h uid m sv) (\<lambda>sv.
                 if h \<notin> {H_send_ping, H_ping, H_user_set_idle, H_user_get_users} then
                   let sv = wd_set_user (\<lambda>u. u\<lparr>u_idle_time := sv_now sv\<rparr>) uid sv
                   in if u_idle (wd_user sv uid)
                      then Inr (wd_user_broadcast_status uid (wd_set_user (\<lambda>u. u\<lparr>u_idle := False\<rparr>) uid sv))
                      else Inr sv
                 else Inr sv)"
    unfolding wd_messages_handle_message_def assms(4) option.case Let_def
    using True by (subst if_not_P, simp add: wd_admitted_def, subst if_not_P) (auto simp: wd_admitted_def)
  then show ?thesis
    using True by (simp only: if_True) (unfold Let_def, (assumption | rule safe wd_keep session_steps)+)
qed

lemma wd_reply_error_good: "wd_inv sv \<Longrightarrow> wd_reply_error uid err m sv = Inr sv' \<Longrightarrow> wd_good {} sv sv'"
  using wd_safe_error [OF wd_good_refl, of sv "{}" "{}" uid err m] by (simp add: wd_safe_def)

lemma wd_inv_handle_message:
  assumes "wd_inv sv" and "wd_users_user_with_id sv uid \<noteq> None" and "wd_message_modelled m"
    and "wd_messages_handle_message other uid m sv = Inr sv'"
  shows "wd_inv sv'"
proof (cases "map_of wd_message_handlers (m_name m)")
  case None
  then show ?thesis
    using assms(4) wd_reply_error_good [OF assms(1)] by (auto simp: wd_messages_handle_message_def wd_good_def)
next
  case (Some h)
  from wd_messages_handle_message_safe [OF assms(1-3) this, of other] assms(4) show ?thesis
    by (simp add: wd_safe_def wd_good_def)
qed

lemma wd_inv_remove_user:
  assumes "wd_inv sv"
  shows "wd_inv (wd_users_remove_user uid sv)"
proof -
  note ok = wd_invD [OF assms]
  have c: "tables_ok (wd_chats_remove_user uid sv) = tables_ok sv"
    unfolding wd_chats_remove_user_def by (rule fold_invariant [where Q = "\<lambda>_. True" and P = "\<lambda>s. tables_ok s = tables_ok sv"])
      (simp_all add: wd_chats_remove_user_from_rest)
  have "tables_ok (wd_users_remove_user uid sv) = tables_ok (wd_chats_remove_user uid sv)"
    by (rule tables_ok_cong) (auto simp: wd_users_remove_user_def Let_def wd_set_user_def split: option.split)
  with c have "tables_ok (wd_users_remove_user uid sv) = tables_ok sv" by simp
  then show ?thesis
    using wd_users_remove_user_lookup(1,3) [OF ok(1), of uid] ok(2,3) by (auto simp: wd_inv_def split: if_splits)
qed

lemma wd_messages_loop_end_safe:
  assumes "wd_inv sv"
  shows "\<exists>r. wd_safe {} sv {} r \<and> wd_messages_loop_end uid sv = wd_bind r (\<lambda>s. Inr (wd_users_remove_user uid s))"
proof -
  have c: "wd_good {} sv (sv\<lparr>sv_current_users := n\<rparr>)" for n
    by (rule wd_good_tables [OF wd_good_refl [OF assms]]) (simp_all add: tables_ok_def)
  define sv1 where "sv1 = (if u_state (wd_user sv uid) \<ge> WD_USER_LOGGED_IN
                then wd_messages_save_user_profile uid (sv\<lparr>sv_current_users := sv_current_users sv - 1\<rparr>)
                else sv)"
  define sv2 where "sv2 = wd_user_set_state WD_USER_DISCONNECTED uid sv1"
  define sv3 where "sv3 = (case wd_chats_chat_with_id sv2 WD_PUBLIC_CHAT_ID of
                  Some c \<Rightarrow> if wd_chat_contains_user c uid then wd_chat_broadcast_user_leave c uid sv2 else sv2
                | None \<Rightarrow> sv2)"
  have g1: "wd_good {} sv sv1" unfolding sv1_def by (assumption | rule wd_keep c wd_good_refl assms)+
  have g2: "wd_good {} sv sv2" unfolding sv2_def wd_user_set_state_def by (assumption | rule g1 wd_keep session_steps)+
  have g3: "wd_good {} sv sv3" unfolding sv3_def by (assumption | rule g2 wd_keep)+
  have "wd_safe {} sv {} (if u_joined_public_chat (wd_user sv3 uid)
                  then wd_events_add_event ''wired.event.user.logged_out'' uid [] sv3 else Inr sv3)"
    by (assumption | rule g3 wd_keep)+
  moreover have "wd_messages_loop_end uid sv = wd_bind (if u_joined_public_chat (wd_user sv3 uid)
                  then wd_events_add_event ''wired.event.user.logged_out'' uid [] sv3 else Inr sv3)
           (\<lambda>sv. Inr (wd_users_remove_user uid sv))"
    by (simp only: wd_messages_loop_end_def Let_def sv1_def sv2_def sv3_def)
  ultimately show ?thesis by blast
qed

lemma wd_messages_loop_end_good:
  assumes "wd_inv sv" and "wd_messages_loop_end uid sv = Inr sv'"
  shows "\<exists>s. wd_good {} sv s \<and> sv' = wd_users_remove_user uid s"
proof -
  obtain r where r: "wd_safe {} sv {} r" "wd_messages_loop_end uid sv = wd_bind r (\<lambda>s. Inr (wd_users_remove_user uid s))"
    using wd_messages_loop_end_safe [OF assms(1)] by blast
  with assms(2) show ?thesis by (cases r) (auto simp: wd_safe_def)
qed

lemma wd_messages_loop_end_returns:
  assumes "wd_inv sv" and "sv_db_ok sv"
  shows "\<exists>sv'. wd_messages_loop_end uid sv = Inr sv'"
proof -
  obtain r where r: "wd_safe {} sv {} r" "wd_messages_loop_end uid sv = wd_bind r (\<lambda>s. Inr (wd_users_remove_user uid s))"
    using wd_messages_loop_end_safe [OF assms(1)] by blast
  with assms(2) show ?thesis by (cases r) (auto simp: wd_safe_def)
qed

lemma wd_inv_loop_end: "wd_inv sv \<Longrightarrow> wd_messages_loop_end uid sv = Inr sv' \<Longrightarrow> wd_inv sv'"
  by (auto dest!: wd_messages_loop_end_good simp: wd_good_def wd_inv_remove_user)

lemma wd_inv_accept:
  assumes "wd_inv sv"
  shows "wd_inv (wd_server_accept ip host cipher sv)"
proof -
  define u where "u = fst (wd_user_init_with_socket ip host cipher sv)"
  define sv1 where "sv1 = snd (wd_user_init_with_socket ip host cipher sv)"
  note ok = wd_invD [OF assms]
  obtain n where sv1: "sv1 = sv\<lparr>sv_users_current_id := n\<rparr>"
    by (simp add: sv1_def wd_user_init_with_socket_def wd_user_next_id_def Let_def)
  then have f: "sv_chats sv1 = sv_chats sv" "sv_users sv1 = sv_users sv" "sv_page sv1 = sv_page sv" "tables_ok sv1"
    using ok(2) by (simp_all add: tables_ok_def)
  have inv: "wd_inv sv1" by (rule wd_inv_cong [OF assms f])
  have u: "user_ok (u_id u) u" unfolding u_def by (rule wd_user_init_ok) (rule server_okD(5) [OF ok(1)])
  then have "session_ok (u_id u) u"
    by (simp add: session_ok_def) (simp add: u_def wd_user_init_with_socket_def wd_user_next_id_def Let_def)
  moreover have "tables_ok (wd_users_add_user u sv1)"
    using f(4) by (simp add: wd_users_add_user_def tables_ok_def)
  ultimately have "wd_inv (wd_users_add_user u sv1)"
    using server_ok_add_user [OF wd_invD(1) [OF inv] u] wd_invD(3) [OF inv] by (auto simp: wd_inv_def split: if_splits)
  then show ?thesis by (simp add: wd_server_accept_def u_def sv1_def case_prod_beta)
qed

lemma wd_users_update_idle_good:
  assumes "wd_inv sv"
  shows "wd_good {} sv (wd_users_update_idle sv)"
  unfolding wd_users_update_idle_def wd_users_update_idle_user_def Let_def
  by (assumption | rule wd_keep session_steps wd_good_refl assms)+

lemma wd_inv_idle: "wd_inv sv \<Longrightarrow> wd_inv (wd_users_update_idle sv)"
  using wd_users_update_idle_good [of sv] by (simp add: wd_good_def)

lemma wd_inv_step:
  assumes "wd_inv sv" and "wd_operation_modelled x" and "wd_step other sv x (Inr sv')"
  shows "wd_inv sv'"
  using assms(3)
proof cases
  case (receive uid m)
  with assms(1,2) show ?thesis by (auto intro: wd_inv_handle_message)
next
  case (receive_invalid uid m)
  with wd_reply_error_good [OF assms(1)] show ?thesis by (auto simp: wd_good_def)
next
  case (environment now writable db null)
  have "tables_ok sv'" using wd_invD(2) [OF assms(1)] by (simp add: environment tables_ok_def)
  then show ?thesis by (rule wd_inv_cong [OF assms(1), rotated -1]) (simp_all add: environment)
qed (auto intro: wd_inv_accept wd_inv_loop_end wd_inv_idle assms(1))

text \<open>The server after its start, with no users, on the tables of a database.\<close>

definition wd_server_boot :: "nat \<Rightarrow> wd_server \<Rightarrow> wd_server" where
  "wd_server_boot page db =
     wd_chats_initialize (db\<lparr>sv_page := page,
       sv_users := wi_dictionary_init page True 0 wi_number_hash (=) Default_Value_Callbacks,
       sv_users_current_id := 0, sv_current_users := 0, sv_out := []\<rparr>)"

lemma wd_inv_boot:
  assumes "0 < page" and "tables_ok db"
  shows "wd_inv (wd_server_boot page db)" and "wd_users_user_with_id (wd_server_boot page db) uid = None"
proof -
  show u: "wd_users_user_with_id (wd_server_boot page db) uid = None" for uid
    unfolding wd_server_boot_def by (rule server_ok_initialize) (simp_all add: assms(1))
  have "tables_ok (wd_server_boot page db)"
    using assms(2) by (simp add: tables_ok_def wd_server_boot_def wd_chats_initialize_def wd_chats_add_chat_def Let_def)
  moreover have "server_ok (wd_server_boot page db)"
    unfolding wd_server_boot_def by (rule server_ok_initialize) (simp_all add: assms(1))
  ultimately show "wd_inv (wd_server_boot page db)" by (simp add: wd_inv_def u)
qed

lemma wd_inv_start: "0 < page \<Longrightarrow> wd_inv (wd_chats_initialize (wd_server_start page))"
  using server_ok_start [of page]
  by (simp add: wd_inv_def tables_ok_def boards_tables_ok_def wd_chats_initialize_def wd_server_start_def wd_chats_add_chat_def Let_def
      wd_users_user_with_id_def)

text \<open>A step is a function of the state and the operation.\<close>

fun wd_execute ::
  "(string \<Rightarrow> 32 word \<Rightarrow> p7_message \<Rightarrow> wd_server \<Rightarrow> wd_server wd_result) \<Rightarrow> wd_operation \<Rightarrow> wd_server \<Rightarrow>
    wd_server wd_result option" where
  "wd_execute other (Connect ip host cipher) sv = Some (Inr (wd_server_accept ip host cipher sv))"
| "wd_execute other (Receive uid m) sv =
     (if wd_users_user_with_id sv uid = None then None else Some (wd_messages_handle_message other uid m sv))"
| "wd_execute other (Receive_Invalid uid m) sv =
     (if wd_users_user_with_id sv uid = None then None else Some (wd_reply_error uid ''wired.error.invalid_message'' m sv))"
| "wd_execute other (Hang_Up uid) sv =
     (if wd_users_user_with_id sv uid = None then None else Some (wd_messages_loop_end uid sv))"
| "wd_execute other Idle_Timer sv = Some (Inr (wd_users_update_idle sv))"
| "wd_execute other (Environment now writable db null) sv =
     Some (Inr (sv\<lparr>sv_now := now, sv_writable := writable, sv_db_ok := db, sv_uninitialised_null := null\<rparr>))"

lemma wd_step_execute: "wd_step other sv x r \<longleftrightarrow> wd_execute other x sv = Some r"
  by (cases x) (auto elim: wd_step.cases intro: wd_step.intros)

fun wd_execute_all ::
  "(string \<Rightarrow> 32 word \<Rightarrow> p7_message \<Rightarrow> wd_server \<Rightarrow> wd_server wd_result) \<Rightarrow> wd_operation list \<Rightarrow> wd_server \<Rightarrow>
    wd_server option" where
  "wd_execute_all other [] sv = Some sv"
| "wd_execute_all other (x # xs) sv =
     (case wd_execute other x sv of Some (Inr sv') \<Rightarrow> wd_execute_all other xs sv' | _ \<Rightarrow> None)"

lemma wd_run_execute: "wd_run other sv xs sv' \<longleftrightarrow> wd_execute_all other xs sv = Some sv'"
  by (induction xs arbitrary: sv) (auto simp: wd_run_Nil wd_run_Cons wd_step_execute split: option.splits sum.splits)

interpretation server: transition_system "\<lambda>sv x sv'. wd_step other sv x (Inr sv')" "wd_run other" wd_inv wd_operation_modelled
  for other
  by unfold_locales (auto simp: wd_run_Nil wd_run_Cons intro: wd_inv_step)

subsection \<open>Who is logged in\<close>

definition logged_in_as :: "32 word \<Rightarrow> wd_account option \<Rightarrow> wd_server \<Rightarrow> bool" where
  "logged_in_as uid a sv \<longleftrightarrow>
     (\<exists>u. wd_users_user_with_id sv uid = Some u \<and> u_state u = WD_USER_LOGGED_IN \<and> u_account u = a)"

lemma users_grow_logged_in: "users_grow L s sv \<Longrightarrow> logged_in_as uid a sv \<Longrightarrow> logged_in_as uid a s \<or> (uid, a) \<in> L"
  unfolding users_grow_def logged_in_as_def
  by (elim exE conjE allE [of _ uid]) (auto simp: option_rel_Some2 user_grows_def)

lemma wd_good_logged_in: "wd_good {} s sv \<Longrightarrow> logged_in_as uid a sv \<Longrightarrow> logged_in_as uid a s"
  using users_grow_logged_in [of "{}" s sv] by (auto simp: wd_good_def)

lemma wd_server_accept_logged_in:
  assumes "wd_inv sv" and "logged_in_as uid a (wd_server_accept ip host cipher sv)"
  shows "logged_in_as uid a sv"
proof -
  have "dict_keyed (=) (sv_users sv)" by (rule server_okD(3) [OF wd_invD(1) [OF assms(1)]])
  then show ?thesis
    using assms(2)
    by (auto simp: logged_in_as_def wd_server_accept_def wd_user_init_with_socket_def wd_user_next_id_def Let_def
        wd_users_add_user_def wd_users_user_with_id_def dict.lookup_put split: if_splits)
qed

lemma wd_handler_name:
  "map_of wd_message_handlers name = Some H_send_login \<Longrightarrow> name = ''wired.send_login''"
  "map_of wd_message_handlers name = Some H_user_get_info \<Longrightarrow> name = ''wired.user.get_info''"
  "map_of wd_message_handlers name = Some H_user_disconnect_user \<Longrightarrow> name = ''wired.user.disconnect_user''"
  "map_of wd_message_handlers name = Some H_user_ban_user \<Longrightarrow> name = ''wired.user.ban_user''"
  by (drule map_of_SomeD, simp add: wd_message_handlers_def)+

lemma wd_step_logs_in:
  assumes "wd_inv sv" and "wd_operation_modelled x" and "wd_step other sv x (Inr sv')"
    and "logged_in_as uid a sv'" and "\<not> logged_in_as uid a sv"
  shows "\<exists>m account. x = Receive uid m \<and> m_name m = ''wired.send_login'' \<and> a = Some account \<and> wd_login_accepted sv uid m account"
  using assms(3)
proof cases
  case (receive uid' m)
  show ?thesis
  proof (cases "map_of wd_message_handlers (m_name m)")
    case None
    then have "wd_good {} sv sv'"
      using receive(2) wd_reply_error_good [OF assms(1)] by (simp add: wd_messages_handle_message_def)
    with wd_good_logged_in assms(4,5) show ?thesis by blast
  next
    case (Some h)
    have "wd_message_modelled m" using assms(2) receive(1) by simp
    from wd_messages_handle_message_safe [OF assms(1) receive(3) this Some, of other]
    have "users_grow (wd_logins sv uid' m h) sv sv' \<or> users_grow {} sv sv'"
      by (simp add: receive(2) [symmetric] wd_safe_def wd_good_def split: if_splits)
    with users_grow_logged_in assms(4,5) have "(uid, a) \<in> wd_logins sv uid' m h" by blast
    with receive(1) wd_handler_name(1) Some show ?thesis by (auto simp: wd_logins_def)
  qed
next
  case (hang_up uid')
  then obtain s where s: "wd_good {} sv s" "sv' = wd_users_remove_user uid' s"
    using wd_messages_loop_end_good [OF assms(1)] by metis
  then have "server_ok s" using wd_invD(1) by (simp add: wd_good_def)
  with s(2) assms(4) have "logged_in_as uid a s"
    by (auto simp: logged_in_as_def wd_users_remove_user_lookup(1) split: if_splits)
  with wd_good_logged_in [OF s(1)] assms(5) show ?thesis by blast
next
  case (environment now writable db null)
  with assms(4,5) show ?thesis by (simp add: logged_in_as_def wd_users_user_with_id_def)
next
  case (connect ip host cipher)
  with wd_server_accept_logged_in [OF assms(1)] assms(4,5) show ?thesis by blast
next
  case (receive_invalid uid' m)
  with wd_reply_error_good [OF assms(1)] wd_good_logged_in assms(4,5) show ?thesis by metis
next
  case idle
  with wd_users_update_idle_good [OF assms(1)] wd_good_logged_in assms(4,5) show ?thesis by metis
qed

end
