(* ===== verification/Wd_Protocol.thy ===== *)
theory Wd_Protocol
  imports Wd_System
begin

text \<open>
  What the protocol of the connections guarantees and where it does not: properties of runs
  of the server and of single messages in a state that satisfies the invariant.
\<close>

subsection \<open>A server for the examples\<close>

text \<open>Two users are connected and got into the states that \<open>f\<close> and \<open>g\<close> make of fresh ones.\<close>

definition wd_fresh_user :: "32 word \<Rightarrow> string \<Rightarrow> wd_user" where
  "wd_fresh_user uid ip = (fst (wd_user_init_with_socket ip ''host'' None (wd_server_start 4)))\<lparr>u_id := uid\<rparr>"

definition wd_server_two :: "(wd_user \<Rightarrow> wd_user) \<Rightarrow> (wd_user \<Rightarrow> wd_user) \<Rightarrow> wd_server" where
  "wd_server_two f g =
     wd_set_user g 2 (wd_set_user f 1 (wd_server_accept ''10.0.0.2'' ''host'' None
       (wd_server_accept ''10.0.0.1'' ''host'' None (wd_chats_initialize (wd_server_start 4)))))"

lemma wd_server_two:
  "wd_users_user_with_id (wd_server_two f g) k =
     (if k = 1 then Some (f (wd_fresh_user 1 ''10.0.0.1''))
      else if k = 2 then Some (g (wd_fresh_user 2 ''10.0.0.2'')) else None)"
  "(\<And>u. session_ok 1 u \<Longrightarrow> session_ok 1 (f u)) \<Longrightarrow> (\<And>u. session_ok 2 u \<Longrightarrow> session_ok 2 (g u)) \<Longrightarrow> wd_inv (wd_server_two f g)"
proof -
  let ?s0 = "wd_chats_initialize (wd_server_start 4)"
  let ?s1 = "wd_server_accept ''10.0.0.1'' ''host'' None ?s0"
  let ?s2 = "wd_server_accept ''10.0.0.2'' ''host'' None ?s1"
  have i: "wd_inv ?s0" by (rule wd_inv_start) simp
  note inv = i wd_inv_accept [OF i] wd_inv_accept [OF wd_inv_accept [OF i]]
  note keyed = inv [THEN wd_invD(1), THEN server_okD(3)]
  note defs = wd_server_accept_def wd_user_init_with_socket_def wd_user_next_id_def wd_users_add_user_def Let_def
  have s0: "sv_users_current_id ?s0 = 0" "sv_page ?s0 = 4" "sv_now ?s0 = 0" "wi_dictionary_data_for_key (sv_users ?s0) k = None"
    for k
    by (simp_all add: wd_chats_initialize_def wd_chats_add_chat_def Let_def wd_server_start_def)
  have fresh: "wd_fresh_user uid ip = (fst (wd_user_init_with_socket ip ''host'' None ?s0))\<lparr>u_id := uid\<rparr>" for uid ip
    using s0 by (simp add: wd_fresh_user_def defs) (simp add: wd_server_start_def)
  have s1: "sv_users_current_id ?s1 = 1" "sv_page ?s1 = 4" "sv_now ?s1 = 0"
    "wi_dictionary_data_for_key (sv_users ?s1) k = (if k = 1 then Some (wd_fresh_user 1 ''10.0.0.1'') else None)" for k
    using s0 dict.lookup_put [OF keyed(1)] by (simp_all add: fresh defs)
  have "wi_dictionary_data_for_key (sv_users ?s2) k = (if k = 1 then Some (wd_fresh_user 1 ''10.0.0.1'')
      else if k = 2 then Some (wd_fresh_user 2 ''10.0.0.2'') else None)" for k
    using s0 s1 dict.lookup_put [OF keyed(2)] by (simp add: fresh defs)
  moreover note l = wd_set_user_lookup [OF keyed(3), of f 1]
  ultimately show "wd_users_user_with_id (wd_server_two f g) k = (if k = 1 then Some (f (wd_fresh_user 1 ''10.0.0.1''))
      else if k = 2 then Some (g (wd_fresh_user 2 ''10.0.0.2'')) else None)"
    by (simp add: wd_server_two_def wd_users_user_with_id_def wd_set_user_lookup(2) [OF l(1)] l(2))
  show "(\<And>u. session_ok 1 u \<Longrightarrow> session_ok 1 (f u)) \<Longrightarrow> (\<And>u. session_ok 2 u \<Longrightarrow> session_ok 2 (g u)) \<Longrightarrow> wd_inv (wd_server_two f g)"
    unfolding wd_server_two_def by (intro wd_inv_set_user inv(3))
qed

lemma wd_user_of: "wd_users_user_with_id sv uid = Some u \<Longrightarrow> wd_user sv uid = u"
  by (simp add: wd_user_def wd_users_user_with_id_def)

definition wd_privileged :: "string list \<Rightarrow> wd_account" where
  "wd_privileged names =
     fold (\<lambda>f a. wi_dictionary_set a (AV_Number 1) f) names
       (wi_dictionary_init 4 True 0 wi_string_hash (=) Default_Value_Callbacks)"

lemma wd_privileged:
  "dict_keyed (=) (wd_privileged names)"
  "wd_account_boolean f (wd_privileged names) \<longleftrightarrow> f \<in> set names"
proof -
  have "dict_keyed (=) (fold (\<lambda>f a. wi_dictionary_set a (AV_Number 1) f) names d) \<and>
      wd_account_boolean f (fold (\<lambda>f a. wi_dictionary_set a (AV_Number 1) f) names d) = (f \<in> set names \<or> wd_account_boolean f d)"
    if "dict_keyed (=) d" for d
    using that
  proof (induction names arbitrary: d)
    case (Cons x xs)
    from Cons.IH [OF dict.ok_put [OF Cons.prems]] Cons.prems show ?case
      by (auto simp: wd_account_boolean_def wd_account_flag_def dict.lookup_put wi_number_bool_def)
  qed simp
  from this [of "wi_dictionary_init 4 True 0 wi_string_hash (=) Default_Value_Callbacks"]
  show "dict_keyed (=) (wd_privileged names)" "wd_account_boolean f (wd_privileged names) \<longleftrightarrow> f \<in> set names"
    by (simp_all add: wd_privileged_def dict_keyed_init wd_account_boolean_def wd_account_flag_def)
qed

subsection \<open>Properties of messages\<close>

text \<open>
  C4: These crashes happen: a user with the privilege brings the server down by
  disconnecting or banning a user who is connected but has not logged in, or by asking for
  information on a user who has only connected.
\<close>

theorem wd_messages_handle_message_null_account:
  assumes "wd_users_user_with_id sv uid = Some u" and "u_state u = WD_USER_LOGGED_IN" and "u_account u = Some account"
    and "wd_users_user_with_id sv (p7_uint32_arg sv m ''wired.user.id'') = Some peer"
    and "m_name m = ''wired.user.disconnect_user'' \<and> wd_account_boolean ''wired.account.user.disconnect_users'' account \<and>
        u_account peer = None \<and> e = Null_Account \<or>
      m_name m = ''wired.user.ban_user'' \<and> wd_account_boolean ''wired.account.user.ban_users'' account \<and>
        u_account peer = None \<and> e = Null_Account \<or>
      m_name m = ''wired.user.get_info'' \<and> wd_account_boolean ''wired.account.user.get_info'' account \<and>
        u_client_info peer = None \<and> e = Null_Client_Info"
  shows "wd_messages_handle_message other uid m sv = Inl e"
proof -
  note w = wd_user_of [OF assms(1)] wd_user_of [OF assms(4)]
  have h: "map_of wd_message_handlers ''wired.user.disconnect_user'' = Some H_user_disconnect_user"
    "map_of wd_message_handlers ''wired.user.ban_user'' = Some H_user_ban_user"
    "map_of wd_message_handlers ''wired.user.get_info'' = Some H_user_get_info"
    by (simp_all add: wd_message_handlers_def)
  show ?thesis
    using assms(5)
    by (elim disjE conjE)
      (simp_all add: wd_messages_handle_message_def h w assms(2-4) wd_with_privilege_def
        wd_message_user_disconnect_user_def wd_message_user_ban_user_def wd_message_user_get_info_def wd_user_reply_user_info_def)
qed

lemma wd_messages_save_user_profile_count: "sv_current_users (wd_messages_save_user_profile uid sv) = sv_current_users sv"
  by (simp add: wd_messages_save_user_profile_def wd_messages_token_for_login_def Let_def split: option.split)

lemma wd_users_remove_user_count: "sv_current_users (wd_users_remove_user uid sv) = sv_current_users sv"
proof -
  have "sv_current_users (wd_chats_remove_user uid sv) = sv_current_users sv"
    unfolding wd_chats_remove_user_def
    by (rule fold_invariant [where Q = "\<lambda>_. True" and P = "\<lambda>s. sv_current_users s = sv_current_users sv"])
      (simp_all add: wd_chats_remove_user_from_def wd_set_chat_def Let_def split: option.split)
  then show ?thesis by (simp add: wd_users_remove_user_def Let_def)
qed

lemma wd_events_add_event_count:
  "wd_events_add_event event uid ps sv = Inr sv' \<Longrightarrow> sv_current_users sv' = sv_current_users sv"
  using wd_events_add_event_quiet [of event uid ps sv sv'] wd_quiet_fields(6) by fastforce

lemma wd_messages_loop_end_current_users:
  assumes "wd_users_user_with_id sv uid = Some u" and "wd_messages_loop_end uid sv = Inr sv'"
  shows "sv_current_users sv' = sv_current_users sv - (if u_state u \<in> {WD_USER_LOGGED_IN, WD_USER_DISCONNECTED} then 1 else 0)"
proof -
  define sv1 where "sv1 = (if u_state (wd_user sv uid) \<ge> WD_USER_LOGGED_IN
                then wd_messages_save_user_profile uid (sv\<lparr>sv_current_users := sv_current_users sv - 1\<rparr>)
                else sv)"
  define sv2 where "sv2 = wd_user_set_state WD_USER_DISCONNECTED uid sv1"
  define sv3 where "sv3 = (case wd_chats_chat_with_id sv2 WD_PUBLIC_CHAT_ID of
                  Some c \<Rightarrow> if wd_chat_contains_user c uid then wd_chat_broadcast_user_leave c uid sv2 else sv2
                | None \<Rightarrow> sv2)"
  have "u_state u \<ge> WD_USER_LOGGED_IN \<longleftrightarrow> u_state u \<in> {WD_USER_LOGGED_IN, WD_USER_DISCONNECTED}"
    by (cases "u_state u") (simp_all add: less_eq_wd_user_state_def)
  then have "sv_current_users sv1 = sv_current_users sv - (if u_state u \<in> {WD_USER_LOGGED_IN, WD_USER_DISCONNECTED} then 1 else 0)"
    by (simp add: sv1_def wd_user_of [OF assms(1)] wd_messages_save_user_profile_count)
  moreover have "sv_current_users sv2 = sv_current_users sv1" by (simp add: sv2_def wd_user_set_state_def)
  moreover have "sv_current_users sv3 = sv_current_users sv2"
    using wd_quiet_fields(6) [OF wd_broadcast_quiets(5)] by (simp add: sv3_def split: option.split)
  moreover have "sv_current_users sv' = sv_current_users sv3"
  proof -
    have "wd_bind (if u_joined_public_chat (wd_user sv3 uid)
        then wd_events_add_event ''wired.event.user.logged_out'' uid [] sv3 else Inr sv3)
      (\<lambda>sv. Inr (wd_users_remove_user uid sv)) = Inr sv'"
      using assms(2) by (simp only: wd_messages_loop_end_def Let_def sv1_def sv2_def sv3_def)
    then show ?thesis
      by (cases "wd_events_add_event ''wired.event.user.logged_out'' uid [] sv3")
        (auto simp: wd_users_remove_user_count wd_events_add_event_count split: if_splits)
  qed
  ultimately show ?thesis by simp
qed

text \<open>
  C10: The end of a connection never crashes while the database works, and no user is left
  behind in a chat or the table of users. The count of current users goes down by one for every connection that ends in the
  state logged in or disconnected, and no user is left behind; a connection that was
  disconnected before it logged in is subtracted without having been added.
\<close>

theorem wd_messages_loop_end_count:
  assumes "wd_inv sv" and "wd_users_user_with_id sv uid = Some u" and "sv_db_ok sv"
  shows "\<exists>sv'. wd_messages_loop_end uid sv = Inr sv' \<and>
    sv_current_users sv' = sv_current_users sv - (if u_state u \<in> {WD_USER_LOGGED_IN, WD_USER_DISCONNECTED} then 1 else 0) \<and>
    wd_users_user_with_id sv' uid = None \<and>
    (\<forall>cid c. wd_chats_chat_with_id sv' cid = Some c \<longrightarrow> \<not> wd_chat_contains_user c uid)"
proof -
  obtain sv' where r: "wd_messages_loop_end uid sv = Inr sv'" using wd_messages_loop_end_returns [OF assms(1,3)] by blast
  obtain s where s: "server_ok s" "sv' = wd_users_remove_user uid s"
    using wd_messages_loop_end_good [OF assms(1) r] wd_invD(1) by (auto simp: wd_good_def)
  have "\<not> wd_chat_contains_user c uid" if "wd_chats_chat_with_id sv' cid = Some c" for cid c
    using that chat_without_ok(2) [OF chats_okD(4) [OF server_okD(1) [OF s(1)]]]
    by (cases "wd_chats_chat_with_id s cid") (auto simp: s(2) wd_users_remove_user_lookup(2) [OF s(1)])
  then show ?thesis
    using wd_messages_loop_end_current_users [OF assms(2) r] s(2) r by (simp add: wd_users_remove_user_lookup(1) [OF s(1)])
qed

text \<open>The login of a user whose address is not banned.\<close>

lemma wd_message_send_login_unbanned:
  assumes "wd_inv sv" and "wd_users_user_with_id sv uid = Some u" and "\<not> fst (wd_banlist_ip_is_banned (u_ip u) sv)"
    and "p7_string m ''wired.user.login'' = Some login"
  shows "\<exists>sv2. wd_message_send_login uid m sv =
      (case wd_accounts_read_user_and_group (sv_garbage sv) sv login of
         None \<Rightarrow> wd_message_login_failed uid m sv2
       | Some account \<Rightarrow>
           if \<not> wd_password_matches account m
           then wd_message_login_failed uid m sv2 else wd_message_accept_login account login uid m sv2) \<and>
    dict_keyed (=) (sv_users sv2) \<and> wd_users_user_with_id sv2 uid = Some (u\<lparr>u_login := Some login\<rparr>) \<and>
    sv_db_ok sv2 = sv_db_ok sv \<and> sv_offline_keys sv2 = sv_offline_keys sv \<and> sv_writable sv2 = sv_writable sv \<and>
    sv_current_users sv2 = sv_current_users sv"
proof -
  let ?set = "\<lambda>u. u\<lparr>u_login := Some login\<rparr>"
  have keyed: "dict_keyed (=) (sv_users sv)" by (rule server_okD(3) [OF wd_invD(1) [OF assms(1)]])
  have "wd_users_user_with_id sv uid \<noteq> None" using assms(2) by simp
  from wd_message_send_login_decide [OF keyed this, of m] obtain us P where
    r: "wd_message_send_login uid m sv = wd_message_decide_login False (fst (snd (wd_banlist_ip_is_banned (u_ip u) sv))) (Some login) uid m
      (sv\<lparr>sv_users := us, sv_banlist := filter P (sv_banlist sv)\<rparr>)" and us: "us = sv_users (wd_set_user ?set uid sv)"
    using assms(3) by (auto simp: wd_user_of [OF assms(2)] assms(4))
  define sv2 where "sv2 = sv\<lparr>sv_users := us, sv_banlist := filter P (sv_banlist sv)\<rparr>"
  have a: "wd_accounts_read_user_and_group (sv_garbage sv2) sv2 login = wd_accounts_read_user_and_group (sv_garbage sv) sv login"
    by (subst wd_accounts_read_user_and_group_cong [of sv2 sv]) (simp_all add: sv2_def)
  have "dict_keyed (=) (sv_users sv2)" "wd_users_user_with_id sv2 uid = Some (u\<lparr>u_login := Some login\<rparr>)"
    using wd_set_user_lookup [OF keyed, of ?set uid] assms(2) by (simp_all add: sv2_def us wd_users_user_with_id_def)
  then show ?thesis
    unfolding r sv2_def [symmetric] by (intro exI [of _ sv2]) (simp add: wd_message_decide_login_def a, simp add: sv2_def)
qed

text \<open>What a user carries along through messages that are answered or refused.\<close>

definition carries :: "32 word \<Rightarrow> string \<Rightarrow> wd_account \<Rightarrow> bool \<Rightarrow> (string \<times> 8 word list) list \<Rightarrow> wd_server \<Rightarrow> bool" where
  "carries uid login account w keys sv \<longleftrightarrow> dict_keyed (=) (sv_users sv) \<and> sv_db_ok sv \<and> sv_offline_keys sv = keys \<and>
     sv_writable sv uid = w \<and>
     (\<exists>u. wd_users_user_with_id sv uid = Some u \<and> u_login u = Some login \<and> u_account u = Some account \<and>
       u_state u \<in> {WD_USER_LOGGED_IN, WD_USER_DISCONNECTED} \<and> (w \<longrightarrow> u_state u = WD_USER_LOGGED_IN))"

lemma carries_cong:
  "carries uid login account w keys sv \<Longrightarrow> sv_users sv' = sv_users sv \<Longrightarrow> sv_db_ok sv' = sv_db_ok sv \<Longrightarrow>
     sv_writable sv' = sv_writable sv \<Longrightarrow> sv_offline_keys sv' = keys' \<Longrightarrow> carries uid login account w keys' sv'"
  by (simp add: carries_def wd_users_user_with_id_def)

lemma carries_send: "carries uid login account w keys sv \<Longrightarrow> carries uid login account w keys (wd_user_send_message k m sv)"
  by (auto simp: carries_def wd_user_send_message_def wd_user_set_state_def wd_users_user_with_id_def wd_set_user_lookup)

lemma carries_fold:
  "(\<And>x sv. carries uid login account w keys sv \<Longrightarrow> carries uid login account w keys (f x sv)) \<Longrightarrow>
     carries uid login account w keys sv \<Longrightarrow> carries uid login account w keys (fold f xs sv)"
  by (induction xs arbitrary: sv) auto

lemma carries_reply: "carries uid login account w keys sv \<Longrightarrow> carries uid login account w keys (wd_user_reply_message k reply m sv)"
  by (simp add: wd_user_reply_message_def Let_def carries_send)

lemma carries_status: "carries uid login account w keys sv \<Longrightarrow> carries uid login account w keys (wd_user_broadcast_status k sv)"
  unfolding wd_user_broadcast_status_def wd_chat_broadcast_message_def by (intro carries_fold) (auto intro: carries_send)

lemma carries_set_user:
  assumes "carries uid login account w keys sv"
    and "\<And>u. u_login (f u) = u_login u \<and> u_account (f u) = u_account u \<and> u_state (f u) = u_state u"
  shows "carries uid login account w keys (wd_set_user f uid sv)"
  using assms wd_set_user_lookup [of sv f uid] by (auto simp: carries_def wd_users_user_with_id_def)

lemma carries_event:
  assumes "carries uid login account w keys sv"
  shows "\<exists>sv'. wd_events_add_event event uid ps sv = Inr sv' \<and> carries uid login account w keys sv'"
proof (cases "wd_events_delete_older_events sv")
  case (Inl e)
  then have "wd_events_add_event event uid ps sv = Inl e" by (simp add: wd_events_add_event_def)
  with wd_events_add_event_crash [OF this] assms show ?thesis by (simp add: carries_def)
next
  case (Inr sv1)
  then obtain kept where k: "wd_events_delete_older_events sv = Inr (sv\<lparr>sv_events := kept\<rparr>)"
    using wd_events_delete_older_events by blast
  have e: "carries uid login account w keys (sv\<lparr>sv_events := evs\<rparr>)" for evs
    by (rule carries_cong [OF assms]) (use assms in \<open>simp_all add: carries_def\<close>)
  then have "carries uid login account w keys (wd_events_broadcast_event message (sv\<lparr>sv_events := evs\<rparr>))" for message evs
    unfolding wd_events_broadcast_event_def by (intro carries_fold) (auto intro: carries_send)
  with e show ?thesis
    using wd_events_add_event_pruned [OF k, of event uid ps] assms by (simp add: carries_def [of _ _ _ _ _ sv])
qed

lemma carries_handled:
  assumes "map_of wd_message_handlers (m_name m) = Some h"
    and "u_state (wd_user sv uid) \<in> {WD_USER_LOGGED_IN, WD_USER_DISCONNECTED}"
    and "wd_run_handler other h uid m sv = Inr s" and "carries uid login account w keys' s"
  shows "\<exists>sv'. wd_messages_handle_message other uid m sv = Inr sv' \<and> carries uid login account w keys' sv'"
  using assms(2-)
  by (auto simp: wd_messages_handle_message_def assms(1) Let_def intro!: carries_status carries_set_user)

lemma carries_state: "carries uid login account w keys sv \<Longrightarrow> u_state (wd_user sv uid) \<in> {WD_USER_LOGGED_IN, WD_USER_DISCONNECTED}"
  using wd_user_of by (auto simp: carries_def)

text \<open>
  C9: A refused login leaves its mark: a user who is logged in and sends
  \<open>wired.send_login\<close> with the login of somebody else and no right password, from an address
  that is not banned, keeps the old account and, if the socket takes the messages, stays
  logged in; but the session carries the other login from then on, and a public key for
  offline messages that the user then sets is stored for that other login. The user has the
  privilege to send messages, and the database works.
\<close>

theorem wd_message_login_spoofed:
  assumes "wd_inv sv" and "wd_users_user_with_id sv uid = Some u" and "u_state u = WD_USER_LOGGED_IN"
    and "u_account u = Some account" and "wd_account_boolean ''wired.account.message.send_messages'' account"
    and "sv_db_ok sv" and "m_name m = ''wired.send_login''" and "\<not> fst (wd_banlist_ip_is_banned (u_ip u) sv)"
    and "p7_string m ''wired.user.login'' = Some login"
    and "\<And>a. wd_accounts_read_user_and_group (sv_garbage sv) sv login = Some a \<Longrightarrow> \<not> wd_password_matches a m"
    and "m_name m' = ''wired.message.set_offline_public_key''"
    and "p7_data m' ''wired.message.offline_public_key'' = Some key" and "0 < length key" and "length key \<le> 1024"
  shows "\<exists>sv' u' sv'' u''. wd_messages_handle_message other uid m sv = Inr sv' \<and>
    wd_users_user_with_id sv' uid = Some u' \<and> u_account u' = Some account \<and> u_login u' = Some login \<and>
    (sv_writable sv uid \<longrightarrow> u_state u' = WD_USER_LOGGED_IN) \<and>
    wd_messages_handle_message other uid m' sv' = Inr sv'' \<and>
    map_of (sv_offline_keys sv'') login = Some key \<and>
    wd_users_user_with_id sv'' uid = Some u'' \<and> u_account u'' = Some account \<and> u_login u'' = Some login \<and>
    (sv_writable sv uid \<longrightarrow> u_state u'' = WD_USER_LOGGED_IN)"
proof -
  let ?w = "sv_writable sv uid"
  note w = wd_user_of [OF assms(2)]
  obtain sv2 where r: "wd_message_send_login uid m sv = wd_message_login_failed uid m sv2"
    and c2: "carries uid login account ?w (sv_offline_keys sv) sv2"
    using wd_message_send_login_unbanned [OF assms(1,2,8,9)] assms(3,4,6,10)
    by (auto simp: carries_def split: option.splits)
  moreover have "wd_run_handler other H_send_login uid m sv = wd_message_send_login uid m sv" by simp
  moreover from carries_event [OF carries_reply [OF c2]] obtain s where
    "wd_message_login_failed uid m sv2 = Inr s" "carries uid login account ?w (sv_offline_keys sv) s"
    unfolding wd_message_login_failed_def wd_user_reply_error_def by blast
  moreover have h: "map_of wd_message_handlers (m_name m) = Some H_send_login"
    "map_of wd_message_handlers (m_name m') = Some H_message_set_offline_public_key"
    by (simp_all add: wd_message_handlers_def assms(7,11))
  moreover have "u_state (wd_user sv uid) \<in> {WD_USER_LOGGED_IN, WD_USER_DISCONNECTED}" by (simp add: w assms(3))
  ultimately obtain sv' where sv': "wd_messages_handle_message other uid m sv = Inr sv'" "carries uid login account ?w (sv_offline_keys sv) sv'"
    using carries_handled [OF h(1), where other = other and keys' = "sv_offline_keys sv"] by (metis wd_run_handler.simps(4))
  define keys where "keys = filter (\<lambda>k. fst k \<noteq> login) (sv_offline_keys sv) @ [(login, key)]"
  obtain u' where u': "wd_users_user_with_id sv' uid = Some u'" "u_login u' = Some login" "u_account u' = Some account"
    using sv'(2) by (auto simp: carries_def)
  have "wd_run_handler other H_message_set_offline_public_key uid m' sv' =
      Inr (wd_user_reply_okay uid m' (sv'\<lparr>sv_offline_keys := keys\<rparr>))"
    using sv'(2) assms(12-14)
    by (simp add: wd_message_message_set_offline_public_key_def wd_with_privilege_def wd_user_of [OF u'(1)] u'(2,3) assms(5)
        carries_def keys_def)
  moreover have "carries uid login account ?w keys (wd_user_reply_okay uid m' (sv'\<lparr>sv_offline_keys := keys\<rparr>))"
    unfolding wd_user_reply_okay_def by (rule carries_reply, rule carries_cong [OF sv'(2)]) simp_all
  ultimately obtain sv'' where "wd_messages_handle_message other uid m' sv' = Inr sv''" "carries uid login account ?w keys sv''"
    using carries_handled [OF h(2) carries_state [OF sv'(2)]] by blast
  moreover have "map_of keys login = Some key"
    by (auto simp: keys_def map_add_def split: option.split dest!: map_of_SomeD)
  ultimately show ?thesis using sv' by (auto simp: carries_def)
qed

text \<open>
  C35: A private chat is entered on invitation only: who asks to join is added at the end of
  the members exactly if invited, and the invitation is used up; nobody else is let in and
  the server does not crash.
\<close>

theorem wd_message_chat_join_chat_invited:
  assumes "wd_inv sv" and "wd_users_user_with_id sv uid \<noteq> None" and "cid = p7_uint32_arg sv m ''wired.chat.id''"
    and "cid \<noteq> WD_PUBLIC_CHAT_ID" and "wd_chats_chat_with_id sv cid = Some c" and "\<not> wd_chat_contains_user c uid"
  shows "\<exists>sv' c'. wd_message_chat_join_chat uid m sv = Inr sv' \<and> wd_chats_chat_with_id sv' cid = Some c' \<and>
    c_users c' = (if wd_chat_is_user_invited c uid then c_users c @ [uid] else c_users c) \<and>
    \<not> wd_chat_is_user_invited c' uid"
proof (cases "wd_chat_is_user_invited c uid")
  case False
  then show ?thesis
    using assms(3-6) wd_quiet_fields(1) [OF wd_reply_quiets(3)]
    by (simp add: wd_message_chat_join_chat_def wd_reply_error_def wd_chats_chat_with_id_def)
next
  case True
  have ok: "chats_ok sv" by (rule server_okD(1) [OF wd_invD(1) [OF assms(1)]])
  define sv1 where "sv1 = wd_chat_add_user_and_broadcast cid uid sv"
  define sv2 where "sv2 = wd_set_chat (\<lambda>c. wd_chat_remove_invitation_for_user c uid) cid sv1"
  define sv3 where "sv3 = wd_chat_reply_user_list (c\<lparr>c_users := c_users c @ [uid]\<rparr>) uid m sv2"
  define sv4 where "sv4 = (case wd_chat_topic_message c of
    Some reply \<Rightarrow> wd_user_reply_message uid reply m sv3 | None \<Rightarrow> sv3)"
  have j: "wd_message_chat_join_chat uid m sv = Inr sv4"
    unfolding wd_message_chat_join_chat_def Let_def assms(3) [symmetric] sv4_def sv3_def sv2_def sv1_def
    using assms(4-6) True by simp
  obtain s where s: "wd_quiet sv s" "sv1 = wd_set_chat (\<lambda>c. c\<lparr>c_users := c_users c @ [uid]\<rparr>) cid s"
    using wd_reply_quiets assms(5) unfolding sv1_def wd_chat_add_user_and_broadcast_def Let_def by (auto intro: wd_quiets)
  have k: "dict_keyed (=) (sv_chats s)" using wd_quiet_fields(1) [OF s(1)] chats_okD(3) [OF ok] by simp
  have "wd_chats_chat_with_id s cid = Some c" using wd_quiet_fields(1) [OF s(1)] assms(5) by (simp add: wd_chats_chat_with_id_def)
  then have "wd_chats_chat_with_id sv2 cid = Some (wd_chat_remove_invitation_for_user (c\<lparr>c_users := c_users c @ [uid]\<rparr>) uid)"
    by (simp add: sv2_def s(2) wd_chats_chat_with_id_def wd_set_chat_lookup(2) [OF wd_set_chat_lookup(1) [OF k]]
        wd_set_chat_lookup(2) [OF k])
  moreover have "sv_chats sv4 = sv_chats sv2"
    using wd_quiet_fields(1) [OF wd_reply_quiets(1)] wd_quiet_fields(1) [OF wd_broadcast_quiets(4)]
    by (simp add: sv4_def sv3_def split: option.split)
  moreover have i: "set_keyed False (c_invited_users c)" using chats_okD(4) [OF ok assms(5)] by (simp add: chat_ok_def)
  have "\<not> wi_set_contains_data (wi_set_remove_data (c_invited_users c) uid) uid"
    by (simp add: wi_set_contains_data [OF set_keyedD(2) [OF wiset.ok_del [OF i]]] wiset.occurrences_del [OF i] set_drop_def)
  ultimately show ?thesis
    using True j by (auto simp: wd_chats_chat_with_id_def wd_chat_remove_invitation_for_user_def wd_chat_is_user_invited_def)
qed


lemma wd_message_client_info_effect:
  assumes "wd_inv sv" and "wd_users_user_with_id sv uid = Some u" and "m_name m = ''wired.client_info''"
    and "u_state u \<noteq> WD_USER_GAVE_CLIENT_INFO" and "\<not> u_idle u"
  shows "\<exists>sv' u'. wd_messages_handle_message other uid m sv = Inr sv' \<and> wd_users_user_with_id sv' uid = Some u' \<and>
    u_state u' = WD_USER_GAVE_CLIENT_INFO \<and> u_account u' = u_account u \<and> u_ip u' = u_ip u \<and>
    sv_current_users sv' = sv_current_users sv \<and> sv_writable sv' = sv_writable sv \<and> sv_db_ok sv' = sv_db_ok sv \<and>
    sv_db_users sv' = sv_db_users sv \<and> sv_banlist sv' = sv_banlist sv"
proof -
  let ?info = "\<lambda>u. u\<lparr>u_client_info := Some (wd_client_info_init_with_message sv m)\<rparr>"
  let ?state = "\<lambda>u. u\<lparr>u_state := WD_USER_GAVE_CLIENT_INFO\<rparr>"
  note keyed = server_okD(3) [OF wd_invD(1) [OF assms(1)]]
  define sv1 where "sv1 = wd_set_user ?info uid sv"
  define sv2 where "sv2 = wd_user_reply_message uid (wd_server_info_message sv1) m sv1"
  define sv3 where "sv3 = wd_set_user (\<lambda>u. u\<lparr>u_idle_time := sv_now (wd_set_user ?state uid sv2)\<rparr>) uid (wd_set_user ?state uid sv2)"
  note l1 = wd_set_user_lookup [OF keyed, of ?info uid, folded sv1_def]
  have q: "wd_quiet sv1 sv2" unfolding sv2_def by (rule wd_reply_quiets)
  note k2 = wd_quiet_users(1) [OF q l1(1)]
  obtain u2 where u2: "wd_users_user_with_id sv2 uid = Some u2" "user_quiet (?info u) u2"
    using wd_quiet_users(3) [OF q l1(1), of uid] assms(2) l1(2) by (auto simp: wd_users_user_with_id_def option_rel_Some1)
  have u3: "wd_users_user_with_id sv3 uid = Some ((?state u2)\<lparr>u_idle_time := sv_now (wd_set_user ?state uid sv2)\<rparr>)"
    using u2(1) wd_set_user_lookup [OF k2] by (simp add: sv3_def wd_users_user_with_id_def wd_set_user_lookup(2) [OF wd_set_user_lookup(1) [OF k2]])
  have idle: "\<not> u_idle (wd_user sv3 uid)" using wd_user_of [OF u3] u2(2) assms(5) by (auto simp: user_quiet_def)
  have h: "wd_messages_handle_message other uid m sv = Inr sv3"
    using idle assms(4) wd_user_of [OF assms(2)] unfolding sv3_def sv2_def sv1_def
    by (simp add: wd_messages_handle_message_def wd_message_handlers_def assms(3) wd_message_client_info_def Let_def
        wd_user_set_state_def)
  have c: "sv_current_users sv3 = sv_current_users sv \<and> sv_writable sv3 = sv_writable sv \<and> sv_db_ok sv3 = sv_db_ok sv \<and>
      sv_db_users sv3 = sv_db_users sv \<and> sv_banlist sv3 = sv_banlist sv"
    using q by (auto simp: sv3_def sv1_def wd_quiet_def)
  with h u3 u2(2) c show ?thesis by (auto simp: user_quiet_def)
qed

text \<open>
  C11: Client information sent again puts the session back before the login:
  a user who was disconnected by an administrator, or is logged in, is again in the state in
  which a login is accepted; and if the connection ends then, the count of current users is
  not reduced, though the user was counted at the login.
\<close>

theorem wd_message_client_info_resets:
  assumes "wd_inv sv" and "wd_users_user_with_id sv uid = Some u" and "m_name m = ''wired.client_info''"
    and "u_state u \<noteq> WD_USER_GAVE_CLIENT_INFO" and "\<not> u_idle u"
  shows "\<exists>sv' u'. wd_messages_handle_message other uid m sv = Inr sv' \<and>
    wd_users_user_with_id sv' uid = Some u' \<and> u_state u' = WD_USER_GAVE_CLIENT_INFO \<and> u_account u' = u_account u \<and>
    sv_current_users sv' = sv_current_users sv \<and>
    (\<forall>sv''. wd_messages_loop_end uid sv' = Inr sv'' \<longrightarrow> sv_current_users sv'' = sv_current_users sv)"
proof -
  obtain sv' u' where r: "wd_messages_handle_message other uid m sv = Inr sv'" "wd_users_user_with_id sv' uid = Some u'"
    "u_state u' = WD_USER_GAVE_CLIENT_INFO" "u_account u' = u_account u" "sv_current_users sv' = sv_current_users sv"
    using wd_message_client_info_effect [OF assms, where other = other] by blast
  then show ?thesis using wd_messages_loop_end_current_users [OF r(2)] by auto
qed

text \<open>What stays of a user whose socket takes messages while others are sent to.\<close>

definition online :: "32 word \<Rightarrow> (wd_user \<Rightarrow> bool) \<Rightarrow> 64 word \<Rightarrow> wd_server \<Rightarrow> bool" where
  "online uid P n sv \<longleftrightarrow> dict_keyed (=) (sv_users sv) \<and> sv_writable sv uid \<and> sv_current_users sv = n \<and>
     (\<exists>u. wd_users_user_with_id sv uid = Some u \<and> P u)"

lemma online_send: "online uid P n sv \<Longrightarrow> online uid P n (wd_user_send_message k m sv)"
  by (auto simp: online_def wd_user_send_message_def wd_user_set_state_def wd_users_user_with_id_def wd_set_user_lookup)

lemma online_reply: "online uid P n sv \<Longrightarrow> online uid P n (wd_user_reply_message k reply m sv)"
  by (simp add: wd_user_reply_message_def Let_def online_send)

lemma online_fold:
  "(\<And>x sv. online uid P n sv \<Longrightarrow> online uid P n (f x sv)) \<Longrightarrow> online uid P n sv \<Longrightarrow> online uid P n (fold f xs sv)"
  by (induction xs arbitrary: sv) auto

lemma online_status: "online uid P n sv \<Longrightarrow> online uid P n (wd_user_broadcast_status k sv)"
  unfolding wd_user_broadcast_status_def wd_chat_broadcast_message_def by (intro online_fold) (auto intro: online_send)

lemma online_cong:
  "online uid P n sv \<Longrightarrow> sv_users sv' = sv_users sv \<Longrightarrow> sv_writable sv' = sv_writable sv \<Longrightarrow>
     sv_current_users sv' = sv_current_users sv \<Longrightarrow> online uid P n sv'"
  by (simp add: online_def wd_users_user_with_id_def)

lemma online_token: "online uid P n sv \<Longrightarrow> online uid P n (snd (wd_messages_token_for_login login sv))"
  by (rule online_cong [of uid P n sv]) (auto simp: wd_messages_token_for_login_def Let_def split: option.split)

lemma online_after_login:
  assumes "online uid P n sv"
  shows "online uid P n (wd_message_send_known_users uid login (wd_message_deliver_pending uid login sv))"
proof -
  have r: "online uid P n (wd_message_deliver_row uid p sv)" if "online uid P n sv" for p sv
    using that online_token [OF that] by (simp add: wd_message_deliver_row_def case_prod_beta online_send)
  have k: "online uid P n (wd_message_known_user uid row sv)" if "online uid P n sv" for row sv
    using online_token [OF that] by (simp add: wd_message_known_user_def Let_def case_prod_beta online_send)
  have "online uid P n (wd_message_deliver_pending uid login sv)"
  proof (cases "sv_db_ok sv")
    case True
    from online_fold [where f = "wd_message_deliver_row uid", OF r assms] show ?thesis
      by (rule online_cong) (simp_all add: wd_message_deliver_pending_def Let_def True)
  qed (simp add: wd_message_deliver_pending_def assms)
  with online_fold [where f = "wd_message_known_user uid", OF k] show ?thesis
    by (simp add: wd_message_send_known_users_def Let_def online_send)
qed

lemma wd_login_online:
  assumes "wd_inv sv" and "wd_users_user_with_id sv uid = Some u" and "u_state u = WD_USER_GAVE_CLIENT_INFO"
    and "m_name m = ''wired.send_login''" and "sv_writable sv uid" and "\<not> fst (wd_banlist_ip_is_banned (u_ip u) sv)"
    and "p7_string m ''wired.user.login'' = Some login"
    and "wd_accounts_read_user_and_group (sv_garbage sv) sv login = Some account" and "wd_password_matches account m"
  shows "\<exists>sv'. wd_messages_handle_message other uid m sv = Inr sv' \<and>
    online uid (\<lambda>u. u_state u = WD_USER_LOGGED_IN \<and> u_account u = Some account \<and>
      u_login u = Some login) (sv_current_users sv + 1) sv'"
proof -
  let ?P = "\<lambda>u. u_state u = WD_USER_LOGGED_IN \<and> u_account u = Some account \<and> u_login u = Some login"
  let ?n = "sv_current_users sv + 1"
  have info: "u_client_info u \<noteq> None"
    using wd_invD(3) [OF assms(1,2)] assms(3) by (simp add: session_ok_def user_ok_def)
  obtain sv2 where r: "wd_message_send_login uid m sv = wd_message_accept_login account login uid m sv2"
    and keyed: "dict_keyed (=) (sv_users sv2)" and u2: "wd_users_user_with_id sv2 uid = Some (u\<lparr>u_login := Some login\<rparr>)"
    and f: "sv_writable sv2 = sv_writable sv" "sv_current_users sv2 = sv_current_users sv"
    using wd_message_send_login_unbanned [OF assms(1,2,6,7)] assms(8,9) by auto
  define sv3 where "sv3 = wd_set_user (\<lambda>u. u\<lparr>
     u_nick := (if wd_account_boolean ''wired.account.user.cannot_set_nick'' account \<or> u_nick u = None
                then Some (wd_account_nick account) else u_nick u),
     u_account := Some account, u_color := wd_account_color account sv2, u_state := WD_USER_LOGGED_IN\<rparr>) uid sv2"
  define sv4 where "sv4 = sv3\<lparr>sv_current_users := sv_current_users sv3 + 1, sv_total_users := sv_total_users sv3 + 1\<rparr>"
  have "online uid ?P ?n sv4"
    using wd_set_user_lookup [OF keyed] u2 assms(5) f
    by (simp add: online_def sv4_def sv3_def wd_users_user_with_id_def)
  from online_reply [OF online_reply [OF this]] have
    g: "online uid ?P ?n (wd_accounts_update_login_time account
      (wd_user_reply_message uid (wd_account_privileges_message (sv_page sv5) account) m
        (wd_user_reply_message uid \<lparr>m_name = ''wired.login'', m_fields = [(''wired.user.id'', P7_UInt32 uid)]\<rparr> m sv4)))" for sv5
    by (rule online_cong) (simp_all add: wd_accounts_update_login_time_def Let_def)
  have acc: "wd_message_accept_login account login uid m sv2 = Inr (wd_message_send_known_users uid login
      (wd_message_deliver_pending uid login (wd_accounts_update_login_time account
      (wd_user_reply_message uid (wd_account_privileges_message (sv_page
          (wd_user_reply_message uid \<lparr>m_name = ''wired.login'', m_fields = [(''wired.user.id'', P7_UInt32 uid)]\<rparr> m sv4)) account) m
        (wd_user_reply_message uid \<lparr>m_name = ''wired.login'', m_fields = [(''wired.user.id'', P7_UInt32 uid)]\<rparr> m sv4)))))"
    unfolding wd_message_accept_login_def Let_def sv4_def sv3_def by (simp add: wd_user_of [OF u2] info)
  obtain s where s: "wd_message_send_login uid m sv = Inr s" "online uid ?P ?n s"
    by (rule that, rule trans [OF r acc], rule online_after_login [OF g])
  have t: "online uid ?P ?n (wd_set_user (u_idle_time_update f) uid s)" "online uid ?P ?n (wd_set_user (u_idle_update g) uid s)"
    if "online uid ?P ?n s" for s f g
    using that wd_set_user_lookup [of s _ uid] by (auto simp: online_def wd_users_user_with_id_def)
  have "map_of wd_message_handlers (m_name m) = Some H_send_login" by (simp add: wd_message_handlers_def assms(4))
  with s(1) show ?thesis
    using s(2) assms(3) wd_user_of [OF assms(2)] by (simp add: wd_messages_handle_message_def Let_def online_status t)
qed

text \<open>
  C8: A login with the right password from an address that is not banned is granted: if the
  socket takes the messages, the user is logged in with the account afterwards and counted.
\<close>

theorem wd_message_login_granted:
  assumes "wd_inv sv" and "wd_users_user_with_id sv uid = Some u" and "u_state u = WD_USER_GAVE_CLIENT_INFO"
    and "m_name m = ''wired.send_login''" and "sv_writable sv uid" and "\<not> fst (wd_banlist_ip_is_banned (u_ip u) sv)"
    and "p7_string m ''wired.user.login'' = Some login"
    and "wd_accounts_read_user_and_group (sv_garbage sv) sv login = Some account" and "wd_password_matches account m"
  shows "\<exists>sv' u'. wd_messages_handle_message other uid m sv = Inr sv' \<and> wd_users_user_with_id sv' uid = Some u' \<and>
    u_state u' = WD_USER_LOGGED_IN \<and> u_account u' = Some account \<and>
    u_login u' = Some login \<and> sv_current_users sv' = sv_current_users sv + 1"
  using wd_login_online [OF assms, of other] by (auto simp: online_def)

subsection \<open>Examples\<close>

definition wd_example_login :: "string list \<Rightarrow> wd_user \<Rightarrow> wd_user" where
  "wd_example_login names u =
     u\<lparr>u_state := WD_USER_LOGGED_IN, u_account := Some (wd_privileged names), u_nick := Some ''nick'', u_login := Some ''guest'',
       u_client_info := Some (wd_client_info_init_with_message (wd_server_start 4) \<lparr>m_name = ''wired.client_info'', m_fields = []\<rparr>)\<rparr>"

lemma wd_example_login:
  "session_ok uid u \<Longrightarrow> session_ok uid (wd_example_login names u)"
  "u_state (wd_example_login names u) = WD_USER_LOGGED_IN" "u_account (wd_example_login names u) = Some (wd_privileged names)"
  "u_idle (wd_example_login names u) = u_idle u" "u_ip (wd_example_login names u) = u_ip u"
  by (simp_all add: wd_example_login_def session_ok_def user_ok_def)

lemma wd_fresh_user:
  "u_state (wd_fresh_user uid ip) = WD_USER_CONNECTED" "u_account (wd_fresh_user uid ip) = None" "\<not> u_idle (wd_fresh_user uid ip)"
  "u_client_info (wd_fresh_user uid ip) = None" "u_ip (wd_fresh_user uid ip) = ip"
  by (simp_all add: wd_fresh_user_def wd_user_init_with_socket_def wd_user_next_id_def Let_def)

lemma wd_server_two_fields:
  "sv_db_ok (wd_server_two f g)" "sv_writable (wd_server_two f g) = (\<lambda>_. True)" "sv_banlist (wd_server_two f g) = []"
  "sv_db_users (wd_server_two f g) = []" "sv_current_users (wd_server_two f g) = 0"
  by (simp_all add: wd_server_two_def wd_server_accept_def wd_user_init_with_socket_def wd_user_next_id_def wd_users_add_user_def
      wd_chats_initialize_def wd_chats_add_chat_def wd_server_start_def wd_set_user_def Let_def split: option.split)

lemma wd_not_banned: "sv_banlist sv = [] \<Longrightarrow> \<not> fst (wd_banlist_ip_is_banned ip sv)"
  by (simp add: wd_banlist_ip_is_banned_def wd_banlist_delete_expired_def Let_def case_prod_beta)

definition wd_example_message :: "string \<Rightarrow> p7_message" where
  "wd_example_message name = \<lparr>m_name = name, m_fields =
     [(''wired.user.id'', P7_UInt32 2), (''wired.user.login'', P7_String ''guest''), (''wired.user.password'', P7_String ''secret''),
      (''wired.chat.id'', P7_UInt32 2), (''wired.message.offline_public_key'', P7_Data [1]),
      (''wired.info.application.name'', P7_String ''n''), (''wired.info.application.version'', P7_String ''v''), (''wired.info.application.build'', P7_String ''b''),
      (''wired.info.os.name'', P7_String ''n''), (''wired.info.os.version'', P7_String ''v''), (''wired.info.arch'', P7_String ''a'')]\<rparr>"

lemma wd_example_message:
  "m_name (wd_example_message name) = name" "p7_uint32_arg sv (wd_example_message name) ''wired.user.id'' = 2"
  "p7_string (wd_example_message name) ''wired.user.login'' = Some ''guest''"
  "p7_string (wd_example_message name) ''wired.user.password'' = Some ''secret''"
  "p7_uint32_arg sv (wd_example_message name) ''wired.chat.id'' = 2"
  "p7_data (wd_example_message name) ''wired.message.offline_public_key'' = Some [1]"
  "wd_message_complete (wd_example_message ''wired.client_info'')" "wd_message_complete (wd_example_message ''wired.send_login'')"
  "wd_message_complete (wd_example_message ''wired.user.get_info'')"
  by (simp_all add: wd_message_complete_def wd_message_strings_def wd_message_identifiers_def wd_example_message_def p7_uint32_arg_def p7_uint32_def p7_string_def p7_data_def p7_field_def)

definition wd_example_account :: wd_account where
  "wd_example_account =
     wi_dictionary_set (wi_dictionary_init 4 True 0 wi_string_hash (=) Default_Value_Callbacks)
       (AV_String ''secret'') ''wired.account.password''"

lemma wd_example_account:
  "wd_account_string ''wired.account.password'' wd_example_account = ''secret''"
  "wd_account_string ''wired.account.group'' wd_example_account = []"
proof -
  have "dict_keyed (=) (wi_dictionary_init 4 True 0 wi_string_hash (=) Default_Value_Callbacks :: wd_account)"
    by (rule dict_keyed_init) simp
  then show "wd_account_string ''wired.account.password'' wd_example_account = ''secret''"
    "wd_account_string ''wired.account.group'' wd_example_account = []"
    by (simp_all add: wd_example_account_def wd_account_string_def dict.lookup_put)
qed

definition wd_server_before_login :: wd_server where
  "wd_server_before_login = (wd_server_two (\<lambda>u. u\<lparr>u_state := WD_USER_GAVE_CLIENT_INFO,
       u_client_info := Some (wd_client_info_init_with_message (wd_server_start 4) \<lparr>m_name = ''wired.client_info'', m_fields = []\<rparr>)\<rparr>)
     (\<lambda>u. u))\<lparr>sv_db_users := [(''guest'', wd_example_account)]\<rparr>"

text \<open>User 1 is invited to the private chat 2.\<close>

definition wd_server_private :: wd_server where
  "wd_server_private = (let sv = wd_server_two (\<lambda>u. u) (\<lambda>u. u); (c, sv) = wd_chat_init_private_chat sv
     in wd_chats_add_chat (wd_chat_add_invitation_for_user c 1) sv)"

theorem wd_messages_handle_message_null_account_witness:
  "wd_messages_handle_message (\<lambda>_ _ _. Inr) 1 (wd_example_message ''wired.user.disconnect_user'')
     (wd_server_two (wd_example_login [''wired.account.user.disconnect_users'']) (\<lambda>u. u)) = Inl Null_Account"
  by (rule wd_messages_handle_message_null_account)
    (auto simp: wd_server_two(1) wd_example_login wd_example_message wd_privileged wd_fresh_user)

theorem wd_message_login_granted_witness:
  "\<exists>sv' u'. wd_messages_handle_message (\<lambda>_ _ _. Inr) 1 (wd_example_message ''wired.send_login'') wd_server_before_login = Inr sv' \<and>
     wd_users_user_with_id sv' 1 = Some u' \<and> u_state u' = WD_USER_LOGGED_IN"
proof -
  let ?f = "\<lambda>u. u\<lparr>u_state := WD_USER_GAVE_CLIENT_INFO,
       u_client_info := Some (wd_client_info_init_with_message (wd_server_start 4) \<lparr>m_name = ''wired.client_info'', m_fields = []\<rparr>)\<rparr>"
  let ?sv = "wd_server_two ?f (\<lambda>u. u)"
  have "wd_inv ?sv" by (rule wd_server_two(2)) (simp_all add: session_ok_def user_ok_def)
  then have i: "wd_inv wd_server_before_login"
    by (rule wd_inv_cong) (use wd_invD(2) [OF \<open>wd_inv ?sv\<close>] in \<open>simp_all add: wd_server_before_login_def tables_ok_def\<close>)
  have u: "wd_users_user_with_id wd_server_before_login 1 = Some (?f (wd_fresh_user 1 ''10.0.0.1''))"
    using wd_server_two(1) [of ?f "\<lambda>u. u" 1] by (simp add: wd_server_before_login_def wd_users_user_with_id_def)
  have f: "sv_writable wd_server_before_login 1" "sv_banlist wd_server_before_login = []"
    "sv_db_users wd_server_before_login = [(''guest'', wd_example_account)]" "sv_db_ok wd_server_before_login"
    by (simp_all add: wd_server_before_login_def wd_server_two_fields)
  have "wd_accounts_read_user_and_group (sv_garbage wd_server_before_login) wd_server_before_login ''guest'' = Some wd_example_account"
    by (simp add: wd_accounts_read_user_and_group_def wd_accounts_read_user_def f wd_example_account)
  with wd_message_login_granted [OF i u _ wd_example_message(1) f(1) wd_not_banned [OF f(2)] wd_example_message(3), where other = "\<lambda>_ _ _. Inr"]
  show ?thesis by (auto simp: wd_example_message wd_example_account wd_password_matches_def)
qed

theorem wd_messages_loop_end_count_witness:
  "\<exists>sv'. wd_messages_loop_end 1 (wd_server_two (\<lambda>u. u\<lparr>u_state := WD_USER_DISCONNECTED\<rparr>) (\<lambda>u. u)) = Inr sv' \<and>
     uint (sv_current_users sv') = 2 ^ 64 - 1"
proof -
  let ?f = "\<lambda>u. u\<lparr>u_state := WD_USER_DISCONNECTED\<rparr>"
  let ?sv = "wd_server_two ?f (\<lambda>u. u)"
  have i: "wd_inv ?sv" by (rule wd_server_two(2)) (simp_all add: session_ok_def user_ok_def)
  have u: "wd_users_user_with_id ?sv 1 = Some (?f (wd_fresh_user 1 ''10.0.0.1''))" by (simp add: wd_server_two(1))
  have "uint (- 1 :: 64 word) = 2 ^ 64 - 1" by (simp add: uint_word_ariths)
  with wd_messages_loop_end_count [OF i u wd_server_two_fields(1)] show ?thesis
    by (auto simp: wd_server_two_fields)
qed

theorem wd_message_login_spoofed_witness:
  "\<exists>sv' sv''. wd_messages_handle_message (\<lambda>_ _ _. Inr) 1 (wd_example_message ''wired.send_login'')
       (wd_server_two (wd_example_login [''wired.account.message.send_messages'']) (\<lambda>u. u)) = Inr sv' \<and>
     wd_messages_handle_message (\<lambda>_ _ _. Inr) 1 (wd_example_message ''wired.message.set_offline_public_key'') sv' = Inr sv'' \<and>
     map_of (sv_offline_keys sv'') ''guest'' = Some [1] \<and>
     (\<exists>u''. wd_users_user_with_id sv'' 1 = Some u'' \<and> u_state u'' = WD_USER_LOGGED_IN \<and> u_login u'' = Some ''guest'')"
proof -
  let ?f = "wd_example_login [''wired.account.message.send_messages'']"
  let ?sv = "wd_server_two ?f (\<lambda>u. u)"
  have i: "wd_inv ?sv" by (rule wd_server_two(2)) (simp_all add: wd_example_login)
  have u: "wd_users_user_with_id ?sv 1 = Some (?f (wd_fresh_user 1 ''10.0.0.1''))" by (simp add: wd_server_two(1))
  have n: "wd_accounts_read_user_and_group (sv_garbage ?sv) ?sv login = None" for login
    by (simp add: wd_accounts_read_user_and_group_def wd_accounts_read_user_def wd_server_two_fields)
  have b: "\<not> fst (wd_banlist_ip_is_banned (u_ip (?f (wd_fresh_user 1 ''10.0.0.1''))) ?sv)"
    by (rule wd_not_banned) (rule wd_server_two_fields)
  have "wd_account_boolean ''wired.account.message.send_messages'' (wd_privileged [''wired.account.message.send_messages''])"
    by (simp add: wd_privileged)
  from wd_message_login_spoofed [OF i u wd_example_login(2,3) this wd_server_two_fields(1) wd_example_message(1) b wd_example_message(3) _
      wd_example_message(1,6), where other = "\<lambda>_ _ _. Inr"]
  show ?thesis by (fastforce simp: n wd_server_two_fields)
qed

theorem wd_message_client_info_resets_witness:
  "\<exists>sv' u'. wd_messages_handle_message (\<lambda>_ _ _. Inr) 1 (wd_example_message ''wired.client_info'')
       (wd_server_two (\<lambda>u. u\<lparr>u_state := WD_USER_DISCONNECTED\<rparr>) (\<lambda>u. u)) = Inr sv' \<and>
     wd_users_user_with_id sv' 1 = Some u' \<and> u_state u' = WD_USER_GAVE_CLIENT_INFO"
proof -
  let ?f = "\<lambda>u. u\<lparr>u_state := WD_USER_DISCONNECTED\<rparr>"
  let ?sv = "wd_server_two ?f (\<lambda>u. u)"
  have i: "wd_inv ?sv" by (rule wd_server_two(2)) (simp_all add: session_ok_def user_ok_def)
  have u: "wd_users_user_with_id ?sv 1 = Some (?f (wd_fresh_user 1 ''10.0.0.1''))" by (simp add: wd_server_two(1))
  from wd_message_client_info_resets [OF i u wd_example_message(1), where other = "\<lambda>_ _ _. Inr"] show ?thesis
    by (auto simp: wd_fresh_user)
qed


theorem wd_message_chat_join_chat_invited_witness:
  "\<exists>sv' c'. wd_message_chat_join_chat 1 (wd_example_message ''wired.chat.join_chat'') wd_server_private = Inr sv' \<and>
     wd_chats_chat_with_id sv' 2 = Some c' \<and> c_users c' = [1] \<and> \<not> wd_chat_is_user_invited c' 1"
proof -
  let ?sv = "wd_server_two (\<lambda>u. u) (\<lambda>u. u)"
  have "wd_inv ?sv" by (rule wd_server_two(2)) simp_all
  from wd_good_add_private_chat [OF wd_good_refl [OF this], of "{}" 1]
  have g: "wd_good {} ?sv wd_server_private" by (simp add: wd_server_private_def case_prod_beta Let_def)
  then have i: "wd_inv wd_server_private" by (simp add: wd_good_def)
  have u: "wd_users_user_with_id wd_server_private 1 \<noteq> None"
    using wd_good_user(1) [OF g, of 1] by (simp add: wd_server_two(1))
  have k: "dict_keyed (=) (sv_chats ?sv)" using server_okD(4) [OF wd_invD(1) [OF \<open>wd_inv ?sv\<close>]] .
  have n: "sv_chats_current_id ?sv = 1" "sv_page ?sv = 4"
    by (simp_all add: wd_server_two_def wd_server_accept_def wd_user_init_with_socket_def wd_user_next_id_def wd_users_add_user_def
        wd_chats_initialize_def wd_chats_add_chat_def wd_server_start_def Let_def WD_PUBLIC_CHAT_ID_def wd_set_user_def
        split: option.split)
  define c where "c = wd_chat_add_invitation_for_user (wd_chat_init 4 2) 1"
  have c: "wd_chats_chat_with_id wd_server_private 2 = Some c"
    by (simp add: wd_server_private_def case_prod_beta wd_chat_init_private_chat_def wd_chat_next_id_def Let_def n c_def
        wd_chats_chat_with_id_def wd_chats_add_chat_def dict.lookup_put [OF k] wd_chat_init_def wd_chat_add_invitation_for_user_def)
  have "wd_chat_is_user_invited c 1" "\<not> wd_chat_contains_user c 1" "c_users c = []"
  proof -
    have s: "set_keyed False (wi_set_init 4 True 0 False wi_number_hash (=))" by (simp add: set_keyed_init)
    show "wd_chat_is_user_invited c 1" "\<not> wd_chat_contains_user c 1" "c_users c = []"
      by (simp_all add: c_def wd_chat_is_user_invited_def wd_chat_contains_user_def wd_chat_add_invitation_for_user_def
          wd_chat_init_def wi_set_contains_data [OF set_keyedD(2) [OF wiset.ok_add [OF s]]] wiset.occurrences_add [OF s])
  qed
  with wd_message_chat_join_chat_invited [OF i u _ _ c, of "wd_example_message ''wired.chat.join_chat''"]
  show ?thesis by (simp add: wd_example_message WD_PUBLIC_CHAT_ID_def)
qed

end
