(* ===== verification/Wd_Board_Claims.thy ===== *)
theory Wd_Board_Claims
  imports Wd_Protocol
begin

text \<open>
  What the boards do for their users: who is told of a change, what renaming and deleting a
  board do to the threads on it, who may change a thread or a post, and which messages crash
  the server.
\<close>

subsection \<open>Who is told\<close>

text \<open>The messages that a broadcast to the subscribers of the boards sends to one user.\<close>

definition wd_told :: "(wd_user \<Rightarrow> p7_message option wd_result) \<Rightarrow> wd_server \<Rightarrow> 32 word \<Rightarrow> (32 word \<times> p7_message) list" where
  "wd_told message sv peer =
     (let u = wd_user sv peer
      in if u_state u = WD_USER_LOGGED_IN \<and> u_subscribed_boards u \<and> u_transfer u = None \<and> sv_writable sv peer
         then (case message u of Inr (Some b) \<Rightarrow> [(peer, b)] | _ \<Rightarrow> []) else [])"

lemma wd_user_send_message_other:
  assumes "dict_keyed (=) (sv_users sv)"
  shows "dict_keyed (=) (sv_users (wd_user_send_message x m sv))"
    and "y \<noteq> x \<Longrightarrow> wd_user (wd_user_send_message x m sv) y = wd_user sv y"
    and "sv_writable (wd_user_send_message x m sv) = sv_writable sv"
  using wd_set_user_lookup [OF assms, of "\<lambda>u. u\<lparr>u_state := WD_USER_DISCONNECTED\<rparr>" x] assms
  by (simp_all add: wd_user_send_message_def wd_user_set_state_def wd_user_def)

lemma wd_told_send:
  "dict_keyed (=) (sv_users sv) \<Longrightarrow> y \<noteq> x \<Longrightarrow> wd_told message (wd_user_send_message x m sv) y = wd_told message sv y"
  by (simp add: wd_told_def wd_user_send_message_other)

lemma wd_boards_broadcast_sent:
  assumes "dict_keyed (=) (sv_users sv)" and "wd_boards_broadcast message sv = Inr sv'"
  shows "wd_quiet sv sv' \<and> sv_out sv' = sv_out sv @ concat (map (wd_told message sv) (dict_keys (sv_users sv)))"
proof -
  let ?f = "\<lambda>peer sv.
       let u = wd_user sv peer
       in if u_state u = WD_USER_LOGGED_IN \<and> u_subscribed_boards u then
            wd_bind (message u) (\<lambda>broadcast.
              Inr (case broadcast of Some b \<Rightarrow> wd_user_send_message peer b sv | None \<Rightarrow> sv))
          else Inr sv"
  have "wd_quiet sv sv' \<and> sv_out sv' = sv_out sv @ concat (map (wd_told message sv) xs)"
    if "dict_keyed (=) (sv_users sv)" "distinct xs" "wd_each ?f xs sv = Inr sv'" for xs sv sv'
    using that
  proof (induction xs arbitrary: sv)
    case (Cons x xs)
    show ?case
    proof (cases "?f x sv")
      case (Inl e)
      with Cons.prems(3) show ?thesis by simp
    next
      case (Inr sv1)
      then have rest: "wd_each ?f xs sv1 = Inr sv'" using Cons.prems(3) by simp
      have "sv1 = sv \<and> wd_told message sv x = [] \<or> (\<exists>b. sv1 = wd_user_send_message x b sv \<and> message (wd_user sv x) = Inr (Some b) \<and>
          u_state (wd_user sv x) = WD_USER_LOGGED_IN \<and> u_subscribed_boards (wd_user sv x))"
        using Inr by (cases "message (wd_user sv x)") (auto simp: wd_told_def Let_def split: if_splits option.splits)
      then show ?thesis
      proof (elim disjE exE conjE)
        assume "sv1 = sv" "wd_told message sv x = []"
        with Cons.IH [of sv] Cons.prems rest show ?thesis by simp
      next
        fix b assume s: "sv1 = wd_user_send_message x b sv" and b: "message (wd_user sv x) = Inr (Some b)"
          "u_state (wd_user sv x) = WD_USER_LOGGED_IN" "u_subscribed_boards (wd_user sv x)"
        have o: "sv_out sv1 = sv_out sv @ wd_told message sv x"
          using b by (simp add: s wd_told_def Let_def wd_user_send_message_def wd_user_set_state_def)
        have "concat (map (wd_told message sv1) xs) = concat (map (wd_told message sv) xs)"
          unfolding s by (rule arg_cong [of _ _ concat], rule map_cong [OF refl], rule wd_told_send [OF Cons.prems(1)]) (use Cons.prems(2) in auto)
        moreover have "wd_quiet sv1 sv' \<and> sv_out sv' = sv_out sv1 @ concat (map (wd_told message sv1) xs)"
          using Cons.IH [OF _ _ rest] Cons.prems(1,2) wd_user_send_message_other(1) by (simp add: s)
        ultimately show ?thesis
          using o wd_quiet_trans [OF wd_user_send_message_quiet [of sv x b]] by (simp add: s)
      qed
    qed
  qed simp
  from this [OF assms(1) dict_keys_entries(2) [OF assms(1)]] assms(2) show ?thesis unfolding wd_boards_broadcast_def .
qed

lemma wd_quiet_boards:
  assumes "wd_quiet sv sv'"
  shows "sv_boards sv' = sv_boards sv" "sv_threads sv' = sv_threads sv" "sv_posts sv' = sv_posts sv"
  using assms by (auto simp: wd_quiet_def)

lemma wd_inv_keyed: "wd_inv sv \<Longrightarrow> dict_keyed (=) (sv_users sv)"
  using server_okD(3) wd_invD(1) by blast

subsection \<open>Privileges\<close>

text \<open>The mode survives the 32 bits of the database, and each bit is what the message said.\<close>

lemma wd_board_mode_bits:
  "and (bp_mode (wd_board_privileges_with_message sv m)) WD_BOARD_OWNER_READ \<noteq> 0 \<longleftrightarrow> p7_bool_arg sv m ''wired.board.owner.read''"
  "and (bp_mode (wd_board_privileges_with_message sv m)) WD_BOARD_OWNER_WRITE \<noteq> 0 \<longleftrightarrow> p7_bool_arg sv m ''wired.board.owner.write''"
  "and (bp_mode (wd_board_privileges_with_message sv m)) WD_BOARD_GROUP_READ \<noteq> 0 \<longleftrightarrow> p7_bool_arg sv m ''wired.board.group.read''"
  "and (bp_mode (wd_board_privileges_with_message sv m)) WD_BOARD_GROUP_WRITE \<noteq> 0 \<longleftrightarrow> p7_bool_arg sv m ''wired.board.group.write''"
  "and (bp_mode (wd_board_privileges_with_message sv m)) WD_BOARD_EVERYONE_READ \<noteq> 0 \<longleftrightarrow> p7_bool_arg sv m ''wired.board.everyone.read''"
  "and (bp_mode (wd_board_privileges_with_message sv m)) WD_BOARD_EVERYONE_WRITE \<noteq> 0 \<longleftrightarrow> p7_bool_arg sv m ''wired.board.everyone.write''"
  by (simp_all add: wd_board_privileges_with_message_def Let_def wd_board_permissions)

lemma wd_board_mode_stored:
  "(scast (ucast (bp_mode (wd_board_privileges_with_message sv m)) :: 32 word) :: 64 word) = bp_mode (wd_board_privileges_with_message sv m)"
  by (simp add: wd_board_privileges_with_message_def Let_def wd_board_permissions)

subsection \<open>Setting the privileges of a board\<close>

lemma wd_boards_broadcast_returns:
  assumes "wd_inv sv" and "sv_db_ok sv" and "\<And>u e. u_account u \<noteq> None \<Longrightarrow> message u \<noteq> Inl e"
  obtains sv' where "wd_boards_broadcast message sv = Inr sv'" and "wd_quiet sv sv'"
    and "sv_out sv' = sv_out sv @ concat (map (wd_told message sv) (dict_keys (sv_users sv)))"
proof -
  have "wd_safe {} sv {} (wd_boards_broadcast message sv)"
    using assms(3) by (intro wd_safe_broadcast wd_good_refl assms(1)) auto
  with assms(2) obtain sv' where "wd_boards_broadcast message sv = Inr sv'"
    by (cases "wd_boards_broadcast message sv") (auto simp: wd_safe_def)
  with wd_boards_broadcast_sent [OF wd_inv_keyed [OF assms(1)]] that show thesis by blast
qed

lemma wd_told_cong:
  "sv_users sv' = sv_users sv \<Longrightarrow> sv_writable sv' = sv_writable sv \<Longrightarrow> wd_told message sv' = wd_told message sv"
  by (rule ext) (simp add: wd_told_def wd_user_def)

lemma wd_inv_boards: "boards_step sv sv' \<Longrightarrow> wd_inv sv \<Longrightarrow> wd_inv sv'"
  using wd_good_boards [OF _ wd_good_refl] by (simp add: wd_good_def)

lemma wd_boards_set_board_info_effect:
  assumes "wd_inv sv" and "sv_db_ok sv" and "wd_boards_board sv board = Some b"
  shows "\<exists>sv'. wd_boards_set_board_info board uid m sv = Inr (True, sv') \<and>
    wd_boards_privileges_for_board board sv' = Inr (Some (wd_board_privileges_with_message sv m)) \<and>
    (\<forall>k. k \<noteq> board \<longrightarrow> wd_boards_board sv' k = wd_boards_board sv k) \<and>
    sv_out sv' = sv_out sv @ concat (map (wd_told (wd_board_info_change board (Some (wd_board_privileges_with_sqlite3_results b))
      (Some (wd_board_privileges_with_message sv m))) sv) (dict_keys (sv_users sv)))"
proof -
  let ?new = "wd_board_privileges_with_message sv m"
  let ?old = "wd_board_privileges_with_sqlite3_results b"
  let ?f = "\<lambda>b. if bo_board b = board
    then b\<lparr>bo_owner := bp_owner ?new, bo_group := bp_group ?new, bo_mode := sint (ucast (bp_mode ?new) :: 32 word)\<rparr> else b"
  define sv1 where "sv1 = sv\<lparr>sv_boards := map ?f (sv_boards sv)\<rparr>"
  have "boards_step sv sv1"
    using boards_step_edit [of ?f "\<lambda>t. t" "\<lambda>p. p" sv "\<lambda>_. True"] by (simp add: sv1_def)
  then have inv: "wd_inv sv1" "sv_db_ok sv1" using assms(1,2) wd_inv_boards by (auto simp: sv1_def)
  have n: "wd_board_info_change board (Some ?old) (Some ?new) u \<noteq> Inl e" if "u_account u \<noteq> None" for u e
    using that by (auto dest!: wd_board_info_change_crash)
  obtain sv' where s: "wd_boards_broadcast (wd_board_info_change board (Some ?old) (Some ?new)) sv1 = Inr sv'" "wd_quiet sv1 sv'"
    "sv_out sv' = sv_out sv1 @ concat (map (wd_told (wd_board_info_change board (Some ?old) (Some ?new)) sv1) (dict_keys (sv_users sv1)))"
    by (rule wd_boards_broadcast_returns [OF inv, where message = "wd_board_info_change board (Some ?old) (Some ?new)"])
      (use n in blast)+
  have l: "wd_boards_board sv' k = map_option ?f (wd_boards_board sv k)" for k
    using wd_boards_board_map [of ?f sv k] wd_quiet_boards(1) [OF s(2)] by (simp add: sv1_def wd_boards_board_def)
  have "wd_boards_set_board_info board uid m sv = Inr (True, sv')"
    using s(1) assms(2,3) by (simp add: wd_boards_set_board_info_def wd_boards_privileges_for_board_def Let_def sv1_def)
  moreover have "wd_boards_privileges_for_board board sv' = Inr (Some ?new)"
    using wd_quiet_fields(3) [OF s(2)] inv(2) wd_boards_board_Some [OF assms(3)]
    by (simp add: wd_boards_privileges_for_board_def l assms(3) wd_board_privileges_with_sqlite3_results_def wd_board_mode_stored
        wd_board_privileges.equality)
  moreover have "wd_boards_board sv' k = wd_boards_board sv k" if "k \<noteq> board" for k
    using that wd_boards_board_Some by (cases "wd_boards_board sv k") (auto simp: l)
  moreover have "sv_out sv' = sv_out sv @ concat (map (wd_told (wd_board_info_change board (Some ?old) (Some ?new)) sv) (dict_keys (sv_users sv)))"
    using s(3) wd_told_cong [of sv1 sv] by (simp add: sv1_def)
  ultimately show ?thesis by blast
qed

text \<open>
  What a user should be told whose rights to read and to write a board were \<open>old\<close> and are now
  \<open>new\<close>. Rights of a user without an account are not asked for.
\<close>

definition wd_board_rights_of :: "wd_board_privileges \<Rightarrow> wd_account option \<Rightarrow> bool \<times> bool" where
  "wd_board_rights_of privileges account =
     (case wd_board_rights (Some privileges) account of Inr rights \<Rightarrow> rights | Inl _ \<Rightarrow> (False, False))"

definition wd_board_news :: "string \<Rightarrow> bool \<times> bool \<Rightarrow> bool \<times> bool \<Rightarrow> p7_message list" where
  "wd_board_news board old new =
     (case (old \<noteq> (False, False), new \<noteq> (False, False)) of
        (True, False) \<Rightarrow> [wd_board_deleted_message board]
      | (False, True) \<Rightarrow> [wd_board_added_message ''wired.board.board_added'' board new]
      | (True, True) \<Rightarrow> [wd_board_added_message ''wired.board.board_info_changed'' board new]
      | (False, False) \<Rightarrow> [])"

lemma wd_told_news:
  assumes "wd_inv sv" and "peer \<in> set (dict_keys (sv_users sv))"
  shows "wd_told (wd_board_info_change board (Some old) (Some new)) sv peer =
    map (Pair peer) (let u = wd_user sv peer
      in if u_state u = WD_USER_LOGGED_IN \<and> u_subscribed_boards u \<and> u_transfer u = None \<and> sv_writable sv peer
         then wd_board_news board (wd_board_rights_of old (u_account u)) (wd_board_rights_of new (u_account u)) else [])"
proof (cases "u_state (wd_user sv peer) = WD_USER_LOGGED_IN")
  case True
  obtain u where u: "wd_users_user_with_id sv peer = Some u" "wd_user sv peer = u"
    using assms(2) by (auto simp: dict_keys_entries(3) [OF wd_inv_keyed [OF assms(1)]] wd_user_def wd_users_user_with_id_def)
  then have "u_account u \<noteq> None"
    using True wd_invD(3) [OF assms(1) u(1)] by (auto simp: session_ok_def user_ok_def)
  then have "wd_board_rights (Some p) (u_account u) = Inr (wd_board_rights_of p (u_account u))" for p
    by (cases "wd_board_rights (Some p) (u_account u)") (auto simp: wd_board_rights_of_def dest: wd_board_rights_crash)
  then show ?thesis
    by (cases "wd_board_rights_of old (u_account u)"; cases "wd_board_rights_of new (u_account u)")
      (auto simp: wd_told_def u(2) wd_board_info_change_def wd_board_news_def Let_def)
qed (simp add: wd_told_def Let_def)

text \<open>
  C20: Setting the privileges of a board that is there succeeds. The board has the new
  privileges and no other board changes; and of the users who are logged in, take messages and
  have subscribed to the boards, each is told what changes for it: that the board is there, if
  it could neither read nor write it before and can now; that it is gone, if it could and cannot
  now; what it may do now, if it could and can; and nothing, if it could not and cannot.
\<close>

theorem wd_boards_set_board_info_told:
  assumes "wd_inv sv" and "sv_db_ok sv" and "wd_boards_board sv board = Some b"
  shows "\<exists>sv'. wd_boards_set_board_info board uid m sv = Inr (True, sv') \<and>
    wd_boards_privileges_for_board board sv' = Inr (Some (wd_board_privileges_with_message sv m)) \<and>
    (\<forall>k. k \<noteq> board \<longrightarrow> wd_boards_board sv' k = wd_boards_board sv k) \<and>
    sv_out sv' = sv_out sv @ concat (map (\<lambda>peer. map (Pair peer) (let u = wd_user sv peer
      in if u_state u = WD_USER_LOGGED_IN \<and> u_subscribed_boards u \<and> u_transfer u = None \<and> sv_writable sv peer
         then wd_board_news board (wd_board_rights_of (wd_board_privileges_with_sqlite3_results b) (u_account u))
                (wd_board_rights_of (wd_board_privileges_with_message sv m) (u_account u))
         else [])) (dict_keys (sv_users sv)))"
  using wd_boards_set_board_info_effect [OF assms, of uid m] wd_told_news [OF assms(1), of _ board] by (simp cong: map_cong)

text \<open>
  C22: What an administrator sets is what an administrator is shown: after the privileges of a
  board were set by a message, the information on the board names the owner and the group and
  the six rights of that message.
\<close>

theorem wd_board_info_roundtrip:
  assumes "wd_inv sv" and "wd_boards_has_board_with_name board sv"
    and "wd_boards_set_board_info board uid m sv = Inr (True, sv')"
  shows "\<exists>reply. wd_boards_get_board_info board uid' m' sv' = Inr (True, wd_user_reply_message uid' reply m' sv') \<and>
    m_name reply = ''wired.board.board_info'' \<and> p7_string reply ''wired.board.board'' = Some board \<and>
    p7_string reply ''wired.board.owner'' = Some (p7_string_arg m ''wired.board.owner'') \<and>
    p7_string reply ''wired.board.group'' = Some (p7_string_arg m ''wired.board.group'') \<and>
    (\<forall>f \<in> {''wired.board.owner.read'', ''wired.board.owner.write'', ''wired.board.group.read'', ''wired.board.group.write'',
        ''wired.board.everyone.read'', ''wired.board.everyone.write''}. p7_field reply f = Some (P7_Bool (p7_bool_arg sv m f)))"
proof -
  let ?p = "wd_board_privileges_with_message sv m"
  obtain b where "wd_boards_board sv board = Some b" and db: "sv_db_ok sv"
    using assms(2) by (auto simp: wd_boards_has_board_with_name_def)
  then have "wd_boards_privileges_for_board board sv' = Inr (Some ?p)"
    using wd_boards_set_board_info_effect [OF assms(1), of board b uid m] assms(3) by auto
  then show ?thesis
    by (intro exI [of _ "wd_board_info_message board ?p"])
      (simp add: wd_boards_get_board_info_def wd_board_info_message_def p7_field_def p7_string_def wd_board_mode_bits,
        simp add: wd_board_privileges_with_message_def Let_def)
qed

subsection \<open>Threads and posts that are not there\<close>

text \<open>
  C5: A user who is logged in and may edit or delete threads and posts crashes the server by
  naming one that is not there: of a thread that cannot be found by the edit of a thread, or a
  post that cannot be found by the edit or the deletion of a post, the program reads the mode
  of the board, which is NULL, before it looks whether a row was found.
\<close>

theorem wd_board_missing_row_crashes:
  assumes "wd_users_user_with_id sv uid = Some u" and "u_state u = WD_USER_LOGGED_IN" and "u_account u = Some account"
    and "sv_db_ok sv"
    and "m_name m = ''wired.board.edit_thread'' \<and> wd_boards_thread sv (p7_uuid_arg m ''wired.board.thread'') = None \<and>
        (wd_account_boolean ''wired.account.board.edit_own_threads_and_posts'' account \<or>
         wd_account_boolean ''wired.account.board.edit_all_threads_and_posts'' account) \<or>
      m_name m = ''wired.board.edit_post'' \<and> wd_boards_post sv (p7_uuid_arg m ''wired.board.post'') = None \<and>
        (wd_account_boolean ''wired.account.board.edit_own_threads_and_posts'' account \<or>
         wd_account_boolean ''wired.account.board.edit_all_threads_and_posts'' account) \<or>
      m_name m = ''wired.board.delete_post'' \<and> wd_boards_post sv (p7_uuid_arg m ''wired.board.post'') = None \<and>
        (wd_account_boolean ''wired.account.board.delete_own_threads_and_posts'' account \<or>
         wd_account_boolean ''wired.account.board.delete_all_threads_and_posts'' account)"
  shows "wd_messages_handle_message other uid m sv = Inl Missing_Row"
proof -
  have h: "map_of wd_message_handlers ''wired.board.edit_thread'' = Some H_board_edit_thread"
    "map_of wd_message_handlers ''wired.board.edit_post'' = Some H_board_edit_post"
    "map_of wd_message_handlers ''wired.board.delete_post'' = Some H_board_delete_post"
    by (simp_all add: wd_message_handlers_def)
  show ?thesis
    using assms(5)
    by (elim disjE conjE)
      (simp_all add: wd_messages_handle_message_def h wd_user_of [OF assms(1)] assms(2-4) wd_with_either_privilege_def
        wd_message_board_edit_thread_def wd_message_board_edit_post_def wd_message_board_delete_post_def Let_def wd_if_done_def
        wd_boards_edit_thread_def wd_boards_edit_post_def wd_boards_delete_post_def wd_boards_changeable_post_def
        wd_boards_privileges_for_thread_def wd_boards_privileges_for_post_def)
qed

subsection \<open>Who may change a post\<close>

text \<open>\<open>wd_posts\<close>: after an operation that returns, the posts of the set are still there as they were.\<close>

definition wd_posts :: "wd_post set \<Rightarrow> wd_server wd_result \<Rightarrow> bool" where
  "wd_posts X r \<longleftrightarrow> (\<forall>sv'. r = Inr sv' \<longrightarrow> X \<subseteq> set (sv_posts sv'))"

definition wd_posts_pair :: "wd_post set \<Rightarrow> (bool \<times> wd_server) wd_result \<Rightarrow> bool" where
  "wd_posts_pair X r \<longleftrightarrow> (\<forall>ok sv'. r = Inr (ok, sv') \<longrightarrow> X \<subseteq> set (sv_posts sv'))"

named_theorems wd_post_rules "rules for the posts that stay"

lemma wd_posts_Inr [wd_post_rules]: "X \<subseteq> set (sv_posts sv) \<Longrightarrow> wd_posts X (Inr sv)"
  and wd_posts_Inl [wd_post_rules]: "wd_posts X (Inl e)"
  and wd_posts_pair_Inr [wd_post_rules]: "X \<subseteq> set (sv_posts sv) \<Longrightarrow> wd_posts_pair X (Inr (ok, sv))"
  and wd_posts_pair_Inl [wd_post_rules]: "wd_posts_pair X (Inl e)"
  by (simp_all add: wd_posts_def wd_posts_pair_def)

lemma wd_posts_bind: "wd_posts X r \<Longrightarrow> (\<And>sv. X \<subseteq> set (sv_posts sv) \<Longrightarrow> wd_posts X (f sv)) \<Longrightarrow> wd_posts X (wd_bind r f)"
  and wd_posts_pair_bind: "wd_posts X r \<Longrightarrow> (\<And>sv. X \<subseteq> set (sv_posts sv) \<Longrightarrow> wd_posts_pair X (g sv)) \<Longrightarrow> wd_posts_pair X (wd_bind r g)"
  and wd_posts_done: "wd_posts X r \<Longrightarrow> wd_posts_pair X (wd_bind r (\<lambda>sv. Inr (ok, sv)))"
  by (cases r; simp add: wd_posts_def wd_posts_pair_def)+

lemma wd_posts_value: "(\<And>x. r = Inr x \<Longrightarrow> wd_posts X (f x)) \<Longrightarrow> wd_posts X (wd_bind r f)"
  and wd_posts_pair_value: "(\<And>x. r = Inr x \<Longrightarrow> wd_posts_pair X (g x)) \<Longrightarrow> wd_posts_pair X (wd_bind r g)"
  by (cases r; simp add: wd_posts_def wd_posts_pair_def)+

lemma wd_posts_if_done:
  "wd_posts_pair X r \<Longrightarrow> (\<And>sv. X \<subseteq> set (sv_posts sv) \<Longrightarrow> wd_posts X (continue sv)) \<Longrightarrow> wd_posts X (wd_if_done continue r)"
  by (cases r) (auto simp: wd_posts_def wd_posts_pair_def wd_if_done_def split: if_splits del: subsetI)

lemma wd_posts_quiet: "wd_quiet sv sv' \<Longrightarrow> X \<subseteq> set (sv_posts sv) \<Longrightarrow> X \<subseteq> set (sv_posts sv')"
  by (simp add: wd_quiet_boards)

lemmas wd_posts_sends [wd_post_rules] =
  wd_reply_quiets [THEN wd_posts_quiet] wd_user_send_message_quiet [THEN wd_posts_quiet]

lemma wd_posts_error [wd_post_rules]: "X \<subseteq> set (sv_posts sv) \<Longrightarrow> wd_posts X (wd_reply_error uid err m sv)"
  unfolding wd_reply_error_def by (intro wd_post_rules)

lemma wd_posts_event: "X \<subseteq> set (sv_posts sv) \<Longrightarrow> wd_posts X (wd_events_add_event event uid ps sv)"
  using wd_events_add_event_quiet wd_quiet_boards(3) unfolding wd_posts_def by fastforce

lemma wd_posts_okay_event:
  "X \<subseteq> set (sv_posts sv) \<Longrightarrow> wd_posts X (wd_events_add_event event uid ps (wd_user_reply_okay uid m sv))"
  by (intro wd_posts_event wd_post_rules)

lemma wd_posts_each:
  "(\<And>x sv. X \<subseteq> set (sv_posts sv) \<Longrightarrow> wd_posts X (f x sv)) \<Longrightarrow> X \<subseteq> set (sv_posts sv) \<Longrightarrow> wd_posts X (wd_each f xs sv)"
  by (induction xs arbitrary: sv) (auto intro: wd_posts_bind wd_posts_Inr)

lemma wd_posts_broadcast: "X \<subseteq> set (sv_posts sv) \<Longrightarrow> wd_posts X (wd_boards_broadcast message sv)"
  unfolding wd_boards_broadcast_def Let_def
  by (rule wd_posts_each) (auto split: option.split intro!: wd_posts_value wd_post_rules del: subsetI)

lemma wd_posts_changed_thread: "X \<subseteq> set (sv_posts sv) \<Longrightarrow> wd_posts X (wd_boards_changed_thread thread privileges sv)"
  unfolding wd_boards_changed_thread_def by (auto intro: wd_posts_broadcast wd_posts_Inr)

lemma wd_posts_privilege:
  assumes "X \<subseteq> set (sv_posts sv)"
    and "\<And>account. u_account (wd_user sv uid) = Some account \<Longrightarrow> wd_account_boolean field account \<Longrightarrow> wd_posts X (handle sv)"
  shows "wd_posts X (wd_with_privilege field uid m handle sv)"
  unfolding wd_with_privilege_def using assms by (auto split: option.split intro!: wd_post_rules del: subsetI)

text \<open>The account of the user has one of two privileges, which the handlers of posts ask for.\<close>

definition wd_either_right :: "string \<Rightarrow> string \<Rightarrow> wd_server \<Rightarrow> 32 word \<Rightarrow> bool" where
  "wd_either_right own every sv uid \<longleftrightarrow>
     (\<exists>account. u_account (wd_user sv uid) = Some account \<and> (wd_account_boolean own account \<or> wd_account_boolean every account))"

lemma wd_posts_either_privilege:
  assumes "X \<subseteq> set (sv_posts sv)" and "wd_either_right field1 field2 sv uid \<Longrightarrow> wd_posts X (handle sv)"
  shows "wd_posts X (wd_with_either_privilege field1 field2 uid m handle sv)"
  unfolding wd_with_either_privilege_def
  using assms by (auto simp: wd_either_right_def split: option.split intro!: wd_post_rules del: subsetI)

lemma wd_posts_with_board:
  assumes "X \<subseteq> set (sv_posts sv)" and "\<And>board. board = p7_string_arg m ''wired.board.board'' \<Longrightarrow> wd_posts X (handle board sv)"
  shows "wd_posts X (wd_with_board uid m handle sv)"
  unfolding wd_with_board_def Let_def using assms by (auto intro!: wd_post_rules del: subsetI)

text \<open>The statements that rename boards and move threads do not touch the posts.\<close>

lemma wd_db_rename_posts:
  "wd_db_rename_board old new sv = Some sv' \<Longrightarrow> sv_posts sv' = sv_posts sv"
  "wd_db_move_threads old new sv = Some sv' \<Longrightarrow> sv_posts sv' = sv_posts sv"
  "wd_db_rename_subboard old new sv = Some sv' \<Longrightarrow> sv_posts sv' = sv_posts sv"
  by (auto simp: wd_db_rename_board_def wd_db_move_threads_def wd_db_rename_subboard_def bind_eq_Some_conv split: if_splits)

lemma wd_boards_rename_subboards_posts:
  "case wd_boards_rename_subboards pairs sv of Inl sv' \<Rightarrow> sv_posts sv' = sv_posts sv | Inr sv' \<Rightarrow> sv_posts sv' = sv_posts sv"
proof (induction pairs sv rule: wd_boards_rename_subboards.induct)
  case (2 old new pairs sv)
  then show ?case using wd_db_rename_posts(3) [of old new sv] by (auto split: option.split sum.splits)
qed simp

lemma wd_boards_move_subboards_posts:
  assumes "wd_boards_move_subboards oldboard newboard rows delivered sv = Some r"
  shows "\<forall>sv'. r = Inr sv' \<longrightarrow> sv_posts sv' = sv_posts sv"
proof (induction rule: wd_boards_move_subboards.raw_induct [OF _ assms])
  case (1 move oldboard newboard rows delivered sv r)
  then show ?case
    using wd_db_rename_posts(3) by (fastforce split: option.splits)
qed

lemma wd_posts_renamed: "X \<subseteq> set (sv_posts sv) \<Longrightarrow> wd_posts_pair X (wd_boards_renamed name old new uid m sv)"
  unfolding wd_boards_renamed_def
  by (auto split: option.split dest: wd_db_rename_posts(2) intro!: wd_post_rules wd_posts_pair_value wd_posts_done wd_posts_broadcast del: subsetI)

lemma wd_posts_reply_boards: "X \<subseteq> set (sv_posts sv) \<Longrightarrow> wd_posts X (wd_boards_reply_boards uid m sv)"
  unfolding wd_boards_reply_boards_def
  by (auto intro!: wd_posts_bind [OF wd_posts_each] wd_posts_value [where r = "wd_board_rights _ _"] wd_post_rules del: subsetI)

lemma wd_posts_reply_threads: "X \<subseteq> set (sv_posts sv) \<Longrightarrow> wd_posts X (wd_boards_reply_threads board uid m sv)"
  unfolding wd_boards_reply_threads_def
  by (auto intro!: wd_posts_bind [OF wd_posts_each] wd_posts_value [where r = "wd_boards_privileges_joined _"]
      wd_posts_value [where r = "wd_board_privileges_is_readable_by_account _ _"] wd_post_rules del: subsetI)

lemma wd_posts_reply_thread: "X \<subseteq> set (sv_posts sv) \<Longrightarrow> wd_posts_pair X (wd_boards_reply_thread thread uid m sv)"
  unfolding wd_boards_reply_thread_def
  by (auto split: option.split intro!: wd_post_rules wd_posts_pair_value [where r = "wd_boards_privileges_joined _"]
      wd_posts_pair_value [where r = "wd_board_privileges_is_readable_by_account _ _"] wd_posts_pair_value [where r = "wd_thread_message _"]
      wd_posts_pair_bind [OF wd_posts_each] wd_posts_value [where r = "wd_post_list_message _ _"] del: subsetI)

lemma wd_posts_plain:
  assumes "X \<subseteq> set (sv_posts sv)"
  shows "wd_posts X (wd_message_board_get_boards uid m sv)"
    "wd_posts X (wd_message_board_get_threads uid m sv)"
    "wd_posts X (wd_message_board_get_thread uid m sv)"
    "wd_posts X (wd_message_board_get_board_info uid m sv)"
proof -
  note p = wd_posts_privilege [OF assms]
  show "wd_posts X (wd_message_board_get_boards uid m sv)"
    unfolding wd_message_board_get_boards_def
    by (rule p, rule wd_posts_bind [OF wd_posts_reply_boards wd_posts_event]) (rule assms)
  show "wd_posts X (wd_message_board_get_threads uid m sv)"
    unfolding wd_message_board_get_threads_def Let_def
    by (rule p) (simp add: wd_posts_error assms wd_posts_bind [OF wd_posts_reply_threads wd_posts_event])
  show "wd_posts X (wd_message_board_get_thread uid m sv)"
    unfolding wd_message_board_get_thread_def Let_def
    by (rule p, rule wd_posts_if_done [OF wd_posts_reply_thread wd_posts_event]) (rule assms)
  show "wd_posts X (wd_message_board_get_board_info uid m sv)"
    unfolding wd_message_board_get_board_info_def wd_boards_get_board_info_def
    by (rule p, rule wd_posts_with_board [OF assms])
      (auto intro!: assms wd_posts_if_done [OF _ wd_posts_event] wd_posts_pair_value wd_post_rules split: option.split del: subsetI)
qed

lemma wd_posts_boards:
  assumes "X \<subseteq> set (sv_posts sv)"
  shows "wd_posts X (wd_message_board_add_board uid m sv)"
    "wd_posts X (wd_message_board_rename_board uid m sv)"
    "wd_posts X (wd_message_board_move_board uid m sv)"
    "wd_posts X (wd_message_board_set_board_info uid m sv)"
proof -
  note p = wd_posts_privilege [OF assms]
  note d = wd_posts_if_done [OF _ wd_posts_okay_event]
  have "wd_posts_pair X (wd_boards_add_board board uid m sv)" for board
    unfolding wd_boards_add_board_def Let_def using assms
    by (auto intro!: wd_posts_done wd_posts_broadcast wd_post_rules del: subsetI)
  then show "wd_posts X (wd_message_board_add_board uid m sv)"
    unfolding wd_message_board_add_board_def Let_def
    by (intro p) (auto intro!: assms wd_posts_error d del: subsetI)
  have "wd_posts_pair X (wd_boards_rename_board old new uid m sv)" for old new
    using assms wd_boards_rename_subboards_posts [where pairs = "wd_boards_subboards old new s" and sv = s for s]
    by (fastforce simp: wd_boards_rename_board_def split: option.split sum.splits dest: wd_db_rename_posts(1)
        intro!: wd_post_rules wd_posts_renamed del: subsetI)
  then show "wd_posts X (wd_message_board_rename_board uid m sv)"
    unfolding wd_message_board_rename_board_def Let_def
    by (intro p) (auto intro!: assms wd_posts_error wd_posts_Inl d split: sum.split del: subsetI)
  have "wd_posts_pair X (wd_boards_move_board old new uid m sv)" for old new
    using assms
    by (auto simp: wd_boards_move_board_def split: option.split dest: wd_db_rename_posts(1)
        dest!: wd_boards_move_subboards_posts intro!: wd_post_rules wd_posts_pair_value wd_posts_renamed del: subsetI)
  then show "wd_posts X (wd_message_board_move_board uid m sv)"
    unfolding wd_message_board_move_board_def Let_def
    by (intro p) (auto intro!: assms wd_posts_error d del: subsetI)
  have "wd_posts_pair X (wd_boards_set_board_info board uid m sv)" for board
    unfolding wd_boards_set_board_info_def Let_def
    by (rule wd_posts_pair_value) (auto intro!: assms wd_posts_done wd_posts_broadcast wd_post_rules del: subsetI)
  then show "wd_posts X (wd_message_board_set_board_info uid m sv)"
    unfolding wd_message_board_set_board_info_def
    by (intro p wd_posts_with_board d) (rule assms)
qed

lemma wd_posts_threads:
  assumes "X \<subseteq> set (sv_posts sv)"
  shows "wd_posts X (wd_message_board_add_thread uid m sv)"
    "wd_posts X (wd_message_board_edit_thread uid m sv)"
    "wd_posts X (wd_message_board_move_thread uid m sv)"
    "wd_posts X (wd_message_board_add_post uid m sv)"
proof -
  note d = wd_posts_if_done [OF _ wd_posts_okay_event]
  note e = wd_posts_either_privilege [OF assms]
  note p = wd_posts_privilege [OF assms]
  have uuid: "sv_posts (snd (wi_uuid s)) = sv_posts s" for s by (simp add: wi_uuid_def)
  have ins: "wd_db_insert_thread thread board subject body u s = Some s' \<Longrightarrow> sv_posts s' = sv_posts s" for thread board subject body u s s'
    by (auto simp: wd_db_insert_thread_def split: option.splits if_splits)
  have inp: "wd_db_insert_post post thread body u s = Some s' \<Longrightarrow> set (sv_posts s) \<subseteq> set (sv_posts s')" for post thread body u s s'
    by (auto simp: wd_db_insert_post_def split: option.splits if_splits)
  have "wd_posts_pair X (wd_boards_add_thread board subject body uid m sv)" for board subject body
    unfolding wd_boards_add_thread_def Let_def case_prod_beta using assms
    by (auto split: option.split dest!: ins simp: uuid intro!: wd_post_rules wd_posts_pair_value [where r = "wd_boards_privileges_for_board _ _"]
        wd_posts_pair_value [where r = "wd_board_privileges_is_writable_by_account _ _"] wd_posts_done wd_posts_broadcast del: subsetI)
  then show "wd_posts X (wd_message_board_add_thread uid m sv)"
    unfolding wd_message_board_add_thread_def Let_def by (intro p wd_posts_with_board assms d)
  have "wd_posts_pair X (wd_boards_edit_thread thread subject body uid m sv)" for thread subject body
    unfolding wd_boards_edit_thread_def Let_def using assms
    by (auto split: option.split intro!: wd_post_rules wd_posts_pair_value [where r = "wd_boards_privileges_for_thread _ _"]
        wd_posts_pair_value [where r = "wd_board_privileges_is_writable_by_account _ _"] wd_posts_done wd_posts_changed_thread del: subsetI)
  then show "wd_posts X (wd_message_board_edit_thread uid m sv)"
    unfolding wd_message_board_edit_thread_def Let_def by (intro e d)
  have "wd_posts_pair X (wd_boards_move_thread thread board uid m sv)" for thread board
    unfolding wd_boards_move_thread_def Let_def using assms
    by (auto split: option.split intro!: wd_post_rules wd_posts_pair_value [where r = "wd_boards_privileges_for_board _ _"]
        wd_posts_pair_value [where r = "wd_board_privileges_is_writable_by_account _ _"]
        wd_posts_pair_value [where r = "if _ then _ else _"] wd_posts_done wd_posts_broadcast del: subsetI)
  then show "wd_posts X (wd_message_board_move_thread uid m sv)"
    unfolding wd_message_board_move_thread_def Let_def by (intro p) (auto intro!: assms wd_posts_error d del: subsetI)
  have "X \<subseteq> set (sv_posts s')" if "wd_db_insert_post post thread body u s = Some s'" "sv_posts s = sv_posts sv" for post thread body u s s'
    using inp [OF that(1)] that(2) assms by auto
  then have "wd_posts_pair X (wd_boards_add_post thread body uid m sv)" for thread body
    unfolding wd_boards_add_post_def Let_def case_prod_beta using assms
    by (auto split: option.split simp: uuid intro!: wd_post_rules wd_posts_pair_value [where r = "wd_boards_privileges_for_board _ _"]
        wd_posts_pair_value [where r = "wd_board_privileges_is_writable_by_account _ _"] wd_posts_done wd_posts_changed_thread del: subsetI)
  then show "wd_posts X (wd_message_board_add_post uid m sv)"
    unfolding wd_message_board_add_post_def Let_def by (intro p d)
qed

text \<open>
  The rights that a change of what an author wrote asks for, on a board with the privileges
  \<open>p\<close>, as a specification: the board is writable, and the account has the privilege \<open>every\<close>
  for all threads and posts, or it has the privilege \<open>own\<close> for its own ones and the session
  carries the login of the author.
\<close>

definition wd_author_rights ::
  "string \<Rightarrow> string \<Rightarrow> wd_server \<Rightarrow> 32 word \<Rightarrow> string \<Rightarrow> wd_board_privileges option wd_result \<Rightarrow> bool" where
  "wd_author_rights own every sv uid author p \<longleftrightarrow>
     (case (p, u_account (wd_user sv uid)) of
        (Inr p, Some account) \<Rightarrow>
          wd_board_privileges_is_writable_by_account p (Some account) = Inr True \<and>
          (wd_account_boolean every account \<or> wd_account_boolean own account \<and> u_login (wd_user sv uid) = Some author)
      | _ \<Rightarrow> False)"

lemma wd_boards_changeable_post_owned:
  assumes "wd_boards_changeable_post every post uid m sv = Inr (Inr (p, privileges))" and "wd_either_right own every sv uid"
  shows "wd_boards_post sv post = Some p"
    and "wd_author_rights own every sv uid (po_login p) (wd_boards_privileges_for_post post sv)"
  using assms unfolding wd_boards_changeable_post_def wd_author_rights_def wd_either_right_def
  by (cases "wd_boards_privileges_for_post post sv";
      auto simp: Let_def split: option.splits if_splits;
      cases "wd_board_privileges_is_writable_by_account (projr (wd_boards_privileges_for_post post sv)) (u_account (wd_user sv uid))";
      auto split: option.splits if_splits)+

lemma wd_boards_changeable_post_quiet:
  assumes "wd_boards_changeable_post field post uid m sv = Inr (Inl sv')"
  shows "sv_posts sv' = sv_posts sv"
proof (cases "wd_boards_privileges_for_post post sv")
  case (Inr p)
  then show ?thesis
    using assms wd_quiet_boards(3) [OF wd_reply_quiets(3)] wd_quiet_boards(3) [OF wd_reply_quiets(4)]
    by (cases "wd_board_privileges_is_writable_by_account p (u_account (wd_user sv uid))")
      (auto simp: wd_boards_changeable_post_def Let_def split: option.splits if_splits)
qed (use assms in \<open>simp add: wd_boards_changeable_post_def\<close>)

text \<open>The posts that are to stay are none that the message may change.\<close>

lemma wd_posts_change_post:
  assumes "X \<subseteq> set (sv_posts sv)" and "distinct (map po_post (sv_posts sv))"
    and "\<And>p. p \<in> X \<Longrightarrow> po_post p = p7_uuid_arg m ''wired.board.post'' \<Longrightarrow>
      \<not> wd_author_rights own every sv uid (po_login p) (wd_boards_privileges_for_post (po_post p) sv)"
  shows "own = ''wired.account.board.edit_own_threads_and_posts'' \<Longrightarrow> every = ''wired.account.board.edit_all_threads_and_posts'' \<Longrightarrow>
       wd_posts X (wd_message_board_edit_post uid m sv)"
    and "own = ''wired.account.board.delete_own_threads_and_posts'' \<Longrightarrow> every = ''wired.account.board.delete_all_threads_and_posts'' \<Longrightarrow>
       wd_posts X (wd_message_board_delete_post uid m sv)"
proof -
  let ?post = "p7_uuid_arg m ''wired.board.post''"
  have n: "po_post q \<noteq> ?post" if "wd_boards_changeable_post every ?post uid m sv = Inr (Inr (p, privileges))" "q \<in> X"
      "wd_either_right own every sv uid" for p q privileges
  proof
    assume q: "po_post q = ?post"
    note c = wd_boards_changeable_post_owned [OF that(1,3)]
    have "p = q"
      using wd_boards_post_Some [OF c(1)] q assms(1) that(2) inj_onD [OF distinct_map [THEN iffD1, OF assms(2), THEN conjunct2]] by auto
    with c(2) q assms(3) [OF that(2) q] show False by simp
  qed
  have e: "wd_posts_pair X (wd_boards_edit_post ?post body uid m sv)"
    if "wd_either_right own every sv uid" "every = ''wired.account.board.edit_all_threads_and_posts''" for body
    unfolding wd_boards_edit_post_def Let_def that(2) [symmetric]
  proof (rule wd_posts_pair_value)
    fix r assume r: "wd_boards_changeable_post every ?post uid m sv = Inr r"
    show "wd_posts_pair X (case r of
        Inl sv \<Rightarrow> Inr (False, sv)
      | Inr (p, privileges) \<Rightarrow> wd_bind (wd_boards_changed_thread (po_thread p) privileges
          (sv\<lparr>sv_posts := map (\<lambda>q. if po_post q = ?post then q\<lparr>po_text := body, po_edit_date := Some (sv_now sv)\<rparr> else q)
            (sv_posts sv)\<rparr>)) (\<lambda>sv. Inr (True, sv)))"
    proof (cases r)
      case (Inl sv')
      then show ?thesis using wd_boards_changeable_post_quiet [OF r [unfolded Inl]] assms(1) by (simp add: wd_posts_pair_Inr)
    next
      case (Inr pr)
      then obtain p privileges where Inr: "r = Inr (p, privileges)" by (cases pr) simp
      have "X \<subseteq> (\<lambda>q. if po_post q = ?post then q\<lparr>po_text := body, po_edit_date := Some (sv_now sv)\<rparr> else q) ` set (sv_posts sv)"
        using n [OF r [unfolded Inr] _ that(1)] assms(1) by (force simp: image_iff)
      then show ?thesis using Inr by (auto intro!: wd_posts_done wd_posts_changed_thread split: prod.split simp del: subsetI)
    qed
  qed
  show "own = ''wired.account.board.edit_own_threads_and_posts'' \<Longrightarrow> every = ''wired.account.board.edit_all_threads_and_posts'' \<Longrightarrow>
       wd_posts X (wd_message_board_edit_post uid m sv)"
    unfolding wd_message_board_edit_post_def Let_def
    by (intro wd_posts_either_privilege assms(1) wd_posts_if_done [OF _ wd_posts_okay_event] e) simp_all
  have d: "wd_posts_pair X (wd_boards_delete_post ?post uid m sv)"
    if "wd_either_right own every sv uid" "every = ''wired.account.board.delete_all_threads_and_posts''"
    unfolding wd_boards_delete_post_def Let_def that(2) [symmetric]
  proof (rule wd_posts_pair_value)
    fix r assume r: "wd_boards_changeable_post every ?post uid m sv = Inr r"
    show "wd_posts_pair X (case r of
        Inl sv \<Rightarrow> Inr (False, sv)
      | Inr (p, privileges) \<Rightarrow> wd_bind (wd_boards_changed_thread (po_thread p) privileges
          (sv\<lparr>sv_posts := filter (\<lambda>q. po_post q \<noteq> ?post) (sv_posts sv)\<rparr>)) (\<lambda>sv. Inr (True, sv)))"
    proof (cases r)
      case (Inl sv')
      then show ?thesis using wd_boards_changeable_post_quiet [OF r [unfolded Inl]] assms(1) by (simp add: wd_posts_pair_Inr)
    next
      case (Inr pr)
      then obtain p privileges where Inr: "r = Inr (p, privileges)" by (cases pr) simp
      have "X \<subseteq> {q \<in> set (sv_posts sv). po_post q \<noteq> ?post}"
        using n [OF r [unfolded Inr] _ that(1)] assms(1) by auto
      then show ?thesis using Inr by (auto intro!: wd_posts_done wd_posts_changed_thread split: prod.split simp del: subsetI)
    qed
  qed
  show "own = ''wired.account.board.delete_own_threads_and_posts'' \<Longrightarrow> every = ''wired.account.board.delete_all_threads_and_posts'' \<Longrightarrow>
       wd_posts X (wd_message_board_delete_post uid m sv)"
    unfolding wd_message_board_delete_post_def Let_def
    by (intro wd_posts_either_privilege assms(1) wd_posts_if_done [OF _ wd_posts_okay_event] d) simp_all
qed

lemma wd_posts_delete_thread:
  assumes "X \<subseteq> set (sv_posts sv)" and "\<And>p t. p \<in> X \<Longrightarrow> po_thread p = p7_uuid_arg m ''wired.board.thread'' \<Longrightarrow>
      wd_boards_thread sv (po_thread p) = Some t \<Longrightarrow>
      \<not> wd_author_rights ''wired.account.board.delete_own_threads_and_posts'' ''wired.account.board.delete_all_threads_and_posts'' sv uid (th_login t)
         (wd_boards_privileges_for_thread (po_thread p) sv)"
  shows "wd_posts X (wd_message_board_delete_thread uid m sv)"
proof -
  let ?thread = "p7_uuid_arg m ''wired.board.thread''"
  let ?all = "''wired.account.board.delete_all_threads_and_posts''" and ?own = "''wired.account.board.delete_own_threads_and_posts''"
  have k: "X \<subseteq> set (sv_posts (wd_db_delete_threads (\<lambda>t. th_thread t = ?thread) sv))"
    if "wd_boards_thread sv ?thread = Some t" "wd_author_rights ?own ?all sv uid (th_login t) (wd_boards_privileges_for_thread ?thread sv)" for t
    using assms that by (auto simp: wd_db_delete_threads_def Let_def list_ex_iff)
  have d: "wd_posts_pair X (wd_boards_delete_thread ?thread uid m sv)" if "wd_either_right ?own ?all sv uid"
  proof (cases "wd_boards_thread sv ?thread")
    case None
    then show ?thesis using assms(1) by (auto simp: wd_boards_delete_thread_def intro!: wd_post_rules simp del: subsetI)
  next
    case (Some t)
    show ?thesis
      unfolding wd_boards_delete_thread_def Some option.case Let_def
      using that
      by (auto intro!: wd_post_rules assms(1) wd_posts_pair_value [where r = "wd_boards_privileges_for_thread _ _"]
          wd_posts_pair_value [where r = "wd_board_privileges_is_writable_by_account _ _"] wd_posts_done wd_posts_broadcast k [OF Some]
          simp: wd_author_rights_def wd_either_right_def split: option.split simp del: subsetI)
  qed
  show ?thesis
    unfolding wd_message_board_delete_thread_def Let_def
    by (intro wd_posts_either_privilege assms(1) wd_posts_if_done [OF _ wd_posts_okay_event] d)
qed

lemma wd_boards_thread_of:
  assumes "boards_ok sv" and "t \<in> set (sv_threads sv)"
  shows "wd_boards_thread sv (th_thread t) = Some t"
proof (cases "wd_boards_thread sv (th_thread t)")
  case None
  then show ?thesis using assms(2) by (simp add: wd_boards_thread_None)
next
  case (Some t')
  with wd_boards_thread_Some [OF Some] assms show ?thesis
    by (auto simp: boards_tables_ok_def distinct_map dest: inj_onD)
qed

lemma wd_boards_board_of:
  assumes "boards_ok sv" and "b \<in> set (sv_boards sv)" and "bo_board b = board"
  shows "wd_boards_board sv board = Some b"
proof (cases "wd_boards_board sv board")
  case None
  then show ?thesis using assms(2,3) by (auto simp: wd_boards_board_None)
next
  case (Some b')
  with wd_boards_board_Some [OF Some] assms show ?thesis
    by (auto simp: boards_tables_ok_def distinct_map dest: inj_onD)
qed

lemma wd_posts_delete_board:
  assumes "X \<subseteq> set (sv_posts sv)" and "boards_ok sv"
    and "\<And>p t account. p \<in> X \<Longrightarrow> wd_boards_thread sv (po_thread p) = Some t \<Longrightarrow> th_board t = p7_string_arg m ''wired.board.board'' \<Longrightarrow>
      u_account (wd_user sv uid) = Some account \<Longrightarrow> \<not> wd_account_boolean ''wired.account.board.delete_boards'' account"
  shows "wd_posts X (wd_message_board_delete_board uid m sv)"
  unfolding wd_message_board_delete_board_def
proof (rule wd_posts_privilege [OF assms(1)], rule wd_posts_with_board [OF assms(1)])
  fix account board
  assume a: "u_account (wd_user sv uid) = Some account" "wd_account_boolean ''wired.account.board.delete_boards'' account"
    and board: "board = p7_string_arg m ''wired.board.board''"
  have t: "wd_boards_thread sv (th_thread t) = Some t" if "t \<in> set (sv_threads sv)" for t
    by (rule wd_boards_thread_of [OF assms(2) that])
  have n: "th_board t \<noteq> board" if "p \<in> X" "t \<in> set (sv_threads sv)" "po_thread p = th_thread t" for p t
    using assms(3) [OF that(1) _ _ a(1)] t [OF that(2)] that(3) a(2) board by metis
  have "X \<subseteq> set (sv_posts (wd_db_delete_board board sv))"
  proof
    fix p assume p: "p \<in> X"
    show "p \<in> set (sv_posts (wd_db_delete_board board sv))"
      using n [OF p] p assms(1) by (auto simp: wd_db_delete_board_def wd_db_delete_threads_def Let_def list_ex_iff)
  qed
  then have "wd_posts_pair X (wd_boards_delete_board board uid m sv)"
    unfolding wd_boards_delete_board_def
    by (auto intro!: wd_posts_pair_value [where r = "wd_boards_privileges_for_board _ _"] wd_post_rules assms(1) wd_posts_done
        wd_posts_broadcast simp del: subsetI)
  then show "wd_posts X (wd_if_done (\<lambda>sv. wd_events_add_event ''wired.event.board.deleted_board'' uid [Some board] (wd_user_reply_okay uid m sv))
      (wd_boards_delete_board board uid m sv))"
    by (rule wd_posts_if_done [OF _ wd_posts_okay_event])
qed

text \<open>
  C6: A post changes or goes only by a message that asks for the right to it. If a message on
  boards is answered and a post is not there as it was before, then the message edited or deleted
  this post, or deleted its thread; the board was one that the sender's account may write; and the account has
  the privilege to edit or delete all threads and posts, or has the privilege to edit or delete
  its own ones while the session carries the login of the author of the post, or of the thread.
  Or the message deleted the board, and the account has the privilege to delete boards. The
  login that a session carries is its account's unless a refused login has overwritten it, see
  wd_message_login_spoofed.
\<close>

theorem wd_board_posts_protected:
  assumes "wd_inv sv" and "h \<in> set wd_board_handlers" and "wd_run_handler other h uid m sv = Inr sv'"
    and "p \<in> set (sv_posts sv)" and "p \<notin> set (sv_posts sv')"
  shows "h = H_board_edit_post \<and> po_post p = p7_uuid_arg m ''wired.board.post'' \<and>
      wd_author_rights ''wired.account.board.edit_own_threads_and_posts'' ''wired.account.board.edit_all_threads_and_posts''
        sv uid (po_login p) (wd_boards_privileges_for_post (po_post p) sv) \<or>
    h = H_board_delete_post \<and> po_post p = p7_uuid_arg m ''wired.board.post'' \<and>
      wd_author_rights ''wired.account.board.delete_own_threads_and_posts'' ''wired.account.board.delete_all_threads_and_posts''
        sv uid (po_login p) (wd_boards_privileges_for_post (po_post p) sv) \<or>
    h = H_board_delete_thread \<and> po_thread p = p7_uuid_arg m ''wired.board.thread'' \<and>
      (\<exists>t. wd_boards_thread sv (po_thread p) = Some t \<and> wd_author_rights ''wired.account.board.delete_own_threads_and_posts'' ''wired.account.board.delete_all_threads_and_posts''
        sv uid
        (th_login t) (wd_boards_privileges_for_thread (po_thread p) sv)) \<or>
    h = H_board_delete_board \<and>
      (\<exists>t account. wd_boards_thread sv (po_thread p) = Some t \<and> th_board t = p7_string_arg m ''wired.board.board'' \<and>
        u_account (wd_user sv uid) = Some account \<and> wd_account_boolean ''wired.account.board.delete_boards'' account)"
    (is "?edit \<or> ?delete \<or> ?thread \<or> ?board")
proof (rule ccontr)
  assume n: "\<not> ?thesis"
  have X: "{p} \<subseteq> set (sv_posts sv)" using assms(4) by simp
  have b: "boards_ok sv" using wd_invD(2) [OF assms(1)] by (simp add: tables_ok_def)
  then have d: "distinct (map po_post (sv_posts sv))" by (simp add: boards_tables_ok_def)
  have "wd_posts {p} (wd_run_handler other h uid m sv)"
    using assms(2) n unfolding wd_board_handlers_def list.set
    by (elim insertE emptyE; simp only: wd_run_handler.simps)
      (auto intro!: wd_posts_plain [OF X] wd_posts_boards [OF X] wd_posts_threads [OF X] wd_posts_change_post(1) [OF X d _ refl]
        wd_posts_change_post(2) [OF X d _ refl] wd_posts_delete_thread [OF X] wd_posts_delete_board [OF X b])
  with assms(3,5) show False by (simp add: wd_posts_def)
qed

subsection \<open>Deleting a board\<close>

lemma wd_db_delete_board_rows:
  assumes "boards_ok sv" and "wd_boards_board sv board \<noteq> None"
  shows "wd_db_delete_board board sv = sv\<lparr>sv_boards := filter (\<lambda>b. bo_board b \<noteq> board) (sv_boards sv),
    sv_threads := filter (\<lambda>t. th_board t \<noteq> board) (sv_threads sv),
    sv_posts := filter (\<lambda>p. \<forall>t. wd_boards_thread sv (po_thread p) = Some t \<longrightarrow> th_board t \<noteq> board) (sv_posts sv)\<rparr>"
proof -
  have ex: "(\<exists>t \<in> set (sv_threads sv). th_board t = board \<and> th_thread t = thread) \<longleftrightarrow>
      (\<exists>t. wd_boards_thread sv thread = Some t \<and> th_board t = board)" for thread
    using wd_boards_thread_of [OF assms(1)] wd_boards_thread_Some by metis
  have "list_ex (\<lambda>t. t = thread) (map th_thread (filter (\<lambda>t. th_board t = board) (sv_threads sv))) \<longleftrightarrow>
      (\<exists>t \<in> set (sv_threads sv). th_board t = board \<and> th_thread t = thread)" for thread
    unfolding list_ex_iff by auto
  then have "filter (\<lambda>p. \<not> list_ex (\<lambda>t. t = po_thread p) (map th_thread (filter (\<lambda>t. th_board t = board) (sv_threads sv)))) (sv_posts sv) =
      filter (\<lambda>p. \<forall>t. wd_boards_thread sv (po_thread p) = Some t \<longrightarrow> th_board t \<noteq> board) (sv_posts sv)"
    unfolding ex by (intro filter_cong refl) (simp only:, blast)
  then show ?thesis using assms(2) by (auto simp: wd_db_delete_board_def wd_db_delete_threads_def Let_def)
qed

text \<open>
  C21: Deleting a board that is there takes the board, the threads on it and the replies to
  these threads, and nothing else. Of the subscribers, those are told who could read or write
  the board.
\<close>

theorem wd_boards_delete_board_rows:
  assumes "wd_inv sv" and "sv_db_ok sv" and "wd_boards_board sv board = Some row"
  shows "\<exists>sv'. wd_boards_delete_board board uid m sv = Inr (True, sv') \<and>
    sv_boards sv' = filter (\<lambda>b. bo_board b \<noteq> board) (sv_boards sv) \<and>
    sv_threads sv' = filter (\<lambda>t. th_board t \<noteq> board) (sv_threads sv) \<and>
    sv_posts sv' = filter (\<lambda>p. \<forall>t. wd_boards_thread sv (po_thread p) = Some t \<longrightarrow> th_board t \<noteq> board) (sv_posts sv) \<and>
    sv_out sv' = sv_out sv @ concat (map (wd_told (wd_boards_if_accessible (Some (wd_board_privileges_with_sqlite3_results row))
      (wd_board_deleted_message board)) sv) (dict_keys (sv_users sv)))"
proof -
  let ?s = "wd_db_delete_board board sv"
  let ?p = "Some (wd_board_privileges_with_sqlite3_results row)"
  let ?msg = "wd_boards_if_accessible ?p (wd_board_deleted_message board)"
  have k: "boards_ok sv" using wd_invD(2) [OF assms(1)] by (simp add: tables_ok_def)
  have rows: "?s = sv\<lparr>sv_boards := filter (\<lambda>b. bo_board b \<noteq> board) (sv_boards sv),
    sv_threads := filter (\<lambda>t. th_board t \<noteq> board) (sv_threads sv),
    sv_posts := filter (\<lambda>p. \<forall>t. wd_boards_thread sv (po_thread p) = Some t \<longrightarrow> th_board t \<noteq> board) (sv_posts sv)\<rparr>"
    by (rule wd_db_delete_board_rows [OF k]) (use assms(3) in simp)
  have inv: "wd_inv ?s" by (rule wd_inv_boards [OF wd_db_delete_board_step assms(1)])
  have db: "sv_db_ok ?s" using assms(2) by (simp add: rows)
  have n: "?msg u \<noteq> Inl e" if "u_account u \<noteq> None" for u e using that by (auto dest!: wd_boards_if_accessible_crash)
  obtain sv' where s: "wd_boards_broadcast ?msg ?s = Inr sv'" "wd_quiet ?s sv'"
    "sv_out sv' = sv_out ?s @ concat (map (wd_told ?msg ?s) (dict_keys (sv_users ?s)))"
    by (rule wd_boards_broadcast_returns [OF inv db, where message = ?msg]) (use n in blast)+
  have "wd_told ?msg ?s = wd_told ?msg sv" by (rule wd_told_cong) (simp_all add: rows)
  moreover have "wd_boards_privileges_for_board board sv = Inr ?p" using assms(2,3) by (simp add: wd_boards_privileges_for_board_def)
  ultimately show ?thesis
    using s wd_quiet_boards [OF s(2)] assms(2) by (simp add: wd_boards_delete_board_def, simp add: rows)
qed

subsection \<open>Examples\<close>

text \<open>Two boards that all may read and write, a thread and a reply of user 1, who is logged in and may do everything.\<close>

definition wd_server_boards :: wd_server where
  "wd_server_boards =
     (wd_server_two (wd_example_login [''wired.account.board.edit_all_threads_and_posts'', ''wired.account.board.delete_all_threads_and_posts''])
        (\<lambda>u. u))
     \<lparr>sv_boards := [\<lparr>bo_board = ''News'', bo_owner = ''admin'', bo_group = [], bo_mode = 6\<rparr>,
                    \<lparr>bo_board = ''News2'', bo_owner = ''admin'', bo_group = [], bo_mode = 6\<rparr>],
      sv_threads := [\<lparr>th_thread = ''t'', th_board = ''News'', th_subject = ''s'', th_text = ''x'', th_post_date = 1,
                      th_edit_date = None, th_nick = ''nick'', th_login = ''guest'', th_ip = ''10.0.0.1'', th_icon = Icon_Null\<rparr>],
      sv_posts := [\<lparr>po_post = ''p'', po_thread = ''t'', po_text = ''y'', po_post_date = 2, po_edit_date = None,
                    po_nick = ''nick'', po_login = ''guest'', po_ip = ''10.0.0.1'', po_icon = Icon_Null\<rparr>]\<rparr>"

definition wd_board_message :: "string \<Rightarrow> p7_message" where
  "wd_board_message name = \<lparr>m_name = name, m_fields =
     [(''wired.board.board'', P7_String ''News''), (''wired.board.post'', P7_UUID ''p''), (''wired.board.thread'', P7_UUID ''u''),
      (''wired.board.owner'', P7_String ''guest''), (''wired.board.owner.read'', P7_Bool True)]\<rparr>"

lemma wd_server_boards:
  "wd_inv wd_server_boards" "sv_db_ok wd_server_boards"
  "wd_users_user_with_id wd_server_boards 1 = Some (wd_example_login
     [''wired.account.board.edit_all_threads_and_posts'', ''wired.account.board.delete_all_threads_and_posts''] (wd_fresh_user 1 ''10.0.0.1''))"
  "wd_boards_board wd_server_boards ''News'' = Some \<lparr>bo_board = ''News'', bo_owner = ''admin'', bo_group = [], bo_mode = 6\<rparr>"
  "wd_users_user_with_id wd_server_boards uid = Some u \<Longrightarrow> \<not> u_subscribed_boards u"
proof -
  let ?s = "wd_server_two (wd_example_login [''wired.account.board.edit_all_threads_and_posts'',
    ''wired.account.board.delete_all_threads_and_posts'']) (\<lambda>u. u)"
  have i: "wd_inv ?s" by (rule wd_server_two(2)) (simp_all add: wd_example_login)
  show "wd_inv wd_server_boards"
  proof (rule wd_inv_cong [OF i])
    show "tables_ok wd_server_boards"
      using wd_invD(2) [OF i] by (simp add: wd_server_boards_def tables_ok_def) (simp add: boards_tables_ok_def)
  qed (simp_all add: wd_server_boards_def)
  show "sv_db_ok wd_server_boards" by (simp add: wd_server_boards_def wd_server_two_fields)
  have "sv_users wd_server_boards = sv_users ?s" by (simp add: wd_server_boards_def)
  then have u: "wd_users_user_with_id wd_server_boards k = wd_users_user_with_id ?s k" for k by (simp only: wd_users_user_with_id_def)
  show "wd_users_user_with_id wd_server_boards 1 = Some (wd_example_login
     [''wired.account.board.edit_all_threads_and_posts'', ''wired.account.board.delete_all_threads_and_posts''] (wd_fresh_user 1 ''10.0.0.1''))"
    by (simp only: u wd_server_two(1) if_True simp_thms)
  show "wd_users_user_with_id wd_server_boards uid = Some u \<Longrightarrow> \<not> u_subscribed_boards u"
    by (auto simp: u wd_server_two(1) wd_example_login_def wd_fresh_user_def wd_user_init_with_socket_def wd_user_next_id_def Let_def split: if_splits)
  show "wd_boards_board wd_server_boards ''News'' = Some \<lparr>bo_board = ''News'', bo_owner = ''admin'', bo_group = [], bo_mode = 6\<rparr>"
    by (simp add: wd_server_boards_def wd_boards_board_def)
qed

theorem wd_boards_set_board_info_told_witness:
  "\<exists>sv'. wd_boards_set_board_info ''News'' 1 (wd_board_message ''wired.board.set_board_info'') wd_server_boards = Inr (True, sv') \<and>
     wd_boards_board sv' ''News2'' = wd_boards_board wd_server_boards ''News2''"
proof -
  obtain sv' where "wd_boards_set_board_info ''News'' 1 (wd_board_message ''wired.board.set_board_info'') wd_server_boards = Inr (True, sv')"
    and k: "\<forall>k. k \<noteq> ''News'' \<longrightarrow> wd_boards_board sv' k = wd_boards_board wd_server_boards k"
    using wd_boards_set_board_info_told [OF wd_server_boards(1,2,4), of 1 "wd_board_message ''wired.board.set_board_info''"]
    by (elim exE conjE) (rule that)
  then show ?thesis using k [rule_format, of "''News2''"] by (intro exI [of _ sv'] conjI) simp_all
qed

theorem wd_board_info_roundtrip_witness:
  "\<exists>sv' reply. wd_boards_get_board_info ''News'' 1 (wd_board_message ''wired.board.get_board_info'') sv' =
       Inr (True, wd_user_reply_message 1 reply (wd_board_message ''wired.board.get_board_info'') sv') \<and>
     p7_string reply ''wired.board.owner'' = Some ''guest''"
proof -
  let ?m = "wd_board_message ''wired.board.set_board_info''"
  obtain sv' where s: "wd_boards_set_board_info ''News'' 1 ?m wd_server_boards = Inr (True, sv')"
    using wd_boards_set_board_info_effect [OF wd_server_boards(1,2,4)] by blast
  have h: "wd_boards_has_board_with_name ''News'' wd_server_boards"
    by (simp add: wd_boards_has_board_with_name_def wd_server_boards)
  have "p7_string_arg ?m ''wired.board.owner'' = ''guest''"
    by (simp add: wd_board_message_def p7_string_arg_def p7_string_def p7_field_def)
  with wd_board_info_roundtrip [OF wd_server_boards(1) h s, of 1 "wd_board_message ''wired.board.get_board_info''"]
  show ?thesis by auto
qed

theorem wd_board_missing_row_crashes_witness:
  "wd_messages_handle_message (\<lambda>_ _ _. Inr) 1 (wd_board_message ''wired.board.edit_thread'') wd_server_boards = Inl Missing_Row"
proof (rule wd_board_missing_row_crashes [OF wd_server_boards(3) _ _ wd_server_boards(2)])
  have "wd_boards_thread wd_server_boards (p7_uuid_arg (wd_board_message ''wired.board.edit_thread'') ''wired.board.thread'') = None"
    by (simp add: wd_server_boards_def wd_boards_thread_def wd_board_message_def p7_uuid_arg_def p7_field_def)
  then show "m_name (wd_board_message ''wired.board.edit_thread'') = ''wired.board.edit_thread'' \<and>
      wd_boards_thread wd_server_boards (p7_uuid_arg (wd_board_message ''wired.board.edit_thread'') ''wired.board.thread'') = None \<and>
      (wd_account_boolean ''wired.account.board.edit_own_threads_and_posts'' (wd_privileged
         [''wired.account.board.edit_all_threads_and_posts'', ''wired.account.board.delete_all_threads_and_posts'']) \<or>
       wd_account_boolean ''wired.account.board.edit_all_threads_and_posts'' (wd_privileged
         [''wired.account.board.edit_all_threads_and_posts'', ''wired.account.board.delete_all_threads_and_posts''])) \<or> P" for P
    by (simp add: wd_board_message_def wd_privileged)
qed (simp_all add: wd_example_login)

theorem wd_boards_delete_board_rows_witness:
  "\<exists>sv'. wd_boards_delete_board ''News'' 1 (wd_board_message ''wired.board.delete_board'') wd_server_boards = Inr (True, sv') \<and>
     map bo_board (sv_boards sv') = [''News2''] \<and> sv_threads sv' = [] \<and> sv_posts sv' = []"
proof -
  have "map bo_board (filter (\<lambda>b. bo_board b \<noteq> ''News'') (sv_boards wd_server_boards)) = [''News2'']"
    "filter (\<lambda>t. th_board t \<noteq> ''News'') (sv_threads wd_server_boards) = []"
    "filter (\<lambda>p. \<forall>t. wd_boards_thread wd_server_boards (po_thread p) = Some t \<longrightarrow> th_board t \<noteq> ''News'') (sv_posts wd_server_boards) = []"
    by (simp_all add: wd_server_boards_def wd_boards_thread_def)
  with wd_boards_delete_board_rows [OF wd_server_boards(1,2,4), of 1 "wd_board_message ''wired.board.delete_board''"]
  show ?thesis by auto
qed

text \<open>No user of the example has subscribed to the boards, so nobody is told.\<close>

lemma wd_boards_broadcast_none:
  assumes "dict_keyed (=) (sv_users sv)" and "\<And>uid u. wd_users_user_with_id sv uid = Some u \<Longrightarrow> \<not> u_subscribed_boards u"
  shows "wd_boards_broadcast message sv = Inr sv"
proof -
  have n: "\<not> u_subscribed_boards (wd_user sv uid)" if "uid \<in> set (dict_keys (sv_users sv))" for uid
    using that assms(2) [of uid] dict_keys_entries(3) [OF assms(1)] by (auto simp: wd_user_def wd_users_user_with_id_def)
  have "wd_each (\<lambda>peer sv.
       let u = wd_user sv peer
       in if u_state u = WD_USER_LOGGED_IN \<and> u_subscribed_boards u then
            wd_bind (message u) (\<lambda>broadcast.
              Inr (case broadcast of Some b \<Rightarrow> wd_user_send_message peer b sv | None \<Rightarrow> sv))
          else Inr sv) xs sv = Inr sv" if "set xs \<subseteq> set (dict_keys (sv_users sv))" for xs
    using that n by (induction xs) simp_all
  from this [OF subset_refl] show ?thesis unfolding wd_boards_broadcast_def .
qed

theorem wd_board_posts_protected_witness:
  "wd_author_rights ''wired.account.board.delete_own_threads_and_posts'' ''wired.account.board.delete_all_threads_and_posts'' wd_server_boards 1 ''guest''
     (wd_boards_privileges_for_post ''p'' wd_server_boards)"
proof -
  let ?m = "wd_board_message ''wired.board.delete_post''"
  let ?p = "\<lparr>po_post = ''p'', po_thread = ''t'', po_text = ''y'', po_post_date = 2, po_edit_date = None,
    po_nick = ''nick'', po_login = ''guest'', po_ip = ''10.0.0.1'', po_icon = Icon_Null\<rparr>"
  let ?a = "wd_privileged [''wired.account.board.edit_all_threads_and_posts'', ''wired.account.board.delete_all_threads_and_posts'']"
  let ?s = "wd_server_boards\<lparr>sv_posts := []\<rparr>"
  have u: "wd_user wd_server_boards 1 = wd_example_login
     [''wired.account.board.edit_all_threads_and_posts'', ''wired.account.board.delete_all_threads_and_posts''] (wd_fresh_user 1 ''10.0.0.1'')"
    by (rule wd_user_of [OF wd_server_boards(3)])
  have post: "p7_uuid_arg ?m ''wired.board.post'' = ''p''" by (simp add: wd_board_message_def p7_uuid_arg_def p7_field_def)
  have l: "wd_boards_post wd_server_boards ''p'' = Some ?p" "sv_posts wd_server_boards = [?p]"
    "\<exists>t. wd_boards_thread wd_server_boards ''t'' = Some t \<and> th_board t = ''News''"
    by (simp_all add: wd_server_boards_def wd_boards_post_def wd_boards_thread_def)
  have p: "wd_boards_privileges_for_post ''p'' wd_server_boards = Inr (Some \<lparr>bp_owner = ''admin'', bp_group = [], bp_mode = 6\<rparr>)"
    using l(3) by (auto simp: wd_boards_privileges_for_post_def wd_server_boards(2,4) l(1) wd_boards_privileges_joined_def
        wd_board_privileges_with_sqlite3_results_def)
  have w: "wd_board_privileges_is_writable_by_account (Some \<lparr>bp_owner = ''admin'', bp_group = [], bp_mode = 6\<rparr>) a = Inr True" for a
    by (simp add: wd_board_privileges_is_writable_by_account_def wd_board_access_def wd_board_permissions)
  have c: "wd_boards_changeable_post ''wired.account.board.delete_all_threads_and_posts'' ''p'' 1 ?m wd_server_boards =
      Inr (Inr (?p, Some \<lparr>bp_owner = ''admin'', bp_group = [], bp_mode = 6\<rparr>))"
    by (simp add: wd_boards_changeable_post_def Let_def p w wd_server_boards(2) l(1) u wd_example_login wd_privileged)
  have "wd_boards_broadcast message ?s = Inr ?s" for message
  proof (rule wd_boards_broadcast_none)
    show "dict_keyed (=) (sv_users ?s)" using wd_inv_keyed [OF wd_server_boards(1)] by simp
    fix uid u assume "wd_users_user_with_id ?s uid = Some u"
    then show "\<not> u_subscribed_boards u" using wd_server_boards(5) [of uid u] by (simp add: wd_users_user_with_id_def)
  qed
  then have "wd_boards_delete_post ''p'' 1 ?m wd_server_boards = Inr (True, ?s)"
    by (simp add: wd_boards_delete_post_def c l(2) Let_def wd_boards_changed_thread_def)
  then have r: "wd_run_handler (\<lambda>_ _ _. Inr) H_board_delete_post 1 ?m wd_server_boards =
      wd_events_add_event ''wired.event.board.deleted_post'' 1 [wd_boards_subject_for_post ''p'' wd_server_boards,
        wd_boards_board_for_post ''p'' wd_server_boards] (wd_user_reply_okay 1 ?m ?s)"
    by (simp add: wd_message_board_delete_post_def wd_with_either_privilege_def u wd_example_login wd_privileged post Let_def wd_if_done_def)
  have "boards_step wd_server_boards ?s"
    by (rule boards_stepI [where ps = "[]" and n = "sv_uuid_count wd_server_boards" and bs = "sv_boards wd_server_boards"
          and ts = "sv_threads wd_server_boards"]) (simp_all add: boards_tables_ok_def)
  then have g: "wd_good {} ?s (wd_user_reply_okay 1 ?m ?s)" by (intro wd_good_sends wd_good_refl wd_inv_boards [OF _ wd_server_boards(1)])
  have "wd_safe {} ?s {} (wd_run_handler (\<lambda>_ _ _. Inr) H_board_delete_post 1 ?m wd_server_boards)"
    unfolding r by (rule wd_safe_event [OF g])
  then obtain sv' where s: "wd_run_handler (\<lambda>_ _ _. Inr) H_board_delete_post 1 ?m wd_server_boards = Inr sv'"
    using wd_server_boards(2) by (cases "wd_run_handler (\<lambda>_ _ _. Inr) H_board_delete_post 1 ?m wd_server_boards") (auto simp: wd_safe_def)
  have "sv_posts (wd_user_reply_okay 1 ?m ?s) = []" using wd_quiet_boards(3) [OF wd_reply_quiets(2)] by simp
  then have n: "?p \<notin> set (sv_posts sv')" using wd_events_add_event_quiet [OF s [unfolded r]] wd_quiet_boards(3) by fastforce
  show ?thesis
    using wd_board_posts_protected [OF wd_server_boards(1) _ s _ n] by (simp add: wd_board_handlers_def l(2) post)
qed

end
