(* ===== verification/Wd_Board_Rename.thy ===== *)
theory Wd_Board_Rename
  imports Wd_Board_Claims
begin

text \<open>
  Renaming a board (\<open>wd_boards_rename_board\<close> in boards.c) renames the boards below it one by
  one. The theory shows that this is one renaming of all names, under the conditions that
  the statements need, and which names it takes in.
\<close>

subsection \<open>Renaming a board\<close>

text \<open>
  The renaming as one step: every name that begins with the old one. Nothing asks that the
  name ends there or that a slash follows.
\<close>

definition wd_board_moved_name :: "string \<Rightarrow> string \<Rightarrow> string \<Rightarrow> string" where
  "wd_board_moved_name oldboard newboard board =
     (if wi_string_has_prefix board oldboard then newboard @ drop (length oldboard) board else board)"

definition wd_board_names :: "wd_server \<Rightarrow> string set" where
  "wd_board_names sv = bo_board ` set (sv_boards sv)"

text \<open>Renaming boards and moving their threads by a function on names.\<close>

definition wd_boards_map :: "(string \<Rightarrow> string) \<Rightarrow> wd_server \<Rightarrow> wd_server" where
  "wd_boards_map f sv = sv\<lparr>sv_boards := map (\<lambda>b. b\<lparr>bo_board := f (bo_board b)\<rparr>) (sv_boards sv),
     sv_threads := map (\<lambda>t. t\<lparr>th_board := f (th_board t)\<rparr>) (sv_threads sv)\<rparr>"

lemma wd_boards_map_names: "wd_board_names (wd_boards_map f sv) = f ` wd_board_names sv"
  by (simp add: wd_board_names_def wd_boards_map_def image_image)

lemma wd_boards_map_map: "wd_boards_map f (wd_boards_map g sv) = wd_boards_map (\<lambda>n. f (g n)) sv"
  by (simp add: wd_boards_map_def comp_def)

lemma wd_boards_map_cong:
  assumes "\<And>n. n \<in> wd_board_names sv \<Longrightarrow> f n = g n"
    and "\<And>t. t \<in> set (sv_threads sv) \<Longrightarrow> th_board t \<in> wd_board_names sv"
  shows "wd_boards_map f sv = wd_boards_map g sv"
  using assms by (simp add: wd_boards_map_def wd_board_names_def)

lemma wd_boards_board_names: "wd_boards_board sv b \<noteq> None \<longleftrightarrow> b \<in> wd_board_names sv"
  by (simp add: wd_boards_board_None wd_board_names_def)

lemma wd_db_rename_subboard_map:
  assumes "sv_db_ok sv" and "new \<notin> wd_board_names sv"
  shows "wd_db_rename_subboard old new sv = Some (wd_boards_map (\<lambda>n. if n = old then new else n) sv)"
proof -
  have "(\<lambda>b. if bo_board b = old then b\<lparr>bo_board := new\<rparr> else b) = (\<lambda>b. b\<lparr>bo_board := if bo_board b = old then new else bo_board b\<rparr>)"
    "(\<lambda>t. if th_board t = old then t\<lparr>th_board := new\<rparr> else t) = (\<lambda>t. t\<lparr>th_board := if th_board t = old then new else th_board t\<rparr>)"
    by auto
  moreover have "wd_boards_board sv new = None" using assms(2) wd_boards_board_names by blast
  ultimately show ?thesis
    using assms(1) by (simp add: wd_db_rename_subboard_def wd_db_rename_board_def wd_db_move_threads_def wd_boards_map_def)
qed

definition wd_renamed_by :: "(string \<times> string) list \<Rightarrow> string \<Rightarrow> string" where
  "wd_renamed_by pairs n = (case map_of pairs n of Some n' \<Rightarrow> n' | None \<Rightarrow> n)"

lemma wd_boards_rename_subboards_map:
  assumes "sv_db_ok sv" and "distinct (map snd pairs)" and "fst ` set pairs \<subseteq> wd_board_names sv" and "distinct (map fst pairs)"
    and "snd ` set pairs \<inter> wd_board_names sv = {}"
  shows "wd_boards_rename_subboards pairs sv = Inr (wd_boards_map (wd_renamed_by pairs) sv)"
  using assms
proof (induction pairs sv rule: wd_boards_rename_subboards.induct)
  case (1 sv)
  then show ?case by (simp add: wd_boards_map_def wd_renamed_by_def)
next
  case (2 old new pairs sv)
  let ?f = "\<lambda>n. if n = old then new else n"
  let ?s = "wd_boards_map ?f sv"
  have ne: "old \<noteq> new" and new: "new \<notin> wd_board_names sv" using 2(5,7) by auto
  have n: "wd_board_names ?s = insert new (wd_board_names sv - {old})"
    using 2(5) by (auto simp: wd_boards_map_names)
  have "wd_boards_rename_subboards pairs ?s = Inr (wd_boards_map (wd_renamed_by pairs) ?s)"
  proof (rule "2.IH"(2) [OF ne wd_db_rename_subboard_map [OF 2(3) new]])
    show "sv_db_ok ?s" using 2(3) by (simp add: wd_boards_map_def)
    show "distinct (map snd pairs)" "distinct (map fst pairs)" using 2(4,6) by simp_all
    show "fst ` set pairs \<subseteq> wd_board_names ?s" using 2(5,6) n by (auto simp: image_iff)
    show "snd ` set pairs \<inter> wd_board_names ?s = {}" using 2(4,7) n by auto
  qed
  moreover have "wd_boards_map (wd_renamed_by pairs) ?s = wd_boards_map (wd_renamed_by ((old, new) # pairs)) sv"
  proof -
    have "map_of pairs new = None" using 2(5) new by (auto simp: map_of_eq_None_iff)
    moreover have "map_of pairs old = None" using 2(6) by (auto simp: map_of_eq_None_iff)
    ultimately have "wd_renamed_by pairs (?f n) = wd_renamed_by ((old, new) # pairs) n" for n by (simp add: wd_renamed_by_def)
    then show ?thesis unfolding wd_boards_map_map by presburger
  qed
  ultimately show ?case using ne wd_db_rename_subboard_map [OF 2(3) new] by simp
qed

text \<open>\<open>LIKE\<close> finds every name that begins with the old one, and the first occurrence is at the start.\<close>

lemma sqlite_like_prefix: "sqlite_like (p @ [CHR 0x25]) (p @ s)"
proof (induction p)
  case Nil
  show ?case by (induction s) auto
next
  case (Cons c p)
  have "sqlite_like (c # p @ [CHR 0x25]) (p @ s)" if "c = CHR 0x25"
    using Cons that by (cases "p @ s") auto
  with Cons show ?case by simp
qed

lemma wi_string_index_of_prefix:
  assumes "wi_string_has_prefix s p" and "p \<noteq> []"
  shows "wi_string_index_of_string s p = Some 0"
  using assms by (cases s) (auto simp: wi_string_index_of_string_def wi_string_has_prefix_def)

lemma wd_boards_new_name_moved:
  assumes "wi_string_contains_string b old \<Longrightarrow> wi_string_has_prefix b old" and "old \<noteq> []"
  shows "wd_boards_new_name old new b = (if wi_string_has_prefix b old then Some (wd_board_moved_name old new b) else None)"
proof (cases "wi_string_has_prefix b old")
  case True
  then show ?thesis using wi_string_index_of_prefix [OF True assms(2)] by (simp add: wd_boards_new_name_def wd_board_moved_name_def)
next
  case False
  then have "wi_string_index_of_string b old = None" using assms(1) unfolding wi_string_contains_string_def by blast
  with False show ?thesis by (simp add: wd_boards_new_name_def)
qed

lemma wd_board_moved_name_inj:
  "wi_string_has_prefix a old \<Longrightarrow> wi_string_has_prefix b old \<Longrightarrow> wd_board_moved_name old new a = wd_board_moved_name old new b \<Longrightarrow> a = b"
  unfolding wd_board_moved_name_def wi_string_has_prefix_def by (metis append_take_drop_id same_append_eq)

text \<open>The boards that are renamed after the first one, with their new names.\<close>

lemma wd_boards_subboards_moved:
  assumes "old \<noteq> []" and "\<And>b. b \<in> wd_board_names sv \<Longrightarrow> b \<noteq> new \<Longrightarrow> sqlite_like (old @ [CHR 0x25]) b \<Longrightarrow> wi_string_contains_string b old \<Longrightarrow>
      wi_string_has_prefix b old"
  shows "wd_boards_subboards old new sv =
    map (\<lambda>b. (b, wd_board_moved_name old new b)) (filter (\<lambda>b. b \<noteq> new \<and> wi_string_has_prefix b old) (sort (map bo_board (sv_boards sv))))"
proof -
  let ?g = "\<lambda>b. if b = new then None else map_option (\<lambda>n. (b, n)) (wd_boards_new_name old new b)"
  let ?P = "\<lambda>b. b \<noteq> new \<and> wi_string_has_prefix b old"
  have like: "sqlite_like (old @ [CHR 0x25]) b" if "wi_string_has_prefix b old" for b
    using sqlite_like_prefix [of old "drop (length old) b"] that unfolding wi_string_has_prefix_def by (metis append_take_drop_id)
  have g: "wd_boards_new_name old new b = (if wi_string_has_prefix b old then Some (wd_board_moved_name old new b) else None)"
    if "b \<in> wd_board_names sv" "sqlite_like (old @ [CHR 0x25]) b" "b \<noteq> new" for b
    using wd_boards_new_name_moved [of b old new, OF assms(2) assms(1)] that by simp
  have f: "List.map_filter ?g (filter (sqlite_like (old @ [CHR 0x25])) xs) = map (\<lambda>b. (b, wd_board_moved_name old new b)) (filter ?P xs)"
    if "set xs \<subseteq> wd_board_names sv" for xs
    using that like by (induction xs) (auto simp: g List.map_filter_simps)
  have "wd_boards_like old sv = filter (sqlite_like (old @ [CHR 0x25])) (sort (map bo_board (sv_boards sv)))"
    by (simp add: wd_boards_like_def filter_sort)
  then show ?thesis using f [of "sort (map bo_board (sv_boards sv))"] by (simp add: wd_boards_subboards_def wd_board_names_def)
qed

lemma wd_db_move_threads_map:
  assumes "sv_db_ok sv"
  shows "wd_db_move_threads old new sv =
    Some (sv\<lparr>sv_threads := map (\<lambda>t. t\<lparr>th_board := if th_board t = old then new else th_board t\<rparr>) (sv_threads sv)\<rparr>)"
proof -
  have "(\<lambda>t. if th_board t = old then t\<lparr>th_board := new\<rparr> else t) = (\<lambda>t. t\<lparr>th_board := if th_board t = old then new else th_board t\<rparr>)"
    by auto
  then show ?thesis using assms by (simp add: wd_db_move_threads_def)
qed

lemma map_of_graph: "map_of (map (\<lambda>b. (b, f b)) bs) n = (if n \<in> set bs then Some (f n) else None)"
  by (induction bs) auto

lemma wd_boards_rename_rows:
  assumes "boards_ok sv" and "sv_db_ok sv" and "old \<noteq> []" and "old \<in> wd_board_names sv"
    and like: "\<And>b. b \<in> wd_board_names sv \<Longrightarrow> sqlite_like (old @ [CHR 0x25]) b \<Longrightarrow> wi_string_contains_string b old \<Longrightarrow>
      wi_string_has_prefix b old"
    and free: "\<And>b. b \<in> wd_board_names sv \<Longrightarrow> wi_string_has_prefix b old \<Longrightarrow> wd_board_moved_name old new b \<notin> wd_board_names sv"
    and threads: "\<And>t. t \<in> set (sv_threads sv) \<Longrightarrow> th_board t \<in> wd_board_names sv"
  obtains sv1 sv2 where "wd_db_rename_board old new sv = Some sv1"
    and "wd_boards_rename_subboards (wd_boards_subboards old new sv1) sv1 = Inr sv2"
    and "wd_db_move_threads old new sv2 = Some (wd_boards_map (wd_board_moved_name old new) sv)"
    and "boards_step sv (wd_boards_map (wd_board_moved_name old new) sv)"
proof -
  let ?m = "wd_board_moved_name old new"
  let ?f = "\<lambda>n. if n = old then new else n"
  have mo: "?m old = new" by (simp add: wd_board_moved_name_def wi_string_has_prefix_def)
  have new: "new \<notin> wd_board_names sv" using free [OF assms(4)] mo by (simp add: wi_string_has_prefix_def)
  then have ne: "new \<noteq> old" using assms(4) by auto
  have g: "(\<lambda>b. if bo_board b = old then b\<lparr>bo_board := new\<rparr> else b) = (\<lambda>b. b\<lparr>bo_board := ?f (bo_board b)\<rparr>)" by auto
  define sv1 where "sv1 = sv\<lparr>sv_boards := map (\<lambda>b. b\<lparr>bo_board := ?f (bo_board b)\<rparr>) (sv_boards sv)\<rparr>"
  have s1: "wd_db_rename_board old new sv = Some sv1"
    using new assms(2) wd_boards_board_names [of sv new] by (simp add: wd_db_rename_board_def sv1_def g del: if_image_distrib)
  have n1: "wd_board_names sv1 = insert new (wd_board_names sv - {old})"
  proof -
    have "wd_board_names sv1 = ?f ` wd_board_names sv" by (simp add: sv1_def wd_board_names_def image_image del: if_image_distrib)
    then show ?thesis using assms(4) by auto
  qed
  have k1: "distinct (map bo_board (sv_boards sv1))"
    using wd_db_rename_board_step [OF s1] assms(1) by (simp add: boards_step_def boards_tables_ok_def)
  define bs where "bs = filter (\<lambda>b. b \<noteq> new \<and> wi_string_has_prefix b old) (sort (map bo_board (sv_boards sv1)))"
  have bs: "set bs = {b \<in> wd_board_names sv. b \<noteq> old \<and> wi_string_has_prefix b old}"
  proof -
    have "set (sort (map bo_board (sv_boards sv1))) = wd_board_names sv1" by (simp add: wd_board_names_def)
    then have "set bs = {b \<in> wd_board_names sv1. b \<noteq> new \<and> wi_string_has_prefix b old}" unfolding bs_def set_filter by (simp only:)
    then show ?thesis using new by (auto simp only: n1)
  qed
  have d: "distinct bs" unfolding bs_def by (rule distinct_filter) (use k1 in simp)
  define pairs where "pairs = map (\<lambda>b. (b, ?m b)) bs"
  have p: "wd_boards_subboards old new sv1 = pairs"
    unfolding pairs_def bs_def
  proof (rule wd_boards_subboards_moved [OF assms(3)])
    fix b assume "b \<in> wd_board_names sv1" "b \<noteq> new" "sqlite_like (old @ [CHR 0x25]) b" "wi_string_contains_string b old"
    then show "wi_string_has_prefix b old" using like [of b] unfolding n1 by blast
  qed
  define sv2 where "sv2 = wd_boards_map (wd_renamed_by pairs) sv1"
  have inj: "inj_on ?m (set bs)" by (rule inj_onI, rule wd_board_moved_name_inj) (use bs in auto)
  have img: "?m b \<notin> wd_board_names sv1" if "b \<in> set bs" for b
  proof -
    have b: "b \<in> wd_board_names sv" "wi_string_has_prefix b old" "b \<noteq> old" using that unfolding bs by blast+
    have "?m b \<noteq> ?m old" using b(3) wd_board_moved_name_inj [OF b(2)] by (auto simp: wi_string_has_prefix_def)
    then show ?thesis using free [OF b(1,2)] unfolding n1 mo by blast
  qed
  have ps: "map fst pairs = bs" "map snd pairs = map ?m bs" by (simp_all add: pairs_def comp_def)
  then have sets: "fst ` set pairs = set bs" "snd ` set pairs = ?m ` set bs" by (metis list.set_map)+
  have "wd_boards_rename_subboards pairs sv1 = Inr sv2" unfolding sv2_def
  proof (rule wd_boards_rename_subboards_map)
    show "sv_db_ok sv1" using assms(2) by (simp add: sv1_def)
    show "distinct (map snd pairs)" "distinct (map fst pairs)" unfolding ps using d inj by (simp_all add: distinct_map)
    show "fst ` set pairs \<subseteq> wd_board_names sv1" unfolding sets bs n1 by blast
    show "snd ` set pairs \<inter> wd_board_names sv1 = {}" unfolding sets using img by blast
  qed
  then have s2: "wd_boards_rename_subboards (wd_boards_subboards old new sv1) sv1 = Inr sv2" using p by simp
  have ren: "wd_renamed_by pairs n = (if n \<in> set bs then ?m n else n)" for n
  proof -
    have "map_of pairs n = (if n \<in> set bs then Some (?m n) else None)" unfolding pairs_def by (rule map_of_graph)
    then show ?thesis by (simp add: wd_renamed_by_def)
  qed
  have nb: "new \<notin> set bs" "old \<notin> set bs" using new unfolding bs by auto
  have b: "wd_renamed_by pairs (?f n) = ?m n" "?f (wd_renamed_by pairs n) = ?m n" if "n \<in> wd_board_names sv" for n
  proof -
    note nm = that
    have out: "wd_renamed_by pairs k = k" if "k \<notin> set bs" for k using that by (simp only: ren if_False)
    consider "n = old" | "n \<in> set bs" "n \<noteq> old" | "\<not> wi_string_has_prefix n old" "n \<noteq> old" "n \<notin> set bs"
      using nm unfolding bs by blast
    then show "wd_renamed_by pairs (?f n) = ?m n" "?f (wd_renamed_by pairs n) = ?m n"
    proof (atomize (full), cases)
      case 1
      then show "wd_renamed_by pairs (?f n) = ?m n \<and> ?f (wd_renamed_by pairs n) = ?m n"
        by (simp only: out [OF nb(1)] out [OF nb(2)] mo if_True simp_thms)
    next
      case 2
      then have "wi_string_has_prefix n old" unfolding bs by blast
      from free [OF nm this] assms(4) have "?m n \<noteq> old" by metis
      with 2 show "wd_renamed_by pairs (?f n) = ?m n \<and> ?f (wd_renamed_by pairs n) = ?m n"
        by (simp only: ren if_True if_False simp_thms)
    next
      case 3
      then have "?m n = n" by (simp only: wd_board_moved_name_def if_False)
      with 3 out [OF 3(3)] show "wd_renamed_by pairs (?f n) = ?m n \<and> ?f (wd_renamed_by pairs n) = ?m n"
        by (simp only: if_False simp_thms)
    qed
  qed
  have "map (\<lambda>b. b\<lparr>bo_board := wd_renamed_by pairs (?f (bo_board b))\<rparr>) (sv_boards sv) = map (\<lambda>b. b\<lparr>bo_board := ?m (bo_board b)\<rparr>) (sv_boards sv)"
  proof (rule map_cong [OF refl])
    fix x assume "x \<in> set (sv_boards sv)"
    then show "x\<lparr>bo_board := wd_renamed_by pairs (?f (bo_board x))\<rparr> = x\<lparr>bo_board := ?m (bo_board x)\<rparr>"
      using b(1) [of "bo_board x"] by (simp only: wd_board_names_def imageI)
  qed
  moreover have "map (\<lambda>t. t\<lparr>th_board := ?f (wd_renamed_by pairs (th_board t))\<rparr>) (sv_threads sv) = map (\<lambda>t. t\<lparr>th_board := ?m (th_board t)\<rparr>) (sv_threads sv)"
  proof (rule map_cong [OF refl])
    fix x assume "x \<in> set (sv_threads sv)"
    then show "x\<lparr>th_board := ?f (wd_renamed_by pairs (th_board x))\<rparr> = x\<lparr>th_board := ?m (th_board x)\<rparr>"
      using b(2) [OF threads] by (simp only:)
  qed
  ultimately have s3: "wd_db_move_threads old new sv2 = Some (wd_boards_map ?m sv)"
    using assms(2) by (simp add: wd_db_move_threads_map sv2_def sv1_def wd_boards_map_def comp_def cong: if_cong del: map_eq_conv)
  have "boards_step sv (wd_boards_map ?m sv)"
  proof (rule boards_step_trans [OF wd_db_rename_board_step [OF s1] boards_step_trans [OF _ wd_db_move_threads_step [OF s3]]])
    show "boards_step sv1 sv2" using wd_boards_rename_subboards_step [where pairs = "wd_boards_subboards old new sv1" and sv = sv1] by (simp add: s2)
  qed
  with that s1 s2 s3 show thesis .
qed

text \<open>
  C7: The renaming of a board, done row by row, is one renaming of names: the old beginning of
  every name is replaced by the new one, for the boards and for the threads on them, and no post
  is touched. It asks that the database works, that each board found by LIKE has the old name at its
  beginning or nowhere, that no new name is taken, and that each thread is on a board that is there.
  It does not ask that the names found are those of boards below the one that is renamed: a
  board whose name merely begins with the old name is renamed with it. The subscribers who may
  read or write the board are told of the board itself only.
\<close>

theorem wd_boards_rename_board_names:
  assumes "wd_inv sv" and "sv_db_ok sv" and "old \<noteq> []" and "wd_boards_board sv old = Some row"
    and "\<And>b. b \<in> wd_board_names sv \<Longrightarrow> sqlite_like (old @ [CHR 0x25]) b \<Longrightarrow> wi_string_contains_string b old \<Longrightarrow>
      wi_string_has_prefix b old"
    and "\<And>b. b \<in> wd_board_names sv \<Longrightarrow> wi_string_has_prefix b old \<Longrightarrow> wd_board_moved_name old new b \<notin> wd_board_names sv"
    and "\<And>t. t \<in> set (sv_threads sv) \<Longrightarrow> th_board t \<in> wd_board_names sv"
  shows "\<exists>sv'. wd_boards_rename_board old new uid m sv = Inr (True, sv') \<and>
    sv_boards sv' = sv_boards (wd_boards_map (wd_board_moved_name old new) sv) \<and>
    sv_threads sv' = sv_threads (wd_boards_map (wd_board_moved_name old new) sv) \<and> sv_posts sv' = sv_posts sv \<and>
    sv_out sv' = sv_out sv @ concat (map (wd_told (wd_boards_if_accessible (Some (wd_board_privileges_with_sqlite3_results row))
      (wd_board_renamed_message ''wired.board.board_renamed'' old new)) sv) (dict_keys (sv_users sv)))"
proof -
  let ?s = "wd_boards_map (wd_board_moved_name old new) sv"
  let ?p = "Some (wd_board_privileges_with_sqlite3_results row)"
  let ?msg = "wd_boards_if_accessible ?p (wd_board_renamed_message ''wired.board.board_renamed'' old new)"
  have k: "boards_ok sv" using wd_invD(2) [OF assms(1)] by (simp add: tables_ok_def)
  have "old \<in> wd_board_names sv" using wd_boards_board_names [of sv old] assms(4) by simp
  from wd_boards_rename_rows [OF k assms(2,3) this assms(5,6,7)]
  obtain sv1 sv2 where r: "wd_db_rename_board old new sv = Some sv1"
    "wd_boards_rename_subboards (wd_boards_subboards old new sv1) sv1 = Inr sv2" "wd_db_move_threads old new sv2 = Some ?s"
    and step: "boards_step sv ?s" by blast
  have row: "row \<in> set (sv_boards sv)" "bo_board row = old" using wd_boards_board_Some [OF assms(4)] by simp_all
  have mo: "wd_board_moved_name old new old = new" by (simp add: wd_board_moved_name_def wi_string_has_prefix_def)
  have "boards_ok ?s" using step k by (simp add: boards_step_def)
  then have "wd_boards_board ?s new = Some (row\<lparr>bo_board := new\<rparr>)"
    using row mo by (intro wd_boards_board_of) (auto simp: wd_boards_map_def image_iff intro: bexI [of _ row])
  then have p: "wd_boards_privileges_for_board new ?s = Inr ?p"
    using assms(2) by (simp add: wd_boards_privileges_for_board_def wd_boards_map_def wd_board_privileges_with_sqlite3_results_def)
  have inv: "wd_inv ?s" "sv_db_ok ?s" using wd_inv_boards [OF step assms(1)] assms(2) by (simp_all add: wd_boards_map_def)
  have n: "?msg u \<noteq> Inl e" if "u_account u \<noteq> None" for u e using that by (auto dest!: wd_boards_if_accessible_crash)
  obtain sv' where s: "wd_boards_broadcast ?msg ?s = Inr sv'" "wd_quiet ?s sv'"
    "sv_out sv' = sv_out ?s @ concat (map (wd_told ?msg ?s) (dict_keys (sv_users ?s)))"
    by (rule wd_boards_broadcast_returns [OF inv, where message = ?msg]) (use n in blast)+
  have "wd_told ?msg ?s = wd_told ?msg sv" by (rule wd_told_cong) (simp_all add: wd_boards_map_def)
  then show ?thesis
    using s wd_quiet_boards [OF s(2)] by (simp add: wd_boards_rename_board_def r wd_boards_renamed_def p, simp add: wd_boards_map_def)
qed

text \<open>The board News2 is not below the board News, and is renamed with it.\<close>

theorem wd_boards_rename_board_names_witness:
  "\<exists>sv'. wd_boards_rename_board ''News'' ''Old'' 1 (wd_board_message ''wired.board.rename_board'') wd_server_boards = Inr (True, sv') \<and>
     map bo_board (sv_boards sv') = [''Old'', ''Old2''] \<and> map th_board (sv_threads sv') = [''Old'']"
proof -
  have n: "wd_board_names wd_server_boards = {''News'', ''News2''}" "\<And>t. t \<in> set (sv_threads wd_server_boards) \<Longrightarrow> th_board t = ''News''"
    by (simp_all add: wd_board_names_def wd_server_boards_def)
  have p: "wi_string_has_prefix b ''News''" "wd_board_moved_name ''News'' ''Old'' b \<notin> wd_board_names wd_server_boards"
    if "b \<in> wd_board_names wd_server_boards" for b
    using that by (auto simp: n wi_string_has_prefix_def wd_board_moved_name_def)
  have r: "map bo_board (sv_boards (wd_boards_map (wd_board_moved_name ''News'' ''Old'') wd_server_boards)) = [''Old'', ''Old2'']"
    "map th_board (sv_threads (wd_boards_map (wd_board_moved_name ''News'' ''Old'') wd_server_boards)) = [''Old'']"
    by (simp_all add: wd_server_boards_def wd_boards_map_def wd_board_moved_name_def wi_string_has_prefix_def)
  have "\<exists>sv'. wd_boards_rename_board ''News'' ''Old'' 1 (wd_board_message ''wired.board.rename_board'') wd_server_boards = Inr (True, sv') \<and>
     sv_boards sv' = sv_boards (wd_boards_map (wd_board_moved_name ''News'' ''Old'') wd_server_boards) \<and>
     sv_threads sv' = sv_threads (wd_boards_map (wd_board_moved_name ''News'' ''Old'') wd_server_boards)"
    using wd_boards_rename_board_names [OF wd_server_boards(1,2) _ wd_server_boards(4) p(1) p(2),
      of 1 "wd_board_message ''wired.board.rename_board''"] n by auto
  then show ?thesis using r by auto
qed

end
