(* ===== verification/Wd_Account_Editing.thy ===== *)
theory Wd_Account_Editing
  imports Wd_System
begin

text \<open>
  The operations of accounts.c that change accounts: the rows of the tables \<open>users\<close> and
  \<open>groups\<close> that the statements for an account write, the accounts the server starts with,
  creating, editing and deleting, and what the sessions of an edited account get.
\<close>

subsection \<open>Rows\<close>

text \<open>
  A row is an account from the protocol names of its columns to what is read back from them;
  a column that is NULL has no value. \<open>%u\<close> prints the low 32 bits of a number, and a list is
  stored as the text of its components. A value of another type than its field has, which
  the color of a created user is, is described and read back as it was.
\<close>

definition WD_ACCOUNT_LIST_SEPARATOR :: string where "WD_ACCOUNT_LIST_SEPARATOR = [CHR 0x1C]"

definition wd_account_stored_number :: "int \<Rightarrow> account_value" where
  "wd_account_stored_number n = AV_Number (uint (word_of_int n :: 32 word))"

definition wd_account_stored_list :: "string list \<Rightarrow> account_value" where
  "wd_account_stored_list l =
     AV_List (wi_string_components_separated_by_string
       (wi_components_joined_by_string l WD_ACCOUNT_LIST_SEPARATOR) WD_ACCOUNT_LIST_SEPARATOR)"

definition wd_account_update_value :: "wd_account_field_type \<Rightarrow> account_value \<Rightarrow> account_value" where
  "wd_account_update_value ty v =
     (case (ty, v) of
        (FIELD_NUMBER, AV_Number n) \<Rightarrow> wd_account_stored_number n
      | (FIELD_BOOLEAN, AV_Number n) \<Rightarrow> wd_account_stored_number n
      | (FIELD_LIST, AV_List l) \<Rightarrow> wd_account_stored_list l
      | _ \<Rightarrow> v)"

text \<open>
  The statement that inserts prints an enumeration value as a number as well. It is a string,
  whose memory is read as that of a number: \<open>garbage v\<close> is what that gives.
\<close>

definition wd_account_insert_value ::
  "(account_value \<Rightarrow> 32 word) \<Rightarrow> wd_account_field_type \<Rightarrow> account_value \<Rightarrow> account_value" where
  "wd_account_insert_value garbage ty v =
     (case (ty, v) of
        (FIELD_ENUM, AV_Number n) \<Rightarrow> wd_account_stored_number n
      | (FIELD_ENUM, _) \<Rightarrow> AV_Number (uint (garbage v))
      | _ \<Rightarrow> wd_account_update_value ty v)"

text \<open>The columns that must have a value; the numbers default to zero.\<close>

definition wd_account_counters :: "string list" where
  "wd_account_counters =
     [''wired.account.downloads'', ''wired.account.download_transferred'',
      ''wired.account.uploads'', ''wired.account.upload_transferred'']"

definition wd_account_not_null :: "32 word \<Rightarrow> string list" where
  "wd_account_not_null accounttype =
     ''wired.account.name'' # (if and accounttype FIELD_USER \<noteq> 0 then wd_account_counters else [])"

definition wd_account_empty_row :: "nat \<Rightarrow> 32 word \<Rightarrow> wd_account" where
  "wd_account_empty_row page accounttype =
     fold (\<lambda>name row. wi_dictionary_set row (AV_Number 0) name)
       (if and accounttype FIELD_USER \<noteq> 0 then wd_account_counters else [])
       (wi_dictionary_init page True 0 wi_string_hash (=) Default_Value_Callbacks)"

definition wd_account_column :: "(string, wd_account_field) wi_dictionary \<Rightarrow> 32 word \<Rightarrow> string \<Rightarrow> wd_account_field option" where
  "wd_account_column ftab accounttype name =
     (case wi_dictionary_data_for_key ftab name of
        None \<Rightarrow> None
      | Some f \<Rightarrow> if and (af_account f) accounttype \<noteq> 0 then Some f else None)"

definition wd_account_insert_field ::
  "(account_value \<Rightarrow> 32 word) \<Rightarrow> (string, wd_account_field) wi_dictionary \<Rightarrow> 32 word \<Rightarrow> wd_account \<Rightarrow>
    string \<Rightarrow> wd_account \<Rightarrow> wd_account" where
  "wd_account_insert_field garbage ftab accounttype account name row =
     (case wd_account_column ftab accounttype name of
        None \<Rightarrow> row
      | Some f \<Rightarrow>
          (case wi_dictionary_data_for_key account name of
             None \<Rightarrow> row
           | Some v \<Rightarrow> wi_dictionary_set row (wd_account_insert_value garbage (af_type f) v) name))"

definition wd_account_insert_row ::
  "(account_value \<Rightarrow> 32 word) \<Rightarrow> nat \<Rightarrow> 32 word \<Rightarrow> wd_account \<Rightarrow> wd_account" where
  "wd_account_insert_row garbage page accounttype account =
     (let ftab = wd_account_fields_by_protocol_name page
      in fold (wd_account_insert_field garbage ftab accounttype account) (dict_keys account)
           (wd_account_empty_row page accounttype))"

definition wd_account_update_field ::
  "(string, wd_account_field) wi_dictionary \<Rightarrow> 32 word \<Rightarrow> wd_account \<Rightarrow> string \<Rightarrow> wd_account \<Rightarrow> wd_account" where
  "wd_account_update_field ftab accounttype account name row =
     (case wd_account_column ftab accounttype name of
        None \<Rightarrow> row
      | Some f \<Rightarrow>
          (case wi_dictionary_data_for_key account name of
             None \<Rightarrow> wi_dictionary_remove row name
           | Some v \<Rightarrow> wi_dictionary_set row (wd_account_update_value (af_type f) v) name))"

definition wd_account_update_row :: "nat \<Rightarrow> 32 word \<Rightarrow> wd_account \<Rightarrow> wd_account \<Rightarrow> wd_account" where
  "wd_account_update_row page accounttype account row =
     (let ftab = wd_account_fields_by_protocol_name page
      in fold (wd_account_update_field ftab accounttype account) (dict_keys ftab) row)"

text \<open>
  The statements on a table, None where the database refuses them: a name that is taken, or
  a column that must have a value and has none.
\<close>

definition wd_db_insert_account ::
  "(account_value \<Rightarrow> 32 word) \<Rightarrow> nat \<Rightarrow> 32 word \<Rightarrow> wd_account \<Rightarrow> (string \<times> wd_account) list \<Rightarrow>
    (string \<times> wd_account) list option" where
  "wd_db_insert_account garbage page accounttype account rows =
     (case wi_dictionary_data_for_key account ''wired.account.name'' of
        Some (AV_String name) \<Rightarrow>
          if name \<in> fst ` set rows then None
          else Some (rows @ [(name, wd_account_insert_row garbage page accounttype account)])
      | _ \<Rightarrow> None)"

definition wd_db_update_account ::
  "nat \<Rightarrow> 32 word \<Rightarrow> wd_account \<Rightarrow> string \<Rightarrow> (string \<times> wd_account) list \<Rightarrow> (string \<times> wd_account) list option" where
  "wd_db_update_account page accounttype account name rows =
     (let newname = wd_account_string ''wired.account.name'' account
      in if name \<notin> fst ` set rows then Some rows
         else if (\<exists>field \<in> set (wd_account_not_null accounttype). wi_dictionary_data_for_key account field = None) \<or>
                 newname \<noteq> name \<and> newname \<in> fst ` set rows
         then None
         else Some (map (\<lambda>(n, row). if n = name then (newname, wd_account_update_row page accounttype account row)
                                    else (n, row)) rows))"

subsection \<open>Telling and reloading the sessions\<close>

definition wd_accounts_notify_subscribers :: "wd_server \<Rightarrow> wd_server" where
  "wd_accounts_notify_subscribers sv =
     fold (\<lambda>peer sv.
       if u_state (wd_user sv peer) = WD_USER_LOGGED_IN \<and> u_subscribed_accounts (wd_user sv peer)
       then wd_user_send_message peer \<lparr>m_name = ''wired.account.accounts_changed'', m_fields = []\<rparr> sv
       else sv) (dict_keys (sv_users sv)) sv"

text \<open>What a session takes over from its new account, and whether its status changed.\<close>

definition wd_user_reload :: "wd_server \<Rightarrow> wd_account \<Rightarrow> wd_user \<Rightarrow> wd_user" where
  "wd_user_reload sv account u =
     u\<lparr>u_account := Some account,
       u_login := Some (wd_account_string ''wired.account.name'' account),
       u_color := wd_account_color account sv,
       u_nick := (if wd_account_boolean ''wired.account.user.cannot_set_nick'' account
                  then Some (wd_account_nick account) else u_nick u)\<rparr>"

definition wd_user_reload_changes :: "wd_server \<Rightarrow> wd_account \<Rightarrow> wd_user \<Rightarrow> bool" where
  "wd_user_reload_changes sv account u \<longleftrightarrow>
     u_color u \<noteq> wd_account_color account sv \<or>
     wd_account_boolean ''wired.account.user.cannot_set_nick'' account \<and> u_nick u \<noteq> Some (wd_account_nick account)"

definition wd_user_drop_subscriptions :: "nat \<Rightarrow> wd_account \<Rightarrow> wd_user \<Rightarrow> wd_user" where
  "wd_user_drop_subscriptions page account u =
     (let u = (if \<not> wd_account_boolean ''wired.account.account.list_accounts'' account \<and> u_subscribed_accounts u
               then u\<lparr>u_subscribed_accounts := False\<rparr> else u);
          u = (if \<not> wd_account_boolean ''wired.account.board.read_boards'' account \<and> u_subscribed_boards u
               then u\<lparr>u_subscribed_boards := False\<rparr> else u);
          u = (if \<not> wd_account_boolean ''wired.account.log.view_log'' account \<and> u_subscribed_log u
               then u\<lparr>u_subscribed_log := False\<rparr> else u)
      in if \<not> wd_account_boolean ''wired.account.file.list_files'' account \<and> wi_set_count (u_subscribed_paths u) > 0
         then wd_user_unsubscribe_paths page u else u)"

definition wd_accounts_reload_account :: "32 word \<Rightarrow> string \<Rightarrow> wd_server \<Rightarrow> wd_server wd_result" where
  "wd_accounts_reload_account uid name sv =
     (case wd_accounts_read_user_and_group (sv_garbage sv) sv name of
        None \<Rightarrow> Inr sv
      | Some newaccount \<Rightarrow>
          let oldaccount = u_account (wd_user sv uid);
              changed = wd_user_reload_changes sv newaccount (wd_user sv uid);
              sv = wd_set_user (wd_user_reload sv newaccount) uid sv;
              sv = (if changed then wd_user_broadcast_status uid sv else sv);
              sv = wd_set_user (wd_user_drop_subscriptions (sv_page sv) newaccount) uid sv;
              sv = wd_user_send_message uid (wd_account_privileges_message (sv_page sv) newaccount) sv
          in wd_boards_reload_account uid oldaccount (Some newaccount) sv)"

text \<open>The loop over the sessions whose account a test selects; \<open>name\<close> is the account to read.\<close>

definition wd_accounts_reload_sessions ::
  "(wd_account \<Rightarrow> bool) \<Rightarrow> (wd_account \<Rightarrow> string) \<Rightarrow> wd_server \<Rightarrow> wd_server wd_result" where
  "wd_accounts_reload_sessions selected name sv =
     wd_each (\<lambda>uid sv.
       case u_account (wd_user sv uid) of
         None \<Rightarrow> Inr sv
       | Some useraccount \<Rightarrow>
           if selected useraccount then wd_accounts_reload_account uid (name useraccount) sv else Inr sv)
       (dict_keys (sv_users sv)) sv"

definition wd_accounts_reload_user_account :: "wd_account \<Rightarrow> wd_server \<Rightarrow> wd_server wd_result" where
  "wd_accounts_reload_user_account account =
     wd_accounts_reload_sessions
       (\<lambda>useraccount. wd_account_string ''wired.account.name'' useraccount = wd_account_string ''wired.account.name'' account)
       (\<lambda>_. let name = wd_account_string ''wired.account.new_name'' account
            in if length name = 0 then wd_account_string ''wired.account.name'' account else name)"

definition wd_accounts_reload_group_account :: "wd_account \<Rightarrow> wd_server \<Rightarrow> wd_server wd_result" where
  "wd_accounts_reload_group_account account =
     wd_accounts_reload_sessions
       (\<lambda>useraccount. wd_account_string ''wired.account.group'' useraccount = wd_account_string ''wired.account.name'' account)
       (\<lambda>useraccount. wd_account_string ''wired.account.name'' useraccount)"

subsection \<open>Renaming a group in the accounts\<close>

fun wd_replace_first :: "string \<Rightarrow> string option \<Rightarrow> string list \<Rightarrow> string list" where
  "wd_replace_first old new [] = []"
| "wd_replace_first old new (s # ss) =
     (if s = old then (case new of Some n \<Rightarrow> n # ss | None \<Rightarrow> ss) else s # wd_replace_first old new ss)"

definition wd_account_rename_group :: "string \<Rightarrow> string option \<Rightarrow> wd_account \<Rightarrow> wd_account" where
  "wd_account_rename_group name newname row =
     (let row = (if wi_dictionary_data_for_key row ''wired.account.group'' = Some (AV_String name) then
                   (case newname of
                      Some n \<Rightarrow> if length n > 0 then wi_dictionary_set row (AV_String n) ''wired.account.group''
                                else wi_dictionary_remove row ''wired.account.group''
                    | None \<Rightarrow> wi_dictionary_remove row ''wired.account.group'')
                 else row)
      in case wi_dictionary_data_for_key row ''wired.account.groups'' of
           Some (AV_List groups) \<Rightarrow>
             if name \<in> set groups
             then wi_dictionary_set row (wd_account_stored_list (wd_replace_first name newname groups)) ''wired.account.groups''
             else row
         | _ \<Rightarrow> row)"

text \<open>Its result is ignored: it fails where the database does, with nothing changed.\<close>

definition wd_accounts_rename_group :: "string \<Rightarrow> string option \<Rightarrow> wd_server \<Rightarrow> wd_server" where
  "wd_accounts_rename_group name newname sv =
     (if sv_db_ok sv
      then sv\<lparr>sv_db_users := map (\<lambda>(n, row). (n, wd_account_rename_group name newname row)) (sv_db_users sv)\<rparr>
      else sv)"

subsection \<open>The operations\<close>

text \<open>
  The name, date and editor that an operation writes into the account it was given. A nick
  that is NULL leaves no value: an update stores NULL, and the statement that inserts is not
  well-formed.
\<close>

definition wd_account_stamp :: "string \<Rightarrow> wd_server \<Rightarrow> 32 word \<Rightarrow> wd_account \<Rightarrow> wd_account" where
  "wd_account_stamp date_field sv uid account =
     (let account = wi_dictionary_set account (AV_Date (sv_now sv)) date_field
      in case u_nick (wd_user sv uid) of
           Some nick \<Rightarrow> wi_dictionary_set account (AV_String nick) ''wired.account.edited_by''
         | None \<Rightarrow> wi_dictionary_remove account ''wired.account.edited_by'')"

definition wd_account_take_new_name :: "wd_account \<Rightarrow> wd_account" where
  "wd_account_take_new_name account =
     (let newname = wd_account_string ''wired.account.new_name'' account
      in if length newname > 0 \<and> wd_account_string ''wired.account.name'' account \<noteq> newname
         then wi_dictionary_set account (AV_String newname) ''wired.account.name'' else account)"

text \<open>An operation returns whether it succeeded, and replied with an error otherwise.\<close>

definition wd_database_failed :: "32 word \<Rightarrow> p7_message \<Rightarrow> wd_server \<Rightarrow> bool \<times> wd_server" where
  "wd_database_failed uid m sv = (False, wd_user_reply_internal_error uid (Some ''database'') m sv)"

text \<open>A password that is NULL ends the arguments before the name: no row is found.\<close>

definition wd_accounts_change_password ::
  "wd_account \<Rightarrow> string option \<Rightarrow> 32 word \<Rightarrow> p7_message \<Rightarrow> wd_server \<Rightarrow> bool \<times> wd_server" where
  "wd_accounts_change_password account password uid m sv =
     (if \<not> sv_db_ok sv then wd_database_failed uid m sv
      else (True,
        case password of
          None \<Rightarrow> sv
        | Some p \<Rightarrow> sv\<lparr>sv_db_users := map (\<lambda>(n, row).
            if n = wd_account_string ''wired.account.name'' account
            then (n, wi_dictionary_set row (AV_String p) ''wired.account.password'') else (n, row)) (sv_db_users sv)\<rparr>))"

definition wd_accounts_create_user ::
  "(account_value \<Rightarrow> 32 word) \<Rightarrow> wd_account \<Rightarrow> 32 word \<Rightarrow> p7_message \<Rightarrow> wd_server \<Rightarrow> bool \<times> wd_server" where
  "wd_accounts_create_user garbage account uid m sv =
     (let account = wd_account_stamp ''wired.account.creation_time'' sv uid account
      in case (if sv_db_ok sv \<and> u_nick (wd_user sv uid) \<noteq> None
               then wd_db_insert_account garbage (sv_page sv) (or FIELD_USER FIELD_USER_LIST) account (sv_db_users sv)
               else None) of
           None \<Rightarrow> wd_database_failed uid m sv
         | Some rows \<Rightarrow> (True, wd_accounts_notify_subscribers (sv\<lparr>sv_db_users := rows\<rparr>)))"

definition wd_accounts_create_group ::
  "(account_value \<Rightarrow> 32 word) \<Rightarrow> wd_account \<Rightarrow> 32 word \<Rightarrow> p7_message \<Rightarrow> wd_server \<Rightarrow> bool \<times> wd_server" where
  "wd_accounts_create_group garbage account uid m sv =
     (let account = wd_account_stamp ''wired.account.creation_time'' sv uid account
      in case (if sv_db_ok sv \<and> u_nick (wd_user sv uid) \<noteq> None
               then wd_db_insert_account garbage (sv_page sv) FIELD_GROUP account (sv_db_groups sv) else None) of
           None \<Rightarrow> wd_database_failed uid m sv
         | Some rows \<Rightarrow> (True, wd_accounts_notify_subscribers (sv\<lparr>sv_db_groups := rows\<rparr>)))"

text \<open>
  The accessor of the new name gives the empty string for an account that has none, so the
  boards are told of a renaming in any case.
\<close>

definition wd_accounts_edit_user ::
  "wd_account \<Rightarrow> 32 word \<Rightarrow> p7_message \<Rightarrow> wd_server \<Rightarrow> (bool \<times> wd_server) wd_result" where
  "wd_accounts_edit_user account uid m sv =
     (let name = wd_account_string ''wired.account.name'' account;
          newname = wd_account_string ''wired.account.new_name'' account;
          account = wd_account_stamp ''wired.account.modification_time'' sv uid (wd_account_take_new_name account)
      in if \<not> sv_db_ok sv then Inl Transaction_Failed
         else
           case wd_db_update_account (sv_page sv) FIELD_USER account name (sv_db_users sv) of
             None \<Rightarrow> Inr (wd_database_failed uid m sv)
           | Some rows \<Rightarrow>
               let sv = sv\<lparr>sv_db_users := rows\<rparr>;
                   sv = wd_boards_renamed_user name (Some newname) sv;
                   sv = wd_accounts_notify_subscribers sv
               in wd_bind (wd_accounts_reload_user_account account sv) (\<lambda>sv. Inr (True, sv)))"

definition wd_accounts_edit_group ::
  "wd_account \<Rightarrow> 32 word \<Rightarrow> p7_message \<Rightarrow> wd_server \<Rightarrow> (bool \<times> wd_server) wd_result" where
  "wd_accounts_edit_group account uid m sv =
     (let name = wd_account_string ''wired.account.name'' account;
          newname = wd_account_string ''wired.account.new_name'' account;
          account = wd_account_stamp ''wired.account.modification_time'' sv uid (wd_account_take_new_name account)
      in case (if sv_db_ok sv then wd_db_update_account (sv_page sv) FIELD_GROUP account name (sv_db_groups sv) else None) of
           None \<Rightarrow> Inr (wd_database_failed uid m sv)
         | Some rows \<Rightarrow>
             let sv = sv\<lparr>sv_db_groups := rows\<rparr>;
                 sv = (if length newname > 0 \<and> name \<noteq> newname then
                         let sv = wd_accounts_rename_group name (Some newname) sv;
                             sv = wd_boards_renamed_group name (Some newname) sv
                         in wd_accounts_notify_subscribers sv
                       else sv)
             in wd_bind (wd_accounts_reload_group_account account sv) (\<lambda>sv. Inr (True, sv)))"

definition wd_accounts_delete_user ::
  "wd_account \<Rightarrow> wd_server \<Rightarrow> (bool \<times> wd_server) wd_result" where
  "wd_accounts_delete_user account sv =
     (let name = wd_account_string ''wired.account.name'' account
      in if \<not> sv_db_ok sv then Inl Transaction_Failed
         else
           let sv = sv\<lparr>sv_db_users := filter (\<lambda>(n, row). n \<noteq> name) (sv_db_users sv)\<rparr>;
               sv = wd_boards_renamed_user name None sv
           in Inr (True, wd_accounts_notify_subscribers sv))"

text \<open>
  A trigger takes the group from the users that have it as their own. The boards are told
  of a user of that name.
\<close>

definition wd_groups_delete_trigger :: "string \<Rightarrow> wd_account \<Rightarrow> wd_account" where
  "wd_groups_delete_trigger name row =
     (if wi_dictionary_data_for_key row ''wired.account.group'' = Some (AV_String name)
      then wi_dictionary_remove row ''wired.account.group'' else row)"

definition wd_accounts_delete_group ::
  "wd_account \<Rightarrow> wd_server \<Rightarrow> (bool \<times> wd_server) wd_result" where
  "wd_accounts_delete_group account sv =
     (let name = wd_account_string ''wired.account.name'' account
      in if \<not> sv_db_ok sv then Inl Transaction_Failed
         else
           let sv = (if name \<in> fst ` set (sv_db_groups sv)
                     then sv\<lparr>sv_db_users := map (\<lambda>(n, row). (n, wd_groups_delete_trigger name row)) (sv_db_users sv)\<rparr>
                     else sv);
               sv = sv\<lparr>sv_db_groups := filter (\<lambda>(n, row). n \<noteq> name) (sv_db_groups sv)\<rparr>;
               sv = wd_boards_renamed_user name None sv
           in Inr (True, wd_accounts_notify_subscribers sv))"

subsection \<open>Listing\<close>

definition wd_accounts_reply_user_list :: "32 word \<Rightarrow> p7_message \<Rightarrow> wd_server \<Rightarrow> bool \<times> wd_server" where
  "wd_accounts_reply_user_list uid m sv =
     (if \<not> sv_db_ok sv then wd_database_failed uid m sv
      else
        let sv = fold (\<lambda>(n, row) sv. wd_user_reply_message uid
                   \<lparr>m_name = ''wired.account.user_list'',
                    m_fields = wd_account_write_to_message (sv_page sv)
                      (wd_account_with_group (sv_garbage sv) sv row) FIELD_USER_LIST\<rparr> m sv) (sv_db_users sv) sv
        in (True, wd_user_reply_message uid \<lparr>m_name = ''wired.account.user_list.done'', m_fields = []\<rparr> m sv))"

definition wd_accounts_reply_group_list :: "32 word \<Rightarrow> p7_message \<Rightarrow> wd_server \<Rightarrow> bool \<times> wd_server" where
  "wd_accounts_reply_group_list uid m sv =
     (if \<not> sv_db_ok sv then wd_database_failed uid m sv
      else
        let sv = fold (\<lambda>(n, row) sv. wd_user_reply_message uid
                   \<lparr>m_name = ''wired.account.group_list'',
                    m_fields = wd_account_write_to_message (sv_page sv) row FIELD_GROUP_LIST\<rparr> m sv) (sv_db_groups sv) sv
        in (True, wd_user_reply_message uid \<lparr>m_name = ''wired.account.group_list.done'', m_fields = []\<rparr> m sv))"

subsection \<open>Statistics of transfers and the password of a login\<close>

text \<open>The number of bytes is bound as a signed 32-bit number.\<close>

definition wd_account_add :: "string \<Rightarrow> int \<Rightarrow> wd_account \<Rightarrow> wd_account" where
  "wd_account_add field n row =
     (case wi_dictionary_data_for_key row field of
        Some (AV_Number k) \<Rightarrow> wi_dictionary_set row (AV_Number (k + n)) field
      | _ \<Rightarrow> row)"

definition wd_accounts_add_statistics ::
  "string \<Rightarrow> string \<Rightarrow> wd_account \<Rightarrow> bool \<Rightarrow> 64 word \<Rightarrow> wd_server \<Rightarrow> wd_server" where
  "wd_accounts_add_statistics count_field bytes_field account finished transferred sv =
     (if sv_db_ok sv then
        sv\<lparr>sv_db_users := map (\<lambda>(n, row).
          if n = wd_account_string ''wired.account.name'' account
          then (n, wd_account_add bytes_field (sint (ucast transferred :: 32 word))
                 (wd_account_add count_field (if finished then 1 else 0) row))
          else (n, row)) (sv_db_users sv)\<rparr>
      else sv)"

definition wd_accounts_add_download_statistics :: "wd_account \<Rightarrow> bool \<Rightarrow> 64 word \<Rightarrow> wd_server \<Rightarrow> wd_server" where
  "wd_accounts_add_download_statistics =
     wd_accounts_add_statistics ''wired.account.downloads'' ''wired.account.download_transferred''"

definition wd_accounts_add_upload_statistics :: "wd_account \<Rightarrow> bool \<Rightarrow> 64 word \<Rightarrow> wd_server \<Rightarrow> wd_server" where
  "wd_accounts_add_upload_statistics =
     wd_accounts_add_statistics ''wired.account.uploads'' ''wired.account.upload_transferred''"

definition wd_accounts_password_for_user :: "wd_server \<Rightarrow> string \<Rightarrow> string option" where
  "wd_accounts_password_for_user sv name =
     (let name = (if length name = 0 then ''guest'' else name)
      in map_option (wd_account_string ''wired.account.password'') (wd_accounts_read_user sv name))"

subsection \<open>The accounts of a new server\<close>

definition wd_account_row :: "nat \<Rightarrow> (string \<times> account_value) list \<Rightarrow> wd_account" where
  "wd_account_row page columns =
     fold (\<lambda>(field, v) row. wi_dictionary_set row v field) columns
       (wi_dictionary_init page True 0 wi_string_hash (=) Default_Value_Callbacks)"

text \<open>The digest of the empty password.\<close>

definition wd_default_password :: string where
  "wd_default_password = ''da39a3ee5e6b4b0d3255bfef95601890afd80709''"

definition wd_default_columns :: "string \<Rightarrow> string \<Rightarrow> int \<Rightarrow> (string \<times> account_value) list" where
  "wd_default_columns name full_name now =
     [(''wired.account.name'', AV_String name), (''wired.account.full_name'', AV_String full_name),
      (''wired.account.creation_time'', AV_Date now)] @
     map (\<lambda>field. (field, AV_Number 0)) wd_account_counters @
     [(''wired.account.password'', AV_String wd_default_password)]"

text \<open>
  The administrator has every privilege except to be protected from disconnection, the ban
  from setting a nick, and the limits.
\<close>

definition wd_admin_privileges :: "string list" where
  "wd_admin_privileges =
     map (\<lambda>s. ''wired.account.'' @ s)
      [''user.get_info'', ''user.disconnect_users'', ''user.ban_users'', ''user.get_users'',
       ''chat.kick_users'', ''chat.set_topic'', ''chat.create_chats'',
       ''message.send_messages'', ''message.broadcast'',
       ''file.list_files'', ''file.search_files'', ''file.get_info'', ''file.create_links'', ''file.rename_files'',
       ''file.set_type'', ''file.set_comment'', ''file.set_permissions'', ''file.set_executable'', ''file.set_label'',
       ''file.create_directories'', ''file.move_files'', ''file.delete_files'', ''file.access_all_dropboxes'',
       ''account.change_password'', ''account.list_accounts'', ''account.read_accounts'', ''account.create_users'',
       ''account.edit_users'', ''account.delete_users'', ''account.create_groups'', ''account.edit_groups'',
       ''account.delete_groups'', ''account.raise_account_privileges'',
       ''transfer.download_files'', ''transfer.upload_files'', ''transfer.upload_anywhere'', ''transfer.upload_directories'',
       ''board.read_boards'', ''board.add_boards'', ''board.move_boards'', ''board.rename_boards'', ''board.delete_boards'',
       ''board.get_board_info'', ''board.set_board_info'', ''board.add_threads'', ''board.move_threads'', ''board.add_posts'',
       ''board.edit_own_threads_and_posts'', ''board.edit_all_threads_and_posts'',
       ''board.delete_own_threads_and_posts'', ''board.delete_all_threads_and_posts'',
       ''log.view_log'', ''events.view_events'', ''settings.get_settings'', ''settings.set_settings'',
       ''banlist.get_bans'', ''banlist.add_bans'', ''banlist.delete_bans'',
       ''tracker.list_servers'', ''tracker.register_servers'']"

definition wd_guest_privileges :: "string list" where
  "wd_guest_privileges =
     map (\<lambda>s. ''wired.account.'' @ s)
      [''chat.create_chats'', ''message.send_messages'', ''file.list_files'', ''file.search_files'', ''file.get_info'',
       ''transfer.download_files'', ''transfer.upload_files'', ''transfer.upload_directories'',
       ''board.read_boards'', ''board.add_threads'', ''board.add_posts'']"

text \<open>None where a statement fails, which ends the start of the server.\<close>

definition wd_accounts_create_default_accounts :: "wd_server \<Rightarrow> wd_server option" where
  "wd_accounts_create_default_accounts sv =
     (if sv_db_ok sv \<and> ''admin'' \<notin> fst ` set (sv_db_users sv) \<and> ''guest'' \<notin> fst ` set (sv_db_users sv) then
        Some (sv\<lparr>sv_db_users := sv_db_users sv @
          [(''admin'', wd_account_row (sv_page sv) (wd_default_columns ''admin'' ''Administrator'' (sv_now sv) @
             [(''wired.account.color'', AV_String ''wired.account.color.red'')] @
             map (\<lambda>field. (field, AV_Number 1)) wd_admin_privileges)),
           (''guest'', wd_account_row (sv_page sv) (wd_default_columns ''guest'' ''Guest'' (sv_now sv) @
             map (\<lambda>field. (field, AV_Number 1)) wd_guest_privileges))]\<rparr>)
      else None)"

definition wd_accounts_initialize :: "wd_server \<Rightarrow> wd_server option" where
  "wd_accounts_initialize sv =
     (if \<not> sv_db_ok sv then None
      else if length (sv_db_users sv) = 0 then wd_accounts_create_default_accounts sv else Some sv)"

end
