(* ===== verification/Wd_Account_Handlers.thy ===== *)
theory Wd_Account_Handlers
  imports Wd_Account_Editing
begin

text \<open>
  The handlers of the messages on accounts (messages.c). The dispatch of Wd_Messages takes
  them as the argument for the handlers outside it: \<open>wd_account_handlers\<close> answers the messages
  on accounts and leaves the others, on files, transfers and settings, to its own argument.
  \<open>garbage\<close> is what is read from the memory of a string as a number.
\<close>

text \<open>A name that the message lacks is found in no row.\<close>

definition wd_named :: "(wd_server \<Rightarrow> string \<Rightarrow> wd_account option) \<Rightarrow> p7_message \<Rightarrow> wd_server \<Rightarrow> wd_account option" where
  "wd_named read m sv = (case p7_string m ''wired.account.name'' of None \<Rightarrow> None | Some name \<Rightarrow> read sv name)"

text \<open>What follows an operation on an account that succeeded.\<close>

definition wd_account_done ::
  "string \<Rightarrow> string option list \<Rightarrow> 32 word \<Rightarrow> p7_message \<Rightarrow> bool \<times> wd_server \<Rightarrow> wd_server wd_result" where
  "wd_account_done event parameters uid m r =
     (if fst r then wd_events_add_event event uid parameters (wd_user_reply_okay uid m (snd r)) else Inr (snd r))"

definition wd_account_listed :: "string \<Rightarrow> 32 word \<Rightarrow> bool \<times> wd_server \<Rightarrow> wd_server wd_result" where
  "wd_account_listed event uid r =
     (if fst r then wd_events_add_event event uid [] (snd r) else Inr (snd r))"

definition wd_message_account_change_password :: "32 word \<Rightarrow> p7_message \<Rightarrow> wd_server \<Rightarrow> wd_server wd_result" where
  "wd_message_account_change_password uid m = wd_with_privilege ''wired.account.account.change_password'' uid m (\<lambda>sv.
     case u_account (wd_user sv uid) of
       None \<Rightarrow> Inl Null_Account
     | Some account \<Rightarrow>
         wd_account_done ''wired.event.account.changed_password'' [] uid m
           (wd_accounts_change_password account (p7_string m ''wired.account.password'') uid m sv))"

definition wd_message_account_list_users :: "32 word \<Rightarrow> p7_message \<Rightarrow> wd_server \<Rightarrow> wd_server wd_result" where
  "wd_message_account_list_users uid m = wd_with_privilege ''wired.account.account.list_accounts'' uid m (\<lambda>sv.
     wd_account_listed ''wired.event.account.listed_users'' uid (wd_accounts_reply_user_list uid m sv))"

definition wd_message_account_list_groups :: "32 word \<Rightarrow> p7_message \<Rightarrow> wd_server \<Rightarrow> wd_server wd_result" where
  "wd_message_account_list_groups uid m = wd_with_privilege ''wired.account.account.list_accounts'' uid m (\<lambda>sv.
     wd_account_listed ''wired.event.account.listed_groups'' uid (wd_accounts_reply_group_list uid m sv))"

definition wd_message_account_read_user :: "32 word \<Rightarrow> p7_message \<Rightarrow> wd_server \<Rightarrow> wd_server wd_result" where
  "wd_message_account_read_user uid m = wd_with_privilege ''wired.account.account.read_accounts'' uid m (\<lambda>sv.
     case wd_named wd_accounts_read_user m sv of
       None \<Rightarrow> wd_reply_error uid ''wired.error.account_not_found'' m sv
     | Some account \<Rightarrow>
         wd_events_add_event ''wired.event.account.read_user'' uid [Some (wd_account_string ''wired.account.name'' account)]
           (wd_account_reply_user_account account uid m sv))"

definition wd_message_account_read_group :: "32 word \<Rightarrow> p7_message \<Rightarrow> wd_server \<Rightarrow> wd_server wd_result" where
  "wd_message_account_read_group uid m = wd_with_privilege ''wired.account.account.read_accounts'' uid m (\<lambda>sv.
     case wd_named wd_accounts_read_group m sv of
       None \<Rightarrow> wd_reply_error uid ''wired.error.account_not_found'' m sv
     | Some account \<Rightarrow>
         wd_events_add_event ''wired.event.account.read_group'' uid [Some (wd_account_string ''wired.account.name'' account)]
           (wd_account_reply_group_account account uid m sv))"

text \<open>The check of an account against the privileges of the user that edits it.\<close>

definition wd_if_verified ::
  "wd_account \<Rightarrow> 32 word \<Rightarrow> p7_message \<Rightarrow> wd_server wd_result \<Rightarrow> wd_server \<Rightarrow> wd_server wd_result" where
  "wd_if_verified account uid m continue sv =
     (case u_account (wd_user sv uid) of
        None \<Rightarrow> Inl Null_Account
      | Some useraccount \<Rightarrow>
          if wd_account_verify_privileges_for_user (sv_garbage sv) sv account useraccount = Verified then continue
          else wd_reply_error uid ''wired.error.permission_denied'' m sv)"

definition wd_message_account_create_user ::
  "(account_value \<Rightarrow> 32 word) \<Rightarrow> 32 word \<Rightarrow> p7_message \<Rightarrow> wd_server \<Rightarrow> wd_server wd_result" where
  "wd_message_account_create_user garbage uid m = wd_with_privilege ''wired.account.account.create_users'' uid m (\<lambda>sv.
     if wd_named wd_accounts_read_user m sv \<noteq> None then wd_reply_error uid ''wired.error.account_exists'' m sv
     else
       let account = wd_account_init_with_message (sv_page sv) m;
           name = wd_account_string ''wired.account.name'' account
       in if length name = 0 then wd_reply_error uid ''wired.error.invalid_message'' m sv
          else wd_if_verified account uid m
            (wd_account_done ''wired.event.account.created_user'' [Some name] uid m
               (wd_accounts_create_user garbage account uid m sv)) sv)"

definition wd_message_account_create_group ::
  "(account_value \<Rightarrow> 32 word) \<Rightarrow> 32 word \<Rightarrow> p7_message \<Rightarrow> wd_server \<Rightarrow> wd_server wd_result" where
  "wd_message_account_create_group garbage uid m = wd_with_privilege ''wired.account.account.create_groups'' uid m (\<lambda>sv.
     if wd_named wd_accounts_read_group m sv \<noteq> None then wd_reply_error uid ''wired.error.account_exists'' m sv
     else
       let account = wd_account_init_with_message (sv_page sv) m;
           name = wd_account_string ''wired.account.name'' account
       in if length name = 0 then wd_reply_error uid ''wired.error.invalid_message'' m sv
          else wd_if_verified account uid m
            (wd_account_done ''wired.event.account.created_group'' [Some name] uid m
               (wd_accounts_create_group garbage account uid m sv)) sv)"

text \<open>
  An edit reads the account, takes over the values of the message and stores it after the
  check. A new name must not be taken. The event names the account as it is called now.
\<close>

definition wd_new_name_taken :: "(wd_server \<Rightarrow> string \<Rightarrow> wd_account option) \<Rightarrow> p7_message \<Rightarrow> wd_server \<Rightarrow> bool" where
  "wd_new_name_taken read m sv \<longleftrightarrow>
     (case p7_string m ''wired.account.new_name'' of
        None \<Rightarrow> False
      | Some newname \<Rightarrow> p7_string m ''wired.account.name'' \<noteq> Some newname \<and> read sv newname \<noteq> None)"

definition wd_message_edit_account ::
  "(wd_server \<Rightarrow> string \<Rightarrow> wd_account option) \<Rightarrow>
    (wd_account \<Rightarrow> 32 word \<Rightarrow> p7_message \<Rightarrow> wd_server \<Rightarrow> (bool \<times> wd_server) wd_result) \<Rightarrow> string \<Rightarrow>
    32 word \<Rightarrow> p7_message \<Rightarrow> wd_server \<Rightarrow> wd_server wd_result" where
  "wd_message_edit_account read edit event uid m sv =
     (if wd_new_name_taken read m sv then wd_reply_error uid ''wired.error.account_exists'' m sv
      else case wd_named read m sv of
        None \<Rightarrow> wd_reply_error uid ''wired.error.account_not_found'' m sv
      | Some account \<Rightarrow>
          let account = wd_account_read_from_message (sv_page sv) account m
          in wd_if_verified account uid m
               (wd_bind (edit account uid m sv) (wd_account_done event
                  [Some (wd_account_string ''wired.account.name'' (wd_account_take_new_name account))] uid m)) sv)"

definition wd_message_account_edit_user :: "32 word \<Rightarrow> p7_message \<Rightarrow> wd_server \<Rightarrow> wd_server wd_result" where
  "wd_message_account_edit_user uid m = wd_with_privilege ''wired.account.account.edit_users'' uid m
     (wd_message_edit_account wd_accounts_read_user wd_accounts_edit_user ''wired.event.account.edited_user'' uid m)"

definition wd_message_account_edit_group :: "32 word \<Rightarrow> p7_message \<Rightarrow> wd_server \<Rightarrow> wd_server wd_result" where
  "wd_message_account_edit_group uid m = wd_with_privilege ''wired.account.account.edit_groups'' uid m
     (wd_message_edit_account wd_accounts_read_group wd_accounts_edit_group ''wired.event.account.edited_group'' uid m)"

text \<open>The users to disconnect are collected before the account is deleted.\<close>

definition wd_message_account_delete_user :: "32 word \<Rightarrow> p7_message \<Rightarrow> wd_server \<Rightarrow> wd_server wd_result" where
  "wd_message_account_delete_user uid m = wd_with_privilege ''wired.account.account.delete_users'' uid m (\<lambda>sv.
     case wd_named wd_accounts_read_user m sv of
       None \<Rightarrow> wd_reply_error uid ''wired.error.account_not_found'' m sv
     | Some account \<Rightarrow>
         let name = wd_account_string ''wired.account.name'' account;
             users = wd_users_users_with_login sv name
         in if \<not> p7_bool_arg sv m ''wired.account.disconnect_users'' \<and> length users > 0
            then wd_reply_error uid ''wired.error.account_in_use'' m sv
            else wd_bind (wd_accounts_delete_user account sv) (\<lambda>(ok, sv).
              let sv = wd_user_reply_okay uid m sv;
                  sv = fold (\<lambda>u. wd_user_set_state WD_USER_DISCONNECTED (u_id u)) users sv
              in wd_events_add_event ''wired.event.account.deleted_user'' uid [Some name] sv))"

definition wd_message_account_delete_group :: "32 word \<Rightarrow> p7_message \<Rightarrow> wd_server \<Rightarrow> wd_server wd_result" where
  "wd_message_account_delete_group uid m = wd_with_privilege ''wired.account.account.delete_groups'' uid m (\<lambda>sv.
     case wd_named wd_accounts_read_group m sv of
       None \<Rightarrow> wd_reply_error uid ''wired.error.account_not_found'' m sv
     | Some account \<Rightarrow>
         wd_bind (wd_accounts_delete_group account sv) (\<lambda>(ok, sv).
           wd_bind (wd_events_add_event ''wired.event.account.deleted_group'' uid
             [Some (wd_account_string ''wired.account.name'' account)] sv) (\<lambda>sv. Inr (wd_user_reply_okay uid m sv))))"

definition wd_account_messages ::
  "(account_value \<Rightarrow> 32 word) \<Rightarrow> (string \<times> (32 word \<Rightarrow> p7_message \<Rightarrow> wd_server \<Rightarrow> wd_server wd_result)) list" where
  "wd_account_messages garbage =
    [(''wired.account.change_password'', wd_message_account_change_password),
     (''wired.account.list_users'', wd_message_account_list_users),
     (''wired.account.list_groups'', wd_message_account_list_groups),
     (''wired.account.read_user'', wd_message_account_read_user),
     (''wired.account.read_group'', wd_message_account_read_group),
     (''wired.account.create_user'', wd_message_account_create_user garbage),
     (''wired.account.create_group'', wd_message_account_create_group garbage),
     (''wired.account.edit_user'', wd_message_account_edit_user),
     (''wired.account.edit_group'', wd_message_account_edit_group),
     (''wired.account.delete_user'', wd_message_account_delete_user),
     (''wired.account.delete_group'', wd_message_account_delete_group)]"

definition wd_account_handlers ::
  "(account_value \<Rightarrow> 32 word) \<Rightarrow> (string \<Rightarrow> 32 word \<Rightarrow> p7_message \<Rightarrow> wd_server \<Rightarrow> wd_server wd_result) \<Rightarrow>
    string \<Rightarrow> 32 word \<Rightarrow> p7_message \<Rightarrow> wd_server \<Rightarrow> wd_server wd_result" where
  "wd_account_handlers garbage other name =
     (case map_of (wd_account_messages garbage) name of Some handler \<Rightarrow> handler | None \<Rightarrow> other name)"

end
