(* ===== verification/Wd_Account_Tables.thy ===== *)
theory Wd_Account_Tables
  imports Wd_Account_Handlers
begin

text \<open>
  The rows of the tables of accounts: what the statements make of each column, the types and
  keys that every operation keeps (\<open>accounts_ok\<close>), and which privileges a row gives with its
  group (\<open>table_flag\<close>). An operation adds a privilege only where it writes one that the check
  of the editor has seen.
\<close>

subsection \<open>The columns of a row\<close>

abbreviation account_fields :: "nat \<Rightarrow> (string, wd_account_field) wi_dictionary" where
  "account_fields \<equiv> wd_account_fields_by_protocol_name"

lemma wd_account_column_field:
  "wd_account_column ftab accounttype name = Some f \<longleftrightarrow>
     wi_dictionary_data_for_key ftab name = Some f \<and> and (af_account f) accounttype \<noteq> 0"
  by (auto simp: wd_account_column_def split: option.splits)

lemma wd_account_update_row:
  assumes "0 < page" and "dict_keyed (=) row"
  shows "dict_keyed (=) (wd_account_update_row page accounttype account row)"
    and "wi_dictionary_data_for_key (wd_account_update_row page accounttype account row) name =
      (case wd_account_column (account_fields page) accounttype name of
         None \<Rightarrow> wi_dictionary_data_for_key row name
       | Some f \<Rightarrow> map_option (wd_account_update_value (af_type f)) (wi_dictionary_data_for_key account name))"
proof -
  let ?F = "account_fields page"
  let ?h = "\<lambda>k v. case wd_account_column ?F accounttype k of None \<Rightarrow> v
    | Some f \<Rightarrow> map_option (wd_account_update_value (af_type f)) (wi_dictionary_data_for_key account k)"
  have step: "dict_keyed (=) (wd_account_update_field ?F accounttype account k d) \<and>
      (\<forall>k'. wi_dictionary_data_for_key (wd_account_update_field ?F accounttype account k d) k' =
        (if k' = k then ?h k (wi_dictionary_data_for_key d k) else wi_dictionary_data_for_key d k'))"
    if d: "dict_keyed (=) d" for k d
    by (auto simp: wd_account_update_field_def d dict.ok_put [OF d] dict.ok_del [OF d] dict.lookup_put [OF d] dict.lookup_del [OF d]
        split: option.split)
  note p = dict.fold_pointwise [where eq = "(=)", OF step assms(2) dict_keys_fields(1) [OF assms(1)]]
  show "dict_keyed (=) (wd_account_update_row page accounttype account row)"
    using p by (simp add: wd_account_update_row_def Let_def)
  show "wi_dictionary_data_for_key (wd_account_update_row page accounttype account row) name = ?h name (wi_dictionary_data_for_key row name)"
    using p dict_keys_fields(2) [OF assms(1), of name]
    by (auto simp: wd_account_update_row_def Let_def wd_account_column_def split: option.splits)
qed

lemma wd_account_empty_row:
  assumes "0 < page"
  shows "dict_keyed (=) (wd_account_empty_row page accounttype)"
    and "wi_dictionary_data_for_key (wd_account_empty_row page accounttype) name =
      (if and accounttype FIELD_USER \<noteq> 0 \<and> name \<in> set wd_account_counters then Some (AV_Number 0) else None)"
proof -
  let ?ks = "if and accounttype FIELD_USER \<noteq> 0 then wd_account_counters else []"
  have step: "dict_keyed (=) (wi_dictionary_set d (AV_Number 0) k) \<and>
      (\<forall>k'. wi_dictionary_data_for_key (wi_dictionary_set d (AV_Number 0) k) k' =
        (if k' = k then Some (AV_Number 0) else wi_dictionary_data_for_key d k'))" if "dict_keyed (=) d" for k and d :: wd_account
    using dict.ok_put [OF that] dict.lookup_put [OF that] by auto
  have i: "dict_keyed (=) (wi_dictionary_init page True 0 wi_string_hash (=) Default_Value_Callbacks :: wd_account)"
    using assms by (rule dict_keyed_init)
  have "distinct ?ks" by (simp add: wd_account_counters_def)
  from dict.fold_pointwise [where eq = "(=)" and h = "\<lambda>_ _. Some (AV_Number 0)", OF step i this]
  show "dict_keyed (=) (wd_account_empty_row page accounttype)"
    "wi_dictionary_data_for_key (wd_account_empty_row page accounttype) name =
      (if and accounttype FIELD_USER \<noteq> 0 \<and> name \<in> set wd_account_counters then Some (AV_Number 0) else None)"
    using assms by (auto simp: wd_account_empty_row_def)
qed

lemma wd_account_insert_row:
  assumes "0 < page" and "dict_keyed (=) account"
  shows "dict_keyed (=) (wd_account_insert_row garbage page accounttype account)"
    and "wi_dictionary_data_for_key (wd_account_insert_row garbage page accounttype account) name =
      (case (wd_account_column (account_fields page) accounttype name, wi_dictionary_data_for_key account name) of
         (Some f, Some v) \<Rightarrow> Some (wd_account_insert_value garbage (af_type f) v)
       | _ \<Rightarrow> wi_dictionary_data_for_key (wd_account_empty_row page accounttype) name)"
proof -
  let ?F = "account_fields page"
  let ?h = "\<lambda>k v. case (wd_account_column ?F accounttype k, wi_dictionary_data_for_key account k) of
    (Some f, Some v) \<Rightarrow> Some (wd_account_insert_value garbage (af_type f) v) | _ \<Rightarrow> v"
  have step: "dict_keyed (=) (wd_account_insert_field garbage ?F accounttype account k d) \<and>
      (\<forall>k'. wi_dictionary_data_for_key (wd_account_insert_field garbage ?F accounttype account k d) k' =
        (if k' = k then ?h k (wi_dictionary_data_for_key d k) else wi_dictionary_data_for_key d k'))"
    if d: "dict_keyed (=) d" for k d
    by (auto simp: wd_account_insert_field_def d dict.ok_put [OF d] dict.lookup_put [OF d] split: option.split)
  note p = dict.fold_pointwise [where eq = "(=)", OF step wd_account_empty_row(1) [OF assms(1)] dict_keys_entries(2) [OF assms(2)]]
  show "dict_keyed (=) (wd_account_insert_row garbage page accounttype account)"
    using p by (simp add: wd_account_insert_row_def Let_def)
  have "name \<in> set (dict_keys account) \<longleftrightarrow> wi_dictionary_data_for_key account name \<noteq> None"
    by (auto simp: dict_keys_entries(3) [OF assms(2)])
  then show "wi_dictionary_data_for_key (wd_account_insert_row garbage page accounttype account) name =
      ?h name (wi_dictionary_data_for_key (wd_account_empty_row page accounttype) name)"
    using p by (auto simp: wd_account_insert_row_def Let_def split: option.splits)
qed

text \<open>The columns of the names and of the group.\<close>

lemma wd_account_name_columns:
  assumes "0 < page"
  shows "wi_dictionary_data_for_key (account_fields page) ''wired.account.name'' =
      Some (af (Some ''name'') ''wired.account.name'' FIELD_STRING 31 True)"
    and "wi_dictionary_data_for_key (account_fields page) ''wired.account.group'' =
      Some (af (Some ''group'') ''wired.account.group'' FIELD_STRING 21 True)"
    and "wi_dictionary_data_for_key (account_fields page) ''wired.account.groups'' =
      Some (af (Some ''groups'') ''wired.account.groups'' FIELD_LIST 21 True)"
    and "wi_dictionary_data_for_key (account_fields page) ''wired.account.new_name'' =
      Some (af None ''wired.account.new_name'' FIELD_STRING 0 False)"
    and "wi_dictionary_data_for_key (account_fields page) ''wired.account.password'' =
      Some (af (Some ''password'') ''wired.account.password'' FIELD_STRING 5 True)"
    and "wi_dictionary_data_for_key (account_fields page) ''wired.account.edited_by'' =
      Some (af (Some ''edited_by'') ''wired.account.edited_by'' FIELD_STRING 15 True)"
    and "wi_dictionary_data_for_key (account_fields page) ''wired.account.creation_time'' =
      Some (af (Some ''creation_time'') ''wired.account.creation_time'' FIELD_DATE 15 True)"
    and "wi_dictionary_data_for_key (account_fields page) ''wired.account.modification_time'' =
      Some (af (Some ''modification_time'') ''wired.account.modification_time'' FIELD_DATE 15 True)"
    and "wi_dictionary_data_for_key (account_fields page) ''wired.account.color'' =
      Some (af (Some ''color'') ''wired.account.color'' FIELD_ENUM 15 False)"
  unfolding wd_account_fields_keyed(2) [OF assms] by code_simp+

subsection \<open>Types and keys\<close>

text \<open>
  A value has the type of its field; the color of an account that was created, whose text
  was stored as a number, is the exception.
\<close>

fun account_value_typed :: "wd_account_field_type \<Rightarrow> account_value \<Rightarrow> bool" where
  "account_value_typed FIELD_STRING (AV_String s) = True"
| "account_value_typed FIELD_DATE (AV_Date d) = True"
| "account_value_typed FIELD_NUMBER (AV_Number n) = True"
| "account_value_typed FIELD_BOOLEAN (AV_Number n) = True"
| "account_value_typed FIELD_ENUM (AV_String s) = True"
| "account_value_typed FIELD_ENUM (AV_Number n) = True"
| "account_value_typed FIELD_LIST (AV_List l) = True"
| "account_value_typed ty v = False"

definition account_typed :: "nat \<Rightarrow> wd_account \<Rightarrow> bool" where
  "account_typed page a \<longleftrightarrow> dict_keyed (=) a \<and>
     (\<forall>name f v. wi_dictionary_data_for_key (account_fields page) name = Some f \<longrightarrow>
        wi_dictionary_data_for_key a name = Some v \<longrightarrow> account_value_typed (af_type f) v)"

definition rows_ok :: "nat \<Rightarrow> (string \<times> wd_account) list \<Rightarrow> bool" where
  "rows_ok page rows \<longleftrightarrow> distinct (map fst rows) \<and>
     (\<forall>(n, row) \<in> set rows. account_typed page row \<and>
        wi_dictionary_data_for_key row ''wired.account.name'' = Some (AV_String n))"

definition accounts_ok :: "wd_server \<Rightarrow> bool" where
  "accounts_ok sv \<longleftrightarrow> 0 < sv_page sv \<and> rows_ok (sv_page sv) (sv_db_users sv) \<and> rows_ok (sv_page sv) (sv_db_groups sv)"

lemma account_typedD:
  assumes "account_typed page a"
  shows "dict_keyed (=) a"
    and "wi_dictionary_data_for_key (account_fields page) name = Some f \<Longrightarrow> wi_dictionary_data_for_key a name = Some v \<Longrightarrow>
      account_value_typed (af_type f) v"
  using assms by (auto simp: account_typed_def)

lemma account_typed_set:
  assumes "account_typed page a"
    and "\<And>f. wi_dictionary_data_for_key (account_fields page) name = Some f \<Longrightarrow> account_value_typed (af_type f) v"
  shows "account_typed page (wi_dictionary_set a v name)"
  using assms account_typedD(1) [OF assms(1)] by (auto simp: account_typed_def dict.ok_put dict.lookup_put)

lemma account_typed_remove: "account_typed page a \<Longrightarrow> account_typed page (wi_dictionary_remove a name)"
  by (auto simp: account_typed_def dict.ok_del dict.lookup_del split: if_splits)

lemma account_value_typed_stored:
  "account_value_typed ty v \<Longrightarrow> account_value_typed ty (wd_account_update_value ty v)"
  "account_value_typed ty v \<Longrightarrow> account_value_typed ty (wd_account_insert_value garbage ty v)"
  by (cases ty; cases v; simp add: wd_account_update_value_def wd_account_insert_value_def wd_account_stored_number_def
      wd_account_stored_list_def)+

lemma account_typed_update_row:
  assumes "0 < page" and "account_typed page row" and "account_typed page account"
  shows "account_typed page (wd_account_update_row page accounttype account row)"
  unfolding account_typed_def
proof (intro conjI allI impI)
  show "dict_keyed (=) (wd_account_update_row page accounttype account row)"
    by (rule wd_account_update_row(1) [OF assms(1) account_typedD(1) [OF assms(2)]])
  fix name f v
  assume "wi_dictionary_data_for_key (account_fields page) name = Some f"
    and "wi_dictionary_data_for_key (wd_account_update_row page accounttype account row) name = Some v"
  then show "account_value_typed (af_type f) v"
    using account_typedD(2) [OF assms(2), of name f v] account_typedD(2) [OF assms(3), of name f]
    by (auto simp: wd_account_update_row(2) [OF assms(1) account_typedD(1) [OF assms(2)]] wd_account_column_def
        intro: account_value_typed_stored split: option.splits if_splits)
qed

lemma wd_account_counters_typed:
  assumes "0 < page" and "name \<in> set wd_account_counters"
    and "wi_dictionary_data_for_key (account_fields page) name = Some f"
  shows "af_type f = FIELD_NUMBER"
proof -
  have "list_all (\<lambda>f. af_protocolname f \<in> set wd_account_counters \<longrightarrow> af_type f = FIELD_NUMBER) wd_account_fields" by code_simp
  then show ?thesis using wd_account_fields_name [OF assms(1,3)] assms(2) by (auto simp: list_all_iff)
qed

lemma account_typed_insert_row:
  assumes "0 < page" and "account_typed page account"
  shows "account_typed page (wd_account_insert_row garbage page accounttype account)"
  unfolding account_typed_def
proof (intro conjI allI impI)
  note row = wd_account_insert_row [OF assms(1) account_typedD(1) [OF assms(2)]]
  show "dict_keyed (=) (wd_account_insert_row garbage page accounttype account)" by (rule row(1))
  fix name f v
  assume f: "wi_dictionary_data_for_key (account_fields page) name = Some f"
    and v: "wi_dictionary_data_for_key (wd_account_insert_row garbage page accounttype account) name = Some v"
  have "account_value_typed (af_type f) (AV_Number 0)" if "name \<in> set wd_account_counters"
    using wd_account_counters_typed [OF assms(1) that f] by simp
  then have e: "account_value_typed (af_type f) v" if "wi_dictionary_data_for_key (wd_account_empty_row page accounttype) name = Some v"
    using that by (auto simp: wd_account_empty_row(2) [OF assms(1)] split: if_splits)
  show "account_value_typed (af_type f) v"
    using v account_typedD(2) [OF assms(2) f] e
    by (auto simp: row(2) wd_account_column_def f intro: account_value_typed_stored split: option.splits if_splits)
qed

lemma account_value_of_message_typed: "account_value_of_message ty m name = Some v \<Longrightarrow> account_value_typed ty v"
  by (auto simp: account_value_of_message_def split: prod.splits wd_account_field_type.splits option.splits p7_value.splits)

lemma account_typed_read_from_message:
  assumes "0 < page" and "account_typed page a"
  shows "account_typed page (wd_account_read_from_message page a m)"
  using assms account_typedD(2) [OF assms(2)]
  by (auto simp: account_typed_def wd_account_read_from_message [OF assms(1) account_typedD(1) [OF assms(2)]]
      intro: account_value_of_message_typed split: option.splits if_splits)

lemma account_typed_init:
  assumes "0 < page"
  shows "account_typed page (wi_dictionary_init page True 0 wi_string_hash (=) Default_Value_Callbacks)"
    and "account_typed page (wd_account_init_with_message page m)"
proof -
  show i: "account_typed page (wi_dictionary_init page True 0 wi_string_hash (=) Default_Value_Callbacks)"
    using assms by (simp add: account_typed_def dict_keyed_init)
  show "account_typed page (wd_account_init_with_message page m)"
    unfolding wd_account_init_with_message_def by (rule account_typed_read_from_message [OF assms i])
qed

lemma account_typed_stamp:
  assumes "0 < page" and "account_typed page a" and "date_field \<in> {''wired.account.creation_time'', ''wired.account.modification_time''}"
  shows "account_typed page (wd_account_stamp date_field sv uid a)"
proof -
  have "account_typed page (wi_dictionary_set a (AV_Date d) date_field)" for d
    using assms(2,3) by (auto intro!: account_typed_set simp: wd_account_name_columns [OF assms(1)])
  note date = this
  show ?thesis
  proof (cases "u_nick (wd_user sv uid)")
    case None
    then show ?thesis by (simp add: wd_account_stamp_def Let_def account_typed_remove [OF date])
  next
    case (Some nick)
    have "account_typed page (wi_dictionary_set (wi_dictionary_set a (AV_Date (sv_now sv)) date_field) (AV_String nick)
        ''wired.account.edited_by'')"
      by (rule account_typed_set [OF date]) (simp add: wd_account_name_columns [OF assms(1)])
    with Some show ?thesis by (simp add: wd_account_stamp_def Let_def)
  qed
qed

lemma account_typed_take_new_name:
  assumes "0 < page" and "account_typed page a"
  shows "account_typed page (wd_account_take_new_name a)"
  using assms by (auto simp: wd_account_take_new_name_def Let_def wd_account_name_columns [OF assms(1)] intro!: account_typed_set)

subsection \<open>What the statements do to a table\<close>

lemma map_of_rename:
  assumes "distinct (map fst rows)" and "new = old \<or> map_of rows new = None"
  shows "map_of (map (\<lambda>(n, row). if n = old then (new, f row) else (n, row)) rows) k =
    (if k = new \<and> map_of rows old \<noteq> None then map_option f (map_of rows old)
     else if k = old then None else map_of rows k)"
  using assms
proof (induction rows)
  case (Cons a rows)
  obtain n row where a: "a = (n, row)" by (cases a)
  have n: "map_of rows n = None" using Cons.prems(1) by (simp add: a map_of_eq_None_iff)
  have "new = old \<or> map_of rows new = None" using Cons.prems(2) by (auto simp: a split: if_splits)
  define r where "r = map_of (map (\<lambda>(n, row). if n = old then (new, f row) else (n, row)) rows) k"
  have i: "r = (if k = new \<and> map_of rows old \<noteq> None then map_option f (map_of rows old)
     else if k = old then None else map_of rows k)"
    unfolding r_def by (rule Cons.IH) (use Cons.prems(1) \<open>new = old \<or> map_of rows new = None\<close> in simp_all)
  have "map_of (map (\<lambda>(n, row). if n = old then (new, f row) else (n, row)) (a # rows)) k =
      (if k = (if n = old then new else n) then Some (if n = old then f row else row) else r)"
    by (simp add: a r_def)
  then show ?case unfolding i using n Cons.prems(2) by (auto simp: a split: if_splits)
qed simp

lemma fst_rename: "map fst (map (\<lambda>(n, row). if n = old then (new, f row) else (n, row)) rows) = map (\<lambda>n. if n = old then new else n) (map fst rows)"
  by (induction rows) auto

lemma wd_db_update_account:
  assumes "wd_db_update_account page accounttype account name rows = Some rows'" and "rows_ok page rows"
    and "name \<in> fst ` set rows"
  defines "new \<equiv> wd_account_string ''wired.account.name'' account"
  shows "new = name \<or> new \<notin> fst ` set rows"
    and "\<forall>field \<in> set (wd_account_not_null accounttype). wi_dictionary_data_for_key account field \<noteq> None"
    and "rows' = map (\<lambda>(n, row). if n = name then (new, wd_account_update_row page accounttype account row) else (n, row)) rows"
    and "map_of rows' k = (if k = new then map_option (wd_account_update_row page accounttype account) (map_of rows name)
      else if k = name then None else map_of rows k)"
proof -
  show r: "new = name \<or> new \<notin> fst ` set rows" 
    "\<forall>field \<in> set (wd_account_not_null accounttype). wi_dictionary_data_for_key account field \<noteq> None"
    "rows' = map (\<lambda>(n, row). if n = name then (new, wd_account_update_row page accounttype account row) else (n, row)) rows"
    using assms(1,3) unfolding wd_db_update_account_def Let_def new_def by (auto split: if_splits)
  have "distinct (map fst rows)" using assms(2) by (simp add: rows_ok_def)
  moreover have "new = name \<or> map_of rows new = None" using r(1) by (auto simp: map_of_eq_None_iff)
  ultimately have "map_of rows' k = (if k = new \<and> map_of rows name \<noteq> None then map_option (wd_account_update_row page accounttype account) (map_of rows name)
     else if k = name then None else map_of rows k)" unfolding r(3) by (rule map_of_rename)
  then
  show "map_of rows' k = (if k = new then map_option (wd_account_update_row page accounttype account) (map_of rows name)
      else if k = name then None else map_of rows k)"
    using assms(3) by (auto simp: map_of_eq_None_iff)
qed

lemma rows_okD:
  assumes "rows_ok page rows" and "map_of rows n = Some row"
  shows "account_typed page row" and "wi_dictionary_data_for_key row ''wired.account.name'' = Some (AV_String n)"
    and "wd_account_string ''wired.account.name'' row = n"
  using assms map_of_SomeD [OF assms(2)] by (auto simp: rows_ok_def wd_account_string_def)

lemma rows_ok_distinct: "rows_ok page rows \<Longrightarrow> distinct (map fst rows)"
  by (simp add: rows_ok_def)

lemma wd_account_name_string:
  assumes "0 < page" and "account_typed page a" and "wi_dictionary_data_for_key a ''wired.account.name'' \<noteq> None"
  shows "wi_dictionary_data_for_key a ''wired.account.name'' = Some (AV_String (wd_account_string ''wired.account.name'' a))"
proof -
  obtain v where v: "wi_dictionary_data_for_key a ''wired.account.name'' = Some v" using assms(3) by auto
  with account_typedD(2) [OF assms(2) wd_account_name_columns(1) [OF assms(1)]] show ?thesis
    by (cases v) (auto simp: wd_account_string_def)
qed

lemma wd_account_types: "accounttype \<in> {FIELD_USER, FIELD_GROUP, or FIELD_USER FIELD_USER_LIST} \<Longrightarrow> and 31 accounttype \<noteq> 0"
  by (auto simp: FIELD_USER_def FIELD_GROUP_def FIELD_USER_LIST_def)

lemma rows_ok_update:
  assumes "0 < page" and "rows_ok page rows" and "account_typed page account" and "accounttype \<in> {FIELD_USER, FIELD_GROUP}"
    and "wd_db_update_account page accounttype account name rows = Some rows'"
  shows "rows_ok page rows'"
proof (cases "name \<in> fst ` set rows")
  case True
  note u = wd_db_update_account [OF assms(5,2) True]
  let ?new = "wd_account_string ''wired.account.name'' account"
  have "distinct (map fst rows')"
    using u(1) rows_ok_distinct [OF assms(2)] unfolding u(3) fst_rename set_map [symmetric] by (intro distinct_rename) metis+
  moreover have "account_typed page row' \<and> wi_dictionary_data_for_key row' ''wired.account.name'' = Some (AV_String n)"
    if "(n, row') \<in> set rows'" for n row'
  proof -
    from that obtain k row where row: "(k, row) \<in> set rows" and r: "(n, row') = (if k = name
        then (?new, wd_account_update_row page accounttype account row) else (k, row))"
      unfolding u(3) by auto
    have ok: "account_typed page row" "wi_dictionary_data_for_key row ''wired.account.name'' = Some (AV_String k)"
      using assms(2) row by (auto simp: rows_ok_def)
    show ?thesis
    proof (cases "k = name")
      case True
      have "wi_dictionary_data_for_key account ''wired.account.name'' \<noteq> None" using u(2) by (simp add: wd_account_not_null_def)
      moreover have "and 31 accounttype \<noteq> 0" using wd_account_types assms(4) by blast
      ultimately show ?thesis
        using wd_account_name_string [OF assms(1,3)] True r account_typed_update_row [OF assms(1) ok(1) assms(3)]
        by (simp add: wd_account_update_row(2) [OF assms(1) account_typedD(1) [OF ok(1)]] wd_account_column_def
            wd_account_name_columns(1) [OF assms(1)] wd_account_update_value_def)
    qed (use r ok in simp)
  qed
  ultimately show ?thesis by (auto simp: rows_ok_def)
qed (use assms(2,5) in \<open>simp add: wd_db_update_account_def Let_def\<close>)

lemma rows_ok_insert:
  assumes "0 < page" and "rows_ok page rows" and "account_typed page account"
    and "accounttype \<in> {or FIELD_USER FIELD_USER_LIST, FIELD_GROUP}"
    and "wd_db_insert_account garbage page accounttype account rows = Some rows'"
  shows "rows_ok page rows'"
    and "\<exists>name. wi_dictionary_data_for_key account ''wired.account.name'' = Some (AV_String name) \<and> map_of rows name = None \<and>
      rows' = rows @ [(name, wd_account_insert_row garbage page accounttype account)]"
proof -
  from assms(5) obtain name where n: "wi_dictionary_data_for_key account ''wired.account.name'' = Some (AV_String name)"
      "name \<notin> fst ` set rows" "rows' = rows @ [(name, wd_account_insert_row garbage page accounttype account)]"
    by (auto simp: wd_db_insert_account_def split: option.splits account_value.splits if_splits)
  then show "\<exists>name. wi_dictionary_data_for_key account ''wired.account.name'' = Some (AV_String name) \<and> map_of rows name = None \<and>
      rows' = rows @ [(name, wd_account_insert_row garbage page accounttype account)]"
    by (auto simp: map_of_eq_None_iff)
  have t: "and 31 accounttype \<noteq> 0" using wd_account_types assms(4) by blast
  have "wi_dictionary_data_for_key (wd_account_insert_row garbage page accounttype account) ''wired.account.name'' = Some (AV_String name)"
    using t n(1)
    by (simp add: wd_account_insert_row(2) [OF assms(1) account_typedD(1) [OF assms(3)]] wd_account_column_def
        wd_account_name_columns(1) [OF assms(1)] wd_account_insert_value_def wd_account_update_value_def)
  then show "rows_ok page rows'"
    using assms(2) n(2) account_typed_insert_row [OF assms(1,3)] by (auto simp: rows_ok_def n(3))
qed

lemma rows_ok_map:
  assumes "rows_ok page rows"
    and "\<And>n row. account_typed page row \<Longrightarrow> account_typed page (f n row) \<and>
      wi_dictionary_data_for_key (f n row) ''wired.account.name'' = wi_dictionary_data_for_key row ''wired.account.name''"
  shows "rows_ok page (map (\<lambda>(n, row). (n, f n row)) rows)"
proof -
  have "map fst (map (\<lambda>(n, row). (n, f n row)) rows) = map fst rows" by (induction rows) auto
  with assms show ?thesis unfolding rows_ok_def by (auto simp del: map_map)
qed

lemma rows_ok_filter: "rows_ok page rows \<Longrightarrow> rows_ok page (filter P rows)"
  by (auto simp: rows_ok_def distinct_map_filter)

end
