(* ===== verification/Wd_Account_Privileges.thy ===== *)
theory Wd_Account_Privileges
  imports Wd_Account_Tables
begin

text \<open>
  The privileges that the tables of accounts give. \<open>table_flag users groups n field\<close> says that
  the account \<open>n\<close> of a table has a privilege, of its own or by its group; what a login or a
  reload reads is exactly that. Every operation on accounts adds only privileges that the
  check of the editor has let pass.
\<close>

subsection \<open>Fields that are privileges\<close>

definition account_privilege :: "nat \<Rightarrow> string \<Rightarrow> bool" where
  "account_privilege page field \<longleftrightarrow>
     (\<exists>f. wi_dictionary_data_for_key (account_fields page) field = Some f \<and> af_type f = FIELD_BOOLEAN)"

lemma account_privilegeE:
  assumes "account_privilege page field" and "0 < page"
  obtains f where "wi_dictionary_data_for_key (account_fields page) field = Some f" and "af_type f = FIELD_BOOLEAN"
    and "af_account f = 28" and "field \<notin> {''wired.account.name'', ''wired.account.group'', ''wired.account.groups'',
      ''wired.account.password'', ''wired.account.new_name'', ''wired.account.edited_by'',
      ''wired.account.creation_time'', ''wired.account.modification_time''}"
proof -
  obtain f where f: "wi_dictionary_data_for_key (account_fields page) field = Some f" "af_type f = FIELD_BOOLEAN"
    using assms(1) by (auto simp: account_privilege_def)
  have "list_all (\<lambda>f. af_type f = FIELD_BOOLEAN \<longrightarrow> af_account f = 28) wd_account_fields" by code_simp
  then have "af_account f = 28" using wd_account_fields_name(2) [OF assms(2) f(1)] f(2) by (auto simp: list_all_iff)
  moreover have "field \<notin> {''wired.account.name'', ''wired.account.group'', ''wired.account.groups'',
      ''wired.account.password'', ''wired.account.new_name'', ''wired.account.edited_by'',
      ''wired.account.creation_time'', ''wired.account.modification_time''}"
    using f wd_account_name_columns [OF assms(2)] by auto
  ultimately show thesis by (rule that [OF f])
qed

lemma account_privilege_number:
  assumes "account_privilege page field" and "account_typed page a" and "wi_dictionary_data_for_key a field = Some v"
  shows "\<exists>n. v = AV_Number n"
proof -
  obtain f where "wi_dictionary_data_for_key (account_fields page) field = Some f" "af_type f = FIELD_BOOLEAN"
    using assms(1) by (auto simp: account_privilege_def)
  with account_typedD(2) [OF assms(2) _ assms(3)] show ?thesis by (cases v) auto
qed

lemma account_privilege_flag:
  assumes "account_privilege page field" and "account_typed page a"
  shows "wd_account_flag garbage field a = wd_account_boolean field a"
  using account_privilege_number [OF assms]
  by (auto simp: wd_account_flag_def wd_account_boolean_def wi_number_bool_def split: option.split)

lemma wd_account_boolean_lookup:
  "wi_dictionary_data_for_key a field = wi_dictionary_data_for_key b field \<Longrightarrow> wd_account_boolean field a = wd_account_boolean field b"
  by (simp add: wd_account_boolean_def wd_account_flag_def)

lemma wd_account_string_lookup:
  "wi_dictionary_data_for_key a field = wi_dictionary_data_for_key b field \<Longrightarrow> wd_account_string field a = wd_account_string field b"
  by (simp add: wd_account_string_def)

text \<open>Storing a privilege keeps it: the low 32 bits are what is tested.\<close>

lemma wd_account_boolean_stored:
  assumes "account_privilege page field" and "0 < page" and "account_typed page account"
  shows "account_typed page row \<Longrightarrow> accounttype \<in> {FIELD_USER, FIELD_GROUP} \<Longrightarrow>
      wd_account_boolean field (wd_account_update_row page accounttype account row) = wd_account_boolean field account"
    and "accounttype \<in> {or FIELD_USER FIELD_USER_LIST, FIELD_GROUP} \<Longrightarrow>
      wd_account_boolean field (wd_account_insert_row garbage page accounttype account) = wd_account_boolean field account"
proof -
  obtain f where f: "wi_dictionary_data_for_key (account_fields page) field = Some f" "af_type f = FIELD_BOOLEAN" "af_account f = 28"
    by (rule account_privilegeE [OF assms(1,2)])
  have c: "wd_account_column (account_fields page) accounttype field = Some f"
    if "accounttype \<in> {or FIELD_USER FIELD_USER_LIST, FIELD_USER, FIELD_GROUP}" for accounttype
    using that f by (auto simp: wd_account_column_def FIELD_USER_def FIELD_GROUP_def FIELD_USER_LIST_def)
  have n: "field \<notin> set wd_account_counters" using wd_account_counters_typed [OF assms(2) _ f(1)] f(2) by auto
  note v = account_privilege_number [OF assms(1,3)]
  have u: "wi_number_bool (\<lambda>_. False) (wd_account_update_value FIELD_BOOLEAN (AV_Number k)) = wi_number_bool (\<lambda>_. False) (AV_Number k)" for k
    by (simp add: wi_number_bool_def wd_account_update_value_def wd_account_stored_number_def)
  show "wd_account_boolean field (wd_account_update_row page accounttype account row) = wd_account_boolean field account"
    if "account_typed page row" "accounttype \<in> {FIELD_USER, FIELD_GROUP}"
    using v that(2) f(2) u
    by (auto simp: wd_account_boolean_def wd_account_flag_def wd_account_update_row(2) [OF assms(2) account_typedD(1) [OF that(1)]] c
        split: option.split)
  have i: "wd_account_insert_value garbage FIELD_BOOLEAN (AV_Number k) = wd_account_update_value FIELD_BOOLEAN (AV_Number k)" for k
    by (simp add: wd_account_insert_value_def)
  show "wd_account_boolean field (wd_account_insert_row garbage page accounttype account) = wd_account_boolean field account"
    if "accounttype \<in> {or FIELD_USER FIELD_USER_LIST, FIELD_GROUP}"
  proof (cases "wi_dictionary_data_for_key account field")
    case None
    then show ?thesis
      using n by (simp add: wd_account_boolean_def wd_account_flag_def wd_account_insert_row(2) [OF assms(2) account_typedD(1) [OF assms(3)]]
          wd_account_empty_row(2) [OF assms(2)] split: option.split)
  next
    case (Some w)
    with v obtain k where "w = AV_Number k" by blast
    moreover have "wd_account_column (account_fields page) accounttype field = Some f" using c that by blast
    ultimately show ?thesis
      using Some f(2) i u
      by (simp add: wd_account_boolean_def wd_account_flag_def wd_account_insert_row(2) [OF assms(2) account_typedD(1) [OF assms(3)]])
  qed
qed

subsection \<open>The privileges of an account with its group\<close>

definition row_flag :: "(string \<times> wd_account) list \<Rightarrow> string \<Rightarrow> wd_account \<Rightarrow> bool" where
  "row_flag groups field row \<longleftrightarrow> wd_account_boolean field row \<or>
     (case wd_account_string ''wired.account.group'' row of
        [] \<Rightarrow> False
      | g # gs \<Rightarrow> (case map_of groups (g # gs) of Some grow \<Rightarrow> wd_account_boolean field grow | None \<Rightarrow> False))"

definition table_flag :: "(string \<times> wd_account) list \<Rightarrow> (string \<times> wd_account) list \<Rightarrow> string \<Rightarrow> string \<Rightarrow> bool" where
  "table_flag users groups n field \<longleftrightarrow> (case map_of users n of Some row \<Rightarrow> row_flag groups field row | None \<Rightarrow> False)"

lemma wd_account_completed_boolean:
  assumes "account_privilege page field" and "0 < page" and "account_typed page a"
  shows "wd_account_boolean field (wd_account_override_privileges garbage page a g) \<longleftrightarrow>
    wd_account_boolean field a \<or> wd_account_boolean field g"
proof -
  obtain f where f: "wi_dictionary_data_for_key (account_fields page) field = Some f" "af_account f = 28" "field \<noteq> ''wired.account.name''"
    by (rule account_privilegeE [OF assms(1,2)]) simp
  have o: "overridable (account_fields page) field"
    using f by (simp add: overridable_def FIELD_PRIVILEGE_def)
  note e = wd_account_override_privileges(2) [OF assms(2) account_typedD(1) [OF assms(3)], of garbage g field]
  show ?thesis
  proof (cases "wi_dictionary_data_for_key a field")
    case None
    with e o show ?thesis by (simp add: wd_account_boolean_def wd_account_flag_def override_value_def)
  next
    case (Some v)
    with account_privilege_number [OF assms(1,3)] obtain n where "v = AV_Number n" by blast
    with Some e o show ?thesis
      by (cases "wi_dictionary_data_for_key g field")
        (auto simp: wd_account_boolean_def wd_account_flag_def override_value_def wi_number_bool_def)
  qed
qed

lemma wd_account_with_group_flag:
  assumes "account_privilege (sv_page sv) field" and "0 < sv_page sv" and "account_typed (sv_page sv) a" and "sv_db_ok sv"
  shows "wd_account_boolean field (wd_account_with_group garbage sv a) = row_flag (sv_db_groups sv) field a"
  using wd_account_completed_boolean [OF assms(1-3)] assms(4)
  by (auto simp: wd_account_with_group_def Let_def row_flag_def wd_accounts_read_group_def split: option.split list.split)

text \<open>What is read for a session is the account of the table with its group.\<close>

lemma wd_accounts_read_user_and_group:
  "wd_accounts_read_user_and_group garbage sv n = map_option (wd_account_with_group garbage sv) (wd_accounts_read_user sv n)"
  by (auto simp: wd_accounts_read_user_and_group_def wd_account_with_group_def Let_def split: option.split)

lemma wd_accounts_read_flag:
  assumes "account_privilege (sv_page sv) field" and "accounts_ok sv" and "sv_db_ok sv"
  shows "(\<exists>a. wd_accounts_read_user_and_group garbage sv n = Some a \<and> wd_account_boolean field a) \<longleftrightarrow>
    table_flag (sv_db_users sv) (sv_db_groups sv) n field"
  using wd_account_with_group_flag [OF assms(1) _ _ assms(3)] rows_okD(1) [of "sv_page sv" "sv_db_users sv" n] assms(2)
  by (auto simp: wd_accounts_read_user_and_group wd_accounts_read_user_def assms(3) table_flag_def accounts_ok_def split: option.split)

subsection \<open>The check of the editor\<close>

lemma wd_account_copy_typed:
  assumes "0 < page" and "account_typed page a"
  shows "account_typed page (wi_dictionary_copy page a)"
  using wi_dictionary_copy(1,2) [OF account_typedD(1) [OF assms(2)] assms(1)] assms(2) by (simp add: account_typed_def)

lemma wd_account_verified_flag:
  assumes "account_privilege (sv_page sv) field" and "0 < sv_page sv" and "account_typed (sv_page sv) account" and "sv_db_ok sv"
    and "\<not> wd_account_boolean ''wired.account.account.raise_account_privileges'' editor"
    and "wd_account_verify_privileges_for_user garbage sv account editor = Verified"
    and "row_flag (sv_db_groups sv) field account"
  shows "wd_account_flag garbage field editor"
proof -
  let ?F = "account_fields (sv_page sv)"
  let ?copy = "wi_dictionary_copy (sv_page sv) account"
  let ?new = "wd_account_with_group garbage sv ?copy"
  obtain f where f: "wi_dictionary_data_for_key ?F field = Some f" "af_type f = FIELD_BOOLEAN" "af_account f = 28"
    by (rule account_privilegeE [OF assms(1,2)])
  note copy = wi_dictionary_copy(2) [OF account_typedD(1) [OF assms(3)] assms(2)]
  have "row_flag (sv_db_groups sv) field ?copy = row_flag (sv_db_groups sv) field account"
    by (simp add: row_flag_def copy wd_account_boolean_lookup [of ?copy field account] wd_account_string_lookup [of ?copy _ account])
  then have "wd_account_boolean field ?new"
    using assms(7) wd_account_with_group_flag [OF assms(1,2) wd_account_copy_typed [OF assms(2,3)] assms(4)] by simp
  then have new: "wd_account_flag garbage field ?new"
    by (auto simp: wd_account_boolean_def wd_account_flag_def wi_number_bool_def split: option.splits account_value.splits)
  have "field \<in> set (dict_keys ?F)" using f(1) dict_keys_fields(2) [OF assms(2), of field] by simp
  moreover have "wd_account_verify_fields garbage ?F editor ?new (dict_keys ?F) = Verified"
    using assms(5,6) by (simp add: wd_account_verify_privileges_for_user_def Let_def)
  ultimately show ?thesis
    using f new unfolding wd_account_verify_fields_iff by (auto simp: FIELD_PRIVILEGE_def)
qed

subsection \<open>What the operations add\<close>

text \<open>
  \<open>tables_add E\<close>: the privileges that accounts have in the new tables they had in the old
  ones, or they satisfy \<open>E\<close>.
\<close>

definition tables_add ::
  "(string \<Rightarrow> bool) \<Rightarrow> nat \<Rightarrow> (string \<times> wd_account) list \<times> (string \<times> wd_account) list \<Rightarrow>
    (string \<times> wd_account) list \<times> (string \<times> wd_account) list \<Rightarrow> bool" where
  "tables_add E page old new \<longleftrightarrow>
     (\<forall>n field. account_privilege page field \<longrightarrow> table_flag (fst new) (snd new) n field \<longrightarrow>
        E field \<or> table_flag (fst old) (snd old) n field)"

lemma row_flag_cong:
  "wd_account_boolean field row' = wd_account_boolean field row \<Longrightarrow>
     wd_account_string ''wired.account.group'' row' = wd_account_string ''wired.account.group'' row \<Longrightarrow>
     row_flag groups field row' = row_flag groups field row"
  by (simp add: row_flag_def)

lemma tables_add_same: "tables_add E page tables tables"
  by (simp add: tables_add_def)

lemma tables_add_map:
  assumes "\<And>row field. account_privilege page field \<Longrightarrow> row_flag groups field (f row) \<Longrightarrow> row_flag groups field row"
  shows "tables_add E page (users, groups) (map (\<lambda>(n, row). (n, if P n then f row else row)) users, groups)"
proof -
  have "map_of (map (\<lambda>(n, row). (n, if P n then f row else row)) users) n = map_option (\<lambda>row. if P n then f row else row) (map_of users n)" for n
    by (induction users) auto
  then show ?thesis using assms by (auto simp: tables_add_def table_flag_def split: option.splits)
qed

lemma tables_add_filter: "rows_ok page users \<Longrightarrow> tables_add E page (users, groups) (filter (\<lambda>(n, row). n \<noteq> name) users, groups)"
proof -
  have "map_of (filter (\<lambda>(n, row). n \<noteq> name) users) n = (if n = name then None else map_of users n)" for n
    by (induction users) auto
  then show ?thesis by (auto simp: tables_add_def table_flag_def split: option.splits if_splits)
qed

lemma tables_add_filter_groups: "tables_add E page (users, groups) (users, filter (\<lambda>(n, row). n \<noteq> name) groups)"
proof -
  have "map_of (filter (\<lambda>(n, row). n \<noteq> name) groups) n = (if n = name then None else map_of groups n)" for n
    by (induction groups) auto
  then show ?thesis by (auto simp: tables_add_def table_flag_def row_flag_def split: option.splits list.splits if_splits)
qed

lemma tables_add_trans: "tables_add E page a b \<Longrightarrow> tables_add E page b c \<Longrightarrow> tables_add E page a c"
  unfolding tables_add_def by blast

text \<open>A new or changed row of a user, all of whose privileges satisfy \<open>E\<close>.\<close>

lemma tables_add_user_row:
  assumes "\<And>n. n \<noteq> new \<Longrightarrow> map_of users' n = None \<or> map_of users' n = map_of users n"
    and "\<And>row field. map_of users' new = Some row \<Longrightarrow> account_privilege page field \<Longrightarrow> row_flag groups field row \<Longrightarrow> E field"
  shows "tables_add E page (users, groups) (users', groups)"
  unfolding tables_add_def
proof (intro allI impI)
  fix n field assume p: "account_privilege page field" and "table_flag (fst (users', groups)) (snd (users', groups)) n field"
  then obtain row where r: "map_of users' n = Some row" "row_flag groups field row"
    by (auto simp: table_flag_def split: option.splits)
  show "E field \<or> table_flag (fst (users, groups)) (snd (users, groups)) n field"
  proof (cases "n = new")
    case True
    with assms(2) p r show ?thesis by blast
  next
    case False
    with assms(1) [of n] r show ?thesis by (cases "map_of users n") (auto simp: table_flag_def)
  qed
qed

text \<open>
  A new or changed row of a group. The users that move with it to its new name keep their own
  privileges, and get those of its row.
\<close>

lemma tables_add_group_row:
  assumes "\<And>g. g \<noteq> new \<Longrightarrow> map_of groups' g = None \<or> map_of groups' g = map_of groups g"
    and "\<And>row field. map_of groups' new = Some row \<Longrightarrow> account_privilege page field \<Longrightarrow> wd_account_boolean field row \<Longrightarrow> E field"
    and "\<And>n. rel_option (\<lambda>row' row. (\<forall>field. account_privilege page field \<longrightarrow> wd_account_boolean field row' = wd_account_boolean field row) \<and>
        (wd_account_string ''wired.account.group'' row' \<in> {new, wd_account_string ''wired.account.group'' row}))
      (map_of users' n) (map_of users n)"
  shows "tables_add E page (users, groups) (users', groups')"
  unfolding tables_add_def
proof (intro allI impI)
  fix n field assume p: "account_privilege page field" and "table_flag (fst (users', groups')) (snd (users', groups')) n field"
  then obtain row' where r': "map_of users' n = Some row'" "row_flag groups' field row'"
    by (auto simp: table_flag_def split: option.splits)
  with assms(3) [of n] p obtain row where r: "map_of users n = Some row" "wd_account_boolean field row' = wd_account_boolean field row"
    "wd_account_string ''wired.account.group'' row' \<in> {new, wd_account_string ''wired.account.group'' row}"
    by (auto elim: option.rel_cases)
  let ?g = "wd_account_string ''wired.account.group'' row'"
  have c: "wd_account_boolean field row' \<or> (\<exists>grow. ?g \<noteq> [] \<and> map_of groups' ?g = Some grow \<and> wd_account_boolean field grow)"
    using r'(2) by (auto simp: row_flag_def split: list.splits option.splits)
  then show "E field \<or> table_flag (fst (users, groups)) (snd (users, groups)) n field"
  proof (elim disjE exE conjE)
    assume "wd_account_boolean field row'"
    with r show ?thesis by (simp add: table_flag_def row_flag_def)
  next
    fix grow assume g: "?g \<noteq> []" "map_of groups' ?g = Some grow" "wd_account_boolean field grow"
    show ?thesis
    proof (cases "?g = new")
      case True
      with assms(2) p g show ?thesis by auto
    next
      case False
      with assms(1) [of ?g] g r have "map_of groups ?g = Some grow" "wd_account_string ''wired.account.group'' row = ?g" by auto
      with g r show ?thesis by (cases ?g) (auto simp: table_flag_def row_flag_def)
    qed
  qed
qed

subsection \<open>Steps that leave a part of the state alone\<close>

definition same_view :: "(wd_server \<Rightarrow> 'a) \<Rightarrow> wd_server \<Rightarrow> wd_server \<Rightarrow> bool" where
  "same_view view s sv \<longleftrightarrow> view sv = view s"

definition kept_view :: "(wd_server \<Rightarrow> 'a) \<Rightarrow> wd_server \<Rightarrow> wd_server wd_result \<Rightarrow> bool" where
  "kept_view view s r \<longleftrightarrow> (\<forall>sv. r = Inr sv \<longrightarrow> same_view view s sv)"

named_theorems wd_accounts_keep "operations that leave a part of the state alone"

lemma same_view_refl: "same_view view s s"
  by (simp add: same_view_def)

lemma same_view_trans: "same_view view a b \<Longrightarrow> same_view view b c \<Longrightarrow> same_view view a c"
  by (simp add: same_view_def)

lemma kept_viewD: "kept_view view s (Inr sv) \<Longrightarrow> same_view view s sv"
  by (simp add: kept_view_def)

lemma same_view_fold [wd_accounts_keep]:
  "(\<And>x sv. x \<in> set xs \<Longrightarrow> same_view view s sv \<Longrightarrow> same_view view s (f x sv)) \<Longrightarrow> same_view view s sv \<Longrightarrow> same_view view s (fold f xs sv)"
  by (induction xs arbitrary: sv) auto

lemma kept_view_results [wd_accounts_keep]:
  "same_view view s sv \<Longrightarrow> kept_view view s (Inr sv)"
  "kept_view view s (Inl e)"
  by (simp_all add: kept_view_def)

lemma kept_view_bind [wd_accounts_keep]:
  "kept_view view s r \<Longrightarrow> (\<And>sv. same_view view s sv \<Longrightarrow> kept_view view s (f sv)) \<Longrightarrow> kept_view view s (wd_bind r f)"
  by (cases r) (auto simp: kept_view_def)

lemma kept_view_bind_value: "(\<And>x. kept_view view s (f x)) \<Longrightarrow> kept_view view s (wd_bind r f)"
  by (cases r) (auto simp: kept_view_def)

lemma kept_view_each [wd_accounts_keep]:
  "same_view view s sv \<Longrightarrow> (\<And>x sv. x \<in> set xs \<Longrightarrow> same_view view s sv \<Longrightarrow> kept_view view s (f x sv)) \<Longrightarrow> kept_view view s (wd_each f xs sv)"
  by (induction xs arbitrary: sv) (auto intro: kept_view_results kept_view_bind)

lemma kept_view_cases [wd_accounts_keep]:
  "(b \<Longrightarrow> kept_view view s x) \<Longrightarrow> (\<not> b \<Longrightarrow> kept_view view s y) \<Longrightarrow> kept_view view s (if b then x else y)"
  "(b \<Longrightarrow> same_view view s sv1) \<Longrightarrow> (\<not> b \<Longrightarrow> same_view view s sv2) \<Longrightarrow> same_view view s (if b then sv1 else sv2)"
  "(v = None \<Longrightarrow> kept_view view s x) \<Longrightarrow> (\<And>a. v = Some a \<Longrightarrow> kept_view view s (f a)) \<Longrightarrow>
     kept_view view s (case v of None \<Rightarrow> x | Some a \<Rightarrow> f a)"
  by (auto split: option.split)

text \<open>
  A part of the state that does not contain the sessions, the messages sent and the log of
  events is left alone by sending, by logging and by the reload of accounts.
\<close>

locale session_view =
  fixes view :: "wd_server \<Rightarrow> 'a"
  assumes view_users: "view (sv\<lparr>sv_users := us\<rparr>) = view sv"
    and view_out: "view (sv\<lparr>sv_out := out\<rparr>) = view sv"
    and view_events: "view (sv\<lparr>sv_events := evs\<rparr>) = view sv"
begin

lemma view_quiet: "wd_quiet sv sv' \<Longrightarrow> same_view view s sv \<Longrightarrow> same_view view s sv'"
  by (auto simp: wd_quiet_def same_view_def view_users view_out)

lemmas view_sends [wd_accounts_keep] =
  wd_reply_quiets [THEN view_quiet] wd_broadcast_quiets [THEN view_quiet]
  wd_user_send_message_quiet [THEN view_quiet] wd_user_set_disconnected_quiet [THEN view_quiet]

lemma view_set_user [wd_accounts_keep]: "same_view view s sv \<Longrightarrow> same_view view s (wd_set_user f uid sv)"
  by (auto simp: same_view_def wd_set_user_def view_users split: option.split)

lemma view_error [wd_accounts_keep]: "same_view view s sv \<Longrightarrow> kept_view view s (wd_reply_error uid err m sv)"
  unfolding wd_reply_error_def by (intro kept_view_results view_sends)

lemma view_event [wd_accounts_keep]: "same_view view s sv \<Longrightarrow> kept_view view s (wd_events_add_event event uid ps sv)"
  unfolding kept_view_def
proof (intro allI impI)
  fix sv' assume "same_view view s sv" and "wd_events_add_event event uid ps sv = Inr sv'"
  with wd_events_add_event_quiet obtain evs where "wd_quiet (sv\<lparr>sv_events := evs\<rparr>) sv'" by blast
  moreover have "same_view view s (sv\<lparr>sv_events := evs\<rparr>)" using \<open>same_view view s sv\<close> by (simp add: same_view_def view_events)
  ultimately show "same_view view s sv'" by (rule view_quiet)
qed

lemma view_notify [wd_accounts_keep]: "same_view view s sv \<Longrightarrow> same_view view s (wd_accounts_notify_subscribers sv)"
  unfolding wd_accounts_notify_subscribers_def by (assumption | rule wd_accounts_keep view_sends)+

lemma view_reload_account [wd_accounts_keep]: "same_view view s sv \<Longrightarrow> kept_view view s (wd_accounts_reload_account uid name sv)"
  unfolding wd_accounts_reload_account_def wd_boards_reload_account_def Let_def
  by (assumption | rule wd_accounts_keep view_sends view_set_user kept_view_bind_value)+

lemma view_reload [wd_accounts_keep]:
  "same_view view s sv \<Longrightarrow> kept_view view s (wd_accounts_reload_user_account account sv)"
  "same_view view s sv \<Longrightarrow> kept_view view s (wd_accounts_reload_group_account account sv)"
  unfolding wd_accounts_reload_user_account_def wd_accounts_reload_group_account_def wd_accounts_reload_sessions_def
  by (assumption | rule wd_accounts_keep view_reload_account)+

end

text \<open>The tables of accounts with what reading them depends on, and the tables of boards.\<close>

definition accounts_view :: "wd_server \<Rightarrow> (string \<times> wd_account) list \<times> (string \<times> wd_account) list \<times> bool \<times> nat \<times>
    (account_value \<Rightarrow> bool) \<times> (string \<Rightarrow> 32 word)" where
  "accounts_view sv = (sv_db_users sv, sv_db_groups sv, sv_db_ok sv, sv_page sv, sv_garbage sv, sv_color_enum sv)"

definition boards_view :: "wd_server \<Rightarrow> wd_board list \<times> wd_thread list \<times> wd_post list" where
  "boards_view sv = (sv_boards sv, sv_threads sv, sv_posts sv)"

interpretation accounts: session_view accounts_view
  by unfold_locales (simp_all add: accounts_view_def)

interpretation boards: session_view boards_view
  by unfold_locales (simp_all add: boards_view_def)

abbreviation accounts_same :: "wd_server \<Rightarrow> wd_server \<Rightarrow> bool" where
  "accounts_same \<equiv> same_view accounts_view"

abbreviation accounts_kept :: "wd_server \<Rightarrow> wd_server wd_result \<Rightarrow> bool" where
  "accounts_kept \<equiv> kept_view accounts_view"

lemma accounts_same_iff:
  "accounts_same s sv \<longleftrightarrow> sv_db_users sv = sv_db_users s \<and> sv_db_groups sv = sv_db_groups s \<and> sv_db_ok sv = sv_db_ok s \<and>
     sv_page sv = sv_page s \<and> sv_garbage sv = sv_garbage s \<and> sv_color_enum sv = sv_color_enum s"
  by (simp add: same_view_def accounts_view_def)

lemma accounts_same_boards [wd_accounts_keep]:
  "accounts_same s sv \<Longrightarrow> accounts_same s (wd_boards_renamed_user old new sv)"
  "accounts_same s sv \<Longrightarrow> accounts_same s (wd_boards_renamed_group old new sv)"
  by (auto simp: accounts_same_iff wd_boards_renamed_user_def wd_boards_renamed_group_def split: option.split)

subsection \<open>One operation\<close>

definition accounts_step :: "(string \<Rightarrow> bool) \<Rightarrow> wd_server \<Rightarrow> wd_server \<Rightarrow> bool" where
  "accounts_step E s sv \<longleftrightarrow> accounts_ok sv \<and> sv_db_ok sv = sv_db_ok s \<and> sv_page sv = sv_page s \<and> sv_garbage sv = sv_garbage s \<and>
     tables_add E (sv_page s) (sv_db_users s, sv_db_groups s) (sv_db_users sv, sv_db_groups sv)"

lemma accounts_ok_same: "accounts_same s sv \<Longrightarrow> accounts_ok sv = accounts_ok s"
  by (simp add: accounts_same_iff accounts_ok_def)

lemma accounts_step_same: "accounts_ok s \<Longrightarrow> accounts_same s sv \<Longrightarrow> accounts_step E s sv"
  using accounts_ok_same [of s sv] by (simp add: accounts_step_def accounts_same_iff tables_add_same)

lemma accounts_step_then: "accounts_step E s sv \<Longrightarrow> accounts_same sv sv' \<Longrightarrow> accounts_step E s sv'"
  using accounts_ok_same [of sv sv'] by (simp add: accounts_step_def accounts_same_iff)

lemma accounts_okD:
  assumes "accounts_ok sv"
  shows "0 < sv_page sv" "rows_ok (sv_page sv) (sv_db_users sv)" "rows_ok (sv_page sv) (sv_db_groups sv)"
  using assms by (simp_all add: accounts_ok_def)

text \<open>What is written into an account before it is stored touches no privilege and no group.\<close>

lemma wd_account_stamp_lookup:
  assumes "dict_keyed (=) a" and "k \<notin> {date_field, ''wired.account.edited_by''}"
  shows "wi_dictionary_data_for_key (wd_account_stamp date_field sv uid a) k = wi_dictionary_data_for_key a k"
proof -
  note d = dict.ok_put [OF assms(1)]
  show ?thesis
    using assms(2) by (auto simp: wd_account_stamp_def Let_def dict.lookup_put [OF d] dict.lookup_del [OF d] dict.lookup_put [OF assms(1)]
        split: option.split)
qed

lemma wd_account_take_new_name_lookup:
  assumes "dict_keyed (=) a"
  shows "dict_keyed (=) (wd_account_take_new_name a)"
    and "k \<noteq> ''wired.account.name'' \<Longrightarrow> wi_dictionary_data_for_key (wd_account_take_new_name a) k = wi_dictionary_data_for_key a k"
  by (auto simp: wd_account_take_new_name_def Let_def dict.ok_put [OF assms] dict.lookup_put [OF assms] assms)

lemma wd_account_name_taken:
  assumes "dict_keyed (=) a"
  defines "new \<equiv> wd_account_string ''wired.account.new_name'' a"
  shows "wd_account_string ''wired.account.name'' (wd_account_take_new_name a) =
    (if length new > 0 then new else wd_account_string ''wired.account.name'' a)"
  by (auto simp: new_def wd_account_take_new_name_def Let_def wd_account_string_def dict.lookup_put [OF assms(1)])

lemma account_edited:
  fixes sv :: wd_server and uid :: "32 word"
  assumes "0 < page" and "account_typed page a" and "date_field \<in> {''wired.account.creation_time'', ''wired.account.modification_time''}"
  defines "b \<equiv> wd_account_stamp date_field sv uid (wd_account_take_new_name a)"
  shows "account_typed page b"
    and "account_privilege page field \<Longrightarrow> wd_account_boolean field b = wd_account_boolean field a"
    and "wd_account_string ''wired.account.group'' b = wd_account_string ''wired.account.group'' a"
    and "wd_account_string ''wired.account.name'' b = wd_account_string ''wired.account.name'' (wd_account_take_new_name a)"
proof -
  note t = account_typed_take_new_name [OF assms(1,2)]
  show "account_typed page b" unfolding b_def by (rule account_typed_stamp [OF assms(1) t assms(3)])
  have stamp: "wi_dictionary_data_for_key b k = wi_dictionary_data_for_key (wd_account_take_new_name a) k"
    if "k \<notin> {''wired.account.creation_time'', ''wired.account.modification_time'', ''wired.account.edited_by''}" for k
    unfolding b_def by (rule wd_account_stamp_lookup [OF account_typedD(1) [OF t]]) (use that assms(3) in auto)
  note new = wd_account_take_new_name_lookup(2) [OF account_typedD(1) [OF assms(2)]]
  show "wd_account_boolean field b = wd_account_boolean field a" if p: "account_privilege page field"
  proof (rule wd_account_boolean_lookup)
    have "field \<notin> {''wired.account.name'', ''wired.account.group'', ''wired.account.groups'',
      ''wired.account.password'', ''wired.account.new_name'', ''wired.account.edited_by'',
      ''wired.account.creation_time'', ''wired.account.modification_time''}"
      by (rule account_privilegeE [OF p assms(1)])
    then have f: "field \<notin> {''wired.account.creation_time'', ''wired.account.modification_time'', ''wired.account.edited_by''}"
      "field \<noteq> ''wired.account.name''" by simp_all
    show "wi_dictionary_data_for_key b field = wi_dictionary_data_for_key a field" by (simp only: stamp [OF f(1)] new [OF f(2)])
  qed
  show "wd_account_string ''wired.account.group'' b = wd_account_string ''wired.account.group'' a"
    by (rule wd_account_string_lookup, rule trans [OF stamp new]) simp_all
  show "wd_account_string ''wired.account.name'' b = wd_account_string ''wired.account.name'' (wd_account_take_new_name a)"
    by (rule wd_account_string_lookup, rule stamp) simp
qed

lemma wd_account_group_stored:
  assumes "0 < page" and "account_typed page a"
  shows "account_typed page row \<Longrightarrow>
      wd_account_string ''wired.account.group'' (wd_account_update_row page FIELD_USER a row) = wd_account_string ''wired.account.group'' a"
    and "wd_account_string ''wired.account.group'' (wd_account_insert_row garbage page (or FIELD_USER FIELD_USER_LIST) a) =
      wd_account_string ''wired.account.group'' a"
proof -
  have c: "wd_account_column (account_fields page) accounttype ''wired.account.group'' =
      Some (af (Some ''group'') ''wired.account.group'' FIELD_STRING 21 True)"
    if "accounttype \<in> {FIELD_USER, or FIELD_USER FIELD_USER_LIST}" for accounttype
    using that by (auto simp: wd_account_column_def wd_account_name_columns [OF assms(1)] FIELD_USER_def FIELD_USER_LIST_def)
  show "wd_account_string ''wired.account.group'' (wd_account_update_row page FIELD_USER a row) = wd_account_string ''wired.account.group'' a"
    if "account_typed page row"
    by (simp add: wd_account_string_def wd_account_update_row(2) [OF assms(1) account_typedD(1) [OF that]] c wd_account_update_value_def
        split: option.split account_value.split)
  show "wd_account_string ''wired.account.group'' (wd_account_insert_row garbage page (or FIELD_USER FIELD_USER_LIST) a) =
      wd_account_string ''wired.account.group'' a"
    by (auto simp: wd_account_string_def wd_account_insert_row(2) [OF assms(1) account_typedD(1) [OF assms(2)]] c
        wd_account_empty_row(2) [OF assms(1)] wd_account_insert_value_def wd_account_update_value_def wd_account_counters_def split: option.split)
qed

lemma accounts_step_tables:
  assumes "accounts_ok s" and "rows_ok (sv_page s) users" and "rows_ok (sv_page s) groups"
    and "tables_add E (sv_page s) (sv_db_users s, sv_db_groups s) (users, groups)"
    and "accounts_same (s\<lparr>sv_db_users := users, sv_db_groups := groups\<rparr>) sv"
  shows "accounts_step E s sv"
proof -
  have "accounts_step E s (s\<lparr>sv_db_users := users, sv_db_groups := groups\<rparr>)"
    using assms(1-4) by (simp add: accounts_step_def accounts_ok_def)
  then show ?thesis by (rule accounts_step_then [OF _ assms(5)])
qed

text \<open>What the check of an account that is written ensures of its privileges.\<close>

definition wd_editor_has :: "wd_server \<Rightarrow> wd_account \<Rightarrow> string \<Rightarrow> bool" where
  "wd_editor_has sv editor field \<longleftrightarrow>
     wd_account_boolean ''wired.account.account.raise_account_privileges'' editor \<or> wd_account_flag (sv_garbage sv) field editor"

definition wd_checked :: "wd_server \<Rightarrow> wd_account \<Rightarrow> wd_account \<Rightarrow> bool" where
  "wd_checked sv editor account \<longleftrightarrow> account_typed (sv_page sv) account \<and>
     (\<forall>field. account_privilege (sv_page sv) field \<longrightarrow> row_flag (sv_db_groups sv) field account \<longrightarrow> wd_editor_has sv editor field)"

lemma wd_checked_verified:
  assumes "0 < sv_page sv" and "sv_db_ok sv" and "account_typed (sv_page sv) account"
    and "wd_account_verify_privileges_for_user (sv_garbage sv) sv account editor = Verified"
  shows "wd_checked sv editor account"
  using wd_account_verified_flag [OF _ assms(1,3,2) _ assms(4)] assms(3) by (auto simp: wd_checked_def wd_editor_has_def)

lemma wd_checked_edited:
  assumes "0 < sv_page sv" and "wd_checked sv editor a"
    and "date_field \<in> {''wired.account.creation_time'', ''wired.account.modification_time''}"
  shows "wd_checked sv editor (wd_account_stamp date_field s uid (wd_account_take_new_name a))"
proof -
  have t: "account_typed (sv_page sv) a" using assms(2) by (simp add: wd_checked_def)
  note e = account_edited [OF assms(1) t assms(3), where sv = s and uid = uid]
  have "row_flag (sv_db_groups sv) field (wd_account_stamp date_field s uid (wd_account_take_new_name a)) = row_flag (sv_db_groups sv) field a"
    if "account_privilege (sv_page sv) field" for field by (rule row_flag_cong [OF e(2) [OF that] e(3)])
  with assms(2) e(1) show ?thesis unfolding wd_checked_def by blast
qed

lemma accounts_step_update_user:
  assumes "accounts_ok sv" and "wd_checked sv editor a"
    and "wd_db_update_account (sv_page sv) FIELD_USER a name (sv_db_users sv) = Some rows"
    and "accounts_same (sv\<lparr>sv_db_users := rows\<rparr>) sv'"
  shows "accounts_step (wd_editor_has sv editor) sv sv'"
proof (cases "name \<in> fst ` set (sv_db_users sv)")
  case True
  note ok = accounts_okD [OF assms(1)]
  have t: "account_typed (sv_page sv) a" using assms(2) by (simp add: wd_checked_def)
  note u = wd_db_update_account [OF assms(3) ok(2) True]
  let ?new = "wd_account_string ''wired.account.name'' a"
  have "tables_add (wd_editor_has sv editor) (sv_page sv) (sv_db_users sv, sv_db_groups sv) (rows, sv_db_groups sv)"
  proof (rule tables_add_user_row [where new = ?new])
    show "map_of rows n = None \<or> map_of rows n = map_of (sv_db_users sv) n" if "n \<noteq> ?new" for n
      using that by (simp add: u(4))
    fix row field
    assume r: "map_of rows ?new = Some row" and p: "account_privilege (sv_page sv) field" "row_flag (sv_db_groups sv) field row"
    from r obtain row0 where row0: "map_of (sv_db_users sv) name = Some row0" "row = wd_account_update_row (sv_page sv) FIELD_USER a row0"
      by (auto simp: u(4))
    note t0 = rows_okD(1) [OF ok(2) row0(1)]
    have "row_flag (sv_db_groups sv) field row = row_flag (sv_db_groups sv) field a"
      unfolding row0(2) by (rule row_flag_cong)
        (simp_all add: wd_account_boolean_stored(1) [OF p(1) ok(1) t t0] wd_account_group_stored(1) [OF ok(1) t t0])
    then show "wd_editor_has sv editor field" using assms(2) p by (simp add: wd_checked_def)
  qed
  moreover have "rows_ok (sv_page sv) rows" by (rule rows_ok_update [OF ok(1,2) t _ assms(3)]) simp
  ultimately show ?thesis
    using assms(4) ok(3) by (intro accounts_step_tables [OF assms(1), where users = rows and groups = "sv_db_groups sv"]) simp_all
next
  case False
  with assms(3) have "rows = sv_db_users sv" by (simp add: wd_db_update_account_def Let_def)
  with assms(4) show ?thesis by (intro accounts_step_same [OF assms(1)]) simp
qed

lemma accounts_step_insert_user:
  assumes "accounts_ok sv" and "wd_checked sv editor a"
    and "wd_db_insert_account garbage (sv_page sv) (or FIELD_USER FIELD_USER_LIST) a (sv_db_users sv) = Some rows"
    and "accounts_same (sv\<lparr>sv_db_users := rows\<rparr>) sv'"
  shows "accounts_step (wd_editor_has sv editor) sv sv'"
proof -
  note ok = accounts_okD [OF assms(1)]
  have t: "account_typed (sv_page sv) a" using assms(2) by (simp add: wd_checked_def)
  let ?type = "or FIELD_USER FIELD_USER_LIST"
  let ?row = "wd_account_insert_row garbage (sv_page sv) ?type a"
  note i = rows_ok_insert [OF ok(1,2) t _ assms(3)]
  obtain name where n: "map_of (sv_db_users sv) name = None" "rows = sv_db_users sv @ [(name, ?row)]" using i(2) by auto
  have m: "map_of rows k = (if k = name then Some ?row else map_of (sv_db_users sv) k)" for k
    using n(1) by (cases "map_of (sv_db_users sv) k") (auto simp: n(2) map_add_def)
  have "tables_add (wd_editor_has sv editor) (sv_page sv) (sv_db_users sv, sv_db_groups sv) (rows, sv_db_groups sv)"
  proof (rule tables_add_user_row [where new = name])
    fix row field
    assume r: "map_of rows name = Some row" and p: "account_privilege (sv_page sv) field" "row_flag (sv_db_groups sv) field row"
    from r have row: "row = ?row" by (simp add: m)
    have "row_flag (sv_db_groups sv) field row = row_flag (sv_db_groups sv) field a"
      unfolding row by (rule row_flag_cong)
        (simp_all add: wd_account_boolean_stored(2) [OF p(1) ok(1) t] wd_account_group_stored(2) [OF ok(1) t])
    then show "wd_editor_has sv editor field" using assms(2) p by (simp add: wd_checked_def)
  qed (simp add: m)
  then show ?thesis
    using assms(4) i(1) ok(3)
    by (intro accounts_step_tables [OF assms(1), where users = rows and groups = "sv_db_groups sv"]) simp_all
qed

lemma accounts_step_insert_group:
  assumes "accounts_ok sv" and "wd_checked sv editor a"
    and "wd_db_insert_account garbage (sv_page sv) FIELD_GROUP a (sv_db_groups sv) = Some rows"
    and "accounts_same (sv\<lparr>sv_db_groups := rows\<rparr>) sv'"
  shows "accounts_step (wd_editor_has sv editor) sv sv'"
proof -
  note ok = accounts_okD [OF assms(1)]
  have t: "account_typed (sv_page sv) a" using assms(2) by (simp add: wd_checked_def)
  let ?row = "wd_account_insert_row garbage (sv_page sv) FIELD_GROUP a"
  note i = rows_ok_insert [OF ok(1,3) t _ assms(3)]
  obtain name where n: "map_of (sv_db_groups sv) name = None" "rows = sv_db_groups sv @ [(name, ?row)]" using i(2) by auto
  have m: "map_of rows k = (if k = name then Some ?row else map_of (sv_db_groups sv) k)" for k
    using n(1) by (cases "map_of (sv_db_groups sv) k") (auto simp: n(2) map_add_def)
  have "tables_add (wd_editor_has sv editor) (sv_page sv) (sv_db_users sv, sv_db_groups sv) (sv_db_users sv, rows)"
  proof (rule tables_add_group_row [where new = name])
    fix row field
    assume r: "map_of rows name = Some row" and p: "account_privilege (sv_page sv) field" "wd_account_boolean field row"
    then have "wd_account_boolean field a" using wd_account_boolean_stored(2) [OF p(1) ok(1) t, of FIELD_GROUP garbage] by (simp add: m)
    then show "wd_editor_has sv editor field" using assms(2) p by (simp add: wd_checked_def row_flag_def)
  qed (simp_all add: m option.rel_refl)
  then show ?thesis
    using assms(4) i(1) ok(2)
    by (intro accounts_step_tables [OF assms(1), where users = "sv_db_users sv" and groups = rows]) simp_all
qed

text \<open>Renaming a group in a row of a user.\<close>

lemma wd_account_rename_group:
  fixes name :: string
  assumes "0 < page" and "account_typed page row" and "length new > 0"
  defines "row' \<equiv> wd_account_rename_group name (Some new) row"
  shows "account_typed page row'"
    and "k \<notin> {''wired.account.group'', ''wired.account.groups''} \<Longrightarrow> wi_dictionary_data_for_key row' k = wi_dictionary_data_for_key row k"
    and "wi_dictionary_data_for_key row' ''wired.account.group'' =
      (if wi_dictionary_data_for_key row ''wired.account.group'' = Some (AV_String name) then Some (AV_String new)
       else wi_dictionary_data_for_key row ''wired.account.group'')"
    and "wi_dictionary_data_for_key row' ''wired.account.groups'' =
      (case wi_dictionary_data_for_key row ''wired.account.groups'' of
         Some (AV_List groups) \<Rightarrow>
           if name \<in> set groups then Some (wd_account_stored_list (wd_replace_first name (Some new) groups))
           else Some (AV_List groups)
       | v \<Rightarrow> v)"
proof -
  define r where "r = (if wi_dictionary_data_for_key row ''wired.account.group'' = Some (AV_String name)
    then wi_dictionary_set row (AV_String new) ''wired.account.group'' else row)"
  note k = account_typedD(1) [OF assms(2)]
  have r: "account_typed page r"
    using assms(2) by (auto simp: r_def wd_account_name_columns [OF assms(1)] intro!: account_typed_set)
  have row': "row' = (case wi_dictionary_data_for_key r ''wired.account.groups'' of
           Some (AV_List groups) \<Rightarrow>
             if name \<in> set groups
             then wi_dictionary_set r (wd_account_stored_list (wd_replace_first name (Some new) groups)) ''wired.account.groups''
             else r
         | _ \<Rightarrow> r)"
    by (simp only: row'_def wd_account_rename_group_def Let_def r_def option.case if_P [OF assms(3)])
  have "account_value_typed FIELD_LIST (wd_account_stored_list l)" for l by (simp add: wd_account_stored_list_def)
  then show "account_typed page row'"
    unfolding row' by (auto simp: wd_account_name_columns [OF assms(1)] r intro!: account_typed_set [OF r] split: option.split account_value.split)
  have rl: "wi_dictionary_data_for_key r k = (if k = ''wired.account.group'' \<and> wi_dictionary_data_for_key row ''wired.account.group'' = Some (AV_String name)
      then Some (AV_String new) else wi_dictionary_data_for_key row k)" for k
    by (simp add: r_def dict.lookup_put [OF k])
  have l: "wi_dictionary_data_for_key row' k = (if k = ''wired.account.groups'' then
       (case wi_dictionary_data_for_key r ''wired.account.groups'' of
         Some (AV_List groups) \<Rightarrow>
           if name \<in> set groups then Some (wd_account_stored_list (wd_replace_first name (Some new) groups))
           else Some (AV_List groups)
       | v \<Rightarrow> v) else wi_dictionary_data_for_key r k)" for k
    unfolding row' by (auto simp: dict.lookup_put [OF account_typedD(1) [OF r]] split: option.split account_value.split)
  show "k \<notin> {''wired.account.group'', ''wired.account.groups''} \<Longrightarrow> wi_dictionary_data_for_key row' k = wi_dictionary_data_for_key row k"
    by (simp add: l rl)
  show "wi_dictionary_data_for_key row' ''wired.account.group'' =
      (if wi_dictionary_data_for_key row ''wired.account.group'' = Some (AV_String name) then Some (AV_String new)
       else wi_dictionary_data_for_key row ''wired.account.group'')"
    by (simp add: l rl)
  show "wi_dictionary_data_for_key row' ''wired.account.groups'' =
      (case wi_dictionary_data_for_key row ''wired.account.groups'' of
         Some (AV_List groups) \<Rightarrow>
           if name \<in> set groups then Some (wd_account_stored_list (wd_replace_first name (Some new) groups))
           else Some (AV_List groups)
       | v \<Rightarrow> v)"
    by (simp add: l rl)
qed

lemma map_of_map_values: "map_of (map (\<lambda>(n, row). (n, f row)) rows) n = map_option f (map_of rows n)"
  by (induction rows) auto

lemma accounts_step_update_group:
  assumes "accounts_ok sv" and "wd_checked sv editor a"
    and "wd_db_update_account (sv_page sv) FIELD_GROUP a name (sv_db_groups sv) = Some rows" and "name \<in> fst ` set (sv_db_groups sv)"
    and "users = sv_db_users sv \<or> length (wd_account_string ''wired.account.name'' a) > 0 \<and>
      users = map (\<lambda>(n, row). (n, wd_account_rename_group name (Some (wd_account_string ''wired.account.name'' a)) row)) (sv_db_users sv)"
    and "accounts_same (sv\<lparr>sv_db_users := users, sv_db_groups := rows\<rparr>) sv'"
  shows "accounts_step (wd_editor_has sv editor) sv sv'"
proof -
  note ok = accounts_okD [OF assms(1)]
  have t: "account_typed (sv_page sv) a" using assms(2) by (simp add: wd_checked_def)
  note u = wd_db_update_account [OF assms(3) ok(3) assms(4)]
  let ?new = "wd_account_string ''wired.account.name'' a"
  let ?R = "\<lambda>row' row. (\<forall>field. account_privilege (sv_page sv) field \<longrightarrow> wd_account_boolean field row' = wd_account_boolean field row) \<and>
        (wd_account_string ''wired.account.group'' row' \<in> {?new, wd_account_string ''wired.account.group'' row})"
  have renamed: "?R (wd_account_rename_group name (Some ?new) row) row" if row: "account_typed (sv_page sv) row" and new: "length ?new > 0" for row
  proof (intro conjI allI impI)
    note r = wd_account_rename_group [OF ok(1) row new, where name = name]
    fix field assume p: "account_privilege (sv_page sv) field"
    have "field \<notin> {''wired.account.name'', ''wired.account.group'', ''wired.account.groups'',
      ''wired.account.password'', ''wired.account.new_name'', ''wired.account.edited_by'',
      ''wired.account.creation_time'', ''wired.account.modification_time''}"
      by (rule account_privilegeE [OF p ok(1)])
    then have "field \<notin> {''wired.account.group'', ''wired.account.groups''}" by simp
    from r(2) [OF this] show "wd_account_boolean field (wd_account_rename_group name (Some ?new) row) = wd_account_boolean field row"
      by (rule wd_account_boolean_lookup)
  next
    show "wd_account_string ''wired.account.group'' (wd_account_rename_group name (Some ?new) row) \<in>
        {?new, wd_account_string ''wired.account.group'' row}"
      using wd_account_rename_group(3) [OF ok(1) row new, of name] unfolding wd_account_string_def by (simp split: if_splits)
  qed
  have users: "rel_option ?R (map_of users n) (map_of (sv_db_users sv) n)" for n
  proof (cases "users = sv_db_users sv")
    case True
    then show ?thesis by (simp add: option.rel_refl)
  next
    case False
    with assms(5) have new: "length ?new > 0" and m: "map_of users n = map_option (wd_account_rename_group name (Some ?new)) (map_of (sv_db_users sv) n)"
      by (simp_all add: map_of_map_values)
    show ?thesis
    proof (cases "map_of (sv_db_users sv) n")
      case (Some row)
      from renamed [OF rows_okD(1) [OF ok(2) Some] new] show ?thesis by (simp add: m Some)
    qed (simp add: m)
  qed
  have "tables_add (wd_editor_has sv editor) (sv_page sv) (sv_db_users sv, sv_db_groups sv) (users, rows)"
  proof (rule tables_add_group_row [where new = ?new, OF _ _ users])
    show "map_of rows n = None \<or> map_of rows n = map_of (sv_db_groups sv) n" if "n \<noteq> ?new" for n
      using that by (simp add: u(4))
    fix row field
    assume r: "map_of rows ?new = Some row" and p: "account_privilege (sv_page sv) field" "wd_account_boolean field row"
    from r obtain row0 where row0: "map_of (sv_db_groups sv) name = Some row0" "row = wd_account_update_row (sv_page sv) FIELD_GROUP a row0"
      by (auto simp: u(4))
    have "wd_account_boolean field a"
      using p(2) wd_account_boolean_stored(1) [OF p(1) ok(1) t rows_okD(1) [OF ok(3) row0(1)], of FIELD_GROUP] by (simp add: row0(2))
    then show "wd_editor_has sv editor field" using assms(2) p by (simp add: wd_checked_def row_flag_def)
  qed
  moreover have "rows_ok (sv_page sv) rows" by (rule rows_ok_update [OF ok(1,3) t _ assms(3)]) simp
  moreover have "rows_ok (sv_page sv) users"
  proof (cases "users = sv_db_users sv")
    case False
    with assms(5) have new: "length ?new > 0"
      and m: "users = map (\<lambda>(n, row). (n, (\<lambda>_. wd_account_rename_group name (Some ?new)) n row)) (sv_db_users sv)" by simp_all
    show ?thesis unfolding m
      by (rule rows_ok_map [OF ok(2)]) (use wd_account_rename_group(1,2) [OF ok(1) _ new, where name = name] in simp)
  qed (simp add: ok(2))
  ultimately show ?thesis
    using assms(6) by (intro accounts_step_tables [OF assms(1), where users = users and groups = rows]) simp_all
qed

lemma wd_groups_delete_trigger:
  assumes "account_typed page row"
  shows "account_typed page (wd_groups_delete_trigger name row)"
    and "k \<noteq> ''wired.account.group'' \<Longrightarrow> wi_dictionary_data_for_key (wd_groups_delete_trigger name row) k = wi_dictionary_data_for_key row k"
    and "wd_account_string ''wired.account.group'' (wd_groups_delete_trigger name row) \<in> {[], wd_account_string ''wired.account.group'' row}"
  using account_typed_remove [OF assms]
  by (simp_all add: wd_groups_delete_trigger_def assms dict.lookup_del [OF account_typedD(1) [OF assms]] wd_account_string_def)

lemma accounts_step_delete_group:
  assumes "accounts_ok sv"
    and "accounts_same (sv\<lparr>sv_db_users := map (\<lambda>(n, row). (n, wd_groups_delete_trigger name row)) (sv_db_users sv),
      sv_db_groups := filter (\<lambda>(n, row). n \<noteq> name) (sv_db_groups sv)\<rparr>) sv'"
  shows "accounts_step E sv sv'"
proof -
  note ok = accounts_okD [OF assms(1)]
  let ?users = "map (\<lambda>(n, row). (n, wd_groups_delete_trigger name row)) (sv_db_users sv)"
  have flag: "row_flag (sv_db_groups sv) field row"
    if row: "account_typed (sv_page sv) row" and p: "account_privilege (sv_page sv) field"
      and f: "row_flag (sv_db_groups sv) field (wd_groups_delete_trigger name row)" for row field
  proof -
    note t = wd_groups_delete_trigger [OF row]
    have "field \<notin> {''wired.account.name'', ''wired.account.group'', ''wired.account.groups'',
      ''wired.account.password'', ''wired.account.new_name'', ''wired.account.edited_by'',
      ''wired.account.creation_time'', ''wired.account.modification_time''}"
      by (rule account_privilegeE [OF p ok(1)])
    then have "field \<noteq> ''wired.account.group''" by simp
    from wd_account_boolean_lookup [OF t(2) [OF this]] t(3) [of name] f show ?thesis
      unfolding row_flag_def by (elim disjE insertE) (simp_all split: list.splits option.splits)
  qed
  have "tables_add E (sv_page sv) (sv_db_users sv, sv_db_groups sv) (?users, sv_db_groups sv)"
    unfolding tables_add_def
  proof (intro allI impI)
    fix n field
    assume p: "account_privilege (sv_page sv) field" and f: "table_flag (fst (?users, sv_db_groups sv)) (snd (?users, sv_db_groups sv)) n field"
    then obtain row where row: "map_of (sv_db_users sv) n = Some row"
      by (cases "map_of (sv_db_users sv) n") (auto simp: table_flag_def map_of_map_values)
    with f have "row_flag (sv_db_groups sv) field (wd_groups_delete_trigger name row)"
      by (simp add: table_flag_def map_of_map_values)
    with flag [OF rows_okD(1) [OF ok(2) row] p] row
    show "E field \<or> table_flag (fst (sv_db_users sv, sv_db_groups sv)) (snd (sv_db_users sv, sv_db_groups sv)) n field"
      by (simp add: table_flag_def)
  qed
  then have "tables_add E (sv_page sv) (sv_db_users sv, sv_db_groups sv) (?users, filter (\<lambda>(n, row). n \<noteq> name) (sv_db_groups sv))"
    by (rule tables_add_trans [OF _ tables_add_filter_groups])
  moreover have "rows_ok (sv_page sv) ?users"
    using rows_ok_map [OF ok(2), of "\<lambda>_. wd_groups_delete_trigger name"] wd_groups_delete_trigger(1,2) by simp
  ultimately show ?thesis
    using assms(2) rows_ok_filter [OF ok(3)] by (intro accounts_step_tables [OF assms(1)])
qed

lemma accounts_step_delete_user:
  assumes "accounts_ok sv" and "accounts_same (sv\<lparr>sv_db_users := filter (\<lambda>(n, row). n \<noteq> name) (sv_db_users sv)\<rparr>) sv'"
  shows "accounts_step E sv sv'"
  using tables_add_filter [OF accounts_okD(2) [OF assms(1)]] rows_ok_filter [OF accounts_okD(2) [OF assms(1)]] assms(2) accounts_okD(3) [OF assms(1)]
  by (intro accounts_step_tables [OF assms(1), where users = "filter (\<lambda>(n, row). n \<noteq> name) (sv_db_users sv)" and groups = "sv_db_groups sv"])
    simp_all

lemma accounts_step_password:
  assumes "accounts_ok sv"
    and "accounts_same (sv\<lparr>sv_db_users := map (\<lambda>(n, row). if n = name
      then (n, wi_dictionary_set row (AV_String p) ''wired.account.password'') else (n, row)) (sv_db_users sv)\<rparr>) sv'"
  shows "accounts_step E sv sv'"
proof -
  note ok = accounts_okD [OF assms(1)]
  let ?f = "\<lambda>n row. if n = name then wi_dictionary_set row (AV_String p) ''wired.account.password'' else row"
  have e: "map (\<lambda>(n, row). if n = name then (n, wi_dictionary_set row (AV_String p) ''wired.account.password'') else (n, row)) (sv_db_users sv) =
      map (\<lambda>(n, row). (n, ?f n row)) (sv_db_users sv)" by auto
  have row: "account_typed (sv_page sv) (?f n row) \<and>
      (\<forall>k. k \<noteq> ''wired.account.password'' \<longrightarrow> wi_dictionary_data_for_key (?f n row) k = wi_dictionary_data_for_key row k)"
    if "account_typed (sv_page sv) row" for n row
    using that by (auto simp: wd_account_name_columns [OF ok(1)] dict.lookup_put [OF account_typedD(1) [OF that]] intro!: account_typed_set)
  have "tables_add E (sv_page sv) (sv_db_users sv, sv_db_groups sv) (map (\<lambda>(n, row). (n, ?f n row)) (sv_db_users sv), sv_db_groups sv)"
    unfolding tables_add_def fst_conv snd_conv
  proof (intro allI impI)
    fix n field
    assume priv: "account_privilege (sv_page sv) field" and f: "table_flag (map (\<lambda>(n, row). (n, ?f n row)) (sv_db_users sv)) (sv_db_groups sv) n field"
    have m: "map_of (map (\<lambda>(n, row). (n, ?f n row)) rows) n = map_option (?f n) (map_of rows n)" for rows
      by (induction rows) auto
    then obtain r where r: "map_of (sv_db_users sv) n = Some r"
      using f by (cases "map_of (sv_db_users sv) n") (auto simp: table_flag_def)
    note l = row [OF rows_okD(1) [OF ok(2) r], of n, THEN conjunct2, rule_format]
    have "field \<notin> {''wired.account.name'', ''wired.account.group'', ''wired.account.groups'',
      ''wired.account.password'', ''wired.account.new_name'', ''wired.account.edited_by'',
      ''wired.account.creation_time'', ''wired.account.modification_time''}"
      by (rule account_privilegeE [OF priv ok(1)])
    then have "field \<noteq> ''wired.account.password''" by simp
    then have "row_flag (sv_db_groups sv) field (?f n r) = row_flag (sv_db_groups sv) field r"
      by (intro row_flag_cong wd_account_boolean_lookup wd_account_string_lookup l) simp_all
    with f show "E field \<or> table_flag (sv_db_users sv) (sv_db_groups sv) n field"
      unfolding table_flag_def m r by simp
  qed
  moreover have "rows_ok (sv_page sv) (map (\<lambda>(n, row). (n, ?f n row)) (sv_db_users sv))"
    by (rule rows_ok_map [OF ok(2)]) (use row in simp)
  ultimately show ?thesis
    using assms(2) ok(3) unfolding e
    by (intro accounts_step_tables [OF assms(1), where users = "map (\<lambda>(n, row). (n, ?f n row)) (sv_db_users sv)" and groups = "sv_db_groups sv"])
      simp_all
qed

lemma wd_checked_stamp:
  assumes "0 < sv_page sv" and "wd_checked sv editor a"
    and "date_field \<in> {''wired.account.creation_time'', ''wired.account.modification_time''}"
  shows "wd_checked sv editor (wd_account_stamp date_field s uid a)"
proof -
  have t: "account_typed (sv_page sv) a" using assms(2) by (simp add: wd_checked_def)
  let ?b = "wd_account_stamp date_field s uid a"
  have l: "wi_dictionary_data_for_key ?b k = wi_dictionary_data_for_key a k"
    if "k \<notin> {''wired.account.creation_time'', ''wired.account.modification_time'', ''wired.account.edited_by''}" for k
    by (rule wd_account_stamp_lookup [OF account_typedD(1) [OF t]]) (use that assms(3) in auto)
  have "row_flag (sv_db_groups sv) field ?b = row_flag (sv_db_groups sv) field a" if p: "account_privilege (sv_page sv) field" for field
  proof -
    have "field \<notin> {''wired.account.name'', ''wired.account.group'', ''wired.account.groups'',
      ''wired.account.password'', ''wired.account.new_name'', ''wired.account.edited_by'',
      ''wired.account.creation_time'', ''wired.account.modification_time''}"
      by (rule account_privilegeE [OF p assms(1)])
    then show ?thesis by (intro row_flag_cong wd_account_boolean_lookup wd_account_string_lookup l) simp_all
  qed
  with assms(2) account_typed_stamp [OF assms(1) t assms(3)] show ?thesis unfolding wd_checked_def by blast
qed

text \<open>The operations, for an account that was checked.\<close>

lemma accounts_step_failed: "accounts_ok sv \<Longrightarrow> accounts_step E sv (snd (wd_database_failed uid m sv))"
  unfolding wd_database_failed_def snd_conv
  by (intro accounts_step_same accounts.view_sends same_view_refl)

lemma accounts_step_create_user:
  assumes "accounts_ok sv" and "wd_checked sv editor a"
  shows "accounts_step (wd_editor_has sv editor) sv (snd (wd_accounts_create_user garbage a uid m sv))"
proof -
  note c = wd_checked_stamp [OF accounts_okD(1) [OF assms(1)] assms(2), of "''wired.account.creation_time''" sv uid]
  show ?thesis
    using accounts_step_insert_user [OF assms(1) c _ accounts.view_notify [OF same_view_refl], of garbage] accounts_step_failed [OF assms(1)]
    by (auto simp: wd_accounts_create_user_def Let_def split: option.split if_splits)
qed

lemma accounts_step_create_group:
  assumes "accounts_ok sv" and "wd_checked sv editor a"
  shows "accounts_step (wd_editor_has sv editor) sv (snd (wd_accounts_create_group garbage a uid m sv))"
proof -
  note c = wd_checked_stamp [OF accounts_okD(1) [OF assms(1)] assms(2), of "''wired.account.creation_time''" sv uid]
  show ?thesis
    using accounts_step_insert_group [OF assms(1) c _ accounts.view_notify [OF same_view_refl], of garbage] accounts_step_failed [OF assms(1)]
    by (auto simp: wd_accounts_create_group_def Let_def split: option.split if_splits)
qed

lemma accounts_step_edit_user:
  assumes "accounts_ok sv" and "wd_checked sv editor a" and "wd_accounts_edit_user a uid m sv = Inr (b, sv')"
  shows "accounts_step (wd_editor_has sv editor) sv sv'"
proof -
  let ?e = "wd_account_stamp ''wired.account.modification_time'' sv uid (wd_account_take_new_name a)"
  have c: "wd_checked sv editor ?e" by (rule wd_checked_edited [OF accounts_okD(1) [OF assms(1)] assms(2)]) simp
  from assms(3) have "sv_db_ok sv" by (auto simp: wd_accounts_edit_user_def Let_def split: if_splits)
  show ?thesis
  proof (cases "wd_db_update_account (sv_page sv) FIELD_USER ?e (wd_account_string ''wired.account.name'' a) (sv_db_users sv)")
    case None
    with assms(3) \<open>sv_db_ok sv\<close> have "sv' = snd (wd_database_failed uid m sv)" by (simp add: wd_accounts_edit_user_def)
    then show ?thesis using accounts_step_failed [OF assms(1)] by simp
  next
    case (Some rows)
    let ?told = "wd_accounts_notify_subscribers (wd_boards_renamed_user (wd_account_string ''wired.account.name'' a)
      (Some (wd_account_string ''wired.account.new_name'' a)) (sv\<lparr>sv_db_users := rows\<rparr>))"
    have "wd_accounts_reload_user_account ?e ?told = Inr sv'"
      using assms(3) \<open>sv_db_ok sv\<close> Some by (cases "wd_accounts_reload_user_account ?e ?told") (auto simp: wd_accounts_edit_user_def Let_def)
    moreover have "accounts_kept (sv\<lparr>sv_db_users := rows\<rparr>) (wd_accounts_reload_user_account ?e ?told)"
      by (intro wd_accounts_keep same_view_refl)
    ultimately have "accounts_same (sv\<lparr>sv_db_users := rows\<rparr>) sv'" using kept_viewD by simp
    then show ?thesis by (rule accounts_step_update_user [OF assms(1) c Some])
  qed
qed

lemma accounts_step_edit_group:
  assumes "accounts_ok sv" and "wd_checked sv editor a" and "wd_accounts_edit_group a uid m sv = Inr (b, sv')"
    and "wd_account_string ''wired.account.name'' a \<in> fst ` set (sv_db_groups sv)"
  shows "accounts_step (wd_editor_has sv editor) sv sv'"
proof -
  let ?e = "wd_account_stamp ''wired.account.modification_time'' sv uid (wd_account_take_new_name a)"
  let ?name = "wd_account_string ''wired.account.name'' a" and ?new = "wd_account_string ''wired.account.new_name'' a"
  note p = accounts_okD(1) [OF assms(1)]
  have t: "account_typed (sv_page sv) a" using assms(2) by (simp add: wd_checked_def)
  have c: "wd_checked sv editor ?e" by (rule wd_checked_edited [OF p assms(2)]) simp
  have n: "wd_account_string ''wired.account.name'' ?e = (if length ?new > 0 then ?new else ?name)"
    using account_edited(4) [OF p t, of "''wired.account.modification_time''" sv uid] wd_account_name_taken [OF account_typedD(1) [OF t]] by simp
  show ?thesis
  proof (cases "sv_db_ok sv \<and> (\<exists>rows. wd_db_update_account (sv_page sv) FIELD_GROUP ?e ?name (sv_db_groups sv) = Some rows)")
    case False
    then have "sv' = snd (wd_database_failed uid m sv)"
      using assms(3) by (auto simp: wd_accounts_edit_group_def Let_def split: option.splits if_splits)
    then show ?thesis using accounts_step_failed [OF assms(1)] by simp
  next
    case True
    then obtain rows where rows: "sv_db_ok sv" "wd_db_update_account (sv_page sv) FIELD_GROUP ?e ?name (sv_db_groups sv) = Some rows" by blast
    let ?told = "if length ?new > 0 \<and> ?name \<noteq> ?new then wd_accounts_notify_subscribers (wd_boards_renamed_group ?name (Some ?new)
      (wd_accounts_rename_group ?name (Some ?new) (sv\<lparr>sv_db_groups := rows\<rparr>))) else sv\<lparr>sv_db_groups := rows\<rparr>"
    let ?users = "if length ?new > 0 \<and> ?name \<noteq> ?new
      then map (\<lambda>(n, row). (n, wd_account_rename_group ?name (Some ?new) row)) (sv_db_users sv) else sv_db_users sv"
    have r: "wd_accounts_reload_group_account ?e ?told = Inr sv'"
    proof -
      have "wd_accounts_edit_group a uid m sv = wd_bind (wd_accounts_reload_group_account ?e ?told) (\<lambda>sv. Inr (True, sv))"
        using rows unfolding wd_accounts_edit_group_def Let_def by simp
      with assms(3) show ?thesis by (cases "wd_accounts_reload_group_account ?e ?told") simp_all
    qed
    have "accounts_same (sv\<lparr>sv_db_users := ?users, sv_db_groups := rows\<rparr>)
        (if length ?new > 0 \<and> ?name \<noteq> ?new then wd_accounts_rename_group ?name (Some ?new) (sv\<lparr>sv_db_groups := rows\<rparr>)
         else sv\<lparr>sv_db_groups := rows\<rparr>)"
      using rows(1) by (simp add: accounts_same_iff wd_accounts_rename_group_def)
    then have "accounts_same (sv\<lparr>sv_db_users := ?users, sv_db_groups := rows\<rparr>) ?told"
      by (simp only: split: if_splits) (intro wd_accounts_keep | simp)+
    from accounts.view_reload(2) [OF this, of ?e] have same: "accounts_same (sv\<lparr>sv_db_users := ?users, sv_db_groups := rows\<rparr>) sv'"
      unfolding r by (rule kept_viewD)
    show ?thesis
      by (rule accounts_step_update_group [OF assms(1) c rows(2) assms(4) _ same]) (simp add: n)
  qed
qed

lemma accounts_step_deletions:
  assumes "accounts_ok sv"
  shows "wd_accounts_delete_user a sv = Inr (b, sv') \<Longrightarrow> accounts_step E sv sv'"
    and "wd_accounts_delete_group a sv = Inr (b, sv') \<Longrightarrow> wd_account_string ''wired.account.name'' a \<in> fst ` set (sv_db_groups sv) \<Longrightarrow>
      accounts_step E sv sv'"
proof -
  let ?name = "wd_account_string ''wired.account.name'' a"
  show "accounts_step E sv sv'" if "wd_accounts_delete_user a sv = Inr (b, sv')"
  proof (rule accounts_step_delete_user [OF assms, where name = ?name])
    from that have "sv' = wd_accounts_notify_subscribers (wd_boards_renamed_user ?name None
        (sv\<lparr>sv_db_users := filter (\<lambda>(n, row). n \<noteq> ?name) (sv_db_users sv)\<rparr>))"
      by (simp add: wd_accounts_delete_user_def Let_def split: if_splits)
    then show "accounts_same (sv\<lparr>sv_db_users := filter (\<lambda>(n, row). n \<noteq> ?name) (sv_db_users sv)\<rparr>) sv'"
      by (simp only:) (intro wd_accounts_keep same_view_refl)
  qed
  show "accounts_step E sv sv'" if "wd_accounts_delete_group a sv = Inr (b, sv')" "?name \<in> fst ` set (sv_db_groups sv)"
  proof (rule accounts_step_delete_group [OF assms, where name = ?name])
    from that have "sv' = wd_accounts_notify_subscribers (wd_boards_renamed_user ?name None
        (sv\<lparr>sv_db_users := map (\<lambda>(n, row). (n, wd_groups_delete_trigger ?name row)) (sv_db_users sv),
            sv_db_groups := filter (\<lambda>(n, row). n \<noteq> ?name) (sv_db_groups sv)\<rparr>))"
      by (simp add: wd_accounts_delete_group_def Let_def split: if_splits)
    then show "accounts_same (sv\<lparr>sv_db_users := map (\<lambda>(n, row). (n, wd_groups_delete_trigger ?name row)) (sv_db_users sv),
      sv_db_groups := filter (\<lambda>(n, row). n \<noteq> ?name) (sv_db_groups sv)\<rparr>) sv'"
      by (simp only:) (intro wd_accounts_keep same_view_refl)
  qed
qed

subsection \<open>One message\<close>

definition accounts_stepped :: "(string \<Rightarrow> bool) \<Rightarrow> wd_server \<Rightarrow> wd_server wd_result \<Rightarrow> bool" where
  "accounts_stepped E s r \<longleftrightarrow> (\<forall>sv. r = Inr sv \<longrightarrow> accounts_step E s sv)"

lemma accounts_stepped_kept: "accounts_ok s \<Longrightarrow> accounts_kept s r \<Longrightarrow> accounts_stepped E s r"
  by (simp add: accounts_stepped_def kept_view_def accounts_step_same)

lemma accounts_stepped_then: "accounts_step E s sv \<Longrightarrow> accounts_kept sv r \<Longrightarrow> accounts_stepped E s r"
  by (auto simp: accounts_stepped_def kept_view_def intro: accounts_step_then)

lemma accounts_stepped_bind:
  "(\<And>b sv. r = Inr (b, sv) \<Longrightarrow> accounts_stepped E s (f (b, sv))) \<Longrightarrow> accounts_stepped E s (wd_bind r f)"
  by (cases r) (auto simp: accounts_stepped_def)

lemma accounts_stepped_privilege:
  assumes "accounts_ok sv" and "accounts_stepped E sv (handle sv)"
  shows "accounts_stepped E sv (wd_with_privilege field uid m handle sv)"
  using assms accounts_stepped_kept [OF assms(1), of "Inr (wd_user_reply_error uid ''wired.error.permission_denied'' m sv)"]
  by (auto simp: wd_with_privilege_def accounts_stepped_kept kept_view_results accounts.view_sends same_view_refl split: option.split)

lemma accounts_stepped_if:
  "(b \<Longrightarrow> accounts_stepped E s x) \<Longrightarrow> (\<not> b \<Longrightarrow> accounts_stepped E s y) \<Longrightarrow> accounts_stepped E s (if b then x else y)"
  by simp

lemma accounts_stepped_error: "accounts_ok sv \<Longrightarrow> accounts_stepped E sv (wd_reply_error uid err m sv)"
  by (intro accounts_stepped_kept accounts.view_error same_view_refl)

lemma accounts_stepped_done:
  assumes "accounts_step E s (snd r)"
  shows "accounts_stepped E s (wd_account_done event ps uid m r)"
  using assms by (rule accounts_stepped_then) (auto simp: wd_account_done_def intro!: wd_accounts_keep same_view_refl)

lemma wd_named_Some:
  assumes "wd_named wd_accounts_read_user m sv = Some a \<or> wd_named wd_accounts_read_group m sv = Some a" and "accounts_ok sv"
  shows "sv_db_ok sv" and "account_typed (sv_page sv) a"
    and "wd_named wd_accounts_read_user m sv = Some a \<Longrightarrow> wd_account_string ''wired.account.name'' a \<in> fst ` set (sv_db_users sv) \<and>
      map_of (sv_db_users sv) (wd_account_string ''wired.account.name'' a) = Some a"
    and "wd_named wd_accounts_read_group m sv = Some a \<Longrightarrow> wd_account_string ''wired.account.name'' a \<in> fst ` set (sv_db_groups sv)"
    and "p7_string m ''wired.account.name'' = Some (wd_account_string ''wired.account.name'' a)"
proof -
  note ok = accounts_okD [OF assms(2)]
  have r: "sv_db_ok sv \<and> account_typed (sv_page sv) a \<and>
      wd_account_string ''wired.account.name'' a \<in> fst ` set rows \<and> map_of rows (wd_account_string ''wired.account.name'' a) = Some a \<and>
      p7_string m ''wired.account.name'' = Some (wd_account_string ''wired.account.name'' a)"
    if "rows_ok (sv_page sv) rows" "(case p7_string m ''wired.account.name'' of None \<Rightarrow> None
      | Some name \<Rightarrow> if sv_db_ok sv then map_of rows name else None) = Some a" for rows
  proof -
    from that(2) obtain name where n: "p7_string m ''wired.account.name'' = Some name" "sv_db_ok sv" "map_of rows name = Some a"
      by (auto split: option.splits if_splits)
    from map_of_SomeD [OF n(3)] have "name \<in> fst ` set rows" by (auto intro: rev_image_eqI)
    with n rows_okD [OF that(1) n(3)] show ?thesis by simp
  qed
  note u = r [OF ok(2)] and g = r [OF ok(3)]
  from assms(1) u g show "sv_db_ok sv" "account_typed (sv_page sv) a"
    "p7_string m ''wired.account.name'' = Some (wd_account_string ''wired.account.name'' a)"
    unfolding wd_named_def wd_accounts_read_user_def wd_accounts_read_group_def by blast+
  show "wd_named wd_accounts_read_user m sv = Some a \<Longrightarrow> wd_account_string ''wired.account.name'' a \<in> fst ` set (sv_db_users sv) \<and>
      map_of (sv_db_users sv) (wd_account_string ''wired.account.name'' a) = Some a"
    using u unfolding wd_named_def wd_accounts_read_user_def by blast
  show "wd_named wd_accounts_read_group m sv = Some a \<Longrightarrow> wd_account_string ''wired.account.name'' a \<in> fst ` set (sv_db_groups sv)"
    using g unfolding wd_named_def wd_accounts_read_group_def by blast
qed

text \<open>The account that an edit stores has the name of the row that it was read from.\<close>

lemma wd_account_read_from_message_name:
  assumes "0 < page" and "account_typed page a"
    and "p7_string m ''wired.account.name'' = Some (wd_account_string ''wired.account.name'' a)"
  shows "wd_account_string ''wired.account.name'' (wd_account_read_from_message page a m) = wd_account_string ''wired.account.name'' a"
proof -
  have "p7_field m ''wired.account.name'' = Some (P7_String (wd_account_string ''wired.account.name'' a))"
    using assms(3) by (auto simp: p7_string_def split: option.splits p7_value.splits)
  then have "wi_dictionary_data_for_key (wd_account_read_from_message page a m) ''wired.account.name'' =
      Some (AV_String (wd_account_string ''wired.account.name'' a))"
    by (simp add: wd_account_read_from_message(2) [OF assms(1) account_typedD(1) [OF assms(2)]] wd_account_name_columns(1) [OF assms(1)]
        account_value_of_message_def)
  then show ?thesis by (simp add: wd_account_string_def)
qed

lemma accounts_stepped_verified:
  assumes "accounts_ok sv" and "account_typed (sv_page sv) a" and "u_account (wd_user sv uid) = Some editor"
    and "sv_db_ok sv \<Longrightarrow> wd_checked sv editor a \<Longrightarrow> accounts_stepped E sv r"
    and "\<not> sv_db_ok sv \<Longrightarrow> accounts_stepped E sv r"
  shows "accounts_stepped E sv (wd_if_verified a uid m r sv)"
  using assms(4,5) wd_checked_verified [OF accounts_okD(1) [OF assms(1)] _ assms(2)] accounts_stepped_error [OF assms(1)]
  by (auto simp: wd_if_verified_def assms(3))

lemma accounts_stepped_edit_account:
  assumes "accounts_ok sv" and "u_account (wd_user sv uid) = Some editor"
    and "\<And>a. wd_named read m sv = Some a \<Longrightarrow> account_typed (sv_page sv) a"
    and "\<And>a b sv'. wd_named read m sv = Some a \<Longrightarrow>
      edit (wd_account_read_from_message (sv_page sv) a m) uid m sv = Inr (b, sv') \<Longrightarrow>
      sv_db_ok sv \<Longrightarrow> wd_checked sv editor (wd_account_read_from_message (sv_page sv) a m) \<Longrightarrow> accounts_step E sv sv'"
    and "\<And>a. wd_named read m sv = Some a \<Longrightarrow> sv_db_ok sv"
  shows "accounts_stepped E sv (wd_message_edit_account read edit event uid m sv)"
proof (cases "wd_new_name_taken read m sv \<or> wd_named read m sv = None")
  case True
  then show ?thesis using accounts_stepped_error [OF assms(1)] by (auto simp: wd_message_edit_account_def)
next
  case False
  then obtain a where a: "wd_named read m sv = Some a" "\<not> wd_new_name_taken read m sv" by blast
  note t = account_typed_read_from_message [OF accounts_okD(1) [OF assms(1)] assms(3) [OF a(1)]]
  show ?thesis
    unfolding wd_message_edit_account_def a(1) option.case if_not_P [OF a(2)] Let_def
    by (rule accounts_stepped_verified [OF assms(1) t assms(2)])
      (use assms(5) [OF a(1)] in \<open>auto intro!: accounts_stepped_bind accounts_stepped_done assms(4) [OF a(1)]\<close>)
qed

lemma accounts_step_message:
  assumes "accounts_ok sv" and "u_account (wd_user sv uid) = Some editor"
    and "map_of (wd_account_messages garbage) name = Some handler"
  shows "accounts_stepped (wd_editor_has sv editor) sv (handler uid m sv)"
proof -
  let ?E = "wd_editor_has sv editor"
  note p = accounts_okD(1) [OF assms(1)]
  note err = accounts_stepped_error [OF assms(1)]
  note same = accounts_stepped_kept [OF assms(1)]
  have init: "account_typed (sv_page sv) (wd_account_init_with_message (sv_page sv) m)" by (rule account_typed_init(2) [OF p])
  have "accounts_step ?E sv (snd (wd_accounts_change_password editor password uid m sv))" for password
    using accounts_step_password [OF assms(1) same_view_refl] accounts_step_failed [OF assms(1)] accounts_step_same [OF assms(1) same_view_refl]
    by (auto simp: wd_accounts_change_password_def split: option.split)
  then have 1: "accounts_stepped ?E sv (wd_message_account_change_password uid m sv)"
    unfolding wd_message_account_change_password_def
    by (intro accounts_stepped_privilege assms(1)) (simp add: assms(2) accounts_stepped_done)
  have "accounts_same sv (snd (wd_accounts_reply_user_list uid m sv))" "accounts_same sv (snd (wd_accounts_reply_group_list uid m sv))"
    by (auto simp: wd_accounts_reply_user_list_def wd_accounts_reply_group_list_def wd_database_failed_def Let_def
        intro!: wd_accounts_keep same_view_refl)
  then have 2: "accounts_stepped ?E sv (wd_message_account_list_users uid m sv)" "accounts_stepped ?E sv (wd_message_account_list_groups uid m sv)"
    unfolding wd_message_account_list_users_def wd_message_account_list_groups_def wd_account_listed_def
    by - (rule accounts_stepped_privilege [OF assms(1)], rule same, simp add: wd_accounts_keep)+
  have 3: "accounts_stepped ?E sv (wd_message_account_read_user uid m sv)" "accounts_stepped ?E sv (wd_message_account_read_group uid m sv)"
    unfolding wd_message_account_read_user_def wd_message_account_read_group_def wd_account_reply_user_account_def wd_account_reply_group_account_def
    by (intro accounts_stepped_privilege assms(1) same wd_accounts_keep same_view_refl)+
  have 4: "accounts_stepped ?E sv (wd_message_account_create_user garbage uid m sv)"
    unfolding wd_message_account_create_user_def Let_def
    by (intro accounts_stepped_privilege [OF assms(1)] accounts_stepped_if err accounts_stepped_verified [OF assms(1) init assms(2)]
        accounts_stepped_done;
      (rule accounts_step_create_user [OF assms(1)], assumption | simp add: wd_accounts_create_user_def Let_def accounts_step_failed [OF assms(1)]))
  have 5: "accounts_stepped ?E sv (wd_message_account_create_group garbage uid m sv)"
    unfolding wd_message_account_create_group_def Let_def
    by (intro accounts_stepped_privilege [OF assms(1)] accounts_stepped_if err accounts_stepped_verified [OF assms(1) init assms(2)]
        accounts_stepped_done;
      (rule accounts_step_create_group [OF assms(1)], assumption | simp add: wd_accounts_create_group_def Let_def accounts_step_failed [OF assms(1)]))
  note named = wd_named_Some [OF _ assms(1)]
  have 6: "accounts_stepped ?E sv (wd_message_account_edit_user uid m sv)"
    unfolding wd_message_account_edit_user_def
    by (intro accounts_stepped_privilege [OF assms(1)] accounts_stepped_edit_account [OF assms(1,2)])
      (auto dest: named(1,2) [OF disjI1] intro: accounts_step_edit_user [OF assms(1)])
  have 7: "accounts_stepped ?E sv (wd_message_account_edit_group uid m sv)"
    unfolding wd_message_account_edit_group_def
  proof (intro accounts_stepped_privilege [OF assms(1)] accounts_stepped_edit_account [OF assms(1,2)])
    fix a b sv' assume a: "wd_named wd_accounts_read_group m sv = Some a"
      and e: "wd_accounts_edit_group (wd_account_read_from_message (sv_page sv) a m) uid m sv = Inr (b, sv')"
      and c: "wd_checked sv editor (wd_account_read_from_message (sv_page sv) a m)"
    note n = named [OF disjI2 [OF a]]
    show "accounts_step ?E sv sv'"
      by (rule accounts_step_edit_group [OF assms(1) c e])
        (use n(4) [OF a] wd_account_read_from_message_name [OF p n(2,5)] in simp)
  qed (auto dest: named(1,2) [OF disjI2])
  have 8: "accounts_stepped ?E sv (wd_message_account_delete_user uid m sv)"
    unfolding wd_message_account_delete_user_def Let_def
    by (intro accounts_stepped_privilege [OF assms(1)])
      (auto split: option.split intro!: err accounts_stepped_bind accounts_stepped_then [OF accounts_step_deletions(1) [OF assms(1)]]
        wd_accounts_keep same_view_refl simp: wd_user_set_state_def)
  have 9: "accounts_stepped ?E sv (wd_message_account_delete_group uid m sv)"
    unfolding wd_message_account_delete_group_def Let_def
    by (intro accounts_stepped_privilege [OF assms(1)])
      (auto split: option.split intro!: err accounts_stepped_bind accounts_stepped_then [OF accounts_step_deletions(2) [OF assms(1)]]
        wd_accounts_keep same_view_refl dest: named(4) [OF disjI2])
  from assms(3) 1 2 3 4 5 6 7 8 9 show ?thesis
    unfolding wd_account_messages_def by (auto split: if_splits)
qed

end
