(* ===== verification/Wd_Account_Session.thy ===== *)
theory Wd_Account_Session
  imports Wd_Account_Privileges
begin

text \<open>
  The messages on accounts in the running server: they keep the invariant of Wd_Session and
  crash the server only where the sender has no account. With them the transition system of
  Wd_System covers every message but those on files, transfers, settings, trackers and the
  log. What a reload makes of every session follows.
\<close>

subsection \<open>The invariant is kept\<close>

text \<open>
  Sessions may get other accounts here, but nobody is logged in who was not: the set of
  logins holds every account for those who were logged in at the start.
\<close>

definition wd_stays :: "wd_server \<Rightarrow> (32 word \<times> wd_account option) set" where
  "wd_stays s = {(uid, a) | uid a. \<exists>b. logged_in_as uid b s}"

lemma wd_good_stays:
  assumes "wd_good (wd_stays s) s sv" and "wd_users_user_with_id sv uid = Some u" and "u_state u = WD_USER_LOGGED_IN"
  shows "(uid, a) \<in> wd_stays s"
proof -
  have "logged_in_as uid (u_account u) sv" using assms(2,3) by (simp add: logged_in_as_def)
  moreover have "users_grow (wd_stays s) s sv" using assms(1) by (simp add: wd_good_def)
  ultimately have "logged_in_as uid (u_account u) s \<or> (uid, u_account u) \<in> wd_stays s" by (intro users_grow_logged_in)
  then show ?thesis by (auto simp: wd_stays_def)
qed

lemma wd_good_accounts [wd_keep]:
  "wd_good L s sv \<Longrightarrow> wd_good L s (sv\<lparr>sv_db_users := users\<rparr>)"
  "wd_good L s sv \<Longrightarrow> wd_good L s (sv\<lparr>sv_db_groups := groups\<rparr>)"
  by (rule wd_good_tables; simp add: tables_ok_def)+

lemma wd_boards_renamed_step:
  "boards_step sv (wd_boards_renamed_user old new sv)" "boards_step sv (wd_boards_renamed_group old new sv)"
proof -
  note e = boards_step_edit [where P = "\<lambda>_. True"]
  show "boards_step sv (wd_boards_renamed_user old new sv)"
  proof (cases new)
    case (Some n)
    from e [of "\<lambda>b. if bo_owner b = old then b\<lparr>bo_owner := n\<rparr> else b" "\<lambda>t. if th_login t = old then t\<lparr>th_login := n\<rparr> else t"
        "\<lambda>p. if po_login p = old then p\<lparr>po_login := n\<rparr> else p" sv]
    show ?thesis by (simp add: wd_boards_renamed_user_def Some boards_step_refl)
  qed (simp add: wd_boards_renamed_user_def boards_step_refl)
  show "boards_step sv (wd_boards_renamed_group old new sv)"
  proof (cases new)
    case (Some n)
    from e [of "\<lambda>b. if bo_group b = old then b\<lparr>bo_group := n\<rparr> else b" "\<lambda>t. t" "\<lambda>p. p" sv]
    show ?thesis by (simp add: wd_boards_renamed_group_def Some boards_step_refl)
  qed (simp add: wd_boards_renamed_group_def boards_step_refl)
qed

lemmas wd_good_boards_renamed [wd_keep] = wd_boards_renamed_step [THEN wd_good_boards]

lemma wd_good_notify [wd_keep]: "wd_good L s sv \<Longrightarrow> wd_good L s (wd_accounts_notify_subscribers sv)"
  unfolding wd_accounts_notify_subscribers_def by (assumption | rule wd_keep)+

lemma wd_good_rename_group [wd_keep]: "wd_good L s sv \<Longrightarrow> wd_good L s (wd_accounts_rename_group name new sv)"
  unfolding wd_accounts_rename_group_def by (assumption | rule wd_keep)+

lemma session_step_reload:
  assumes "session_ok uid u" and "u_account u \<noteq> None" and "u_state u = WD_USER_LOGGED_IN \<Longrightarrow> (uid, Some account) \<in> L"
  shows "session_step L uid u (wd_user_reload sv account u)"
  using assms by (auto simp: session_step_def session_ok_def user_ok_def user_grows_def wd_user_reload_def)

lemma session_step_if:
  assumes "session_step L uid u v" and "\<And>v. session_ok uid v \<Longrightarrow> session_step L uid v (f v)"
  shows "session_step L uid u (if b then f v else v)"
  using assms(1) assms(2) [of v] user_grows_trans [of L uid u v "f v"] by (simp add: session_step_def)

lemma session_step_unsubscribe_paths:
  assumes "0 < page" and "session_ok uid u"
  shows "session_step L uid u (wd_user_unsubscribe_paths page u)"
proof -
  have f: "u_state (wd_user_unsubscribe_paths page u) = u_state u" "u_account (wd_user_unsubscribe_paths page u) = u_account u"
    "u_client_info (wd_user_unsubscribe_paths page u) = u_client_info u" "u_nick (wd_user_unsubscribe_paths page u) = u_nick u"
    "u_login (wd_user_unsubscribe_paths page u) = u_login u" "u_ip (wd_user_unsubscribe_paths page u) = u_ip u"
    by (simp_all add: wd_user_unsubscribe_paths_def Let_def)
  show ?thesis
    using assms(2) user_ok_unsubscribe_paths [OF assms(1), of uid u] by (simp add: session_step_def session_ok_def user_grows_def f)
qed

lemma session_step_drop:
  assumes "session_ok uid u" and "0 < page"
  shows "session_step L uid u (wd_user_drop_subscriptions page account u)"
proof -
  have "session_step L uid u u" using assms(1) by (simp add: session_step_def user_grows_def)
  then show ?thesis
    unfolding wd_user_drop_subscriptions_def Let_def
    by (rule session_step_if [OF session_step_if [OF session_step_if [OF session_step_if]]])
      (erule session_steps session_step_unsubscribe_paths [OF assms(2)])+
qed

lemma wd_good_page: "wd_good L s sv \<Longrightarrow> 0 < sv_page sv"
  using server_okD(5) [OF wd_invD(1) [of sv]] by (simp add: wd_good_def)

lemma wd_safe_reload_account [wd_keep]:
  assumes "wd_good (wd_stays s) s sv" and "u_account (wd_user sv uid) = Some useraccount"
  shows "wd_safe (wd_stays s) s C (wd_accounts_reload_account uid name sv)"
proof (cases "wd_accounts_read_user_and_group (sv_garbage sv) sv name")
  case None
  then show ?thesis using assms(1) by (simp add: wd_accounts_reload_account_def wd_safe_Inr)
next
  case (Some new)
  define sv1 where "sv1 = wd_set_user (wd_user_reload sv new) uid sv"
  define sv2 where "sv2 = (if wd_user_reload_changes sv new (wd_user sv uid) then wd_user_broadcast_status uid sv1 else sv1)"
  define sv3 where "sv3 = wd_set_user (wd_user_drop_subscriptions (sv_page sv2) new) uid sv2"
  have g1: "wd_good (wd_stays s) s sv1" unfolding sv1_def
  proof (rule wd_good_set_known_user [OF assms(1)])
    fix u assume u: "wd_users_user_with_id sv uid = Some u" "session_ok uid u"
    then have "wd_user sv uid = u" by (simp add: wd_user_def wd_users_user_with_id_def)
    with u assms(2) show "session_step (wd_stays s) uid u (wd_user_reload sv new u)"
      using wd_good_stays [OF assms(1) u(1)] by (intro session_step_reload) simp_all
  qed
  have g2: "wd_good (wd_stays s) s sv2" unfolding sv2_def by (assumption | rule wd_keep g1)+
  have g3: "wd_good (wd_stays s) s sv3" unfolding sv3_def
    by (rule wd_good_set_user [OF g2]) (rule session_step_drop [OF _ wd_good_page [OF g2]])
  have "wd_accounts_reload_account uid name sv = wd_boards_reload_account uid (Some useraccount) (Some new)
      (wd_user_send_message uid (wd_account_privileges_message (sv_page sv3) new) sv3)"
    by (simp add: wd_accounts_reload_account_def Some assms(2) sv3_def sv2_def sv1_def Let_def)
  moreover have "wd_board_rights (Some p) (Some a) \<noteq> Inl e" for p a e
    using wd_board_rights_crash by blast
  ultimately show ?thesis
    unfolding wd_boards_reload_account_def Let_def
    by (auto intro!: wd_keep_cases wd_safe_Inr wd_safe_each wd_safe_value wd_good_sends g3)
qed

lemma wd_safe_reload_sessions:
  assumes "wd_good (wd_stays s) s sv"
  shows "wd_safe (wd_stays s) s C (wd_accounts_reload_sessions selected name sv)"
  unfolding wd_accounts_reload_sessions_def
  by (rule wd_safe_each [OF assms]) (auto intro!: wd_keep_cases wd_safe_Inr wd_safe_reload_account split: option.split)

lemma wd_safe_reload [wd_keep]:
  "wd_good (wd_stays s) s sv \<Longrightarrow> wd_safe (wd_stays s) s C (wd_accounts_reload_user_account account sv)"
  "wd_good (wd_stays s) s sv \<Longrightarrow> wd_safe (wd_stays s) s C (wd_accounts_reload_group_account account sv)"
  by (simp_all add: wd_accounts_reload_user_account_def wd_accounts_reload_group_account_def wd_safe_reload_sessions)

subsection \<open>Operations and messages\<close>

lemma wd_good_failed [wd_keep]: "wd_good L s sv \<Longrightarrow> wd_good L s (snd (wd_database_failed uid m sv))"
  by (simp add: wd_database_failed_def wd_good_sends)

lemma wd_good_account_operations [wd_keep]:
  assumes "wd_good L s sv"
  shows "wd_good L s (snd (wd_accounts_change_password a p uid m sv))"
    "wd_good L s (snd (wd_accounts_create_user garbage a uid m sv))" "wd_good L s (snd (wd_accounts_create_group garbage a uid m sv))"
    "wd_good L s (snd (wd_accounts_reply_user_list uid m sv))" "wd_good L s (snd (wd_accounts_reply_group_list uid m sv))"
  using assms
  by (auto simp: wd_accounts_change_password_def wd_accounts_create_user_def wd_accounts_create_group_def wd_accounts_reply_user_list_def
      wd_accounts_reply_group_list_def Let_def intro!: wd_keep split: option.split)

lemma wd_safe_transaction: "wd_good L s sv \<Longrightarrow> \<not> sv_db_ok sv \<Longrightarrow> wd_safe_pair L s C (Inl Transaction_Failed)"
  by (simp add: wd_safe_pair_def wd_safe_def wd_good_def)

lemma wd_safe_pair_failed: "wd_good L s sv \<Longrightarrow> wd_safe_pair L s C (Inr (wd_database_failed uid m sv))"
  using wd_good_failed [of L s sv uid m] by (simp add: wd_safe_pair_def wd_safe_Inr)

lemma wd_safe_account_edits:
  assumes "wd_good (wd_stays s) s sv"
  shows "wd_safe_pair (wd_stays s) s C (wd_accounts_edit_user a uid m sv)"
    "wd_safe_pair (wd_stays s) s C (wd_accounts_edit_group a uid m sv)"
proof -
  note f = wd_safe_pair_failed [OF assms]
  show "wd_safe_pair (wd_stays s) s C (wd_accounts_edit_user a uid m sv)"
    unfolding wd_accounts_edit_user_def Let_def
    by (assumption | rule f assms wd_safe_transaction | rule wd_pairs wd_keep)+
  show "wd_safe_pair (wd_stays s) s C (wd_accounts_edit_group a uid m sv)"
    unfolding wd_accounts_edit_group_def Let_def
    by (intro wd_pairs wd_keep f assms)
qed

lemma wd_safe_account_deletions:
  assumes "wd_good L s sv"
  shows "wd_safe_pair L s C (wd_accounts_delete_user a sv)" "wd_safe_pair L s C (wd_accounts_delete_group a sv)"
  unfolding wd_accounts_delete_user_def wd_accounts_delete_group_def Let_def
  by (assumption | rule assms wd_safe_transaction | rule wd_pairs wd_keep)+

lemma wd_safe_account_done [wd_keep]:
  assumes "wd_good L s (snd r)"
  shows "wd_safe L s C (wd_account_done event ps uid m r)" "wd_safe L s C (wd_account_listed event uid r)"
  using assms by (auto simp: wd_account_done_def wd_account_listed_def intro!: wd_keep)

lemma wd_safe_pair_then:
  assumes "wd_safe_pair L s C r" and "\<And>b sv. wd_good L s sv \<Longrightarrow> wd_safe L s C (f (b, sv))"
  shows "wd_safe L s C (wd_bind r f)"
  using assms by (cases r) (auto simp: wd_safe_pair_def wd_safe_def)

lemma wd_safe_verified [wd_keep]:
  assumes "wd_good L s sv" and "u_account (wd_user sv uid) \<noteq> None" and "wd_safe L s C r"
  shows "wd_safe L s C (wd_if_verified a uid m r sv)"
  using assms by (auto simp: wd_if_verified_def intro!: wd_keep)

lemma wd_safe_edit_account:
  assumes "wd_good L s sv" and "u_account (wd_user sv uid) \<noteq> None"
    and "\<And>a. wd_safe_pair L s C (edit a uid m sv)"
  shows "wd_safe L s C (wd_message_edit_account read edit event uid m sv)"
  unfolding wd_message_edit_account_def Let_def
  by (intro wd_keep_cases wd_safe_error wd_safe_verified wd_safe_pair_then assms wd_safe_account_done) simp_all

lemma wd_safe_account_messages:
  assumes "wd_good L s sv" and "u_account (wd_user sv uid) = None \<Longrightarrow> Null_Account \<in> C"
    and "map_of (wd_account_messages garbage) name = Some handler"
    and "name \<in> {''wired.account.edit_user'', ''wired.account.edit_group''} \<Longrightarrow> L = wd_stays s"
  shows "wd_safe L s C (handler uid m sv)"
proof -
  note g = assms(1)
  have priv: "wd_safe L s C (wd_with_privilege field uid m handle sv)"
    if "u_account (wd_user sv uid) \<noteq> None \<Longrightarrow> wd_safe L s C (handle sv)" for field handle
    by (rule wd_safe_privilege) (use assms(1,2) that in auto)
  have 1: "wd_safe L s C (wd_message_account_change_password uid m sv)"
    unfolding wd_message_account_change_password_def
    by (rule priv) (auto intro!: wd_keep g)
  have 2: "wd_safe L s C (wd_message_account_list_users uid m sv)" "wd_safe L s C (wd_message_account_list_groups uid m sv)"
    unfolding wd_message_account_list_users_def wd_message_account_list_groups_def
    by (rule priv, intro wd_keep g)+
  have 3: "wd_safe L s C (wd_message_account_read_user uid m sv)" "wd_safe L s C (wd_message_account_read_group uid m sv)"
    unfolding wd_message_account_read_user_def wd_message_account_read_group_def wd_account_reply_user_account_def wd_account_reply_group_account_def
    by (rule priv, intro wd_keep g)+
  have 4: "wd_safe L s C (wd_message_account_create_user garbage uid m sv)" "wd_safe L s C (wd_message_account_create_group garbage uid m sv)"
    unfolding wd_message_account_create_user_def wd_message_account_create_group_def Let_def
    by (rule priv, intro wd_keep_cases wd_safe_error wd_safe_verified wd_safe_account_done wd_good_account_operations g, assumption)+
  have 5: "wd_safe L s C (wd_message_account_edit_user uid m sv)" "wd_safe L s C (wd_message_account_edit_group uid m sv)"
    if l: "L = wd_stays s"
    using priv g unfolding wd_message_account_edit_user_def wd_message_account_edit_group_def l
    by (auto intro!: wd_safe_edit_account wd_safe_account_edits)
  have 6: "wd_safe L s C (wd_message_account_delete_user uid m sv)"
    unfolding wd_message_account_delete_user_def Let_def prod.case
    by (rule priv, intro wd_keep_cases wd_safe_error wd_safe_pair_then wd_safe_account_deletions g)
      (auto simp: wd_user_set_state_def intro!: wd_keep session_steps)
  have 7: "wd_safe L s C (wd_message_account_delete_group uid m sv)"
    unfolding wd_message_account_delete_group_def Let_def
    by (rule priv, intro wd_keep_cases wd_safe_error wd_safe_pair_then wd_safe_account_deletions g)
      (auto intro!: wd_keep)
  from assms(3,4) 1 2 3 4 5 6 7 show ?thesis
    unfolding wd_account_messages_def by (auto split: if_splits)
qed

subsection \<open>The transition system with the messages on accounts\<close>

text \<open>The messages on accounts go to the argument for other handlers.\<close>

text \<open>
  A message that has its strings and identifiers and whose handler is modelled, on accounts or not.
\<close>

definition wd_message_known :: "p7_message \<Rightarrow> bool" where
  "wd_message_known m \<longleftrightarrow> wd_message_complete m \<and> (\<forall>name. map_of wd_message_handlers (m_name m) = Some (H_other name) \<longrightarrow>
     (\<exists>handler. map_of (wd_account_messages (\<lambda>_. 0)) name = Some handler))"

fun wd_operation_known :: "wd_operation \<Rightarrow> bool" where
  "wd_operation_known (Receive uid m) = wd_message_known m"
| "wd_operation_known _ = True"

lemma wd_account_messages_names:
  "(\<exists>h. map_of (wd_account_messages garbage) name = Some h) \<longleftrightarrow> (\<exists>h. map_of (wd_account_messages garbage') name = Some h)"
  by (simp add: wd_account_messages_def)

lemma wd_after_handler_safe:
  assumes "wd_safe L s C r"
  shows "wd_safe L s C (wd_bind r (\<lambda>sv.
    if b then
      let sv = wd_set_user (\<lambda>u. u\<lparr>u_idle_time := sv_now sv\<rparr>) uid sv
      in if u_idle (wd_user sv uid)
         then Inr (wd_user_broadcast_status uid (wd_set_user (\<lambda>u. u\<lparr>u_idle := False\<rparr>) uid sv))
         else Inr sv
    else Inr sv))"
  unfolding Let_def by (assumption | rule assms wd_keep session_steps)+

lemma wd_handler_other_name: "map_of wd_message_handlers name = Some (H_other n) \<Longrightarrow> n = name"
  by (drule map_of_SomeD) (auto simp: wd_message_handlers_def)

text \<open>
  What a message on accounts may do: only the editing of an account changes that of a
  session, and it logs nobody in.
\<close>

definition wd_account_logins :: "wd_server \<Rightarrow> p7_message \<Rightarrow> (32 word \<times> wd_account option) set" where
  "wd_account_logins sv m =
     (if m_name m \<in> {''wired.account.edit_user'', ''wired.account.edit_group''} then wd_stays sv else {})"

lemma wd_handle_account_message_safe:
  assumes "wd_inv sv" and "map_of wd_message_handlers (m_name m) = Some (H_other name)"
    and "map_of (wd_account_messages garbage) name = Some handler"
  shows "wd_safe (wd_account_logins sv m) sv
    (if u_state (wd_user sv uid) \<notin> {WD_USER_CONNECTED, WD_USER_GAVE_CLIENT_INFO} \<and> u_account (wd_user sv uid) = None
     then {Null_Account} else {})
    (wd_messages_handle_message (wd_account_handlers garbage other) uid m sv)"
proof (cases "u_state (wd_user sv uid) \<in> {WD_USER_CONNECTED, WD_USER_GAVE_CLIENT_INFO}")
  case True
  then have "wd_messages_handle_message (wd_account_handlers garbage other) uid m sv =
      wd_reply_error uid ''wired.error.message_out_of_sequence'' m sv"
    by (auto simp: wd_messages_handle_message_def assms(2) Let_def)
  then show ?thesis using wd_safe_error [OF wd_good_refl [OF assms(1)]] by simp
next
  case False
  let ?C = "if u_account (wd_user sv uid) = None then {Null_Account} else {}"
  have "wd_messages_handle_message (wd_account_handlers garbage other) uid m sv =
      wd_bind (handler uid m sv) (\<lambda>sv.
        if True then
          let sv = wd_set_user (\<lambda>u. u\<lparr>u_idle_time := sv_now sv\<rparr>) uid sv
          in if u_idle (wd_user sv uid)
             then Inr (wd_user_broadcast_status uid (wd_set_user (\<lambda>u. u\<lparr>u_idle := False\<rparr>) uid sv))
             else Inr sv
        else Inr sv)"
    using False by (simp add: wd_messages_handle_message_def assms(2) wd_account_handlers_def assms(3))
  moreover have "wd_safe (wd_account_logins sv m) sv ?C (handler uid m sv)"
    by (rule wd_safe_account_messages [OF wd_good_refl [OF assms(1)] _ assms(3)])
      (use wd_handler_other_name [OF assms(2)] in \<open>auto simp: wd_account_logins_def\<close>)
  ultimately show ?thesis
    using wd_after_handler_safe [of "wd_account_logins sv m" sv ?C "handler uid m sv" True uid] False by simp
qed

lemma wd_message_knownE:
  assumes "wd_message_known m"
  obtains "wd_message_modelled m"
  | name handler where "map_of wd_message_handlers (m_name m) = Some (H_other name)"
      "map_of (wd_account_messages garbage) name = Some handler"
  using assms wd_account_messages_names [of "\<lambda>_. 0" _ garbage]
  unfolding wd_message_known_def wd_message_modelled_def by blast

lemma wd_inv_handle_known:
  assumes "wd_inv sv" and "wd_users_user_with_id sv uid \<noteq> None" and "wd_message_known m"
    and "wd_messages_handle_message (wd_account_handlers garbage other) uid m sv = Inr sv'"
  shows "wd_inv sv'"
proof (rule wd_message_knownE [OF assms(3), where garbage = garbage])
  assume "wd_message_modelled m"
  then show ?thesis using wd_inv_handle_message [OF assms(1,2) _ assms(4)] by blast
next
  fix name handler
  assume "map_of wd_message_handlers (m_name m) = Some (H_other name)"
    "map_of (wd_account_messages garbage) name = Some handler"
  from wd_handle_account_message_safe [OF assms(1) this, of uid other] assms(4) show ?thesis
    by (simp add: wd_safe_def wd_good_def)
qed

lemma wd_inv_step_known:
  assumes "wd_inv sv" and "wd_operation_known x" and "wd_step (wd_account_handlers garbage other) sv x (Inr sv')"
  shows "wd_inv sv'"
proof (cases "wd_operation_modelled x")
  case True
  then show ?thesis using wd_inv_step [OF assms(1) _ assms(3)] by blast
next
  case False
  then obtain uid m where x: "x = Receive uid m" by (cases x) auto
  with assms(3) have "wd_users_user_with_id sv uid \<noteq> None"
    "wd_messages_handle_message (wd_account_handlers garbage other) uid m sv = Inr sv'" by (auto elim: wd_step_receiveE)
  with wd_inv_handle_known [OF assms(1)] assms(2) show ?thesis by (simp add: x)
qed

interpretation accounts_server: transition_system "\<lambda>sv x sv'. wd_step (wd_account_handlers garbage other) sv x (Inr sv')"
  "wd_run (wd_account_handlers garbage other)" wd_inv wd_operation_known for garbage other
  by unfold_locales (auto simp: wd_run_Nil wd_run_Cons intro: wd_inv_step_known)

text \<open>
  A step after which a user is logged in with an account, and before it was not: the login of
  that account, or the editing of an account while the user was logged in with another.
\<close>

lemma wd_step_logs_in_known:
  assumes "wd_inv sv" and "wd_operation_known x" and "wd_step (wd_account_handlers garbage other) sv x (Inr sv')"
    and "logged_in_as uid a sv'" and "\<not> logged_in_as uid a sv"
  shows "(\<exists>m account. x = Receive uid m \<and> m_name m = ''wired.send_login'' \<and> a = Some account \<and> wd_login_accepted sv uid m account) \<or>
    (\<exists>k m b. x = Receive k m \<and> m_name m \<in> {''wired.account.edit_user'', ''wired.account.edit_group''} \<and> logged_in_as uid b sv)"
proof (cases "wd_operation_modelled x")
  case True
  from wd_step_logs_in [OF assms(1) this assms(3-5)] show ?thesis by blast
next
  case False
  then obtain k m where x: "x = Receive k m" "\<not> wd_message_modelled m" by (cases x) auto
  have k: "wd_messages_handle_message (wd_account_handlers garbage other) k m sv = Inr sv'"
    using assms(3) by (auto simp: x(1) elim: wd_step_receiveE)
  have "wd_message_known m" using assms(2) by (simp add: x(1))
  then obtain name handler where "map_of wd_message_handlers (m_name m) = Some (H_other name)"
    "map_of (wd_account_messages garbage) name = Some handler"
    using x(2) wd_message_knownE [where m = m and garbage = garbage] by blast
  from wd_handle_account_message_safe [OF assms(1) this, of k other]
  have "users_grow (wd_account_logins sv m) sv sv'" by (simp add: k wd_safe_def wd_good_def)
  from users_grow_logged_in [OF this assms(4)] assms(5) have "(uid, a) \<in> wd_account_logins sv m" by blast
  then show ?thesis by (auto simp: x(1) wd_account_logins_def wd_stays_def split: if_splits)
qed

subsection \<open>What a reload makes of the sessions\<close>

text \<open>
  A session that takes over an account: it carries its name, its color and, where it must, its
  nick, and it is subscribed only to what the account may still see. A session whose socket
  failed meanwhile is disconnected.
\<close>

definition session_updated :: "wd_server \<Rightarrow> wd_account \<Rightarrow> wd_user \<Rightarrow> wd_user \<Rightarrow> bool" where
  "session_updated sv account u u' \<longleftrightarrow>
     u_account u' = Some account \<and> u_login u' = Some (wd_account_string ''wired.account.name'' account) \<and>
     u_color u' = wd_account_color account sv \<and>
     u_nick u' = (if wd_account_boolean ''wired.account.user.cannot_set_nick'' account then Some (wd_account_nick account) else u_nick u) \<and>
     u_state u' \<in> {u_state u, WD_USER_DISCONNECTED} \<and>
     (u_subscribed_accounts u' \<longleftrightarrow> u_subscribed_accounts u \<and> wd_account_boolean ''wired.account.account.list_accounts'' account) \<and>
     (u_subscribed_boards u' \<longleftrightarrow> u_subscribed_boards u \<and> wd_account_boolean ''wired.account.board.read_boards'' account) \<and>
     (u_subscribed_log u' \<longleftrightarrow> u_subscribed_log u \<and> wd_account_boolean ''wired.account.log.view_log'' account) \<and>
     (\<not> wd_account_boolean ''wired.account.file.list_files'' account \<longrightarrow> wi_set_count (u_subscribed_paths u') = 0)"

lemma session_updated_quiet: "session_updated sv a u v \<Longrightarrow> user_quiet v w \<Longrightarrow> session_updated sv a u w"
  unfolding user_quiet_def by (elim disjE) (simp_all add: session_updated_def)

lemma session_updated_cong:
  assumes "sv_color_enum sv' = sv_color_enum sv"
  shows "session_updated sv' a = session_updated sv a"
proof -
  have "wd_account_color a sv' = wd_account_color a sv" unfolding wd_account_color_def assms by (rule refl)
  then show ?thesis by (intro ext) (simp add: session_updated_def)
qed

lemma wd_each_quiet:
  assumes "\<And>x sv sv'. f x sv = Inr sv' \<Longrightarrow> wd_quiet sv sv'" and "wd_each f xs sv = Inr sv'"
  shows "wd_quiet sv sv'"
  using assms(2)
proof (induction xs arbitrary: sv)
  case (Cons x xs)
  then show ?case using wd_quiet_trans [OF assms(1)] by (cases "f x sv") auto
qed simp

lemma wd_boards_reload_account_quiet:
  assumes "wd_boards_reload_account uid old new sv = Inr sv'"
  shows "wd_quiet sv sv'"
proof (cases "sv_db_ok sv")
  case True
  show ?thesis
    by (rule wd_each_quiet [OF _ assms [unfolded wd_boards_reload_account_def if_not_P [OF not_not [THEN iffD2, OF True]]]])
      (auto simp: wd_bind_def Let_def wd_user_send_message_quiet split: sum.splits if_splits)
qed (use assms in \<open>simp add: wd_boards_reload_account_def\<close>)

lemma wd_set_user_inv_lookup:
  assumes "wd_inv sv"
  shows "wd_users_user_with_id (wd_set_user f uid sv) k =
    (if k = uid then map_option f (wd_users_user_with_id sv uid) else wd_users_user_with_id sv k)"
  using wd_set_user_lookup(2) [of sv f uid k] server_okD(3) [OF wd_invD(1) [OF assms]] by (simp add: wd_users_user_with_id_def)

lemma wd_quiet_inv_users:
  assumes "wd_inv sv" and "wd_quiet sv sv'"
  shows "rel_option user_quiet (wd_users_user_with_id sv k) (wd_users_user_with_id sv' k)"
  unfolding wd_users_user_with_id_def by (rule wd_quiet_users(3) [OF assms(2) server_okD(3) [OF wd_invD(1) [OF assms(1)]]])

lemma wd_user_drop_subscriptions:
  fixes account :: wd_account
  assumes "0 < page" and "user_ok uid u"
  defines "v \<equiv> wd_user_drop_subscriptions page account u"
  shows "u_account v = u_account u" "u_login v = u_login u" "u_color v = u_color u" "u_nick v = u_nick u" "u_state v = u_state u"
    "u_subscribed_accounts v \<longleftrightarrow> u_subscribed_accounts u \<and> wd_account_boolean ''wired.account.account.list_accounts'' account"
    "u_subscribed_boards v \<longleftrightarrow> u_subscribed_boards u \<and> wd_account_boolean ''wired.account.board.read_boards'' account"
    "u_subscribed_log v \<longleftrightarrow> u_subscribed_log u \<and> wd_account_boolean ''wired.account.log.view_log'' account"
    "\<not> wd_account_boolean ''wired.account.file.list_files'' account \<Longrightarrow> wi_set_count (u_subscribed_paths v) = 0"
proof -
  define u1 where "u1 = (if \<not> wd_account_boolean ''wired.account.account.list_accounts'' account \<and> u_subscribed_accounts u
    then u\<lparr>u_subscribed_accounts := False\<rparr> else u)"
  define u2 where "u2 = (if \<not> wd_account_boolean ''wired.account.board.read_boards'' account \<and> u_subscribed_boards u1
    then u1\<lparr>u_subscribed_boards := False\<rparr> else u1)"
  define w where "w = (if \<not> wd_account_boolean ''wired.account.log.view_log'' account \<and> u_subscribed_log u2
    then u2\<lparr>u_subscribed_log := False\<rparr> else u2)"
  have w: "v = (if \<not> wd_account_boolean ''wired.account.file.list_files'' account \<and> wi_set_count (u_subscribed_paths w) > 0
      then wd_user_unsubscribe_paths page w else w)"
    unfolding v_def wd_user_drop_subscriptions_def Let_def w_def u2_def u1_def by (rule refl)
  have f: "u_account w = u_account u" "u_login w = u_login u" "u_color w = u_color u" "u_nick w = u_nick u" "u_state w = u_state u"
      "u_subscribed_paths w = u_subscribed_paths u" "u_subscribed_virtualpaths w = u_subscribed_virtualpaths u"
      "u_subscribed_accounts w \<longleftrightarrow> u_subscribed_accounts u \<and> wd_account_boolean ''wired.account.account.list_accounts'' account"
      "u_subscribed_boards w \<longleftrightarrow> u_subscribed_boards u \<and> wd_account_boolean ''wired.account.board.read_boards'' account"
      "u_subscribed_log w \<longleftrightarrow> u_subscribed_log u \<and> wd_account_boolean ''wired.account.log.view_log'' account"
    by (auto simp: w_def u2_def u1_def)
  have g: "u_account (wd_user_unsubscribe_paths page w) = u_account w" "u_login (wd_user_unsubscribe_paths page w) = u_login w"
    "u_color (wd_user_unsubscribe_paths page w) = u_color w" "u_nick (wd_user_unsubscribe_paths page w) = u_nick w"
    "u_state (wd_user_unsubscribe_paths page w) = u_state w"
    "u_subscribed_accounts (wd_user_unsubscribe_paths page w) = u_subscribed_accounts w"
    "u_subscribed_boards (wd_user_unsubscribe_paths page w) = u_subscribed_boards w"
    "u_subscribed_log (wd_user_unsubscribe_paths page w) = u_subscribed_log w"
    by (simp_all add: wd_user_unsubscribe_paths_def Let_def)
  show "u_account v = u_account u" "u_login v = u_login u" "u_color v = u_color u" "u_nick v = u_nick u" "u_state v = u_state u"
    "u_subscribed_accounts v \<longleftrightarrow> u_subscribed_accounts u \<and> wd_account_boolean ''wired.account.account.list_accounts'' account"
    "u_subscribed_boards v \<longleftrightarrow> u_subscribed_boards u \<and> wd_account_boolean ''wired.account.board.read_boards'' account"
    "u_subscribed_log v \<longleftrightarrow> u_subscribed_log u \<and> wd_account_boolean ''wired.account.log.view_log'' account"
    by (simp_all add: w g f)
  have "set_keyed True (u_subscribed_paths w)" "dict_keyed (=) (u_subscribed_virtualpaths w)"
    using assms(2) by (simp_all add: f user_ok_def)
  note p = wd_user_unsubscribe_paths [OF assms(1) this]
  have "wi_set_count (u_subscribed_paths (wd_user_unsubscribe_paths page w)) = 0"
    by (simp add: set_keyed_entries(4) [OF p(1)] p(2))
  then show "\<not> wd_account_boolean ''wired.account.file.list_files'' account \<Longrightarrow> wi_set_count (u_subscribed_paths v) = 0"
    by (simp add: w)
qed

lemma wd_accounts_reload_account_users:
  assumes "wd_inv sv" and "u_account (wd_user sv uid) \<noteq> None" and "wd_accounts_reload_account uid name sv = Inr sv'"
  shows "rel_option (if k = uid
      then (case wd_accounts_read_user_and_group (sv_garbage sv) sv name of None \<Rightarrow> user_quiet | Some new \<Rightarrow> session_updated sv new)
      else user_quiet) (wd_users_user_with_id sv k) (wd_users_user_with_id sv' k)"
proof (cases "wd_accounts_read_user_and_group (sv_garbage sv) sv name")
  case None
  with assms(3) have "sv' = sv" by (simp add: wd_accounts_reload_account_def)
  then show ?thesis by (simp add: None wd_users_user_with_id_def)
next
  case (Some new)
  define sv1 where "sv1 = wd_set_user (wd_user_reload sv new) uid sv"
  define sv2 where "sv2 = (if wd_user_reload_changes sv new (wd_user sv uid) then wd_user_broadcast_status uid sv1 else sv1)"
  define sv3 where "sv3 = wd_set_user (wd_user_drop_subscriptions (sv_page sv2) new) uid sv2"
  have i1: "wd_inv sv1" unfolding sv1_def
  proof (rule wd_inv_set_user [OF assms(1)])
    fix u assume u: "wd_users_user_with_id sv uid = Some u" "session_ok uid u"
    then have "wd_user sv uid = u" by (simp add: wd_user_def wd_users_user_with_id_def)
    with u assms(2) session_step_reload [of uid u new UNIV sv] show "session_ok uid (wd_user_reload sv new u)" by (simp add: session_step_def)
  qed
  have q2: "wd_quiet sv1 sv2" by (simp add: sv2_def wd_broadcast_quiets)
  have i2: "wd_inv sv2" by (rule wd_inv_quiet [OF q2 i1])
  note p = server_okD(5) [OF wd_invD(1) [OF i2]]
  have i3: "wd_inv sv3" unfolding sv3_def
    using session_step_drop [OF _ p] by (intro wd_inv_set_user i2) (simp add: session_step_def)
  have q3: "wd_quiet sv3 sv'"
  proof (rule wd_quiet_trans)
    show "wd_quiet sv3 (wd_user_send_message uid (wd_account_privileges_message (sv_page sv3) new) sv3)"
      by (rule wd_user_send_message_quiet)
    have "wd_accounts_reload_account uid name sv = wd_boards_reload_account uid (u_account (wd_user sv uid)) (Some new)
        (wd_user_send_message uid (wd_account_privileges_message (sv_page sv3) new) sv3)"
      unfolding wd_accounts_reload_account_def Some option.case Let_def sv3_def sv2_def sv1_def by (rule refl)
    with assms(3) show "wd_quiet (wd_user_send_message uid (wd_account_privileges_message (sv_page sv3) new) sv3) sv'"
      using wd_boards_reload_account_quiet by simp
  qed
  note l = wd_set_user_inv_lookup [OF assms(1), of "wd_user_reload sv new" uid k, folded sv1_def]
    wd_quiet_inv_users [OF i1 q2, of k] wd_set_user_inv_lookup [OF i2, of "wd_user_drop_subscriptions (sv_page sv2) new" uid k, folded sv3_def]
    wd_quiet_inv_users [OF i3 q3, of k]
  show ?thesis
  proof (cases "wd_users_user_with_id sv k")
    case None
    with l show ?thesis by (simp split: if_splits)
  next
    case u: (Some u)
    show ?thesis
    proof (cases "k = uid")
      case False
      then obtain v where v: "wd_users_user_with_id sv2 k = Some v" "user_quiet u v"
        using l(1,2) u by (auto simp: option_rel_Some1)
      with False l(3,4) obtain w where "wd_users_user_with_id sv' k = Some w" "user_quiet v w"
        by (auto simp: option_rel_Some1)
      with False u v user_quiet_trans show ?thesis by auto
    next
      case True
      then obtain v where v: "wd_users_user_with_id sv2 k = Some v" "user_quiet (wd_user_reload sv new u) v"
        using l(1,2) u by (auto simp: option_rel_Some1)
      with True l(3,4) obtain w where w: "wd_users_user_with_id sv' k = Some w" "user_quiet (wd_user_drop_subscriptions (sv_page sv2) new v) w"
        by (auto simp: option_rel_Some1)
      have "user_ok k v" using wd_invD(3) [OF i2 v(1)] by (simp add: session_ok_def)
      note d = wd_user_drop_subscriptions [OF p this, of new]
      have "u_account v = Some new \<and> u_login v = Some (wd_account_string ''wired.account.name'' new) \<and>
        u_color v = wd_account_color new sv \<and> u_state v \<in> {u_state u, WD_USER_DISCONNECTED} \<and>
        u_nick v = (if wd_account_boolean ''wired.account.user.cannot_set_nick'' new then Some (wd_account_nick new) else u_nick u) \<and>
        u_subscribed_accounts v = u_subscribed_accounts u \<and> u_subscribed_boards v = u_subscribed_boards u \<and>
        u_subscribed_log v = u_subscribed_log u"
        using v(2) unfolding user_quiet_def by (elim disjE) (simp_all add: wd_user_reload_def)
      then have "session_updated sv new u (wd_user_drop_subscriptions (sv_page sv2) new v)"
        by (simp add: session_updated_def d)
      with w(2) have "session_updated sv new u w" by (rule session_updated_quiet [rotated])
      with True u w(1) show ?thesis by (simp add: Some)
    qed
  qed
qed

lemma session_updated_after_quiet: "user_quiet u v \<Longrightarrow> session_updated sv a v w \<Longrightarrow> session_updated sv a u w"
  unfolding user_quiet_def by (elim disjE) (simp_all add: session_updated_def)

text \<open>What the loop does to one session: nothing but what sending does, where it was not selected.\<close>

definition session_result :: "(wd_account \<Rightarrow> bool) \<Rightarrow> (wd_account \<Rightarrow> string) \<Rightarrow> wd_server \<Rightarrow> wd_user \<Rightarrow> wd_user \<Rightarrow> bool" where
  "session_result selected name sv u u' \<longleftrightarrow>
     (case u_account u of
        None \<Rightarrow> user_quiet u u'
      | Some a \<Rightarrow>
          if selected a then
            (case wd_accounts_read_user_and_group (sv_garbage sv) sv (name a) of
               None \<Rightarrow> user_quiet u u' | Some new \<Rightarrow> session_updated sv new u u')
          else user_quiet u u')"

lemma wd_read_same:
  assumes "accounts_same sv sv'"
  shows "wd_accounts_read_user_and_group (sv_garbage sv') sv' name = wd_accounts_read_user_and_group (sv_garbage sv) sv name"
proof -
  have r: "wd_accounts_read_user sv' = wd_accounts_read_user sv" "wd_accounts_read_group sv' = wd_accounts_read_group sv"
    using assms by (auto simp: accounts_same_iff wd_accounts_read_user_def wd_accounts_read_group_def)
  have f: "sv_page sv' = sv_page sv" "sv_garbage sv' = sv_garbage sv" using assms by (simp_all add: accounts_same_iff)
  show ?thesis unfolding wd_accounts_read_user_and_group_def r f by (rule refl)
qed

lemma session_result_cong:
  assumes "accounts_same sv sv'"
  shows "session_result selected name sv' = session_result selected name sv"
proof -
  have "session_updated sv' = session_updated sv"
    by (rule ext, rule session_updated_cong) (use assms in \<open>simp add: accounts_same_iff\<close>)
  then show ?thesis by (intro ext) (simp only: session_result_def wd_read_same [OF assms])
qed

lemma session_result_quiet:
  assumes "user_quiet u v" and "session_result selected name sv v w"
  shows "session_result selected name sv u w"
proof -
  have "u_account v = u_account u" using assms(1) by (auto simp: user_quiet_def)
  with assms(2) show ?thesis
    by (auto simp: session_result_def intro: user_quiet_trans [OF assms(1)] session_updated_after_quiet [OF assms(1)]
        split: option.splits if_splits)
qed

lemma session_result_then_quiet:
  "session_result selected name sv u v \<Longrightarrow> user_quiet v w \<Longrightarrow> session_result selected name sv u w"
  by (auto simp: session_result_def intro: user_quiet_trans session_updated_quiet split: option.splits if_splits)

lemma rel_option_trans_some:
  assumes "rel_option P x y" and "rel_option Q y z" and "\<And>a b c. P a b \<Longrightarrow> Q b c \<Longrightarrow> R a c"
  shows "rel_option R x z"
  using assms by (auto elim!: option.rel_cases)

lemma wd_accounts_reload_sessions_users:
  assumes "wd_inv sv" and "wd_accounts_reload_sessions selected name sv = Inr sv'"
  shows "rel_option (session_result selected name sv) (wd_users_user_with_id sv k) (wd_users_user_with_id sv' k)"
proof -
  let ?f = "\<lambda>uid sv. case u_account (wd_user sv uid) of
         None \<Rightarrow> Inr sv
       | Some useraccount \<Rightarrow>
           if selected useraccount then wd_accounts_reload_account uid (name useraccount) sv else Inr sv"
  have one: "wd_inv sv1 \<and> accounts_same sv sv1 \<and>
      rel_option (if k = x then session_result selected name sv else user_quiet) (wd_users_user_with_id sv k) (wd_users_user_with_id sv1 k)"
    if i: "wd_inv sv" and r: "?f x sv = Inr sv1" for x sv sv1
  proof (cases "\<exists>a. u_account (wd_user sv x) = Some a \<and> selected a")
    case True
    then obtain a where a: "u_account (wd_user sv x) = Some a" "selected a" by blast
    with r have s: "wd_accounts_reload_account x (name a) sv = Inr sv1" by simp
    have "wd_safe (wd_stays sv) sv {} (wd_accounts_reload_account x (name a) sv)"
      by (rule wd_safe_reload_account [OF wd_good_refl [OF i] a(1)])
    then have "wd_inv sv1" by (simp add: s wd_safe_def wd_good_def)
    moreover have "accounts_same sv sv1"
      using accounts.view_reload_account [OF same_view_refl, of sv x "name a"] by (simp add: s kept_viewD)
    moreover have "rel_option (if k = x then session_result selected name sv else user_quiet) (wd_users_user_with_id sv k) (wd_users_user_with_id sv1 k)"
    proof (cases "k = x")
      case True
      have "session_result selected name sv u = (case wd_accounts_read_user_and_group (sv_garbage sv) sv (name a) of
          None \<Rightarrow> user_quiet | Some new \<Rightarrow> session_updated sv new) u" if "wd_users_user_with_id sv x = Some u" for u
      proof -
        have "u_account u = Some a" using that a(1) by (simp add: wd_user_def wd_users_user_with_id_def)
        with a(2) show ?thesis by (intro ext) (simp add: session_result_def split: option.split)
      qed
      then show ?thesis
        using wd_accounts_reload_account_users [OF i _ s, of k] a(1) True
        by (cases "wd_users_user_with_id sv x") (simp_all add: option_rel_Some1)
    qed (use wd_accounts_reload_account_users [OF i _ s, of k] a in simp)
    ultimately show ?thesis by blast
  next
    case False
    with r have sv1: "sv1 = sv" by (auto split: option.splits if_splits)
    have "session_result selected name sv u u" if "wd_users_user_with_id sv x = Some u" for u
      using that False by (auto simp: session_result_def wd_user_def wd_users_user_with_id_def split: option.split)
    then show ?thesis
      using i by (cases "wd_users_user_with_id sv k") (auto simp: sv1 same_view_refl)
  qed
  have run: "rel_option (if k \<in> set xs then session_result selected name sv else user_quiet) (wd_users_user_with_id sv k) (wd_users_user_with_id sv' k)"
    if "wd_inv sv" "distinct xs" "wd_each ?f xs sv = Inr sv'" for xs sv
    using that
  proof (induction xs arbitrary: sv)
    case Nil
    then show ?case by (simp add: wd_users_user_with_id_def)
  next
    case (Cons x xs)
    then obtain sv1 where s: "?f x sv = Inr sv1" "wd_each ?f xs sv1 = Inr sv'" by (cases "?f x sv") auto
    note o = one [OF Cons.prems(1) s(1)]
    have r: "rel_option (if k \<in> set xs then session_result selected name sv1 else user_quiet) (wd_users_user_with_id sv1 k) (wd_users_user_with_id sv' k)"
      by (rule Cons.IH [OF _ _ s(2)]) (use o Cons.prems(2) in simp_all)
    show ?case
    proof (cases "k = x")
      case True
      with o have "rel_option (session_result selected name sv) (wd_users_user_with_id sv k) (wd_users_user_with_id sv1 k)" by simp
      moreover have "rel_option user_quiet (wd_users_user_with_id sv1 k) (wd_users_user_with_id sv' k)" using True r Cons.prems(2) by simp
      ultimately have "rel_option (session_result selected name sv) (wd_users_user_with_id sv k) (wd_users_user_with_id sv' k)"
        by (rule rel_option_trans_some) (rule session_result_then_quiet)
      with True show ?thesis by simp
    next
      case False
      with o have q: "rel_option user_quiet (wd_users_user_with_id sv k) (wd_users_user_with_id sv1 k)" by simp
      show ?thesis
      proof (cases "k \<in> set xs")
        case True
        with r session_result_cong [of sv sv1] o
        have "rel_option (session_result selected name sv) (wd_users_user_with_id sv1 k) (wd_users_user_with_id sv' k)" by simp
        with q have "rel_option (session_result selected name sv) (wd_users_user_with_id sv k) (wd_users_user_with_id sv' k)"
          by (rule rel_option_trans_some) (rule session_result_quiet)
        with True show ?thesis by simp
      next
        case f: False
        with r have "rel_option user_quiet (wd_users_user_with_id sv1 k) (wd_users_user_with_id sv' k)" by simp
        with q have "rel_option user_quiet (wd_users_user_with_id sv k) (wd_users_user_with_id sv' k)"
          by (rule rel_option_trans_some) (rule user_quiet_trans)
        with f False show ?thesis by simp
      qed
    qed
  qed
  have keys: "distinct (dict_keys (sv_users sv))" "set (dict_keys (sv_users sv)) = dom (wi_dictionary_data_for_key (sv_users sv))"
    using dict_keys_entries(2,3) [OF server_okD(3) [OF wd_invD(1) [OF assms(1)]]] by simp_all
  from run [OF assms(1) keys(1) assms(2) [unfolded wd_accounts_reload_sessions_def]] show ?thesis
    by (cases "wd_users_user_with_id sv k") (simp_all add: keys(2) wd_users_user_with_id_def domIff)
qed

end
