(* ===== verification/Wd_Account_Claims.thy ===== *)
theory Wd_Account_Claims
  imports Wd_Account_Session Wd_Protocol
begin

text \<open>
  The properties of whole runs, with the messages on accounts: what holds in every state, who
  is logged in, what can crash the server, and what the editing of accounts does to the
  privileges in the tables and to the sessions. A run has no message whose handler is not
  modelled: those on files, transfers, settings, trackers and the log.
\<close>

subsection \<open>Properties of runs\<close>

lemma wd_login_acceptedE:
  assumes "wd_login_accepted t uid m account"
  obtains login where "p7_string m ''wired.user.login'' = Some login"
    and "wd_accounts_read_user_and_group (sv_garbage t) t login = Some account"
    and "p7_string m ''wired.user.password'' = Some (wd_account_string ''wired.account.password'' account)"
    and "\<not> fst (wd_banlist_ip_is_banned (u_ip (wd_user t uid)) t)"
  using assms by (auto simp: wd_login_accepted_def wd_password_matches_def)



text \<open>
  C3: While the database works, a message from a user who was not disconnected, that has its
  required fields and whose handler is modelled (it is not on files, transfers, settings,
  trackers or the log), can crash the server in these ways only: asking for information on a
  user who has not sent client information; disconnecting or banning a user without an account;
  a login from an address that a ban without expiry matches, if the date that nobody set is not
  NULL by chance; and what \<open>wd_board_hazards\<close> lists of the boards: editing a thread, or editing
  or deleting a post, that is not there; a thread whose board is not there; showing or moving a
  thread of an author without an icon; renaming a board from or to a name that starts with a
  tilde; and moving a board, which may also never return. No message on accounts does.
\<close>

theorem wd_messages_handle_message_crashes:
  assumes "wd_inv sv" and "wd_users_user_with_id sv uid = Some u" and "wd_message_known m"
    and "sv_db_ok sv" and "u_state u \<noteq> WD_USER_DISCONNECTED"
    and "wd_messages_handle_message (wd_account_handlers garbage other) uid m sv = Inl e"
  shows "e = Null_Client_Info \<and> m_name m = ''wired.user.get_info'' \<and>
      (\<exists>peer. wd_users_user_with_id sv (p7_uint32_arg sv m ''wired.user.id'') = Some peer \<and> u_client_info peer = None) \<or>
    e = Null_Account \<and> m_name m \<in> {''wired.user.disconnect_user'', ''wired.user.ban_user''} \<and>
      (\<exists>peer. wd_users_user_with_id sv (p7_uint32_arg sv m ''wired.user.id'') = Some peer \<and> u_account peer = None) \<or>
    e = Uninitialised_Date \<and> m_name m = ''wired.send_login'' \<and> \<not> sv_uninitialised_null sv \<and>
      (\<exists>pattern. (pattern, None) \<in> set (sv_banlist sv) \<and> wi_ip_matches_string (sv_undefined sv) pattern (u_ip u)) \<or>
    (\<exists>h. map_of wd_message_handlers (m_name m) = Some h \<and> e \<in> wd_board_hazards sv m h)"
proof -
  note w = wd_user_of [OF assms(2)]
  have ok: "session_ok uid u" by (rule wd_invD(3) [OF assms(1,2)])
  show ?thesis
  proof (rule wd_message_knownE [OF assms(3), where garbage = garbage])
    fix name handler
    assume "map_of wd_message_handlers (m_name m) = Some (H_other name)" "map_of (wd_account_messages garbage) name = Some handler"
    from wd_handle_account_message_safe [OF assms(1) this, of uid other] ok assms(4,5) show ?thesis
      by (cases "u_state u") (auto simp: assms(6) wd_safe_def w session_ok_def user_ok_def split: if_splits)
  next
    assume modelled: "wd_message_modelled m"
    obtain h where h: "map_of wd_message_handlers (m_name m) = Some h"
      using assms(6) by (cases "map_of wd_message_handlers (m_name m)") (auto simp: wd_messages_handle_message_def wd_reply_error_def)
    have "wd_users_user_with_id sv uid \<noteq> None" using assms(2) by simp
    from wd_messages_handle_message_safe [OF assms(1) this modelled h, of "wd_account_handlers garbage other"]
    have e: "wd_admitted (u_state u) h" "e \<in> wd_hazards sv uid m h"
      unfolding assms(6) wd_safe_def w using assms(4) by (auto split: if_splits)
    have "u_client_info u \<noteq> None" if "h \<in> {H_send_login, H_chat_join_chat}"
      using ok e(1) assms(5) that by (cases "u_state u") (auto simp: session_ok_def user_ok_def wd_admitted_def)
    moreover have "u_account u \<noteq> None" if "h \<notin> set wd_free_handlers"
      using ok e(1) assms(5) that
      by (cases "u_state u") (auto simp: session_ok_def user_ok_def wd_admitted_def wd_free_handlers_def)
    moreover have "\<exists>pattern. (pattern, None) \<in> set (sv_banlist sv) \<and> wi_ip_matches_string (sv_undefined sv) pattern (u_ip u)"
      if "wd_banned_undated sv uid"
      using that wd_banlist_ip_is_banned_undated by (simp add: wd_banned_undated_def w)
    ultimately have "e = Null_Client_Info \<and> h = H_user_get_info \<and>
        (\<exists>peer. wd_users_user_with_id sv (p7_uint32_arg sv m ''wired.user.id'') = Some peer \<and> u_client_info peer = None) \<or>
      e = Null_Account \<and> h \<in> {H_user_disconnect_user, H_user_ban_user} \<and>
        (\<exists>peer. wd_users_user_with_id sv (p7_uint32_arg sv m ''wired.user.id'') = Some peer \<and> u_account peer = None) \<or>
      e = Uninitialised_Date \<and> h = H_send_login \<and> \<not> sv_uninitialised_null sv \<and>
        (\<exists>pattern. (pattern, None) \<in> set (sv_banlist sv) \<and> wi_ip_matches_string (sv_undefined sv) pattern (u_ip u)) \<or>
      e \<in> wd_board_hazards sv m h"
      using e(2) unfolding wd_hazards_def Let_def w by (elim UnE) (auto split: if_splits)
    then show ?thesis using wd_handler_name(1-4) [of "m_name m"] h by auto
  qed
qed


subsection \<open>What messages on accounts do\<close>

text \<open>Every message on accounts that is handled is a step of the tables of accounts.\<close>

definition wd_account_message_names :: "string list" where
  "wd_account_message_names = map fst (wd_account_messages (\<lambda>_. 0))"

lemma wd_account_message_names: "fst ` set (wd_account_messages garbage) = set wd_account_message_names"
  by (simp add: wd_account_messages_def wd_account_message_names_def)

lemma wd_account_messages_other:
  assumes "name \<in> fst ` set (wd_account_messages garbage)"
  shows "map_of wd_message_handlers name = Some (H_other name)"
proof -
  have "list_all (\<lambda>name. map_of wd_message_handlers name = Some (H_other name)) wd_account_message_names" by code_simp
  with assms show ?thesis by (simp only: wd_account_message_names list_all_iff)
qed

lemma wd_handle_account_message_step:
  assumes "accounts_ok sv" and "u_account (wd_user sv uid) = Some editor"
    and "m_name m \<in> fst ` set (wd_account_messages garbage)"
  shows "accounts_stepped (wd_editor_has sv editor) sv (wd_messages_handle_message (wd_account_handlers garbage other) uid m sv)"
proof -
  have h: "map_of wd_message_handlers (m_name m) = Some (H_other (m_name m))"
    by (rule wd_account_messages_other [OF assms(3)])
  obtain handler where a: "map_of (wd_account_messages garbage) (m_name m) = Some handler"
    using assms(3) by (meson map_of_eq_None_iff not_Some_eq)
  show ?thesis
  proof (cases "u_state (wd_user sv uid) \<in> {WD_USER_CONNECTED, WD_USER_GAVE_CLIENT_INFO}")
    case True
    then have "wd_messages_handle_message (wd_account_handlers garbage other) uid m sv =
        wd_reply_error uid ''wired.error.message_out_of_sequence'' m sv"
      by (auto simp: wd_messages_handle_message_def h Let_def)
    then show ?thesis by (simp add: accounts_stepped_error [OF assms(1)])
  next
    case False
    then have r: "wd_messages_handle_message (wd_account_handlers garbage other) uid m sv =
        wd_bind (handler uid m sv) (\<lambda>sv.
          let sv = wd_set_user (\<lambda>u. u\<lparr>u_idle_time := sv_now sv\<rparr>) uid sv
          in if u_idle (wd_user sv uid)
             then Inr (wd_user_broadcast_status uid (wd_set_user (\<lambda>u. u\<lparr>u_idle := False\<rparr>) uid sv))
             else Inr sv)"
      by (simp add: wd_messages_handle_message_def h [unfolded wd_example_message] wd_account_handlers_def a)
    show ?thesis
    proof (cases "handler uid m sv")
      case (Inr sv1)
      with accounts_step_message [OF assms(1,2) a] have "accounts_step (wd_editor_has sv editor) sv sv1"
        by (simp add: accounts_stepped_def)
      then show ?thesis
        unfolding r Inr wd_bind_simps Let_def
        by (rule accounts_stepped_then) (intro wd_accounts_keep accounts.view_sends same_view_refl)
    qed (simp add: r accounts_stepped_def)
  qed
qed

text \<open>
  C30: Privileges are not handed out beyond one's own: whatever message on accounts a user sends
  whose account may not raise privileges, every privilege that an account, completed by its
  group, has afterwards the sender's account has as well, or the account of that name had it
  before, completed by its group as it was then. The tables have well-typed rows under unique
  names, which the message keeps, and the database works.
\<close>

theorem wd_account_messages_contain_privileges:
  assumes "accounts_ok sv" and "sv_db_ok sv" and "u_account (wd_user sv uid) = Some editor"
    and "\<not> wd_account_boolean ''wired.account.account.raise_account_privileges'' editor"
    and "m_name m \<in> fst ` set (wd_account_messages garbage)"
    and "wd_messages_handle_message (wd_account_handlers garbage other) uid m sv = Inr sv'"
    and "account_privilege (sv_page sv) field"
    and "wd_accounts_read_user_and_group (sv_garbage sv') sv' name = Some account'" and "wd_account_boolean field account'"
  shows "accounts_ok sv' \<and> (wd_account_flag (sv_garbage sv) field editor \<or>
    (\<exists>account. wd_accounts_read_user_and_group (sv_garbage sv) sv name = Some account \<and> wd_account_boolean field account))"
proof -
  have s: "accounts_step (wd_editor_has sv editor) sv sv'"
    using wd_handle_account_message_step [OF assms(1,3,5), of other] assms(6) by (simp add: accounts_stepped_def)
  then have ok: "accounts_ok sv'" "sv_db_ok sv'" "sv_page sv' = sv_page sv" using assms(2) by (simp_all add: accounts_step_def)
  have "table_flag (sv_db_users sv') (sv_db_groups sv') name field"
    using wd_accounts_read_flag [of sv' field "sv_garbage sv'" name] ok assms(7-9) by auto
  with s assms(7) have "wd_editor_has sv editor field \<or> table_flag (sv_db_users sv) (sv_db_groups sv) name field"
    by (auto simp: accounts_step_def tables_add_def)
  then show ?thesis
    using wd_accounts_read_flag [OF assms(7,1,2), of "sv_garbage sv" name] assms(4) ok(1) by (simp add: wd_editor_has_def)
qed

lemma wd_accounts_notify_quiet: "wd_quiet sv (wd_accounts_notify_subscribers sv)"
  unfolding wd_accounts_notify_subscribers_def by (rule wd_quiet_fold) (simp add: wd_user_send_message_quiet)

lemma wd_account_stamp_names:
  assumes "dict_keyed (=) account" and "date_field \<in> {''wired.account.creation_time'', ''wired.account.modification_time''}"
  shows "wd_account_string ''wired.account.name'' (wd_account_stamp date_field sv uid account) = wd_account_string ''wired.account.name'' account"
    and "wd_account_string ''wired.account.new_name'' (wd_account_stamp date_field sv uid account) =
      wd_account_string ''wired.account.new_name'' account"
  using assms(2) dict.lookup_put [OF assms(1)] dict.lookup_put [OF dict.ok_put [OF assms(1)]] dict.lookup_del [OF dict.ok_put [OF assms(1)]]
  by (auto simp: wd_account_stamp_def Let_def wd_account_string_def split: option.split)

lemma wd_account_take_new_name_names:
  assumes "dict_keyed (=) account"
  shows "wd_account_string ''wired.account.name'' (wd_account_take_new_name account) =
      (let newname = wd_account_string ''wired.account.new_name'' account
       in if newname = [] then wd_account_string ''wired.account.name'' account else newname)"
    and "wd_account_string ''wired.account.new_name'' (wd_account_take_new_name account) = wd_account_string ''wired.account.new_name'' account"
    and "dict_keyed (=) (wd_account_take_new_name account)"
  using dict.lookup_put [OF assms] dict.ok_put [OF assms] assms
  by (auto simp: wd_account_take_new_name_def Let_def wd_account_string_def)

text \<open>
  C40: What the editing of a user does beside the row, where it succeeds. All boards, threads
  and posts of the account's name go to its new name, which is the empty string where the edit
  gives none: then they are disowned. Every session whose account has the name that the account
  has after the edit takes over the account as the table has it now, completed by its group; all
  other sessions are left as they were, but for those that lose their socket. So the sessions of an account that
  was renamed keep the old account with its privileges.
\<close>

theorem wd_accounts_edit_user_effect:
  assumes "wd_inv sv" and "dict_keyed (=) account" and "wd_accounts_edit_user account uid m sv = Inr (True, sv')"
    and "name = wd_account_string ''wired.account.name'' account" and "newname = wd_account_string ''wired.account.new_name'' account"
  shows "sv_boards sv' = map (\<lambda>b. if bo_owner b = name then b\<lparr>bo_owner := newname\<rparr> else b) (sv_boards sv) \<and>
    sv_threads sv' = map (\<lambda>t. if th_login t = name then t\<lparr>th_login := newname\<rparr> else t) (sv_threads sv) \<and>
    sv_posts sv' = map (\<lambda>p. if po_login p = name then p\<lparr>po_login := newname\<rparr> else p) (sv_posts sv) \<and>
    (\<forall>k u. wd_users_user_with_id sv k = Some u \<longrightarrow>
      (\<exists>u'. wd_users_user_with_id sv' k = Some u' \<and>
        (case (u_account u, wd_accounts_read_user_and_group (sv_garbage sv') sv' (if newname = [] then name else newname)) of
           (Some old, Some new) \<Rightarrow>
             if wd_account_string ''wired.account.name'' old = (if newname = [] then name else newname)
             then session_updated sv' new u u' else user_quiet u u'
         | _ \<Rightarrow> user_quiet u u')))"
proof -
  let ?final = "if newname = [] then name else newname"
  define stamped where "stamped = wd_account_stamp ''wired.account.modification_time'' sv uid (wd_account_take_new_name account)"
  note t = wd_account_take_new_name_names [OF assms(2)]
  have n: "wd_account_string ''wired.account.name'' stamped = ?final" "wd_account_string ''wired.account.new_name'' stamped = newname"
    using wd_account_stamp_names [OF t(3), of "''wired.account.modification_time''" sv uid]
    by (simp_all add: stamped_def t(1,2) assms(4,5) Let_def)
  have db: "sv_db_ok sv" using assms(3) unfolding wd_accounts_edit_user_def Let_def by (rule contrapos_pp) simp
  obtain rows where rows: "wd_db_update_account (sv_page sv) FIELD_USER stamped name (sv_db_users sv) = Some rows"
    using assms(3) db
    by (auto simp: wd_accounts_edit_user_def Let_def wd_database_failed_def stamped_def assms(4) split: option.splits)
  define sv2 where "sv2 = wd_boards_renamed_user name (Some newname) (sv\<lparr>sv_db_users := rows\<rparr>)"
  define sv3 where "sv3 = wd_accounts_notify_subscribers sv2"
  have "wd_bind (wd_accounts_reload_user_account stamped sv3) (\<lambda>sv. Inr (True, sv)) = Inr (True, sv')"
    using assms(3) db rows unfolding wd_accounts_edit_user_def Let_def
    by (simp add: stamped_def [symmetric] assms(4,5) [symmetric] sv2_def sv3_def)
  then have r: "wd_accounts_reload_user_account stamped sv3 = Inr sv'"
    by (cases "wd_accounts_reload_user_account stamped sv3") simp_all
  have g: "wd_good {} sv sv3" unfolding sv3_def sv2_def by (assumption | rule wd_keep wd_good_refl assms(1))+
  then have i: "wd_inv sv3" by (simp add: wd_good_def)
  have "kept_view boards_view sv2 (wd_accounts_reload_user_account stamped sv3)"
    unfolding sv3_def by (intro boards.view_reload boards.view_notify same_view_refl)
  then have b: "same_view boards_view sv2 sv'" unfolding r by (rule kept_viewD)
  have "accounts_kept sv3 (wd_accounts_reload_user_account stamped sv3)" by (intro accounts.view_reload same_view_refl)
  then have a: "accounts_same sv3 sv'" unfolding r by (rule kept_viewD)
  have "sv_boards sv2 = map (\<lambda>b. if bo_owner b = name then b\<lparr>bo_owner := newname\<rparr> else b) (sv_boards sv) \<and>
    sv_threads sv2 = map (\<lambda>t. if th_login t = name then t\<lparr>th_login := newname\<rparr> else t) (sv_threads sv) \<and>
    sv_posts sv2 = map (\<lambda>p. if po_login p = name then p\<lparr>po_login := newname\<rparr> else p) (sv_posts sv)"
    using db by (simp add: sv2_def wd_boards_renamed_user_def)
  moreover have "\<exists>u'. wd_users_user_with_id sv' k = Some u' \<and>
        (case (u_account u, wd_accounts_read_user_and_group (sv_garbage sv') sv' ?final) of
           (Some old, Some new) \<Rightarrow>
             if wd_account_string ''wired.account.name'' old = ?final then session_updated sv' new u u' else user_quiet u u'
         | _ \<Rightarrow> user_quiet u u')"
    if "wd_users_user_with_id sv k = Some u" for k u
  proof -
    have u2: "wd_users_user_with_id sv2 k = Some u"
      using that by (simp add: sv2_def wd_boards_renamed_user_def wd_users_user_with_id_def)
    have "wd_good {} sv sv2" unfolding sv2_def by (assumption | rule wd_keep wd_good_refl assms(1))+
    then have "wd_inv sv2" by (simp add: wd_good_def)
    from wd_quiet_inv_users [OF this wd_accounts_notify_quiet, of k] u2
    obtain v where v: "wd_users_user_with_id sv3 k = Some v" "user_quiet u v" by (auto simp: sv3_def option_rel_Some1)
    have f: "(let name = newname in if length name = 0 then ?final else name) = ?final" by simp
    from wd_accounts_reload_sessions_users [OF i r [unfolded wd_accounts_reload_user_account_def n f], of k] v(1)
    obtain u' where u': "wd_users_user_with_id sv' k = Some u'"
      and "session_result (\<lambda>a. wd_account_string ''wired.account.name'' a = ?final) (\<lambda>_. ?final) sv3 v u'"
      by (auto simp: option_rel_Some1)
    then have "session_result (\<lambda>a. wd_account_string ''wired.account.name'' a = ?final) (\<lambda>_. ?final) sv' u u'"
      using session_result_quiet [OF v(2)] by (simp only: session_result_cong [OF a])
    moreover define final where "final = ?final"
    ultimately show ?thesis using u' unfolding final_def [symmetric] by (auto simp: session_result_def split: option.splits)
  qed
  ultimately show ?thesis using b by (simp add: same_view_def boards_view_def)
qed

subsection \<open>Examples\<close>

theorem wd_messages_handle_message_crashes_witness:
  "\<exists>peer. wd_users_user_with_id (wd_server_two (wd_example_login [''wired.account.user.get_info'']) (\<lambda>u. u)) 2 = Some peer \<and>
     u_client_info peer = None"
proof -
  let ?sv = "wd_server_two (wd_example_login [''wired.account.user.get_info'']) (\<lambda>u. u)"
  let ?m = "wd_example_message ''wired.user.get_info''"
  have u: "wd_users_user_with_id ?sv 1 = Some (wd_example_login [''wired.account.user.get_info''] (wd_fresh_user 1 ''10.0.0.1''))"
    and p: "wd_users_user_with_id ?sv 2 = Some (wd_fresh_user 2 ''10.0.0.2'')" by (simp_all add: wd_server_two(1))
  have c: "wd_messages_handle_message (wd_account_handlers (\<lambda>_. 0) (\<lambda>_ _ _. Inr)) 1 ?m ?sv = Inl Null_Client_Info"
    by (simp add: wd_messages_handle_message_def wd_message_handlers_def wd_example_message wd_user_of [OF u] wd_example_login
        wd_message_user_get_info_def wd_with_privilege_def wd_privileged p wd_user_reply_user_info_def wd_user_of [OF p] wd_fresh_user)
  have i: "wd_inv ?sv" by (rule wd_server_two(2)) (simp_all add: wd_example_login)
  have "wd_message_known ?m" by (simp add: wd_message_known_def wd_message_handlers_def wd_example_message)
  moreover have "Null_Client_Info \<notin> wd_board_hazards sv m h" for sv m h by (simp add: wd_board_hazards_def Let_def)
  ultimately show ?thesis
    using wd_messages_handle_message_crashes [OF i u _ wd_server_two_fields(1) _ c]
    by (auto simp: wd_example_login wd_example_message)
qed



definition wd_example_row :: wd_account where
  "wd_example_row =
     wi_dictionary_set (wi_dictionary_set (wi_dictionary_init 4 True 0 wi_string_hash (=) Default_Value_Callbacks)
       (AV_String ''guest'') ''wired.account.name'') (AV_Number 1) ''wired.account.board.read_boards''"

lemma wd_example_row:
  "dict_keyed (=) wd_example_row"
  "wi_dictionary_data_for_key wd_example_row name =
     (if name = ''wired.account.board.read_boards'' then Some (AV_Number 1)
      else if name = ''wired.account.name'' then Some (AV_String ''guest'') else None)"
proof -
  have k: "dict_keyed (=) (wi_dictionary_init 4 True 0 wi_string_hash (=) Default_Value_Callbacks :: wd_account)"
    by (rule dict_keyed_init) simp
  note k1 = dict.ok_put [OF k, of "AV_String ''guest''" "''wired.account.name''"]
  show "dict_keyed (=) wd_example_row" unfolding wd_example_row_def by (rule dict.ok_put [OF k1])
  show "wi_dictionary_data_for_key wd_example_row name =
     (if name = ''wired.account.board.read_boards'' then Some (AV_Number 1)
      else if name = ''wired.account.name'' then Some (AV_String ''guest'') else None)"
    by (simp add: wd_example_row_def dict.lookup_put [OF k1] dict.lookup_put [OF k])
qed

lemma wd_read_boards_field:
  "wi_dictionary_data_for_key (account_fields 4) ''wired.account.board.read_boards'' =
     Some (af (Some ''board_read_boards'') ''wired.account.board.read_boards'' FIELD_BOOLEAN 28 False)"
proof -
  have "(0::nat) < 4" by simp
  show ?thesis unfolding wd_account_fields_keyed(2) [OF \<open>(0::nat) < 4\<close>] by code_simp
qed

lemma wd_example_row_ok: "rows_ok 4 [(''guest'', wd_example_row)]"
proof -
  have "(0::nat) < 4" by simp
  have "account_typed 4 wd_example_row"
    using wd_example_row(1) wd_account_name_columns(1) [OF \<open>(0::nat) < 4\<close>] wd_read_boards_field
    by (auto simp: account_typed_def wd_example_row(2) split: if_splits)
  then show ?thesis by (simp add: rows_ok_def wd_example_row(2))
qed

definition wd_server_with_accounts :: wd_server where
  "wd_server_with_accounts = (wd_server_two (wd_example_login [''wired.account.account.read_accounts'']) (\<lambda>u. u))
     \<lparr>sv_db_users := [(''guest'', wd_example_row)]\<rparr>"

theorem wd_account_messages_contain_privileges_witness:
  "\<exists>sv'. wd_messages_handle_message (wd_account_handlers (\<lambda>_. 0) (\<lambda>_ _ _. Inr)) 1
       (wd_example_message ''wired.account.read_user'') wd_server_with_accounts = Inr sv' \<and> accounts_ok sv' \<and>
     wd_accounts_read_user_and_group (sv_garbage sv') sv' ''guest'' = Some wd_example_row \<and>
     wd_account_boolean ''wired.account.board.read_boards'' wd_example_row"
proof -
  let ?sv = "wd_server_with_accounts" and ?m = "wd_example_message ''wired.account.read_user''"
  let ?h = "wd_account_handlers (\<lambda>_. 0) (\<lambda>_ _ _. Inr)"
  have f: "sv_db_users ?sv = [(''guest'', wd_example_row)]" "sv_db_groups ?sv = []" "sv_db_ok ?sv" "sv_page ?sv = 4"
    by (simp_all add: wd_server_with_accounts_def wd_server_two_def wd_server_accept_def wd_user_init_with_socket_def
        wd_user_next_id_def wd_users_add_user_def wd_chats_initialize_def wd_chats_add_chat_def wd_server_start_def
        wd_set_user_def Let_def split: option.split)
  then have ok: "accounts_ok ?sv" by (simp add: accounts_ok_def wd_example_row_ok) (simp add: rows_ok_def)
  have "wd_users_user_with_id ?sv 1 = Some (wd_example_login [''wired.account.account.read_accounts''] (wd_fresh_user 1 ''10.0.0.1''))"
    using wd_server_two(1) [of _ "\<lambda>u. u" 1] by (simp add: wd_server_with_accounts_def wd_users_user_with_id_def)
  note u = wd_user_of [OF this]
  have n: "?m \<in> {m. m_name m \<in> fst ` set (wd_account_messages (\<lambda>_. 0))}"
    by (simp add: wd_example_message wd_account_messages_def)
  have h: "map_of wd_message_handlers (m_name ?m) = Some (H_other (m_name ?m))"
    by (rule wd_account_messages_other) (use n in simp)
  have p: "account_privilege (sv_page ?sv) ''wired.account.board.read_boards''"
    by (simp add: account_privilege_def f(4) wd_read_boards_field)
  let ?r = "wd_messages_handle_message ?h 1 ?m ?sv"
  let ?err = "wd_user_reply_error 1 ''wired.error.account_not_found'' ?m ?sv"
  have "p7_string ?m ''wired.account.name'' = None"
    by (simp add: wd_example_message_def p7_string_def p7_field_def)
  then have "?r = (let sv = wd_set_user (\<lambda>u. u\<lparr>u_idle_time := sv_now ?err\<rparr>) 1 ?err
      in if u_idle (wd_user sv 1) then Inr (wd_user_broadcast_status 1 (wd_set_user (\<lambda>u. u\<lparr>u_idle := False\<rparr>) 1 sv)) else Inr sv)"
    by (simp add: wd_messages_handle_message_def h [unfolded wd_example_message] wd_account_handlers_def wd_account_messages_def wd_example_message(1) u wd_example_login
        wd_message_account_read_user_def wd_with_privilege_def wd_privileged wd_named_def wd_reply_error_def Let_def)
  then obtain sv' where r: "?r = Inr sv'" and "accounts_kept ?sv (Inr sv')"
    by (cases "?r") (auto simp: Let_def intro!: wd_accounts_keep accounts.view_sends same_view_refl split: if_splits)
  then have s: "sv_db_users sv' = [(''guest'', wd_example_row)]" "sv_db_ok sv'" "sv_page sv' = 4" "sv_garbage sv' = sv_garbage ?sv"
    using f by (auto dest!: kept_viewD simp: accounts_same_iff)
  have g: "wd_account_string ''wired.account.group'' wd_example_row = []"
    by (simp add: wd_account_string_def wd_example_row(2))
  have a: "wd_accounts_read_user_and_group (sv_garbage sv') sv' ''guest'' = Some wd_example_row"
    by (simp add: wd_accounts_read_user_and_group_def wd_accounts_read_user_def s g Let_def)
  have b: "wd_account_boolean ''wired.account.board.read_boards'' wd_example_row"
    by (simp add: wd_account_boolean_def wd_account_flag_def wd_example_row(2) wi_number_bool_def)
  have e: "u_account (wd_user ?sv 1) = Some (wd_privileged [''wired.account.account.read_accounts''])" by (simp add: u wd_example_login)
  have "\<not> wd_account_boolean ''wired.account.account.raise_account_privileges'' (wd_privileged [''wired.account.account.read_accounts''])"
    by (simp add: wd_privileged)
  from wd_account_messages_contain_privileges [OF ok f(3) e this _ r p a b] n a b r show ?thesis by auto
qed

theorem wd_accounts_edit_user_effect_witness:
  "\<exists>sv'. wd_accounts_edit_user wd_example_row 1 (wd_example_message ''wired.account.edit_user'')
       ((wd_server_two (\<lambda>u. u) (\<lambda>u. u))\<lparr>sv_boards := [\<lparr>bo_board = ''b'', bo_owner = ''guest'', bo_group = [], bo_mode = 0\<rparr>]\<rparr>) =
     Inr (True, sv') \<and> map bo_owner (sv_boards sv') = [[]]"
proof -
  let ?two = "wd_server_two (\<lambda>u. u) (\<lambda>u. u)"
  let ?sv = "?two\<lparr>sv_boards := [\<lparr>bo_board = ''b'', bo_owner = ''guest'', bo_group = [], bo_mode = 0\<rparr>]\<rparr>"
  let ?m = "wd_example_message ''wired.account.edit_user''"
  have two: "wd_inv ?two" by (rule wd_server_two(2)) simp_all
  have posts: "sv_posts ?two = [] \<and> sv_threads ?two = []"
    by (simp add: wd_server_two_def wd_server_accept_def wd_user_init_with_socket_def wd_user_next_id_def wd_users_add_user_def
        wd_chats_initialize_def wd_chats_add_chat_def wd_server_start_def wd_set_user_def Let_def split: option.split)
  have i: "wd_inv ?sv"
    by (rule wd_inv_cong [OF two]) (use wd_invD(2) [OF two] posts in \<open>simp_all add: tables_ok_def boards_tables_ok_def\<close>)
  have n: "wd_account_string ''wired.account.name'' wd_example_row = ''guest''" "wd_account_string ''wired.account.new_name'' wd_example_row = []"
    by (simp_all add: wd_account_string_def wd_example_row(2))
  have "wd_good (wd_stays ?sv) ?sv ?sv" by (rule wd_good_refl [OF i])
  from wd_safe_account_edits(1) [OF this, of "{}" wd_example_row 1 ?m]
  obtain b sv' where r: "wd_accounts_edit_user wd_example_row 1 ?m ?sv = Inr (b, sv')"
    by (cases "wd_accounts_edit_user wd_example_row 1 ?m ?sv") (auto simp: wd_safe_pair_def wd_safe_def wd_server_two_fields)
  have b
    using r by (auto simp: wd_accounts_edit_user_def Let_def wd_db_update_account_def wd_server_two_fields wd_bind_def split: sum.splits)
  with r have "wd_accounts_edit_user wd_example_row 1 ?m ?sv = Inr (True, sv')" by simp
  from wd_accounts_edit_user_effect [OF i wd_example_row(1) this n [symmetric]] this show ?thesis by simp
qed

end
